(* ===== verification/Prelude.thy ===== *)
theory Prelude
  imports
    Complex_Main
    "HOL-Library.Sublist"
    "HOL-Library.Multiset"
    "HOL-Library.Char_ord"
    "HOL-Library.List_Lexorder"
    "HOL-Library.Word"
begin

text \<open>
  Shared material of the TracePoint development: the collections the component theories
  feed, the model of Go's \<open>float64\<close>, of integer division, and the generic facts on lists,
  sums and binary search that several components use.

  A Go \<open>int\<close>, \<open>int64\<close> or \<open>time.Duration\<close> (nanoseconds) is an \<^typ>\<open>int\<close>, except where the
  width matters (the template generators), where the wrap-around is explicit. A \<open>float64\<close>
  is an exact real with the three special values kept apart, so the code's tests for NaN
  and infinities are branches of the model; rounding is not modelled.
\<close>

named_theorems go_defs \<open>defining equations of small helpers, unfolded by the proofs\<close>
named_theorems inv_intros \<open>introduction rules of component invariants\<close>

section \<open>Numbers\<close>

datatype float64 = Fin real | PosInf | NegInf | NaN

text \<open>The comparisons of IEEE 754: every comparison with NaN is false.\<close>

fun f_less :: "float64 \<Rightarrow> float64 \<Rightarrow> bool" where
  "f_less NaN y = False"
| "f_less x NaN = False"
| "f_less (Fin x) (Fin y) = (x < y)"
| "f_less NegInf y = (y \<noteq> NegInf)"
| "f_less x PosInf = (x \<noteq> PosInf)"
| "f_less x y = False"

fun f_le :: "float64 \<Rightarrow> float64 \<Rightarrow> bool" where
  "f_le NaN y = False"
| "f_le x NaN = False"
| "f_le x y = (x = y \<or> f_less x y)"

fun is_nan :: "float64 \<Rightarrow> bool" where
  "is_nan NaN = True"
| "is_nan x = False"

fun is_inf :: "float64 \<Rightarrow> bool" where
  "is_inf PosInf = True"
| "is_inf NegInf = True"
| "is_inf x = False"

text \<open>The value of a finite number; the code never asks for it before it has tested.\<close>

fun f_val :: "float64 \<Rightarrow> real" where
  "f_val (Fin x) = x"
| "f_val _ = 0"

lemma f_le_Fin [simp]: "f_le (Fin x) (Fin y) \<longleftrightarrow> x \<le> y"
  by auto

lemma f_le_trans: "f_le x y \<Longrightarrow> f_le y z \<Longrightarrow> f_le x z"
  by (cases x; cases y; cases z) auto

lemma not_special_Fin: "\<not> is_nan x \<Longrightarrow> \<not> is_inf x \<Longrightarrow> \<exists>r. x = Fin r"
  by (cases x) auto

lemma f_less_imp_le: "f_less x y \<Longrightarrow> f_le x y"
  by (cases x; cases y) auto

text \<open>Without a NaN the order of \<open>float64\<close> is total.\<close>

lemma f_not_less: "\<not> is_nan x \<Longrightarrow> \<not> is_nan y \<Longrightarrow> \<not> f_less x y \<longleftrightarrow> f_le y x"
  by (cases x; cases y) auto

text \<open>Go's integer division and remainder truncate towards zero.\<close>

definition go_div :: "int \<Rightarrow> int \<Rightarrow> int" where
  "go_div a b = sgn a * sgn b * (\<bar>a\<bar> div \<bar>b\<bar>)"

definition go_mod :: "int \<Rightarrow> int \<Rightarrow> int" where
  "go_mod a b = a - go_div a b * b"

lemma go_div_nonneg [simp]: "0 \<le> a \<Longrightarrow> 0 < b \<Longrightarrow> go_div a b = a div b"
  by (cases "a = 0") (auto simp: go_div_def)

lemma go_mod_nonneg [simp]: "0 \<le> a \<Longrightarrow> 0 < b \<Longrightarrow> go_mod a b = a mod b"
  by (simp add: go_mod_def minus_div_mult_eq_mod)

section \<open>Sums as results\<close>

text \<open>
  A fallible operation returns \<open>error + value\<close>: \<open>Inl\<close> is the returned error, \<open>Inr\<close> the
  result. \<open>rbind\<close> is the early return \<open>if err != nil { return err }\<close>.
\<close>

fun rbind :: "'e + 'a \<Rightarrow> ('a \<Rightarrow> 'e + 'b) \<Rightarrow> 'e + 'b" where
  "rbind (Inl e) f = Inl e"
| "rbind (Inr x) f = f x"

fun is_ok :: "'e + 'a \<Rightarrow> bool" where
  "is_ok (Inl _) = False"
| "is_ok (Inr _) = True"

lemma rbind_Inr: "rbind r f = Inr y \<longleftrightarrow> (\<exists>x. r = Inr x \<and> f x = Inr y)"
  by (cases r) auto

lemma rbind_Inl: "rbind r f = Inl e \<longleftrightarrow> r = Inl e \<or> (\<exists>x. r = Inr x \<and> f x = Inl e)"
  by (cases r) auto

lemma is_ok_iff: "is_ok r \<longleftrightarrow> (\<exists>x. r = Inr x)"
  by (cases r) auto

section \<open>Lists\<close>

lemma sorted_mset_unique: "sorted xs \<Longrightarrow> sorted ys \<Longrightarrow> mset xs = mset ys \<Longrightarrow> xs = ys"
  by (metis properties_for_sort)

lemma sum_list_update_nat:
  "i < length xs \<Longrightarrow> sum_list (xs[i := y]) + xs ! i = sum_list xs + (y::nat)"
  by (induction xs arbitrary: i) (auto split: nat.splits)

lemma sum_list_update_int:
  "i < length xs \<Longrightarrow> sum_list (xs[i := y]) = sum_list xs - xs ! i + (y::int)"
  by (induction xs arbitrary: i) (auto split: nat.splits)

lemma map_update_same: "i < length xs \<Longrightarrow> f y = f (xs ! i) \<Longrightarrow> map f (xs[i := y]) = map f xs"
  by (simp add: map_update list_update_same_conv)

lemma sorted_within: "sorted xs \<Longrightarrow> x \<in> set xs \<Longrightarrow> hd xs \<le> x \<and> x \<le> last (xs :: 'a :: linorder list)"
  by (induction xs) (auto simp: last_in_set)

section \<open>Binary search\<close>

text \<open>
  The search loop of \<open>schedule.segmentAtTime\<close> and \<open>segmentAtCount\<close>: the last index of
  \<open>[lo, hi]\<close> at which a downward closed test holds (\<open>lo\<close> when it holds nowhere).
\<close>

function last_true :: "(nat \<Rightarrow> bool) \<Rightarrow> nat \<Rightarrow> nat \<Rightarrow> nat" where
  "last_true p lo hi =
     (if lo < hi
      then let mid = (lo + hi + 1) div 2
           in if p mid then last_true p mid hi else last_true p lo (mid - 1)
      else lo)"
  by pat_completeness auto
termination
  by (relation "measure (\<lambda>(p, lo, hi). hi - lo)") auto

declare last_true.simps [simp del]

text \<open>
  The loop of \<open>sort.Search\<close>: the first index of \<open>[lo, hi)\<close> at which an upward closed test
  holds, \<open>hi\<close> when there is none.
\<close>

function first_true :: "(nat \<Rightarrow> bool) \<Rightarrow> nat \<Rightarrow> nat \<Rightarrow> nat" where
  "first_true p lo hi =
     (if lo < hi
      then let mid = (lo + hi) div 2
           in if p mid then first_true p lo mid else first_true p (mid + 1) hi
      else lo)"
  by pat_completeness auto
termination
  by (relation "measure (\<lambda>(p, lo, hi). hi - lo)") auto

declare first_true.simps [simp del]

lemma last_true_done [simp]: "\<not> lo < hi \<Longrightarrow> last_true p lo hi = lo"
  by (subst last_true.simps) simp

lemma last_true_step:
  assumes "lo < hi"
  obtains mid where "lo < mid" "mid \<le> hi"
    "last_true p lo hi = (if p mid then last_true p mid hi else last_true p lo (mid - 1))"
proof
  let ?m = "(lo + hi + 1) div 2"
  show "lo < ?m" "?m \<le> hi" using assms by auto
  show "last_true p lo hi = (if p ?m then last_true p ?m hi else last_true p lo (?m - 1))"
    using assms by (subst last_true.simps) (simp add: Let_def)
qed

lemma first_true_done [simp]: "\<not> lo < hi \<Longrightarrow> first_true p lo hi = lo"
  by (subst first_true.simps) simp

lemma first_true_step:
  assumes "lo < hi"
  obtains mid where "lo \<le> mid" "mid < hi"
    "first_true p lo hi = (if p mid then first_true p lo mid else first_true p (mid + 1) hi)"
proof
  let ?m = "(lo + hi) div 2"
  show "lo \<le> ?m" "?m < hi" using assms by auto
  show "first_true p lo hi = (if p ?m then first_true p lo ?m else first_true p (?m + 1) hi)"
    using assms by (subst first_true.simps) (simp add: Let_def)
qed

lemma last_true_range: "lo \<le> hi \<Longrightarrow> lo \<le> last_true p lo hi \<and> last_true p lo hi \<le> hi"
proof (induction "hi - lo" arbitrary: lo hi rule: less_induct)
  case less
  show ?case
  proof (cases "lo < hi")
    case True
    then obtain mid where m: "lo < mid" "mid \<le> hi"
      and eq: "last_true p lo hi = (if p mid then last_true p mid hi else last_true p lo (mid - 1))"
      by (rule last_true_step)
    have d: "hi - mid < hi - lo" "mid - 1 - lo < hi - lo" "lo \<le> mid - 1" using m True by auto
    show ?thesis using less.hyps[OF d(1)] less.hyps[OF d(2)] d m eq by (cases "p mid") auto
  qed (use less.prems in simp)
qed

lemma first_true_range: "lo \<le> hi \<Longrightarrow> lo \<le> first_true p lo hi \<and> first_true p lo hi \<le> hi"
proof (induction "hi - lo" arbitrary: lo hi rule: less_induct)
  case less
  show ?case
  proof (cases "lo < hi")
    case True
    then obtain mid where m: "lo \<le> mid" "mid < hi"
      and eq: "first_true p lo hi = (if p mid then first_true p lo mid else first_true p (mid + 1) hi)"
      by (rule first_true_step)
    have d: "mid - lo < hi - lo" "hi - (mid + 1) < hi - lo" using m True by auto
    show ?thesis using less.hyps[OF d(1)] less.hyps[OF d(2)] d m eq by (cases "p mid") auto
  qed (use less.prems in simp)
qed

lemma last_true_holds: "p lo \<Longrightarrow> lo \<le> hi \<Longrightarrow> p (last_true p lo hi)"
proof (induction "hi - lo" arbitrary: lo hi rule: less_induct)
  case less
  show ?case
  proof (cases "lo < hi")
    case True
    then obtain mid where m: "lo < mid" "mid \<le> hi"
      and eq: "last_true p lo hi = (if p mid then last_true p mid hi else last_true p lo (mid - 1))"
      by (rule last_true_step)
    show ?thesis
      using less.hyps[of hi mid] less.hyps[of "mid - 1" lo] less.prems m eq True by auto
  qed (use less.prems in simp)
qed

text \<open>
  A test over the indices of a container that holds on a prefix of them: the contract of
  \<open>last_true\<close>. The container is well formed when its test is downward closed.
\<close>

locale prefix_test =
  fixes test :: "'s \<Rightarrow> 'x \<Rightarrow> nat \<Rightarrow> bool"
    and size_of :: "'s \<Rightarrow> nat"
    and ok :: "'s \<Rightarrow> bool"
  assumes down: "ok s \<Longrightarrow> test s x j \<Longrightarrow> i \<le> j \<Longrightarrow> j < size_of s \<Longrightarrow> test s x i"
begin

lemma above:
  "ok s \<Longrightarrow> hi < size_of s \<Longrightarrow> lo \<le> hi \<Longrightarrow> last_true (test s x) lo hi < j \<Longrightarrow> j \<le> hi \<Longrightarrow> \<not> test s x j"
proof (induction "hi - lo" arbitrary: lo hi rule: less_induct)
  case less
  let ?p = "test s x"
  show ?case
  proof (cases "lo < hi")
    case True
    then obtain mid where m: "lo < mid" "mid \<le> hi"
      and eq: "last_true ?p lo hi = (if ?p mid then last_true ?p mid hi else last_true ?p lo (mid - 1))"
      by (rule last_true_step)
    consider "?p mid" | "\<not> ?p mid" "j < mid" | "\<not> ?p mid" "mid \<le> j" by linarith
    then show ?thesis
    proof cases
      case 1
      then show ?thesis using less.hyps[of hi mid] less.prems m eq by simp
    next
      case 2
      then show ?thesis using less.hyps[of "mid - 1" lo] less.prems m eq by simp
    next
      case 3
      then show ?thesis using down[of s x j mid] less.prems by auto
    qed
  qed (use less.prems in simp)
qed

text \<open>The search over all indices returns the last one at which the test holds.\<close>

lemma search:
  assumes "ok s" "test s x 0" "0 < size_of s"
  defines "i \<equiv> last_true (test s x) 0 (size_of s - 1)"
  shows "i < size_of s" "test s x i" "i < j \<Longrightarrow> j < size_of s \<Longrightarrow> \<not> test s x j"
  using last_true_range[of 0 "size_of s - 1" "test s x"] last_true_holds[of "test s x" 0 "size_of s - 1"]
    above[of s "size_of s - 1" 0 x j] assms
  by auto

end

text \<open>A test that holds on a suffix of the indices: the contract of \<open>first_true\<close>.\<close>

locale suffix_test =
  fixes test :: "'s \<Rightarrow> 'x \<Rightarrow> nat \<Rightarrow> bool"
    and size_of :: "'s \<Rightarrow> nat"
    and ok :: "'s \<Rightarrow> bool"
  assumes up: "ok s \<Longrightarrow> test s x i \<Longrightarrow> i \<le> j \<Longrightarrow> j < size_of s \<Longrightarrow> test s x j"
begin

lemma below:
  "ok s \<Longrightarrow> hi \<le> size_of s \<Longrightarrow> lo \<le> i \<Longrightarrow> lo \<le> hi \<Longrightarrow> i < first_true (test s x) lo hi \<Longrightarrow> \<not> test s x i"
proof (induction "hi - lo" arbitrary: lo hi rule: less_induct)
  case less
  let ?p = "test s x"
  show ?case
  proof (cases "lo < hi")
    case True
    then obtain mid where m: "lo \<le> mid" "mid < hi"
      and eq: "first_true ?p lo hi = (if ?p mid then first_true ?p lo mid else first_true ?p (mid + 1) hi)"
      by (rule first_true_step)
    consider "?p mid" | "\<not> ?p mid" "mid < i" | "\<not> ?p mid" "i \<le> mid" by linarith
    then show ?thesis
    proof cases
      case 1
      then show ?thesis using less.hyps[of mid lo] less.prems m eq by simp
    next
      case 2
      then show ?thesis using less.hyps[of hi "mid + 1"] less.prems m eq by simp
    next
      case 3
      then show ?thesis using up[of s x i mid] less.prems m by auto
    qed
  qed (use less.prems in simp)
qed

lemma reached:
  "lo \<le> hi \<Longrightarrow> first_true (test s x) lo hi < hi \<Longrightarrow> test s x (first_true (test s x) lo hi)"
proof (induction "hi - lo" arbitrary: lo hi rule: less_induct)
  case less
  let ?p = "test s x"
  show ?case
  proof (cases "lo < hi")
    case True
    then obtain mid where m: "lo \<le> mid" "mid < hi"
      and eq: "first_true ?p lo hi = (if ?p mid then first_true ?p lo mid else first_true ?p (mid + 1) hi)"
      by (rule first_true_step)
    have "first_true ?p lo mid \<le> mid" using first_true_range[of lo mid ?p] m by simp
    then show ?thesis
      using less.hyps[of mid lo] less.hyps[of hi "mid + 1"] less.prems m eq
      by (cases "first_true ?p lo mid = mid") (auto split: if_splits)
  qed (use less.prems in simp)
qed

end

section \<open>64-bit integers\<close>

text \<open>Arithmetic on \<open>int\<close> and \<open>time.Duration\<close> wraps around at 64 bits.\<close>

definition wrap64 :: "int \<Rightarrow> int" where
  "wrap64 x = (x + 2 ^ 63) mod 2 ^ 64 - 2 ^ 63"

lemma wrap64_id: "- (2 ^ 63) \<le> x \<Longrightarrow> x < 2 ^ 63 \<Longrightarrow> wrap64 x = x"
  by (simp add: wrap64_def)

lemma wrap64_range: "- (2 ^ 63) \<le> wrap64 x \<and> wrap64 x < 2 ^ 63"
  by (simp add: wrap64_def)

lemma wrap64_add [simp]: "wrap64 (wrap64 x + y) = wrap64 (x + y)" "wrap64 (x + wrap64 y) = wrap64 (x + y)"
  by (simp_all add: wrap64_def algebra_simps mod_simps)

end
