(* ===== verification/GoStrings.thy ===== *)
theory GoStrings
  imports Prelude
begin

text \<open>
  The parts of Go's \<open>strings\<close> and \<open>strconv\<close> packages the program calls, on byte strings.
  A Go string is a sequence of bytes and so is an Isabelle \<^typ>\<open>string\<close>. Case mapping and
  white space are modelled for ASCII: on a string with bytes above 127 Go would also apply
  the Unicode tables, which are not modelled.
\<close>

section \<open>Characters\<close>

abbreviation code_of :: "char \<Rightarrow> nat" where
  "code_of c \<equiv> of_char c"

definition is_upper :: "char \<Rightarrow> bool" where
  "is_upper c \<longleftrightarrow> 65 \<le> code_of c \<and> code_of c \<le> 90"

definition is_lower :: "char \<Rightarrow> bool" where
  "is_lower c \<longleftrightarrow> 97 \<le> code_of c \<and> code_of c \<le> 122"

definition is_digit :: "char \<Rightarrow> bool" where
  "is_digit c \<longleftrightarrow> 48 \<le> code_of c \<and> code_of c \<le> 57"

definition upper_char :: "char \<Rightarrow> char" where
  "upper_char c = (if is_lower c then char_of (code_of c - 32) else c)"

definition lower_char :: "char \<Rightarrow> char" where
  "lower_char c = (if is_upper c then char_of (code_of c + 32) else c)"

definition to_upper :: "string \<Rightarrow> string" where
  "to_upper s = map upper_char s"

definition to_lower :: "string \<Rightarrow> string" where
  "to_lower s = map lower_char s"

definition equal_fold :: "string \<Rightarrow> string \<Rightarrow> bool" where
  "equal_fold s t \<longleftrightarrow> to_lower s = to_lower t"

definition is_space :: "char \<Rightarrow> bool" where
  "is_space c \<longleftrightarrow> code_of c \<in> {9, 10, 11, 12, 13, 32}"

lemma code_of_lt [simp]: "code_of c < 256"
  using nat_of_char_less_256 by simp

lemma code_of_char_of: "n < 256 \<Longrightarrow> code_of (char_of n) = (n :: nat)"
  by (simp add: of_char_of)

lemma equal_fold_refl [simp]: "equal_fold s s"
  by (simp add: equal_fold_def)

lemma equal_fold_sym: "equal_fold s t \<Longrightarrow> equal_fold t s"
  by (simp add: equal_fold_def)

lemma equal_fold_trans: "equal_fold s t \<Longrightarrow> equal_fold t u \<Longrightarrow> equal_fold s u"
  by (simp add: equal_fold_def)

lemma length_to_upper [simp]: "length (to_upper s) = length s"
  by (simp add: to_upper_def)

lemma length_to_lower [simp]: "length (to_lower s) = length s"
  by (simp add: to_lower_def)

section \<open>Searching and cutting\<close>

definition has_prefix :: "string \<Rightarrow> string \<Rightarrow> bool" where
  "has_prefix s p \<longleftrightarrow> prefix p s"

definition has_suffix :: "string \<Rightarrow> string \<Rightarrow> bool" where
  "has_suffix s p \<longleftrightarrow> suffix p s"

text \<open>\<open>strings.Index\<close>: the position of the first occurrence, \<open>None\<close> for -1.\<close>

fun index_of :: "string \<Rightarrow> string \<Rightarrow> nat option" where
  "index_of [] sub = (if sub = [] then Some 0 else None)"
| "index_of (c # s) sub = (if prefix sub (c # s) then Some 0 else map_option Suc (index_of s sub))"

definition contains :: "string \<Rightarrow> string \<Rightarrow> bool" where
  "contains s sub \<longleftrightarrow> index_of s sub \<noteq> None"

lemma contains_Nil: "contains [] sub \<longleftrightarrow> sub = []"
  by (simp add: contains_def)

lemma contains_Cons: "contains (c # s) sub \<longleftrightarrow> prefix sub (c # s) \<or> contains s sub"
  by (simp add: contains_def)

lemma contains_sublist: "contains s sub \<longleftrightarrow> sublist sub s"
  by (induction s) (auto simp: contains_Nil contains_Cons sublist_Cons_right)

lemma index_of_Some:
  "index_of s sub = Some i \<Longrightarrow> s = take i s @ sub @ drop (i + length sub) s \<and> i + length sub \<le> length s"
proof (induction s arbitrary: i)
  case Nil
  then show ?case by (auto split: if_splits)
next
  case (Cons c s)
  show ?case
  proof (cases "prefix sub (c # s)")
    case True
    with Cons.prems have "i = 0" by simp
    moreover obtain t where "c # s = sub @ t" using True by (auto simp: prefix_def)
    ultimately show ?thesis by simp
  next
    case False
    with Cons.prems obtain j where "index_of s sub = Some j" "i = Suc j" by auto
    with Cons.IH[of j] show ?thesis by simp
  qed
qed

text \<open>The occurrence \<open>Index\<close> returns is the first: nothing starts earlier.\<close>

lemma index_of_first:
  "index_of s sub = Some i \<Longrightarrow> j < i \<Longrightarrow> \<not> prefix sub (drop j s)"
proof (induction s arbitrary: i j)
  case Nil
  then show ?case by (auto split: if_splits)
next
  case (Cons c s)
  then show ?case by (cases j) (auto split: if_splits)
qed

lemma index_of_None: "index_of s sub = None \<longleftrightarrow> \<not> sublist sub s"
  using contains_sublist[of s sub] by (auto simp: contains_def)

text \<open>\<open>strings.Cut\<close>: the parts around the first separator, and whether there is one.\<close>

definition cut :: "string \<Rightarrow> string \<Rightarrow> string \<times> string \<times> bool" where
  "cut s sep = (case index_of s sep of
      None \<Rightarrow> (s, [], False)
    | Some i \<Rightarrow> (take i s, drop (i + length sep) s, True))"

lemma cut_found: "cut s sep = (a, b, True) \<Longrightarrow> s = a @ sep @ b"
  by (auto simp: cut_def split: option.splits dest: index_of_Some)

lemma cut_not_found: "cut s sep = (a, b, False) \<Longrightarrow> a = s \<and> b = [] \<and> \<not> sublist sep s"
  by (auto simp: cut_def index_of_None split: option.splits)

text \<open>\<open>strings.Split\<close> by a one-byte separator, \<open>strings.FieldsFunc\<close>, \<open>strings.Fields\<close>.\<close>

fun split_char :: "char \<Rightarrow> string \<Rightarrow> string list" where
  "split_char sep [] = [[]]"
| "split_char sep (c # s) =
     (if c = sep then [] # split_char sep s
      else (case split_char sep s of [] \<Rightarrow> [[c]] | w # ws \<Rightarrow> (c # w) # ws))"

lemma split_char_nonempty [simp]: "split_char sep s \<noteq> []"
  by (induction s) (auto split: list.splits)

function fields_func :: "(char \<Rightarrow> bool) \<Rightarrow> string \<Rightarrow> string list" where
  "fields_func f [] = []"
| "fields_func f (c # s) =
     (if f c then fields_func f s
      else (c # takeWhile (\<lambda>d. \<not> f d) s) # fields_func f (dropWhile (\<lambda>d. \<not> f d) s))"
  by pat_completeness auto
termination
  by (relation "measure (\<lambda>(f, s). length s)") (auto simp: le_imp_less_Suc length_dropWhile_le)

lemma fields_func_nonempty: "w \<in> set (fields_func f s) \<Longrightarrow> w \<noteq> []"
  by (induction f s rule: fields_func.induct) (auto split: if_splits)

lemma fields_func_clean: "w \<in> set (fields_func f s) \<Longrightarrow> c \<in> set w \<Longrightarrow> \<not> f c"
  by (induction f s rule: fields_func.induct) (auto split: if_splits dest: set_takeWhileD)

definition fields :: "string \<Rightarrow> string list" where
  "fields s = fields_func is_space s"

text \<open>\<open>strings.TrimSpace\<close>, \<open>strings.Join\<close>, \<open>strings.ReplaceAll\<close>.\<close>

definition trim_func :: "(char \<Rightarrow> bool) \<Rightarrow> string \<Rightarrow> string" where
  "trim_func f s = rev (dropWhile f (rev (dropWhile f s)))"

definition trim_space :: "string \<Rightarrow> string" where
  "trim_space s = trim_func is_space s"

fun join :: "string list \<Rightarrow> string \<Rightarrow> string" where
  "join [] sep = []"
| "join [x] sep = x"
| "join (x # y # ys) sep = x @ sep @ join (y # ys) sep"

text \<open>\<open>ReplaceAll\<close> with a non-empty pattern scans left to right, without overlap.\<close>

fun replace_all :: "string \<Rightarrow> string \<Rightarrow> string \<Rightarrow> string" where
  "replace_all [] old new = []"
| "replace_all (c # s) old new =
     (if old \<noteq> [] \<and> prefix old (c # s)
      then new @ replace_all (drop (length old - 1) s) old new
      else c # replace_all s old new)"

section \<open>Decimal integers\<close>

definition digit_val :: "char \<Rightarrow> int" where
  "digit_val c = int (code_of c) - 48"

fun digits_val :: "int \<Rightarrow> string \<Rightarrow> int option" where
  "digits_val acc [] = Some acc"
| "digits_val acc (c # s) = (if is_digit c then digits_val (acc * 10 + digit_val c) s else None)"

text \<open>
  \<open>strconv.ParseInt(s, 10, 64)\<close> and \<open>strconv.Atoi\<close>: an optional sign and at least one decimal
  digit, within the 64-bit range. \<open>None\<close> is a returned error.
\<close>

definition min_int64 :: int where "min_int64 = - 9223372036854775808"
definition max_int64 :: int where "max_int64 = 9223372036854775807"

definition in_int64 :: "int \<Rightarrow> bool" where
  "in_int64 n \<longleftrightarrow> min_int64 \<le> n \<and> n \<le> max_int64"

definition parse_unsigned :: "string \<Rightarrow> int option" where
  "parse_unsigned s = (if s = [] then None else digits_val 0 s)"

definition parse_int :: "string \<Rightarrow> int option" where
  "parse_int s =
     (case (case s of
              [] \<Rightarrow> None
            | c # t \<Rightarrow> if c = CHR ''-'' then map_option uminus (parse_unsigned t)
                      else if c = CHR ''+'' then parse_unsigned t
                      else parse_unsigned s) of
        None \<Rightarrow> None
      | Some n \<Rightarrow> if in_int64 n then Some n else None)"

lemma parse_int_range: "parse_int s = Some n \<Longrightarrow> in_int64 n"
  by (auto simp: parse_int_def split: option.splits if_splits)

text \<open>\<open>strconv.Itoa\<close>: the decimal numeral of an integer.\<close>

fun nat_digits :: "nat \<Rightarrow> string" where
  "nat_digits n = (if n < 10 then [char_of (n + 48)]
                   else nat_digits (n div 10) @ [char_of (n mod 10 + 48)])"

declare nat_digits.simps [simp del]

definition itoa :: "int \<Rightarrow> string" where
  "itoa n = (if n < 0 then CHR ''-'' # nat_digits (nat (- n)) else nat_digits (nat n))"

lemma digits_val_append:
  "digits_val acc (s @ t) = (case digits_val acc s of None \<Rightarrow> None | Some v \<Rightarrow> digits_val v t)"
  by (induction s arbitrary: acc) auto

lemma digit_char: "n < 10 \<Longrightarrow> is_digit (char_of (n + 48)) \<and> digit_val (char_of (n + 48)) = int n"
  by (simp add: is_digit_def digit_val_def code_of_char_of)

lemma digits_val_nat_digits: "digits_val 0 (nat_digits n) = Some (int n)"
proof (induction n rule: nat_digits.induct)
  case (1 n)
  show ?case
  proof (cases "n < 10")
    case True
    then show ?thesis using digit_char[OF True] by (subst nat_digits.simps) simp
  next
    case False
    have "n mod 10 < 10" by simp
    note d = digit_char[OF this]
    have "int (n div 10) * 10 + int (n mod 10) = int n"
      by (metis div_mult_mod_eq of_nat_add of_nat_mult of_nat_numeral)
    with False 1 d show ?thesis by (subst nat_digits.simps) (simp add: digits_val_append)
  qed
qed

lemma nat_digits_nonempty [simp]: "nat_digits n \<noteq> []"
  by (subst nat_digits.simps) simp

lemma nat_digits_are_digits: "\<forall>c \<in> set (nat_digits n). is_digit c"
proof (induction n rule: nat_digits.induct)
  case (1 n)
  have "n mod 10 < 10" by simp
  note d = digit_char[OF this]
  show ?case using 1 d digit_char[of n] by (subst nat_digits.simps) auto
qed

text \<open>Printing and parsing back gives the number.\<close>

lemma parse_itoa:
  assumes "in_int64 n" shows "parse_int (itoa n) = Some n"
proof (cases "n < 0")
  case True
  then show ?thesis using assms
    by (simp add: itoa_def parse_int_def parse_unsigned_def digits_val_nat_digits)
next
  case False
  obtain c t where ct: "nat_digits (nat n) = c # t" by (cases "nat_digits (nat n)") auto
  have "is_digit c" using nat_digits_are_digits[of "nat n"] ct by simp
  then have "c \<noteq> CHR ''-''" "c \<noteq> CHR ''+''" by (auto simp: is_digit_def)
  then show ?thesis using assms False ct digits_val_nat_digits[of "nat n"]
    by (simp add: itoa_def parse_int_def parse_unsigned_def)
qed

end
