(* ===== verification/Errs.thy ===== *)
theory Errs
  imports GoStrings
begin

text \<open>
  Coded errors, \<open>internal/errs/errs.go\<close>: the codes and their registry, the error value with
  its location and sibling causes, the exit code of an error and of several outcomes at
  once, the wire envelope, and the sort that orders the registry for the manifest.

  A code is a Go string; the constants the package declares are the constructors of
  \<open>code\<close> and \<open>code_str\<close> is the string each stands for. The human parts of an error
  (message, hint, details) are written for readers and never branched on; they are not
  modelled.
\<close>

section \<open>Codes\<close>

datatype (plugins only: code) code =
    CodeConfigNotFound
  | CodeConfigParse
  | CodeConfigUnknownField
  | CodeConfigMissingField
  | CodeConfigInvalidValue
  | CodeConfigVersionUnsupported
  | CodeConfigNoRunner
  | CodeConfigRequestsAndJourney
  | CodeConfigDuplicateName
  | CodeConfigEnvUnset
  | CodeConfigStagesMismatch
  | CodeConfigTemplateSyntax
  | CodeConfigTemplateUnknownFn
  | CodeConfigUndefinedVariable
  | CodeConfigFeederNotFound
  | CodeSetParse
  | CodeSetUnknownPath
  | CodeSetTypeMismatch
  | CodeSetIndexNotFound
  | CodePolicyDenied
  | CodePolicyParse
  | CodePolicyTargetNotAllowed
  | CodePolicyWritesNotAllowed
  | CodePolicyDangerousNotAllowed
  | CodePolicyRateExceeded
  | CodePolicyDurationExceeded
  | CodePolicyInsecureTLS
  | CodePolicyTooManyRuns
  | CodePolicyDetachNotAllowed
  | CodePreflightDNS
  | CodePreflightConnect
  | CodePreflightHTTP
  | CodePreflightDBPing
  | CodePreflightDBPrepare
  | CodePreflightRedisPing
  | CodePreflightDriverUnknown
  | CodeRunAborted
  | CodeRunInterrupted
  | CodeRunFailed
  | CodeRunInvalid
  | CodeSLOBreach
  | CodeResultNotFound
  | CodeResultParse
  | CodeResultSchemaUnsupported
  | CodeCompareSchemaMismatch
  | CodeCompareInsufficient
  | CodeCompareRegression
  | CodeRunNotFound
  | CodeRunAlreadyRunning
  | CodeRunLost
  | CodeWaitTimeout
  | CodeOpsUnknownOperation
  | CodeOpsInvalidInput
  | CodeServerUnauthorized
  | CodeServerBadHost
  | CodeServerBadOrigin
  | CodeServerAddrInUse
  | CodeIOWriteFailed
  | CodeIOReadFailed
  | CodeInternal

fun code_str :: "code \<Rightarrow> string" where
  "code_str CodeConfigNotFound = ''CONFIG_NOT_FOUND''"
| "code_str CodeConfigParse = ''CONFIG_PARSE''"
| "code_str CodeConfigUnknownField = ''CONFIG_UNKNOWN_FIELD''"
| "code_str CodeConfigMissingField = ''CONFIG_MISSING_FIELD''"
| "code_str CodeConfigInvalidValue = ''CONFIG_INVALID_VALUE''"
| "code_str CodeConfigVersionUnsupported = ''CONFIG_VERSION_UNSUPPORTED''"
| "code_str CodeConfigNoRunner = ''CONFIG_NO_RUNNER''"
| "code_str CodeConfigRequestsAndJourney = ''CONFIG_REQUESTS_AND_JOURNEYS''"
| "code_str CodeConfigDuplicateName = ''CONFIG_DUPLICATE_NAME''"
| "code_str CodeConfigEnvUnset = ''CONFIG_ENV_UNSET''"
| "code_str CodeConfigStagesMismatch = ''CONFIG_STAGES_MISMATCH''"
| "code_str CodeConfigTemplateSyntax = ''CONFIG_TEMPLATE_SYNTAX''"
| "code_str CodeConfigTemplateUnknownFn = ''CONFIG_TEMPLATE_UNKNOWN_FUNC''"
| "code_str CodeConfigUndefinedVariable = ''CONFIG_UNDEFINED_VARIABLE''"
| "code_str CodeConfigFeederNotFound = ''CONFIG_FEEDER_NOT_FOUND''"
| "code_str CodeSetParse = ''SET_PARSE''"
| "code_str CodeSetUnknownPath = ''SET_UNKNOWN_PATH''"
| "code_str CodeSetTypeMismatch = ''SET_TYPE_MISMATCH''"
| "code_str CodeSetIndexNotFound = ''SET_INDEX_NOT_FOUND''"
| "code_str CodePolicyDenied = ''POLICY_DENIED''"
| "code_str CodePolicyParse = ''POLICY_PARSE''"
| "code_str CodePolicyTargetNotAllowed = ''POLICY_TARGET_NOT_ALLOWED''"
| "code_str CodePolicyWritesNotAllowed = ''POLICY_WRITES_NOT_ALLOWED''"
| "code_str CodePolicyDangerousNotAllowed = ''POLICY_DANGEROUS_NOT_ALLOWED''"
| "code_str CodePolicyRateExceeded = ''POLICY_RATE_EXCEEDED''"
| "code_str CodePolicyDurationExceeded = ''POLICY_DURATION_EXCEEDED''"
| "code_str CodePolicyInsecureTLS = ''POLICY_INSECURE_TLS_NOT_ALLOWED''"
| "code_str CodePolicyTooManyRuns = ''POLICY_TOO_MANY_RUNS''"
| "code_str CodePolicyDetachNotAllowed = ''POLICY_DETACH_NOT_ALLOWED''"
| "code_str CodePreflightDNS = ''PREFLIGHT_DNS''"
| "code_str CodePreflightConnect = ''PREFLIGHT_CONNECT''"
| "code_str CodePreflightHTTP = ''PREFLIGHT_HTTP''"
| "code_str CodePreflightDBPing = ''PREFLIGHT_DB_PING''"
| "code_str CodePreflightDBPrepare = ''PREFLIGHT_DB_PREPARE''"
| "code_str CodePreflightRedisPing = ''PREFLIGHT_REDIS_PING''"
| "code_str CodePreflightDriverUnknown = ''PREFLIGHT_DRIVER_UNKNOWN''"
| "code_str CodeRunAborted = ''RUN_ABORTED''"
| "code_str CodeRunInterrupted = ''RUN_INTERRUPTED''"
| "code_str CodeRunFailed = ''RUN_FAILED''"
| "code_str CodeRunInvalid = ''RUN_INVALID''"
| "code_str CodeSLOBreach = ''SLO_BREACH''"
| "code_str CodeResultNotFound = ''RESULT_NOT_FOUND''"
| "code_str CodeResultParse = ''RESULT_PARSE''"
| "code_str CodeResultSchemaUnsupported = ''RESULT_SCHEMA_UNSUPPORTED''"
| "code_str CodeCompareSchemaMismatch = ''COMPARE_SCHEMA_MISMATCH''"
| "code_str CodeCompareInsufficient = ''COMPARE_INSUFFICIENT_DATA''"
| "code_str CodeCompareRegression = ''COMPARE_REGRESSION''"
| "code_str CodeRunNotFound = ''RUN_NOT_FOUND''"
| "code_str CodeRunAlreadyRunning = ''RUN_ALREADY_RUNNING''"
| "code_str CodeRunLost = ''RUN_LOST''"
| "code_str CodeWaitTimeout = ''WAIT_TIMEOUT''"
| "code_str CodeOpsUnknownOperation = ''OPS_UNKNOWN_OPERATION''"
| "code_str CodeOpsInvalidInput = ''OPS_INVALID_INPUT''"
| "code_str CodeServerUnauthorized = ''SERVER_UNAUTHORIZED''"
| "code_str CodeServerBadHost = ''SERVER_BAD_HOST''"
| "code_str CodeServerBadOrigin = ''SERVER_BAD_ORIGIN''"
| "code_str CodeServerAddrInUse = ''SERVER_ADDR_IN_USE''"
| "code_str CodeIOWriteFailed = ''IO_WRITE_FAILED''"
| "code_str CodeIOReadFailed = ''IO_READ_FAILED''"
| "code_str CodeInternal = ''INTERNAL''"

section \<open>Exit codes and the registry\<close>

definition ExitOK :: int where "ExitOK = 0"
definition ExitBreach :: int where "ExitBreach = 1"
definition ExitUsage :: int where "ExitUsage = 2"
definition ExitRuntime :: int where "ExitRuntime = 3"
definition ExitInvalid :: int where "ExitInvalid = 4"
definition ExitWaitOpen :: int where "ExitWaitOpen = 5"

lemmas exit_defs [go_defs] =
  ExitOK_def ExitBreach_def ExitUsage_def ExitRuntime_def ExitInvalid_def ExitWaitOpen_def

record meta =
  m_exit :: int
  m_retriable :: bool
  m_docs :: string

abbreviation mk_meta :: "int \<Rightarrow> bool \<Rightarrow> string \<Rightarrow> meta" where
  "mk_meta e r d \<equiv> \<lparr>m_exit = e, m_retriable = r, m_docs = d\<rparr>"

text \<open>The table, in the order of the source.\<close>

definition registry :: "(code \<times> meta) list" where
  "registry = [
     (CodeConfigNotFound, mk_meta ExitUsage False ''docs/ERRORS.md#configuration--exit-2-never-retriable''),
     (CodeConfigParse, mk_meta ExitUsage False ''docs/ERRORS.md#configuration--exit-2-never-retriable''),
     (CodeConfigUnknownField, mk_meta ExitUsage False ''docs/CONFIG.md''),
     (CodeConfigMissingField, mk_meta ExitUsage False ''docs/CONFIG.md''),
     (CodeConfigInvalidValue, mk_meta ExitUsage False ''docs/CONFIG.md''),
     (CodeConfigVersionUnsupported, mk_meta ExitUsage False ''docs/CONFIG.md''),
     (CodeConfigNoRunner, mk_meta ExitUsage False ''docs/CONFIG.md''),
     (CodeConfigRequestsAndJourney, mk_meta ExitUsage False ''docs/CONFIG.md''),
     (CodeConfigDuplicateName, mk_meta ExitUsage False ''docs/CONFIG.md''),
     (CodeConfigEnvUnset, mk_meta ExitUsage False ''docs/CONFIG.md''),
     (CodeConfigStagesMismatch, mk_meta ExitUsage False ''docs/CONFIG.md''),
     (CodeConfigTemplateSyntax, mk_meta ExitUsage False ''docs/CONFIG.md''),
     (CodeConfigTemplateUnknownFn, mk_meta ExitUsage False ''docs/CONFIG.md''),
     (CodeConfigUndefinedVariable, mk_meta ExitUsage False ''docs/CONFIG.md''),
     (CodeConfigFeederNotFound, mk_meta ExitUsage False ''docs/CONFIG.md''),
     (CodeSetParse, mk_meta ExitUsage False ''docs/CLI.md''),
     (CodeSetUnknownPath, mk_meta ExitUsage False ''docs/CLI.md''),
     (CodeSetTypeMismatch, mk_meta ExitUsage False ''docs/CLI.md''),
     (CodeSetIndexNotFound, mk_meta ExitUsage False ''docs/CLI.md''),
     (CodePolicyDenied, mk_meta ExitUsage False ''docs/ERRORS.md#policy--exit-2-never-retriable''),
     (CodePolicyParse, mk_meta ExitUsage False ''docs/ERRORS.md#policy--exit-2-never-retriable''),
     (CodePolicyTargetNotAllowed, mk_meta ExitUsage False ''docs/ERRORS.md#policy--exit-2-never-retriable''),
     (CodePolicyWritesNotAllowed, mk_meta ExitUsage False ''docs/ERRORS.md#policy--exit-2-never-retriable''),
     (CodePolicyDangerousNotAllowed, mk_meta ExitUsage False ''docs/ERRORS.md#policy--exit-2-never-retriable''),
     (CodePolicyRateExceeded, mk_meta ExitUsage False ''docs/ERRORS.md#policy--exit-2-never-retriable''),
     (CodePolicyDurationExceeded, mk_meta ExitUsage False ''docs/ERRORS.md#policy--exit-2-never-retriable''),
     (CodePolicyInsecureTLS, mk_meta ExitUsage False ''docs/ERRORS.md#policy--exit-2-never-retriable''),
     (CodePolicyTooManyRuns, mk_meta ExitUsage False ''docs/ERRORS.md#policy--exit-2-never-retriable''),
     (CodePolicyDetachNotAllowed, mk_meta ExitUsage False ''docs/ERRORS.md#policy--exit-2-never-retriable''),
     (CodePreflightDNS, mk_meta ExitRuntime True ''docs/ERRORS.md#preflight--exit-3''),
     (CodePreflightConnect, mk_meta ExitRuntime True ''docs/ERRORS.md#preflight--exit-3''),
     (CodePreflightHTTP, mk_meta ExitRuntime True ''docs/ERRORS.md#preflight--exit-3''),
     (CodePreflightDBPing, mk_meta ExitRuntime True ''docs/ERRORS.md#preflight--exit-3''),
     (CodePreflightDBPrepare, mk_meta ExitRuntime False ''docs/ERRORS.md#preflight--exit-3''),
     (CodePreflightRedisPing, mk_meta ExitRuntime True ''docs/ERRORS.md#preflight--exit-3''),
     (CodePreflightDriverUnknown, mk_meta ExitUsage False ''docs/ERRORS.md#preflight--exit-3''),
     (CodeRunAborted, mk_meta ExitRuntime False ''docs/ERRORS.md#run--exit-3-or-4-when-invalid''),
     (CodeRunInterrupted, mk_meta ExitRuntime False ''docs/ERRORS.md#run--exit-3-or-4-when-invalid''),
     (CodeRunFailed, mk_meta ExitRuntime False ''docs/ERRORS.md#run--exit-3-or-4-when-invalid''),
     (CodeRunInvalid, mk_meta ExitInvalid False ''docs/METHODOLOGY.md''),
     (CodeSLOBreach, mk_meta ExitBreach False ''docs/ERRORS.md#run--exit-3-or-4-when-invalid''),
     (CodeResultNotFound, mk_meta ExitUsage False ''docs/ERRORS.md#results-comparison-and-the-run-store''),
     (CodeResultParse, mk_meta ExitUsage False ''docs/ERRORS.md#results-comparison-and-the-run-store''),
     (CodeResultSchemaUnsupported, mk_meta ExitRuntime False ''docs/adr/004-result-system-of-record.md''),
     (CodeCompareSchemaMismatch, mk_meta ExitRuntime False ''docs/adr/004-result-system-of-record.md''),
     (CodeCompareInsufficient, mk_meta ExitBreach False ''docs/ERRORS.md#results-comparison-and-the-run-store''),
     (CodeCompareRegression, mk_meta ExitBreach False ''docs/ERRORS.md#results-comparison-and-the-run-store''),
     (CodeRunNotFound, mk_meta ExitUsage False ''docs/ERRORS.md#results-comparison-and-the-run-store''),
     (CodeRunAlreadyRunning, mk_meta ExitUsage False ''docs/ERRORS.md#results-comparison-and-the-run-store''),
     (CodeRunLost, mk_meta ExitRuntime False ''docs/ERRORS.md#results-comparison-and-the-run-store''),
     (CodeWaitTimeout, mk_meta ExitWaitOpen True ''docs/ERRORS.md#results-comparison-and-the-run-store''),
     (CodeOpsUnknownOperation, mk_meta ExitUsage False ''docs/ERRORS.md#servers-and-operations''),
     (CodeOpsInvalidInput, mk_meta ExitUsage False ''docs/ERRORS.md#servers-and-operations''),
     (CodeServerUnauthorized, mk_meta ExitUsage False ''docs/ERRORS.md#servers-and-operations''),
     (CodeServerBadHost, mk_meta ExitUsage False ''docs/ERRORS.md#servers-and-operations''),
     (CodeServerBadOrigin, mk_meta ExitUsage False ''docs/ERRORS.md#servers-and-operations''),
     (CodeServerAddrInUse, mk_meta ExitRuntime True ''docs/ERRORS.md#servers-and-operations''),
     (CodeIOWriteFailed, mk_meta ExitRuntime True ''docs/ERRORS.md#servers-and-operations''),
     (CodeIOReadFailed, mk_meta ExitRuntime True ''docs/ERRORS.md#servers-and-operations''),
     (CodeInternal, mk_meta ExitRuntime False ''docs/ERRORS.md#servers-and-operations'')]"

definition meta_of :: "code \<Rightarrow> meta option" where
  "meta_of c = map_of registry c"

definition all_codes :: "code list" where
  "all_codes = map fst registry"

lemma all_codes_complete: "c \<in> set all_codes"
  by (cases c) (simp_all add: all_codes_def registry_def)

lemma code_str_distinct: "distinct (map code_str all_codes)"
  by code_simp

lemma code_str_inj: "code_str c = code_str d \<longleftrightarrow> c = d"
  using code_str_distinct all_codes_complete
  by (metis distinct_map inj_onD)

lemma distinct_all_codes: "distinct all_codes"
  using code_str_distinct by (simp add: distinct_map)

text \<open>Go orders codes as the strings they are.\<close>

instantiation code :: linorder
begin

definition less_eq_code :: "code \<Rightarrow> code \<Rightarrow> bool" where
  "less_eq_code c d \<longleftrightarrow> code_str c \<le> code_str d"

definition less_code :: "code \<Rightarrow> code \<Rightarrow> bool" where
  "less_code c d \<longleftrightarrow> code_str c < code_str d"

instance
  by standard (auto simp: less_eq_code_def less_code_def code_str_inj dest: order.antisym
    intro: order.trans simp flip: order.order_iff_strict simp: less_le_not_le)

end

section \<open>The error value\<close>

datatype coded_error = CodedError
  (err_code: code) (err_path: string) (err_line: int) (err_column: int)
  (err_causes: "coded_error list")

type_synonym 'a result = "coded_error + 'a"

text \<open>\<open>New\<close>, \<open>WithPath\<close>, \<open>WithPos\<close>, \<open>WithCauses\<close>.\<close>

definition new_error :: "code \<Rightarrow> coded_error" where
  "new_error c = CodedError c [] 0 0 []"

fun with_path :: "string \<Rightarrow> coded_error \<Rightarrow> coded_error" where
  "with_path p (CodedError c _ l k cs) = CodedError c p l k cs"

fun with_pos :: "int \<Rightarrow> int \<Rightarrow> coded_error \<Rightarrow> coded_error" where
  "with_pos l k (CodedError c p _ _ cs) = CodedError c p l k cs"

fun with_causes :: "coded_error list \<Rightarrow> coded_error \<Rightarrow> coded_error" where
  "with_causes ds (CodedError c p l k cs) = CodedError c p l k (cs @ ds)"

definition error_at :: "code \<Rightarrow> string \<Rightarrow> coded_error" where
  "error_at c p = with_path p (new_error c)"

lemma err_sel_simps [simp]:
  "err_code (new_error c) = c" "err_causes (new_error c) = []" "err_path (new_error c) = []"
  "err_code (with_path p e) = err_code e" "err_path (with_path p e) = p"
  "err_causes (with_path p e) = err_causes e"
  "err_code (with_pos l k e) = err_code e" "err_path (with_pos l k e) = err_path e"
  "err_code (with_causes ds e) = err_code e"
  "err_causes (with_causes ds e) = err_causes e @ ds"
  "err_code (error_at c p) = c" "err_path (error_at c p) = p" "err_causes (error_at c p) = []"
  by (cases e, simp add: new_error_def error_at_def)+

text \<open>
  Any Go error: a coded one, one wrapping another (\<open>fmt.Errorf\<close> with \<open>%w\<close>), or a foreign
  one. \<open>errors.As\<close> finds the first coded error of the chain.
\<close>

datatype go_error = Coded coded_error | Wrapping go_error | Foreign

fun as_coded :: "go_error \<Rightarrow> coded_error option" where
  "as_coded (Coded e) = Some e"
| "as_coded (Wrapping e) = as_coded e"
| "as_coded Foreign = None"

definition exit_code :: "coded_error \<Rightarrow> int" where
  "exit_code e = (case meta_of (err_code e) of Some m \<Rightarrow> m_exit m | None \<Rightarrow> ExitRuntime)"

definition retriable :: "coded_error \<Rightarrow> bool" where
  "retriable e = (case meta_of (err_code e) of Some m \<Rightarrow> m_retriable m | None \<Rightarrow> False)"

definition exit_code_of :: "go_error option \<Rightarrow> int" where
  "exit_code_of err = (case err of
      None \<Rightarrow> ExitOK
    | Some e \<Rightarrow> (case as_coded e of Some c \<Rightarrow> exit_code c | None \<Rightarrow> ExitRuntime))"

section \<open>The envelope\<close>

record nested_doc =
  nd_code :: code
  nd_path :: string
  nd_line :: int
  nd_column :: int
  nd_docs :: string

record err_doc =
  d_code :: code
  d_path :: string
  d_line :: int
  d_column :: int
  d_docs :: string
  d_exit_code :: int
  d_retriable :: bool
  d_causes :: "nested_doc list"

definition docs_of :: "code \<Rightarrow> string" where
  "docs_of c = (case meta_of c of Some m \<Rightarrow> m_docs m | None \<Rightarrow> [])"

definition nested_of :: "coded_error \<Rightarrow> nested_doc" where
  "nested_of c = \<lparr>nd_code = err_code c, nd_path = err_path c, nd_line = err_line c,
                  nd_column = err_column c, nd_docs = docs_of (err_code c)\<rparr>"

definition envelope :: "coded_error \<Rightarrow> err_doc" where
  "envelope e = \<lparr>d_code = err_code e, d_path = err_path e, d_line = err_line e,
                 d_column = err_column e, d_docs = docs_of (err_code e),
                 d_exit_code = exit_code e, d_retriable = retriable e,
                 d_causes = map nested_of (err_causes e)\<rparr>"

definition envelope_of :: "go_error \<Rightarrow> err_doc" where
  "envelope_of err = (case as_coded err of
      Some e \<Rightarrow> envelope e
    | None \<Rightarrow> envelope (new_error CodeInternal))"

section \<open>Which exit code wins\<close>

definition precedence :: "int \<Rightarrow> nat" where
  "precedence c =
     (if c = ExitUsage then 4 else if c = ExitRuntime then 3 else if c = ExitInvalid then 2
      else if c = ExitBreach then 1 else if c = ExitWaitOpen then 1 else 0)"

fun worst_from :: "int \<Rightarrow> int list \<Rightarrow> int" where
  "worst_from w [] = w"
| "worst_from w (c # cs) = worst_from (if precedence w < precedence c then c else w) cs"

definition Worst :: "int list \<Rightarrow> int" where
  "Worst cs = worst_from ExitOK cs"

lemma worst_from_mem: "worst_from w cs \<in> insert w (set cs)"
  by (induction cs arbitrary: w) (simp, fastforce)

lemma worst_from_max: "c \<in> insert w (set cs) \<Longrightarrow> precedence c \<le> precedence (worst_from w cs)"
proof (induction cs arbitrary: w c)
  case (Cons d cs)
  let ?w = "if precedence w < precedence d then d else w"
  have "precedence ?w \<le> precedence (worst_from ?w cs)" using Cons.IH[of ?w ?w] by simp
  moreover have "precedence w \<le> precedence ?w" "precedence d \<le> precedence ?w" by auto
  ultimately show ?case using Cons.prems Cons.IH[of c ?w] by fastforce
qed simp

lemma precedence_inj:
  "precedence a = precedence b \<Longrightarrow> 0 < precedence a \<Longrightarrow> a = b \<or> {a, b} = {ExitBreach, ExitWaitOpen}"
  by (auto simp: precedence_def exit_defs split: if_splits)

section \<open>Sorting the registry\<close>

text \<open>
  The insertion sort of \<open>sortCodes\<close>, with its index arithmetic: \<open>sift s j\<close> is the inner
  loop that moves the element at \<open>j\<close> left while it is smaller than its neighbour.
\<close>

fun sift :: "'a::linorder list \<Rightarrow> nat \<Rightarrow> 'a list" where
  "sift s 0 = s"
| "sift s (Suc j) =
     (if s ! Suc j < s ! j then sift (s[Suc j := s ! j, j := s ! Suc j]) j else s)"

definition sortCodes :: "'a::linorder list \<Rightarrow> 'a list" where
  "sortCodes s = fold (\<lambda>i t. sift t i) [1..<length s] s"

definition Codes :: "code list" where
  "Codes = sortCodes all_codes"

text \<open>Sifting the element after a sorted prefix inserts it into the prefix.\<close>

lemma sift_insort: "sorted ys \<Longrightarrow> sift (ys @ x # zs) (length ys) = insort x ys @ zs"
proof (induction ys arbitrary: zs rule: rev_induct)
  case Nil
  then show ?case by simp
next
  case (snoc y ys)
  have sorted: "sorted ys" "\<forall>z \<in> set ys. z \<le> y" using snoc.prems by (auto simp: sorted_append)
  let ?s = "ys @ y # x # zs"
  have swap: "?s[Suc (length ys) := y, length ys := x] = ys @ x # y # zs"
    by (simp add: list_update_append)
  show ?case
  proof (cases "x < y")
    case True
    have "sorted (insort x ys @ [y])"
      using sorted True by (auto simp: sorted_append sorted_insort set_insort_key)
    then have "insort x ys @ [y] = insort x (ys @ [y])"
      using snoc.prems by (intro sorted_mset_unique) (auto simp: sorted_insort)
    with True swap snoc.IH[OF sorted(1)] show ?thesis by (simp add: nth_append)
  next
    case False
    have "sorted (ys @ [y, x])" using False sorted by (auto simp: sorted_append)
    then have "ys @ [y, x] = insort x (ys @ [y])"
      using snoc.prems by (intro sorted_mset_unique) (auto simp: sorted_insort)
    with False show ?thesis by (simp add: nth_append)
  qed
qed

lemma sort_prefix:
  "n \<le> length s \<Longrightarrow>
   fold (\<lambda>i t. sift t i) [1..<n] s = sort (take n s) @ drop n s"
proof (induction n)
  case 0
  then show ?case by simp
next
  case (Suc n)
  show ?case
  proof (cases n)
    case 0
    then show ?thesis using Suc.prems by (cases s) auto
  next
    case (Suc m)
    let ?t = "sort (take n s)"
    have n: "n < length s" using Suc.prems by simp
    have "fold (\<lambda>i t. sift t i) [1..<Suc n] s = sift (?t @ drop n s) n"
      using Suc.IH n Suc by simp
    also have "drop n s = s ! n # drop (Suc n) s" using n by (simp add: Cons_nth_drop_Suc)
    also have "sift (?t @ s ! n # drop (Suc n) s) n = insort (s ! n) ?t @ drop (Suc n) s"
      using sift_insort[of ?t "s ! n" "drop (Suc n) s"] n by simp
    also have "insort (s ! n) ?t = sort (take (Suc n) s)"
      using n by (intro sorted_mset_unique) (auto simp: sorted_insort take_Suc_conv_app_nth)
    finally show ?thesis .
  qed
qed

lemma sortCodes_sort: "sortCodes s = sort s"
  using sort_prefix[of "length s" s] by (simp add: sortCodes_def)

section \<open>Properties\<close>

lemma precedence_ranks:
  "precedence ExitUsage = 4" "precedence ExitRuntime = 3" "precedence ExitInvalid = 2"
  "precedence ExitBreach = 1" "precedence ExitWaitOpen = 1" "precedence ExitOK = 0"
  by (simp_all add: precedence_def exit_defs)

lemma precedence_top:
  "precedence c = 4 \<longleftrightarrow> c = ExitUsage" "precedence c = 3 \<longleftrightarrow> c = ExitRuntime"
  "precedence c = 2 \<longleftrightarrow> c = ExitInvalid" "precedence c = 1 \<longleftrightarrow> c = ExitBreach \<or> c = ExitWaitOpen"
  by (auto simp: precedence_def exit_defs)

lemma precedence_bound: "precedence c \<le> 4"
  by (simp add: precedence_def)

text \<open>Below the top ranks the first code of rank one stays.\<close>

lemma worst_from_stays:
  "\<forall>c \<in> set cs. precedence c \<le> precedence w \<Longrightarrow> worst_from w cs = w"
  by (induction cs) auto

lemma worst_from_low:
  "\<forall>c \<in> set cs. precedence c \<le> 1 \<Longrightarrow> precedence w = 0 \<Longrightarrow>
   worst_from w cs = (case List.find (\<lambda>c. precedence c = 1) cs of Some c \<Rightarrow> c | None \<Rightarrow> w)"
proof (induction cs)
  case (Cons c cs)
  then show ?case using worst_from_stays[of cs c] by (cases "precedence c = 1") auto
qed simp

text \<open>When several exit codes apply, the order is usage, runtime, invalid run, then breached
  objective or open wait; among the last two the first one listed wins, and with none of
  these the exit is a success.\<close>

theorem Worst_ranking:
  "Worst cs =
     (if ExitUsage \<in> set cs then ExitUsage
      else if ExitRuntime \<in> set cs then ExitRuntime
      else if ExitInvalid \<in> set cs then ExitInvalid
      else case List.find (\<lambda>c. c = ExitBreach \<or> c = ExitWaitOpen) cs of Some c \<Rightarrow> c | None \<Rightarrow> ExitOK)"
proof -
  have ge: "c \<in> set cs \<Longrightarrow> precedence c \<le> precedence (Worst cs)" for c
    unfolding Worst_def by (rule worst_from_max) simp
  have mem: "Worst cs \<in> insert ExitOK (set cs)"
    unfolding Worst_def by (rule worst_from_mem)
  have listed: "Worst cs \<in> set cs" if "2 \<le> precedence (Worst cs)"
    using mem that by (auto simp: precedence_ranks)
  note bound = precedence_bound[of "Worst cs"]
  show ?thesis
  proof (cases "\<exists>c \<in> set cs. 2 \<le> precedence c")
    case True
    then have top: "2 \<le> precedence (Worst cs)" using ge by force
    then consider "precedence (Worst cs) = 4" | "precedence (Worst cs) = 3" | "precedence (Worst cs) = 2"
      using bound by linarith
    then show ?thesis
    proof cases
      case 1
      then show ?thesis using listed[OF top] by (auto simp: precedence_top precedence_ranks)
    next
      case 2
      then have "ExitUsage \<notin> set cs" using ge[of ExitUsage] by (auto simp: precedence_ranks)
      then show ?thesis using 2 listed[OF top] by (auto simp: precedence_top precedence_ranks)
    next
      case 3
      then have "ExitUsage \<notin> set cs" "ExitRuntime \<notin> set cs"
        using ge[of ExitUsage] ge[of ExitRuntime] by (auto simp: precedence_ranks)
      then show ?thesis using 3 listed[OF top] by (auto simp: precedence_top precedence_ranks)
    qed
  next
    case False
    then have "\<forall>c \<in> set cs. precedence c \<le> 1" by force
    note low = worst_from_low[OF this precedence_ranks(6)]
    have "ExitUsage \<notin> set cs" "ExitRuntime \<notin> set cs" "ExitInvalid \<notin> set cs"
      using False by (auto simp: precedence_ranks)
    then show ?thesis using low unfolding precedence_top by (simp add: Worst_def)
  qed
qed

text \<open>The two codes of the lowest rank tie: which of them is reported depends on the order.\<close>

lemma Worst_tie: "Worst [ExitBreach, ExitWaitOpen] \<noteq> Worst [ExitWaitOpen, ExitBreach]"
  by (simp add: Worst_def precedence_ranks, simp add: exit_defs)

lemma registry_exits: "list_all (\<lambda>(c, m). m_exit m \<noteq> ExitOK) registry"
  by code_simp

lemma registered: "\<exists>m. meta_of c = Some m \<and> m_exit m \<noteq> ExitOK"
proof -
  obtain m where m: "map_of registry c = Some m"
    using all_codes_complete[of c] by (fastforce simp: all_codes_def dest: weak_map_of_SomeI)
  then show ?thesis using registry_exits
    by (fastforce simp: meta_of_def list_all_iff dest: map_of_SomeD)
qed

text \<open>A process exits with success exactly when there was no error: every code of the registry,
  a wrapped error and a foreign error all exit with a failure.\<close>

theorem only_success_exits_zero: "exit_code_of err = ExitOK \<longleftrightarrow> err = None"
proof (cases err)
  case (Some e)
  show ?thesis
  proof (cases "as_coded e")
    case (Some c)
    then show ?thesis using registered[of "err_code c"] \<open>err = Some e\<close>
      by (auto simp: exit_code_of_def exit_code_def)
  qed (simp add: exit_code_of_def \<open>err = Some e\<close> exit_defs)
qed (simp add: exit_code_of_def)

text \<open>The published list of codes holds every registered code once, in the order of their text.\<close>

theorem Codes_listing: "Codes = sorted_list_of_set {c. meta_of c \<noteq> None}"
proof -
  have all: "set all_codes = UNIV" "distinct all_codes"
    using all_codes_complete distinct_all_codes by auto
  have "{c. meta_of c \<noteq> None} = set all_codes" using all(1) registered by force
  then show ?thesis using all(2)
    by (simp add: Codes_def sortCodes_sort sorted_list_of_set_sort_remdups distinct_remdups_id)
qed

end
