(* ===== verification/Netip.thy ===== *)
theory Netip
  imports GoStrings
begin

text \<open>
  The parts of Go's \<open>net/netip\<close> the policy uses: addresses and prefixes, their parsers, the
  printer of an address, \<open>Prefix.Contains\<close> and the address classes. An address is a
  32-bit or a 128-bit word; an IPv6 address carries its zone. The class tests unmap an
  IPv4-mapped IPv6 address first, as the library has done since Go 1.22.
\<close>

unbundle bit_operations_syntax

datatype ip = V4 "32 word" | V6 "128 word" string

section \<open>Parsing addresses\<close>

text \<open>
  The loop of \<open>parseIPv4Fields\<close>: \<open>sep\<close> says the previous byte was a dot or there is none,
  \<open>dl\<close> counts the digits of the current octet.
\<close>

fun v4_loop :: "string \<Rightarrow> bool \<Rightarrow> int \<Rightarrow> nat \<Rightarrow> int list \<Rightarrow> int list option" where
  "v4_loop [] sep v dl fs = (if length fs < 3 then None else Some (fs @ [v]))"
| "v4_loop (c # s) sep v dl fs =
     (if is_digit c then
        (if dl = 1 \<and> v = 0 then None
         else let v' = v * 10 + digit_val c
              in if 255 < v' then None else v4_loop s False v' (dl + 1) fs)
      else if c = CHR ''.'' then
        (if sep \<or> s = [] then None
         else if length fs = 3 then None
         else v4_loop s True 0 0 (fs @ [v]))
      else None)"

definition parse_ipv4_fields :: "string \<Rightarrow> int list option" where
  "parse_ipv4_fields s = v4_loop s True 0 0 []"

text \<open>The big-endian number of a list of bytes.\<close>

definition bytes_val :: "int list \<Rightarrow> int" where
  "bytes_val bs = foldl (\<lambda>a b. a * 256 + b) 0 bs"

definition parse_ipv4 :: "string \<Rightarrow> ip option" where
  "parse_ipv4 s = map_option (\<lambda>fs. V4 (word_of_int (bytes_val fs))) (parse_ipv4_fields s)"

definition hex_val :: "char \<Rightarrow> int option" where
  "hex_val c =
     (if is_digit c then Some (digit_val c)
      else if 97 \<le> code_of c \<and> code_of c \<le> 102 then Some (int (code_of c) - 87)
      else if 65 \<le> code_of c \<and> code_of c \<le> 70 then Some (int (code_of c) - 55)
      else None)"

definition is_hex :: "char \<Rightarrow> bool" where
  "is_hex c \<longleftrightarrow> hex_val c \<noteq> None"

definition group_val :: "string \<Rightarrow> int" where
  "group_val h = foldl (\<lambda>a c. a * 16 + (case hex_val c of Some v \<Rightarrow> v | None \<Rightarrow> 0)) 0 h"

text \<open>
  The loop of \<open>parseIPv6\<close>. The state is the rest of the input, the bytes parsed so far and
  the position of the ellipsis; a result is the final state of the loop. A group of more
  than four digits fails, and so does an empty one.
\<close>

function v6_loop :: "string \<Rightarrow> int list \<Rightarrow> nat option \<Rightarrow> (string \<times> int list \<times> nat option) option" where
  "v6_loop s bs el =
     (if 16 \<le> length bs then Some (s, bs, el)
      else let h = takeWhile is_hex s; rest = dropWhile is_hex s
      in if 4 < length h then None
      else if h = [] then None
      else if rest \<noteq> [] \<and> hd rest = CHR ''.'' then
        (if el = None \<and> length bs \<noteq> 12 then None
         else if 16 < length bs + 4 then None
         else case parse_ipv4_fields s of None \<Rightarrow> None | Some fs \<Rightarrow> Some ([], bs @ fs, el))
      else let g = group_val h; bs' = bs @ [g div 256, g mod 256]
      in if rest = [] then Some ([], bs', el)
      else if hd rest \<noteq> CHR '':'' then None
      else if tl rest = [] then None
      else let s' = tl rest
      in if hd s' = CHR '':'' then
           (if el \<noteq> None then None
            else if tl s' = [] then Some ([], bs', Some (length bs'))
            else v6_loop (tl s') bs' (Some (length bs')))
         else v6_loop s' bs' el)"
  by pat_completeness auto
termination
  by (relation "measure (\<lambda>(s, bs, el). 16 - length bs)") auto

declare v6_loop.simps [simp del]

definition expand_ellipsis :: "int list \<Rightarrow> nat \<Rightarrow> int list" where
  "expand_ellipsis bs e = take e bs @ replicate (16 - length bs) 0 @ drop e bs"

definition parse_ipv6_body :: "string \<Rightarrow> int list option" where
  "parse_ipv6_body s =
     (let lead = has_prefix s ''::''; s' = (if lead then drop 2 s else s)
      in if lead \<and> s' = [] then Some (replicate 16 0)
         else case v6_loop s' [] (if lead then Some 0 else None) of
                None \<Rightarrow> None
              | Some (rest, bs, el) \<Rightarrow>
                  if rest \<noteq> [] then None
                  else if length bs < 16 then map_option (expand_ellipsis bs) el
                  else if el \<noteq> None then None
                  else Some bs)"

definition parse_ipv6 :: "string \<Rightarrow> ip option" where
  "parse_ipv6 s =
     (case cut s ''%'' of (body, zone, found) \<Rightarrow>
        if found \<and> zone = [] then None
        else map_option (\<lambda>bs. V6 (word_of_int (bytes_val bs)) zone) (parse_ipv6_body body))"

text \<open>\<open>ParseAddr\<close>: the first of the three marker bytes decides the family.\<close>

definition parse_addr :: "string \<Rightarrow> ip option" where
  "parse_addr s =
     (case List.find (\<lambda>c. c \<in> {CHR ''.'', CHR '':'', CHR ''%''}) s of
        None \<Rightarrow> None
      | Some c \<Rightarrow> if c = CHR ''.'' then parse_ipv4 s
                  else if c = CHR '':'' then parse_ipv6 s
                  else None)"

section \<open>Prefixes\<close>

datatype ip_prefix = Prefix (pfx_ip: ip) (pfx_bits: nat)

fun max_bits :: "ip \<Rightarrow> nat" where
  "max_bits (V4 _) = 32"
| "max_bits (V6 _ _) = 128"

fun has_zone :: "ip \<Rightarrow> bool" where
  "has_zone (V4 _) = False"
| "has_zone (V6 _ z) = (z \<noteq> [])"

text \<open>The text after the last slash, and the text before it.\<close>

definition cut_last :: "char \<Rightarrow> string \<Rightarrow> (string \<times> string) option" where
  "cut_last c s =
     (if c \<in> set s
      then Some (rev (tl (dropWhile (\<lambda>d. d \<noteq> c) (rev s))), rev (takeWhile (\<lambda>d. d \<noteq> c) (rev s)))
      else None)"

definition parse_prefix :: "string \<Rightarrow> ip_prefix option" where
  "parse_prefix s =
     (case cut_last (CHR ''/'') s of
        None \<Rightarrow> None
      | Some (addr, bits) \<Rightarrow>
          (case parse_addr addr of
             None \<Rightarrow> None
           | Some ip \<Rightarrow>
               if has_zone ip then None
               else if 1 < length bits \<and> \<not> (49 \<le> code_of (hd bits) \<and> code_of (hd bits) \<le> 57) then None
               else (case parse_int bits of
                       None \<Rightarrow> None
                     | Some n \<Rightarrow> if n < 0 \<or> int (max_bits ip) < n then None
                                 else Some (Prefix ip (nat n)))))"

fun prefix_contains :: "ip_prefix \<Rightarrow> ip \<Rightarrow> bool" where
  "prefix_contains (Prefix (V4 a) n) (V4 b) = (drop_bit (32 - n) (a XOR b) = 0)"
| "prefix_contains (Prefix (V6 a _) n) (V6 b z) = (z = [] \<and> drop_bit (128 - n) (a XOR b) = 0)"
| "prefix_contains _ _ = False"

section \<open>Address classes\<close>

fun unmap :: "ip \<Rightarrow> ip" where
  "unmap (V4 a) = V4 a"
| "unmap (V6 a z) = (if drop_bit 32 a = 0xffff then V4 (ucast a) else V6 a z)"

fun v4_class :: "nat \<Rightarrow> 32 word \<Rightarrow> 32 word \<Rightarrow> bool" where
  "v4_class n p a = (drop_bit (32 - n) a = p)"

fun loopback :: "ip \<Rightarrow> bool" where
  "loopback (V4 a) = v4_class 8 127 a"
| "loopback (V6 a z) = (a = 1)"

fun link_local_unicast :: "ip \<Rightarrow> bool" where
  "link_local_unicast (V4 a) = v4_class 16 0xa9fe a"
| "link_local_unicast (V6 a z) = (drop_bit 118 a = 0x3fa)"

fun link_local_multicast :: "ip \<Rightarrow> bool" where
  "link_local_multicast (V4 a) = v4_class 24 0xe00000 a"
| "link_local_multicast (V6 a z) = (drop_bit 112 a AND 0xff0f = 0xff02)"

fun private_net :: "ip \<Rightarrow> bool" where
  "private_net (V4 a) = (v4_class 8 10 a \<or> v4_class 12 0xac1 a \<or> v4_class 16 0xc0a8 a)"
| "private_net (V6 a z) = (drop_bit 121 a = 0x7e)"

definition is_loopback :: "ip \<Rightarrow> bool" where "is_loopback a = loopback (unmap a)"
definition is_link_local_unicast :: "ip \<Rightarrow> bool" where
  "is_link_local_unicast a = link_local_unicast (unmap a)"
definition is_link_local_multicast :: "ip \<Rightarrow> bool" where
  "is_link_local_multicast a = link_local_multicast (unmap a)"
definition is_private :: "ip \<Rightarrow> bool" where "is_private a = private_net (unmap a)"

text \<open>Only the two plain zero addresses are unspecified: no unmapping here.\<close>

fun is_unspecified :: "ip \<Rightarrow> bool" where
  "is_unspecified (V4 a) = (a = 0)"
| "is_unspecified (V6 a z) = (a = 0 \<and> z = [])"

section \<open>Printing\<close>

definition hex_digit :: "int \<Rightarrow> char" where
  "hex_digit n = ''0123456789abcdef'' ! nat n"

text \<open>\<open>appendHex\<close> of a 16-bit group: no leading zeros, at least one digit.\<close>

definition hex_digits :: "int \<Rightarrow> string" where
  "hex_digits n =
     (if 0x1000 \<le> n then [hex_digit (n div 4096)] else [])
     @ (if 0x100 \<le> n then [hex_digit (n div 256 mod 16)] else [])
     @ (if 0x10 \<le> n then [hex_digit (n div 16 mod 16)] else [])
     @ [hex_digit (n mod 16)]"

definition v4_string :: "32 word \<Rightarrow> string" where
  "v4_string a = join (map (\<lambda>k. nat_digits (nat (uint (drop_bit k a) mod 256))) [24, 16, 8, 0]) ''.''"

definition v6_groups :: "128 word \<Rightarrow> int list" where
  "v6_groups a = map (\<lambda>k. uint (drop_bit k a) mod 65536) [112, 96, 80, 64, 48, 32, 16, 0]"

text \<open>\<open>appendTo6\<close>: the first longest run of at least two zero groups is elided.\<close>

definition zero_run :: "int list \<Rightarrow> nat \<Rightarrow> nat" where
  "zero_run gs i = length (takeWhile (\<lambda>g. g = 0) (drop i gs))"

definition longest_zeros :: "int list \<Rightarrow> nat \<times> nat" where
  "longest_zeros gs =
     foldl (\<lambda>(st, l) i. let r = zero_run gs i in if 2 \<le> r \<and> l < r then (i, r) else (st, l))
       (8, 0) [0..<8]"

definition v6_string :: "128 word \<Rightarrow> string" where
  "v6_string a =
     (let gs = v6_groups a; (st, l) = longest_zeros gs
      in if l = 0 then join (map hex_digits gs) '':''
         else join (map hex_digits (take st gs)) '':'' @ ''::''
              @ join (map hex_digits (drop (st + l) gs)) '':'')"

fun addr_string :: "ip \<Rightarrow> string" where
  "addr_string (V4 a) = v4_string a"
| "addr_string (V6 a z) =
     (if drop_bit 32 a = 0xffff then ''::ffff:'' @ v4_string (ucast a) else v6_string a)
     @ (if z = [] then [] else CHR ''%'' # z)"

section \<open>Parsing does not see letter case\<close>

lemma char_eq_code: "c = d \<longleftrightarrow> code_of c = code_of d"
  by (metis char_of_char)

lemma code_of_lower_char: "code_of (lower_char c) = (if is_upper c then code_of c + 32 else code_of c)"
  by (simp add: lower_char_def is_upper_def code_of_char_of)

lemma lower_char_special [simp]:
  "is_digit (lower_char c) = is_digit c" "digit_val (lower_char c) = (if is_upper c then digit_val c + 32 else digit_val c)"
  "hex_val (lower_char c) = hex_val c" "is_hex (lower_char c) = is_hex c"
  by (auto simp: is_digit_def digit_val_def hex_val_def is_hex_def code_of_lower_char is_upper_def)

text \<open>A byte that is no letter is hit by no other byte.\<close>

lemma lower_char_eq_nonletter:
  "\<not> is_lower d \<Longrightarrow> \<not> is_upper d \<Longrightarrow> lower_char c = d \<longleftrightarrow> c = d"
  using code_of_lower_char[of c]
  by (auto simp: char_eq_code is_lower_def is_upper_def split: if_splits simp del: of_char_eq_iff)

lemma punct_nonletter [simp]:
  "lower_char c = CHR ''.'' \<longleftrightarrow> c = CHR ''.''"
  "lower_char c = CHR '':'' \<longleftrightarrow> c = CHR '':''"
  "lower_char c = CHR ''%'' \<longleftrightarrow> c = CHR ''%''"
  "lower_char c = CHR ''/'' \<longleftrightarrow> c = CHR ''/''"
  "lower_char c = CHR ''-'' \<longleftrightarrow> c = CHR ''-''"
  "lower_char c = CHR ''+'' \<longleftrightarrow> c = CHR ''+''"
  by (rule lower_char_eq_nonletter; code_simp)+

lemma colon_lower [simp]: "CHR '':'' = lower_char c \<longleftrightarrow> c = CHR '':''"
  by (metis punct_nonletter(2))

lemma dot_no_digit [simp]: "\<not> is_digit CHR ''.''"
  by (simp add: is_digit_def)

lemma digit_not_upper: "is_digit c \<Longrightarrow> \<not> is_upper c"
  by (auto simp: is_digit_def is_upper_def)

lemma v4_loop_fold: "v4_loop (map lower_char s) sep v dl fs = v4_loop s sep v dl fs"
  by (induction s sep v dl fs rule: v4_loop.induct) (auto simp: Let_def digit_not_upper)

lemma takeWhile_fold: "takeWhile is_hex (map lower_char s) = map lower_char (takeWhile is_hex s)"
  by (simp add: takeWhile_map o_def)

lemma dropWhile_fold: "dropWhile is_hex (map lower_char s) = map lower_char (dropWhile is_hex s)"
  by (simp add: dropWhile_map o_def)

lemma group_val_fold: "group_val (map lower_char h) = group_val h"
proof -
  have "foldl (\<lambda>a c. a * 16 + (case hex_val c of Some v \<Rightarrow> v | None \<Rightarrow> 0)) x (map lower_char h) =
        foldl (\<lambda>a c. a * 16 + (case hex_val c of Some v \<Rightarrow> v | None \<Rightarrow> 0)) x h" for x
    by (induction h arbitrary: x) simp_all
  then show ?thesis by (simp add: group_val_def)
qed

lemma v6_loop_fold:
  "v6_loop (map lower_char s) bs el =
   map_option (\<lambda>(r, bs, el). (map lower_char r, bs, el)) (v6_loop s bs el)"
proof (induction s bs el rule: v6_loop.induct)
  case (1 s bs el)
  note simps = v6_loop.simps[of "map lower_char s"] v6_loop.simps[of s]
  show ?case
    unfolding simps takeWhile_fold dropWhile_fold Let_def
    using "1.IH"[OF _ refl refl] 
    by (cases "dropWhile is_hex s")
      (auto simp: parse_ipv4_fields_def v4_loop_fold group_val_fold hd_map map_tl[symmetric]
        split: option.splits)
qed

lemma index_of_fold:
  "(\<And>x. lower_char x = c \<longleftrightarrow> x = c) \<Longrightarrow> index_of (map lower_char s) [c] = index_of s [c]"
  by (induction s) (auto simp: prefix_def)

lemma parse_ipv6_body_fold: "parse_ipv6_body (map lower_char s) = parse_ipv6_body s"
proof -
  have p: "has_prefix (map lower_char s) ''::'' = has_prefix s ''::''"
    by (cases s rule: remdups_adj.cases) (auto simp: has_prefix_def simp del: lower_char_special)
  show ?thesis
    unfolding parse_ipv6_body_def p Let_def
    by (auto simp: drop_map v6_loop_fold split: option.splits)
qed

fun lower_zone :: "ip \<Rightarrow> ip" where
  "lower_zone (V4 a) = V4 a"
| "lower_zone (V6 a z) = V6 a (to_lower z)"

lemma find_fold:
  "List.find (\<lambda>c. c \<in> {CHR ''.'', CHR '':'', CHR ''%''}) (map lower_char s) =
   List.find (\<lambda>c. c \<in> {CHR ''.'', CHR '':'', CHR ''%''}) s"
proof (induction s)
  case (Cons c s)
  have "c \<in> {CHR ''.'', CHR '':'', CHR ''%''} \<Longrightarrow> lower_char c = c"
    by (auto simp: lower_char_def is_upper_def)
  with Cons show ?case by auto
qed simp

lemma parse_addr_fold: "parse_addr (to_lower s) = map_option lower_zone (parse_addr s)"
proof -
  have "parse_ipv4 (map lower_char s) = map_option lower_zone (parse_ipv4 s)"
    by (cases "parse_ipv4_fields s") (simp_all add: parse_ipv4_def parse_ipv4_fields_def v4_loop_fold)
  moreover have "parse_ipv6 (map lower_char s) = map_option lower_zone (parse_ipv6 s)"
    by (cases "index_of s ''%''")
      (auto simp: parse_ipv6_def cut_def index_of_fold take_map drop_map parse_ipv6_body_fold
        to_lower_def option.map_comp o_def)
  ultimately show ?thesis
    unfolding parse_addr_def to_lower_def find_fold by (auto split: option.splits)
qed

lemma has_zone_lower [simp]: "has_zone (lower_zone ip) = has_zone ip"
  by (cases ip) (auto simp: to_lower_def)

lemma lower_zone_id: "\<not> has_zone ip \<Longrightarrow> lower_zone ip = ip"
  by (cases ip) (auto simp: to_lower_def)

lemma digits_val_fold: "digits_val x (map lower_char s) = digits_val x s"
  by (induction s arbitrary: x) (auto simp: digit_not_upper)

lemma parse_int_fold: "parse_int (map lower_char s) = parse_int s"
  using digits_val_fold[of 0 s] digits_val_fold[of 0 "tl s"]
  by (cases s) (auto simp: parse_int_def parse_unsigned_def)

lemma cut_last_fold:
  "cut_last (CHR ''/'') (map lower_char s) =
   map_option (\<lambda>(a, b). (map lower_char a, map lower_char b)) (cut_last (CHR ''/'') s)"
proof -
  have "takeWhile (\<lambda>d. d \<noteq> CHR ''/'') (map lower_char t) = map lower_char (takeWhile (\<lambda>d. d \<noteq> CHR ''/'') t)"
    "dropWhile (\<lambda>d. d \<noteq> CHR ''/'') (map lower_char t) = map lower_char (dropWhile (\<lambda>d. d \<noteq> CHR ''/'') t)" for t
    by (simp_all add: takeWhile_map dropWhile_map o_def)
  moreover have "CHR ''/'' \<in> lower_char ` set s \<longleftrightarrow> CHR ''/'' \<in> set s"
    using punct_nonletter(4) by (metis image_iff)
  ultimately show ?thesis by (simp add: cut_last_def rev_map map_tl[symmetric] image_iff)
qed

lemma parse_prefix_fold: "parse_prefix (to_lower s) = parse_prefix s"
proof (cases "cut_last (CHR ''/'') s")
  case None
  then show ?thesis by (simp add: parse_prefix_def to_lower_def cut_last_fold)
next
  case (Some ab)
  obtain addr bits where ab: "ab = (addr, bits)" by (cases ab)
  have first: "bits \<noteq> [] \<Longrightarrow> 49 \<le> code_of (hd (map lower_char bits)) \<and> code_of (hd (map lower_char bits)) \<le> 57 \<longleftrightarrow>
      49 \<le> code_of (hd bits) \<and> code_of (hd bits) \<le> 57"
    by (cases bits) (auto simp: code_of_lower_char is_upper_def)
  have pa: "parse_addr (map lower_char addr) = map_option lower_zone (parse_addr addr)"
    using parse_addr_fold[of addr] by (simp add: to_lower_def)
  show ?thesis
  proof (cases "parse_addr addr")
    case None
    then show ?thesis using Some ab pa by (simp add: parse_prefix_def to_lower_def cut_last_fold)
  next
    case ip: (Some ip)
    show ?thesis
    proof (cases "has_zone ip")
      case True
      then show ?thesis using Some ab pa ip by (simp add: parse_prefix_def to_lower_def cut_last_fold)
    next
      case False
      have guard: "(1 < length (map lower_char bits) \<and> \<not> (49 \<le> code_of (hd (map lower_char bits))
            \<and> code_of (hd (map lower_char bits)) \<le> 57)) =
          (1 < length bits \<and> \<not> (49 \<le> code_of (hd bits) \<and> code_of (hd bits) \<le> 57))"
        using first by (cases bits) simp_all
      show ?thesis
        unfolding parse_prefix_def to_lower_def cut_last_fold Some ab option.map option.case prod.case
          pa ip lower_zone_id[OF False] parse_int_fold guard by (rule refl)
    qed
  qed
qed

text \<open>Entries that differ in letter case only parse to the same prefix.\<close>

lemma equal_fold_prefix: "equal_fold s t \<Longrightarrow> parse_prefix s = parse_prefix t"
  by (metis equal_fold_def parse_prefix_fold)

lemma equal_fold_addr: "equal_fold s t \<Longrightarrow> parse_addr s = None \<longleftrightarrow> parse_addr t = None"
  by (metis equal_fold_def parse_addr_fold option.map_disc_iff)

section \<open>No literal is a prefix\<close>

text \<open>
  A slash stops both address parsers outside a zone, and a prefix may have no zone: no
  text is both an address and a prefix.
\<close>

lemma v4_loop_slash: "CHR ''/'' \<in> set s \<Longrightarrow> v4_loop s sep v dl fs = None"
  by (induction s sep v dl fs rule: v4_loop.induct) (auto simp: Let_def is_digit_def)

lemma slash_no_hex [simp]: "\<not> is_hex CHR ''/''"
  by code_simp

lemma v6_loop_slash:
  "v6_loop s bs el = Some (r, bs', el') \<Longrightarrow> CHR ''/'' \<in> set s \<Longrightarrow> CHR ''/'' \<in> set r"
proof (induction s bs el arbitrary: r bs' el' rule: v6_loop.induct)
  case (1 s bs el)
  have rest: "CHR ''/'' \<in> set (dropWhile is_hex s)"
    using 1(4) set_takeWhileD[of "CHR ''/''" is_hex s] slash_no_hex
    by (metis Un_iff set_append takeWhile_dropWhile_id)
  show ?case
  proof (cases "16 \<le> length bs")
    case True
    then show ?thesis using 1(3,4) by (simp add: v6_loop.simps[of s])
  next
    case False
    obtain c t where ct: "dropWhile is_hex s = c # t" using rest by (cases "dropWhile is_hex s") auto
    show ?thesis
    proof (cases "c = CHR ''.''")
      case True
      then show ?thesis using 1(3,4) False ct
        by (simp add: v6_loop.simps[of s] Let_def parse_ipv4_fields_def v4_loop_slash split: if_splits)
    next
      case dot: False
      define h where "h = takeWhile is_hex s"
      define bs1 where "bs1 = bs @ [group_val h div 256, group_val h mod 256]"
      have step: "\<not> 4 < length h" "h \<noteq> []" "c = CHR '':''" "t \<noteq> []"
        using 1(3) False ct dot by (simp_all add: v6_loop.simps[of s] Let_def h_def split: if_splits)
      then have t: "CHR ''/'' \<in> set t" using ct rest by simp
      have "v6_loop s bs el = (if hd t = CHR '':'' then
           (if el \<noteq> None then None
            else if tl t = [] then Some ([], bs1, Some (length bs1))
            else v6_loop (tl t) bs1 (Some (length bs1)))
         else v6_loop t bs1 el)"
        using False dot step
        by (subst v6_loop.simps) (simp add: Let_def ct h_def[symmetric] bs1_def[symmetric])
      with 1(3) have res: "(if hd t = CHR '':'' then
           (if el \<noteq> None then None
            else if tl t = [] then Some ([], bs1, Some (length bs1))
            else v6_loop (tl t) bs1 (Some (length bs1)))
         else v6_loop t bs1 el) = Some (r, bs', el')" by simp
      show ?thesis
      proof (cases "hd t = CHR '':''")
        case True
        then have "CHR ''/'' \<in> set (tl t)" using t by (cases t) auto
        moreover have "v6_loop (tl t) bs1 (Some (length bs1)) = Some (r, bs', el')" "el = None" "tl t \<noteq> []"
          using res True calculation by (auto split: if_splits)
        ultimately show ?thesis
          using 1(1)[OF False h_def ct[symmetric] step(1,2)] True step dot bs1_def by simp
      next
        case False
        then show ?thesis
          using 1(2)[OF \<open>\<not> 16 \<le> length bs\<close> h_def ct[symmetric] step(1,2)] res t step dot bs1_def by simp
      qed
    qed
  qed
qed

lemma parse_ipv6_body_slash: "CHR ''/'' \<in> set s \<Longrightarrow> parse_ipv6_body s = None"
proof (rule ccontr)
  assume s: "CHR ''/'' \<in> set s" and "parse_ipv6_body s \<noteq> None"
  moreover have "has_prefix s ''::'' \<Longrightarrow> CHR ''/'' \<in> set (drop 2 s)"
    using s by (auto simp: has_prefix_def prefix_def)
  ultimately show False
    by (auto simp: parse_ipv6_body_def Let_def split: if_splits option.splits dest: v6_loop_slash)
qed

lemma cut_char: "fst (cut s [c]) = takeWhile (\<lambda>x. x \<noteq> c) s"
  by (induction s) (auto simp: cut_def prefix_def split: option.splits)

lemma cut_char_zone: "cut s [c] = (a, z, f) \<Longrightarrow> f \<longleftrightarrow> c \<in> set s"
  by (induction s arbitrary: a z) (auto simp: cut_def prefix_def split: option.splits if_splits)

lemma cut_last_Some: "cut_last c s = Some (a, b) \<Longrightarrow> s = a @ c # b"
proof -
  assume cut: "cut_last c s = Some (a, b)"
  then have "c \<in> set (rev s)" by (auto simp: cut_last_def split: if_splits)
  then have ne: "dropWhile (\<lambda>d. d \<noteq> c) (rev s) \<noteq> []" by (simp add: dropWhile_eq_Nil_conv)
  obtain t where t: "dropWhile (\<lambda>d. d \<noteq> c) (rev s) = c # t"
    using ne hd_dropWhile[OF ne] by (cases "dropWhile (\<lambda>d. d \<noteq> c) (rev s)") simp_all
  have "rev s = takeWhile (\<lambda>d. d \<noteq> c) (rev s) @ c # t"
    using takeWhile_dropWhile_id[of "\<lambda>d. d \<noteq> c" "rev s"] t by simp
  then have "s = rev t @ c # rev (takeWhile (\<lambda>d. d \<noteq> c) (rev s))"
    by (metis append.assoc append_Cons append_Nil rev.simps(2) rev_append rev_swap)
  then show ?thesis using cut t by (auto simp: cut_last_def split: if_splits)
qed

lemma find_append: "List.find P xs = Some x \<Longrightarrow> List.find P (xs @ ys) = Some x"
  by (induction xs) (auto split: if_splits)

lemma literal_no_prefix:
  assumes "parse_addr e = Some ip"
  shows "parse_prefix e = None"
proof (rule ccontr)
  assume "parse_prefix e \<noteq> None"
  then obtain a b ip' where cut: "cut_last (CHR ''/'') e = Some (a, b)"
    and a: "parse_addr a = Some ip'" "\<not> has_zone ip'"
    by (auto simp: parse_prefix_def split: option.splits if_splits)
  have e: "e = a @ CHR ''/'' # b" using cut by (rule cut_last_Some)
  obtain c where c: "List.find (\<lambda>c. c \<in> {CHR ''.'', CHR '':'', CHR ''%''}) a = Some c"
    using a(1) by (auto simp: parse_addr_def split: option.splits)
  note ce = find_append[OF c, of "CHR ''/'' # b", folded e]
  have "c = CHR '':''"
    using assms ce e by (auto simp: parse_addr_def parse_ipv4_def parse_ipv4_fields_def v4_loop_slash split: if_splits)
  then have v6: "parse_ipv6 a = Some ip'" "parse_ipv6 e = Some ip"
    using a(1) assms c ce by (simp_all add: parse_addr_def)
  obtain body z f where ca: "cut a ''%'' = (body, z, f)" by (cases "cut a ''%''") auto
  have "\<not> f" using v6(1) a(2) ca by (auto simp: parse_ipv6_def split: if_splits)
  then have "CHR ''%'' \<notin> set a" using cut_char_zone[OF ca] by simp
  then have "\<forall>x \<in> set a. x \<noteq> CHR ''%''" by blast
  then have "CHR ''/'' \<in> set (fst (cut e ''%''))" by (simp add: cut_char e takeWhile_append2)
  then show False
    using v6(2) by (auto simp: parse_ipv6_def parse_ipv6_body_slash split: prod.splits if_splits)
qed

lemma zone_contains:
  "prefix_contains pfx ip \<Longrightarrow> lower_zone ip = ip" "prefix_contains pfx (lower_zone ip) \<Longrightarrow> lower_zone ip = ip"
  by (cases pfx; cases "pfx_ip pfx"; cases ip; force simp: to_lower_def)+

lemma prefix_spelling:
  assumes "parse_addr e = Some ip" "prefix_contains pfx ip" "equal_fold e a"
  shows "\<exists>ip'. parse_addr a = Some ip' \<and> prefix_contains pfx ip'"
proof -
  have "map_option lower_zone (parse_addr a) = Some ip"
    using parse_addr_fold[of e] parse_addr_fold[of a] assms zone_contains(1) by (simp add: equal_fold_def)
  then obtain ip' where "parse_addr a = Some ip'" "lower_zone ip' = ip" by auto
  then show ?thesis using assms(2) zone_contains(2)[of pfx ip'] by auto
qed

end
