(* ===== verification/GoTime.thy ===== *)
theory GoTime
  imports GoStrings
begin

text \<open>
  Go's \<open>time.Duration\<close> as the program uses it: a signed number of nanoseconds, its parser
  \<open>time.ParseDuration\<close> and its printer \<open>Duration.String\<close>. A policy's duration limit and every
  duration of a configuration go through both. The fraction of a parsed component is
  scaled in exact arithmetic and truncated.
\<close>

type_synonym duration = int

definition nanosecond :: duration where "nanosecond = 1"
definition microsecond :: duration where "microsecond = 1000"
definition millisecond :: duration where "millisecond = 1000000"
definition second :: duration where "second = 1000000000"
definition minute :: duration where "minute = 60000000000"
definition hour :: duration where "hour = 3600000000000"

lemmas duration_units [go_defs] =
  nanosecond_def microsecond_def millisecond_def second_def minute_def hour_def

section \<open>Printing\<close>

text \<open>The two bytes of the micro sign, and the unit it begins.\<close>

definition micro_unit :: string where "micro_unit = [CHR 0xC2, CHR 0xB5, CHR ''s'']"

text \<open>
  \<open>fmtFrac\<close>: the last \<open>prec\<close> digits as a fraction, trailing zeros and an empty fraction
  omitted, with the remaining integer.
\<close>

fun fmt_frac_loop :: "nat \<Rightarrow> int \<Rightarrow> bool \<Rightarrow> string \<Rightarrow> string \<times> int \<times> bool" where
  "fmt_frac_loop 0 v p acc = (acc, v, p)"
| "fmt_frac_loop (Suc n) v p acc =
     (let dg = v mod 10; p' = (p \<or> dg \<noteq> 0)
      in fmt_frac_loop n (v div 10) p' (if p' then char_of (nat dg + 48) # acc else acc))"

definition fmt_frac :: "int \<Rightarrow> nat \<Rightarrow> string \<times> int" where
  "fmt_frac v prec = (case fmt_frac_loop prec v False [] of
     (acc, v', p) \<Rightarrow> (if p then CHR ''.'' # acc else acc, v'))"

definition fmt_int :: "int \<Rightarrow> string" where
  "fmt_int v = nat_digits (nat v)"

definition frac_unit :: "int \<Rightarrow> nat \<Rightarrow> string \<Rightarrow> string" where
  "frac_unit u prec unit = (case fmt_frac u prec of (f, v) \<Rightarrow> fmt_int v @ f @ unit)"

definition duration_body :: "int \<Rightarrow> string" where
  "duration_body u =
     (if u < second then
        (if u = 0 then ''0s''
         else if u < microsecond then frac_unit u 0 ''ns''
         else if u < millisecond then frac_unit u 3 micro_unit
         else frac_unit u 6 ''ms'')
      else case fmt_frac u 9 of (f, secs) \<Rightarrow>
        let s = fmt_int (secs mod 60) @ f @ ''s''; mins = secs div 60
        in if mins > 0 then
             (let m = fmt_int (mins mod 60) @ ''m'' @ s; hours = mins div 60
              in if hours > 0 then fmt_int hours @ ''h'' @ m else m)
           else s)"

definition duration_string :: "duration \<Rightarrow> string" where
  "duration_string d = (if d < 0 then CHR ''-'' # duration_body (- d) else duration_body d)"

section \<open>Parsing\<close>

fun leading_int :: "int \<Rightarrow> string \<Rightarrow> (int \<times> string) option" where
  "leading_int x [] = Some (x, [])"
| "leading_int x (c # s) =
     (if \<not> is_digit c then Some (x, c # s)
      else if 922337203685477580 < x then None
      else let y = x * 10 + digit_val c
           in if 9223372036854775808 < y then None else leading_int y s)"

text \<open>Digits past the 64-bit range are read and ignored.\<close>

fun leading_fraction :: "int \<Rightarrow> int \<Rightarrow> bool \<Rightarrow> string \<Rightarrow> int \<times> int \<times> string" where
  "leading_fraction x scale ov [] = (x, scale, [])"
| "leading_fraction x scale ov (c # s) =
     (if \<not> is_digit c then (x, scale, c # s)
      else if ov then leading_fraction x scale True s
      else if 922337203685477580 < x then leading_fraction x scale True s
      else let y = x * 10 + digit_val c
           in if 9223372036854775808 < y then leading_fraction x scale True s
              else leading_fraction y (scale * 10) False s)"

definition unit_map :: "(string \<times> int) list" where
  "unit_map =
     [(''ns'', nanosecond), (''us'', microsecond), (micro_unit, microsecond),
      ([CHR 0xCE, CHR 0xBC, CHR ''s''], microsecond), (''ms'', millisecond),
      (''s'', second), (''m'', minute), (''h'', hour)]"

definition unit_end :: "char \<Rightarrow> bool" where
  "unit_end c \<longleftrightarrow> c = CHR ''.'' \<or> is_digit c"

lemma leading_int_length: "leading_int x s = Some (v, r) \<Longrightarrow> length r \<le> length s"
  by (induction x s rule: leading_int.induct) (auto simp: Let_def split: if_splits)

lemma leading_fraction_length: "leading_fraction x sc ov s = (f, sc', r) \<Longrightarrow> length r \<le> length s"
  by (induction x sc ov s rule: leading_fraction.induct) (auto simp: Let_def split: if_splits)

text \<open>One component: an integer part, a fraction, whether either has a digit, and the rest.\<close>

definition read_number :: "string \<Rightarrow> (int \<times> int \<times> int \<times> bool \<times> string) option" where
  "read_number s =
     (case leading_int 0 s of
        None \<Rightarrow> None
      | Some (v, s1) \<Rightarrow>
          let pre = (length s1 \<noteq> length s)
          in (case s1 of
                c # t \<Rightarrow>
                  if c = CHR ''.''
                  then (case leading_fraction 0 1 False t of
                          (f, sc, s2) \<Rightarrow> Some (v, f, sc, pre \<or> length s2 \<noteq> length t, s2))
                  else Some (v, 0, 1, pre, s1)
              | [] \<Rightarrow> Some (v, 0, 1, pre, s1)))"

lemma read_number_length: "read_number s = Some (v, f, sc, ok, r) \<Longrightarrow> length r \<le> length s"
  by (auto simp: read_number_def Let_def split: option.splits list.splits if_splits prod.splits
      dest!: leading_int_length leading_fraction_length)

function duration_loop :: "int \<Rightarrow> string \<Rightarrow> int option" where
  "duration_loop d s =
     (if s = [] then Some d
      else if \<not> unit_end (hd s) then None
      else case read_number s of
        None \<Rightarrow> None
      | Some (v, f, sc, ok, s2) \<Rightarrow>
          let u = takeWhile (\<lambda>c. \<not> unit_end c) s2
          in if \<not> ok \<or> u = [] then None
             else (case map_of unit_map u of
                 None \<Rightarrow> None
               | Some unit \<Rightarrow>
                   if 9223372036854775808 div unit < v then None
                   else let w = v * unit + (if 0 < f then f * unit div sc else 0)
                   in if 9223372036854775808 < w then None
                   else if 9223372036854775808 < d + w then None
                   else duration_loop (d + w) (drop (length u) s2)))"
  by pat_completeness auto
termination
proof (relation "measure (\<lambda>(d, s). length s)", goal_cases)
  case (2 d s t v rest f rest' sc rest'' ok s2 u unit w)
  then have "length s2 \<le> length s" by (auto dest: read_number_length)
  moreover have "u \<noteq> []" "length u \<le> length s2"
    using 2 by (auto simp: length_takeWhile_le)
  then have "length s2 - length u < length s2" by (cases u) auto
  ultimately show ?case by simp
qed simp

declare duration_loop.simps [simp del]

definition parse_duration :: "string \<Rightarrow> duration option" where
  "parse_duration s =
     (let (neg, t) = (case s of
            c # r \<Rightarrow> if c = CHR ''-'' then (True, r) else if c = CHR ''+'' then (False, r) else (False, s)
          | [] \<Rightarrow> (False, s))
      in if t = ''0'' then Some 0
         else if t = [] then None
         else case duration_loop 0 t of
           None \<Rightarrow> None
         | Some d \<Rightarrow> if neg then Some (- d)
                     else if 9223372036854775807 < d then None else Some d)"

section \<open>Reading back what was printed\<close>

text \<open>Text that stops a run of digits: the end, or a byte that is not a digit.\<close>

definition stops :: "string \<Rightarrow> bool" where
  "stops s \<longleftrightarrow> s = [] \<or> \<not> is_digit (hd s)"

lemma digit_val_range: "is_digit c \<Longrightarrow> 0 \<le> digit_val c \<and> digit_val c \<le> 9"
  by (auto simp: is_digit_def digit_val_def)

lemma digits_val_mono: "digits_val x ds = Some v \<Longrightarrow> 0 \<le> x \<Longrightarrow> x \<le> v"
proof (induction ds arbitrary: x)
  case (Cons c ds)
  then have "is_digit c" by (auto split: if_splits)
  with Cons digit_val_range[of c] have "x * 10 + digit_val c \<le> v" by auto
  with Cons.prems(2) digit_val_range[OF \<open>is_digit c\<close>] show ?case by linarith
qed simp

lemma leading_int_digits:
  "digits_val x ds = Some v \<Longrightarrow> 0 \<le> x \<Longrightarrow> v \<le> 9223372036854775808 \<Longrightarrow> stops rest \<Longrightarrow>
   leading_int x (ds @ rest) = Some (v, rest)"
proof (induction ds arbitrary: x)
  case Nil
  then show ?case by (cases rest) (auto simp: stops_def)
next
  case (Cons c ds)
  let ?y = "x * 10 + digit_val c"
  from Cons.prems have c: "is_digit c" and v: "digits_val ?y ds = Some v" by (auto split: if_splits)
  have "0 \<le> ?y" using digit_val_range[OF c] Cons.prems(2) by simp
  moreover from this have "?y \<le> v" by (rule digits_val_mono[OF v])
  moreover have "0 \<le> digit_val c" "digit_val c \<le> 9" using digit_val_range[OF c] by auto
  ultimately show ?case using Cons.IH[OF v] Cons.prems c by (auto simp: Let_def)
qed

lemma leading_fraction_digits:
  "digits_val x ds = Some v \<Longrightarrow> 0 \<le> x \<Longrightarrow> v < 9223372036854775808 \<Longrightarrow> stops rest \<Longrightarrow>
   leading_fraction x sc False (ds @ rest) = (v, sc * 10 ^ length ds, rest)"
proof (induction ds arbitrary: x sc)
  case Nil
  then show ?case by (cases rest) (auto simp: stops_def)
next
  case (Cons c ds)
  let ?y = "x * 10 + digit_val c"
  from Cons.prems have c: "is_digit c" and v: "digits_val ?y ds = Some v" by (auto split: if_splits)
  have "0 \<le> ?y" using digit_val_range[OF c] Cons.prems(2) by simp
  moreover from this have "?y \<le> v" by (rule digits_val_mono[OF v])
  moreover have "0 \<le> digit_val c" "digit_val c \<le> 9" using digit_val_range[OF c] by auto
  ultimately show ?case using Cons.IH[OF v] Cons.prems c by (auto simp: Let_def mult.assoc)
qed

text \<open>What the fraction printer leaves out is exactly the trailing zeros.\<close>

lemma mod_pow_Suc: "v mod 10 ^ Suc n = (v div 10 mod 10 ^ n) * 10 + v mod (10::int)"
  using zmod_zmult2_eq[of "10 ^ n" v 10] by (simp add: mult.commute)

lemma div_pow_Suc: "v div 10 ^ Suc n = v div 10 div 10 ^ n" for v :: int
  by (simp add: zdiv_zmult2_eq)

lemma digit_char_int: "0 \<le> d \<Longrightarrow> d < 10 \<Longrightarrow>
    is_digit (char_of (nat d + 48)) \<and> digit_val (char_of (nat d + 48)) = d"
  using digit_char[of "nat d"] by auto

lemma digits_val_snoc:
  "digits_val x ds = Some f \<Longrightarrow> 0 \<le> d \<Longrightarrow> d < 10 \<Longrightarrow>
   digits_val x (ds @ [char_of (nat d + 48)]) = Some (f * 10 + d)"
  using digit_char_int[of d] by (simp add: digits_val_append)

lemma fmt_frac_loop_printing:
  "\<exists>ds. fmt_frac_loop n v True acc = (ds @ acc, v div 10 ^ n, True) \<and>
        length ds = n \<and> digits_val 0 ds = Some (v mod 10 ^ n)"
proof (induction n arbitrary: v acc)
  case 0
  then show ?case by simp
next
  case (Suc n)
  let ?d = "v mod 10"
  obtain ds where ds: "fmt_frac_loop n (v div 10) True (char_of (nat ?d + 48) # acc) =
      (ds @ char_of (nat ?d + 48) # acc, v div 10 div 10 ^ n, True)"
    "length ds = n" "digits_val 0 ds = Some (v div 10 mod 10 ^ n)"
    using Suc.IH by blast
  let ?e = "ds @ [char_of (nat ?d + 48)]"
  have "digits_val 0 ?e = Some (v mod 10 ^ Suc n)"
    using digits_val_snoc[OF ds(3), of ?d] by (simp only: mod_pow_Suc)
  moreover have "fmt_frac_loop (Suc n) v True acc = (?e @ acc, v div 10 ^ Suc n, True)"
    using ds(1) by (simp add: Let_def div_pow_Suc del: power_Suc)
  moreover have "length ?e = Suc n" using ds(2) by simp
  ultimately show ?case by blast
qed

lemma fmt_frac_loop_spec:
  "(v mod 10 ^ n = 0 \<and> fmt_frac_loop n v False [] = ([], v div 10 ^ n, False)) \<or>
   (\<exists>ds f k. fmt_frac_loop n v False [] = (ds, v div 10 ^ n, True) \<and> ds \<noteq> [] \<and>
      length ds + k = n \<and> digits_val 0 ds = Some f \<and> f * 10 ^ k = v mod 10 ^ n)"
proof (induction n arbitrary: v)
  case 0
  then show ?case by simp
next
  case (Suc n)
  let ?d = "v mod 10"
  show ?case
  proof (cases "?d = 0")
    case True
    with Suc.IH[of "v div 10"] show ?thesis
      by (auto simp add: Let_def div_pow_Suc mod_pow_Suc simp del: power_Suc)
        (auto simp: intro!: exI[of _ "Suc _"])
  next
    case False
    obtain ds where ds: "fmt_frac_loop n (v div 10) True [char_of (nat ?d + 48)] =
        (ds @ [char_of (nat ?d + 48)], v div 10 div 10 ^ n, True)"
      "length ds = n" "digits_val 0 ds = Some (v div 10 mod 10 ^ n)"
      using fmt_frac_loop_printing by blast
    have "digits_val 0 (ds @ [char_of (nat ?d + 48)]) = Some (v mod 10 ^ Suc n)"
      using digits_val_snoc[OF ds(3), of ?d] by (simp only: mod_pow_Suc)
    with ds False show ?thesis
      by (intro disjI2 exI[of _ "ds @ [char_of (nat ?d + 48)]"] exI[of _ "v mod 10 ^ Suc n"] exI[of _ 0])
        (simp add: Let_def div_pow_Suc del: power_Suc)
  qed
qed

text \<open>A printed fraction of \<open>n\<close> places worth \<open>r\<close> units of the last place.\<close>

definition is_frac :: "string \<Rightarrow> nat \<Rightarrow> int \<Rightarrow> bool" where
  "is_frac fs n r \<longleftrightarrow>
     (fs = [] \<and> r = 0) \<or>
     (\<exists>ds f k. fs = CHR ''.'' # ds \<and> ds \<noteq> [] \<and> length ds + k = n \<and>
        digits_val 0 ds = Some f \<and> f * 10 ^ k = r)"

lemma fmt_frac_is_frac:
  "\<exists>fs. fmt_frac v n = (fs, v div 10 ^ n) \<and> is_frac fs n (v mod 10 ^ n)"
  using fmt_frac_loop_spec[of v n] by (auto simp: fmt_frac_def is_frac_def)

lemma digits_val_nonneg: "digits_val 0 ds = Some f \<Longrightarrow> 0 \<le> f"
  by (rule digits_val_mono) simp_all

lemma not_unit_end_stops: "us \<noteq> [] \<Longrightarrow> \<forall>c \<in> set us. \<not> unit_end c \<Longrightarrow> stops (us @ rest)"
  by (cases us) (auto simp: stops_def unit_end_def)

lemma read_number_printed:
  assumes fs: "is_frac fs n r" and v: "0 \<le> v" "v \<le> 9223372036854775808"
    and r: "r < 9223372036854775808"
    and us: "us \<noteq> []" "\<forall>c \<in> set us. \<not> unit_end c"
  shows "\<exists>f sc. read_number (fmt_int v @ fs @ us @ rest) = Some (v, f, sc, True, us @ rest) \<and>
    (if 0 < f then f * 10 ^ n div sc else 0) = r \<and> (fs = [] \<longrightarrow> f = 0)"
proof -
  have stop: "stops (us @ rest)" using us by (rule not_unit_end_stops)
  have dv: "digits_val 0 (fmt_int v) = Some v"
    using v digits_val_nat_digits[of "nat v"] by (simp add: fmt_int_def)
  have ne: "fmt_int v \<noteq> []" by (simp add: fmt_int_def)
  have lead: "stops t \<Longrightarrow> leading_int 0 (fmt_int v @ t) = Some (v, t)" for t
    using leading_int_digits[OF dv _ v(2)] by simp
  show ?thesis
  proof (cases "fs = []")
    case True
    then have r0: "r = 0" using fs by (auto simp: is_frac_def)
    have "hd (us @ rest) \<noteq> CHR ''.''" "us @ rest \<noteq> []"
      using us by (cases us; auto simp: unit_end_def)+
    then show ?thesis using lead[OF stop] ne True r0
      by (cases "us @ rest") (auto simp: read_number_def Let_def)
  next
    case False
    then obtain ds f k where d: "fs = CHR ''.'' # ds" "ds \<noteq> []" "length ds + k = n"
      "digits_val 0 ds = Some f" "f * 10 ^ k = r" using fs by (auto simp: is_frac_def)
    have f0: "0 \<le> f" using d(4) by (rule digits_val_nonneg)
    have "f * 1 \<le> f * 10 ^ k" by (rule mult_left_mono) (use f0 in simp_all)
    then have "f < 9223372036854775808" using d(5) r by simp
    then have frac: "leading_fraction 0 1 False (ds @ us @ rest) = (f, 10 ^ length ds, us @ rest)"
      using leading_fraction_digits[OF d(4) _ _ stop, of 1] by simp
    have "f * 10 ^ n = r * 10 ^ length ds"
      using d(3,5) by (simp add: power_add algebra_simps flip: d(3))
    then have "f * 10 ^ n div 10 ^ length ds = r" by simp
    moreover have "\<not> 0 < f \<Longrightarrow> r = 0" using f0 d(5) by simp
    moreover have "stops (CHR ''.'' # ds @ us @ rest)" by (simp add: stops_def is_digit_def)
    ultimately show ?thesis using lead[of "CHR ''.'' # ds @ us @ rest"] frac d(1,2) ne
      by (auto simp: read_number_def Let_def)
  qed
qed

lemma unit_name: "map_of unit_map us = Some U \<Longrightarrow>
    us \<noteq> [] \<and> (\<forall>c \<in> set us. \<not> unit_end c) \<and> 0 < U"
  by (auto simp: unit_map_def micro_unit_def unit_end_def is_digit_def go_defs split: if_splits)

text \<open>One printed component is read back whole and added to the total.\<close>

lemma duration_component:
  assumes unit: "map_of unit_map us = Some U" and fs: "is_frac fs n r"
    and scale: "U = 10 ^ n \<or> fs = []"
    and v: "0 \<le> v" "0 \<le> d" "0 \<le> r" "r < 9223372036854775808"
    and total: "d + (v * U + r) \<le> 9223372036854775808"
    and rest: "rest = [] \<or> unit_end (hd rest)"
  shows "duration_loop d (fmt_int v @ fs @ us @ rest) = duration_loop (d + (v * U + r)) rest"
proof -
  note us = unit_name[OF unit]
  have "v * 1 \<le> v * U" by (rule mult_left_mono) (use us v in auto)
  then have vb: "v \<le> 9223372036854775808" using total v by linarith
  obtain f sc where rn: "read_number (fmt_int v @ fs @ us @ rest) = Some (v, f, sc, True, us @ rest)"
    and f: "(if 0 < f then f * 10 ^ n div sc else 0) = r" "fs = [] \<longrightarrow> f = 0"
    using read_number_printed[OF fs v(1) vb v(4)] us by blast
  have contrib: "(if 0 < f then f * U div sc else 0) = r"
    using f scale by (cases "fs = []") auto
  have tw: "takeWhile (\<lambda>c. \<not> unit_end c) (us @ rest) = us"
    using us rest by (cases rest) (auto simp: takeWhile_append takeWhile_eq_all_conv)
  have "v * U \<le> 9223372036854775808" using total v by linarith
  then have "v * U div U \<le> 9223372036854775808 div U" using us by (intro zdiv_mono1) auto
  then have ov: "\<not> 9223372036854775808 div U < v" using us by simp
  have start: "fmt_int v @ fs @ us @ rest \<noteq> []" "unit_end (hd (fmt_int v @ fs @ us @ rest))"
    using nat_digits_are_digits[of "nat v"] nat_digits_nonempty[of "nat v"]
    by (auto simp: fmt_int_def unit_end_def hd_append)
  show ?thesis
    using start rn tw us unit ov contrib total v
    by (subst duration_loop.simps) (simp add: Let_def)
qed

lemma units_table:
  "map_of unit_map ''ns'' = Some 1" "map_of unit_map micro_unit = Some 1000"
  "map_of unit_map ''ms'' = Some 1000000" "map_of unit_map ''s'' = Some 1000000000"
  "map_of unit_map ''m'' = Some 60000000000" "map_of unit_map ''h'' = Some 3600000000000"
  by (simp_all add: unit_map_def micro_unit_def go_defs)

lemma duration_loop_end [simp]: "duration_loop d [] = Some d"
  by (subst duration_loop.simps) simp

lemma fmt_int_starts: "unit_end (hd (fmt_int v @ t)) \<and> fmt_int v @ t \<noteq> []"
  using nat_digits_are_digits[of "nat v"] nat_digits_nonempty[of "nat v"]
  by (auto simp: fmt_int_def unit_end_def hd_append)

lemma frac_unit_loop:
  assumes "map_of unit_map us = Some (10 ^ n)" "0 \<le> u" "u \<le> 9223372036854775808" "n \<le> 9"
  shows "duration_loop 0 (frac_unit u n us) = Some u"
proof -
  obtain fs where fs: "fmt_frac u n = (fs, u div 10 ^ n)" "is_frac fs n (u mod 10 ^ n)"
    using fmt_frac_is_frac by blast
  have "(10::int) ^ n \<le> 1000000000" using power_increasing[of n 9 "10::int"] assms(4) by simp
  moreover have "u mod 10 ^ n < 10 ^ n" by simp
  ultimately have "u mod 10 ^ n < 9223372036854775808" by linarith
  moreover have "0 \<le> u div 10 ^ n" "0 \<le> u mod 10 ^ n"
    using assms(2) by (simp_all add: pos_imp_zdiv_nonneg_iff)
  moreover have "u div 10 ^ n * 10 ^ n + u mod 10 ^ n = u" by (rule div_mult_mod_eq)
  ultimately have "duration_loop 0 (fmt_int (u div 10 ^ n) @ fs @ us @ []) = duration_loop u []"
    using duration_component[OF assms(1) fs(2), of "u div 10 ^ n" 0 "[]"] assms(3) by simp
  then show ?thesis by (simp add: frac_unit_def fs(1))
qed

text \<open>A component with no fraction.\<close>

lemma whole_component:
  assumes "map_of unit_map us = Some U" "0 \<le> v" "0 \<le> d" "d + v * U \<le> 9223372036854775808"
    and "rest = [] \<or> unit_end (hd rest)"
  shows "duration_loop d (fmt_int v @ us @ rest) = duration_loop (d + v * U) rest"
  using duration_component[OF assms(1), of "[]" 0 0 v d rest] assms(2-) by (simp add: is_frac_def)

lemma seconds_component:
  assumes "is_frac fs 9 r" "0 \<le> v" "0 \<le> d" "0 \<le> r" "r < 1000000000"
    and "d + (v * 1000000000 + r) \<le> 9223372036854775808"
  shows "duration_loop d (fmt_int v @ fs @ ''s'') = Some (d + (v * 1000000000 + r))"
  using duration_component[OF units_table(4) assms(1), of v d "[]"] assms(2-) by simp

lemma duration_body_loop:
  assumes "0 \<le> u" "u \<le> 9223372036854775808"
  shows "duration_loop 0 (duration_body u) = Some u"
proof (cases "u < second")
  case True
  have "duration_loop 0 ''0s'' = Some 0" by code_simp
  then show ?thesis using True assms units_table frac_unit_loop[of _ 0 u] frac_unit_loop[of _ 3 u]
      frac_unit_loop[of _ 6 u] by (simp add: duration_body_def)
next
  case False
  define secs r where "secs = u div 1000000000" and "r = u mod 1000000000"
  obtain fs where fs: "fmt_frac u 9 = (fs, secs)" "is_frac fs 9 r"
    using fmt_frac_is_frac[of u 9] by (auto simp: secs_def r_def)
  have u: "u = secs * 1000000000 + r" "0 \<le> r" "r < 1000000000" "0 < secs"
    using False assms by (auto simp: secs_def r_def second_def)
  define mins s where "mins = secs div 60" and "s = secs mod 60"
  have s: "secs = mins * 60 + s" "0 \<le> s" "s < 60" "0 \<le> mins" using u by (auto simp: mins_def s_def)
  define hours m where "hours = mins div 60" and "m = mins mod 60"
  have m: "mins = hours * 60 + m" "0 \<le> m" "m < 60" "0 \<le> hours" using s by (auto simp: hours_def m_def)
  let ?S = "fmt_int s @ fs @ ''s''"
  let ?M = "fmt_int m @ ''m'' @ ?S"
  have body: "duration_body u = (if 0 < mins then if 0 < hours then fmt_int hours @ ''h'' @ ?M else ?M else ?S)"
    using False by (simp add: duration_body_def fs(1) Let_def mins_def s_def hours_def m_def)
  have S: "0 \<le> d \<Longrightarrow> d + (s * 1000000000 + r) \<le> 9223372036854775808 \<Longrightarrow>
      duration_loop d ?S = Some (d + (s * 1000000000 + r))" for d
    using seconds_component[OF fs(2)] s u by simp
  have M: "0 \<le> d \<Longrightarrow> d + (m * 60000000000 + (s * 1000000000 + r)) \<le> 9223372036854775808 \<Longrightarrow>
      duration_loop d ?M = Some (d + (m * 60000000000 + (s * 1000000000 + r)))" for d
    using whole_component[OF units_table(5), of m d ?S] S[of "d + m * 60000000000"] s u m
      fmt_int_starts[of s "fs @ ''s''"] by (simp add: add.assoc)
  have H: "duration_loop 0 (fmt_int hours @ ''h'' @ ?M) = Some u"
    using whole_component[OF units_table(6), of hours 0 ?M] M[of "hours * 3600000000000"] s u m assms
      fmt_int_starts[of m "''m'' @ ?S"] by (simp add: add.assoc)
  consider "0 < hours" | "hours = 0" "0 < mins" | "hours = 0" "mins = 0" using m s by linarith
  then show ?thesis
  proof cases
    case 1
    then show ?thesis using body H m by simp
  next
    case 2
    then show ?thesis using body M[of 0] s u m assms by simp
  next
    case 3
    then show ?thesis using body S[of 0] s u m assms by simp
  qed
qed

lemma fmt_int_first: "x \<noteq> [] \<Longrightarrow> \<exists>c t. fmt_int v @ x = c # t \<and> is_digit c \<and> t \<noteq> []"
  using nat_digits_are_digits[of "nat v"] nat_digits_nonempty[of "nat v"]
  by (cases "nat_digits (nat v)") (auto simp: fmt_int_def)

lemma duration_body_starts: "\<exists>c t. duration_body u = c # t \<and> is_digit c \<and> t \<noteq> []"
proof -
  have "u = 0 \<Longrightarrow> ?thesis" by (simp add: duration_body_def second_def is_digit_def)
  moreover have "u \<noteq> 0 \<Longrightarrow> \<exists>v x. duration_body u = fmt_int v @ x \<and> x \<noteq> []"
    by (auto simp: duration_body_def frac_unit_def micro_unit_def Let_def split: prod.splits)
  ultimately show ?thesis using fmt_int_first by metis
qed

text \<open>What is written reads back, for the theories above this one.\<close>

lemma parse_written:
  assumes "in_int64 d"
  shows "parse_duration (duration_string d) = Some d"
proof -
  obtain c t where body: "duration_body \<bar>d\<bar> = c # t" "is_digit c" "t \<noteq> []"
    using duration_body_starts by blast
  have loop: "duration_loop 0 (duration_body \<bar>d\<bar>) = Some \<bar>d\<bar>"
    using assms by (intro duration_body_loop) (auto simp: in_int64_def min_int64_def max_int64_def)
  have "c \<noteq> CHR ''-''" "c \<noteq> CHR ''+''" using body(2) by (auto simp: is_digit_def)
  then show ?thesis using loop body assms
    by (cases "d < 0") (auto simp: parse_duration_def duration_string_def in_int64_def max_int64_def)
qed

end
