(* ===== verification/Policy.thy ===== *)
theory Policy
  imports Errs Netip GoTime
begin

text \<open>
  The safety envelope, \<open>internal/policy/policy.go\<close>: the policy a human grants, the tightening
  a configuration asks for, the checks made against the result, and the classification and
  admission of resolved targets. Name resolution is a parameter.
\<close>

section \<open>The envelope\<close>

record policy =
  p_version :: int
  p_allow_targets :: "string list"
  p_deny_targets :: "string list"
  p_allow_public :: bool
  p_allow_writes :: bool
  p_allow_dangerous :: bool
  p_allow_insecure_tls :: bool
  p_allow_detach :: bool
  p_max_rate :: "float64 option"
  p_max_in_flight :: "int option"
  p_max_duration :: "string option"
  p_max_concurrent_runs :: int
  p_run_root :: string
  p_redact_headers :: "string list"

definition policy_version :: int where "policy_version = 1"

definition Default :: policy where
  "Default = \<lparr>p_version = policy_version, p_allow_targets = [], p_deny_targets = [],
     p_allow_public = False, p_allow_writes = False, p_allow_dangerous = False,
     p_allow_insecure_tls = False, p_allow_detach = True, p_max_rate = None,
     p_max_in_flight = None, p_max_duration = None, p_max_concurrent_runs = 1,
     p_run_root = ''runs'', p_redact_headers = []\<rparr>"

definition ServerDefault :: policy where
  "ServerDefault = Default\<lparr>p_max_rate := Some (Fin 500), p_max_in_flight := Some 512,
     p_max_duration := Some ''10m''\<rparr>"

text \<open>\<open>MaxRunDuration\<close>: the ceiling, if there is one, or the parse error.\<close>

definition MaxRunDuration :: "policy \<Rightarrow> duration option result" where
  "MaxRunDuration p = (case p_max_duration p of
      None \<Rightarrow> Inr None
    | Some s \<Rightarrow> if s = [] then Inr None
                else (case parse_duration s of
                    None \<Rightarrow> Inl (new_error CodePolicyParse)
                  | Some d \<Rightarrow> Inr (Some d)))"

section \<open>Addresses and targets\<close>

datatype scope = ScopeLoopback | ScopeLinkLocal | ScopePrivate | ScopePublic

fun rank :: "scope \<Rightarrow> nat" where
  "rank ScopeLoopback = 0"
| "rank ScopeLinkLocal = 1"
| "rank ScopePrivate = 2"
| "rank ScopePublic = 3"

lemma rank_inj: "rank s = rank s' \<longleftrightarrow> s = s'"
  by (cases s; cases s') auto

instantiation scope :: linorder
begin

definition less_eq_scope :: "scope \<Rightarrow> scope \<Rightarrow> bool" where
  "less_eq_scope s s' \<longleftrightarrow> rank s \<le> rank s'"

definition less_scope :: "scope \<Rightarrow> scope \<Rightarrow> bool" where
  "less_scope s s' \<longleftrightarrow> rank s < rank s'"

instance
  by standard (auto simp: less_eq_scope_def less_scope_def rank_inj)

end

lemma scope_top: "s \<le> ScopePublic"
  by (cases s) (simp_all add: less_eq_scope_def)

lemma scope_bot: "ScopeLoopback \<le> s"
  by (cases s) (simp_all add: less_eq_scope_def)

record target =
  tg_host :: string
  tg_addrs :: "string list"
  tg_scope :: scope

definition classifyOne :: "string \<Rightarrow> scope" where
  "classifyOne addr = (case parse_addr addr of
      None \<Rightarrow> ScopePublic
    | Some ip \<Rightarrow>
        if is_loopback ip then ScopeLoopback
        else if is_link_local_unicast ip \<or> is_link_local_multicast ip then ScopeLinkLocal
        else if is_private ip \<or> is_unspecified ip then ScopePrivate
        else ScopePublic)"

fun widest_from :: "scope \<Rightarrow> string list \<Rightarrow> scope" where
  "widest_from w [] = w"
| "widest_from w (a # as) =
     widest_from (if rank w < rank (classifyOne a) then classifyOne a else w) as"

definition ClassifyAddrs :: "string list \<Rightarrow> scope" where
  "ClassifyAddrs addrs = widest_from ScopeLoopback addrs"

text \<open>Whether a list entry - a host name, an address or a CIDR - covers a target.\<close>

definition matches :: "string \<Rightarrow> target \<Rightarrow> bool" where
  "matches entry t =
     (if equal_fold entry (tg_host t) then True
      else case parse_prefix entry of
        Some pfx \<Rightarrow> (\<exists>a \<in> set (tg_addrs t).
            case parse_addr a of Some ip \<Rightarrow> prefix_contains pfx ip | None \<Rightarrow> False)
      | None \<Rightarrow> parse_addr entry \<noteq> None \<and> (\<exists>a \<in> set (tg_addrs t). equal_fold entry a))"

definition allowlistPermits :: "policy \<Rightarrow> string \<Rightarrow> bool" where
  "allowlistPermits p entry =
     (p_allow_public p \<or>
      (\<exists>permitted \<in> set (p_allow_targets p).
         equal_fold permitted entry \<or>
         (case parse_prefix permitted of
            None \<Rightarrow> False
          | Some pfx \<Rightarrow> (case parse_addr entry of None \<Rightarrow> False | Some ip \<Rightarrow> prefix_contains pfx ip))) \<or>
      (case parse_addr entry of
         None \<Rightarrow> False
       | Some ip \<Rightarrow> classifyOne (addr_string ip) \<noteq> ScopePublic))"

definition CheckTarget :: "policy \<Rightarrow> target \<Rightarrow> unit result" where
  "CheckTarget p t =
     (if \<exists>entry \<in> set (p_deny_targets p). matches entry t
      then Inl (new_error CodePolicyTargetNotAllowed)
      else if tg_scope t \<noteq> ScopePublic then Inr ()
      else if p_allow_public p then Inr ()
      else if \<exists>entry \<in> set (p_allow_targets p). matches entry t then Inr ()
      else Inl (new_error CodePolicyTargetNotAllowed))"

text \<open>\<open>Resolve\<close>: a literal address is its own answer, a name is looked up.\<close>

definition Resolve :: "(string \<Rightarrow> string list option) \<Rightarrow> string \<Rightarrow> target result" where
  "Resolve lookup host =
     (case parse_addr host of
        Some ip \<Rightarrow> Inr \<lparr>tg_host = host, tg_addrs = [addr_string ip],
                         tg_scope = ClassifyAddrs [addr_string ip]\<rparr>
      | None \<Rightarrow>
          (case lookup host of
             None \<Rightarrow> Inl (new_error CodePreflightDNS)
           | Some addrs \<Rightarrow> Inr \<lparr>tg_host = host, tg_addrs = addrs, tg_scope = ClassifyAddrs addrs\<rparr>))"

section \<open>Tightening\<close>

record tightening =
  t_allow_writes :: bool
  t_allow_dangerous :: bool
  t_allow_insecure_tls :: bool
  t_allow_targets :: "string list"
  t_max_rate :: "float64 option"
  t_max_in_flight :: "int option"
  t_max_duration :: "duration option"

definition exceeds :: "string \<Rightarrow> coded_error" where
  "exceeds field = error_at CodePolicyDenied (''/safety/'' @ field)"

definition summarise :: "coded_error list \<Rightarrow> coded_error" where
  "summarise es = (case es of [e] \<Rightarrow> e | _ \<Rightarrow> with_causes es (new_error CodePolicyDenied))"

definition flag_problem :: "bool \<Rightarrow> bool \<Rightarrow> code \<Rightarrow> string \<Rightarrow> coded_error list" where
  "flag_problem asked granted c path = (if asked \<and> \<not> granted then [error_at c path] else [])"

text \<open>
  One step per limit: the problems it adds and the value it leaves. A larger wish is a
  problem and leaves the policy's limit in place.
\<close>

definition tighten_targets :: "policy \<Rightarrow> string list \<Rightarrow> coded_error list \<times> string list" where
  "tighten_targets p ts =
     (if ts = [] then ([], p_allow_targets p)
      else (if \<exists>entry \<in> set ts. \<not> allowlistPermits p entry
            then [error_at CodePolicyTargetNotAllowed ''/safety/allow_targets''] else [], ts))"

definition tighten_rate :: "float64 option \<Rightarrow> float64 option \<Rightarrow> coded_error list \<times> float64 option" where
  "tighten_rate limit want = (case want of
      None \<Rightarrow> ([], limit)
    | Some w \<Rightarrow> if (case limit of Some l \<Rightarrow> f_less l w | None \<Rightarrow> False)
                then ([exceeds ''max_rate_per_runner''], limit)
                else ([], Some w))"

definition tighten_in_flight :: "int option \<Rightarrow> int option \<Rightarrow> coded_error list \<times> int option" where
  "tighten_in_flight limit want = (case want of
      None \<Rightarrow> ([], limit)
    | Some w \<Rightarrow> if (case limit of Some l \<Rightarrow> l < w | None \<Rightarrow> False)
                then ([exceeds ''max_in_flight''], limit)
                else ([], Some w))"

definition tighten_duration ::
  "policy \<Rightarrow> duration option \<Rightarrow> (coded_error list \<times> string option) result" where
  "tighten_duration p want = (case want of
      None \<Rightarrow> Inr ([], p_max_duration p)
    | Some w \<Rightarrow> rbind (MaxRunDuration p) (\<lambda>limit.
        if (case limit of Some l \<Rightarrow> l < w | None \<Rightarrow> False)
        then Inr ([exceeds ''max_duration''], p_max_duration p)
        else Inr ([], Some (duration_string w))))"

definition Tighten :: "policy \<Rightarrow> tightening \<Rightarrow> policy result" where
  "Tighten p t =
     (let flags =
            flag_problem (t_allow_writes t) (p_allow_writes p) CodePolicyWritesNotAllowed
              ''/safety/allow_writes''
            @ flag_problem (t_allow_dangerous t) (p_allow_dangerous p) CodePolicyDangerousNotAllowed
              ''/safety/allow_dangerous''
            @ flag_problem (t_allow_insecure_tls t) (p_allow_insecure_tls p) CodePolicyInsecureTLS
              ''/safety/allow_insecure_tls'';
          (targets_e, targets) = tighten_targets p (t_allow_targets t);
          (rate_e, rate) = tighten_rate (p_max_rate p) (t_max_rate t);
          (flight_e, flight) = tighten_in_flight (p_max_in_flight p) (t_max_in_flight t)
      in rbind (tighten_duration p (t_max_duration t)) (\<lambda>(dur_e, dur).
           let problems = flags @ targets_e @ rate_e @ flight_e @ dur_e
           in if problems \<noteq> [] then Inl (summarise problems)
              else Inr (p\<lparr>p_allow_writes := p_allow_writes p \<and> t_allow_writes t,
                          p_allow_dangerous := p_allow_dangerous p \<and> t_allow_dangerous t,
                          p_allow_insecure_tls := p_allow_insecure_tls p \<and> t_allow_insecure_tls t,
                          p_allow_targets := targets, p_max_rate := rate,
                          p_max_in_flight := flight, p_max_duration := dur\<rparr>)))"

section \<open>Checks\<close>

definition CheckRate :: "policy \<Rightarrow> string \<Rightarrow> float64 \<Rightarrow> unit result" where
  "CheckRate p runner rate = (case p_max_rate p of
      None \<Rightarrow> Inr ()
    | Some l \<Rightarrow> if f_le rate l then Inr ()
                else Inl (error_at CodePolicyRateExceeded (''/'' @ runner @ ''/executor'')))"

definition CheckInFlight :: "policy \<Rightarrow> string \<Rightarrow> int \<Rightarrow> unit result" where
  "CheckInFlight p runner n = (case p_max_in_flight p of
      None \<Rightarrow> Inr ()
    | Some l \<Rightarrow> if n \<le> l then Inr ()
                else Inl (error_at CodePolicyDenied (''/'' @ runner @ ''/executor/max_in_flight'')))"

definition CheckDuration :: "policy \<Rightarrow> duration \<Rightarrow> unit result" where
  "CheckDuration p d = rbind (MaxRunDuration p) (\<lambda>limit. case limit of
      None \<Rightarrow> Inr ()
    | Some l \<Rightarrow> if d \<le> l then Inr () else Inl (error_at CodePolicyDurationExceeded ''/run/duration''))"

definition CheckWrites :: "policy \<Rightarrow> string \<Rightarrow> string list \<Rightarrow> unit result" where
  "CheckWrites p runner labels =
     (if p_allow_writes p \<or> labels = [] then Inr ()
      else Inl (error_at CodePolicyWritesNotAllowed (''/'' @ runner)))"

record dangerous =
  dg_label :: string
  dg_keyword :: string

definition CheckDangerous :: "policy \<Rightarrow> string \<Rightarrow> dangerous list \<Rightarrow> unit result" where
  "CheckDangerous p runner found =
     (if found = [] then Inr ()
      else if p_allow_dangerous p then Inr ()
      else Inl (error_at CodePolicyDangerousNotAllowed (''/'' @ runner)))"

lemmas check_defs [go_defs] =
  CheckRate_def CheckInFlight_def CheckDuration_def CheckWrites_def CheckDangerous_def

section \<open>What a request may ask, and whether an envelope grants it\<close>

datatype ask =
    AskRate string float64
  | AskInFlight string int
  | AskDuration duration
  | AskWrites string "string list"
  | AskDangerous string "dangerous list"

fun permits :: "policy \<Rightarrow> ask \<Rightarrow> bool" where
  "permits p (AskRate r x) = is_ok (CheckRate p r x)"
| "permits p (AskInFlight r n) = is_ok (CheckInFlight p r n)"
| "permits p (AskDuration d) = is_ok (CheckDuration p d)"
| "permits p (AskWrites r ls) = is_ok (CheckWrites p r ls)"
| "permits p (AskDangerous r ds) = is_ok (CheckDangerous p r ds)"

text \<open>
  A rate that is not NaN and a duration of 64 bits: what the policy file and a
  configuration hold once parsed.
\<close>

definition sane_policy :: "policy \<Rightarrow> bool" where
  "sane_policy p \<longleftrightarrow> p_max_rate p \<noteq> Some NaN"

definition sane_wish :: "tightening \<Rightarrow> bool" where
  "sane_wish t \<longleftrightarrow> t_max_rate t \<noteq> Some NaN \<and> (\<forall>d. t_max_duration t = Some d \<longrightarrow> in_int64 d)"

text \<open>
  What every tightening of one limit promises: when it accepts a wish, whatever the new
  limit lets through the old one let through. A sequence of wishes keeps the promise.
\<close>

fun tighten_all :: "('g \<Rightarrow> 'w \<Rightarrow> 'g option) \<Rightarrow> 'g \<Rightarrow> 'w list \<Rightarrow> 'g option" where
  "tighten_all step g [] = Some g"
| "tighten_all step g (w # ws) = (case step g w of None \<Rightarrow> None | Some g' \<Rightarrow> tighten_all step g' ws)"

locale narrowing =
  fixes step :: "'g \<Rightarrow> 'w \<Rightarrow> 'g option"
    and through :: "'g \<Rightarrow> 'v \<Rightarrow> bool"
    and sane :: "'g \<Rightarrow> bool"
    and wish :: "'w \<Rightarrow> bool"
  assumes narrow: "sane g \<Longrightarrow> wish w \<Longrightarrow> step g w = Some g' \<Longrightarrow> through g' v \<Longrightarrow> through g v"
    and sane_step: "sane g \<Longrightarrow> wish w \<Longrightarrow> step g w = Some g' \<Longrightarrow> sane g'"
begin

lemma all_narrow:
  "sane g \<Longrightarrow> list_all wish ws \<Longrightarrow> tighten_all step g ws = Some g' \<Longrightarrow> through g' v \<Longrightarrow> through g v"
proof (induction ws arbitrary: g)
  case (Cons w ws)
  then obtain h where h: "step g w = Some h" "tighten_all step h ws = Some g'"
    by (auto split: option.splits)
  have "sane h" using sane_step[OF _ _ h(1)] Cons.prems by simp
  then have "through h v" using Cons h(2) by simp
  then show ?case using narrow[OF _ _ h(1)] Cons.prems by simp
qed simp

lemma all_sane:
  "sane g \<Longrightarrow> list_all wish ws \<Longrightarrow> tighten_all step g ws = Some g' \<Longrightarrow> sane g'"
  by (induction ws arbitrary: g) (auto split: option.splits dest: sane_step)

end

text \<open>A step that accepts is one that adds no problem.\<close>

fun accepted :: "coded_error list \<times> 'g \<Rightarrow> 'g option" where
  "accepted ([], g) = Some g"
| "accepted (e # es, g) = None"

lemma accepted_Some [simp]: "accepted r = Some g \<longleftrightarrow> r = ([], g)"
  by (cases r rule: accepted.cases) auto

interpretation rate: narrowing
  "\<lambda>l w. accepted (tighten_rate l w)"
  "\<lambda>l r. case l of None \<Rightarrow> True | Some m \<Rightarrow> f_le r m"
  "\<lambda>l. l \<noteq> Some NaN" "\<lambda>w. w \<noteq> Some NaN"
proof
  fix l w g' v
  assume "l \<noteq> Some NaN" "w \<noteq> Some NaN" "accepted (tighten_rate l w) = Some g'"
    "case g' of None \<Rightarrow> True | Some m \<Rightarrow> f_le v m"
  then show "case l of None \<Rightarrow> True | Some m \<Rightarrow> f_le v m"
    by (auto simp: tighten_rate_def split: option.splits if_splits)
      (metis f_le_trans f_not_less is_nan.elims(2))
qed (auto simp: tighten_rate_def split: option.splits if_splits)

interpretation flight: narrowing
  "\<lambda>l w. accepted (tighten_in_flight l w)"
  "\<lambda>l n. case l of None \<Rightarrow> True | Some m \<Rightarrow> n \<le> m" "\<lambda>_. True" "\<lambda>_. True"
  by standard (auto simp: tighten_in_flight_def split: option.splits if_splits)

lemma flag_step: "flag_problem asked granted c path = [] \<longleftrightarrow> (asked \<longrightarrow> granted)"
  by (simp add: flag_problem_def)

text \<open>The limit a duration string stands for, and that writing a wish out keeps it.\<close>

lemma MaxRunDuration_written:
  "in_int64 d \<Longrightarrow> MaxRunDuration (p\<lparr>p_max_duration := Some (duration_string d)\<rparr>) = Inr (Some d)"
  using parse_written[of d] by (auto simp: MaxRunDuration_def parse_duration_def)

lemma tighten_duration_accepts:
  "tighten_duration p want = Inr ([], dur) \<longleftrightarrow>
   (case want of None \<Rightarrow> dur = p_max_duration p
    | Some w \<Rightarrow> dur = Some (duration_string w) \<and>
        (MaxRunDuration p = Inr None \<or> (\<exists>l. MaxRunDuration p = Inr (Some l) \<and> w \<le> l)))"
  by (cases "MaxRunDuration p") (auto simp: tighten_duration_def split: option.splits)

text \<open>An accepted tightening, field by field.\<close>

lemma Tighten_Inr:
  "Tighten p t = Inr q \<longleftrightarrow>
   (t_allow_writes t \<longrightarrow> p_allow_writes p) \<and>
   (t_allow_dangerous t \<longrightarrow> p_allow_dangerous p) \<and>
   (t_allow_insecure_tls t \<longrightarrow> p_allow_insecure_tls p) \<and>
   (\<exists>targets rate flight dur.
      accepted (tighten_targets p (t_allow_targets t)) = Some targets \<and>
      accepted (tighten_rate (p_max_rate p) (t_max_rate t)) = Some rate \<and>
      accepted (tighten_in_flight (p_max_in_flight p) (t_max_in_flight t)) = Some flight \<and>
      tighten_duration p (t_max_duration t) = Inr ([], dur) \<and>
      q = p\<lparr>p_allow_writes := t_allow_writes t, p_allow_dangerous := t_allow_dangerous t,
            p_allow_insecure_tls := t_allow_insecure_tls t,
            p_allow_targets := targets, p_max_rate := rate,
            p_max_in_flight := flight, p_max_duration := dur\<rparr>)"
proof (cases "tighten_targets p (t_allow_targets t)"; cases "tighten_rate (p_max_rate p) (t_max_rate t)";
    cases "tighten_in_flight (p_max_in_flight p) (t_max_in_flight t)";
    cases "tighten_duration p (t_max_duration t)")
  fix te tg re ra fe fl r
  assume "tighten_targets p (t_allow_targets t) = (te, tg)"
    "tighten_rate (p_max_rate p) (t_max_rate t) = (re, ra)"
    "tighten_in_flight (p_max_in_flight p) (t_max_in_flight t) = (fe, fl)"
    "tighten_duration p (t_max_duration t) = Inr r"
  then show ?thesis
    by (cases r) (auto simp: Tighten_def Let_def flag_step)
qed (simp_all add: Tighten_def Let_def)

lemma Tighten_duration_limit:
  assumes "Tighten p t = Inr q" "sane_wish t" "MaxRunDuration q = Inr m"
  shows "\<exists>m'. MaxRunDuration p = Inr m' \<and>
           (case m' of None \<Rightarrow> True | Some l' \<Rightarrow> (case m of None \<Rightarrow> False | Some l \<Rightarrow> l \<le> l'))"
proof -
  obtain dur where dur: "tighten_duration p (t_max_duration t) = Inr ([], dur)" "p_max_duration q = dur"
    using assms(1) by (auto simp: Tighten_Inr)
  have same: "MaxRunDuration q = MaxRunDuration (p\<lparr>p_max_duration := dur\<rparr>)"
    using dur(2) by (simp add: MaxRunDuration_def)
  show ?thesis
  proof (cases "t_max_duration t")
    case None
    then have "MaxRunDuration q = MaxRunDuration p"
      using dur same by (simp add: tighten_duration_accepts MaxRunDuration_def)
    then show ?thesis using assms(3) by (intro exI[of _ m]) (auto split: option.splits)
  next
    case (Some w)
    then have "MaxRunDuration q = Inr (Some w)"
      using dur same assms(2) MaxRunDuration_written[of w p]
      by (auto simp: tighten_duration_accepts sane_wish_def)
    then show ?thesis using assms(3) Some dur(1)
      by (auto simp: tighten_duration_accepts split: option.splits)
  qed
qed

lemma permits_through:
  "permits p (AskRate r x) = (case p_max_rate p of None \<Rightarrow> True | Some m \<Rightarrow> f_le x m)"
  "permits p (AskInFlight r n) = (case p_max_in_flight p of None \<Rightarrow> True | Some m \<Rightarrow> n \<le> m)"
  "permits p (AskDuration d) = (case MaxRunDuration p of Inr None \<Rightarrow> True | Inr (Some m) \<Rightarrow> d \<le> m | Inl _ \<Rightarrow> False)"
  "permits p (AskWrites r ls) = (p_allow_writes p \<or> ls = [])"
  "permits p (AskDangerous r ds) = (p_allow_dangerous p \<or> ds = [])"
  by (auto simp: check_defs split: option.splits sum.splits)

lemma Tighten_permits:
  assumes "sane_policy p" "sane_wish t" "Tighten p t = Inr q" "permits q a"
  shows "permits p a"
proof (cases a)
  case (AskRate r x)
  then show ?thesis
    using assms rate.narrow[of "p_max_rate p" "t_max_rate t" "p_max_rate q" x]
    by (auto simp: Tighten_Inr permits_through sane_policy_def sane_wish_def simp del: permits.simps)
next
  case (AskInFlight r n)
  then show ?thesis
    using assms flight.narrow[of "p_max_in_flight p" "t_max_in_flight t" "p_max_in_flight q" n]
    by (auto simp: Tighten_Inr permits_through simp del: permits.simps)
next
  case (AskDuration d)
  then obtain m where "MaxRunDuration q = Inr m" "case m of None \<Rightarrow> True | Some l \<Rightarrow> d \<le> l"
    using assms(4) by (auto simp: permits_through simp del: permits.simps split: sum.splits option.splits)
  then show ?thesis
    using Tighten_duration_limit[OF assms(3,2), of m] AskDuration
    by (auto simp: permits_through simp del: permits.simps split: option.splits)
qed (use assms in \<open>auto simp: Tighten_Inr permits_through simp del: permits.simps\<close>)

lemma Tighten_sane: "sane_policy p \<Longrightarrow> sane_wish t \<Longrightarrow> Tighten p t = Inr q \<Longrightarrow> sane_policy q"
  using rate.sane_step[of "p_max_rate p" "t_max_rate t"]
  by (auto simp: Tighten_Inr sane_policy_def sane_wish_def)

interpretation envelope: narrowing
  "\<lambda>p t. case Tighten p t of Inl _ \<Rightarrow> None | Inr q \<Rightarrow> Some q" permits sane_policy sane_wish
  by standard (auto intro: Tighten_permits Tighten_sane split: sum.splits)

section \<open>Properties\<close>

text \<open>C7. Tightening never widens the envelope: after any sequence of accepted configurations,
  every rate, concurrency, duration, write or dangerous statement the tightened policy lets
  through was let through by the policy the human granted.\<close>

theorem Tighten_never_widens:
  assumes "sane_policy p" "list_all sane_wish ts"
    "tighten_all (\<lambda>p t. case Tighten p t of Inl _ \<Rightarrow> None | Inr q \<Rightarrow> Some q) p ts = Some q"
    "permits q a"
  shows "permits p a"
  using assms by (rule envelope.all_narrow)

theorem Tighten_never_widens_witness:
  "permits ServerDefault (AskRate ''http'' (Fin 100)) \<and>
   \<not> permits ServerDefault (AskWrites ''sql'' [''insert''])"
proof -
  define t where "t = \<lparr>t_allow_writes = False, t_allow_dangerous = False, t_allow_insecure_tls = False,
    t_allow_targets = [], t_max_rate = Some (Fin 200), t_max_in_flight = Some 64,
    t_max_duration = Some 60000000000\<rparr>"
  have ten: "parse_duration ''10m'' = Some 600000000000" by code_simp
  have "\<exists>q. Tighten ServerDefault t = Inr q \<and> permits q (AskRate ''http'' (Fin 100))"
    by (auto simp: t_def Tighten_Inr tighten_targets_def tighten_rate_def tighten_in_flight_def
        ServerDefault_def Default_def tighten_duration_accepts MaxRunDuration_def ten CheckRate_def)
  then obtain q where "Tighten ServerDefault t = Inr q" "permits q (AskRate ''http'' (Fin 100))" by blast
  moreover have "sane_policy ServerDefault" "sane_wish t"
    by (simp_all add: sane_policy_def sane_wish_def t_def ServerDefault_def Default_def in_int64_def
        min_int64_def max_int64_def)
  ultimately have "permits ServerDefault (AskRate ''http'' (Fin 100))"
    using Tighten_never_widens[of ServerDefault "[t]" q "AskRate ''http'' (Fin 100)"] by simp
  then show ?thesis by (simp add: CheckWrites_def ServerDefault_def Default_def)
qed

text \<open>A configuration is accepted exactly when it asks for nothing the policy does not grant:
  each capability it names is granted, each listed target is permitted and each limit it
  sets is at most the policy's. A larger limit is refused rather than clamped.\<close>

theorem Tighten_accepts:
  "is_ok (Tighten p t) \<longleftrightarrow>
   t_allow_writes t \<le> p_allow_writes p \<and>
   t_allow_dangerous t \<le> p_allow_dangerous p \<and>
   t_allow_insecure_tls t \<le> p_allow_insecure_tls p \<and>
   list_all (allowlistPermits p) (t_allow_targets t) \<and>
   (case t_max_rate t of None \<Rightarrow> True
    | Some w \<Rightarrow> (case p_max_rate p of None \<Rightarrow> True | Some l \<Rightarrow> \<not> f_less l w)) \<and>
   (case t_max_in_flight t of None \<Rightarrow> True
    | Some w \<Rightarrow> (case p_max_in_flight p of None \<Rightarrow> True | Some l \<Rightarrow> w \<le> l)) \<and>
   (case t_max_duration t of None \<Rightarrow> True
    | Some w \<Rightarrow> (case MaxRunDuration p of Inl _ \<Rightarrow> False | Inr None \<Rightarrow> True | Inr (Some l) \<Rightarrow> w \<le> l))"
proof -
  have targets: "(\<exists>ts. accepted (tighten_targets p (t_allow_targets t)) = Some ts) =
      list_all (allowlistPermits p) (t_allow_targets t)"
    by (auto simp: tighten_targets_def list_all_iff)
  have rate: "(\<exists>r. accepted (tighten_rate (p_max_rate p) (t_max_rate t)) = Some r) =
      (case t_max_rate t of None \<Rightarrow> True
       | Some w \<Rightarrow> (case p_max_rate p of None \<Rightarrow> True | Some l \<Rightarrow> \<not> f_less l w))"
    by (auto simp: tighten_rate_def split: option.splits)
  have flight: "(\<exists>n. accepted (tighten_in_flight (p_max_in_flight p) (t_max_in_flight t)) = Some n) =
      (case t_max_in_flight t of None \<Rightarrow> True
       | Some w \<Rightarrow> (case p_max_in_flight p of None \<Rightarrow> True | Some l \<Rightarrow> w \<le> l))"
    by (auto simp: tighten_in_flight_def split: option.splits)
  have dur: "(\<exists>d. tighten_duration p (t_max_duration t) = Inr ([], d)) =
      (case t_max_duration t of None \<Rightarrow> True
       | Some w \<Rightarrow> (case MaxRunDuration p of Inl _ \<Rightarrow> False | Inr None \<Rightarrow> True | Inr (Some l) \<Rightarrow> w \<le> l))"
    by (auto simp: tighten_duration_accepts split: option.splits sum.splits)
  show ?thesis
    unfolding targets[symmetric] rate[symmetric] flight[symmetric] dur[symmetric] is_ok_iff Tighten_Inr le_bool_def
    by blast
qed

text \<open>Classification takes the widest address.\<close>

lemma widest_from_eq: "widest_from w as = foldl max w (map classifyOne as)"
proof (induction as arbitrary: w)
  case (Cons a as)
  have "(if rank w < rank (classifyOne a) then classifyOne a else w) = max w (classifyOne a)"
    using rank_inj[of w "classifyOne a"] by (auto simp: max_def less_eq_scope_def)
  then show ?case using Cons by simp
qed simp

lemma foldl_max_public:
  "foldl max w ss = ScopePublic \<longleftrightarrow> w = ScopePublic \<or> ScopePublic \<in> set ss"
proof (induction ss arbitrary: w)
  case (Cons s ss)
  have "max w s = ScopePublic \<longleftrightarrow> w = ScopePublic \<or> s = ScopePublic"
    using scope_top[of w] scope_top[of s] by (auto simp: max_def)
  then show ?case using Cons by auto
qed simp

lemma ClassifyAddrs_public:
  "ClassifyAddrs as = ScopePublic \<longleftrightarrow> (\<exists>a \<in> set as. classifyOne a = ScopePublic)"
  by (force simp: ClassifyAddrs_def widest_from_eq foldl_max_public image_iff)

lemma Resolve_scope: "Resolve lookup host = Inr t \<Longrightarrow> tg_scope t = ClassifyAddrs (tg_addrs t)"
  by (auto simp: Resolve_def split: option.splits)

lemma CheckTarget_ok:
  "CheckTarget p t = Inr () \<longleftrightarrow>
   (\<forall>entry \<in> set (p_deny_targets p). \<not> matches entry t) \<and>
   (tg_scope t \<noteq> ScopePublic \<or> p_allow_public p \<or> (\<exists>entry \<in> set (p_allow_targets p). matches entry t))"
  by (auto simp: CheckTarget_def)

text \<open>A resolved host is admitted exactly when no deny entry covers it and either every one of
  its addresses is non-public, or the policy allows public targets, or an allow entry
  covers it: one public address among private ones is enough to need the allowance.\<close>

theorem admission:
  assumes "Resolve lookup host = Inr t"
  shows "CheckTarget p t = Inr () \<longleftrightarrow>
    (\<forall>entry \<in> set (p_deny_targets p). \<not> matches entry t) \<and>
    ((\<forall>a \<in> set (tg_addrs t). classifyOne a \<noteq> ScopePublic) \<or> p_allow_public p \<or>
     (\<exists>entry \<in> set (p_allow_targets p). matches entry t))"
  unfolding CheckTarget_ok Resolve_scope[OF assms] ClassifyAddrs_public by blast

theorem admission_witness:
  "\<not> is_ok (CheckTarget Default \<lparr>tg_host = ''db'', tg_addrs = [''10.0.0.5'', ''8.8.8.8''], tg_scope = ScopePublic\<rparr>)"
proof -
  let ?addrs = "[''10.0.0.5'', ''8.8.8.8'']"
  let ?t = "\<lparr>tg_host = ''db'', tg_addrs = ?addrs, tg_scope = ScopePublic\<rparr>"
  have "Resolve (\<lambda>_. Some ?addrs) ''db'' = Inr ?t" by code_simp
  note adm = admission[OF this, of Default]
  have "classifyOne ''8.8.8.8'' = ScopePublic" by code_simp
  then have "CheckTarget Default ?t \<noteq> Inr ()" using adm by (simp add: Default_def)
  then show ?thesis by (auto simp: is_ok_iff)
qed

text \<open>Entries that differ in letter case only cover the same targets.\<close>

lemma matches_fold:
  assumes "equal_fold e e'"
  shows "matches e t = matches e' t"
proof -
  have fold: "equal_fold e = equal_fold e'" using assms by (auto simp: equal_fold_def fun_eq_iff)
  then show ?thesis
    unfolding matches_def fold equal_fold_prefix[OF assms] equal_fold_addr[OF assms] by simp
qed

text \<open>
  The literals of a configuration that are permitted for being non-public, and the
  targets they cover: the entry is the host's name or one of its addresses.
\<close>

definition inner_literal :: "string \<Rightarrow> bool" where
  "inner_literal entry = (case parse_addr entry of
     None \<Rightarrow> False | Some ip \<Rightarrow> classifyOne (addr_string ip) \<noteq> ScopePublic)"

definition names_target :: "target \<Rightarrow> string \<Rightarrow> bool" where
  "names_target t entry \<longleftrightarrow> equal_fold entry (tg_host t) \<or> (\<exists>a \<in> set (tg_addrs t). equal_fold entry a)"

text \<open>A target whose name is a literal lists the address the name denotes.\<close>

definition literal_listed :: "target \<Rightarrow> bool" where
  "literal_listed t \<longleftrightarrow> (\<forall>ip. parse_addr (tg_host t) = Some ip \<longrightarrow>
     (\<exists>a \<in> set (tg_addrs t). parse_addr a = Some ip))"

lemma permitted_matches:
  assumes perm: "allowlistPermits p e" and pub: "\<not> p_allow_public p" and m: "matches e t" 
    and "literal_listed t"
  shows "(\<exists>e' \<in> set (p_allow_targets p). matches e' t) \<or> inner_literal e \<and> names_target t e"
proof -
  consider (fold) e' where "e' \<in> set (p_allow_targets p)" "equal_fold e' e"
    | (cidr) e' pfx ip where "e' \<in> set (p_allow_targets p)" "parse_prefix e' = Some pfx"
        "parse_addr e = Some ip" "prefix_contains pfx ip"
    | (inner) "inner_literal e"
    using perm pub by (auto simp: allowlistPermits_def inner_literal_def split: option.splits)
  then show ?thesis
  proof cases
    case fold
    then show ?thesis using matches_fold m by blast
  next
    case cidr
    have names: "names_target t e"
      using m literal_no_prefix[OF cidr(3)] by (auto simp: matches_def names_target_def split: if_splits)
    have "\<exists>a \<in> set (tg_addrs t). \<exists>ip'. parse_addr a = Some ip' \<and> prefix_contains pfx ip'"
      using names prefix_spelling[OF cidr(3,4)] assms(4)
      by (force simp: names_target_def literal_listed_def)
    then have "matches e' t" using cidr(2) by (force simp: matches_def)
    then show ?thesis using cidr(1) by blast
  next
    case inner
    then obtain ip where "parse_addr e = Some ip" by (auto simp: inner_literal_def split: option.splits)
    then have "names_target t e"
      using m literal_no_prefix[of e ip] by (auto simp: matches_def names_target_def split: if_splits)
    then show ?thesis using inner by blast
  qed
qed

text \<open>C30. A configuration's allow list narrows the targets: a host the tightened policy admits was
  admitted before, or an entry of the list is a literal of a non-public address that covers
  the host. Such entries need no permission of the policy, and they admit a host that also
  has public addresses.\<close>

theorem Tighten_targets:
  assumes "Tighten p t = Inr q" "CheckTarget q tg = Inr ()" "literal_listed tg"
  shows "CheckTarget p tg = Inr () \<or>
    (\<exists>entry \<in> set (t_allow_targets t). inner_literal entry \<and> names_target tg entry)"
proof (cases "t_allow_targets t = [] \<or> p_allow_public p \<or> tg_scope tg \<noteq> ScopePublic")
  case True
  then show ?thesis using assms(1,2) by (auto simp: Tighten_Inr CheckTarget_ok tighten_targets_def)
next
  case False
  then have q: "p_allow_targets q = t_allow_targets t" "p_deny_targets q = p_deny_targets p"
    "p_allow_public q = p_allow_public p" "list_all (allowlistPermits p) (t_allow_targets t)"
    using assms(1) by (auto simp: Tighten_Inr tighten_targets_def list_all_iff split: if_splits)
  then obtain e where "e \<in> set (t_allow_targets t)" "matches e tg"
    using assms(2) False by (auto simp: CheckTarget_ok)
  then show ?thesis
    using permitted_matches[of p e tg] False q assms(2,3) by (auto simp: CheckTarget_ok list_all_iff)
qed

text \<open>
  Both outcomes occur. The mixed host below is refused by the default policy and admitted
  once a configuration lists its private address.
\<close>

definition mixed_host :: target where
  "mixed_host = \<lparr>tg_host = ''db.example'', tg_addrs = [''10.0.0.5'', ''8.8.8.8''],
     tg_scope = ClassifyAddrs [''10.0.0.5'', ''8.8.8.8'']\<rparr>"

definition lists_private :: tightening where
  "lists_private = \<lparr>t_allow_writes = False, t_allow_dangerous = False, t_allow_insecure_tls = False,
     t_allow_targets = [''10.0.0.5''], t_max_rate = None, t_max_in_flight = None, t_max_duration = None\<rparr>"

lemma mixed_host_refused: "\<not> is_ok (CheckTarget Default mixed_host)"
  by code_simp

lemma lists_private_accepted:
  "Tighten Default lists_private = Inr (Default\<lparr>p_allow_targets := [''10.0.0.5'']\<rparr>)"
proof -
  have "allowlistPermits Default ''10.0.0.5''" by code_simp
  then show ?thesis
    by (simp add: Tighten_def lists_private_def tighten_targets_def tighten_rate_def
        tighten_in_flight_def tighten_duration_def flag_problem_def Default_def)
qed

lemma mixed_host_admitted:
  "CheckTarget (Default\<lparr>p_allow_targets := [''10.0.0.5'']\<rparr>) mixed_host = Inr ()"
  by code_simp

lemma name_no_address: "parse_addr ''db.example'' = None"
  by code_simp

theorem Tighten_targets_witness:
  "inner_literal ''10.0.0.5'' \<and> names_target mixed_host ''10.0.0.5''"
proof -
  have "literal_listed mixed_host"
    using name_no_address by (simp add: literal_listed_def mixed_host_def)
  then have "CheckTarget Default mixed_host = Inr () \<or>
      (\<exists>entry \<in> set (t_allow_targets lists_private). inner_literal entry \<and> names_target mixed_host entry)"
    by (rule Tighten_targets[OF lists_private_accepted mixed_host_admitted])
  then show ?thesis using mixed_host_refused by (auto simp: lists_private_def)
qed

end
