(* ===== verification/Classify.thy ===== *)
theory Classify
  imports GoStrings
begin

text \<open>
  What a statement or a command does to the data, \<open>internal/policy/classify.go\<close>: the comment
  and literal stripper, the split of a multi-statement string, the classification by
  leading verb, and the table lookup of Redis commands. Tables are the source's, in its
  order.
\<close>

datatype op = OpRead | OpWrite

record classification =
  c_op :: op
  c_dangerous :: string
  c_blocking :: string
  c_certain :: bool

abbreviation mk_class :: "op \<Rightarrow> string \<Rightarrow> bool \<Rightarrow> classification" where
  "mk_class o' d k \<equiv> \<lparr>c_op = o', c_dangerous = d, c_blocking = [], c_certain = k\<rparr>"

section \<open>SQL\<close>

definition sqlReadVerbs :: "string list" where
  "sqlReadVerbs =
     [''SELECT'', ''SHOW'', ''EXPLAIN'', ''DESCRIBE'', ''DESC'', ''VALUES'', ''TABLE'',
      ''ANALYZE'', ''PRAGMA'']"

definition sqlWriteVerbs :: "string list" where
  "sqlWriteVerbs =
     [''INSERT'', ''UPDATE'', ''DELETE'', ''MERGE'', ''UPSERT'', ''REPLACE'', ''COPY'',
      ''CALL'', ''DO'', ''EXEC'', ''EXECUTE'']"

definition sqlDangerousVerbs :: "string list" where
  "sqlDangerousVerbs =
     [''DROP'', ''TRUNCATE'', ''ALTER'', ''CREATE'', ''RENAME'', ''GRANT'', ''REVOKE'',
      ''VACUUM'', ''REINDEX'', ''CLUSTER'', ''SHUTDOWN'', ''RESET'', ''KILL'', ''LOCK'']"

text \<open>
  \<open>stripSQLComments\<close>: the branches in the order of the source's switch. A comment with no end
  swallows the rest; a quoted literal becomes two blanks.
\<close>

function stripSQLComments :: "string \<Rightarrow> string" where
  "stripSQLComments s =
     (case s of [] \<Rightarrow> []
      | c # t \<Rightarrow>
          if has_prefix s ''--'' then
            (case index_of s [CHR 0x0A] of None \<Rightarrow> [] | Some e \<Rightarrow> stripSQLComments (drop e s))
          else if has_prefix s ''/*'' then
            (case index_of (drop 2 s) ''*/'' of None \<Rightarrow> []
             | Some e \<Rightarrow> CHR '' '' # stripSQLComments (drop (e + 4) s))
          else if c = CHR 0x27 \<or> c = CHR 0x22 then
            CHR '' '' # CHR '' '' # stripSQLComments (drop 1 (dropWhile (\<lambda>d. d \<noteq> c) t))
          else c # stripSQLComments t)"
  by pat_completeness auto
termination
proof (relation "measure length", goal_cases)
  case (2 s c t e)
  then have "e \<noteq> 0" by (cases e) (auto simp: has_prefix_def prefix_def)
  with 2 show ?case by simp
next
  case (4 s c t)
  have "length (dropWhile (\<lambda>d. d \<noteq> c) t) \<le> length t" by (rule length_dropWhile_le)
  with 4 show ?case by simp
qed auto

declare stripSQLComments.simps [simp del]

definition splitStatements :: "string \<Rightarrow> string list" where
  "splitStatements s =
     (let out = filter (\<lambda>p. trim_space p \<noteq> []) (split_char (CHR '';'') s)
      in if out = [] then [[]] else out)"

definition sql_space :: "char \<Rightarrow> bool" where
  "sql_space c \<longleftrightarrow> c \<in> {CHR '' '', CHR 0x09, CHR 0x0A, CHR 0x0D, CHR ''('', CHR '')'', CHR '',''}"

definition sql_fields :: "string \<Rightarrow> string list" where
  "sql_fields s = fields_func sql_space s"

definition hasWord :: "string list \<Rightarrow> string \<Rightarrow> bool" where
  "hasWord ws want \<longleftrightarrow> (\<exists>w \<in> set ws. equal_fold w want)"

text \<open>The search past a \<open>WITH\<close> clause: the first word that is a write or a dangerous verb.\<close>

fun classify_with :: "string list \<Rightarrow> classification" where
  "classify_with [] = mk_class OpRead [] True"
| "classify_with (w # ws) =
     (let u = to_upper w
      in if u \<in> set sqlWriteVerbs then mk_class OpWrite [] True
         else if u \<in> set sqlDangerousVerbs then mk_class OpWrite u True
         else classify_with ws)"

definition sql_session_verbs :: "string list" where
  "sql_session_verbs = [''BEGIN'', ''START'', ''COMMIT'', ''ROLLBACK'', ''SAVEPOINT'', ''SET'']"

definition classifyOneSQL :: "string \<Rightarrow> classification" where
  "classifyOneSQL statement =
     (case sql_fields statement of
        [] \<Rightarrow> mk_class OpRead [] True
      | w # ws \<Rightarrow>
          let verb = to_upper w
          in if verb = ''WITH'' then classify_with ws
             else if verb \<in> set sqlDangerousVerbs then mk_class OpWrite verb True
             else if verb \<in> set sqlWriteVerbs then mk_class OpWrite [] True
             else if verb \<in> set sqlReadVerbs then
               (if hasWord (w # ws) ''INTO'' \<and> verb = ''SELECT'' then mk_class OpWrite [] True
                else mk_class OpRead [] True)
             else if verb \<in> set sql_session_verbs then mk_class OpRead [] True
             else mk_class OpWrite [] False)"

definition merge :: "classification \<Rightarrow> classification \<Rightarrow> classification" where
  "merge a b =
     \<lparr>c_op = (if c_op b = OpWrite then OpWrite else c_op a),
      c_dangerous = (if c_dangerous b \<noteq> [] \<and> c_dangerous a = [] then c_dangerous b else c_dangerous a),
      c_blocking = (if c_blocking b \<noteq> [] \<and> c_blocking a = [] then c_blocking b else c_blocking a),
      c_certain = (c_certain a \<and> c_certain b)\<rparr>"

definition ClassifySQL :: "string \<Rightarrow> classification" where
  "ClassifySQL statement =
     foldl (\<lambda>worst part. merge worst (classifyOneSQL part)) (mk_class OpRead [] True)
       (splitStatements (stripSQLComments statement))"

section \<open>Redis\<close>

definition redisReads :: "string list" where
  "redisReads =
     [''GET'', ''MGET'', ''STRLEN'', ''GETRANGE'', ''SUBSTR'', ''EXISTS'', ''TTL'',
      ''PTTL'', ''TYPE'', ''OBJECT'', ''DUMP'', ''HGET'', ''HMGET'', ''HGETALL'',
      ''HKEYS'', ''HVALS'', ''HLEN'', ''HEXISTS'', ''HRANDFIELD'', ''LRANGE'', ''LLEN'',
      ''LINDEX'', ''LPOS'', ''SMEMBERS'', ''SCARD'', ''SISMEMBER'', ''SMISMEMBER'',
      ''SRANDMEMBER'', ''SINTER'', ''SUNION'', ''SDIFF'', ''ZRANGE'', ''ZRANGEBYSCORE'',
      ''ZRANGEBYLEX'', ''ZREVRANGE'', ''ZSCORE'', ''ZMSCORE'', ''ZCARD'', ''ZCOUNT'',
      ''ZRANK'', ''ZREVRANK'', ''ZRANDMEMBER'', ''BITCOUNT'', ''BITPOS'', ''GETBIT'',
      ''PFCOUNT'', ''XLEN'', ''XRANGE'', ''XREVRANGE'', ''XINFO'', ''GEOPOS'', ''GEODIST'',
      ''GEOSEARCH'', ''PING'', ''ECHO'', ''TIME'', ''DBSIZE'', ''INFO'', ''LASTSAVE'',
      ''SCAN'', ''HSCAN'', ''SSCAN'', ''ZSCAN'', ''RANDOMKEY'', ''KEYS'', ''MEMORY'',
      ''LATENCY'', ''COMMAND'', ''LOLWUT'']"

definition redisDangerous :: "string list" where
  "redisDangerous =
     [''FLUSHALL'', ''FLUSHDB'', ''SHUTDOWN'', ''DEBUG'', ''REPLICAOF'', ''SLAVEOF'',
      ''MIGRATE'', ''SWAPDB'', ''MODULE'', ''FAILOVER'', ''RESET'', ''BGREWRITEAOF'',
      ''SAVE'']"

definition redisDangerousSub :: "(string \<times> string list) list" where
  "redisDangerousSub =
     [(''CONFIG'', [''SET'', ''RESETSTAT'', ''REWRITE'']),
      (''SCRIPT'', [''FLUSH'']),
      (''CLUSTER'', [''RESET'', ''FORGET'', ''FAILOVER'', ''SETSLOT'']),
      (''CLIENT'', [''KILL'', ''PAUSE'', ''UNPAUSE'', ''NO-EVICT'']),
      (''ACL'', [''SETUSER'', ''DELUSER'', ''LOAD'', ''SAVE'']),
      (''FUNCTION'', [''FLUSH'', ''DELETE''])]"

definition redisBlocking :: "string list" where
  "redisBlocking =
     [''KEYS'', ''SORT'', ''SINTERSTORE'', ''SUNIONSTORE'', ''SDIFFSTORE'', ''SMEMBERS'',
      ''HGETALL'', ''LRANGE'', ''ZUNIONSTORE'', ''ZINTERSTORE'']"

definition known_redis_writes :: "string list" where
  "known_redis_writes =
     [''SET'', ''SETNX'', ''SETEX'', ''PSETEX'', ''MSET'', ''MSETNX'', ''GETSET'',
      ''GETDEL'', ''GETEX'', ''APPEND'', ''SETRANGE'', ''SETBIT'', ''BITFIELD'', ''BITOP'',
      ''INCR'', ''INCRBY'', ''INCRBYFLOAT'', ''DECR'', ''DECRBY'', ''DEL'', ''UNLINK'',
      ''EXPIRE'', ''PEXPIRE'', ''EXPIREAT'', ''PEXPIREAT'', ''PERSIST'', ''RENAME'',
      ''RENAMENX'', ''HSET'', ''HSETNX'', ''HMSET'', ''HDEL'', ''HINCRBY'',
      ''HINCRBYFLOAT'', ''LPUSH'', ''RPUSH'', ''LPUSHX'', ''RPUSHX'', ''LPOP'', ''RPOP'',
      ''LSET'', ''LINSERT'', ''LREM'', ''LTRIM'', ''RPOPLPUSH'', ''LMOVE'', ''SADD'',
      ''SREM'', ''SPOP'', ''SMOVE'', ''SINTERSTORE'', ''SUNIONSTORE'', ''SDIFFSTORE'',
      ''ZADD'', ''ZREM'', ''ZINCRBY'', ''ZPOPMIN'', ''ZPOPMAX'', ''ZREMRANGEBYSCORE'',
      ''ZREMRANGEBYRANK'', ''ZREMRANGEBYLEX'', ''ZUNIONSTORE'', ''ZINTERSTORE'',
      ''ZDIFFSTORE'', ''PFADD'', ''PFMERGE'', ''SETEXPIRE'', ''COPY'', ''RESTORE'',
      ''XADD'', ''XDEL'', ''XTRIM'', ''XGROUP'', ''XACK'', ''XCLAIM'', ''XAUTOCLAIM'',
      ''GEOADD'', ''PUBLISH'', ''SPUBLISH'', ''EVAL'', ''EVALSHA'', ''FCALL'', ''MULTI'',
      ''EXEC'', ''DISCARD'', ''WATCH'', ''UNWATCH'']"

definition knownRedisWrite :: "string \<Rightarrow> bool" where
  "knownRedisWrite cmd \<longleftrightarrow> cmd \<in> set known_redis_writes"

definition ClassifyRedis :: "string list \<Rightarrow> classification" where
  "ClassifyRedis args =
     (case args of
        [] \<Rightarrow> mk_class OpRead [] True
      | a # rest \<Rightarrow>
          let cmd = to_upper (trim_space a);
              sub = (case rest of [] \<Rightarrow> [] | b # _ \<Rightarrow> to_upper (trim_space b));
              c = \<lparr>c_op = OpRead, c_dangerous = [],
                   c_blocking = (if cmd \<in> set redisBlocking then cmd else []), c_certain = True\<rparr>
          in if cmd = ''SORT'' then
               (if \<exists>x \<in> set rest. equal_fold x ''STORE'' then c\<lparr>c_op := OpWrite\<rparr> else c)
             else if cmd \<in> set redisDangerous then c\<lparr>c_op := OpWrite, c_dangerous := cmd\<rparr>
             else (case map_of redisDangerousSub cmd of
                 Some subs \<Rightarrow>
                   if sub \<in> set subs
                   then c\<lparr>c_op := OpWrite, c_dangerous := cmd @ '' '' @ sub\<rparr>
                   else c
               | None \<Rightarrow>
                   if cmd \<in> set redisReads then c
                   else if knownRedisWrite cmd then c\<lparr>c_op := OpWrite\<rparr>
                   else c\<lparr>c_op := OpWrite, c_certain := False\<rparr>))"

section \<open>The direction of the mistakes\<close>

text \<open>
  The order in which classifications get worse: a later one may add the write, the danger
  and the doubt, and never takes one back.
\<close>

definition no_milder :: "classification \<Rightarrow> classification \<Rightarrow> bool" where
  "no_milder a b \<longleftrightarrow>
     (c_op a = OpWrite \<longrightarrow> c_op b = OpWrite) \<and>
     (c_dangerous a \<noteq> [] \<longrightarrow> c_dangerous b \<noteq> []) \<and>
     (\<not> c_certain a \<longrightarrow> \<not> c_certain b)"

text \<open>A classification errs on the safe side: doubt and danger both count as writes.\<close>

definition cautious :: "classification \<Rightarrow> bool" where
  "cautious c \<longleftrightarrow> (\<not> c_certain c \<longrightarrow> c_op c = OpWrite) \<and> (c_dangerous c \<noteq> [] \<longrightarrow> c_op c = OpWrite)"

lemma no_milder_refl [simp]: "no_milder c c"
  by (simp add: no_milder_def)

lemma no_milder_trans: "no_milder a b \<Longrightarrow> no_milder b c \<Longrightarrow> no_milder a c"
  by (simp add: no_milder_def)

lemma merge_no_milder: "no_milder a (merge a b)" "no_milder b (merge a b)"
  by (simp_all add: no_milder_def merge_def)

lemma merge_cautious: "cautious a \<Longrightarrow> cautious b \<Longrightarrow> cautious (merge a b)"
  by (auto simp: cautious_def merge_def)

lemma foldl_merge_no_milder:
  "c \<in> insert w (f ` set ps) \<Longrightarrow> no_milder c (foldl (\<lambda>w p. merge w (f p)) w ps)"
proof (induction ps arbitrary: w c)
  case (Cons p ps)
  let ?w = "merge w (f p)"
  have "no_milder w ?w" "no_milder (f p) ?w" by (rule merge_no_milder)+
  moreover have "no_milder ?w (foldl (\<lambda>w p. merge w (f p)) ?w ps)" using Cons.IH by simp
  ultimately show ?case using Cons.prems Cons.IH[of c ?w] by (auto intro: no_milder_trans)
qed simp

lemma foldl_merge_cautious:
  "cautious w \<Longrightarrow> (\<And>p. cautious (f p)) \<Longrightarrow> cautious (foldl (\<lambda>w p. merge w (f p)) w ps)"
  by (induction ps arbitrary: w) (auto intro: merge_cautious)

lemma foldl_merge_write:
  "c_op (foldl (\<lambda>w p. merge w (f p)) w ps) = OpWrite \<longleftrightarrow>
   c_op w = OpWrite \<or> (\<exists>p \<in> set ps. c_op (f p) = OpWrite)"
  by (induction ps arbitrary: w) (auto simp: merge_def)

lemma classify_with_cautious: "cautious (classify_with ws)"
  by (induction ws) (auto simp: cautious_def Let_def)

lemma classifyOneSQL_cautious: "cautious (classifyOneSQL s)"
  using classify_with_cautious
  by (auto simp: classifyOneSQL_def Let_def cautious_def split: list.splits)

text \<open>A single statement read as a read has a leading verb the tables allow.\<close>

lemma classifyOneSQL_read:
  assumes "c_op (classifyOneSQL s) = OpRead"
  shows "sql_fields s = [] \<or>
         to_upper (hd (sql_fields s)) \<in> {''WITH''} \<union> set sqlReadVerbs \<union> set sql_session_verbs"
  using assms by (auto simp: classifyOneSQL_def Let_def split: list.splits if_splits)

lemma classifyOneSQL_verb:
  assumes "sql_fields s = w # ws" "to_upper w \<noteq> ''WITH''"
  shows "to_upper w \<in> set sqlDangerousVerbs \<Longrightarrow> c_dangerous (classifyOneSQL s) = to_upper w"
    and "to_upper w \<in> set sqlWriteVerbs \<Longrightarrow> c_op (classifyOneSQL s) = OpWrite"
  using assms by (auto simp: classifyOneSQL_def Let_def)

section \<open>Literals are opaque\<close>

text \<open>Text with no quote, dash or slash is copied by the stripper.\<close>

definition unquoted :: "string \<Rightarrow> bool" where
  "unquoted s \<longleftrightarrow> (\<forall>c \<in> set s. c \<notin> {CHR 0x27, CHR 0x22, CHR ''-'', CHR ''/''})"

lemma strip_plain: "unquoted s \<Longrightarrow> stripSQLComments (s @ t) = s @ stripSQLComments t"
proof (induction s)
  case (Cons c s)
  have "\<not> has_prefix (c # s @ t) ''--''" "\<not> has_prefix (c # s @ t) ''/*''"
    using Cons.prems by (auto simp: unquoted_def has_prefix_def)
  with Cons show ?case by (subst stripSQLComments.simps) (auto simp: unquoted_def)
qed simp

lemma strip_quote:
  assumes "q = CHR 0x27 \<or> q = CHR 0x22" and "q \<notin> set lit"
  shows "stripSQLComments (q # lit @ q # t) = ''  '' @ stripSQLComments t"
proof -
  have "\<not> has_prefix (q # lit @ q # t) ''--''" "\<not> has_prefix (q # lit @ q # t) ''/*''"
    using assms(1) by (auto simp: has_prefix_def)
  moreover have "dropWhile (\<lambda>d. d \<noteq> q) (lit @ q # t) = q # t"
    using assms(2) by (simp add: dropWhile_append3 dropWhile_append)
  ultimately show ?thesis using assms(1) by (subst stripSQLComments.simps) auto
qed

section \<open>Properties\<close>

text \<open>C19. A SQL string is judged on its most serious statement: the whole is a write exactly
  when one of its statements is, no statement of it was judged more severely than the
  whole, and doubt or danger always comes with a write.\<close>

theorem ClassifySQL_worst:
  "cautious (ClassifySQL s) \<and>
   (c_op (ClassifySQL s) = OpWrite \<longleftrightarrow>
      (\<exists>p \<in> set (splitStatements (stripSQLComments s)). c_op (classifyOneSQL p) = OpWrite)) \<and>
   (\<forall>p \<in> set (splitStatements (stripSQLComments s)). no_milder (classifyOneSQL p) (ClassifySQL s))"
proof (intro conjI ballI)
  show "cautious (ClassifySQL s)" unfolding ClassifySQL_def
    by (rule foldl_merge_cautious) (simp_all add: cautious_def classifyOneSQL_cautious[unfolded cautious_def])
  show "c_op (ClassifySQL s) = OpWrite \<longleftrightarrow>
      (\<exists>p \<in> set (splitStatements (stripSQLComments s)). c_op (classifyOneSQL p) = OpWrite)"
    by (simp add: ClassifySQL_def foldl_merge_write)
  fix p assume "p \<in> set (splitStatements (stripSQLComments s))"
  then show "no_milder (classifyOneSQL p) (ClassifySQL s)"
    unfolding ClassifySQL_def by (intro foldl_merge_no_milder) simp
qed

theorem ClassifySQL_worst_witness:
  "c_op (ClassifySQL ''SELECT 1; DROP TABLE t'') = OpWrite \<and>
   no_milder (classifyOneSQL '' DROP TABLE t'') (ClassifySQL ''SELECT 1; DROP TABLE t'')"
proof -
  have p: "'' DROP TABLE t'' \<in> set (splitStatements (stripSQLComments ''SELECT 1; DROP TABLE t''))"
    by code_simp
  have "c_op (classifyOneSQL '' DROP TABLE t'') = OpWrite" by code_simp
  with p ClassifySQL_worst[of "''SELECT 1; DROP TABLE t''"] show ?thesis by blast
qed

text \<open>The contents of a quoted literal never matter: after a comment-free beginning, a
  literal may be replaced by any other that does not hold its quote, and the statement is
  classified the same. A \<open>SELECT\<close> whose filter mentions the word \<open>drop\<close> stays a read.\<close>

theorem ClassifySQL_literal:
  assumes "unquoted pre" and "q = CHR 0x27 \<or> q = CHR 0x22" and "q \<notin> set lit" "q \<notin> set lit'"
  shows "ClassifySQL (pre @ q # lit @ q # post) = ClassifySQL (pre @ q # lit' @ q # post)"
  using assms by (simp add: ClassifySQL_def strip_plain strip_quote)

theorem ClassifySQL_literal_witness:
  "ClassifySQL (''SELECT a FROM t WHERE n = '' @ CHR 0x27 # ''; DROP TABLE t'' @ [CHR 0x27])
     = mk_class OpRead [] True"
proof -
  let ?pre = "''SELECT a FROM t WHERE n = ''"
  have "ClassifySQL (?pre @ CHR 0x27 # ''; DROP TABLE t'' @ CHR 0x27 # [])
      = ClassifySQL (?pre @ CHR 0x27 # ''x'' @ CHR 0x27 # [])"
    by (rule ClassifySQL_literal) (simp_all add: unquoted_def)
  also have "\<dots> = mk_class OpRead [] True" by code_simp
  finally show ?thesis by simp
qed

text \<open>The verdict on one command, branch by branch of the lookup.\<close>

lemma ClassifyRedis_facts:
  fixes a rest
  defines "cmd \<equiv> to_upper (trim_space a)"
  defines "c \<equiv> ClassifyRedis (a # rest)"
  shows "cautious c"
    and "c_op c = OpRead \<Longrightarrow>
      cmd \<in> set redisReads \<or> cmd \<in> set (map fst redisDangerousSub) \<or>
      (cmd = ''SORT'' \<and> (\<forall>x \<in> set rest. \<not> equal_fold x ''STORE''))"
    and "\<not> c_certain c \<longleftrightarrow>
      cmd \<notin> {''SORT''} \<union> set redisDangerous \<union> set (map fst redisDangerousSub) \<union>
             set redisReads \<union> set known_redis_writes"
    and "cmd \<in> set redisDangerous \<Longrightarrow> c_op c = OpWrite \<and> c_dangerous c = cmd"
    and "c_blocking c = (if cmd \<in> set redisBlocking then cmd else [])"
proof -
  have dom: "map_of redisDangerousSub x = None \<longleftrightarrow> x \<notin> set (map fst redisDangerousSub)" for x
    by (simp add: map_of_eq_None_iff)
  have sort: "''SORT'' \<notin> set redisDangerous" by code_simp
  have unfold: "c = (let sub = (case rest of [] \<Rightarrow> [] | b # _ \<Rightarrow> to_upper (trim_space b));
      k = \<lparr>c_op = OpRead, c_dangerous = [],
           c_blocking = (if cmd \<in> set redisBlocking then cmd else []), c_certain = True\<rparr>
    in if cmd = ''SORT'' then
         (if \<exists>x \<in> set rest. equal_fold x ''STORE'' then k\<lparr>c_op := OpWrite\<rparr> else k)
       else if cmd \<in> set redisDangerous then k\<lparr>c_op := OpWrite, c_dangerous := cmd\<rparr>
       else (case map_of redisDangerousSub cmd of
           Some subs \<Rightarrow> if sub \<in> set subs
             then k\<lparr>c_op := OpWrite, c_dangerous := cmd @ '' '' @ sub\<rparr> else k
         | None \<Rightarrow> if cmd \<in> set redisReads then k
             else if knownRedisWrite cmd then k\<lparr>c_op := OpWrite\<rparr>
             else k\<lparr>c_op := OpWrite, c_certain := False\<rparr>))"
    unfolding c_def cmd_def by (simp add: ClassifyRedis_def Let_def)
  show "cautious c" unfolding unfold
    by (simp add: cautious_def Let_def split: option.splits)
  show "c_op c = OpRead \<Longrightarrow>
      cmd \<in> set redisReads \<or> cmd \<in> set (map fst redisDangerousSub) \<or>
      (cmd = ''SORT'' \<and> (\<forall>x \<in> set rest. \<not> equal_fold x ''STORE''))"
    unfolding unfold using dom[of cmd]
    by (auto simp: Let_def split: option.splits if_splits)
  show "\<not> c_certain c \<longleftrightarrow>
      cmd \<notin> {''SORT''} \<union> set redisDangerous \<union> set (map fst redisDangerousSub) \<union>
             set redisReads \<union> set known_redis_writes"
    unfolding unfold using dom[of cmd]
    by (auto simp: Let_def knownRedisWrite_def split: option.splits if_splits)
  show "cmd \<in> set redisDangerous \<Longrightarrow> c_op c = OpWrite \<and> c_dangerous c = cmd"
    unfolding unfold using sort by (auto simp: Let_def)
  show "c_blocking c = (if cmd \<in> set redisBlocking then cmd else [])"
    unfolding unfold by (simp add: Let_def split: option.splits)
qed

text \<open>A Redis command is judged a read only when the vocabulary says so: it is a listed
  read, a family with dangerous subcommands called with another one, or a \<open>SORT\<close> that
  does not store. An unlisted command is an uncertain write, a destructive one is always
  named, and a blocking one is reported whatever else it is.\<close>

theorem ClassifyRedis_judgement:
  "let cmd = to_upper (trim_space a); c = ClassifyRedis (a # rest) in
     cautious c \<and>
     (c_op c = OpRead \<longrightarrow>
        cmd \<in> set redisReads \<or> cmd \<in> set (map fst redisDangerousSub) \<or>
        (cmd = ''SORT'' \<and> \<not> hasWord rest ''STORE'')) \<and>
     (c_certain c \<longleftrightarrow>
        cmd \<in> {''SORT''} \<union> set redisDangerous \<union> set (map fst redisDangerousSub) \<union>
               set redisReads \<union> set known_redis_writes) \<and>
     (cmd \<in> set redisDangerous \<longrightarrow> c_op c = OpWrite \<and> c_dangerous c = cmd) \<and>
     c_blocking c = (if cmd \<in> set redisBlocking then cmd else [])"
  unfolding Let_def hasWord_def using ClassifyRedis_facts[of a rest] by blast

theorem ClassifyRedis_judgement_witness:
  "c_op (ClassifyRedis [''flushall'']) = OpWrite \<and> c_dangerous (ClassifyRedis [''flushall'']) = ''FLUSHALL''"
proof -
  have "to_upper (trim_space ''flushall'') \<in> set redisDangerous" by code_simp
  with ClassifyRedis_judgement[of "''flushall''" "[]"]
  have "c_op (ClassifyRedis [''flushall'']) = OpWrite \<and>
        c_dangerous (ClassifyRedis [''flushall'']) = to_upper (trim_space ''flushall'')"
    unfolding Let_def by blast
  moreover have "to_upper (trim_space ''flushall'') = ''FLUSHALL''" by code_simp
  ultimately show ?thesis by simp
qed

text \<open>
  Two statements the heuristic reads as certain reads: the row-locking \<open>SELECT\<close> the
  source's comment counts as a write, and an \<open>EXPLAIN ANALYZE\<close> that executes a delete.
  The third is an administrative subcommand outside its family's table.
\<close>

lemma read_verdict_gaps:
  "ClassifySQL ''SELECT id FROM t FOR UPDATE'' = mk_class OpRead [] True"
  "ClassifySQL ''EXPLAIN ANALYZE DELETE FROM t'' = mk_class OpRead [] True"
  "ClassifyRedis [''CLUSTER'', ''FLUSHSLOTS''] = mk_class OpRead [] True"
  by code_simp+

end
