(* ===== verification/Schedule.thy ===== *)
theory Schedule
  imports Errs
begin

text \<open>
  The load profile and the arrival times, \<open>internal/schedule/schedule.go\<close>. Floating-point
  numbers are reals once they are known to be finite: the rounding of single operations is
  not modelled, the tests for NaN and infinity are. Durations are integers of nanoseconds
  that wrap at 64 bits.
\<close>

section \<open>Data\<close>

datatype arrival = ArrivalUniform | ArrivalPoisson | ArrivalOther string

record stage =
  st_duration :: int
  st_target :: float64

record segment =
  start_offset :: real
  seg_d :: real
  seg_r0 :: real
  seg_r1 :: real
  seg_a :: real
  seg_b :: real
  cum_start :: real
  seg_cap :: real

record profile =
  segs :: "segment list"
  p_duration :: int
  p_total :: real

text \<open>\<open>Duration.Seconds\<close> and the conversion back, which truncates.\<close>

definition secs :: "int \<Rightarrow> real" where
  "secs d = real_of_int d / 10 ^ 9"

definition seconds :: "real \<Rightarrow> int" where
  "seconds f = (if 0 \<le> f then \<lfloor>f * 10 ^ 9\<rfloor> else \<lceil>f * 10 ^ 9\<rceil>)"

section \<open>Compiling a profile\<close>

definition finite_err :: "float64 \<Rightarrow> coded_error option" where
  "finite_err v = (if is_nan v \<or> is_inf v then Some (new_error CodeConfigInvalidValue) else None)"

definition stagePath :: "nat \<Rightarrow> string" where
  "stagePath i = ''/executor/stages/'' @ itoa (int i)"

definition mk_segment :: "real \<Rightarrow> real \<Rightarrow> real \<Rightarrow> real \<Rightarrow> real \<Rightarrow> segment" where
  "mk_segment offset d prev target sofar =
     (let a = (target - prev) / (2 * d); b = prev
      in \<lparr>start_offset = offset, seg_d = d, seg_r0 = prev, seg_r1 = target, seg_a = a, seg_b = b,
          cum_start = sofar, seg_cap = a * d * d + b * d\<rparr>)"

fun compile_stages :: "nat \<Rightarrow> real \<Rightarrow> real \<Rightarrow> profile \<Rightarrow> stage list \<Rightarrow> profile result" where
  "compile_stages i prev offset p [] = Inr p"
| "compile_stages i prev offset p (st # sts) =
     (if st_duration st \<le> 0 then Inl (error_at CodeConfigInvalidValue (stagePath i))
      else case finite_err (st_target st) of
        Some e \<Rightarrow> Inl (with_path (stagePath i) e)
      | None \<Rightarrow>
          if f_less (st_target st) (Fin 0) then Inl (error_at CodeConfigInvalidValue (stagePath i))
          else
            let d = secs (st_duration st); target = f_val (st_target st);
                seg = mk_segment offset d prev target (p_total p)
            in compile_stages (i + 1) target (offset + d)
                 (p\<lparr>segs := segs p @ [seg], p_total := p_total p + seg_cap seg,
                    p_duration := wrap64 (p_duration p + st_duration st)\<rparr>) sts)"

definition NewProfile :: "float64 \<Rightarrow> stage list \<Rightarrow> profile result" where
  "NewProfile startRate stages =
     (if stages = [] then Inl (new_error CodeConfigInvalidValue)
      else case finite_err startRate of
        Some e \<Rightarrow> Inl e
      | None \<Rightarrow>
          if f_less startRate (Fin 0) then Inl (new_error CodeConfigInvalidValue)
          else compile_stages 0 (f_val startRate) 0 \<lparr>segs = [], p_duration = 0, p_total = 0\<rparr> stages)"

definition Expected :: "profile \<Rightarrow> real" where
  "Expected p = p_total p"

section \<open>Reading a profile\<close>

definition starts_by :: "profile \<Rightarrow> real \<Rightarrow> nat \<Rightarrow> bool" where
  "starts_by p t i \<longleftrightarrow> start_offset (segs p ! i) \<le> t"

definition counts_below :: "profile \<Rightarrow> real \<Rightarrow> nat \<Rightarrow> bool" where
  "counts_below p k i \<longleftrightarrow> cum_start (segs p ! i) < k"

definition segmentAtTime :: "profile \<Rightarrow> real \<Rightarrow> segment" where
  "segmentAtTime p t = segs p ! last_true (starts_by p t) 0 (length (segs p) - 1)"

function skip_empty :: "segment list \<Rightarrow> nat \<Rightarrow> nat" where
  "skip_empty ss i =
     (if i < length ss - 1 \<and> seg_cap (ss ! i) = 0 then skip_empty ss (i + 1) else i)"
  by pat_completeness auto
termination
  by (relation "measure (\<lambda>(ss, i). length ss - i)") auto

declare skip_empty.simps [simp del]

definition segmentAtCount :: "profile \<Rightarrow> real \<Rightarrow> segment" where
  "segmentAtCount p k = segs p ! skip_empty (segs p) (last_true (counts_below p k) 0 (length (segs p) - 1))"

definition RateAt :: "profile \<Rightarrow> int \<Rightarrow> real" where
  "RateAt p off =
     (if off < 0 then 0
      else if p_duration p < off then 0
      else let t = secs off; seg = segmentAtTime p t; s = t - start_offset seg;
               s = (if seg_d seg < s then seg_d seg else s)
           in seg_r0 seg + (seg_r1 seg - seg_r0 seg) * (s / seg_d seg))"

definition Lambda :: "profile \<Rightarrow> int \<Rightarrow> real" where
  "Lambda p off =
     (if off \<le> 0 then 0
      else if p_duration p \<le> off then p_total p
      else let t = secs off; seg = segmentAtTime p t; s = t - start_offset seg
           in cum_start seg + seg_a seg * s * s + seg_b seg * s)"

definition solve :: "real \<Rightarrow> real \<Rightarrow> real \<Rightarrow> real" where
  "solve a b c =
     (if c \<le> 0 then 0
      else let disc = b * b + 4 * a * c; disc = (if disc < 0 then 0 else disc);
               den = b + sqrt disc
           in if den \<le> 0 then 0 else 2 * c / den)"

definition invert_secs :: "profile \<Rightarrow> real \<Rightarrow> real" where
  "invert_secs p k =
     (let seg = segmentAtCount p k;
          s = solve (seg_a seg) (seg_b seg) (k - cum_start seg);
          s = (if s < 0 then 0 else s);
          s = (if seg_d seg < s then seg_d seg else s)
      in start_offset seg + s)"

definition Invert :: "profile \<Rightarrow> real \<Rightarrow> int option" where
  "Invert p k =
     (if k \<le> 0 then Some 0
      else if p_total p < k then None
      else Some (seconds (invert_secs p k)))"

section \<open>The schedule\<close>

record 'r schedule =
  sc_profile :: profile
  sc_arrival :: arrival
  sc_rng :: 'r
  sc_consumed :: real
  sc_last :: int
  sc_count :: nat
  sc_done :: bool

text \<open>
  A seeded source is a state and the draw \<open>ExpFloat64\<close> makes from it, a parameter; a source
  that was not given is \<open>None\<close>.
\<close>

definition NewSchedule :: "profile option \<Rightarrow> arrival \<Rightarrow> 'r option \<Rightarrow> 'r option schedule result" where
  "NewSchedule p arrival rng =
     (case p of
        None \<Rightarrow> Inl (new_error CodeInternal)
      | Some prof \<Rightarrow>
          (case arrival of
             ArrivalOther s \<Rightarrow> Inl (error_at CodeConfigInvalidValue ''/run/arrival'')
           | _ \<Rightarrow>
               if arrival = ArrivalPoisson \<and> rng = None then Inl (new_error CodeInternal)
               else Inr \<lparr>sc_profile = prof, sc_arrival = arrival, sc_rng = rng, sc_consumed = 0,
                         sc_last = 0, sc_count = 0, sc_done = False\<rparr>))"

text \<open>The arrival process moves the cumulative count.\<close>

definition consume :: "('r \<Rightarrow> real \<times> 'r) \<Rightarrow> 'r option schedule \<Rightarrow> 'r option schedule" where
  "consume draw s =
     (case sc_arrival s of
        ArrivalPoisson \<Rightarrow>
          (case sc_rng s of
             None \<Rightarrow> s
           | Some r \<Rightarrow> (case draw r of (x, r') \<Rightarrow>
               s\<lparr>sc_consumed := sc_consumed s + x, sc_rng := Some r'\<rparr>))
      | ArrivalUniform \<Rightarrow> s\<lparr>sc_consumed := sc_consumed s + 1\<rparr>
      | ArrivalOther _ \<Rightarrow> s)"

definition Next ::
  "('r \<Rightarrow> real \<times> 'r) \<Rightarrow> 'r option schedule \<Rightarrow> int option \<times> 'r option schedule" where
  "Next draw s =
     (if sc_done s then (None, s)
      else let s = consume draw s
      in case Invert (sc_profile s) (sc_consumed s) of
           None \<Rightarrow> (None, s\<lparr>sc_done := True\<rparr>)
         | Some off \<Rightarrow>
             let off = (if off < sc_last s then sc_last s else off)
             in (Some off, s\<lparr>sc_last := off, sc_count := sc_count s + 1\<rparr>))"

text \<open>The arrival loop: at most \<open>n\<close> calls, stopping at the first that reports the end.\<close>

fun arrivals :: "('r \<Rightarrow> real \<times> 'r) \<Rightarrow> nat \<Rightarrow> 'r option schedule \<Rightarrow> int list \<times> 'r option schedule" where
  "arrivals draw 0 s = ([], s)"
| "arrivals draw (Suc n) s =
     (case Next draw s of
        (None, s') \<Rightarrow> ([], s')
      | (Some off, s') \<Rightarrow> (case arrivals draw n s' of (offs, s'') \<Rightarrow> (off # offs, s'')))"

section \<open>Well-formed profiles\<close>

text \<open>The arrivals a segment offers in its first \<open>x\<close> seconds.\<close>

definition seg_area :: "segment \<Rightarrow> real \<Rightarrow> real" where
  "seg_area s x = seg_a s * x * x + seg_b s * x"

definition seg_ok :: "segment \<Rightarrow> bool" where
  "seg_ok s \<longleftrightarrow> 0 < seg_d s \<and> 0 \<le> seg_r0 s \<and> 0 \<le> seg_r1 s \<and>
     seg_a s = (seg_r1 s - seg_r0 s) / (2 * seg_d s) \<and> seg_b s = seg_r0 s \<and>
     seg_cap s = seg_area s (seg_d s)"

definition placed :: "segment list \<Rightarrow> nat \<Rightarrow> bool" where
  "placed ss i \<longleftrightarrow> start_offset (ss ! i) = sum_list (map seg_d (take i ss)) \<and>
     cum_start (ss ! i) = sum_list (map seg_cap (take i ss))"

definition wf_profile :: "profile \<Rightarrow> bool" where
  "wf_profile p \<longleftrightarrow> segs p \<noteq> [] \<and> (\<forall>s \<in> set (segs p). seg_ok s) \<and>
     (\<forall>i < length (segs p). placed (segs p) i) \<and>
     p_total p = sum_list (map seg_cap (segs p)) \<and>
     secs (p_duration p) = sum_list (map seg_d (segs p))"

lemma seg_okD:
  assumes "seg_ok s"
  shows "0 < seg_d s" "0 \<le> seg_b s" "seg_r0 s = seg_b s" "seg_r1 s = seg_b s + 2 * seg_a s * seg_d s"
    "0 \<le> seg_r1 s" "seg_cap s = seg_area s (seg_d s)"
  using assms by (auto simp: seg_ok_def field_simps)

lemma seg_area_diff:
  "seg_area s y - seg_area s x = (y - x) * (seg_b s + seg_a s * (x + y))"
  by (simp add: seg_area_def algebra_simps)

text \<open>The rate is never negative inside a segment, so the area grows.\<close>

lemma rate_nonneg:
  assumes "seg_ok s" "0 \<le> x" "x \<le> 2 * seg_d s"
  shows "0 \<le> seg_b s + seg_a s * x"
proof (cases "0 \<le> seg_a s")
  case True
  then show ?thesis using assms seg_okD(2)[OF assms(1)] by simp
next
  case False
  then have "seg_a s * (2 * seg_d s) \<le> seg_a s * x" using assms by (intro mult_left_mono_neg) auto
  then show ?thesis using seg_okD(4,5)[OF assms(1)] by linarith
qed

lemma seg_area_mono:
  assumes "seg_ok s" "0 \<le> x" "x \<le> y" "y \<le> seg_d s"
  shows "seg_area s x \<le> seg_area s y"
proof -
  have "0 \<le> (y - x) * (seg_b s + seg_a s * (x + y))"
    using assms by (intro mult_nonneg_nonneg rate_nonneg) auto
  then show ?thesis using seg_area_diff[of s y x] by simp
qed

lemma seg_area_0 [simp]: "seg_area s 0 = 0"
  by (simp add: seg_area_def)

lemma seg_cap_nonneg: "seg_ok s \<Longrightarrow> 0 \<le> seg_cap s"
  using seg_area_mono[of s 0 "seg_d s"] seg_okD(1,6)[of s] by simp

text \<open>The rationalised root is the root: the time at which a segment has offered \<open>c\<close>.\<close>

lemma solve_root:
  assumes ok: "seg_ok s" and c: "0 < c" "c \<le> seg_cap s"
  defines "x \<equiv> solve (seg_a s) (seg_b s) c"
  shows "0 < x" "x \<le> seg_d s" "seg_area s x = c"
proof -
  define a b d where abd: "a = seg_a s" "b = seg_b s" "d = seg_d s"
  note okD = seg_okD[OF ok, folded abd]
  have cap: "seg_cap s = d * (b + a * d)" using okD(6) by (simp add: seg_area_def abd algebra_simps)
  have lower: "(b + 2 * a * d)\<^sup>2 \<le> b * b + 4 * a * c" if "a \<le> 0"
  proof -
    have "a * seg_cap s \<le> a * c" using c that by (intro mult_left_mono_neg) auto
    then show ?thesis by (simp add: cap power2_eq_square algebra_simps)
  qed
  have "0 \<le> 4 * a * c" if "0 \<le> a" using c that by simp
  moreover have "0 \<le> b * b" "0 \<le> (b + 2 * a * d)\<^sup>2" by simp_all
  ultimately have disc: "0 \<le> b * b + 4 * a * c" using lower by linarith
  define q where "q = sqrt (b * b + 4 * a * c)"
  have q2: "q * q = b * b + 4 * a * c" and q0: "0 \<le> q" using disc by (simp_all add: q_def)
  have den: "0 < b + q"
  proof (cases "b = 0")
    case True
    have "0 < d * (b + a * d)" using c cap by linarith
    then have "0 < a" using okD(1) True by (simp add: zero_less_mult_iff)
    then have "0 < q * q" using q2 True c by simp
    then have "q \<noteq> 0" by auto
    then show ?thesis using True q0 by simp
  qed (use okD(2) q0 in linarith)
  have x: "x = 2 * c / (b + q)"
    using c disc den by (simp add: x_def solve_def Let_def abd[symmetric] q_def)
  then show "0 < x" using c den by simp
  have xq: "x * (b + q) = 2 * c" using x den by simp
  have "(a * x * x + b * x) * ((b + q) * (b + q)) = a * (x * (b + q)) * (x * (b + q)) + b * (x * (b + q)) * (b + q)"
    by (simp add: algebra_simps)
  also have "\<dots> = 4 * a * c * c + 2 * b * c * (b + q)" unfolding xq by (simp add: algebra_simps)
  also have "\<dots> = c * ((b + q) * (b + q))" using q2 by (simp add: algebra_simps)
  finally have "a * x * x + b * x = c" using den by simp
  then show area: "seg_area s x = c" by (simp add: seg_area_def abd)
  show "x \<le> seg_d s"
  proof (cases "a \<le> 0")
    case True
    have "b + 2 * a * d \<le> q"
      using lower[OF True] unfolding q_def by (rule real_le_rsqrt)
    then have "d * (b + b + 2 * a * d) \<le> d * (b + q)" using okD(1) by (intro mult_left_mono) auto
    then have "x * (b + q) \<le> d * (b + q)" using xq c cap by (simp add: algebra_simps)
    then show ?thesis using den by (simp add: abd)
  next
    case False
    show ?thesis
    proof (rule ccontr)
      assume "\<not> x \<le> seg_d s"
      then have "0 < (x - d) * (b + a * (d + x))"
        using False okD(1,2) by (intro mult_pos_pos add_nonneg_pos) (auto simp: abd)
      then show False using seg_area_diff[of s x d] area c okD(6) by (simp add: abd)
    qed
  qed
qed

section \<open>Searching a profile\<close>

lemma sum_take_Suc:
  "i < length xs \<Longrightarrow> sum_list (map f (take (Suc i) xs)) = sum_list (map f (take i xs)) + (f (xs ! i) :: real)"
  by (simp add: take_Suc_conv_app_nth)

lemma sum_take_mono:
  assumes "\<forall>x \<in> set xs. 0 \<le> (f x :: real)" "i \<le> j"
  shows "sum_list (map f (take i xs)) \<le> sum_list (map f (take j xs))"
proof -
  have "take j xs = take i xs @ drop i (take j xs)"
    by (metis append_take_drop_id assms(2) min.absorb2 take_take min.commute)
  moreover have "0 \<le> sum_list (map f (drop i (take j xs)))"
    using assms(1) by (intro sum_list_nonneg) (auto dest!: in_set_dropD in_set_takeD)
  ultimately show ?thesis by (metis add_increasing2 map_append order_refl sum_list_append)
qed

lemma wfD:
  assumes "wf_profile p"
  shows "0 < length (segs p)" "\<forall>s \<in> set (segs p). seg_ok s" "p_total p = sum_list (map seg_cap (segs p))"
    "secs (p_duration p) = sum_list (map seg_d (segs p))"
    "i < length (segs p) \<Longrightarrow> start_offset (segs p ! i) = sum_list (map seg_d (take i (segs p)))"
    "i < length (segs p) \<Longrightarrow> cum_start (segs p ! i) = sum_list (map seg_cap (take i (segs p)))"
    "i < length (segs p) \<Longrightarrow> seg_ok (segs p ! i)"
  using assms by (auto simp: wf_profile_def placed_def)

lemma starts_mono:
  assumes "wf_profile p" "i < j" "j < length (segs p)"
  shows "start_offset (segs p ! i) + seg_d (segs p ! i) \<le> start_offset (segs p ! j)"
    "cum_start (segs p ! i) + seg_cap (segs p ! i) \<le> cum_start (segs p ! j)"
  using sum_take_mono[of "segs p" seg_d "Suc i" j] sum_take_mono[of "segs p" seg_cap "Suc i" j]
    wfD[OF assms(1)] assms(2,3) seg_okD(1) seg_cap_nonneg
  by (auto simp: sum_take_Suc less_imp_le)

interpretation times: prefix_test starts_by "\<lambda>p. length (segs p)" wf_profile
proof
  fix p t j i
  assume p: "wf_profile p" "starts_by p t j" "i \<le> j" "j < length (segs p)"
  then show "starts_by p t i"
    using starts_mono(1)[of p i j] seg_okD(1)[OF wfD(7)[of p i]]
    by (cases "i = j") (auto simp: starts_by_def)
qed

interpretation counts: prefix_test counts_below "\<lambda>p. length (segs p)" wf_profile
proof
  fix p k j i
  assume p: "wf_profile p" "counts_below p k j" "i \<le> j" "j < length (segs p)"
  then show "counts_below p k i"
    using starts_mono(2)[of p i j] seg_cap_nonneg[OF wfD(7)[of p i]]
    by (cases "i = j") (auto simp: counts_below_def)
qed

text \<open>
  The specification of the cumulative count: every segment contributes what it offers in the
  part of it that lies before \<open>t\<close>.
\<close>

definition clip :: "segment \<Rightarrow> real \<Rightarrow> real" where
  "clip s t = max 0 (min (seg_d s) (t - start_offset s))"

definition offered :: "profile \<Rightarrow> real \<Rightarrow> real" where
  "offered p t = sum_list (map (\<lambda>s. seg_area s (clip s t)) (segs p))"

lemma offered_mono:
  assumes "wf_profile p" "t \<le> u"
  shows "offered p t \<le> offered p u"
  unfolding offered_def
proof (rule sum_list_mono)
  fix s assume "s \<in> set (segs p)"
  then have "seg_ok s" using wfD(2)[OF assms(1)] by blast
  then show "seg_area s (clip s t) \<le> seg_area s (clip s u)"
    using seg_okD(1)[of s] assms(2) by (intro seg_area_mono) (auto simp: clip_def)
qed

text \<open>Inside segment \<open>i\<close>: the segments before it count in full, those after it not at all.\<close>

lemma offered_inside:
  assumes wf: "wf_profile p" and i: "i < length (segs p)" and x: "0 \<le> x" "x \<le> seg_d (segs p ! i)"
  shows "offered p (start_offset (segs p ! i) + x) = cum_start (segs p ! i) + seg_area (segs p ! i) x"
proof -
  let ?s = "segs p ! i" and ?f = "\<lambda>s. seg_area s (clip s (start_offset (segs p ! i) + x))"
  have before: "?f (segs p ! j) = seg_cap (segs p ! j)" if "j < i" for j
    using starts_mono(1)[OF wf that i] seg_okD(1,6)[OF wfD(7)[OF wf, of j]] that i x
    by (simp add: clip_def max_def min_def)
  have after: "?f (segs p ! j) = 0" if "i < j" "j < length (segs p)" for j
  proof -
    have "start_offset ?s + x - start_offset (segs p ! j) \<le> 0" using starts_mono(1)[OF wf that] x by linarith
    then have "clip (segs p ! j) (start_offset ?s + x) = 0"
      using seg_okD(1)[OF wfD(7)[OF wf that(2)]] by (simp add: clip_def)
    then show ?thesis by simp
  qed
  have here: "?f ?s = seg_area ?s x" using x by (simp add: clip_def max_def min_def)
  have "map ?f (take i (segs p)) = map seg_cap (take i (segs p))"
    using before i by (intro nth_equalityI) auto
  then have first: "sum_list (map ?f (take i (segs p))) = cum_start ?s"
    unfolding wfD(6)[OF wf i] by (rule arg_cong)
  have "map ?f (drop (Suc i) (segs p)) = map (\<lambda>_. 0) (drop (Suc i) (segs p))"
    using after by (intro nth_equalityI) auto
  then have rest: "sum_list (map ?f (drop (Suc i) (segs p))) = 0" by (metis sum_list_0)
  have "segs p = take i (segs p) @ ?s # drop (Suc i) (segs p)"
    using i by (rule id_take_nth_drop)
  then have "offered p (start_offset ?s + x) =
      sum_list (map ?f (take i (segs p))) + ?f ?s + sum_list (map ?f (drop (Suc i) (segs p)))"
    unfolding offered_def by (metis (no_types, lifting) add.assoc list.simps(9) map_append sum_list.Cons sum_list_append)
  then show ?thesis using here first rest by simp
qed

lemma offered_before: "wf_profile p \<Longrightarrow> t \<le> 0 \<Longrightarrow> offered p t = 0"
proof -
  assume wf: "wf_profile p" and t: "t \<le> 0"
  have "clip s t = 0" if s: "s \<in> set (segs p)" for s
  proof -
    obtain j where j: "j < length (segs p)" "s = segs p ! j" using s by (auto simp: in_set_conv_nth)
    have "0 \<le> start_offset s"
      using wfD(5)[OF wf j(1)] wfD(2)[OF wf] j(2) seg_okD(1)
      by (auto intro!: sum_list_nonneg dest!: in_set_takeD simp: less_imp_le)
    then show ?thesis using t seg_okD(1)[OF wfD(7)[OF wf j(1)]] j(2) by (simp add: clip_def max_def min_def)
  qed
  then have "map (\<lambda>s. seg_area s (clip s t)) (segs p) = map (\<lambda>_. 0) (segs p)" by simp
  then show ?thesis unfolding offered_def by (metis sum_list_0)
qed

lemma offered_end: "wf_profile p \<Longrightarrow> secs (p_duration p) \<le> t \<Longrightarrow> offered p t = p_total p"
proof -
  assume wf: "wf_profile p" and t: "secs (p_duration p) \<le> t"
  have "seg_area s (clip s t) = seg_cap s" if s: "s \<in> set (segs p)" for s
  proof -
    obtain j where j: "j < length (segs p)" "s = segs p ! j" using s by (auto simp: in_set_conv_nth)
    have "start_offset s + seg_d s \<le> sum_list (map seg_d (segs p))"
      using sum_take_mono[of "segs p" seg_d "Suc j" "length (segs p)"] wfD(2,5)[OF wf] j seg_okD(1)
      by (auto simp: sum_take_Suc less_imp_le)
    then show ?thesis
      using t wfD(4)[OF wf] seg_okD(1,6)[OF wfD(7)[OF wf j(1)]] j(2) by (simp add: clip_def max_def min_def)
  qed
  then have "map (\<lambda>s. seg_area s (clip s t)) (segs p) = map seg_cap (segs p)" by simp
  then show ?thesis unfolding offered_def wfD(3)[OF wf] by (rule arg_cong)
qed

text \<open>The segment a time falls in.\<close>

lemma segmentAtTime_found:
  assumes "wf_profile p" "0 \<le> t" "t \<le> secs (p_duration p)"
  obtains i where "i < length (segs p)" "segmentAtTime p t = segs p ! i"
    "start_offset (segs p ! i) \<le> t" "t \<le> start_offset (segs p ! i) + seg_d (segs p ! i)"
proof -
  define i where "i = last_true (starts_by p t) 0 (length (segs p) - 1)"
  have "starts_by p t 0" using wfD(5)[OF assms(1), of 0] wfD(1)[OF assms(1)] assms(2) by (simp add: starts_by_def)
  note found = times.search[OF assms(1) this wfD(1)[OF assms(1)], folded i_def]
  have "t \<le> start_offset (segs p ! i) + seg_d (segs p ! i)"
  proof (cases "Suc i < length (segs p)")
    case True
    have "start_offset (segs p ! Suc i) = start_offset (segs p ! i) + seg_d (segs p ! i)"
      using wfD(5)[OF assms(1)] True by (simp add: sum_take_Suc)
    then show ?thesis using found(3)[of "Suc i"] True by (simp add: starts_by_def)
  next
    case False
    then have "take (Suc i) (segs p) = segs p" using found(1) by simp
    then show ?thesis
      using wfD(4,5)[OF assms(1)] found(1) assms(3) sum_take_Suc[of i "segs p" seg_d] by simp
  qed
  then show ?thesis using that[of i] found(1,2) by (simp add: segmentAtTime_def i_def starts_by_def)
qed

lemma Lambda_offered:
  assumes "wf_profile p"
  shows "Lambda p off = offered p (secs off)"
proof -
  consider "off \<le> 0" | "0 < off" "p_duration p \<le> off" | "0 < off" "off < p_duration p" by linarith
  then show ?thesis
  proof cases
    case 1
    then show ?thesis using offered_before[OF assms, of "secs off"] by (simp add: Lambda_def secs_def)
  next
    case 2
    then show ?thesis using offered_end[OF assms, of "secs off"] by (simp add: Lambda_def secs_def)
  next
    case 3
    then have "0 \<le> secs off" "secs off \<le> secs (p_duration p)" by (auto simp: secs_def)
    then obtain i where i: "i < length (segs p)" "segmentAtTime p (secs off) = segs p ! i"
      "start_offset (segs p ! i) \<le> secs off" "secs off \<le> start_offset (segs p ! i) + seg_d (segs p ! i)"
      by (rule segmentAtTime_found[OF assms])
    then show ?thesis
      using 3 offered_inside[OF assms i(1), of "secs off - start_offset (segs p ! i)"]
      by (simp add: Lambda_def Let_def seg_area_def)
  qed
qed

text \<open>The segment an arrival falls in; the step over empty segments never moves.\<close>

lemma segmentAtCount_found:
  assumes "wf_profile p" "0 < k" "k \<le> p_total p"
  obtains i where "i < length (segs p)" "segmentAtCount p k = segs p ! i"
    "cum_start (segs p ! i) < k" "k \<le> cum_start (segs p ! i) + seg_cap (segs p ! i)"
proof -
  define i where "i = last_true (counts_below p k) 0 (length (segs p) - 1)"
  have "counts_below p k 0" using wfD(6)[OF assms(1), of 0] wfD(1)[OF assms(1)] assms(2) by (simp add: counts_below_def)
  note found = counts.search[OF assms(1) this wfD(1)[OF assms(1)], folded i_def]
  have k: "k \<le> cum_start (segs p ! i) + seg_cap (segs p ! i)"
  proof (cases "Suc i < length (segs p)")
    case True
    have "cum_start (segs p ! Suc i) = cum_start (segs p ! i) + seg_cap (segs p ! i)"
      using wfD(6)[OF assms(1)] True by (simp add: sum_take_Suc)
    then show ?thesis using found(3)[of "Suc i"] True by (simp add: counts_below_def)
  next
    case False
    then have "take (Suc i) (segs p) = segs p" using found(1) by simp
    then show ?thesis
      using wfD(3,6)[OF assms(1)] found(1) assms(3) sum_take_Suc[of i "segs p" seg_cap] by simp
  qed
  moreover have lt: "cum_start (segs p ! i) < k" using found(2) by (simp add: counts_below_def)
  ultimately have "skip_empty (segs p) i = i" by (subst skip_empty.simps) simp
  then show ?thesis using that[of i] found(1) lt k by (simp add: segmentAtCount_def i_def)
qed

lemma invert_secs_inverse:
  assumes "wf_profile p" "0 < k" "k \<le> p_total p"
  shows "offered p (invert_secs p k) = k" "0 < invert_secs p k" "invert_secs p k \<le> secs (p_duration p)"
proof -
  obtain i where i: "i < length (segs p)" "segmentAtCount p k = segs p ! i"
    "cum_start (segs p ! i) < k" "k \<le> cum_start (segs p ! i) + seg_cap (segs p ! i)"
    using segmentAtCount_found[OF assms] .
  let ?s = "segs p ! i" and ?x = "solve (seg_a (segs p ! i)) (seg_b (segs p ! i)) (k - cum_start (segs p ! i))"
  have x: "0 < ?x" "?x \<le> seg_d ?s" "seg_area ?s ?x = k - cum_start ?s"
    using solve_root[OF wfD(7)[OF assms(1) i(1)], of "k - cum_start ?s"] i by auto
  have inv: "invert_secs p k = start_offset ?s + ?x" using x i(2) by (simp add: invert_secs_def Let_def)
  then show "offered p (invert_secs p k) = k"
    using offered_inside[OF assms(1) i(1), of ?x] x by simp
  have "\<forall>s \<in> set (segs p). 0 \<le> seg_d s" using wfD(2)[OF assms(1)] seg_okD(1) by (auto simp: less_imp_le)
  then have "0 \<le> start_offset ?s" "start_offset ?s + seg_d ?s \<le> secs (p_duration p)"
    using sum_take_mono[of "segs p" seg_d 0 i] sum_take_mono[of "segs p" seg_d "Suc i" "length (segs p)"]
      wfD(4,5)[OF assms(1)] i(1) by (auto simp: sum_take_Suc)
  then show "0 < invert_secs p k" "invert_secs p k \<le> secs (p_duration p)" using inv x by auto
qed

lemma invert_secs_mono:
  assumes "wf_profile p" "0 < k" "k \<le> k'" "k' \<le> p_total p"
  shows "invert_secs p k \<le> invert_secs p k'"
proof (rule ccontr)
  assume "\<not> invert_secs p k \<le> invert_secs p k'"
  then have "offered p (invert_secs p k') \<le> offered p (invert_secs p k)"
    by (intro offered_mono[OF assms(1)]) simp
  then have "k' \<le> k" using invert_secs_inverse(1)[OF assms(1)] assms by simp
  then have "k = k'" using assms(3) by simp
  then show False using \<open>\<not> invert_secs p k \<le> invert_secs p k'\<close> by simp
qed

section \<open>Compiled profiles are well formed\<close>

definition fin_nonneg :: "float64 \<Rightarrow> bool" where
  "fin_nonneg v \<longleftrightarrow> \<not> is_nan v \<and> \<not> is_inf v \<and> 0 \<le> f_val v"

definition stage_ok :: "stage \<Rightarrow> bool" where
  "stage_ok st \<longleftrightarrow> 0 < st_duration st \<and> fin_nonneg (st_target st)"

text \<open>The trapezoids under the rate curve.\<close>

fun area :: "real \<Rightarrow> stage list \<Rightarrow> real" where
  "area r [] = 0"
| "area r (st # sts) = (r + f_val (st_target st)) / 2 * secs (st_duration st) + area (f_val (st_target st)) sts"

lemma fin_nonneg_tests: "fin_nonneg v \<longleftrightarrow> finite_err v = None \<and> \<not> f_less v (Fin 0)"
  by (cases v) (auto simp: fin_nonneg_def finite_err_def)

lemma secs_add: "secs (a + b) = secs a + secs b"
  by (simp add: secs_def add_divide_distrib)

lemma secs_pos: "0 < a \<Longrightarrow> 0 < secs a"
  by (simp add: secs_def)

lemma mk_segment_ok:
  "0 < dd \<Longrightarrow> 0 \<le> r \<Longrightarrow> 0 \<le> t \<Longrightarrow> seg_ok (mk_segment off dd r t tot)"
  by (simp add: mk_segment_def seg_ok_def Let_def seg_area_def)

lemma mk_segment_cap: "0 < dd \<Longrightarrow> seg_cap (mk_segment off dd r t tot) = (r + t) / 2 * dd"
  by (simp add: mk_segment_def Let_def field_simps)

lemma mk_segment_sel [simp]:
  "start_offset (mk_segment off dd r t tot) = off" "seg_d (mk_segment off dd r t tot) = dd"
  "cum_start (mk_segment off dd r t tot) = tot"
  by (simp_all add: mk_segment_def Let_def)

lemma compile_ok_iff: "is_ok (compile_stages i r off p sts) \<longleftrightarrow> list_all stage_ok sts"
proof (induction sts arbitrary: i r off p)
  case (Cons st sts)
  have "stage_ok st \<longleftrightarrow> \<not> st_duration st \<le> 0 \<and> finite_err (st_target st) = None \<and> \<not> f_less (st_target st) (Fin 0)"
    by (auto simp: stage_ok_def fin_nonneg_tests)
  then show ?case using Cons by (cases "finite_err (st_target st)") (simp_all add: Let_def)
qed simp

lemma compile_total:
  "compile_stages i r off p sts = Inr q \<Longrightarrow> p_total q = p_total p + area r sts"
  by (induction sts arbitrary: i r off p)
    (auto simp: Let_def mk_segment_cap secs_pos split: if_splits option.splits)

text \<open>The invariant of the loop, which becomes \<open>wf_profile\<close> at its end.\<close>

definition building :: "profile \<Rightarrow> real \<Rightarrow> bool" where
  "building p off \<longleftrightarrow> (\<forall>s \<in> set (segs p). seg_ok s) \<and> (\<forall>i < length (segs p). placed (segs p) i) \<and>
     p_total p = sum_list (map seg_cap (segs p)) \<and> off = sum_list (map seg_d (segs p)) \<and>
     secs (p_duration p) = off"

lemma placed_snoc: "i < length ss \<Longrightarrow> placed (ss @ [s]) i = placed ss i"
  by (simp add: placed_def nth_append)

lemma compile_building:
  "compile_stages i r off p sts = Inr q \<Longrightarrow> building p off \<Longrightarrow> 0 \<le> r \<Longrightarrow>
   0 \<le> p_duration p \<Longrightarrow> p_duration p + sum_list (map st_duration sts) < 2 ^ 63 \<Longrightarrow>
   building q (secs (p_duration q)) \<and> p_duration q = p_duration p + sum_list (map st_duration sts) \<and>
   length (segs q) = length (segs p) + length sts"
proof (induction sts arbitrary: i r off p)
  case Nil
  then show ?case by (auto simp: building_def)
next
  case (Cons st sts)
  have ok: "stage_ok st" "list_all stage_ok sts"
    using compile_ok_iff[of i r off p "st # sts"] Cons.prems(1) by auto
  then have t: "0 \<le> f_val (st_target st)" "finite_err (st_target st) = None" "\<not> f_less (st_target st) (Fin 0)"
    "0 < st_duration st" "0 < secs (st_duration st)"
    using fin_nonneg_tests[of "st_target st"] by (simp_all add: stage_ok_def fin_nonneg_def secs_pos)
  have rest: "0 \<le> sum_list (map st_duration sts)"
    using ok(2) by (intro sum_list_nonneg) (auto simp: list_all_iff stage_ok_def)
  define seg where "seg = mk_segment off (secs (st_duration st)) r (f_val (st_target st)) (p_total p)"
  define p' where "p' = p\<lparr>segs := segs p @ [seg], p_total := p_total p + seg_cap seg,
     p_duration := p_duration p + st_duration st\<rparr>"
  have dur: "wrap64 (p_duration p + st_duration st) = p_duration p + st_duration st"
    using Cons.prems t rest by (intro wrap64_id) auto
  have comp: "compile_stages (i + 1) (f_val (st_target st)) (off + secs (st_duration st)) p' sts = Inr q"
    using Cons.prems(1) t dur by (simp add: Let_def seg_def p'_def)
  have "placed (segs p @ [seg]) (length (segs p))"
    using Cons.prems(2) by (simp add: placed_def building_def seg_def)
  then have "building p' (off + secs (st_duration st))"
    using Cons.prems(2) mk_segment_ok[OF t(5) Cons.prems(3) t(1)]
    by (auto simp: building_def p'_def placed_snoc less_Suc_eq secs_add seg_def)
  then have "building q (secs (p_duration q)) \<and>
      p_duration q = p_duration p' + sum_list (map st_duration sts) \<and>
      length (segs q) = length (segs p') + length sts"
    using t Cons.prems rest by (intro Cons.IH[OF comp]) (simp_all add: p'_def)
  moreover have "p_duration p' + sum_list (map st_duration sts) = p_duration p + sum_list (map st_duration (st # sts))"
    "length (segs p') + length sts = length (segs p) + length (st # sts)"
    by (simp_all add: p'_def)
  ultimately show ?case by metis
qed

lemma NewProfile_wf:
  assumes "NewProfile r sts = Inr p" "sum_list (map st_duration sts) < 2 ^ 63"
  shows "wf_profile p" "p_duration p = sum_list (map st_duration sts)"
proof -
  have sts: "sts \<noteq> []" "0 \<le> f_val r"
    and comp: "compile_stages 0 (f_val r) 0 \<lparr>segs = [], p_duration = 0, p_total = 0\<rparr> sts = Inr p"
    using assms(1) fin_nonneg_tests[of r]
    by (auto simp: NewProfile_def fin_nonneg_def split: if_splits option.splits)
  have "building \<lparr>segs = [], p_duration = 0, p_total = 0\<rparr> 0" by (simp add: building_def secs_def)
  note built = compile_building[OF comp this sts(2)]
  show "wf_profile p" using built assms(2) sts(1) by (auto simp: wf_profile_def building_def)
  show "p_duration p = sum_list (map st_duration sts)" using built assms(2) by simp
qed

section \<open>The inverse as a clock\<close>

text \<open>
  What the arrival loop needs of a profile: its inverse starts at zero, never goes back and,
  once exhausted, stays exhausted.
\<close>

locale arrival_clock =
  fixes invert :: "'p \<Rightarrow> real \<Rightarrow> int option" and ok :: "'p \<Rightarrow> bool"
  assumes start: "ok p \<Longrightarrow> k \<le> 0 \<Longrightarrow> invert p k = Some 0"
    and mono: "ok p \<Longrightarrow> k \<le> k' \<Longrightarrow> invert p k' = Some b \<Longrightarrow> \<exists>a. invert p k = Some a \<and> a \<le> b"
begin

lemma never_early: "ok p \<Longrightarrow> invert p k = Some a \<Longrightarrow> 0 \<le> a"
  using mono[of p "min 0 k" k a] start[of p "min 0 k"] by auto

lemma stays_exhausted: "ok p \<Longrightarrow> invert p k = None \<Longrightarrow> k \<le> k' \<Longrightarrow> invert p k' = None"
  using mono[of p k k'] by (cases "invert p k'") auto

lemma sorted_times:
  "ok p \<Longrightarrow> sorted ks \<Longrightarrow> \<forall>k \<in> set ks. invert p k \<noteq> None \<Longrightarrow> sorted (map (\<lambda>k. the (invert p k)) ks)"
proof (induction ks)
  case (Cons k ks)
  have "the (invert p k) \<le> the (invert p k')" if "k' \<in> set ks" for k'
    using mono[of p k k' "the (invert p k')"] Cons.prems that by auto
  then show ?case using Cons by auto
qed simp

end

lemma seconds_mono: "0 \<le> x \<Longrightarrow> x \<le> y \<Longrightarrow> seconds x \<le> seconds y"
  by (simp add: seconds_def floor_mono)

interpretation clock: arrival_clock Invert wf_profile
proof
  fix p k k' b
  assume wf: "wf_profile p" and le: "k \<le> k'" and b: "Invert p k' = Some b"
  show "\<exists>a. Invert p k = Some a \<and> a \<le> b"
  proof (cases "0 < k")
    case True
    then have k': "0 < k'" "k' \<le> p_total p" "b = seconds (invert_secs p k')"
      using le b by (auto simp: Invert_def split: if_splits)
    then have "seconds (invert_secs p k) \<le> b"
      using invert_secs_mono[OF wf True le] invert_secs_inverse(2)[OF wf True] le
      by (auto intro: seconds_mono)
    then show ?thesis using True k' le by (simp add: Invert_def)
  next
    case False
    have "0 \<le> b"
    proof (cases "0 < k'")
      case True
      then have "0 < invert_secs p k'" "b = seconds (invert_secs p k')"
        using invert_secs_inverse(2)[OF wf True] b by (auto simp: Invert_def split: if_splits)
      then show ?thesis by (simp add: seconds_def)
    qed (use b in \<open>simp add: Invert_def\<close>)
    then show ?thesis using False by (simp add: Invert_def)
  qed
qed (simp add: Invert_def)

section \<open>The counts a schedule asks for\<close>

text \<open>The cumulative counts of the next \<open>n\<close> calls, were none of them to stop.\<close>

fun asked :: "('r \<Rightarrow> real \<times> 'r) \<Rightarrow> nat \<Rightarrow> 'r option schedule \<Rightarrow> real list" where
  "asked draw 0 s = []"
| "asked draw (Suc n) s = sc_consumed (consume draw s) # asked draw n (consume draw s)"

lemma consume_sel [simp]:
  "sc_profile (consume draw s) = sc_profile s" "sc_arrival (consume draw s) = sc_arrival s"
  "sc_last (consume draw s) = sc_last s" "sc_count (consume draw s) = sc_count s"
  "sc_done (consume draw s) = sc_done s"
  by (simp_all add: consume_def split: arrival.splits option.splits prod.splits)

lemma asked_same:
  "sc_arrival s' = sc_arrival s \<Longrightarrow> sc_rng s' = sc_rng s \<Longrightarrow> sc_consumed s' = sc_consumed s \<Longrightarrow>
   asked draw n s' = asked draw n s"
proof (induction n arbitrary: s s')
  case (Suc n)
  then have "sc_rng (consume draw s') = sc_rng (consume draw s)"
    "sc_consumed (consume draw s') = sc_consumed (consume draw s)"
    by (simp_all add: consume_def split: arrival.splits option.splits prod.splits)
  then show ?case using Suc by simp
qed simp

lemma consume_grows:
  assumes "\<forall>r. 0 \<le> fst (draw r)"
  shows "sc_consumed s \<le> sc_consumed (consume draw s)"
  using assms by (auto simp: consume_def split: arrival.splits option.splits prod.splits) (metis fst_conv)

lemma asked_sorted:
  assumes "\<forall>r. 0 \<le> fst (draw r)"
  shows "sorted (sc_consumed s # asked draw n s)"
proof (induction n arbitrary: s)
  case (Suc n)
  then show ?case using Suc[of "consume draw s"] consume_grows[OF assms, of s] by fastforce
qed simp

lemma asked_uniform:
  "sc_arrival s = ArrivalUniform \<Longrightarrow> asked draw n s = map (\<lambda>i. sc_consumed s + real i) [1..<Suc n]"
proof (induction n arbitrary: s)
  case (Suc n)
  have "asked draw n (consume draw s) = map (\<lambda>i. sc_consumed s + 1 + real i) [1..<Suc n]"
    using Suc by (simp add: consume_def del: upt_Suc)
  also have "\<dots> = map (\<lambda>i. sc_consumed s + real i) [2..<Suc (Suc n)]"
    by (simp add: map_Suc_upt[symmetric] numeral_2_eq_2 o_def algebra_simps del: upt_Suc)
  finally show ?case using Suc.prems by (simp add: consume_def upt_conv_Cons numeral_2_eq_2 del: upt_Suc)
qed simp

text \<open>
  A loop over a source that never draws a negative gap delivers the inverse of each count up
  to the last one the profile offers: the guard against going back never acts.
\<close>

lemma arrivals_inverse:
  assumes "\<forall>r. 0 \<le> fst (draw r)" "wf_profile (sc_profile s)" "\<not> sc_done s"
    "sc_last s \<le> the (Invert (sc_profile s) (sc_consumed s))" "Invert (sc_profile s) (sc_consumed s) \<noteq> None"
  shows "fst (arrivals draw n s) =
    map (\<lambda>k. the (Invert (sc_profile s) k)) (takeWhile (\<lambda>k. Invert (sc_profile s) k \<noteq> None) (asked draw n s))"
  using assms(2-5)
proof (induction n arbitrary: s)
  case (Suc n)
  let ?s = "consume draw s"
  show ?case
  proof (cases "Invert (sc_profile s) (sc_consumed ?s)")
    case None
    then show ?thesis using Suc.prems by (simp add: Next_def Let_def)
  next
    case (Some off)
    have "the (Invert (sc_profile s) (sc_consumed s)) \<le> off"
      using clock.mono[OF Suc.prems(1) consume_grows[OF assms(1)] Some] by auto
    then have "\<not> off < sc_last s" using Suc.prems(3) by simp
    then have nxt: "Next draw s = (Some off, ?s\<lparr>sc_last := off, sc_count := sc_count s + 1\<rparr>)"
      using Suc.prems(2) Some by (simp add: Next_def Let_def)
    let ?t = "?s\<lparr>sc_last := off, sc_count := sc_count s + 1\<rparr>"
    have "asked draw n ?t = asked draw n ?s" by (rule asked_same) simp_all
    moreover have "fst (arrivals draw n ?t) =
      map (\<lambda>k. the (Invert (sc_profile ?t) k)) (takeWhile (\<lambda>k. Invert (sc_profile ?t) k \<noteq> None) (asked draw n ?t))"
      using Suc.prems Some by (intro Suc.IH) simp_all
    ultimately show ?thesis using nxt Some by (cases "arrivals draw n ?t") simp
  qed
qed simp

lemma Invert_offered: "Invert p k \<noteq> None \<longleftrightarrow> k \<le> 0 \<or> k \<le> p_total p"
  by (simp add: Invert_def)

lemma p_total_nonneg: "wf_profile p \<Longrightarrow> 0 \<le> p_total p"
  using wfD(2,3)[of p] seg_cap_nonneg by (auto intro!: sum_list_nonneg)

lemma fresh:
  "NewSchedule (Some p) arr rng = Inr s \<Longrightarrow>
   sc_profile s = p \<and> sc_arrival s = arr \<and> sc_rng s = rng \<and> sc_consumed s = 0 \<and> sc_last s = 0 \<and>
   sc_count s = 0 \<and> \<not> sc_done s"
  by (auto simp: NewSchedule_def split: arrival.splits if_splits)

lemma fresh_arrivals:
  assumes "NewSchedule (Some p) arr rng = Inr s" "wf_profile p" "\<forall>r. 0 \<le> fst (draw r)"
  shows "fst (arrivals draw n s) = map (\<lambda>k. the (Invert p k)) (takeWhile (\<lambda>k. k \<le> p_total p) (asked draw n s))"
proof -
  note f = fresh[OF assms(1)]
  have "takeWhile (\<lambda>k. Invert p k \<noteq> None) (asked draw n s) = takeWhile (\<lambda>k. k \<le> p_total p) (asked draw n s)"
    using p_total_nonneg[OF assms(2)] by (intro takeWhile_cong) (simp_all only: Invert_offered, auto)
  then show ?thesis
    using arrivals_inverse[OF assms(3), of s n] assms(2) f clock.start[OF assms(2), of 0] by simp
qed

lemma takeWhile_upt:
  assumes "a \<le> Suc m"
  shows "takeWhile (\<lambda>i. i \<le> m) [a..<b] = [a..<min b (Suc m)]"
proof (cases "b \<le> Suc m")
  case True
  then have "takeWhile (\<lambda>i. i \<le> m) [a..<b] = [a..<b]" by (auto simp: takeWhile_eq_all_conv)
  then show ?thesis using True by (simp add: min_def)
next
  case False
  then have "[a..<b] = [a..<Suc m] @ [Suc m..<b]"
    using upt_add_eq_append[of a "Suc m" "b - Suc m"] assms by simp
  moreover have "takeWhile (\<lambda>i. i \<le> m) [Suc m..<b] = []" using False by (simp add: upt_conv_Cons)
  moreover have "\<forall>i \<in> set [a..<Suc m]. i \<le> m" by auto
  ultimately show ?thesis using False by (simp add: takeWhile_append min_def del: upt_Suc)
qed

section \<open>Properties\<close>

text \<open>C5. The inverse is exact to the nanosecond: for every count the profile offers, the arrival
  is due inside the profile, in the nanosecond in which the cumulative count passes it.\<close>

theorem Invert_exact:
  assumes "NewProfile r sts = Inr p" "sum_list (map st_duration sts) < 2 ^ 63" "0 < k" "k \<le> Expected p"
  shows "\<exists>off. Invert p k = Some off \<and> 0 \<le> off \<and> off \<le> p_duration p \<and>
    Lambda p off \<le> k \<and> k \<le> Lambda p (off + 1)"
proof -
  note wf = NewProfile_wf(1)[OF assms(1,2)]
  have k: "k \<le> p_total p" using assms(4) by (simp add: Expected_def)
  note inv = invert_secs_inverse[OF wf assms(3) k]
  define off where "off = seconds (invert_secs p k)"
  have off: "off = \<lfloor>invert_secs p k * 10 ^ 9\<rfloor>" using inv(2) by (simp add: off_def seconds_def)
  have "real_of_int off \<le> invert_secs p k * 10 ^ 9" "invert_secs p k * 10 ^ 9 \<le> real_of_int off + 1"
    unfolding off by linarith+
  then have "secs off \<le> invert_secs p k" "invert_secs p k \<le> secs (off + 1)"
    by (simp_all add: secs_def field_simps)
  then have "Lambda p off \<le> k" "k \<le> Lambda p (off + 1)"
    using offered_mono[OF wf, of "secs off" "invert_secs p k"]
      offered_mono[OF wf, of "invert_secs p k" "secs (off + 1)"] inv(1)
    by (simp_all add: Lambda_offered[OF wf])
  moreover have "0 \<le> off" using inv(2) by (simp add: off)
  moreover have "off \<le> p_duration p"
  proof -
    have "invert_secs p k * 10 ^ 9 \<le> real_of_int (p_duration p)" using inv(3) by (simp add: secs_def field_simps)
    then show ?thesis unfolding off by linarith
  qed
  moreover have "Invert p k = Some off" using assms(3) k by (simp add: Invert_def off_def)
  ultimately show ?thesis by blast
qed

text \<open>A ramp from nothing to 10 a second over 2 s, then 10 a second for a second.\<close>

definition ramp :: "stage list" where
  "ramp = [\<lparr>st_duration = 2000000000, st_target = Fin 10\<rparr>, \<lparr>st_duration = 1000000000, st_target = Fin 10\<rparr>]"

lemma ramp_compiled: "\<exists>p. NewProfile (Fin 0) ramp = Inr p \<and> Expected p = 20"
proof -
  have "is_ok (compile_stages 0 0 0 \<lparr>segs = [], p_duration = 0, p_total = 0\<rparr> ramp)"
    unfolding compile_ok_iff by (simp add: ramp_def stage_ok_def fin_nonneg_def)
  then obtain p where p: "compile_stages 0 0 0 \<lparr>segs = [], p_duration = 0, p_total = 0\<rparr> ramp = Inr p"
    by (auto simp: is_ok_iff)
  then have "NewProfile (Fin 0) ramp = Inr p" by (simp add: NewProfile_def finite_err_def ramp_def)
  moreover have "p_total p = 20" using compile_total[OF p] by (simp add: ramp_def secs_def)
  ultimately show ?thesis by (auto simp: Expected_def)
qed

lemma ramp_time: "sum_list (map st_duration ramp) < 2 ^ 63"
  by (simp add: ramp_def)

theorem Invert_exact_witness:
  "\<exists>p off. NewProfile (Fin 0) ramp = Inr p \<and> Invert p 5 = Some off \<and> Lambda p off \<le> 5 \<and> 5 \<le> Lambda p (off + 1)"
proof -
  obtain p where p: "NewProfile (Fin 0) ramp = Inr p" "Expected p = 20" using ramp_compiled by blast
  then show ?thesis using Invert_exact[OF p(1) ramp_time, of 5] by auto
qed

text \<open>C14. A uniform schedule fires exactly once for every whole arrival the profile offers, the
  k-th at the inverse of k: over a whole run no arrival is lost and none is added.\<close>

theorem uniform_arrivals:
  assumes "NewProfile r sts = Inr p" "sum_list (map st_duration sts) < 2 ^ 63"
    "NewSchedule (Some p) ArrivalUniform rng = Inr s" "\<forall>r. 0 \<le> fst (draw r)"
  shows "fst (arrivals draw n s) = map (\<lambda>i. the (Invert p (real i))) [1..<Suc (min n (nat \<lfloor>Expected p\<rfloor>))]"
proof -
  note wf = NewProfile_wf(1)[OF assms(1,2)]
  define m where "m = nat \<lfloor>p_total p\<rfloor>"
  have m: "real i \<le> p_total p \<longleftrightarrow> i \<le> m" for i
    using p_total_nonneg[OF wf] unfolding m_def by linarith
  have "fst (arrivals draw n s) =
      map (\<lambda>k. the (Invert p k)) (takeWhile (\<lambda>k. k \<le> p_total p) (map real [1..<Suc n]))"
    using fresh_arrivals[OF assms(3) wf assms(4), of n] fresh[OF assms(3)] by (simp add: asked_uniform del: upt_Suc)
  also have "takeWhile (\<lambda>k. k \<le> p_total p) (map real [1..<Suc n]) = map real (takeWhile (\<lambda>i. i \<le> m) [1..<Suc n])"
    by (simp add: takeWhile_map o_def m del: upt_Suc)
  also have "takeWhile (\<lambda>i. i \<le> m) [1..<Suc n] = [1..<Suc (min n m)]"
    using takeWhile_upt[of 1 m "Suc n"] by (simp add: min_def del: upt_Suc)
  finally show ?thesis by (simp add: m_def Expected_def o_def del: upt_Suc)
qed

theorem uniform_arrivals_witness:
  "\<exists>p s. NewProfile (Fin 0) ramp = Inr p \<and> NewSchedule (Some p) ArrivalUniform None = Inr s \<and>
     length (fst (arrivals (\<lambda>r::unit. (1, r)) 100 s)) = 20"
proof -
  obtain p where p: "NewProfile (Fin 0) ramp = Inr p" "Expected p = 20" using ramp_compiled by blast
  obtain s :: "unit option schedule" where s: "NewSchedule (Some p) ArrivalUniform None = Inr s"
    by (simp add: NewSchedule_def)
  have "fst (arrivals (\<lambda>r. (1, r)) 100 s) = map (\<lambda>i. the (Invert p (real i))) [1..<Suc (min 100 (nat \<lfloor>Expected p\<rfloor>))]"
    by (rule uniform_arrivals[OF p(1) ramp_time s]) simp
  then have "length (fst (arrivals (\<lambda>r. (1, r)) 100 s)) = 20" using p(2) by (simp del: upt_Suc)
  then show ?thesis using p(1) s by blast
qed



text \<open>Offsets never go back and the count is the number of arrivals delivered, for any
  profile, any draws and however the loop is interrupted.\<close>

theorem arrivals_in_order:
  "case arrivals draw n s of (offs, s') \<Rightarrow>
     sorted (sc_last s # offs) \<and> sc_count s' = sc_count s + length offs"
proof (induction n arbitrary: s)
  case (Suc n)
  show ?case
  proof (cases "Next draw s")
    case (Pair r s1)
    then show ?thesis
    proof (cases r)
      case None
      then show ?thesis using Pair by (auto simp: Next_def Let_def split: if_splits option.splits)
    next
      case (Some off)
      then have "sc_last s \<le> off" "sc_last s1 = off" "sc_count s1 = sc_count s + 1"
        using Pair by (auto simp: Next_def Let_def split: if_splits option.splits)
      then show ?thesis using Suc[of s1] Pair Some by (auto split: prod.splits)
    qed
  qed
qed simp

text \<open>A profile is compiled exactly when there is a stage, every stage has a positive duration
  and a finite non-negative target, and the starting rate is finite and non-negative.\<close>

theorem NewProfile_accepts:
  "is_ok (NewProfile r sts) \<longleftrightarrow> sts \<noteq> [] \<and> fin_nonneg r \<and> list_all stage_ok sts"
  unfolding NewProfile_def fin_nonneg_tests using compile_ok_iff
  by (auto split: option.splits)

text \<open>What a profile expects to offer is the area under the rate curve: the sum over the stages
  of the mean of the rates at its two ends times its duration.\<close>

theorem Expected_area:
  "NewProfile r sts = Inr p \<Longrightarrow> Expected p = area (f_val r) sts"
  using compile_total by (force simp: NewProfile_def Expected_def split: if_splits option.splits)

theorem Expected_area_witness: "\<exists>p. NewProfile (Fin 0) ramp = Inr p \<and> Expected p = area 0 ramp"
  using ramp_compiled Expected_area[of "Fin 0" ramp] by auto

text \<open>Rate and count agree: between two instants of one stage the profile offers the mean of
  their two rates times the time between them.\<close>

theorem Lambda_trapezoid:
  assumes "NewProfile r sts = Inr p" "sum_list (map st_duration sts) < 2 ^ 63"
    "0 < u" "u \<le> v" "v < p_duration p" "segmentAtTime p (secs u) = segmentAtTime p (secs v)"
  shows "Lambda p v - Lambda p u = (RateAt p u + RateAt p v) / 2 * secs (v - u)"
proof -
  note wf = NewProfile_wf(1)[OF assms(1,2)]
  define seg where "seg = segmentAtTime p (secs u)"
  have inside: "secs w - start_offset (segmentAtTime p (secs w)) \<le> seg_d (segmentAtTime p (secs w)) \<and>
      seg_ok (segmentAtTime p (secs w))" if w: "0 < w" "w < p_duration p" for w
  proof -
    have "0 \<le> secs w" "secs w \<le> secs (p_duration p)" using w by (auto simp: secs_def)
    then obtain i where "i < length (segs p)" "segmentAtTime p (secs w) = segs p ! i"
      "secs w \<le> start_offset (segs p ! i) + seg_d (segs p ! i)"
      by (rule segmentAtTime_found[OF wf])
    then show ?thesis using wfD(7)[OF wf] by simp
  qed
  define x y where "x = secs u - start_offset seg" and "y = secs v - start_offset seg"
  have ok: "seg_ok seg" "x \<le> seg_d seg" "y \<le> seg_d seg"
    using inside[of u] inside[of v] assms(3-6) by (auto simp: x_def y_def seg_def)
  have lam: "Lambda p u = cum_start seg + seg_area seg x" "Lambda p v = cum_start seg + seg_area seg y"
    using assms(3-6) by (simp_all add: Lambda_def Let_def seg_area_def x_def y_def seg_def)
  have slope: "(seg_r1 seg - seg_r0 seg) * (z / seg_d seg) = 2 * seg_a seg * z" for z
    using seg_okD(1,3,4)[OF ok(1)] by simp
  have "RateAt p u = seg_b seg + 2 * seg_a seg * x" "RateAt p v = seg_b seg + 2 * seg_a seg * y"
    using assms(3-6) ok slope[of x] slope[of y] seg_okD(3)[OF ok(1)]
    by (simp_all add: RateAt_def Let_def x_def y_def seg_def)
  moreover have "secs (v - u) = y - x" by (simp add: x_def y_def secs_def diff_divide_distrib)
  moreover have "Lambda p v - Lambda p u = (y - x) * (seg_b seg + seg_a seg * (x + y))"
    using lam seg_area_diff[of seg y x] by simp
  moreover have "(y - x) * (seg_b seg + seg_a seg * (x + y)) =
      (seg_b seg + 2 * seg_a seg * x + (seg_b seg + 2 * seg_a seg * y)) / 2 * (y - x)"
    by (simp add: field_simps)
  ultimately show ?thesis by (simp only:)
qed

lemma ramp_segment:
  assumes "NewProfile (Fin 0) ramp = Inr p" "0 \<le> t" "t < 2"
  shows "segmentAtTime p t = mk_segment 0 2 0 10 0"
proof -
  have "segs p = [mk_segment 0 2 0 10 0, mk_segment 2 1 10 10 10]"
    using assms(1) by (auto simp: NewProfile_def ramp_def finite_err_def mk_segment_def secs_def Let_def)
  then show ?thesis using assms(2,3)
    by (simp add: segmentAtTime_def last_true.simps[of _ 0 "Suc 0"] Let_def starts_by_def)
qed

theorem Lambda_trapezoid_witness:
  "\<exists>p. NewProfile (Fin 0) ramp = Inr p \<and>
     Lambda p 1500000000 - Lambda p 500000000 = (RateAt p 500000000 + RateAt p 1500000000) / 2 * secs 1000000000"
proof -
  obtain p where p: "NewProfile (Fin 0) ramp = Inr p" "Expected p = 20" using ramp_compiled by blast
  have "p_duration p = 3000000000" using NewProfile_wf(2)[OF p(1) ramp_time] by (simp add: ramp_def)
  moreover have "segmentAtTime p (secs 500000000) = segmentAtTime p (secs 1500000000)"
    by (simp add: ramp_segment[OF p(1)] secs_def)
  ultimately show ?thesis using p(1) Lambda_trapezoid[OF p(1) ramp_time, of 500000000 1500000000] by simp
qed

end
