(* ===== verification/Weighted.thy ===== *)
theory Weighted
  imports Prelude
begin

text \<open>
  The weighted picker of the runners, \<open>internal/runner/weighted.go\<close>: a prefix-sum table
  and a binary search in it. Weights are reals, the draw \<open>Float64\<close> is a parameter.
\<close>

record weighted =
  w_cumulative :: "real list"
  w_total :: real

fun add_weights :: "weighted \<Rightarrow> real list \<Rightarrow> weighted" where
  "add_weights w [] = w"
| "add_weights w (x # xs) =
     (let x = (if x \<le> 0 then 0 else x); t = w_total w + x
      in add_weights (w\<lparr>w_total := t, w_cumulative := w_cumulative w @ [t]\<rparr>) xs)"

definition NewWeighted :: "real list \<Rightarrow> weighted" where
  "NewWeighted weights = add_weights \<lparr>w_cumulative = [], w_total = 0\<rparr> weights"

text \<open>\<open>sort.SearchFloat64s\<close>: the first index whose entry is at least the target.\<close>

definition at_least :: "weighted \<Rightarrow> real \<Rightarrow> nat \<Rightarrow> bool" where
  "at_least w x i \<longleftrightarrow> x \<le> w_cumulative w ! i"

definition Pick :: "('r \<Rightarrow> real \<times> 'r) \<Rightarrow> weighted \<Rightarrow> 'r \<Rightarrow> nat \<times> 'r" where
  "Pick draw w rng =
     (let n = length (w_cumulative w)
      in if n = 0 then (0, rng)
         else if n = 1 \<or> w_total w \<le> 0 then (0, rng)
         else case draw rng of (u, rng') \<Rightarrow>
           let i = first_true (at_least w (u * w_total w)) 0 n
           in (if n \<le> i then n - 1 else i, rng'))"

definition Len :: "weighted \<Rightarrow> nat" where
  "Len w = length (w_cumulative w)"

section \<open>The table\<close>

definition positive :: "real list \<Rightarrow> real list" where
  "positive ws = map (max 0) ws"

definition prefix_sums :: "real list \<Rightarrow> weighted \<Rightarrow> bool" where
  "prefix_sums ps w \<longleftrightarrow> w_total w = sum_list ps \<and> length (w_cumulative w) = length ps \<and>
     (\<forall>i < length ps. w_cumulative w ! i = sum_list (take (Suc i) ps))"

lemma add_weights_sums:
  "prefix_sums ps w \<Longrightarrow> prefix_sums (ps @ positive ws) (add_weights w ws)"
proof (induction ws arbitrary: ps w)
  case (Cons x ws)
  let ?x = "if x \<le> 0 then 0 else x"
  let ?w = "w\<lparr>w_total := w_total w + ?x, w_cumulative := w_cumulative w @ [w_total w + ?x]\<rparr>"
  have x: "?x = max 0 x" by simp
  have "prefix_sums (ps @ [max 0 x]) ?w"
    using Cons.prems by (auto simp: prefix_sums_def nth_append less_Suc_eq max_def)
  from Cons.IH[OF this] show ?case by (simp add: positive_def Let_def)
qed (simp add: positive_def)

lemma NewWeighted_sums: "prefix_sums (positive ws) (NewWeighted ws)"
  using add_weights_sums[of "[]" "\<lparr>w_cumulative = [], w_total = 0\<rparr>" ws]
  by (simp add: prefix_sums_def NewWeighted_def)

definition table_ok :: "weighted \<Rightarrow> bool" where
  "table_ok w \<longleftrightarrow> (\<exists>ps. prefix_sums ps w \<and> (\<forall>x \<in> set ps. 0 \<le> x))"

lemma take_sums_mono:
  assumes "\<forall>x \<in> set ps. 0 \<le> (x :: real)" "i \<le> j"
  shows "sum_list (take i ps) \<le> sum_list (take j ps)"
proof -
  have "take j ps = take i ps @ take (j - i) (drop i ps)" using take_add[of i "j - i" ps] assms(2) by simp
  moreover have "0 \<le> sum_list (take (j - i) (drop i ps))"
    using assms(1) by (intro sum_list_nonneg) (auto dest!: in_set_takeD in_set_dropD)
  ultimately show ?thesis by simp
qed

interpretation weights: suffix_test at_least "\<lambda>w. length (w_cumulative w)" table_ok
proof
  fix w x i j
  assume "table_ok w" "at_least w x i" "i \<le> j" "j < length (w_cumulative w)"
  then show "at_least w x j"
    using take_sums_mono[of _ "Suc i" "Suc j"]
    by (fastforce simp: table_ok_def prefix_sums_def at_least_def)
qed

lemma NewWeighted_ok: "table_ok (NewWeighted ws)"
proof -
  have "\<forall>x \<in> set (positive ws). 0 \<le> x" by (simp add: positive_def)
  then show ?thesis using NewWeighted_sums[of ws] by (auto simp: table_ok_def)
qed

section \<open>Properties\<close>

text \<open>A choice is made exactly when the draw falls into its share of the total: choice \<open>i\<close> has
  the draws between the sums of the weights before it and up to it, so its probability is
  its weight over the total and a choice without weight is never made by a positive draw.\<close>

theorem Pick_share:
  assumes "2 \<le> length ws" "0 < sum_list (positive ws)" "draw rng = (u, rng')" "0 < u" "u \<le> 1"
    "i < length ws"
  shows "Pick draw (NewWeighted ws) rng = (i, rng') \<longleftrightarrow>
    sum_list (take i (positive ws)) < u * sum_list (positive ws) \<and>
    u * sum_list (positive ws) \<le> sum_list (take (Suc i) (positive ws))"
proof -
  let ?w = "NewWeighted ws" and ?ps = "positive ws"
  define t where "t = u * sum_list ?ps"
  have w: "w_total ?w = sum_list ?ps" "length (w_cumulative ?w) = length ws"
    "j < length ws \<Longrightarrow> w_cumulative ?w ! j = sum_list (take (Suc j) ?ps)" for j
    using NewWeighted_sums[of ws] by (auto simp: prefix_sums_def positive_def)
  have len: "length ?ps = length ws" and pos: "\<forall>x \<in> set ?ps. 0 \<le> x" by (auto simp: positive_def)
  have t: "0 < t" "t \<le> sum_list ?ps" using assms(2,4,5) by (auto simp: t_def mult_left_le_one_le)
  define k where "k = first_true (at_least ?w t) 0 (length ws)"
  have k: "k \<le> length ws" using first_true_range[of 0 "length ws" "at_least ?w t"] by (simp add: k_def)
  have "at_least ?w t (length ws - 1)" using w(3)[of "length ws - 1"] assms(1) t(2) len by (simp add: at_least_def)
  have last: "length ws - 1 < length ws" using assms(1) by linarith
  have kn: "k < length ws"
  proof (rule ccontr)
    assume "\<not> k < length ws"
    then have "k = length ws" using k by simp
    then have "\<not> at_least ?w t (length ws - 1)"
      using weights.below[OF NewWeighted_ok, of "length ws" ws 0 "length ws - 1" t] last
      by (simp add: k_def w(2))
    then show False using \<open>at_least ?w t (length ws - 1)\<close> by contradiction
  qed
  have reach: "t \<le> sum_list (take (Suc k) ?ps)"
    using weights.reached[of 0 "length ws" ?w t] kn w(3)[OF kn] by (simp add: k_def at_least_def)
  have before: "sum_list (take k ?ps) < t"
  proof (cases k)
    case (Suc j)
    then have "\<not> at_least ?w t j"
      using weights.below[OF NewWeighted_ok, of "length ws" ws 0 j t] by (simp add: k_def w(2))
    then show ?thesis using Suc kn w(3)[of j] by (simp add: at_least_def)
  qed (use t in simp)
  have n: "ws \<noteq> []" "length ws \<noteq> 0" "length ws \<noteq> Suc 0" using assms(1) by auto
  have pick: "Pick draw ?w rng = (k, rng')"
    using assms(2,3) kn w(1,2) n by (simp add: Pick_def Let_def t_def[symmetric] k_def)
  have "k = i" if "sum_list (take i ?ps) < t" "t \<le> sum_list (take (Suc i) ?ps)"
  proof (rule antisym; rule ccontr)
    assume "\<not> k \<le> i"
    then show False using take_sums_mono[OF pos, of "Suc i" k] before that by simp
  next
    assume "\<not> i \<le> k"
    then show False using take_sums_mono[OF pos, of "Suc k" i] reach that by simp
  qed
  then show ?thesis using pick before reach by (auto simp: t_def)
qed

theorem Pick_share_witness:
  "Pick (\<lambda>r::unit. (1 / 2, r)) (NewWeighted [1, 0, 3]) () = (2, ())"
  using Pick_share[of "[1, 0, 3]" "\<lambda>r::unit. (1 / 2, r)" "()" "1 / 2" "()" 2]
  by (simp add: positive_def numeral_2_eq_2)

end
