(* ===== verification/Template.thy ===== *)
theory Template
  imports Errs
begin

text \<open>
  The template mini-language, \<open>internal/template/template.go\<close> and \<open>render.go\<close>: compiling a
  source into parts, rendering the parts against a context, and the generators. Text is
  ASCII. The random source, the printer of a time and \<open>fmt.Sprint\<close> of a foreign value are
  parameters; a panic is a value of its own beside the coded errors.
\<close>

unbundle bit_operations_syntax

section \<open>Data\<close>

text \<open>The value of a token: what Go passes as \<open>any\<close>; \<open>VAny\<close> is any other type.\<close>

datatype 'v val = VStr string | VInt int | VTime int | VNil | VAny 'v

datatype gen = RandInt int int | RandString int | UUID | Seq | PickOne "string list" | Now

datatype 'v part = LiteralP string | VarP string | FeederP string string | GenP gen | ValueP "'v val"

record 'v template =
  t_source :: string
  t_parts :: "'v part list"
  t_solo :: "'v part option"

definition fnRandInt :: string where "fnRandInt = ''randInt''"
definition fnRandString :: string where "fnRandString = ''randString''"
definition fnUUID :: string where "fnUUID = ''uuid''"
definition fnSeq :: string where "fnSeq = ''seq''"
definition fnPick :: string where "fnPick = ''pick''"
definition fnNow :: string where "fnNow = ''now''"

lemmas fn_defs = fnRandInt_def fnRandString_def fnUUID_def fnSeq_def fnPick_def fnNow_def

definition knownFuncs :: "(string \<times> nat \<times> nat) list" where
  "knownFuncs = [(fnRandInt, 2, 2), (fnRandString, 1, 1), (fnUUID, 0, 0), (fnSeq, 0, 0),
     (fnPick, 1, 1), (fnNow, 0, 0)]"

definition FunctionNames :: "string list" where
  "FunctionNames = sort (map fst knownFuncs)"

definition maxRandStringLength :: int where
  "maxRandStringLength = 2 ^ 20"

section \<open>Compiling\<close>

definition syntax_error :: coded_error where
  "syntax_error = new_error CodeConfigTemplateSyntax"

definition unknownFunction :: coded_error where
  "unknownFunction = new_error CodeConfigTemplateUnknownFn"

definition badArgs :: coded_error where
  "badArgs = new_error CodeConfigTemplateSyntax"

fun ident_tail :: "string \<Rightarrow> bool" where
  "ident_tail [] = True"
| "ident_tail (c # s) =
     ((c = CHR ''_'' \<or> is_lower c \<or> is_upper c \<or> is_digit c) \<and> ident_tail s)"

definition isIdentifier :: "string \<Rightarrow> bool" where
  "isIdentifier s = (s \<noteq> [] \<and> ident_tail s \<and> \<not> is_digit (hd s))"

fun compile_picks :: "string list \<Rightarrow> string list result" where
  "compile_picks [] = Inr []"
| "compile_picks (c # cs) =
     (let c = trim_space c
      in if c = [] then Inl badArgs
         else rbind (compile_picks cs) (\<lambda>ps. Inr (c # ps)))"

definition compileGenerator :: "string \<Rightarrow> string \<Rightarrow> nat \<Rightarrow> nat \<Rightarrow> gen result" where
  "compileGenerator name rawArgs minArgs maxArgs =
     (if name = fnPick then
        (if rawArgs = [] then Inl badArgs
         else rbind (compile_picks (split_char (CHR ''|'') rawArgs)) (\<lambda>ps.
           if length ps < 2 then Inl badArgs else Inr (PickOne ps)))
      else
        let args = (if rawArgs \<noteq> [] then GoStrings.fields rawArgs else [])
        in if length args < minArgs \<or> maxArgs < length args then Inl badArgs
        else if name = fnRandInt then
          (case parse_int (args ! 0) of
             None \<Rightarrow> Inl badArgs
           | Some lo \<Rightarrow> (case parse_int (args ! 1) of
               None \<Rightarrow> Inl badArgs
             | Some hi \<Rightarrow> if hi < lo then Inl badArgs else Inr (RandInt lo hi)))
        else if name = fnRandString then
          (case parse_int (args ! 0) of
             None \<Rightarrow> Inl badArgs
           | Some n \<Rightarrow> if n \<le> 0 then Inl badArgs
                       else if maxRandStringLength < n then Inl badArgs
                       else Inr (RandString n))
        else if name = fnUUID then Inr UUID
        else if name = fnSeq then Inr Seq
        else Inr Now)"

definition compileToken :: "string \<Rightarrow> 'v part result" where
  "compileToken token =
     (if token = [] then Inl syntax_error
      else case cut token '' '' of (name, rawArgs, hasArgs) \<Rightarrow>
        let rawArgs = trim_space rawArgs
        in case map_of knownFuncs name of
             Some (minArgs, maxArgs) \<Rightarrow>
               rbind (compileGenerator name rawArgs minArgs maxArgs) (\<lambda>g. Inr (GenP g))
           | None \<Rightarrow>
               if hasArgs then Inl unknownFunction
               else if \<exists>known \<in> set (map fst knownFuncs). equal_fold known name then Inl unknownFunction
               else case cut name ''.'' of (feeder, column, dotted) \<Rightarrow>
                 if dotted then
                   (if feeder = [] \<or> column = [] then Inl syntax_error
                    else Inr (FeederP feeder column))
                 else if \<not> isIdentifier name then Inl syntax_error
                 else Inr (VarP name))"

function compile_parts :: "string \<Rightarrow> 'v part list result" where
  "compile_parts rest =
     (case index_of rest ''{{'' of
        None \<Rightarrow> Inr (if rest \<noteq> [] then [LiteralP rest] else [])
      | Some opens \<Rightarrow>
          let lit = (if 0 < opens then [LiteralP (take opens rest)] else []);
              after = drop (opens + 2) rest
          in case index_of after ''}}'' of
               None \<Rightarrow> Inl syntax_error
             | Some closeAt \<Rightarrow>
                 rbind (compileToken (trim_space (take closeAt after))) (\<lambda>p.
                   rbind (compile_parts (drop (closeAt + 2) after)) (\<lambda>ps. Inr (lit @ p # ps))))"
  by pat_completeness auto
termination
proof (relation "measure length")
  fix rest :: string and x2 xa xb x2a xc
  assume "index_of rest ''{{'' = Some x2" "xb = drop (x2 + 2) rest"
  then show "(drop (x2a + 2) xb, rest) \<in> measure length"
    using index_of_Some[of rest "''{{''" x2] by (auto simp: numeral_2_eq_2)
qed simp

declare compile_parts.simps [simp del]

definition Compile :: "string \<Rightarrow> 'v template result" where
  "Compile source =
     rbind (compile_parts source) (\<lambda>ps.
       Inr \<lparr>t_source = source, t_parts = ps,
            t_solo = (case ps of [LiteralP _] \<Rightarrow> None | [p] \<Rightarrow> Some p | _ \<Rightarrow> None)\<rparr>)"

section \<open>What a template reads\<close>

fun is_literal :: "'v part \<Rightarrow> bool" where
  "is_literal (LiteralP _) = True"
| "is_literal _ = False"

definition IsStatic :: "'v template \<Rightarrow> bool" where
  "IsStatic t = list_all is_literal (t_parts t)"

definition Static :: "'v template \<Rightarrow> string" where
  "Static t = t_source t"

text \<open>The loop of \<open>namesOf\<close>: names in order of first appearance, then sorted.\<close>

fun first_seen :: "string list \<Rightarrow> string list \<Rightarrow> string list" where
  "first_seen seen [] = []"
| "first_seen seen (n # ns) =
     (if n \<in> set seen then first_seen seen ns else n # first_seen (n # seen) ns)"

fun var_of :: "'v part \<Rightarrow> string option" where
  "var_of (VarP n) = Some n"
| "var_of _ = None"

fun feeder_of :: "'v part \<Rightarrow> string option" where
  "feeder_of (FeederP f c) = Some f"
| "feeder_of _ = None"

fun column_of :: "'v part \<Rightarrow> string option" where
  "column_of (FeederP f c) = Some (f @ ''.'' @ c)"
| "column_of _ = None"

definition namesOf :: "('v part \<Rightarrow> string option) \<Rightarrow> 'v template \<Rightarrow> string list" where
  "namesOf sel t = sort (first_seen [] (List.map_filter sel (t_parts t)))"

definition Vars :: "'v template \<Rightarrow> string list" where
  "Vars t = namesOf var_of t"

definition Feeders :: "'v template \<Rightarrow> string list" where
  "Feeders t = namesOf feeder_of t"

definition FeederColumns :: "'v template \<Rightarrow> string list" where
  "FeederColumns t = namesOf column_of t"

definition Literal :: "('v val \<Rightarrow> string) \<Rightarrow> 'v val \<Rightarrow> 'v template" where
  "Literal sprint v = \<lparr>t_source = sprint v, t_parts = [ValueP v], t_solo = Some (ValueP v)\<rparr>"

section \<open>Rendering\<close>

datatype stop = Failed coded_error | Panicked

type_synonym 'a out = "stop + 'a"

text \<open>The operations of \<open>rand.Rand\<close> and the shared state of a run.\<close>

record 'r rand_ops =
  Int64N :: "int \<Rightarrow> 'r \<Rightarrow> int \<times> 'r"
  IntN :: "int \<Rightarrow> 'r \<Rightarrow> int \<times> 'r"
  Uint64 :: "'r \<Rightarrow> 64 word \<times> 'r"

record shared =
  sh_seq :: int
  sh_now :: int

record 'r ctx =
  cx_shared :: "shared option"
  cx_rand :: "'r option"
  cx_vars :: "(string \<rightharpoonup> string) option"
  cx_rows :: "(string \<rightharpoonup> (string \<rightharpoonup> string)) option"

definition alphabet :: string where
  "alphabet = ''abcdefghijklmnopqrstuvwxyzABCDEFGHIJKLMNOPQRSTUVWXYZ0123456789''"

definition hexDigits :: string where
  "hexDigits = ''0123456789abcdef''"

definition uuid_bytes :: "64 word \<Rightarrow> 64 word \<Rightarrow> 8 word list" where
  "uuid_bytes hi lo =
     (let b = map (\<lambda>i. ucast (drop_bit (8 * i) hi AND 0xff)) [0..<8] @
              map (\<lambda>i. ucast (drop_bit (8 * i) lo AND 0xff)) [0..<8];
          b = b[6 := (b ! 6 AND 0x0f) OR 0x40]
      in b[8 := (b ! 8 AND 0x3f) OR 0x80])"

definition uuid_text :: "8 word list \<Rightarrow> string" where
  "uuid_text b = concat (map (\<lambda>(i, x).
     (if i \<in> {4, 6, 8, 10} then ''-'' else []) @
     [hexDigits ! unat (drop_bit 4 x), hexDigits ! unat (x AND 0x0f)])
     (enumerate 0 b))"

definition uuidV4 :: "'r rand_ops \<Rightarrow> 'r \<Rightarrow> string \<times> 'r" where
  "uuidV4 ops r = (case Uint64 ops r of (hi, r1) \<Rightarrow> case Uint64 ops r1 of (lo, r2) \<Rightarrow>
     (uuid_text (uuid_bytes hi lo), r2))"

fun rand_string :: "'r rand_ops \<Rightarrow> nat \<Rightarrow> 'r \<Rightarrow> string \<times> 'r" where
  "rand_string ops 0 r = ([], r)"
| "rand_string ops (Suc n) r =
     (case IntN ops (int (length alphabet)) r of (i, r1) \<Rightarrow>
        case rand_string ops n r1 of (s, r2) \<Rightarrow> (alphabet ! nat i # s, r2))"

text \<open>\<open>generate\<close>. \<open>Int64N\<close> panics unless its bound is positive; differences wrap at 64 bits.\<close>

definition rand_int :: "'r rand_ops \<Rightarrow> int \<Rightarrow> int \<Rightarrow> 'r \<Rightarrow> (int \<times> 'r) out" where
  "rand_int ops lo hi r =
     (let span = wrap64 (hi - lo)
      in if span = 0 then Inr (lo, r)
         else if wrap64 (span + 1) \<le> 0 then Inl Panicked
         else case Int64N ops (wrap64 (span + 1)) r of (x, r') \<Rightarrow> Inr (wrap64 (lo + x), r'))"

definition generate :: "'r rand_ops \<Rightarrow> gen \<Rightarrow> 'r ctx option \<Rightarrow> ('v val \<times> 'r ctx option) out" where
  "generate ops g ctx =
     (case ctx of
        None \<Rightarrow> Inl (Failed (new_error CodeInternal))
      | Some c \<Rightarrow> (case (cx_rand c, cx_shared c) of
          (Some r, Some sh) \<Rightarrow>
            (case g of
               RandInt lo hi \<Rightarrow> rbind (rand_int ops lo hi r) (\<lambda>(x, r').
                 Inr (VInt x, Some (c\<lparr>cx_rand := Some r'\<rparr>)))
             | RandString n \<Rightarrow> (case rand_string ops (nat n) r of (s, r') \<Rightarrow>
                 Inr (VStr s, Some (c\<lparr>cx_rand := Some r'\<rparr>)))
             | UUID \<Rightarrow> (case uuidV4 ops r of (s, r') \<Rightarrow>
                 Inr (VStr s, Some (c\<lparr>cx_rand := Some r'\<rparr>)))
             | Seq \<Rightarrow> let n = wrap64 (sh_seq sh + 1)
                 in Inr (VInt n, Some (c\<lparr>cx_shared := Some (sh\<lparr>sh_seq := n\<rparr>)\<rparr>))
             | PickOne ps \<Rightarrow> (case IntN ops (int (length ps)) r of (i, r') \<Rightarrow>
                 Inr (VStr (ps ! nat i), Some (c\<lparr>cx_rand := Some r'\<rparr>)))
             | Now \<Rightarrow> Inr (VTime (sh_now sh), Some c))
        | _ \<Rightarrow> Inl (Failed (new_error CodeInternal))))"

definition undefinedVar :: stop where
  "undefinedVar = Failed (new_error CodeConfigUndefinedVariable)"

definition missingFeeder :: stop where
  "missingFeeder = Failed (new_error CodeConfigFeederNotFound)"

fun renderValue :: "'r rand_ops \<Rightarrow> 'v part \<Rightarrow> 'r ctx option \<Rightarrow> ('v val \<times> 'r ctx option) out" where
  "renderValue ops (LiteralP s) ctx = Inr (VStr s, ctx)"
| "renderValue ops (ValueP v) ctx = Inr (v, ctx)"
| "renderValue ops (VarP n) ctx =
     (case ctx of None \<Rightarrow> Inl undefinedVar
      | Some c \<Rightarrow> (case cx_vars c of None \<Rightarrow> Inl undefinedVar
        | Some vs \<Rightarrow> (case vs n of None \<Rightarrow> Inl undefinedVar | Some s \<Rightarrow> Inr (VStr s, ctx))))"
| "renderValue ops (FeederP f col) ctx =
     (case ctx of None \<Rightarrow> Inl missingFeeder
      | Some c \<Rightarrow> (case cx_rows c of None \<Rightarrow> Inl missingFeeder
        | Some rows \<Rightarrow> (case rows f of None \<Rightarrow> Inl missingFeeder
          | Some row \<Rightarrow> (case row col of
              None \<Rightarrow> Inl (Failed (new_error CodeConfigFeederNotFound))
            | Some s \<Rightarrow> Inr (VStr s, ctx)))))"
| "renderValue ops (GenP g) ctx = generate ops g ctx"

text \<open>The printers a value needs: a time in RFC 3339 and \<open>fmt.Sprint\<close>.\<close>

record 'v printers =
  fmt_time :: "int \<Rightarrow> string"
  sprint :: "'v val \<Rightarrow> string"

fun to_text :: "'v printers \<Rightarrow> 'v val \<Rightarrow> string" where
  "to_text pr (VStr s) = s"
| "to_text pr (VInt n) = itoa n"
| "to_text pr (VTime d) = fmt_time pr d"
| "to_text pr VNil = []"
| "to_text pr (VAny x) = sprint pr (VAny x)"

definition renderString ::
  "'r rand_ops \<Rightarrow> 'v printers \<Rightarrow> 'v part \<Rightarrow> 'r ctx option \<Rightarrow> (string \<times> 'r ctx option) out" where
  "renderString ops pr p ctx = rbind (renderValue ops p ctx) (\<lambda>(v, c). Inr (to_text pr v, c))"

fun render_parts ::
  "'r rand_ops \<Rightarrow> 'v printers \<Rightarrow> 'v part list \<Rightarrow> 'r ctx option \<Rightarrow> (string \<times> 'r ctx option) out" where
  "render_parts ops pr [] ctx = Inr ([], ctx)"
| "render_parts ops pr (p # ps) ctx =
     rbind (case p of LiteralP s \<Rightarrow> Inr (s, ctx) | _ \<Rightarrow> renderString ops pr p ctx)
       (\<lambda>(s, c). rbind (render_parts ops pr ps c) (\<lambda>(s', c'). Inr (s @ s', c')))"

definition Render ::
  "'r rand_ops \<Rightarrow> 'v printers \<Rightarrow> 'v template \<Rightarrow> 'r ctx option \<Rightarrow> (string \<times> 'r ctx option) out" where
  "Render ops pr t ctx =
     (if IsStatic t then Inr (t_source t, ctx) else render_parts ops pr (t_parts t) ctx)"

definition RenderValue ::
  "'r rand_ops \<Rightarrow> 'v printers \<Rightarrow> 'v template \<Rightarrow> 'r ctx option \<Rightarrow> ('v val \<times> 'r ctx option) out" where
  "RenderValue ops pr t ctx =
     (case t_solo t of
        None \<Rightarrow> rbind (Render ops pr t ctx) (\<lambda>(s, c). Inr (VStr s, c))
      | Some p \<Rightarrow> renderValue ops p ctx)"

section \<open>Compiled templates\<close>

fun gen_ok :: "gen \<Rightarrow> bool" where
  "gen_ok (RandInt lo hi) \<longleftrightarrow> lo \<le> hi \<and> in_int64 lo \<and> in_int64 hi"
| "gen_ok (RandString n) \<longleftrightarrow> 0 < n \<and> n \<le> maxRandStringLength"
| "gen_ok (PickOne ps) \<longleftrightarrow> 2 \<le> length ps \<and> [] \<notin> set ps"
| "gen_ok _ \<longleftrightarrow> True"

fun part_ok :: "'v part \<Rightarrow> bool" where
  "part_ok (LiteralP s) \<longleftrightarrow> s \<noteq> [] \<and> \<not> contains s ''{{''"
| "part_ok (VarP n) \<longleftrightarrow> isIdentifier n \<and> map_of knownFuncs n = None"
| "part_ok (FeederP f c) \<longleftrightarrow> f \<noteq> [] \<and> c \<noteq> []"
| "part_ok (GenP g) \<longleftrightarrow> gen_ok g"
| "part_ok (ValueP v) \<longleftrightarrow> False"

lemma compile_picks_ok: "compile_picks cs = Inr ps \<Longrightarrow> [] \<notin> set ps"
  by (induction cs arbitrary: ps) (auto simp: Let_def rbind_Inr split: if_splits)

lemma compileGenerator_ok: "compileGenerator name raw mn mx = Inr g \<Longrightarrow> gen_ok g"
  by (auto simp: compileGenerator_def Let_def rbind_Inr parse_int_range compile_picks_ok
      split: if_splits option.splits)

lemma compileToken_ok: "compileToken tok = Inr p \<Longrightarrow> part_ok p"
  by (auto simp: compileToken_def Let_def rbind_Inr compileGenerator_ok
      split: if_splits option.splits prod.splits)

text \<open>The text before the first token holds none.\<close>

lemma before_first: "index_of s sub = Some i \<Longrightarrow> sub \<noteq> [] \<Longrightarrow> \<not> contains (take i s) sub"
proof (induction s arbitrary: i)
  case (Cons c s)
  show ?case
  proof (cases "prefix sub (c # s)")
    case True
    then show ?thesis using Cons.prems by (auto simp: contains_Nil)
  next
    case False
    then obtain j where j: "index_of s sub = Some j" "i = Suc j" using Cons.prems by auto
    have "\<not> prefix sub (c # take j s)"
      using False prefix_order.trans[of sub "take (Suc j) (c # s)" "c # s"] take_is_prefix[of "Suc j" "c # s"] by auto
    then show ?thesis using Cons.IH[OF j(1) Cons.prems(2)] j(2) by (simp add: contains_Cons)
  qed
qed (simp add: contains_Nil split: if_splits)

lemma compile_parts_ok: "compile_parts s = Inr ps \<Longrightarrow> \<forall>p \<in> set ps. part_ok p"
proof (induction "length s" arbitrary: s ps rule: less_induct)
  case (less rest)
  show ?case
  proof (cases "index_of rest ''{{''")
    case None
    then show ?thesis using less.prems by (auto simp: compile_parts.simps[of rest] contains_def split: if_splits)
  next
    case (Some i)
    define after where "after = drop (i + 2) rest"
    obtain j p qs where j: "index_of after ''}}'' = Some j"
      "compileToken (trim_space (take j after)) = Inr p" "compile_parts (drop (j + 2) after) = Inr qs"
      "ps = (if 0 < i then [LiteralP (take i rest)] else []) @ p # qs"
      using less.prems Some by (auto simp: compile_parts.simps[of rest] after_def Let_def rbind_Inr split: option.splits)
    have "length (drop (j + 2) after) < length rest"
    proof -
      have "i + 2 \<le> length rest" using index_of_Some[OF Some] by simp
      then show ?thesis unfolding after_def length_drop by linarith
    qed
    then have "\<forall>q \<in> set qs. part_ok q" using less.hyps j(3) by blast
    moreover have "0 < i \<Longrightarrow> part_ok (LiteralP (take i rest))"
      using before_first[OF Some] index_of_Some[OF Some] by auto
    ultimately show ?thesis using compileToken_ok[OF j(2)] j(4) by auto
  qed
qed

lemma Compile_Inr:
  "Compile s = Inr t \<longleftrightarrow> (\<exists>ps. compile_parts s = Inr ps \<and>
     t = \<lparr>t_source = s, t_parts = ps, t_solo = (case ps of [LiteralP _] \<Rightarrow> None | [p] \<Rightarrow> Some p | _ \<Rightarrow> None)\<rparr>)"
  by (auto simp: Compile_def rbind_Inr)

lemma solo_parts:
  assumes "Compile s = Inr t"
  shows "t_solo t = Some p \<longleftrightarrow> t_parts t = [p] \<and> \<not> is_literal p"
proof -
  obtain ps where t: "t = \<lparr>t_source = s, t_parts = ps,
      t_solo = (case ps of [LiteralP _] \<Rightarrow> None | [p] \<Rightarrow> Some p | _ \<Rightarrow> None)\<rparr>"
    using assms by (auto simp: Compile_Inr)
  show ?thesis
  proof (cases ps rule: remdups_adj.cases)
    case (2 x)
    then show ?thesis using t by (cases x) auto
  next
    case (3 x y xs)
    then show ?thesis using t by (cases x) auto
  qed (use t in simp)
qed

lemma static_source:
  assumes "Compile s = Inr t" "IsStatic t"
  shows "\<not> contains s ''{{''"
proof
  assume "contains s ''{{''"
  then obtain i where i: "index_of s ''{{'' = Some i" by (auto simp: contains_def)
  obtain j p qs where "compileToken (trim_space (take j (drop (i + 2) s))) = Inr p" "p \<in> set (t_parts t)"
    using assms(1) i by (auto simp: Compile_Inr compile_parts.simps[of s] Let_def rbind_Inr split: option.splits)
  then show False using assms(2)
    by (cases p) (auto simp: IsStatic_def list_all_iff compileToken_def Let_def rbind_Inr
        split: if_splits option.splits prod.splits)
qed

section \<open>Rendering compiled templates\<close>

text \<open>What the documentation of \<open>rand.Rand\<close> promises of bounded draws.\<close>

definition rand_ok :: "'r rand_ops \<Rightarrow> bool" where
  "rand_ok ops \<longleftrightarrow> (\<forall>n r. 0 < n \<longrightarrow> 0 \<le> fst (Int64N ops n r) \<and> fst (Int64N ops n r) < n \<and>
     0 \<le> fst (IntN ops n r) \<and> fst (IntN ops n r) < n)"

lemma rand_okD:
  "rand_ok ops \<Longrightarrow> 0 < n \<Longrightarrow> Int64N ops n r = (x, r') \<Longrightarrow> 0 \<le> x \<and> x < n"
  "rand_ok ops \<Longrightarrow> 0 < n \<Longrightarrow> IntN ops n r = (x, r') \<Longrightarrow> 0 \<le> x \<and> x < n"
  unfolding rand_ok_def by (metis fst_conv)+

lemma wrap64_neg: "2 ^ 63 \<le> x \<Longrightarrow> x < 2 ^ 64 \<Longrightarrow> wrap64 x = x - 2 ^ 64"
proof -
  assume x: "2 ^ 63 \<le> x" "x < 2 ^ 64"
  have "x + 2 ^ 63 = x - 2 ^ 63 + 2 ^ 64" by simp
  then have "(x + 2 ^ 63) mod 2 ^ 64 = (x - 2 ^ 63 + 2 ^ 64) mod 2 ^ 64" by (simp only:)
  also have "\<dots> = (x - 2 ^ 63) mod 2 ^ 64" by (rule mod_add_self2)
  also have "\<dots> = x + 2 ^ 63 - 2 ^ 64" using x by simp
  finally show ?thesis by (simp add: wrap64_def)
qed

lemma rand_int_cases:
  assumes "lo \<le> hi" "in_int64 lo" "in_int64 hi"
  shows "rand_int ops lo hi r =
    (if hi = lo then Inr (lo, r)
     else if 2 ^ 63 - 1 \<le> hi - lo then Inl Panicked
     else case Int64N ops (hi - lo + 1) r of (x, r') \<Rightarrow> Inr (wrap64 (lo + x), r'))"
proof -
  have range: "0 \<le> hi - lo" "hi - lo < 2 ^ 64"
    using assms by (auto simp: in_int64_def min_int64_def max_int64_def)
  consider "hi - lo < 2 ^ 63 - 1" | "hi - lo = 2 ^ 63 - 1" | "2 ^ 63 \<le> hi - lo" by linarith
  then show ?thesis
  proof cases
    case 1
    then have "wrap64 (hi - lo) = hi - lo" "wrap64 (hi - lo + 1) = hi - lo + 1"
      using range by (auto intro: wrap64_id)
    then show ?thesis using 1 range by (auto simp: rand_int_def Let_def)
  next
    case 2
    then show ?thesis by (simp add: rand_int_def Let_def wrap64_def)
  next
    case 3
    then have "wrap64 (hi - lo) = hi - lo - 2 ^ 64" using range by (intro wrap64_neg)
    moreover have "wrap64 (hi - lo - 2 ^ 64 + 1) = hi - lo - 2 ^ 64 + 1"
      using 3 range by (intro wrap64_id) auto
    ultimately show ?thesis using 3 range by (simp add: rand_int_def Let_def)
  qed
qed

text \<open>Ranges that \<open>Int64N\<close> can serve.\<close>

fun narrow :: "'v part \<Rightarrow> bool" where
  "narrow (GenP (RandInt lo hi)) \<longleftrightarrow> hi - lo < 2 ^ 63 - 1"
| "narrow _ \<longleftrightarrow> True"

text \<open>A context that has what a part reads: the random source, the shared state, the variables
  and the rows.\<close>

fun reads_ok :: "'r ctx \<Rightarrow> 'v part \<Rightarrow> bool" where
  "reads_ok c (VarP n) \<longleftrightarrow> (case cx_vars c of None \<Rightarrow> False | Some vs \<Rightarrow> n \<in> dom vs)"
| "reads_ok c (FeederP f col) \<longleftrightarrow> (case cx_rows c of None \<Rightarrow> False
     | Some rows \<Rightarrow> (case rows f of None \<Rightarrow> False | Some row \<Rightarrow> col \<in> dom row))"
| "reads_ok c (GenP g) \<longleftrightarrow> cx_rand c \<noteq> None \<and> cx_shared c \<noteq> None"
| "reads_ok c _ \<longleftrightarrow> True"

lemma generate_total:
  assumes "gen_ok g" "narrow (GenP g)" "cx_rand c \<noteq> None" "cx_shared c \<noteq> None"
  shows "\<exists>v c'. generate ops g (Some c) = Inr (v, Some c') \<and> cx_vars c' = cx_vars c \<and>
    cx_rows c' = cx_rows c \<and> cx_rand c' \<noteq> None \<and> cx_shared c' \<noteq> None"
proof -
  obtain r sh where rs: "cx_rand c = Some r" "cx_shared c = Some sh" using assms(3,4) by auto
  show ?thesis
  proof (cases g)
    case (RandInt lo hi)
    then have "\<exists>x r'. rand_int ops lo hi r = Inr (x, r')"
      using assms(1,2) by (auto simp: rand_int_cases split: prod.splits)
    then obtain x r' where "rand_int ops lo hi r = Inr (x, r')" by blast
    then show ?thesis using rs RandInt by (simp add: generate_def)
  qed (use rs in \<open>auto simp: generate_def Let_def split: prod.splits\<close>)
qed

lemma renderValue_total:
  fixes p :: "'v part"
  assumes "part_ok p" "narrow p" "reads_ok c p"
  shows "\<exists>v c'. renderValue ops p (Some c) = Inr (v, Some c') \<and> (\<forall>q :: 'v part. reads_ok c q \<longrightarrow> reads_ok c' q)"
proof (cases p)
  case (GenP g)
  then have "\<exists>(v :: 'v val) c'. generate ops g (Some c) = Inr (v, Some c') \<and> cx_vars c' = cx_vars c \<and>
      cx_rows c' = cx_rows c \<and> cx_rand c' \<noteq> None \<and> cx_shared c' \<noteq> None"
    using assms by (intro generate_total) auto
  then obtain v :: "'v val" and c' where "generate ops g (Some c) = Inr (v, Some c')" "cx_vars c' = cx_vars c"
    "cx_rows c' = cx_rows c" "cx_rand c' \<noteq> None" "cx_shared c' \<noteq> None" by blast
  moreover from this have "reads_ok c q \<longrightarrow> reads_ok c' q" for q :: "'v part" by (cases q) auto
  ultimately show ?thesis using GenP by auto
qed (use assms in \<open>auto split: option.splits\<close>)

lemma render_parts_total:
  fixes ps :: "'v part list"
  shows "\<forall>p \<in> set ps. part_ok p \<and> narrow p \<and> reads_ok c p \<Longrightarrow>
   \<exists>txt c'. render_parts ops pr ps (Some c) = Inr (txt, Some c')"
proof (induction ps arbitrary: c)
  case (Cons p ps)
  obtain v c1 where one: "renderValue ops p (Some c) = Inr (v, Some c1)" "\<forall>q :: 'v part. reads_ok c q \<longrightarrow> reads_ok c1 q"
    using renderValue_total[of p c ops] Cons.prems by auto
  then have "(case p of LiteralP s \<Rightarrow> Inr (s, Some c) | _ \<Rightarrow> renderString ops pr p (Some c)) = Inr (to_text pr v, Some c1)"
    by (cases p) (auto simp: renderString_def)
  moreover have "\<exists>txt c'. render_parts ops pr ps (Some c1) = Inr (txt, Some c')"
    using Cons one(2) by auto
  ultimately show ?case by auto
qed simp

section \<open>Names and identifiers\<close>

lemma first_seen_set: "set (first_seen seen ns) = set ns - set seen"
  by (induction seen ns rule: first_seen.induct) auto

lemma first_seen_distinct: "distinct (first_seen seen ns)"
  by (induction seen ns rule: first_seen.induct) (auto simp: first_seen_set)

lemma namesOf_sorted: "namesOf sel t = sorted_list_of_set {n. \<exists>p \<in> set (t_parts t). sel p = Some n}"
proof -
  have "{n. \<exists>p \<in> set (t_parts t). sel p = Some n} = set (first_seen [] (List.map_filter sel (t_parts t)))"
    by (force simp: first_seen_set map_filter_def)
  then show ?thesis
    by (simp add: namesOf_def sorted_list_of_set_sort_remdups distinct_remdups_id first_seen_distinct)
qed

lemma var_of_iff: "var_of p = Some n \<longleftrightarrow> p = VarP n"
  by (cases p) auto

text \<open>The printed form of sixteen bytes.\<close>

definition hex_pair :: "8 word \<Rightarrow> string" where
  "hex_pair x = [hexDigits ! unat (drop_bit 4 x), hexDigits ! unat (x AND 0x0f)]"

lemma uuid_text_16:
  "uuid_text [b0, b1, b2, b3, b4, b5, b6, b7, b8, b9, b10, b11, b12, b13, b14, b15] =
   hex_pair b0 @ hex_pair b1 @ hex_pair b2 @ hex_pair b3 @ ''-'' @ hex_pair b4 @ hex_pair b5 @ ''-'' @
   hex_pair b6 @ hex_pair b7 @ ''-'' @ hex_pair b8 @ hex_pair b9 @ ''-'' @
   hex_pair b10 @ hex_pair b11 @ hex_pair b12 @ hex_pair b13 @ hex_pair b14 @ hex_pair b15"
  by (simp add: uuid_text_def hex_pair_def)

lemma version_nibble: "drop_bit 4 ((x AND 0x0f) OR 0x40 :: 8 word) = 4"
  by (rule bit_word_eqI) (auto simp: bit_simps)

lemma bits8: "(n :: nat) < 8 \<longleftrightarrow> n \<in> {0, 1, 2, 3, 4, 5, 6, 7}"
  by auto

lemma variant_nibble:
  "drop_bit 4 ((x AND 0x3f) OR 0x80 :: 8 word) = 8 OR take_bit 2 (drop_bit 4 x)"
  by (rule bit_word_eqI) (auto simp: bits8 bit_simps)

lemma two_bits: "take_bit 2 y = (0 :: 8 word) \<or> take_bit 2 y = 1 \<or> take_bit 2 y = 2 \<or> take_bit 2 y = 3"
proof -
  have "unat (take_bit 2 y) < 2 ^ 2" unfolding unsigned_take_bit_eq by (rule take_bit_nat_less_exp)
  then have "unat (take_bit 2 y) \<in> {0, 1, 2, 3}" by auto
  then show ?thesis by (auto simp: word_unat_eq_iff)
qed

lemma hex_length [simp]: "length hexDigits = 16"
  by (simp add: hexDigits_def)

lemma hex_pair_digits: "set (hex_pair x) \<subseteq> set hexDigits"
proof -
  have "unat x < 2 ^ 8" using unsigned_less[of x] by simp
  then have "drop_bit 4 (unat x) < 16" by (simp add: drop_bit_eq_div)
  then have "unat (drop_bit 4 x) < 16" by (simp only: unat_drop_bit_eq)
  moreover have "unat (x AND 0x0f) = take_bit 4 (unat x)"
    unfolding unsigned_and_eq by (simp add: take_bit_eq_mask mask_eq_exp_minus_1)
  then have "unat (x AND 0x0f) < 16" using take_bit_nat_less_exp[of 4 "unat x"] by simp
  ultimately show ?thesis by (simp add: hex_pair_def)
qed

lemma uuid_bytes_16:
  "\<exists>b0 b1 b2 b3 b4 b5 x6 b7 x8 b9 b10 b11 b12 b13 b14 b15.
     uuid_bytes hi lo = [b0, b1, b2, b3, b4, b5, (x6 AND 0x0f) OR 0x40, b7, (x8 AND 0x3f) OR 0x80,
       b9, b10, b11, b12, b13, b14, b15]"
  unfolding uuid_bytes_def Let_def by (simp add: upt_rec) (intro conjI exI, rule refl, rule refl)

definition uuid_shape :: "string \<Rightarrow> bool" where
  "uuid_shape s = (let gs = split_char (CHR ''-'') s in
     map length gs = [8, 4, 4, 4, 12] \<and> list_all (\<lambda>g. list_all (\<lambda>c. c \<in> set hexDigits) g) gs \<and>
     hd (gs ! 2) = CHR ''4'' \<and> hd (gs ! 3) \<in> set ''89ab'')"

lemma split_char_group: "sep \<notin> set g \<Longrightarrow> split_char sep (g @ sep # s) = g # split_char sep s"
  by (induction g) auto

lemma split_char_last: "sep \<notin> set g \<Longrightarrow> split_char sep g = [g]"
  by (induction g) auto

lemma no_dash: "set g \<subseteq> set hexDigits \<Longrightarrow> CHR ''-'' \<notin> set g"
  by (auto simp: hexDigits_def)

lemma hex_pair_length [simp]: "length (hex_pair x) = 2"
  by (simp add: hex_pair_def)

lemma version_digit: "\<exists>d \<in> set hexDigits. hex_pair ((x AND 0x0f) OR 0x40) = [CHR ''4'', d]"
  using hex_pair_digits[of "(x AND 0x0f) OR 0x40"]
  by (simp add: hex_pair_def version_nibble) (simp add: hexDigits_def)

lemma variant_digit:
  "\<exists>c \<in> set ''89ab''. \<exists>d \<in> set hexDigits. hex_pair ((x AND 0x3f) OR 0x80) = [c, d]"
proof -
  have "hexDigits ! unat (drop_bit 4 ((x AND 0x3f) OR 0x80)) \<in> set ''89ab''"
    unfolding variant_nibble using two_bits[of "drop_bit 4 x"] by (auto simp: hexDigits_def)
  then show ?thesis using hex_pair_digits[of "(x AND 0x3f) OR 0x80"] by (simp add: hex_pair_def)
qed

text \<open>A rendered UUID is a version 4 UUID of variant 10 for every draw: 36 characters, dashes in
  the four places, the version digit 4 and a variant digit of 8, 9, a or b.\<close>

theorem uuid_version_4: "uuid_shape (uuid_text (uuid_bytes hi lo))"
proof -
  obtain b0 b1 b2 b3 b4 b5 x6 b7 x8 b9 b10 b11 b12 b13 b14 b15 where bytes:
    "uuid_bytes hi lo = [b0, b1, b2, b3, b4, b5, (x6 AND 0x0f) OR 0x40, b7, (x8 AND 0x3f) OR 0x80,
       b9, b10, b11, b12, b13, b14, b15]"
    using uuid_bytes_16[of hi lo] by blast
  define g1 g2 g3 g4 g5 where "g1 = hex_pair b0 @ hex_pair b1 @ hex_pair b2 @ hex_pair b3"
    and "g2 = hex_pair b4 @ hex_pair b5" and "g3 = hex_pair ((x6 AND 0x0f) OR 0x40) @ hex_pair b7"
    and "g4 = hex_pair ((x8 AND 0x3f) OR 0x80) @ hex_pair b9"
    and "g5 = hex_pair b10 @ hex_pair b11 @ hex_pair b12 @ hex_pair b13 @ hex_pair b14 @ hex_pair b15"
  note gs = g1_def g2_def g3_def g4_def g5_def
  have hex: "set g1 \<subseteq> set hexDigits" "set g2 \<subseteq> set hexDigits" "set g3 \<subseteq> set hexDigits"
    "set g4 \<subseteq> set hexDigits" "set g5 \<subseteq> set hexDigits"
    unfolding gs using hex_pair_digits by auto
  have "uuid_text (uuid_bytes hi lo) = g1 @ ''-'' @ g2 @ ''-'' @ g3 @ ''-'' @ g4 @ ''-'' @ g5"
    by (simp add: bytes uuid_text_16 gs)
  then have "split_char (CHR ''-'') (uuid_text (uuid_bytes hi lo)) = [g1, g2, g3, g4, g5]"
    using hex by (simp add: split_char_group split_char_last no_dash)
  moreover have "hd g3 = CHR ''4''" using version_digit[of x6] by (auto simp: g3_def)
  moreover have "hd g4 \<in> set ''89ab''" using variant_digit[of x8] by (auto simp: g4_def)
  moreover have "map length [g1, g2, g3, g4, g5] = [8, 4, 4, 4, 12]" by (simp add: gs)
  ultimately show ?thesis using hex by (auto simp: uuid_shape_def list_all_iff)
qed

section \<open>Properties\<close>

text \<open>What compiles is renderable text and valid calls: no literal part holds an opening token,
  names are identifiers, feeder references have both halves and the arguments of every
  generator are in range.\<close>

theorem Compile_valid:
  "Compile s = Inr t \<Longrightarrow> list_all part_ok (t_parts t)"
  using compile_parts_ok by (force simp: Compile_Inr list_all_iff)

definition order_url :: string where
  "order_url = ''/orders/{{randInt 1 9}}?u={{user}}''"

lemma order_url_compiled:
  "Compile order_url = Inr \<lparr>t_source = order_url,
     t_parts = [LiteralP ''/orders/'', GenP (RandInt 1 9), LiteralP ''?u='', VarP ''user'' :: unit part],
     t_solo = None\<rparr>"
  by code_simp

theorem Compile_valid_witness:
  "list_all part_ok [LiteralP ''/orders/'', GenP (RandInt 1 9), LiteralP ''?u='', VarP ''user'' :: unit part]"
  using Compile_valid[OF order_url_compiled] by simp

text \<open>C32. A compiled template fails to render only for what its context lacks: with a random source
  and shared state for the generators, a value for every variable and a row for every
  feeder reference, and ranges a draw can serve, rendering gives a text.\<close>

theorem Render_total:
  assumes "Compile s = Inr t" "\<forall>p \<in> set (t_parts t). narrow p \<and> reads_ok c p"
  shows "\<exists>txt c'. Render ops pr t (Some c) = Inr (txt, Some c')"
proof (cases "IsStatic t")
  case False
  have "\<forall>p \<in> set (t_parts t). part_ok p \<and> narrow p \<and> reads_ok c p"
    using assms compile_parts_ok by (force simp: Compile_Inr)
  then show ?thesis using render_parts_total[of "t_parts t" c ops pr] False by (simp add: Render_def)
qed (simp add: Render_def)

definition order_ctx :: "unit ctx" where
  "order_ctx = \<lparr>cx_shared = Some \<lparr>sh_seq = 0, sh_now = 0\<rparr>, cx_rand = Some (),
     cx_vars = Some [''user'' \<mapsto> ''7''], cx_rows = None\<rparr>"

theorem Render_total_witness:
  "\<exists>txt c'. Render \<lparr>Int64N = \<lambda>n r. (n - 1, r), IntN = \<lambda>n r. (0, r), Uint64 = \<lambda>r. (0, r)\<rparr>
     \<lparr>fmt_time = \<lambda>_. [], sprint = \<lambda>_. []\<rparr>
     \<lparr>t_source = order_url,
      t_parts = [LiteralP ''/orders/'', GenP (RandInt 1 9), LiteralP ''?u='', VarP ''user'' :: unit part],
      t_solo = None\<rparr> (Some order_ctx) = Inr (txt, Some c')"
  by (rule Render_total[OF order_url_compiled]) (simp add: order_ctx_def)

text \<open>
  The last condition is needed. A range as wide as the 64-bit integers compiles, and its
  first draw panics.
\<close>

lemma wide_compiles:
  "compileToken ''randInt 0 9223372036854775807'' = Inr (GenP (RandInt 0 9223372036854775807) :: unit part)"
  by code_simp

lemma wide_panics: "rand_int ops 0 9223372036854775807 r = Inl Panicked"
  by (simp add: rand_int_cases in_int64_def min_int64_def max_int64_def)

text \<open>C39. A drawn integer lies in the inclusive range that was configured, whatever its sign and
  width; the only other outcome is a panic, for ranges of 2^63 - 1 and more.\<close>

theorem randInt_range:
  assumes "gen_ok (RandInt lo hi)" "rand_ok ops"
  shows "case rand_int ops lo hi r of
      Inr (x, r') \<Rightarrow> lo \<le> x \<and> x \<le> hi
    | Inl e \<Rightarrow> e = Panicked \<and> 2 ^ 63 - 1 \<le> hi - lo"
proof -
  have ok: "lo \<le> hi" "in_int64 lo" "in_int64 hi" using assms(1) by auto
  consider "hi = lo" | "2 ^ 63 - 1 \<le> hi - lo" | "lo < hi" "hi - lo < 2 ^ 63 - 1" using ok(1) by linarith
  then show ?thesis
  proof cases
    case 3
    obtain x r' where d: "Int64N ops (hi - lo + 1) r = (x, r')" by (cases "Int64N ops (hi - lo + 1) r")
    have "0 \<le> x" "x < hi - lo + 1" using rand_okD(1)[OF assms(2) _ d] 3 by auto
    moreover from this have "wrap64 (lo + x) = lo + x"
      using ok by (intro wrap64_id) (auto simp: in_int64_def min_int64_def max_int64_def)
    ultimately show ?thesis using 3 d by (simp add: rand_int_cases[OF ok])
  qed (unfold rand_int_cases[OF ok], auto)
qed

theorem randInt_range_witness:
  "fst (case rand_int \<lparr>Int64N = \<lambda>n r. (n - 1, r), IntN = \<lambda>n r. (0, r), Uint64 = \<lambda>r. (0, r)\<rparr> (- 5) 5 () of
     Inr y \<Rightarrow> y | Inl _ \<Rightarrow> (0, ())) \<le> 5"
proof -
  let ?ops = "\<lparr>Int64N = \<lambda>n (r :: unit). (n - 1, r), IntN = \<lambda>n r. (0, r), Uint64 = \<lambda>r. (0, r)\<rparr>"
  have "rand_ok ?ops" by (simp add: rand_ok_def)
  moreover have "gen_ok (RandInt (- 5) 5)" by (simp add: in_int64_def min_int64_def max_int64_def)
  ultimately show ?thesis using randInt_range[of "- 5" 5 ?ops "()"]
    by (cases "rand_int ?ops (- 5) 5 ()") auto
qed

lemma render_solo:
  "\<not> is_literal p \<Longrightarrow> render_parts ops pr [p] ctx = renderString ops pr p ctx"
  by (cases p; cases "renderString ops pr p ctx") auto

text \<open>The typed value and the text of a template agree: rendering to text is rendering the value
  and printing it, whether the template is one token or a mixture.\<close>

theorem RenderValue_agrees:
  assumes "Compile s = Inr t"
  shows "Render ops pr t ctx = rbind (RenderValue ops pr t ctx) (\<lambda>(v, c). Inr (to_text pr v, c))"
proof (cases "t_solo t")
  case None
  then show ?thesis
    by (cases "Render ops pr t ctx") (auto simp: RenderValue_def)
next
  case (Some p)
  then have p: "t_parts t = [p]" "\<not> is_literal p" using solo_parts[OF assms] by auto
  then show ?thesis using Some render_solo[OF p(2), of ops pr ctx]
    by (simp add: Render_def IsStatic_def RenderValue_def renderString_def)
qed

theorem RenderValue_agrees_witness:
  "Render \<lparr>Int64N = \<lambda>n r. (n - 1, r), IntN = \<lambda>n r. (0, r), Uint64 = \<lambda>r. (0, r)\<rparr>
     \<lparr>fmt_time = \<lambda>_. [], sprint = \<lambda>_. []\<rparr> \<lparr>t_source = ''{{user}}'', t_parts = [VarP ''user'' :: unit part], t_solo = Some (VarP ''user'')\<rparr>
     (Some order_ctx) = Inr (''7'', Some order_ctx)"
proof -
  have "Compile ''{{user}}'' = Inr \<lparr>t_source = ''{{user}}'', t_parts = [VarP ''user'' :: unit part],
      t_solo = Some (VarP ''user'')\<rparr>" by code_simp
  note agrees = RenderValue_agrees[OF this]
  show ?thesis by (simp add: agrees RenderValue_def order_ctx_def)
qed

end
