(* ===== verification/Outcome.thy ===== *)
theory Outcome
  imports Errs
begin

text \<open>
  One completed operation and how it ended, \<open>internal/metrics/outcome.go\<close>; the three latency
  views; the sketch a label's latencies are kept in, \<open>internal/metrics/sketch.go\<close>, whose
  library is a parameter; and the stamps of an iteration, \<open>internal/runner/runner.go\<close>.
\<close>

section \<open>Classes\<close>

datatype (plugins only: code) outcome_class =
    ClassOK | ClassTimeout | ClassConnection | ClassDNS | ClassTLS | ClassPoolTimeout
  | ClassHTTP4xx | ClassHTTP5xx | ClassExpectFailed | ClassExtractFailed | ClassQueryError
  | ClassCanceled | ClassOther

definition Classes :: "outcome_class list" where
  "Classes = [ClassOK, ClassTimeout, ClassConnection, ClassDNS, ClassTLS, ClassPoolTimeout,
     ClassHTTP4xx, ClassHTTP5xx, ClassExpectFailed, ClassExtractFailed, ClassQueryError,
     ClassCanceled, ClassOther]"

definition numClasses :: nat where
  "numClasses = 13"

fun class_index :: "outcome_class \<Rightarrow> nat" where
  "class_index ClassOK = 0"
| "class_index ClassTimeout = 1"
| "class_index ClassConnection = 2"
| "class_index ClassDNS = 3"
| "class_index ClassTLS = 4"
| "class_index ClassPoolTimeout = 5"
| "class_index ClassHTTP4xx = 6"
| "class_index ClassHTTP5xx = 7"
| "class_index ClassExpectFailed = 8"
| "class_index ClassExtractFailed = 9"
| "class_index ClassQueryError = 10"
| "class_index ClassCanceled = 11"
| "class_index ClassOther = 12"

definition classNames :: "string list" where
  "classNames = [''ok'', ''timeout'', ''connection'', ''dns'', ''tls'', ''pool_timeout'', ''http_4xx'',
     ''http_5xx'', ''expect_failed'', ''extract_failed'', ''query_error'', ''canceled'', ''other'']"

definition class_string :: "outcome_class \<Rightarrow> string" where
  "class_string c = classNames ! class_index c"

definition IsError :: "outcome_class \<Rightarrow> bool" where
  "IsError c \<longleftrightarrow> c \<noteq> ClassOK"

definition CountsTowardAbortGuard :: "outcome_class \<Rightarrow> bool" where
  "CountsTowardAbortGuard c \<longleftrightarrow>
     c = ClassTimeout \<or> c = ClassConnection \<or> c = ClassDNS \<or> c = ClassTLS \<or> c = ClassHTTP5xx"

lemma class_index_less [simp]: "class_index c < numClasses"
  by (cases c) (simp_all add: numClasses_def)

lemma Classes_nth: "Classes ! class_index c = c"
  by (cases c) (simp_all add: Classes_def)

lemma class_index_inj [simp]: "class_index c = class_index d \<longleftrightarrow> c = d"
  by (metis Classes_nth)

lemma length_Classes [simp]: "length Classes = numClasses" "length classNames = numClasses"
  by (simp_all add: Classes_def classNames_def numClasses_def)

lemma index_Classes: "i < numClasses \<Longrightarrow> class_index (Classes ! i) = i"
  by (auto simp: numClasses_def Classes_def nth_Cons split: nat.splits)

section \<open>Outcomes\<close>

record outcome =
  o_label :: int
  o_class :: outcome_class
  o_status :: int
  o_intended :: int
  o_dispatched :: int
  o_worker_start :: int
  o_conn_acquired :: int
  o_first_byte :: int
  o_end :: int
  o_bytes_in :: int
  o_bytes_out :: int

definition ResponseTime :: "outcome \<Rightarrow> int" where
  "ResponseTime o' = wrap64 (o_end o' - o_intended o')"

definition ServiceTime :: "outcome \<Rightarrow> int" where
  "ServiceTime o' = wrap64 (o_end o' - o_conn_acquired o')"

definition ClientWait :: "outcome \<Rightarrow> int" where
  "ClientWait o' = wrap64 (o_conn_acquired o' - o_intended o')"

definition DispatchLag :: "outcome \<Rightarrow> int" where
  "DispatchLag o' = wrap64 (o_dispatched o' - o_intended o')"

record iteration =
  it_index :: int
  it_worker :: int
  it_intended :: int
  it_dispatched :: int
  it_worker_start :: int

definition StampOutcome :: "iteration \<Rightarrow> outcome \<Rightarrow> outcome" where
  "StampOutcome it o' = o'\<lparr>o_intended := it_intended it, o_dispatched := it_dispatched it,
     o_worker_start := it_worker_start it\<rparr>"

text \<open>The three views: the response time is the wait plus the service, in the machine's integers.\<close>

lemma views_add: "ResponseTime o' = wrap64 (ClientWait o' + ServiceTime o')"
  by (simp add: ResponseTime_def ClientWait_def ServiceTime_def)

definition ms :: "int \<Rightarrow> real" where
  "ms d = real_of_int d / 10 ^ 6"

section \<open>Sketches\<close>

text \<open>
  The quantile sketch of \<open>sketches-go\<close>: an empty one, adding a value, merging, counting,
  reading a quantile and the binary form. \<open>None\<close> is a returned error.
\<close>

record 's sketch_ops =
  sk_empty :: 's
  sk_add :: "real \<Rightarrow> 's \<Rightarrow> 's option"
  sk_merge :: "'s \<Rightarrow> 's \<Rightarrow> 's option"
  sk_count :: "'s \<Rightarrow> real"
  sk_quantile :: "real \<Rightarrow> 's \<Rightarrow> real option"
  sk_encode :: "'s \<Rightarrow> string"
  sk_decode :: "string \<Rightarrow> 's option"

record quantiles =
  q_p50 :: real
  q_p90 :: real
  q_p95 :: real
  q_p99 :: real
  q_p999 :: real
  q_max :: real
  q_mean :: real

definition read_quantile :: "'s sketch_ops \<Rightarrow> 's \<Rightarrow> real \<Rightarrow> real" where
  "read_quantile ops s p = (case sk_quantile ops p s of
      None \<Rightarrow> 0 | Some v \<Rightarrow> if v < 0 then 0 else v)"

definition quantilesFrom :: "'s sketch_ops \<Rightarrow> 's \<Rightarrow> int \<Rightarrow> real \<Rightarrow> real \<Rightarrow> quantiles" where
  "quantilesFrom ops s cnt tot maxValue =
     (let q = \<lparr>q_p50 = 0, q_p90 = 0, q_p95 = 0, q_p99 = 0, q_p999 = 0, q_max = maxValue,
               q_mean = (if 0 < cnt then tot / real_of_int cnt else 0)\<rparr>
      in if sk_count ops s = 0 then q
         else let rd = read_quantile ops s
         in q\<lparr>q_p50 := rd 0.5, q_p90 := rd 0.9, q_p95 := rd 0.95, q_p99 := rd 0.99, q_p999 := rd 0.999\<rparr>)"

definition mergeSketch :: "'s sketch_ops \<Rightarrow> 's \<Rightarrow> 's \<Rightarrow> 's option" where
  "mergeSketch ops dst src = (if sk_count ops src = 0 then Some dst else sk_merge ops dst src)"

definition addPositive :: "'s sketch_ops \<Rightarrow> 's \<Rightarrow> real \<Rightarrow> 's \<times> bool" where
  "addPositive ops s v =
     (let v = (if v < 0 then 0 else v)
      in case sk_add ops v s of None \<Rightarrow> (s, False) | Some s' \<Rightarrow> (s', True))"

definition SketchEncoding :: string where
  "SketchEncoding = ''ddsketch-bin-base64''"

record encoded_sketch =
  es_encoding :: string
  es_accuracy :: real
  es_count :: real
  es_data :: string

definition EncodeSketch :: "'s sketch_ops \<Rightarrow> 's \<Rightarrow> real \<Rightarrow> encoded_sketch" where
  "EncodeSketch ops s accuracy = \<lparr>es_encoding = SketchEncoding, es_accuracy = accuracy,
     es_count = sk_count ops s, es_data = sk_encode ops s\<rparr>"

text \<open>\<open>DecodeSketch\<close>; the mapping it rebuilds belongs to the operations it decodes with.\<close>

definition DecodeSketch :: "(real \<Rightarrow> 's sketch_ops option) \<Rightarrow> encoded_sketch \<Rightarrow> 's result" where
  "DecodeSketch mapping e =
     (if es_encoding e \<noteq> SketchEncoding then Inl (new_error CodeResultParse)
      else case mapping (if es_accuracy e \<le> 0 then 1 / 100 else es_accuracy e) of
        None \<Rightarrow> Inl (new_error CodeResultParse)
      | Some ops \<Rightarrow> (case sk_decode ops (es_data e) of
          None \<Rightarrow> Inl (new_error CodeResultParse)
        | Some s \<Rightarrow> Inr s))"

end
