(* ===== verification/Collector.thy ===== *)
theory Collector
  imports Outcome
begin

text \<open>
  The collector of one runner, \<open>internal/metrics/collector.go\<close> and \<open>summary.go\<close>: the ring of
  open buckets, the whole-run accumulators, sealing, late outcomes and the snapshot. An
  operation of the collector is one step: the locks of the source make the bookings of one
  bucket atomic, and this model interleaves whole operations. Counters are unbounded
  integers, latencies reals.
\<close>

section \<open>State\<close>

definition MaxLabels :: nat where "MaxLabels = 50"
definition OverflowLabel :: string where "OverflowLabel = ''other''"
definition DefaultLabelTimelineBudget :: int where "DefaultLabelTimelineBudget = 20000"

datatype kind = KindApp | KindStorage | KindEmpty

record config =
  cf_runner :: string
  cf_kind :: kind
  cf_labels :: "string list"
  cf_width :: int
  cf_warmup :: int
  cf_seal_delay :: int
  cf_min_samples :: int
  cf_accuracy :: real
  cf_budget :: int
  cf_track :: bool

definition withDefaults :: "config \<Rightarrow> config" where
  "withDefaults c = c\<lparr>
     cf_accuracy := (if cf_accuracy c \<le> 0 then 1 / 100 else cf_accuracy c),
     cf_min_samples := (if cf_min_samples c \<le> 0 then 20 else cf_min_samples c),
     cf_budget := (if cf_budget c = 0 then DefaultLabelTimelineBudget else cf_budget c),
     cf_kind := (if cf_kind c = KindEmpty then KindApp else cf_kind c)\<rparr>"

definition validate :: "config \<Rightarrow> coded_error option" where
  "validate c =
     (if cf_runner c = [] then Some (new_error CodeInternal)
      else if cf_width c \<le> 0 then Some (error_at CodeConfigInvalidValue ''/run/bucket'')
      else if cf_warmup c < 0 then Some (error_at CodeConfigInvalidValue ''/run/warmup'')
      else if cf_seal_delay c < 0 then Some (error_at CodeConfigInvalidValue ''/run/timeout'')
      else None)"

record 's accum =
  ac_n :: int
  ac_errs :: "int list"
  ac_bytes_in :: int
  ac_bytes_out :: int
  ac_response :: 's
  ac_service :: 's
  ac_wait :: 's
  ac_sum_resp :: real
  ac_sum_svc :: real
  ac_sum_wait :: real
  ac_max_resp :: real
  ac_max_svc :: real
  ac_max_wait :: real
  ac_rejected :: int

definition newAccum :: "'s sketch_ops \<Rightarrow> 's accum" where
  "newAccum ops = \<lparr>ac_n = 0, ac_errs = replicate numClasses 0, ac_bytes_in = 0, ac_bytes_out = 0,
     ac_response = sk_empty ops, ac_service = sk_empty ops, ac_wait = sk_empty ops,
     ac_sum_resp = 0, ac_sum_svc = 0, ac_sum_wait = 0, ac_max_resp = 0, ac_max_svc = 0, ac_max_wait = 0,
     ac_rejected = 0\<rparr>"

definition maxOf :: "real \<Rightarrow> real \<Rightarrow> real" where
  "maxOf a b = (if a < b then b else a)"

definition accum_add :: "'s sketch_ops \<Rightarrow> outcome \<Rightarrow> 's accum \<Rightarrow> 's accum" where
  "accum_add ops o' a =
     (let resp = ms (ResponseTime o'); svc = ms (ServiceTime o'); wait = ms (ClientWait o');
          k = class_index (o_class o');
          (r, ok1) = addPositive ops (ac_response a) resp;
          (s, ok2) = addPositive ops (ac_service a) svc;
          (w, ok3) = addPositive ops (ac_wait a) wait
      in \<lparr>ac_n = ac_n a + 1, ac_errs = (ac_errs a)[k := ac_errs a ! k + 1],
          ac_bytes_in = ac_bytes_in a + o_bytes_in o', ac_bytes_out = ac_bytes_out a + o_bytes_out o',
          ac_response = r, ac_service = s, ac_wait = w,
          ac_sum_resp = ac_sum_resp a + resp, ac_sum_svc = ac_sum_svc a + svc,
          ac_sum_wait = ac_sum_wait a + wait,
          ac_max_resp = maxOf (ac_max_resp a) resp, ac_max_svc = maxOf (ac_max_svc a) svc,
          ac_max_wait = maxOf (ac_max_wait a) wait,
          ac_rejected = (if ok1 \<and> ok2 \<and> ok3 then ac_rejected a else ac_rejected a + 1)\<rparr>)"

text \<open>
  \<open>mergeInto\<close>, with the number of failures it reports (0 or 1): the counters are folded in
  before a sketch can fail, and a sketch that fails to merge stays as it was.
\<close>

definition keep :: "'s option \<Rightarrow> 's \<Rightarrow> 's" where
  "keep r s = (case r of None \<Rightarrow> s | Some s' \<Rightarrow> s')"

definition mergeInto :: "'s sketch_ops \<Rightarrow> 's accum \<Rightarrow> 's accum \<Rightarrow> 's accum \<times> int" where
  "mergeInto ops src dst =
     (if 0 < ac_n src then
        let r = mergeSketch ops (ac_response dst) (ac_response src);
            s = mergeSketch ops (ac_service dst) (ac_service src);
            w = mergeSketch ops (ac_wait dst) (ac_wait src)
        in (\<lparr>ac_n = ac_n dst + ac_n src, ac_errs = map2 (+) (ac_errs dst) (ac_errs src),
             ac_bytes_in = ac_bytes_in dst + ac_bytes_in src,
             ac_bytes_out = ac_bytes_out dst + ac_bytes_out src,
             ac_response = keep r (ac_response dst), ac_service = keep s (ac_service dst),
             ac_wait = keep w (ac_wait dst),
             ac_sum_resp = ac_sum_resp dst + ac_sum_resp src, ac_sum_svc = ac_sum_svc dst + ac_sum_svc src,
             ac_sum_wait = ac_sum_wait dst + ac_sum_wait src,
             ac_max_resp = maxOf (ac_max_resp dst) (ac_max_resp src),
             ac_max_svc = maxOf (ac_max_svc dst) (ac_max_svc src),
             ac_max_wait = maxOf (ac_max_wait dst) (ac_max_wait src),
             ac_rejected = ac_rejected dst + ac_rejected src\<rparr>,
            if r = None \<or> s = None \<or> w = None then 1 else 0)
      else (dst, 0))"

text \<open>\<open>reset\<close>: the cleared sketch is the empty one.\<close>

definition accum_reset :: "'s sketch_ops \<Rightarrow> 's accum \<Rightarrow> 's accum" where
  "accum_reset ops a = newAccum ops"

record op_summary =
  os_n :: int
  os_ok :: int
  os_errors_total :: int
  os_error_ratio :: real
  os_errors :: "(string \<times> int) list"
  os_response :: quantiles
  os_service :: quantiles
  os_wait :: quantiles
  os_rps :: real
  os_bytes_in :: int
  os_bytes_out :: int

text \<open>The error map: the classes other than ok with a positive count, by name.\<close>

definition error_map :: "int list \<Rightarrow> (string \<times> int) list" where
  "error_map es = [(class_string c, es ! class_index c). c \<leftarrow> Classes, 0 < es ! class_index c, c \<noteq> ClassOK]"

definition dur_secs :: "int \<Rightarrow> real" where
  "dur_secs d = real_of_int d / 10 ^ 9"

definition accum_summary :: "'s sketch_ops \<Rightarrow> int \<Rightarrow> 's accum \<Rightarrow> op_summary" where
  "accum_summary ops window a =
     (let n = ac_n a; ok = ac_errs a ! class_index ClassOK; et = n - ok
      in \<lparr>os_n = n, os_ok = ok, os_errors_total = et,
          os_error_ratio = (if 0 < n then real_of_int et / real_of_int n else 0),
          os_errors = error_map (ac_errs a),
          os_response = quantilesFrom ops (ac_response a) n (ac_sum_resp a) (ac_max_resp a),
          os_service = quantilesFrom ops (ac_service a) n (ac_sum_svc a) (ac_max_svc a),
          os_wait = quantilesFrom ops (ac_wait a) n (ac_sum_wait a) (ac_max_wait a),
          os_rps = (if 0 < window then real_of_int n / dur_secs window else 0),
          os_bytes_in = ac_bytes_in a, os_bytes_out = ac_bytes_out a\<rparr>)"

record bucket_summary =
  bs_index :: int
  bs_offset_ms :: real
  bs_n :: int
  bs_insufficient :: bool
  bs_warmup :: bool
  bs_response :: quantiles
  bs_service :: quantiles
  bs_wait :: quantiles
  bs_errors :: "(string \<times> int) list"
  bs_errors_total :: int
  bs_rps :: real
  bs_offered :: int
  bs_dropped :: int
  bs_in_flight_max :: int
  bs_bytes_in :: int

record 's slot =
  sl_index :: int
  sl_labels :: "'s accum list"
  sl_offered :: int
  sl_dropped :: int
  sl_in_flight :: int

record 's collector =
  co_cfg :: config
  co_names :: "string list"
  co_ids :: "string \<rightharpoonup> nat"
  co_overflow :: nat
  co_overflowed :: bool
  co_warmup :: int
  co_ring :: "'s slot list"
  co_statuses :: "nat \<Rightarrow> int"
  co_statuses_other :: int
  co_late :: int
  co_merge_failures :: int
  co_min :: int
  co_max :: int
  co_seen :: bool
  co_sealed :: int
  co_whole :: "'s accum"
  co_whole_labels :: "'s accum list"
  co_buckets :: "int \<rightharpoonup> bucket_summary"
  co_label_buckets :: "nat \<rightharpoonup> bucket_summary list"
  co_entries :: int
  co_dropped :: bool

section \<open>Construction\<close>

text \<open>The loop over the configured labels: at most \<open>MaxLabels\<close> names, each once.\<close>

fun collect_labels :: "string list \<Rightarrow> string list \<times> bool \<Rightarrow> string list \<times> bool" where
  "collect_labels [] acc = acc"
| "collect_labels (name # rest) (names, over) =
     (if MaxLabels \<le> length names then (names, True)
      else if name \<in> set names then collect_labels rest (names, over)
      else collect_labels rest (names @ [name], over))"

definition index_names :: "string list \<Rightarrow> string \<rightharpoonup> nat" where
  "index_names names = map_of (zip names [0..<length names])"

definition new_slot :: "'s sketch_ops \<Rightarrow> nat \<Rightarrow> 's slot" where
  "new_slot ops k = \<lparr>sl_index = -1, sl_labels = replicate k (newAccum ops), sl_offered = 0,
     sl_dropped = 0, sl_in_flight = 0\<rparr>"

definition ring_size :: "config \<Rightarrow> nat" where
  "ring_size cfg = (let open' = cf_seal_delay cfg div cf_width cfg + 2
     in nat (if open' + 2 < 4 then 4 else open' + 2))"

definition NewCollector :: "'s sketch_ops \<Rightarrow> config \<Rightarrow> 's collector result" where
  "NewCollector ops cfg0 =
     (let cfg = withDefaults cfg0
      in case validate cfg of
           Some e \<Rightarrow> Inl e
         | None \<Rightarrow>
             let (names, over) = collect_labels (cf_labels cfg) ([], False);
                 names' = names @ [OverflowLabel]
             in Inr \<lparr>co_cfg = cfg, co_names = names',
                     co_ids = (index_names names)(OverflowLabel \<mapsto> length names),
                     co_overflow = length names, co_overflowed = over,
                     co_warmup = (if 0 < cf_warmup cfg
                                  then (cf_warmup cfg + cf_width cfg - 1) div cf_width cfg else 0),
                     co_ring = replicate (ring_size cfg) (new_slot ops (length names')),
                     co_statuses = (\<lambda>_. 0), co_statuses_other = 0, co_late = 0, co_merge_failures = 0,
                     co_min = 0, co_max = 0, co_seen = False, co_sealed = -1,
                     co_whole = newAccum ops,
                     co_whole_labels = replicate (length names') (newAccum ops),
                     co_buckets = Map.empty, co_label_buckets = Map.empty, co_entries = 0,
                     co_dropped = False\<rparr>)"

definition LabelID :: "string \<Rightarrow> 's collector \<Rightarrow> nat \<times> 's collector" where
  "LabelID name c = (case co_ids c name of
      Some i \<Rightarrow> (i, c) | None \<Rightarrow> (co_overflow c, c\<lparr>co_overflowed := True\<rparr>))"

definition collector_Labels :: "'s collector \<Rightarrow> string list" where
  "collector_Labels c =
     (let out = co_names c
      in if \<not> co_overflowed c \<and> out \<noteq> [] \<and> last out = OverflowLabel then butlast out else out)"

section \<open>Sealing\<close>

definition BucketIndexOf :: "'s collector \<Rightarrow> int \<Rightarrow> int" where
  "BucketIndexOf c off = (if off < 0 then 0 else off div cf_width (co_cfg c))"

definition ring_pos :: "'s collector \<Rightarrow> int \<Rightarrow> nat" where
  "ring_pos c idx = nat (idx mod int (length (co_ring c)))"

definition sealDeadline :: "'s collector \<Rightarrow> int \<Rightarrow> int" where
  "sealDeadline c idx = (idx + 1) * cf_width (co_cfg c) + cf_seal_delay (co_cfg c)"

definition offset_ms :: "'s collector \<Rightarrow> int \<Rightarrow> real" where
  "offset_ms c idx = real_of_int (go_div (idx * cf_width (co_cfg c)) 1000000)"

definition bucket_rps :: "'s collector \<Rightarrow> int \<Rightarrow> real" where
  "bucket_rps c n = (let secs = dur_secs (cf_width (co_cfg c)) in if 0 < secs then real_of_int n / secs else 0)"

text \<open>The summary of an accumulator that covers bucket \<open>idx\<close>.\<close>

definition bucket_of :: "'s sketch_ops \<Rightarrow> 's collector \<Rightarrow> int \<Rightarrow> bool \<Rightarrow> 's accum \<Rightarrow> bucket_summary" where
  "bucket_of ops c idx warmup a =
     \<lparr>bs_index = idx, bs_offset_ms = offset_ms c idx, bs_n = ac_n a,
      bs_insufficient = (ac_n a < cf_min_samples (co_cfg c)), bs_warmup = warmup,
      bs_response = quantilesFrom ops (ac_response a) (ac_n a) (ac_sum_resp a) (ac_max_resp a),
      bs_service = quantilesFrom ops (ac_service a) (ac_n a) (ac_sum_svc a) (ac_max_svc a),
      bs_wait = quantilesFrom ops (ac_wait a) (ac_n a) (ac_sum_wait a) (ac_max_wait a),
      bs_errors = error_map (ac_errs a), bs_errors_total = ac_n a - ac_errs a ! class_index ClassOK,
      bs_rps = bucket_rps c (ac_n a), bs_offered = 0, bs_dropped = 0, bs_in_flight_max = 0,
      bs_bytes_in = ac_bytes_in a\<rparr>"

definition recordLabelBucket ::
  "'s sketch_ops \<Rightarrow> nat \<Rightarrow> int \<Rightarrow> 's accum \<Rightarrow> bool \<Rightarrow> 's collector \<Rightarrow> 's collector" where
  "recordLabelBucket ops lid idx a warmup c =
     (if co_dropped c then c
      else if cf_budget (co_cfg c) \<le> co_entries c
        then c\<lparr>co_dropped := True, co_label_buckets := Map.empty\<rparr>
      else let old = (case co_label_buckets c lid of None \<Rightarrow> [] | Some bs \<Rightarrow> bs)
           in c\<lparr>co_entries := co_entries c + 1,
                co_label_buckets := (co_label_buckets c)(lid \<mapsto> old @ [bucket_of ops c idx warmup a])\<rparr>)"

definition merge_label :: "'s sketch_ops \<Rightarrow> nat \<Rightarrow> 's accum \<Rightarrow> 's collector \<Rightarrow> 's collector" where
  "merge_label ops lid a c = (case mergeInto ops a (co_whole_labels c ! lid) of (d, f) \<Rightarrow>
     c\<lparr>co_whole_labels := (co_whole_labels c)[lid := d], co_merge_failures := co_merge_failures c + f\<rparr>)"

definition merge_whole :: "'s sketch_ops \<Rightarrow> 's accum \<Rightarrow> 's collector \<Rightarrow> 's collector" where
  "merge_whole ops a c = (case mergeInto ops a (co_whole c) of (d, f) \<Rightarrow>
     c\<lparr>co_whole := d, co_merge_failures := co_merge_failures c + f\<rparr>)"

text \<open>The loop of \<open>sealSlotLocked\<close> over the labels: the collector and the runner's roll-up.\<close>

fun seal_labels ::
  "'s sketch_ops \<Rightarrow> int \<Rightarrow> bool \<Rightarrow> nat \<Rightarrow> 's accum list \<Rightarrow> 's collector \<times> 's accum \<Rightarrow> 's collector \<times> 's accum" where
  "seal_labels ops idx warmup lid [] acc = acc"
| "seal_labels ops idx warmup lid (a # as) (c, roll) =
     (if ac_n a = 0 then seal_labels ops idx warmup (lid + 1) as (c, roll)
      else let c = recordLabelBucket ops lid idx a warmup c;
               (roll', f) = mergeInto ops a roll;
               c = c\<lparr>co_merge_failures := co_merge_failures c + f\<rparr>;
               c = (if warmup then c else merge_label ops lid a c)
           in seal_labels ops idx warmup (lid + 1) as (c, roll'))"

definition reset_slot :: "'s sketch_ops \<Rightarrow> 's slot \<Rightarrow> 's slot" where
  "reset_slot ops s = s\<lparr>sl_index := -1,
     sl_labels := map (\<lambda>a. if ac_n a = 0 then a else accum_reset ops a) (sl_labels s),
     sl_offered := 0, sl_dropped := 0, sl_in_flight := 0\<rparr>"

definition sealSlot :: "'s sketch_ops \<Rightarrow> nat \<Rightarrow> 's collector \<Rightarrow> 's collector" where
  "sealSlot ops pos c =
     (let s = co_ring c ! pos; idx = sl_index s; warmup = idx < co_warmup c;
          (c1, roll) = seal_labels ops idx warmup 0 (sl_labels s) (c, newAccum ops);
          summary = (bucket_of ops c idx warmup roll)\<lparr>bs_offered := sl_offered s,
            bs_dropped := sl_dropped s, bs_in_flight_max := sl_in_flight s\<rparr>;
          c2 = (if warmup then c1 else merge_whole ops roll c1)
      in c2\<lparr>co_buckets := (co_buckets c2)(idx \<mapsto> summary),
            co_ring := (co_ring c2)[pos := reset_slot ops s],
            co_sealed := (if idx \<le> co_sealed c2 then co_sealed c2 else idx)\<rparr>)"

section \<open>Recording\<close>

definition noteBucket :: "int \<Rightarrow> 's collector \<Rightarrow> 's collector" where
  "noteBucket idx c =
     (if \<not> co_seen c then c\<lparr>co_seen := True, co_min := idx, co_max := idx\<rparr>
      else c\<lparr>co_min := (if co_min c \<le> idx then co_min c else idx),
             co_max := (if idx \<le> co_max c then co_max c else idx)\<rparr>)"

definition recordLate :: "'s sketch_ops \<Rightarrow> nat \<Rightarrow> outcome \<Rightarrow> int \<Rightarrow> 's collector \<Rightarrow> 's collector" where
  "recordLate ops label o' idx c =
     (let c = c\<lparr>co_late := co_late c + 1\<rparr>
      in if idx < co_warmup c then c
         else c\<lparr>co_whole_labels := (co_whole_labels c)[label := accum_add ops o' (co_whole_labels c ! label)],
                co_whole := accum_add ops o' (co_whole c)\<rparr>)"

text \<open>
  Claiming the ring slot of a bucket: \<open>None\<close> when it holds a newer one, otherwise the
  collector in which the slot holds the bucket, an older occupant sealed first.
\<close>

definition claim :: "'s sketch_ops \<Rightarrow> int \<Rightarrow> 's collector \<Rightarrow> 's collector option" where
  "claim ops idx c =
     (let pos = ring_pos c idx; s = co_ring c ! pos
      in if sl_index s = idx then Some c
         else if sl_index s < 0 \<or> sl_index s < idx then
           (let c1 = (if 0 \<le> sl_index s then sealSlot ops pos c else c)
            in Some (c1\<lparr>co_ring := (co_ring c1)[pos := (co_ring c1 ! pos)\<lparr>sl_index := idx\<rparr>]\<rparr>))
         else None)"

definition on_slot :: "nat \<Rightarrow> ('s slot \<Rightarrow> 's slot) \<Rightarrow> 's collector \<Rightarrow> 's collector" where
  "on_slot pos f c = c\<lparr>co_ring := (co_ring c)[pos := f (co_ring c ! pos)]\<rparr>"

definition slot_add :: "'s sketch_ops \<Rightarrow> nat \<Rightarrow> outcome \<Rightarrow> 's slot \<Rightarrow> 's slot" where
  "slot_add ops label o' s = s\<lparr>sl_labels := (sl_labels s)[label := accum_add ops o' (sl_labels s ! label)]\<rparr>"

definition count_status :: "int \<Rightarrow> 's collector \<Rightarrow> 's collector" where
  "count_status st c =
     (if cf_track (co_cfg c) \<and> st \<noteq> 0 then
        (if 0 < st \<and> st < 600 then c\<lparr>co_statuses := (co_statuses c)(nat st := co_statuses c (nat st) + 1)\<rparr>
         else c\<lparr>co_statuses_other := co_statuses_other c + 1\<rparr>)
      else c)"

definition label_of :: "'s collector \<Rightarrow> outcome \<Rightarrow> nat" where
  "label_of c o' = (if o_label o' < 0 \<or> int (length (co_names c)) \<le> o_label o' then co_overflow c
                    else nat (o_label o'))"

definition Record :: "'s sketch_ops \<Rightarrow> outcome \<Rightarrow> 's collector \<Rightarrow> 's collector" where
  "Record ops o' c =
     (let label = label_of c o'; c = count_status (o_status o') c; idx = BucketIndexOf c (o_intended o')
      in if idx \<le> co_sealed c then recordLate ops label o' idx (noteBucket idx c)
         else let c = noteBucket idx c
         in case claim ops idx c of
              None \<Rightarrow> recordLate ops label o' idx c
            | Some c1 \<Rightarrow> on_slot (ring_pos c idx) (slot_add ops label o') c1)"

definition counterSlot :: "'s sketch_ops \<Rightarrow> int \<Rightarrow> ('s slot \<Rightarrow> 's slot) \<Rightarrow> 's collector \<Rightarrow> 's collector" where
  "counterSlot ops idx f c =
     (let c = noteBucket idx c
      in if idx \<le> co_sealed c then c
         else case claim ops idx c of
                None \<Rightarrow> c
              | Some c1 \<Rightarrow> on_slot (ring_pos c idx) f c1)"

definition RecordOffered :: "'s sketch_ops \<Rightarrow> int \<Rightarrow> 's collector \<Rightarrow> 's collector" where
  "RecordOffered ops idx = counterSlot ops idx (\<lambda>s. s\<lparr>sl_offered := sl_offered s + 1\<rparr>)"

definition RecordDropped :: "'s sketch_ops \<Rightarrow> int \<Rightarrow> 's collector \<Rightarrow> 's collector" where
  "RecordDropped ops idx = counterSlot ops idx (\<lambda>s. s\<lparr>sl_dropped := sl_dropped s + 1\<rparr>)"

definition ObserveInFlight :: "'s sketch_ops \<Rightarrow> int \<Rightarrow> int \<Rightarrow> 's collector \<Rightarrow> 's collector" where
  "ObserveInFlight ops idx n = counterSlot ops idx
     (\<lambda>s. s\<lparr>sl_in_flight := (if n \<le> sl_in_flight s then sl_in_flight s else n)\<rparr>)"

definition seal_due :: "'s sketch_ops \<Rightarrow> int \<Rightarrow> nat \<Rightarrow> 's collector \<Rightarrow> 's collector" where
  "seal_due ops now pos c =
     (let idx = sl_index (co_ring c ! pos)
      in if idx < 0 then c else if now < sealDeadline c idx then c else sealSlot ops pos c)"

definition SealThrough :: "'s sketch_ops \<Rightarrow> int \<Rightarrow> 's collector \<Rightarrow> 's collector" where
  "SealThrough ops now c = fold (seal_due ops now) [0..<length (co_ring c)] c"

definition seal_open :: "'s sketch_ops \<Rightarrow> nat \<Rightarrow> 's collector \<Rightarrow> 's collector" where
  "seal_open ops pos c = (if 0 \<le> sl_index (co_ring c ! pos) then sealSlot ops pos c else c)"

definition Finish :: "'s sketch_ops \<Rightarrow> 's collector \<Rightarrow> 's collector" where
  "Finish ops c = fold (seal_open ops) [0..<length (co_ring c)] c"

definition OpenBuckets :: "'s collector \<Rightarrow> nat" where
  "OpenBuckets c = length (filter (\<lambda>s. 0 \<le> sl_index s) (co_ring c))"

section \<open>The snapshot\<close>

definition measuredWindow :: "'s collector \<Rightarrow> int" where
  "measuredWindow c =
     (if \<not> co_seen c then 0
      else if co_max c + 1 < co_warmup c then 0
      else (co_max c + 1 - co_warmup c) * cf_width (co_cfg c))"

text \<open>A bucket of the timeline that saw nothing.\<close>

definition empty_bucket :: "'s collector \<Rightarrow> int \<Rightarrow> bucket_summary" where
  "empty_bucket c i = (let q = \<lparr>q_p50 = 0, q_p90 = 0, q_p95 = 0, q_p99 = 0, q_p999 = 0, q_max = 0, q_mean = 0\<rparr>
     in \<lparr>bs_index = i, bs_offset_ms = offset_ms c i, bs_n = 0, bs_insufficient = True,
         bs_warmup = (i < co_warmup c), bs_response = q, bs_service = q, bs_wait = q, bs_errors = [],
         bs_errors_total = 0, bs_rps = 0, bs_offered = 0, bs_dropped = 0, bs_in_flight_max = 0,
         bs_bytes_in = 0\<rparr>)"

definition sortedBucketIndexes :: "(int \<rightharpoonup> bucket_summary) \<Rightarrow> int list" where
  "sortedBucketIndexes m = sorted_list_of_set (dom m)"

definition timeline :: "'s collector \<Rightarrow> bucket_summary list" where
  "timeline c = (let ixs = sortedBucketIndexes (co_buckets c)
     in if ixs = [] then []
        else map (\<lambda>i. case co_buckets c i of Some b \<Rightarrow> b | None \<Rightarrow> empty_bucket c i) [hd ixs..last ixs])"

definition status_histogram :: "'s collector \<Rightarrow> (string \<times> int) list" where
  "status_histogram c =
     [(itoa (int k), co_statuses c k). k \<leftarrow> [0..<600], 0 < co_statuses c k] @
     (if 0 < co_statuses_other c then [(''other'', co_statuses_other c)] else [])"

record snapshot =
  sn_runner :: string
  sn_kind :: kind
  sn_labels :: "string list"
  sn_summary :: op_summary
  sn_label_summaries :: "(string \<times> op_summary) list"
  sn_buckets :: "bucket_summary list"
  sn_label_buckets :: "(string \<times> bucket_summary list) list"
  sn_sketches :: "(string \<times> encoded_sketch) list"
  sn_statuses :: "(string \<times> int) list"
  sn_late :: int
  sn_overflow :: bool
  sn_timeline_dropped :: bool
  sn_rejected :: int
  sn_merge_failures :: int
  sn_window :: int

definition Snapshot :: "'s sketch_ops \<Rightarrow> 's collector \<Rightarrow> snapshot" where
  "Snapshot ops c =
     (let window = measuredWindow c; acc = cf_accuracy (co_cfg c);
          ids = filter (\<lambda>i. ac_n (co_whole_labels c ! i) \<noteq> 0) [0..<length (co_whole_labels c)]
      in \<lparr>sn_runner = cf_runner (co_cfg c), sn_kind = cf_kind (co_cfg c), sn_labels = collector_Labels c,
          sn_summary = accum_summary ops window (co_whole c),
          sn_label_summaries = map (\<lambda>i. (co_names c ! i, accum_summary ops window (co_whole_labels c ! i))) ids,
          sn_buckets = timeline c,
          sn_label_buckets = [(co_names c ! i, sort_key bs_index bs). i \<leftarrow> [0..<length (co_names c)],
            bs \<leftarrow> (case co_label_buckets c i of None \<Rightarrow> [] | Some bs \<Rightarrow> [bs])],
          sn_sketches = map (\<lambda>i. (co_names c ! i, EncodeSketch ops (ac_response (co_whole_labels c ! i)) acc)) ids
            @ [(''__runner__'', EncodeSketch ops (ac_response (co_whole c)) acc)],
          sn_statuses = (if cf_track (co_cfg c) then status_histogram c else []),
          sn_late = co_late c, sn_overflow = co_overflowed c, sn_timeline_dropped = co_dropped c,
          sn_rejected = ac_rejected (co_whole c), sn_merge_failures = co_merge_failures c,
          sn_window = window\<rparr>)"

end
