(* ===== verification/Guard.thy ===== *)
theory Guard
  imports Collector
begin

text \<open>
  The abort guard of the engine, \<open>internal/engine/guard.go\<close>: a ring of short periods that
  counts outcomes and failures, and a recorder that feeds it. The ring is related to the
  plain list of everything observed: the guard fires exactly when the outcomes of the window
  say so. Ratios are reals; the message of a guard that fired is left out, its figures kept.
\<close>

section \<open>State and operations\<close>

definition DefaultAbortRatio :: real where "DefaultAbortRatio = 1 / 2"
definition DefaultAbortWindow :: int where "DefaultAbortWindow = 10000000000"
definition guardResolution :: int where "guardResolution = 250000000"
definition minSamples :: int where "minSamples = 20"

record guard_slot =
  gs_at :: int
  gs_total :: int
  gs_failed :: int

record guard =
  gd_enabled :: bool
  gd_ratio :: real
  gd_window :: int
  gd_slots :: "guard_slot list"
  gd_tripped :: bool
  gd_reason :: "(int \<times> int) option"

definition fresh_slot :: "int \<Rightarrow> guard_slot" where
  "fresh_slot t = \<lparr>gs_at = t, gs_total = 0, gs_failed = 0\<rparr>"

definition NewAbortGuard :: "bool \<Rightarrow> real \<Rightarrow> int \<Rightarrow> guard" where
  "NewAbortGuard enabled ratio window =
     (let ratio = (if ratio \<le> 0 then DefaultAbortRatio else ratio);
          window = (if window \<le> 0 then DefaultAbortWindow else window)
      in \<lparr>gd_enabled = enabled, gd_ratio = ratio, gd_window = window,
          gd_slots = replicate (nat (go_div window guardResolution + 1)) (fresh_slot 0),
          gd_tripped = False, gd_reason = None\<rparr>)"

text \<open>The sums of \<open>evaluateLocked\<close> over the slots that are in the window and saw something.\<close>

fun window_sums :: "int \<Rightarrow> guard_slot list \<Rightarrow> int \<times> int \<Rightarrow> int \<times> int" where
  "window_sums cutoff [] acc = acc"
| "window_sums cutoff (s # ss) (tot, failed) =
     (if gs_at s < cutoff \<or> gs_total s = 0 then window_sums cutoff ss (tot, failed)
      else window_sums cutoff ss (tot + gs_total s, failed + gs_failed s))"

definition evaluateLocked :: "int \<Rightarrow> guard \<Rightarrow> guard" where
  "evaluateLocked now g =
     (if now < gd_window g then g
      else case window_sums (now - gd_window g) (gd_slots g) (0, 0) of (tot, failed) \<Rightarrow>
        if tot < minSamples then g
        else if gd_ratio g < real_of_int failed / real_of_int tot
          then g\<lparr>gd_tripped := True, gd_reason := Some (failed, tot)\<rparr>
        else g)"

text \<open>
  \<open>Observe\<close>. \<open>None\<close> is the panic of an index below zero, which an offset before the start of
  the run would cause.
\<close>

definition Observe :: "outcome_class \<Rightarrow> int \<Rightarrow> guard \<Rightarrow> guard option" where
  "Observe k off g =
     (if \<not> gd_enabled g then Some g
      else if gd_tripped g then Some g
      else let idx = go_mod (go_div off guardResolution) (int (length (gd_slots g)));
               bucketAt = off - go_mod off guardResolution
           in if idx < 0 then None
              else let i = nat idx;
                       s = (if gs_at (gd_slots g ! i) \<noteq> bucketAt then fresh_slot bucketAt else gd_slots g ! i);
                       s = s\<lparr>gs_total := gs_total s + 1\<rparr>;
                       s = (if CountsTowardAbortGuard k then s\<lparr>gs_failed := gs_failed s + 1\<rparr> else s)
                   in Some (evaluateLocked off (g\<lparr>gd_slots := (gd_slots g)[i := s]\<rparr>)))"

definition Tripped :: "guard \<Rightarrow> bool \<times> (int \<times> int) option" where
  "Tripped g = (gd_tripped g, gd_reason g)"

text \<open>
  The recorder that passes every outcome on and then to the guard. The callback \<open>abort\<close> is
  called through a \<open>sync.Once\<close>: the state keeps whether it ran and how often.
\<close>

record 'i guardedRecorder =
  gr_inner :: 'i
  gr_guard :: guard
  gr_once :: bool
  gr_aborts :: nat

definition guardedRecord ::
  "(outcome \<Rightarrow> 'i \<Rightarrow> 'i) \<Rightarrow> outcome \<Rightarrow> 'i guardedRecorder \<Rightarrow> 'i guardedRecorder option" where
  "guardedRecord record_inner o' g =
     (let g = g\<lparr>gr_inner := record_inner o' (gr_inner g)\<rparr>
      in case Observe (o_class o') (o_end o') (gr_guard g) of
           None \<Rightarrow> None
         | Some gd \<Rightarrow>
             let g = g\<lparr>gr_guard := gd\<rparr>
             in Some (if fst (Tripped gd) \<and> \<not> gr_once g
                      then g\<lparr>gr_once := True, gr_aborts := gr_aborts g + 1\<rparr> else g))"

section \<open>The ring is a sliding window\<close>

text \<open>
  The abstract guard keeps every observation. A period counts while its start is not before
  the window's.
\<close>

type_synonym observation = "outcome_class \<times> int"

definition period :: "int \<Rightarrow> int" where
  "period off = off div guardResolution"

definition in_window :: "int \<Rightarrow> int \<Rightarrow> observation \<Rightarrow> bool" where
  "in_window window now ob \<longleftrightarrow> now - window \<le> period (snd ob) * guardResolution"

definition failing :: "observation \<Rightarrow> bool" where
  "failing ob \<longleftrightarrow> CountsTowardAbortGuard (fst ob)"

text \<open>The failures and the observations in the window of the latest one, and whether they fire.\<close>

definition figures :: "int \<Rightarrow> observation list \<Rightarrow> int \<times> int" where
  "figures window obs =
     (let seen = filter (in_window window (snd (last obs))) obs
      in (int (length (filter failing seen)), int (length seen)))"

definition breach :: "real \<Rightarrow> int \<Rightarrow> observation list \<Rightarrow> bool" where
  "breach ratio window obs \<longleftrightarrow> window \<le> snd (last obs) \<and>
     (case figures window obs of (failed, tot) \<Rightarrow>
        20 \<le> tot \<and> ratio < real_of_int failed / real_of_int tot)"

fun first_breach :: "real \<Rightarrow> int \<Rightarrow> observation list \<Rightarrow> observation list \<Rightarrow> (int \<times> int) option" where
  "first_breach ratio window seen [] = None"
| "first_breach ratio window seen (ob # obs) =
     (if breach ratio window (seen @ [ob]) then Some (figures window (seen @ [ob]))
      else first_breach ratio window (seen @ [ob]) obs)"

text \<open>What slot \<open>i\<close> of a ring of \<open>n\<close> holds after the observations.\<close>

definition slot_of :: "nat \<Rightarrow> observation list \<Rightarrow> nat \<Rightarrow> guard_slot" where
  "slot_of n obs i =
     (let xs = filter (\<lambda>ob. period (snd ob) mod int n = int i) obs;
          q = period (snd (last xs)); ys = filter (\<lambda>ob. period (snd ob) = q) obs
      in if xs = [] then fresh_slot 0
         else \<lparr>gs_at = q * guardResolution, gs_total = int (length ys), gs_failed = int (length (filter failing ys))\<rparr>)"

definition in_order :: "observation list \<Rightarrow> bool" where
  "in_order obs \<longleftrightarrow> sorted (map snd obs) \<and> (\<forall>ob \<in> set obs. 0 \<le> snd ob)"

lemma period_mono: "a \<le> b \<Longrightarrow> period a \<le> period b"
  by (simp add: period_def guardResolution_def zdiv_mono1)

lemma in_order_snoc: "in_order (obs @ [ob]) \<longleftrightarrow> in_order obs \<and> 0 \<le> snd ob \<and> (\<forall>x \<in> set obs. snd x \<le> snd ob)"
  by (auto simp: in_order_def sorted_append)

lemma residue_max:
  assumes "in_order obs" "filter (\<lambda>ob. period (snd ob) mod int n = int i) obs = xs" "xs \<noteq> []"
    "x \<in> set obs" "period (snd x) mod int n = int i"
  shows "period (snd x) \<le> period (snd (last xs))"
proof -
  have "sorted (map snd xs)"
    using assms(1,2) sorted_filter[of snd obs] by (auto simp: in_order_def)
  moreover have "x \<in> set xs" using assms(2,4,5) by auto
  ultimately have "snd x \<le> snd (last xs)"
    using sorted_within[of "map snd xs" "snd x"] assms(3) by (simp add: last_map)
  then show ?thesis by (rule period_mono)
qed

lemma slot_of_cases:
  obtains "filter (\<lambda>ob. period (snd ob) mod int n = int i) obs = []" "slot_of n obs i = fresh_slot 0"
  | q ys where "q = period (snd (last (filter (\<lambda>ob. period (snd ob) mod int n = int i) obs)))"
      "filter (\<lambda>ob. period (snd ob) mod int n = int i) obs \<noteq> []"
      "ys = filter (\<lambda>ob. period (snd ob) = q) obs" "q mod int n = int i"
      "slot_of n obs i = \<lparr>gs_at = q * guardResolution, gs_total = int (length ys), gs_failed = int (length (filter failing ys))\<rparr>"
proof (cases "filter (\<lambda>ob. period (snd ob) mod int n = int i) obs = []")
  case True
  then show ?thesis using that(1) by (simp add: slot_of_def)
next
  case False
  then have "last (filter (\<lambda>ob. period (snd ob) mod int n = int i) obs) \<in>
      set (filter (\<lambda>ob. period (snd ob) mod int n = int i) obs)" by (rule last_in_set)
  then have "period (snd (last (filter (\<lambda>ob. period (snd ob) mod int n = int i) obs))) mod int n = int i" by simp
  then show ?thesis using that(2)[OF refl False refl] False by (simp add: slot_of_def Let_def)
qed

lemma guardResolution_pos [simp]: "0 < guardResolution" "guardResolution \<noteq> 0"
  by (simp_all add: guardResolution_def)

text \<open>One observation changes one slot, the way \<open>Observe\<close> does it.\<close>

definition bump :: "observation \<Rightarrow> guard_slot \<Rightarrow> guard_slot" where
  "bump ob s =
     (let at' = period (snd ob) * guardResolution; s = (if gs_at s \<noteq> at' then fresh_slot at' else s)
      in \<lparr>gs_at = at', gs_total = gs_total s + 1, gs_failed = gs_failed s + (if failing ob then 1 else 0)\<rparr>)"

lemma slot_of_other:
  assumes "period (snd ob) mod int n \<noteq> int i"
  shows "slot_of n (obs @ [ob]) i = slot_of n obs i"
proof (rule slot_of_cases[of n i obs])
  fix q ys assume "q mod int n = int i" "slot_of n obs i = \<lparr>gs_at = q * guardResolution, gs_total = int (length ys), gs_failed = int (length (filter failing ys))\<rparr>"
    "ys = filter (\<lambda>ob. period (snd ob) = q) obs"
    "filter (\<lambda>ob. period (snd ob) mod int n = int i) obs \<noteq> []"
    "q = period (snd (last (filter (\<lambda>ob. period (snd ob) mod int n = int i) obs)))"
  then show ?thesis using assms by (auto simp: slot_of_def Let_def)
qed (use assms in \<open>simp add: slot_of_def\<close>)

lemma slot_of_hit:
  assumes "in_order (obs @ [ob])" "period (snd ob) mod int n = int i"
  shows "slot_of n (obs @ [ob]) i = bump ob (slot_of n obs i)"
proof -
  let ?p = "period (snd ob)"
  let ?ys = "filter (\<lambda>x. period (snd x) = ?p) obs"
  have new: "slot_of n (obs @ [ob]) i = \<lparr>gs_at = ?p * guardResolution, gs_total = int (length ?ys) + 1,
      gs_failed = int (length (filter failing ?ys)) + (if failing ob then 1 else 0)\<rparr>"
    using assms(2) by (simp add: slot_of_def Let_def)
  show ?thesis
  proof (rule slot_of_cases[of n i obs])
    assume none: "filter (\<lambda>x. period (snd x) mod int n = int i) obs = []" and "slot_of n obs i = fresh_slot 0"
    have "?ys = []" using none assms(2) by (auto simp: filter_empty_conv)
    then show ?thesis using new \<open>slot_of n obs i = fresh_slot 0\<close> by (simp add: bump_def fresh_slot_def Let_def)
  next
    fix q ys assume q: "q = period (snd (last (filter (\<lambda>x. period (snd x) mod int n = int i) obs)))"
      "filter (\<lambda>x. period (snd x) mod int n = int i) obs \<noteq> []" "ys = filter (\<lambda>x. period (snd x) = q) obs"
      "slot_of n obs i = \<lparr>gs_at = q * guardResolution, gs_total = int (length ys), gs_failed = int (length (filter failing ys))\<rparr>"
    have "last (filter (\<lambda>x. period (snd x) mod int n = int i) obs) \<in> set obs" using q(2) last_in_set by fastforce
    then have "q \<le> ?p" using assms(1) q(1) period_mono by (auto simp: in_order_snoc)
    moreover have "q \<noteq> ?p \<Longrightarrow> ?ys = []"
      using residue_max[OF _ refl q(2)] assms q(1) \<open>q \<le> ?p\<close> by (fastforce simp: filter_empty_conv in_order_snoc)
    ultimately show ?thesis using new q(3,4) by (auto simp: bump_def fresh_slot_def Let_def filter_empty_conv)
  qed
qed

text \<open>What the evaluation reads off the ring.\<close>

lemma window_sums_eq:
  "window_sums cutoff ss (a, b) =
     (a + (\<Sum>s \<leftarrow> ss. if gs_at s < cutoff \<or> gs_total s = 0 then 0 else gs_total s),
      b + (\<Sum>s \<leftarrow> ss. if gs_at s < cutoff \<or> gs_total s = 0 then 0 else gs_failed s))"
  by (induction ss arbitrary: a b) auto

lemma count_by_residue:
  "\<forall>x \<in> set xs. r x < n \<Longrightarrow>
   int (length (filter P xs)) = (\<Sum>i \<leftarrow> [0..<n]. int (length (filter (\<lambda>x. P x \<and> r x = i) xs)))"
proof (induction xs)
  case (Cons x xs)
  have one: "(\<Sum>i \<leftarrow> [0..<n]. (if r x = i then 1 else 0) :: int) = 1"
    using Cons.prems by (simp add: interv_sum_list_conv_sum_set_nat)
  have split: "int (length (filter (\<lambda>x. P x \<and> r x = i) (x # xs))) =
      (if P x then (if r x = i then 1 else 0) else 0) + int (length (filter (\<lambda>x. P x \<and> r x = i) xs))" for i
    by simp
  show ?case
    unfolding split using Cons one by (cases "P x") (simp_all add: sum_list_addf)
qed simp

definition ring :: "nat \<Rightarrow> observation list \<Rightarrow> guard_slot list" where
  "ring n obs = map (slot_of n obs) [0..<n]"

lemma residue_window:
  assumes "in_order obs" "0 \<le> window" "n = nat (window div guardResolution + 1)"
    "q = period (snd (last (filter (\<lambda>x. period (snd x) mod int n = int i) obs)))"
    "filter (\<lambda>x. period (snd x) mod int n = int i) obs \<noteq> []" "x \<in> set obs"
    "period (snd x) mod int n = int i" "snd (last obs) - window \<le> period (snd x) * guardResolution"
  shows "period (snd x) = q"
proof -
  let ?R = guardResolution and ?now = "snd (last obs)"
  have n: "int n = window div ?R + 1"
    using assms(2,3) pos_imp_zdiv_nonneg_iff[of ?R window] by simp
  have le: "period (snd x) \<le> q" using residue_max[OF assms(1) refl assms(5-7)] assms(4) by simp
  have y: "last (filter (\<lambda>x. period (snd x) mod int n = int i) obs) \<in>
      set (filter (\<lambda>x. period (snd x) mod int n = int i) obs)" using assms(5) by (rule last_in_set)
  then have q: "q mod int n = int i" using assms(4) by simp
  have "snd y \<le> ?now" if "y \<in> set obs" for y
    using sorted_within[of "map snd obs" "snd y"] assms(1) that
    by (cases "obs = []") (auto simp: in_order_def last_map)
  then have "q \<le> period ?now" using y assms(4) period_mono by auto
  then have "q * ?R \<le> ?now div ?R * ?R" by (intro mult_right_mono) (simp_all add: period_def less_imp_le)
  also have "\<dots> \<le> ?now"
    using div_mult_mod_eq[of ?now ?R] pos_mod_sign[OF guardResolution_pos(1), of ?now] by linarith
  finally have "q * ?R \<le> ?now" .
  then have "(q - period (snd x)) * ?R \<le> window" using assms(8) by (simp add: algebra_simps)
  then have "q - period (snd x) \<le> window div ?R"
    using zdiv_mono1[of "(q - period (snd x)) * ?R" window ?R] by simp
  then have "q - period (snd x) < int n" using n by simp
  moreover have "(q - period (snd x)) mod int n = 0" using assms(7) q by (metis mod_diff_cong mod_self diff_self mod_0)
  ultimately show ?thesis using le by (simp add: mod_pos_pos_trivial)
qed

text \<open>In the window, a residue belongs to one period: the one its slot holds.\<close>

lemma slot_in_window:
  assumes "in_order obs" "0 \<le> window" "n = nat (window div guardResolution + 1)" "i < n"
    "now = snd (last obs)" "s = slot_of n obs i"
  shows "(if gs_at s < now - window \<or> gs_total s = 0 then 0 else gs_total s) =
      int (length (filter (\<lambda>ob. in_window window now ob \<and> nat (period (snd ob) mod int n) = i) obs))"
    "(if gs_at s < now - window \<or> gs_total s = 0 then 0 else gs_failed s) =
      int (length (filter (\<lambda>ob. (in_window window now ob \<and> failing ob) \<and> nat (period (snd ob) mod int n) = i) obs))"
proof -
  have n: "0 < n" using assms(4) by simp
  have res: "nat (period (snd ob) mod int n) = i \<longleftrightarrow> period (snd ob) mod int n = int i" for ob
    using n by (metis int_nat_eq nat_int of_nat_0_less_iff pos_mod_sign)
  have goal: "(if gs_at s < now - window \<or> gs_total s = 0 then 0 else gs_total s) =
      int (length (filter (\<lambda>ob. in_window window now ob \<and> period (snd ob) mod int n = int i) obs)) \<and>
    (if gs_at s < now - window \<or> gs_total s = 0 then 0 else gs_failed s) =
      int (length (filter (\<lambda>ob. (in_window window now ob \<and> failing ob) \<and> period (snd ob) mod int n = int i) obs))"
  proof (rule slot_of_cases[of n i obs])
    assume none: "filter (\<lambda>x. period (snd x) mod int n = int i) obs = []" "slot_of n obs i = fresh_slot 0"
    then have "\<forall>x \<in> set obs. period (snd x) mod int n \<noteq> int i" by (simp add: filter_empty_conv)
    then show ?thesis using none(2) assms(6) by (auto simp: fresh_slot_def filter_empty_conv)
  next
    fix q ys assume q: "q = period (snd (last (filter (\<lambda>x. period (snd x) mod int n = int i) obs)))"
      "filter (\<lambda>x. period (snd x) mod int n = int i) obs \<noteq> []" "ys = filter (\<lambda>x. period (snd x) = q) obs"
      "q mod int n = int i"
      "slot_of n obs i = \<lparr>gs_at = q * guardResolution, gs_total = int (length ys), gs_failed = int (length (filter failing ys))\<rparr>"
    have same: "in_window window now x \<and> period (snd x) mod int n = int i \<longleftrightarrow>
        period (snd x) = q \<and> \<not> q * guardResolution < now - window" if "x \<in> set obs" for x
      using residue_window[OF assms(1-3) q(1,2) that] assms(5) q(4) by (auto simp: in_window_def)
    have t: "filter (\<lambda>ob. in_window window now ob \<and> period (snd ob) mod int n = int i) obs =
        (if q * guardResolution < now - window then [] else ys)"
      using same q(3) by (auto simp: filter_empty_conv cong: filter_cong)
    have f: "filter (\<lambda>ob. (in_window window now ob \<and> failing ob) \<and> period (snd ob) mod int n = int i) obs =
        filter failing (filter (\<lambda>ob. in_window window now ob \<and> period (snd ob) mod int n = int i) obs)"
      by (simp add: conj_ac)
    show ?thesis unfolding f t using q(5) assms(6) by auto
  qed
  then show "(if gs_at s < now - window \<or> gs_total s = 0 then 0 else gs_total s) =
      int (length (filter (\<lambda>ob. in_window window now ob \<and> nat (period (snd ob) mod int n) = i) obs))"
    "(if gs_at s < now - window \<or> gs_total s = 0 then 0 else gs_failed s) =
      int (length (filter (\<lambda>ob. (in_window window now ob \<and> failing ob) \<and> nat (period (snd ob) mod int n) = i) obs))"
    unfolding res by auto
qed

lemma ring_sums:
  assumes "in_order obs" "0 \<le> window" "n = nat (window div guardResolution + 1)"
  shows "window_sums (snd (last obs) - window) (ring n obs) (0, 0) = prod.swap (figures window obs)"
proof -
  let ?now = "snd (last obs)"
  have n: "0 < n" using assms(2,3) by (simp add: pos_imp_zdiv_nonneg_iff)
  then have res: "\<forall>x \<in> set obs. nat (period (snd x) mod int n) < n" by (simp add: nat_less_iff)
  have swap: "filter failing (filter P xs) = filter (\<lambda>x. P x \<and> failing x) xs" for P xs by simp
  have t: "(\<Sum>s \<leftarrow> ring n obs. if gs_at s < ?now - window \<or> gs_total s = 0 then 0 else gs_total s) =
      int (length (filter (in_window window ?now) obs))"
    unfolding ring_def map_map o_def count_by_residue[OF res, of "in_window window ?now"]
    by (intro arg_cong[where f = sum_list] map_cong refl slot_in_window(1)[OF assms _ refl refl]) simp
  have f: "(\<Sum>s \<leftarrow> ring n obs. if gs_at s < ?now - window \<or> gs_total s = 0 then 0 else gs_failed s) =
      int (length (filter failing (filter (in_window window ?now) obs)))"
    unfolding ring_def map_map o_def swap count_by_residue[OF res, of "\<lambda>x. in_window window ?now x \<and> failing x"]
    by (intro arg_cong[where f = sum_list] map_cong refl slot_in_window(2)[OF assms _ refl refl]) simp
  show ?thesis unfolding window_sums_eq t f by (simp add: figures_def Let_def)
qed

lemma ring_snoc:
  assumes "in_order (obs @ [ob])" "0 < n" "i = nat (period (snd ob) mod int n)"
  shows "ring n (obs @ [ob]) = (ring n obs)[i := bump ob (ring n obs ! i)]"
proof (rule nth_equalityI)
  have i: "int i = period (snd ob) mod int n" "i < n" using assms(2,3) by (simp_all add: nat_less_iff)
  fix j assume "j < length (ring n (obs @ [ob]))"
  then have j: "j < n" by (simp add: ring_def)
  show "ring n (obs @ [ob]) ! j = (ring n obs)[i := bump ob (ring n obs ! i)] ! j"
  proof (cases "j = i")
    case True
    then show ?thesis using j slot_of_hit[OF assms(1)] i by (simp add: ring_def)
  next
    case False
    then show ?thesis using j slot_of_other[of ob n j obs] i by (simp add: ring_def)
  qed
qed (simp add: ring_def)

text \<open>The state of an enabled guard that has seen \<open>obs\<close> and has not fired.\<close>

definition watching :: "real \<Rightarrow> int \<Rightarrow> observation list \<Rightarrow> guard \<Rightarrow> bool" where
  "watching ratio window obs g \<longleftrightarrow> 0 < window \<and> g = \<lparr>gd_enabled = True, gd_ratio = ratio, gd_window = window,
     gd_slots = ring (nat (window div guardResolution + 1)) obs, gd_tripped = False, gd_reason = None\<rparr>"

lemma Observe_watching:
  assumes "watching ratio window obs g" "in_order (obs @ [ob])"
  shows "\<exists>g'. Observe (fst ob) (snd ob) g = Some g' \<and>
    (if breach ratio window (obs @ [ob]) then Tripped g' = (True, Some (figures window (obs @ [ob])))
     else watching ratio window (obs @ [ob]) g')"
proof -
  define n i where "n = nat (window div guardResolution + 1)" and "i = nat (period (snd ob) mod int n)"
  have w: "0 < window" and g: "g = \<lparr>gd_enabled = True, gd_ratio = ratio, gd_window = window,
     gd_slots = ring n obs, gd_tripped = False, gd_reason = None\<rparr>"
    using assms(1) by (simp_all add: watching_def n_def)
  have n: "0 < n" using w by (simp add: n_def pos_imp_zdiv_nonneg_iff)
  have off: "0 \<le> snd ob" using assms(2) by (simp add: in_order_snoc)
  have len: "length (ring n obs) = n" by (simp add: ring_def)
  have start: "snd ob - snd ob mod guardResolution = period (snd ob) * guardResolution"
    by (simp add: period_def minus_mod_eq_div_mult)
  let ?s = "ring n obs ! i" and ?at = "period (snd ob) * guardResolution"
  let ?base = "if gs_at ?s \<noteq> ?at then fresh_slot ?at else ?s"
  have slot: "(if CountsTowardAbortGuard (fst ob)
      then ?base\<lparr>gs_total := gs_total ?base + 1\<rparr>\<lparr>gs_failed := gs_failed (?base\<lparr>gs_total := gs_total ?base + 1\<rparr>) + 1\<rparr>
      else ?base\<lparr>gs_total := gs_total ?base + 1\<rparr>) = bump ob ?s"
    by (simp add: bump_def failing_def Let_def fresh_slot_def)
  have idx: "go_mod (go_div (snd ob) guardResolution) (int n) = period (snd ob) mod int n"
    using off n by (simp add: period_def pos_imp_zdiv_nonneg_iff)
  have nonneg: "\<not> period (snd ob) mod int n < 0" using pos_mod_sign[of "int n" "period (snd ob)"] n by linarith
  have "Observe (fst ob) (snd ob) g =
      Some (evaluateLocked (snd ob) (g\<lparr>gd_slots := (ring n obs)[i := bump ob ?s]\<rparr>))"
    unfolding Observe_def g guard.simps len idx go_mod_nonneg[OF off guardResolution_pos(1)] start Let_def
    unfolding i_def[symmetric] slot using nonneg by simp
  then have obs: "Observe (fst ob) (snd ob) g = Some (evaluateLocked (snd ob) (g\<lparr>gd_slots := ring n (obs @ [ob])\<rparr>))"
    using ring_snoc[OF assms(2) n i_def] by simp
  have sums: "window_sums (snd ob - window) (ring n (obs @ [ob])) (0, 0) = prod.swap (figures window (obs @ [ob]))"
    using ring_sums[OF assms(2) _ n_def] w by simp
  show ?thesis
    unfolding obs using sums w n_def
    by (cases "figures window (obs @ [ob])")
      (auto simp: evaluateLocked_def g breach_def Tripped_def watching_def minSamples_def)
qed

lemma NewAbortGuard_watching:
  "watching (if ratio \<le> 0 then 1 / 2 else ratio) (if window \<le> 0 then 10000000000 else window) []
     (NewAbortGuard True ratio window)"
proof -
  have "map (slot_of n []) [0..<n] = replicate n (fresh_slot 0)" for n
    by (rule nth_equalityI) (simp_all add: slot_of_def)
  then show ?thesis
    by (auto simp: watching_def NewAbortGuard_def Let_def ring_def DefaultAbortRatio_def DefaultAbortWindow_def)
qed

text \<open>A guard that has fired and one that is off observe nothing.\<close>

lemma Observe_fixed: "gd_tripped g \<or> \<not> gd_enabled g \<Longrightarrow> Observe k off g = Some g"
  by (auto simp: Observe_def)

fun observe_all :: "observation list \<Rightarrow> guard \<Rightarrow> guard option" where
  "observe_all [] g = Some g"
| "observe_all (ob # obs) g = Option.bind (Observe (fst ob) (snd ob) g) (observe_all obs)"

lemma observe_all_fixed: "gd_tripped g \<or> \<not> gd_enabled g \<Longrightarrow> observe_all obs g = Some g"
  by (induction obs) (simp_all add: Observe_fixed)

lemma observe_all_watching:
  "watching ratio window seen g \<Longrightarrow> in_order (seen @ obs) \<Longrightarrow>
   \<exists>g'. observe_all obs g = Some g' \<and>
     Tripped g' = (first_breach ratio window seen obs \<noteq> None, first_breach ratio window seen obs)"
proof (induction obs arbitrary: seen g)
  case (Cons ob obs)
  have ord: "in_order (seen @ [ob])" "in_order ((seen @ [ob]) @ obs)"
    using Cons.prems(2) by (auto simp: in_order_def sorted_append)
  obtain g1 where g1: "Observe (fst ob) (snd ob) g = Some g1"
    "if breach ratio window (seen @ [ob]) then Tripped g1 = (True, Some (figures window (seen @ [ob])))
     else watching ratio window (seen @ [ob]) g1"
    using Observe_watching[OF Cons.prems(1) ord(1)] by blast
  show ?case
  proof (cases "breach ratio window (seen @ [ob])")
    case True
    then show ?thesis using g1 observe_all_fixed[of g1 obs] by (simp add: Tripped_def)
  next
    case False
    then show ?thesis using g1 Cons.IH[OF _ ord(2)] by simp
  qed
qed (simp add: watching_def Tripped_def)

section \<open>The guarded recorder\<close>

fun guarded_all ::
  "(outcome \<Rightarrow> 'i \<Rightarrow> 'i) \<Rightarrow> outcome list \<Rightarrow> 'i guardedRecorder \<Rightarrow> 'i guardedRecorder option" where
  "guarded_all rec [] g = Some g"
| "guarded_all rec (o' # os) g = Option.bind (guardedRecord rec o' g) (guarded_all rec os)"

definition observed :: "outcome list \<Rightarrow> observation list" where
  "observed os = map (\<lambda>o'. (o_class o', o_end o')) os"

text \<open>The abort callback has run exactly when the guard has fired, and then once.\<close>

definition once_ok :: "'i guardedRecorder \<Rightarrow> bool" where
  "once_ok g \<longleftrightarrow> gr_once g = gd_tripped (gr_guard g) \<and> gr_aborts g = (if gd_tripped (gr_guard g) then 1 else 0)"

lemma Observe_keeps: "Observe k off g = Some g' \<Longrightarrow> gd_tripped g \<Longrightarrow> gd_tripped g'"
  using Observe_fixed[of g k off] by simp

lemma guardedRecord_facts:
  assumes "once_ok g" "Observe (o_class o') (o_end o') (gr_guard g) = Some gd"
  shows "\<exists>g'. guardedRecord rec o' g = Some g' \<and> once_ok g' \<and> gr_guard g' = gd \<and> gr_inner g' = rec o' (gr_inner g)"
  using assms Observe_keeps[OF assms(2)]
  by (auto simp: guardedRecord_def Let_def once_ok_def Tripped_def)

lemma guarded_all_facts:
  "once_ok g \<Longrightarrow> observe_all (observed os) (gr_guard g) = Some gd \<Longrightarrow>
   \<exists>g'. guarded_all rec os g = Some g' \<and> once_ok g' \<and> gr_guard g' = gd \<and> gr_inner g' = fold rec os (gr_inner g)"
proof (induction os arbitrary: g)
  case (Cons o' os)
  then obtain g1 where g1: "Observe (o_class o') (o_end o') (gr_guard g) = Some g1"
    "observe_all (observed os) g1 = Some gd"
    by (auto simp: observed_def bind_eq_Some_conv)
  obtain g2 where g2: "guardedRecord rec o' g = Some g2" "once_ok g2" "gr_guard g2 = g1"
    "gr_inner g2 = rec o' (gr_inner g)"
    using guardedRecord_facts[OF Cons.prems(1) g1(1)] by blast
  then show ?case using Cons.IH[OF g2(2)] g1(2) by simp
qed (simp add: observed_def)

section \<open>Properties\<close>

text \<open>C6. The ring of the guard is a sliding window: fed outcomes in the order they end, it fires at the
  first one at which, a full window into the run, at least twenty outcomes of the window's
  periods have been seen and the share of failures among them exceeds the ratio; it then
  keeps the figures of that moment.\<close>

theorem guard_window:
  assumes "in_order obs"
  shows "map_option Tripped (observe_all obs (NewAbortGuard True ratio window)) =
    (let fired = first_breach (if ratio \<le> 0 then 1 / 2 else ratio) (if window \<le> 0 then 10000000000 else window) [] obs
     in Some (fired \<noteq> None, fired))"
  using observe_all_watching[OF NewAbortGuard_watching[of ratio window], of obs] assms by (auto simp: Let_def)

text \<open>Twenty-one timeouts, half a second apart, against the default guard of ten seconds.\<close>

definition outage :: "observation list" where
  "outage = map (\<lambda>i. (ClassTimeout, 500000000 * int i)) [0..<22]"

theorem guard_window_witness:
  "map_option Tripped (observe_all outage (NewAbortGuard True 0 0)) = Some (True, Some (21, 21))"
proof -
  have order: "in_order outage" by code_simp
  have fired: "first_breach (1 / 2) 10000000000 [] outage = Some (21, 21)" by code_simp
  show ?thesis unfolding guard_window[OF order] by (simp add: fired Let_def)
qed

text \<open>The guarded recorder passes every outcome on, in order, and calls the abort callback exactly
  once when the guard fires and never otherwise.\<close>

theorem guarded_recorder:
  assumes "in_order (observed os)"
  shows "\<exists>g. guarded_all rec os \<lparr>gr_inner = c, gr_guard = NewAbortGuard on ratio window, gr_once = False, gr_aborts = 0\<rparr> =
      Some g \<and> gr_inner g = fold rec os c \<and>
      gr_aborts g = (if on \<and> first_breach (if ratio \<le> 0 then 1 / 2 else ratio)
        (if window \<le> 0 then 10000000000 else window) [] (observed os) \<noteq> None then 1 else 0)"
proof -
  let ?g0 = "NewAbortGuard on ratio window"
  let ?fired = "first_breach (if ratio \<le> 0 then 1 / 2 else ratio) (if window \<le> 0 then 10000000000 else window) [] (observed os)"
  have fresh: "\<not> gd_tripped ?g0" "gd_enabled ?g0 = on" by (simp_all add: NewAbortGuard_def Let_def)
  have ok: "once_ok \<lparr>gr_inner = c, gr_guard = ?g0, gr_once = False, gr_aborts = 0\<rparr>"
    using fresh by (simp add: once_ok_def)
  obtain gd where gd: "observe_all (observed os) ?g0 = Some gd" "gd_tripped gd \<longleftrightarrow> on \<and> ?fired \<noteq> None"
  proof (cases on)
    case True
    then show ?thesis
      using that observe_all_watching[OF NewAbortGuard_watching[of ratio window], of "observed os"] assms
      by (auto simp: Tripped_def)
  next
    case False
    then show ?thesis using that[of ?g0] observe_all_fixed[of ?g0] fresh by simp
  qed
  then show ?thesis
    using guarded_all_facts[OF ok, of os gd rec] by (auto simp: once_ok_def)
qed

theorem guarded_recorder_witness:
  "\<exists>g. guarded_all (\<lambda>o' n. n + 1)
      (map (\<lambda>(k, t). \<lparr>o_label = 0, o_class = k, o_status = 0, o_intended = t, o_dispatched = t, o_worker_start = t,
         o_conn_acquired = t, o_first_byte = 0, o_end = t, o_bytes_in = 0, o_bytes_out = 0\<rparr>) outage)
      \<lparr>gr_inner = 0 :: nat, gr_guard = NewAbortGuard True 0 0, gr_once = False, gr_aborts = 0\<rparr> =
     Some g \<and> gr_aborts g = 1"
proof -
  let ?os = "map (\<lambda>(k, t). \<lparr>o_label = 0, o_class = k, o_status = 0, o_intended = t, o_dispatched = t, o_worker_start = t,
         o_conn_acquired = t, o_first_byte = 0, o_end = t, o_bytes_in = 0, o_bytes_out = 0\<rparr>) outage"
  have os: "observed ?os = outage" by (simp add: observed_def o_def case_prod_beta)
  have "in_order (observed ?os)" unfolding os by code_simp
  moreover have "first_breach (1 / 2) 10000000000 [] outage = Some (21, 21)" by code_simp
  ultimately show ?thesis
    using guarded_recorder[of ?os "\<lambda>o' n. n + 1" "0 :: nat" True 0 0] by (auto simp: os)
qed

end
