(* ===== verification/CollectorFacts.thy ===== *)
theory CollectorFacts
  imports Collector
begin

text \<open>
  The books of the collector. An invariant of its state; one conservation law for every figure
  an accumulator keeps (the locale \<open>tally\<close>, interpreted on the operation count, the counts of
  each outcome class and the byte counts); that every operation keeps the invariant, the
  totals and each sealed bucket; and what the snapshot of a finished run then says.
\<close>

section \<open>Accumulators add up\<close>

definition ac_ok :: "'s accum \<Rightarrow> bool" where
  "ac_ok a \<longleftrightarrow> length (ac_errs a) = numClasses \<and> (\<forall>e \<in> set (ac_errs a). 0 \<le> e) \<and>
     ac_n a = sum_list (ac_errs a) \<and> (ac_n a = 0 \<longrightarrow> ac_bytes_in a = 0 \<and> ac_bytes_out a = 0)"

lemma ac_ok_nonneg: "ac_ok a \<Longrightarrow> 0 \<le> ac_n a"
  by (auto simp: ac_ok_def intro: sum_list_nonneg)

lemma ac_ok_idle: "ac_ok a \<Longrightarrow> ac_n a = 0 \<Longrightarrow> i < numClasses \<Longrightarrow> ac_errs a ! i = 0"
  using sum_list_nonneg_eq_0_iff[of "ac_errs a"] by (auto simp: ac_ok_def)

lemma newAccum_ok [simp]: "ac_ok (newAccum ops)"
  by (simp add: ac_ok_def newAccum_def sum_list_replicate)

lemma accum_add_sel [simp]:
  "ac_n (accum_add ops o' a) = ac_n a + 1"
  "ac_errs (accum_add ops o' a) = (ac_errs a)[class_index (o_class o') := ac_errs a ! class_index (o_class o') + 1]"
  "ac_bytes_in (accum_add ops o' a) = ac_bytes_in a + o_bytes_in o'"
  "ac_bytes_out (accum_add ops o' a) = ac_bytes_out a + o_bytes_out o'"
  by (simp_all add: accum_add_def Let_def split: prod.splits)

lemma accum_add_ok: "ac_ok a \<Longrightarrow> ac_ok (accum_add ops o' a)"
  using ac_ok_nonneg[of a]
  by (auto simp: ac_ok_def sum_list_update_int dest!: set_update_subset_insert[THEN subsetD])

lemma sum_map2_add: "length xs = length ys \<Longrightarrow> sum_list (map2 (+) xs ys) = sum_list xs + (sum_list ys :: int)"
  by (induction xs ys rule: list_induct2) simp_all

lemma mergeInto_sel:
  "ac_n (fst (mergeInto ops a b)) = (if 0 < ac_n a then ac_n b + ac_n a else ac_n b)"
  "ac_errs (fst (mergeInto ops a b)) = (if 0 < ac_n a then map2 (+) (ac_errs b) (ac_errs a) else ac_errs b)"
  "ac_bytes_in (fst (mergeInto ops a b)) = (if 0 < ac_n a then ac_bytes_in b + ac_bytes_in a else ac_bytes_in b)"
  "ac_bytes_out (fst (mergeInto ops a b)) = (if 0 < ac_n a then ac_bytes_out b + ac_bytes_out a else ac_bytes_out b)"
  by (simp_all add: mergeInto_def Let_def)

lemma mergeInto_ok: "ac_ok a \<Longrightarrow> ac_ok b \<Longrightarrow> ac_ok (fst (mergeInto ops a b))"
  using ac_ok_nonneg[of a] ac_ok_nonneg[of b]
  by (auto simp: ac_ok_def mergeInto_sel sum_map2_add set_zip)

text \<open>
  A figure of an accumulator that grows with each outcome and adds up under merging. The
  conservation of everything the collector counts is proved once, for any such figure.
\<close>

locale tally =
  fixes f :: "'s accum \<Rightarrow> int" and g :: "outcome \<Rightarrow> int"
  assumes add: "ac_ok a \<Longrightarrow> f (accum_add ops o' a) = f a + g o'"
    and merged: "ac_ok a \<Longrightarrow> ac_ok b \<Longrightarrow> f (fst (mergeInto ops a b)) = f b + f a"
    and empty: "f (newAccum ops) = 0"
    and idle: "ac_ok a \<Longrightarrow> ac_n a = 0 \<Longrightarrow> f a = 0"

section \<open>The invariant\<close>

definition slot_ok :: "nat \<Rightarrow> 's slot \<Rightarrow> bool" where
  "slot_ok k s \<longleftrightarrow> length (sl_labels s) = k \<and> (\<forall>a \<in> set (sl_labels s). ac_ok a) \<and> -1 \<le> sl_index s \<and>
     (sl_index s < 0 \<longrightarrow> (\<forall>a \<in> set (sl_labels s). ac_n a = 0))"

definition co_inv :: "'s collector \<Rightarrow> bool" where
  "co_inv c \<longleftrightarrow> 0 < cf_width (co_cfg c) \<and> co_ring c \<noteq> [] \<and> co_overflow c < length (co_names c) \<and>
     length (co_whole_labels c) = length (co_names c) \<and>
     (\<forall>s \<in> set (co_ring c). slot_ok (length (co_names c)) s) \<and>
     (\<forall>p < length (co_ring c). 0 \<le> sl_index (co_ring c ! p) \<longrightarrow>
        ring_pos c (sl_index (co_ring c ! p)) = p \<and> sl_index (co_ring c ! p) \<notin> dom (co_buckets c)) \<and>
     ac_ok (co_whole c) \<and> (\<forall>a \<in> set (co_whole_labels c). ac_ok a) \<and>
     finite (dom (co_buckets c)) \<and> (\<forall>i \<in> dom (co_buckets c). 0 \<le> i \<and> i \<le> co_sealed c) \<and>
     -1 \<le> co_sealed c"

text \<open>What sealing the labels leaves alone.\<close>

definition same_core :: "'s collector \<Rightarrow> 's collector \<Rightarrow> bool" where
  "same_core c c' \<longleftrightarrow> co_cfg c' = co_cfg c \<and> co_names c' = co_names c \<and> co_overflow c' = co_overflow c \<and>
     co_warmup c' = co_warmup c \<and> co_ring c' = co_ring c \<and> co_whole c' = co_whole c \<and>
     co_buckets c' = co_buckets c \<and> co_sealed c' = co_sealed c \<and> co_late c' = co_late c \<and>
     length (co_whole_labels c') = length (co_whole_labels c)"

lemma same_core_refl [simp]: "same_core c c"
  by (simp add: same_core_def)

lemma same_core_trans: "same_core c d \<Longrightarrow> same_core d e \<Longrightarrow> same_core c e"
  by (simp add: same_core_def)

lemma recordLabelBucket_sel [simp]:
  "same_core c (recordLabelBucket ops l idx a w c)"
  "co_whole_labels (recordLabelBucket ops l idx a w c) = co_whole_labels c"
  by (simp_all add: recordLabelBucket_def same_core_def Let_def)

lemma merge_label_sel:
  "same_core c (merge_label ops l a c)"
  "co_whole_labels (merge_label ops l a c) =
     (co_whole_labels c)[l := fst (mergeInto ops a (co_whole_labels c ! l))]"
  by (auto simp: merge_label_def same_core_def split: prod.splits)

lemma ok_update: "\<forall>a \<in> set as. ac_ok a \<Longrightarrow> ac_ok b \<Longrightarrow> \<forall>a \<in> set (as[i := b]). ac_ok a"
  by (auto dest!: set_update_subset_insert[THEN subsetD])

text \<open>One round of the loop, for a label that saw something.\<close>

definition label_round ::
  "'s sketch_ops \<Rightarrow> int \<Rightarrow> bool \<Rightarrow> nat \<Rightarrow> 's accum \<Rightarrow> 's accum \<Rightarrow> 's collector \<Rightarrow> 's collector" where
  "label_round ops idx w l a roll c =
     (let c = recordLabelBucket ops l idx a w c; c = c\<lparr>co_merge_failures := co_merge_failures c + snd (mergeInto ops a roll)\<rparr>
      in if w then c else merge_label ops l a c)"

lemma seal_labels_round:
  "ac_n a \<noteq> 0 \<Longrightarrow> seal_labels ops idx w l (a # as) (c, roll) =
   seal_labels ops idx w (l + 1) as (label_round ops idx w l a roll c, fst (mergeInto ops a roll))"
  by (simp add: label_round_def Let_def split: prod.splits)

lemma label_round_sel:
  "same_core c (label_round ops idx w l a roll c)"
  "co_whole_labels (label_round ops idx w l a roll c) =
     (if w then co_whole_labels c
      else (co_whole_labels c)[l := fst (mergeInto ops a (co_whole_labels c ! l))])"
proof -
  let ?c = "recordLabelBucket ops l idx a w c"
  let ?d = "?c\<lparr>co_merge_failures := co_merge_failures ?c + snd (mergeInto ops a roll)\<rparr>"
  have d: "same_core c ?d" "co_whole_labels ?d = co_whole_labels c"
    using recordLabelBucket_sel(1)[of c ops l idx a w] by (simp_all add: same_core_def)
  show "same_core c (label_round ops idx w l a roll c)"
    using same_core_trans[OF d(1) merge_label_sel(1)[of ?d ops l a]] d(1)
    by (cases w) (simp_all add: label_round_def Let_def)
  show "co_whole_labels (label_round ops idx w l a roll c) =
     (if w then co_whole_labels c
      else (co_whole_labels c)[l := fst (mergeInto ops a (co_whole_labels c ! l))])"
    using merge_label_sel(2)[of ops l a ?d] d(2) by (cases w) (simp_all add: label_round_def Let_def)
qed

lemma label_round_ok:
  assumes "\<forall>b \<in> set (co_whole_labels c). ac_ok b" "ac_ok a" "l < length (co_whole_labels c)"
  shows "\<forall>b \<in> set (co_whole_labels (label_round ops idx w l a roll c)). ac_ok b"
proof -
  have "ac_ok (fst (mergeInto ops a (co_whole_labels c ! l)))"
    using assms by (intro mergeInto_ok) auto
  then have "\<forall>b \<in> set ((co_whole_labels c)[l := fst (mergeInto ops a (co_whole_labels c ! l))]). ac_ok b"
    using assms(1) by (intro ok_update)
  then show ?thesis using assms(1) unfolding label_round_sel(2) by (cases w) simp_all
qed

lemma seal_labels_core:
  "seal_labels ops idx w l as (c, roll) = (c', roll') \<Longrightarrow>
   \<forall>a \<in> set as. ac_ok a \<Longrightarrow> ac_ok roll \<Longrightarrow> \<forall>a \<in> set (co_whole_labels c). ac_ok a \<Longrightarrow>
   l + length as \<le> length (co_whole_labels c) \<Longrightarrow>
   same_core c c' \<and> ac_ok roll' \<and> (\<forall>a \<in> set (co_whole_labels c'). ac_ok a)"
proof (induction as arbitrary: l c roll)
  case (Cons a as)
  show ?case
  proof (cases "ac_n a = 0")
    case False
    let ?c = "label_round ops idx w l a roll c"
    have round: "seal_labels ops idx w (l + 1) as (?c, fst (mergeInto ops a roll)) = (c', roll')"
      using Cons.prems(1) unfolding seal_labels_round[OF False] .
    have "\<forall>a \<in> set (co_whole_labels ?c). ac_ok a"
      using Cons.prems(2,4,5) by (intro label_round_ok) simp_all
    moreover have "l + 1 + length as \<le> length (co_whole_labels ?c)" using Cons.prems(5) by (simp add: label_round_sel(2))
    moreover have "ac_ok (fst (mergeInto ops a roll))" using Cons.prems(2,3) by (simp add: mergeInto_ok)
    moreover have "\<forall>a \<in> set as. ac_ok a" using Cons.prems(2) by simp
    ultimately have "same_core ?c c' \<and> ac_ok roll' \<and> (\<forall>a \<in> set (co_whole_labels c'). ac_ok a)"
      using Cons.IH[OF round] by blast
    then show ?thesis using same_core_trans[OF label_round_sel(1)[of c ops idx w l a roll]] by blast
  qed (use Cons in auto)
qed auto

context tally
begin

lemma sum_update: "i < length as \<Longrightarrow> sum_list (map f (as[i := b])) = sum_list (map f as) - f (as ! i) + f b"
  by (simp add: map_update sum_list_update_int)

lemma seal_labels_tally:
  "seal_labels ops idx w l as (c, roll) = (c', roll') \<Longrightarrow>
   \<forall>a \<in> set as. ac_ok a \<Longrightarrow> ac_ok roll \<Longrightarrow> \<forall>a \<in> set (co_whole_labels c). ac_ok a \<Longrightarrow>
   l + length as \<le> length (co_whole_labels c) \<Longrightarrow>
   f roll' = f roll + sum_list (map f as) \<and>
   sum_list (map f (co_whole_labels c')) =
     sum_list (map f (co_whole_labels c)) + (if w then 0 else sum_list (map f as))"
proof (induction as arbitrary: l c roll)
  case (Cons a as)
  show ?case
  proof (cases "ac_n a = 0")
    case True
    have "f a = 0" using idle[of a] True Cons.prems(2) by simp
    moreover have "seal_labels ops idx w (l + 1) as (c, roll) = (c', roll')" using Cons.prems(1) True by simp
    then have "f roll' = f roll + sum_list (map f as) \<and>
        sum_list (map f (co_whole_labels c')) =
          sum_list (map f (co_whole_labels c)) + (if w then 0 else sum_list (map f as))"
      using Cons.prems by (intro Cons.IH) auto
    ultimately show ?thesis by simp
  next
    case False
    let ?c = "label_round ops idx w l a roll c"
    have round: "seal_labels ops idx w (l + 1) as (?c, fst (mergeInto ops a roll)) = (c', roll')"
      using Cons.prems(1) unfolding seal_labels_round[OF False] .
    have ok: "ac_ok (co_whole_labels c ! l)" "ac_ok a" using Cons.prems(2,4,5) by simp_all
    have "\<forall>a \<in> set (co_whole_labels ?c). ac_ok a"
      using Cons.prems(2,4,5) by (intro label_round_ok) simp_all
    moreover have "l + 1 + length as \<le> length (co_whole_labels ?c)" using Cons.prems(5) by (simp add: label_round_sel(2))
    moreover have "ac_ok (fst (mergeInto ops a roll))" using Cons.prems(3) ok(2) by (simp add: mergeInto_ok)
    moreover have "\<forall>a \<in> set as. ac_ok a" using Cons.prems(2) by simp
    ultimately have "f roll' = f (fst (mergeInto ops a roll)) + sum_list (map f as) \<and>
        sum_list (map f (co_whole_labels c')) =
          sum_list (map f (co_whole_labels ?c)) + (if w then 0 else sum_list (map f as))"
      using Cons.IH[OF round] by blast
    then show ?thesis
      using merged[OF ok(2) Cons.prems(3)] merged[OF ok(2,1)] Cons.prems(5)
      by (simp add: label_round_sel(2) sum_update)
  qed
qed auto

end

section \<open>Sealing a slot\<close>

lemma co_invD:
  assumes "co_inv c"
  shows "0 < cf_width (co_cfg c)" "co_ring c \<noteq> []" "co_overflow c < length (co_names c)"
    "length (co_whole_labels c) = length (co_names c)"
    "p < length (co_ring c) \<Longrightarrow> slot_ok (length (co_names c)) (co_ring c ! p)"
    "p < length (co_ring c) \<Longrightarrow> 0 \<le> sl_index (co_ring c ! p) \<Longrightarrow> ring_pos c (sl_index (co_ring c ! p)) = p"
    "p < length (co_ring c) \<Longrightarrow> 0 \<le> sl_index (co_ring c ! p) \<Longrightarrow> sl_index (co_ring c ! p) \<notin> dom (co_buckets c)"
    "ac_ok (co_whole c)" "\<forall>a \<in> set (co_whole_labels c). ac_ok a"
    "finite (dom (co_buckets c))" "i \<in> dom (co_buckets c) \<Longrightarrow> 0 \<le> i \<and> i \<le> co_sealed c" "-1 \<le> co_sealed c"
  using assms unfolding co_inv_def by simp_all

lemma co_invI:
  assumes "0 < cf_width (co_cfg c)" "co_ring c \<noteq> []" "co_overflow c < length (co_names c)"
    "length (co_whole_labels c) = length (co_names c)"
    "\<And>p. p < length (co_ring c) \<Longrightarrow> slot_ok (length (co_names c)) (co_ring c ! p)"
    "\<And>p. p < length (co_ring c) \<Longrightarrow> 0 \<le> sl_index (co_ring c ! p) \<Longrightarrow>
       ring_pos c (sl_index (co_ring c ! p)) = p \<and> sl_index (co_ring c ! p) \<notin> dom (co_buckets c)"
    "ac_ok (co_whole c)" "\<forall>a \<in> set (co_whole_labels c). ac_ok a"
    "finite (dom (co_buckets c))" "\<And>i. i \<in> dom (co_buckets c) \<Longrightarrow> 0 \<le> i \<and> i \<le> co_sealed c" "-1 \<le> co_sealed c"
  shows "co_inv c"
  unfolding co_inv_def using assms by (simp add: all_set_conv_all_nth)

text \<open>The slot after sealing holds nothing.\<close>

lemma reset_slot_sel [simp]:
  "sl_index (reset_slot ops s) = -1" "length (sl_labels (reset_slot ops s)) = length (sl_labels s)"
  by (simp_all add: reset_slot_def)

lemma reset_slot_idle: "slot_ok k s \<Longrightarrow> slot_ok k (reset_slot ops s)"
  by (auto simp: slot_ok_def reset_slot_def accum_reset_def newAccum_def)
    (simp add: newAccum_def[symmetric])+

definition roll_of :: "'s sketch_ops \<Rightarrow> nat \<Rightarrow> 's collector \<Rightarrow> 's collector \<times> 's accum" where
  "roll_of ops pos c = (let s = co_ring c ! pos in
     seal_labels ops (sl_index s) (sl_index s < co_warmup c) 0 (sl_labels s) (c, newAccum ops))"

lemma merge_whole_sel:
  "co_cfg (merge_whole ops a c) = co_cfg c" "co_names (merge_whole ops a c) = co_names c"
  "co_overflow (merge_whole ops a c) = co_overflow c" "co_warmup (merge_whole ops a c) = co_warmup c"
  "co_ring (merge_whole ops a c) = co_ring c" "co_buckets (merge_whole ops a c) = co_buckets c"
  "co_sealed (merge_whole ops a c) = co_sealed c" "co_late (merge_whole ops a c) = co_late c"
  "co_whole_labels (merge_whole ops a c) = co_whole_labels c"
  "co_whole (merge_whole ops a c) = fst (mergeInto ops a (co_whole c))"
  by (simp_all add: merge_whole_def split: prod.splits)

lemma roll_of_core:
  assumes "co_inv c" "pos < length (co_ring c)" "roll_of ops pos c = (c1, roll)"
  shows "same_core c c1" "ac_ok roll" "\<forall>a \<in> set (co_whole_labels c1). ac_ok a"
proof -
  have slot: "slot_ok (length (co_names c)) (co_ring c ! pos)" using assms(1,2) by (auto simp: co_inv_def)
  have "same_core c c1 \<and> ac_ok roll \<and> (\<forall>a \<in> set (co_whole_labels c1). ac_ok a)"
    using assms(1) slot assms(3) unfolding roll_of_def Let_def
    by (intro seal_labels_core[of ops _ _ 0 "sl_labels (co_ring c ! pos)" c "newAccum ops"])
      (auto simp: slot_ok_def co_inv_def)
  then show "same_core c c1" "ac_ok roll" "\<forall>a \<in> set (co_whole_labels c1). ac_ok a" by auto
qed

text \<open>What sealing does to each part of the state.\<close>

lemma sealSlot_sel:
  assumes "co_inv c" "pos < length (co_ring c)" "roll_of ops pos c = (c1, roll)"
  defines "idx \<equiv> sl_index (co_ring c ! pos)" and "d \<equiv> sealSlot ops pos c"
  shows "co_cfg d = co_cfg c" "co_names d = co_names c" "co_overflow d = co_overflow c"
    "co_warmup d = co_warmup c" "co_late d = co_late c"
    "co_ring d = (co_ring c)[pos := reset_slot ops (co_ring c ! pos)]"
    "co_sealed d = (if idx \<le> co_sealed c then co_sealed c else idx)"
    "co_whole_labels d = co_whole_labels c1"
    "co_whole d = (if idx < co_warmup c then co_whole c else fst (mergeInto ops roll (co_whole c)))"
    "\<exists>b. co_buckets d = (co_buckets c)(idx \<mapsto> b) \<and> bs_n b = ac_n roll \<and> bs_index b = idx"
proof -
  note core = roll_of_core(1)[OF assms(1-3), unfolded same_core_def]
  define sm where "sm = (bucket_of ops c idx (idx < co_warmup c) roll)
    \<lparr>bs_offered := sl_offered (co_ring c ! pos), bs_dropped := sl_dropped (co_ring c ! pos),
     bs_in_flight_max := sl_in_flight (co_ring c ! pos)\<rparr>"
  have d: "d = (let c2 = (if idx < co_warmup c then c1 else merge_whole ops roll c1)
      in c2\<lparr>co_buckets := (co_buckets c2)(idx \<mapsto> sm),
            co_ring := (co_ring c2)[pos := reset_slot ops (co_ring c ! pos)],
            co_sealed := (if idx \<le> co_sealed c2 then co_sealed c2 else idx)\<rparr>)"
    using assms(3) by (simp add: d_def sealSlot_def Let_def roll_of_def idx_def sm_def)
  show "co_cfg d = co_cfg c" "co_names d = co_names c" "co_overflow d = co_overflow c"
    "co_warmup d = co_warmup c" "co_late d = co_late c"
    "co_ring d = (co_ring c)[pos := reset_slot ops (co_ring c ! pos)]"
    "co_sealed d = (if idx \<le> co_sealed c then co_sealed c else idx)"
    "co_whole_labels d = co_whole_labels c1"
    "co_whole d = (if idx < co_warmup c then co_whole c else fst (mergeInto ops roll (co_whole c)))"
    using core by (simp_all add: d Let_def merge_whole_sel)
  have "co_buckets d = (co_buckets c)(idx \<mapsto> sm)" using core by (simp add: d Let_def merge_whole_sel)
  moreover have "bs_n sm = ac_n roll" "bs_index sm = idx" by (simp_all add: sm_def bucket_of_def)
  ultimately show "\<exists>b. co_buckets d = (co_buckets c)(idx \<mapsto> b) \<and> bs_n b = ac_n roll \<and> bs_index b = idx" by blast
qed

lemma sealSlot_inv:
  assumes "co_inv c" "pos < length (co_ring c)" "0 \<le> sl_index (co_ring c ! pos)"
  shows "co_inv (sealSlot ops pos c)"
proof -
  obtain c1 roll where r: "roll_of ops pos c = (c1, roll)" by (cases "roll_of ops pos c")
  note sel = sealSlot_sel[OF assms(1,2) r]
  obtain b where b: "co_buckets (sealSlot ops pos c) = (co_buckets c)(sl_index (co_ring c ! pos) \<mapsto> b)"
    using sel(10) by blast
  have core: "same_core c c1" "ac_ok roll" "\<forall>a \<in> set (co_whole_labels c1). ac_ok a"
    using roll_of_core[OF assms(1,2) r] by auto
  have len: "length (co_ring (sealSlot ops pos c)) = length (co_ring c)" by (simp add: sel(6))
  have nth: "co_ring (sealSlot ops pos c) ! p = (if p = pos then reset_slot ops (co_ring c ! pos) else co_ring c ! p)"
    if "p < length (co_ring c)" for p
    using that assms(2) by (simp add: sel(6))
  have rp: "ring_pos (sealSlot ops pos c) = ring_pos c" by (simp add: ring_pos_def len fun_eq_iff)
  show ?thesis
  proof (rule co_invI)
    fix p assume p: "p < length (co_ring (sealSlot ops pos c))"
    then show "slot_ok (length (co_names (sealSlot ops pos c))) (co_ring (sealSlot ops pos c) ! p)"
      using co_invD(5)[OF assms(1)] reset_slot_idle[OF co_invD(5)[OF assms(1,2)]] by (simp add: len nth sel(2))
    assume i: "0 \<le> sl_index (co_ring (sealSlot ops pos c) ! p)"
    then have np: "p \<noteq> pos" using p len nth by auto
    then have "0 \<le> sl_index (co_ring c ! p)" "p < length (co_ring c)" using i p len nth by simp_all
    note old = co_invD(6)[OF assms(1) this(2,1)] co_invD(7)[OF assms(1) this(2,1)]
    have "sl_index (co_ring c ! p) \<noteq> sl_index (co_ring c ! pos)"
      using old(1) co_invD(6)[OF assms] np by auto
    then show "ring_pos (sealSlot ops pos c) (sl_index (co_ring (sealSlot ops pos c) ! p)) = p \<and>
        sl_index (co_ring (sealSlot ops pos c) ! p) \<notin> dom (co_buckets (sealSlot ops pos c))"
      using old np p len nth by (simp add: rp b)
  next
    fix i assume "i \<in> dom (co_buckets (sealSlot ops pos c))"
    then have "i = sl_index (co_ring c ! pos) \<or> i \<in> dom (co_buckets c)" by (simp add: b)
    then have "0 \<le> i \<and> (i = sl_index (co_ring c ! pos) \<or> i \<le> co_sealed c)"
      using co_invD(11)[OF assms(1), of i] assms(3) by blast
    then show "0 \<le> i \<and> i \<le> co_sealed (sealSlot ops pos c)" by (auto simp: sel(7))
  next
    show "ac_ok (co_whole (sealSlot ops pos c))"
      using co_invD(8)[OF assms(1)] core(2) by (simp add: sel(9) mergeInto_ok)
    show "length (co_whole_labels (sealSlot ops pos c)) = length (co_names (sealSlot ops pos c))"
      using core(1) co_invD(4)[OF assms(1)] by (simp add: same_core_def sel(2,8))
    show "co_ring (sealSlot ops pos c) \<noteq> []" using co_invD(2)[OF assms(1)] len by auto
    show "finite (dom (co_buckets (sealSlot ops pos c)))" using co_invD(10)[OF assms(1)] by (simp add: b)
    show "-1 \<le> co_sealed (sealSlot ops pos c)" using co_invD(12)[OF assms(1)] by (simp add: sel(7))
  qed (use co_invD(1,3)[OF assms(1)] core(3) in \<open>simp_all add: sel(1-3,8)\<close>)
qed

definition slot_sum :: "('s accum \<Rightarrow> int) \<Rightarrow> 's slot \<Rightarrow> int" where
  "slot_sum f s = sum_list (map f (sl_labels s))"

text \<open>What the open buckets after the warm-up hold, and what is accounted for in all.\<close>

definition ring_total :: "('s accum \<Rightarrow> int) \<Rightarrow> 's collector \<Rightarrow> int" where
  "ring_total f c = (\<Sum>s \<leftarrow> co_ring c. if co_warmup c \<le> sl_index s then slot_sum f s else 0)"

definition accounted :: "('s accum \<Rightarrow> int) \<Rightarrow> 's collector \<Rightarrow> int" where
  "accounted f c = f (co_whole c) + ring_total f c"

definition label_gap :: "('s accum \<Rightarrow> int) \<Rightarrow> 's collector \<Rightarrow> int" where
  "label_gap f c = sum_list (map f (co_whole_labels c)) - f (co_whole c)"

definition on_timeline :: "'s collector \<Rightarrow> int" where
  "on_timeline c = (\<Sum>i \<in> dom (co_buckets c). bs_n (the (co_buckets c i))) + co_late c +
     (\<Sum>s \<leftarrow> co_ring c. slot_sum ac_n s)"

lemma sum_list_map_update:
  "i < length xs \<Longrightarrow> sum_list (map h (xs[i := y])) = sum_list (map h xs) - h (xs ! i) + (h y :: int)"
  by (simp add: map_update sum_list_update_int)

context tally
begin

lemma idle_slot: "slot_ok k s \<Longrightarrow> sl_index s < 0 \<Longrightarrow> slot_sum f s = 0"
proof -
  assume s: "slot_ok k s" "sl_index s < 0"
  have "map f (sl_labels s) = map (\<lambda>_. 0) (sl_labels s)" using s by (auto simp: slot_ok_def idle)
  then show "slot_sum f s = 0" unfolding slot_sum_def by (metis sum_list_0)
qed

lemma roll_tally:
  assumes "co_inv c" "pos < length (co_ring c)" "roll_of ops pos c = (c1, roll)"
  shows "f roll = slot_sum f (co_ring c ! pos)"
    "sum_list (map f (co_whole_labels c1)) = sum_list (map f (co_whole_labels c)) +
       (if sl_index (co_ring c ! pos) < co_warmup c then 0 else slot_sum f (co_ring c ! pos))"
proof -
  have slot: "slot_ok (length (co_names c)) (co_ring c ! pos)" using co_invD(5)[OF assms(1,2)] .
  have "f roll = f (newAccum ops) + sum_list (map f (sl_labels (co_ring c ! pos))) \<and>
    sum_list (map f (co_whole_labels c1)) = sum_list (map f (co_whole_labels c)) +
      (if sl_index (co_ring c ! pos) < co_warmup c then 0 else sum_list (map f (sl_labels (co_ring c ! pos))))"
    using assms(3) slot co_invD(4,9)[OF assms(1)] unfolding roll_of_def Let_def
    by (intro seal_labels_tally) (auto simp: slot_ok_def)
  then show "f roll = slot_sum f (co_ring c ! pos)"
    "sum_list (map f (co_whole_labels c1)) = sum_list (map f (co_whole_labels c)) +
       (if sl_index (co_ring c ! pos) < co_warmup c then 0 else slot_sum f (co_ring c ! pos))"
    by (simp_all add: empty slot_sum_def)
qed

lemma live_update:
  assumes "pos < length (co_ring c)" "co_ring d = (co_ring c)[pos := s]" "co_warmup d = co_warmup c"
  shows "ring_total f d = ring_total f c - (if co_warmup c \<le> sl_index (co_ring c ! pos) then slot_sum f (co_ring c ! pos) else 0)
    + (if co_warmup c \<le> sl_index s then slot_sum f s else 0)"
  unfolding ring_total_def assms(2,3) using assms(1) by (simp add: sum_list_map_update)

lemma sealSlot_tally:
  assumes "co_inv c" "pos < length (co_ring c)"
  shows "accounted f (sealSlot ops pos c) = accounted f c"
    "label_gap f (sealSlot ops pos c) = label_gap f c"
proof -
  obtain c1 roll where r: "roll_of ops pos c = (c1, roll)" by (cases "roll_of ops pos c")
  note sel = sealSlot_sel[OF assms r] and t = roll_tally[OF assms r]
  have reset: "slot_sum f (reset_slot ops (co_ring c ! pos)) = 0"
    using idle_slot[OF reset_slot_idle[OF co_invD(5)[OF assms]]] by simp
  have whole: "f (co_whole (sealSlot ops pos c)) = f (co_whole c) +
      (if sl_index (co_ring c ! pos) < co_warmup c then 0 else slot_sum f (co_ring c ! pos))"
    using merged[OF roll_of_core(2)[OF assms r] co_invD(8)[OF assms(1)]] t(1) by (simp add: sel(9))
  show "accounted f (sealSlot ops pos c) = accounted f c"
    using live_update[OF assms(2) sel(6,4)] whole reset by (simp add: accounted_def)
  show "label_gap f (sealSlot ops pos c) = label_gap f c"
    using whole t(2) by (simp add: label_gap_def sel(8))
qed

end

interpretation ops_n: tally ac_n "\<lambda>_. 1"
  by standard (auto simp: mergeInto_sel newAccum_def dest!: ac_ok_nonneg)

interpretation class_n: tally "\<lambda>a. ac_errs a ! class_index k" "\<lambda>o'. if o_class o' = k then 1 else 0" for k
proof
  fix a b :: "'a accum" and ops :: "'a sketch_ops" and o'
  show "ac_ok a \<Longrightarrow> ac_errs (accum_add ops o' a) ! class_index k =
      ac_errs a ! class_index k + (if o_class o' = k then 1 else 0)"
    by (auto simp: ac_ok_def nth_list_update)
  show "ac_ok a \<Longrightarrow> ac_ok b \<Longrightarrow> ac_errs (fst (mergeInto ops a b)) ! class_index k =
      ac_errs b ! class_index k + ac_errs a ! class_index k"
    using ac_ok_idle[of a "class_index k"] ac_ok_nonneg[of a]
    by (auto simp: mergeInto_sel ac_ok_def)
qed (simp_all add: newAccum_def ac_ok_idle)

lemma ac_ok_bytes: "ac_ok a \<Longrightarrow> \<not> 0 < ac_n a \<Longrightarrow> ac_bytes_in a = 0 \<and> ac_bytes_out a = 0"
  using ac_ok_nonneg[of a] by (simp add: ac_ok_def)

interpretation bytes_in: tally ac_bytes_in o_bytes_in
  by standard (auto simp: mergeInto_sel newAccum_def dest: ac_ok_bytes)

interpretation bytes_out: tally ac_bytes_out o_bytes_out
  by standard (auto simp: mergeInto_sel newAccum_def dest: ac_ok_bytes)

lemma sealSlot_timeline:
  assumes "co_inv c" "pos < length (co_ring c)" "0 \<le> sl_index (co_ring c ! pos)"
  shows "on_timeline (sealSlot ops pos c) = on_timeline c"
proof -
  obtain c1 roll where r: "roll_of ops pos c = (c1, roll)" by (cases "roll_of ops pos c")
  note sel = sealSlot_sel[OF assms(1,2) r]
  define idx where "idx = sl_index (co_ring c ! pos)"
  obtain b where b: "co_buckets (sealSlot ops pos c) = (co_buckets c)(idx \<mapsto> b)" "bs_n b = ac_n roll"
    using sel(10) by (auto simp: idx_def)
  have new: "idx \<notin> dom (co_buckets c)" using co_invD(7)[OF assms] by (simp add: idx_def)
  have "(\<Sum>i \<in> dom (co_buckets (sealSlot ops pos c)). bs_n (the (co_buckets (sealSlot ops pos c) i))) =
      bs_n b + (\<Sum>i \<in> dom (co_buckets c). bs_n (the (((co_buckets c)(idx \<mapsto> b)) i)))"
    using new co_invD(10)[OF assms(1)] by (simp add: b(1))
  also have "(\<Sum>i \<in> dom (co_buckets c). bs_n (the (((co_buckets c)(idx \<mapsto> b)) i))) =
      (\<Sum>i \<in> dom (co_buckets c). bs_n (the (co_buckets c i)))"
    using new by (intro sum.cong) auto
  finally have "(\<Sum>i \<in> dom (co_buckets (sealSlot ops pos c)). bs_n (the (co_buckets (sealSlot ops pos c) i))) =
      slot_sum ac_n (co_ring c ! pos) + (\<Sum>i \<in> dom (co_buckets c). bs_n (the (co_buckets c i)))"
    using ops_n.roll_tally(1)[OF assms(1,2) r] b(2) by simp
  moreover have "slot_sum ac_n (reset_slot ops (co_ring c ! pos)) = 0"
    using ops_n.idle_slot[OF reset_slot_idle[OF co_invD(5)[OF assms(1,2)]]] by simp
  ultimately show ?thesis
    using assms(2) by (simp add: on_timeline_def sel(5,6) sum_list_map_update)
qed

section \<open>Every operation keeps the books\<close>

text \<open>Changes that touch neither the accumulators nor the ring.\<close>

definition same_books :: "'s collector \<Rightarrow> 's collector \<Rightarrow> bool" where
  "same_books c d \<longleftrightarrow> co_cfg d = co_cfg c \<and> co_names d = co_names c \<and> co_overflow d = co_overflow c \<and>
     co_warmup d = co_warmup c \<and> co_ring d = co_ring c \<and> co_whole d = co_whole c \<and>
     co_whole_labels d = co_whole_labels c \<and> co_buckets d = co_buckets c \<and> co_sealed d = co_sealed c \<and>
     co_late d = co_late c"

lemma same_booksD:
  assumes "same_books c d"
  shows "co_inv d = co_inv c" "accounted f d = accounted f c" "label_gap f d = label_gap f c"
    "on_timeline d = on_timeline c" "BucketIndexOf d = BucketIndexOf c" "co_warmup d = co_warmup c"
    "co_sealed d = co_sealed c" "label_of d = label_of c" "ring_pos d = ring_pos c" "co_names d = co_names c"
    "co_buckets d = co_buckets c" "co_cfg d = co_cfg c" "co_ring d = co_ring c" "co_whole d = co_whole c"
proof -
  note same = assms[unfolded same_books_def]
  show rp: "ring_pos d = ring_pos c" and "BucketIndexOf d = BucketIndexOf c" and "label_of d = label_of c"
    using same by (simp_all add: BucketIndexOf_def label_of_def ring_pos_def fun_eq_iff)
  show "co_inv d = co_inv c" unfolding co_inv_def rp using same by simp
qed (use assms in \<open>simp_all add: same_books_def accounted_def ring_total_def label_gap_def on_timeline_def\<close>)

lemma noteBucket_books [simp]: "same_books c (noteBucket idx c)"
  by (simp add: same_books_def noteBucket_def)

lemma count_status_books [simp]: "same_books c (count_status st c)"
  by (simp add: same_books_def count_status_def)

lemma label_of_less: "co_inv c \<Longrightarrow> label_of c o' < length (co_names c)"
  using co_invD(3)[of c] by (auto simp: label_of_def)

text \<open>Rewriting one slot, keeping its bucket.\<close>

lemma on_slot_inv:
  assumes "co_inv c" "pos < length (co_ring c)" "slot_ok (length (co_names c)) (f (co_ring c ! pos))"
    "sl_index (f (co_ring c ! pos)) = sl_index (co_ring c ! pos)"
  shows "co_inv (on_slot pos f c)"
proof -
  have nth: "p < length (co_ring c) \<Longrightarrow>
      co_ring (on_slot pos f c) ! p = (if p = pos then f (co_ring c ! pos) else co_ring c ! p)" for p
    using assms(2) by (simp add: on_slot_def)
  have same: "length (co_ring (on_slot pos f c)) = length (co_ring c)" "co_names (on_slot pos f c) = co_names c"
    "ring_pos (on_slot pos f c) = ring_pos c" "co_buckets (on_slot pos f c) = co_buckets c"
    by (simp_all add: on_slot_def ring_pos_def fun_eq_iff)
  show ?thesis
  proof (rule co_invI)
    fix p assume p: "p < length (co_ring (on_slot pos f c))"
    then show "slot_ok (length (co_names (on_slot pos f c))) (co_ring (on_slot pos f c) ! p)"
      using co_invD(5)[OF assms(1)] assms(3) by (simp add: nth same)
    assume "0 \<le> sl_index (co_ring (on_slot pos f c) ! p)"
    then show "ring_pos (on_slot pos f c) (sl_index (co_ring (on_slot pos f c) ! p)) = p \<and>
        sl_index (co_ring (on_slot pos f c) ! p) \<notin> dom (co_buckets (on_slot pos f c))"
      using co_invD(6,7)[OF assms(1), of p] p assms(4) by (auto simp: nth same)
  qed (use co_invD[OF assms(1)] in \<open>auto simp: on_slot_def\<close>)
qed

lemma slot_add_ok:
  assumes "slot_ok k s" "l < k" "0 \<le> sl_index s"
  shows "slot_ok k (slot_add ops l o' s)"
proof -
  have "ac_ok (accum_add ops o' (sl_labels s ! l))" using assms by (simp add: slot_ok_def accum_add_ok)
  then have "\<forall>a \<in> set ((sl_labels s)[l := accum_add ops o' (sl_labels s ! l)]). ac_ok a"
    using assms(1) by (intro ok_update) (simp_all add: slot_ok_def)
  then show ?thesis using assms by (simp add: slot_ok_def slot_add_def)
qed

lemma ring_pos_less: "co_inv c \<Longrightarrow> ring_pos c idx < length (co_ring c)"
  using co_invD(2)[of c] by (simp add: ring_pos_def nat_less_iff)

text \<open>Claiming a slot for a bucket that has not been sealed.\<close>

lemma claim_facts:
  assumes "co_inv c" "0 \<le> idx" "co_sealed c < idx" "claim ops idx c = Some c1"
  defines "pos \<equiv> ring_pos c idx"
  shows "co_inv c1" "sl_index (co_ring c1 ! pos) = idx" "length (co_ring c1) = length (co_ring c)"
    "co_warmup c1 = co_warmup c" "co_names c1 = co_names c" "on_timeline c1 = on_timeline c"
    "co_cfg c1 = co_cfg c"
    "co_buckets c \<subseteq>\<^sub>m co_buckets c1"
    "tally f g \<Longrightarrow> accounted f c1 = accounted f c" "tally f g \<Longrightarrow> label_gap f c1 = label_gap f c"
proof -
  have pos: "pos < length (co_ring c)" using ring_pos_less[OF assms(1)] by (simp add: pos_def)
  let ?i = "sl_index (co_ring c ! pos)"
  define c0 where "c0 = (if ?i \<noteq> idx \<and> 0 \<le> ?i then sealSlot ops pos c else c)"
  have older: "?i \<noteq> idx \<Longrightarrow> 0 \<le> ?i \<Longrightarrow> ?i < idx"
    using assms(4) by (auto simp: claim_def Let_def pos_def split: if_splits)
  have c1: "c1 = (if ?i = idx then c else c0\<lparr>co_ring := (co_ring c0)[pos := (co_ring c0 ! pos)\<lparr>sl_index := idx\<rparr>]\<rparr>)"
    using assms(4) by (auto simp: claim_def Let_def pos_def c0_def split: if_splits)
  obtain k1 roll where r: "roll_of ops pos c = (k1, roll)" by (cases "roll_of ops pos c")
  note sel = sealSlot_sel[OF assms(1) pos r]
  have inv0: "co_inv c0" using assms(1) sealSlot_inv[OF assms(1) pos] by (simp add: c0_def)
  have same0: "length (co_ring c0) = length (co_ring c)" "co_names c0 = co_names c" "co_warmup c0 = co_warmup c"
    "co_cfg c0 = co_cfg c"
    by (simp_all add: c0_def sel(1,2,4,6))
  have idle0: "sl_index (co_ring c0 ! pos) < 0" if "?i \<noteq> idx"
    using that pos by (simp add: c0_def sel(6))
  have sealed0: "co_sealed c0 < idx" using older assms(3) by (simp add: c0_def sel(7))
  have new: "idx \<notin> dom (co_buckets c0)" using co_invD(11)[OF inv0, of idx] sealed0 by auto
  have rp: "ring_pos c0 idx = pos" by (simp add: ring_pos_def same0(1) pos_def)
  show "length (co_ring c1) = length (co_ring c)" "co_warmup c1 = co_warmup c" "co_names c1 = co_names c"
    "co_cfg c1 = co_cfg c" "sl_index (co_ring c1 ! pos) = idx"
    using same0 pos by (simp_all add: c1)
  have "\<exists>b. co_buckets (sealSlot ops pos c) = (co_buckets c)(?i \<mapsto> b)" using sel(10) by blast
  then show "co_buckets c \<subseteq>\<^sub>m co_buckets c1"
    using co_invD(7)[OF assms(1) pos] by (auto simp: c1 c0_def map_le_def)
  show "co_inv c1"
  proof (cases "?i = idx")
    case False
    have sn: "co_names c1 = co_names c0" "co_buckets c1 = co_buckets c0" "ring_pos c1 = ring_pos c0"
      using False by (simp_all add: c1 ring_pos_def fun_eq_iff)
    show ?thesis
    proof (rule co_invI)
      fix p assume p: "p < length (co_ring c1)"
      then have p0: "p < length (co_ring c0)" using False by (simp add: c1)
      have nth: "co_ring c1 ! p = (if p = pos then (co_ring c0 ! pos)\<lparr>sl_index := idx\<rparr> else co_ring c0 ! p)"
        using p0 False by (simp add: c1)
      have "slot_ok (length (co_names c0)) (co_ring c0 ! p)" using co_invD(5)[OF inv0 p0] .
      then show "slot_ok (length (co_names c1)) (co_ring c1 ! p)"
        unfolding nth sn using assms(2) by (auto simp: slot_ok_def)
      assume "0 \<le> sl_index (co_ring c1 ! p)"
      then show "ring_pos c1 (sl_index (co_ring c1 ! p)) = p \<and> sl_index (co_ring c1 ! p) \<notin> dom (co_buckets c1)"
        using co_invD(6,7)[OF inv0 p0] new rp unfolding nth sn by (cases "p = pos") simp_all
    qed (use co_invD[OF inv0] False in \<open>auto simp: c1\<close>)
  qed (simp add: c1 assms(1))
  have labels: "slot_sum f ((co_ring c0 ! pos)\<lparr>sl_index := idx\<rparr>) = slot_sum f (co_ring c0 ! pos)" for f :: "'a accum \<Rightarrow> int"
    by (simp add: slot_sum_def)
  show "on_timeline c1 = on_timeline c"
  proof (cases "?i = idx")
    case False
    have "on_timeline c1 = on_timeline c0"
      using False pos same0 labels[of ac_n] by (simp add: c1 on_timeline_def sum_list_map_update)
    then show ?thesis using sealSlot_timeline[OF assms(1) pos] by (simp add: c0_def)
  qed (simp add: c1)
  assume t: "tally f g"
  show "accounted f c1 = accounted f c"
  proof (cases "?i = idx")
    case False
    have "slot_sum f (co_ring c0 ! pos) = 0"
      using tally.idle_slot[OF t co_invD(5)[OF inv0] idle0[OF False]] pos same0 by simp
    then have "ring_total f c1 = ring_total f c0"
      using False pos same0 labels[of f] by (simp add: c1 ring_total_def sum_list_map_update)
    then have "accounted f c1 = accounted f c0" using False by (simp add: accounted_def c1)
    then show ?thesis using tally.sealSlot_tally(1)[OF t assms(1) pos] by (simp add: c0_def)
  qed (simp add: c1)
  have "label_gap f c0 = label_gap f c" using tally.sealSlot_tally(2)[OF t assms(1) pos] by (simp add: c0_def)
  then show "label_gap f c1 = label_gap f c" by (simp add: c1 label_gap_def)
qed

text \<open>What every operation preserves: the invariant, the configuration and every sealed bucket.\<close>

definition carries :: "'s collector \<Rightarrow> 's collector \<Rightarrow> bool" where
  "carries c d \<longleftrightarrow> co_inv d \<and> co_cfg d = co_cfg c \<and> co_names d = co_names c \<and>
     co_warmup d = co_warmup c \<and> co_buckets c \<subseteq>\<^sub>m co_buckets d"

lemma carries_refl: "co_inv c \<Longrightarrow> carries c c"
  by (simp add: carries_def)

lemma carries_trans: "carries c d \<Longrightarrow> carries d e \<Longrightarrow> carries c e"
  by (auto simp: carries_def intro: map_le_trans)

lemma carriesD:
  assumes "carries c d"
  shows "co_inv d" "co_warmup d = co_warmup c" "co_names d = co_names c" "BucketIndexOf d = BucketIndexOf c"
    "co_buckets c \<subseteq>\<^sub>m co_buckets d" "co_cfg d = co_cfg c"
  using assms by (auto simp: carries_def BucketIndexOf_def fun_eq_iff)

lemma same_books_carries: "same_books c d \<Longrightarrow> co_inv c \<Longrightarrow> carries c d"
  using same_booksD[of c d] by (simp add: carries_def)

lemma recordLate_facts:
  assumes "co_inv c" "l < length (co_names c)"
  shows "carries c (recordLate ops l o' idx c)" "on_timeline (recordLate ops l o' idx c) = on_timeline c + 1"
    "tally f g \<Longrightarrow> accounted f (recordLate ops l o' idx c) =
       accounted f c + (if idx < co_warmup c then 0 else g o')"
    "tally f g \<Longrightarrow> label_gap f (recordLate ops l o' idx c) = label_gap f c"
proof -
  let ?d = "recordLate ops l o' idx c"
  have l: "l < length (co_whole_labels c)" using assms(2) co_invD(4)[OF assms(1)] by simp
  have ok: "ac_ok (co_whole_labels c ! l)" using co_invD(9)[OF assms(1)] l by simp
  have labels: "\<forall>a \<in> set ((co_whole_labels c)[l := accum_add ops o' (co_whole_labels c ! l)]). ac_ok a"
    using co_invD(9)[OF assms(1)] accum_add_ok[OF ok] by (rule ok_update)
  have same: "co_ring ?d = co_ring c" "co_buckets ?d = co_buckets c" "co_names ?d = co_names c"
    "ring_pos ?d = ring_pos c" "co_sealed ?d = co_sealed c" "co_warmup ?d = co_warmup c" "co_cfg ?d = co_cfg c"
    "co_overflow ?d = co_overflow c" "co_late ?d = co_late c + 1"
    by (simp_all add: recordLate_def Let_def ring_pos_def fun_eq_iff)
  have whole: "ac_ok (co_whole ?d)" "\<forall>a \<in> set (co_whole_labels ?d). ac_ok a"
    "length (co_whole_labels ?d) = length (co_names ?d)"
    using co_invD(4,8,9)[OF assms(1)] labels accum_add_ok[OF co_invD(8)[OF assms(1)]]
    by (simp_all add: recordLate_def Let_def)
  have inv: "co_inv ?d"
  proof (rule co_invI)
    fix p assume p: "p < length (co_ring ?d)"
    then show "slot_ok (length (co_names ?d)) (co_ring ?d ! p)" using co_invD(5)[OF assms(1)] by (simp only: same)
    assume "0 \<le> sl_index (co_ring ?d ! p)"
    then show "ring_pos ?d (sl_index (co_ring ?d ! p)) = p \<and> sl_index (co_ring ?d ! p) \<notin> dom (co_buckets ?d)"
      using co_invD(6,7)[OF assms(1), of p] p unfolding same by blast
  next
    fix i assume "i \<in> dom (co_buckets ?d)"
    then show "0 \<le> i \<and> i \<le> co_sealed ?d" using co_invD(11)[OF assms(1), of i] by (simp only: same)
  qed (use whole co_invD(1-3,10,12)[OF assms(1)] in \<open>simp_all add: same\<close>)
  then show "carries c ?d" by (simp add: carries_def same)
  show "on_timeline ?d = on_timeline c + 1" by (simp add: on_timeline_def same)
  assume t: "tally f g"
  note add = tally.add[OF t co_invD(8)[OF assms(1)]] tally.add[OF t ok]
  show "accounted f ?d = accounted f c + (if idx < co_warmup c then 0 else g o')"
    using add(1) by (simp add: accounted_def ring_total_def same) (simp add: recordLate_def Let_def)
  show "label_gap f ?d = label_gap f c"
    using add tally.sum_update[OF t l] by (simp add: label_gap_def recordLate_def Let_def)
qed

lemma slot_add_sum:
  assumes "tally f g" "slot_ok k s" "l < k"
  shows "slot_sum f (slot_add ops l o' s) = slot_sum f s + g o'"
proof -
  have "ac_ok (sl_labels s ! l)" "l < length (sl_labels s)" using assms(2,3) by (auto simp: slot_ok_def)
  then show ?thesis
    using tally.add[OF assms(1)] tally.sum_update[OF assms(1)] by (simp add: slot_sum_def slot_add_def)
qed

lemma slot_add_facts:
  assumes "co_inv c" "pos < length (co_ring c)" "0 \<le> sl_index (co_ring c ! pos)" "l < length (co_names c)"
  shows "carries c (on_slot pos (slot_add ops l o') c)"
    "on_timeline (on_slot pos (slot_add ops l o') c) = on_timeline c + 1"
    "tally f g \<Longrightarrow> accounted f (on_slot pos (slot_add ops l o') c) =
       accounted f c + (if sl_index (co_ring c ! pos) < co_warmup c then 0 else g o')"
    "label_gap f (on_slot pos (slot_add ops l o') c) = label_gap f c"
proof -
  let ?d = "on_slot pos (slot_add ops l o') c"
  note slot = co_invD(5)[OF assms(1,2)]
  have idx: "sl_index (slot_add ops l o' (co_ring c ! pos)) = sl_index (co_ring c ! pos)"
    by (simp add: slot_add_def)
  have "co_inv ?d" using assms slot idx by (intro on_slot_inv slot_add_ok)
  then show "carries c ?d" by (simp add: carries_def on_slot_def)
  show "on_timeline ?d = on_timeline c + 1"
    using slot_add_sum[OF ops_n.tally_axioms slot assms(4)] assms(2)
    by (simp add: on_timeline_def on_slot_def sum_list_map_update)
  show "label_gap f ?d = label_gap f c" by (simp add: label_gap_def on_slot_def)
  assume t: "tally f g"
  show "accounted f ?d = accounted f c + (if sl_index (co_ring c ! pos) < co_warmup c then 0 else g o')"
    using slot_add_sum[OF t slot assms(4)] assms(2) idx
    by (simp add: accounted_def ring_total_def on_slot_def sum_list_map_update)
qed

lemma BucketIndexOf_nonneg: "co_inv c \<Longrightarrow> 0 \<le> BucketIndexOf c off"
  using co_invD(1)[of c] by (simp add: BucketIndexOf_def pos_imp_zdiv_nonneg_iff)

text \<open>The books of one recorded outcome.\<close>

definition measured :: "'s collector \<Rightarrow> outcome \<Rightarrow> bool" where
  "measured c o' \<longleftrightarrow> co_warmup c \<le> BucketIndexOf c (o_intended o')"

lemma Record_facts:
  assumes "co_inv c"
  shows "carries c (Record ops o' c)" "on_timeline (Record ops o' c) = on_timeline c + 1"
    "tally f g \<Longrightarrow> accounted f (Record ops o' c) = accounted f c + (if measured c o' then g o' else 0)"
    "tally f g \<Longrightarrow> label_gap f (Record ops o' c) = label_gap f c"
proof -
  define l idx where "l = label_of c o'" and "idx = BucketIndexOf c (o_intended o')"
  define c0 where "c0 = noteBucket idx (count_status (o_status o') c)"
  have idx: "idx = BucketIndexOf (count_status (o_status o') c) (o_intended o')"
    by (simp add: idx_def same_booksD(5)[OF count_status_books])
  have "same_books c c0"
    using noteBucket_books[of "count_status (o_status o') c" idx] count_status_books[of c "o_status o'"]
    by (simp add: same_books_def c0_def)
  note same = same_booksD[OF this]
  have inv0: "co_inv c0" using assms same by simp
  have l: "l < length (co_names c0)" using label_of_less[OF assms] same by (simp add: l_def)
  have car0: "carries c c0" using \<open>same_books c c0\<close> assms by (rule same_books_carries)
  have rp: "ring_pos (count_status (o_status o') c) = ring_pos c" "ring_pos c0 = ring_pos c"
    using same_booksD(9)[OF count_status_books] same(9) by auto
  have sealed0: "co_sealed (count_status (o_status o') c) = co_sealed c0"
    using same_booksD(7)[OF noteBucket_books[of "count_status (o_status o') c" idx]] by (simp add: c0_def)
  have rec: "Record ops o' c =
      (if idx \<le> co_sealed c0 then recordLate ops l o' idx c0
       else case claim ops idx c0 of None \<Rightarrow> recordLate ops l o' idx c0
         | Some c1 \<Rightarrow> on_slot (ring_pos c0 idx) (slot_add ops l o') c1)"
    unfolding Record_def Let_def idx[symmetric] l_def[symmetric] c0_def[symmetric] sealed0 by (rule refl)
  note late = recordLate_facts[OF inv0 l]
  have m: "measured c o' \<longleftrightarrow> \<not> idx < co_warmup c0" by (auto simp: measured_def idx_def same(6))
  consider "Record ops o' c = recordLate ops l o' idx c0"
    | c1 where "claim ops idx c0 = Some c1" "co_sealed c0 < idx"
        "Record ops o' c = on_slot (ring_pos c0 idx) (slot_add ops l o') c1"
    using rec by (cases "claim ops idx c0") (auto split: if_splits)
  then have "carries c (Record ops o' c) \<and> on_timeline (Record ops o' c) = on_timeline c + 1 \<and>
     (tally f g \<longrightarrow> accounted f (Record ops o' c) = accounted f c + (if measured c o' then g o' else 0) \<and>
        label_gap f (Record ops o' c) = label_gap f c)"
  proof cases
    case 1
    then show ?thesis using late carries_trans[OF car0 late(1)] same(2-4) m by auto
  next
    case 2
    have "0 \<le> idx" using BucketIndexOf_nonneg[OF assms] by (simp add: idx_def)
    note cl = claim_facts[OF inv0 this 2(2,1)]
    have pos: "ring_pos c0 idx < length (co_ring c1)" using ring_pos_less[OF inv0] cl(3) by simp
    have l1: "l < length (co_names c1)" using l cl(5) by simp
    have "0 \<le> sl_index (co_ring c1 ! ring_pos c0 idx)" using cl(2) \<open>0 \<le> idx\<close> by simp
    note add = slot_add_facts[OF cl(1) pos this l1]
    have "carries c0 c1" using cl by (simp add: carries_def)
    then have "carries c (Record ops o' c)" using carries_trans[OF car0 carries_trans[OF _ add(1)]] 2(3) by simp
    moreover have "on_timeline (Record ops o' c) = on_timeline c + 1" using add(2) cl(6) same(4) 2(3) by simp
    moreover have "tally f g \<Longrightarrow> accounted f (Record ops o' c) = accounted f c + (if measured c o' then g o' else 0)"
      using add(3)[of f g] cl(2,4) cl(9)[of f g] same(2) 2(3) m by auto
    moreover have "tally f g \<Longrightarrow> label_gap f (Record ops o' c) = label_gap f c"
      using add(4)[of f] cl(10)[of f g] same(3) 2(3) by simp
    ultimately show ?thesis by blast
  qed
  then show "carries c (Record ops o' c)" "on_timeline (Record ops o' c) = on_timeline c + 1"
    "tally f g \<Longrightarrow> accounted f (Record ops o' c) = accounted f c + (if measured c o' then g o' else 0)"
    "tally f g \<Longrightarrow> label_gap f (Record ops o' c) = label_gap f c" by auto
qed

lemma counterSlot_facts:
  assumes "co_inv c" and f: "\<And>s. sl_index (h s) = sl_index s" "\<And>s. sl_labels (h s) = sl_labels s"
  shows "carries c (counterSlot ops idx h c)" "on_timeline (counterSlot ops idx h c) = on_timeline c"
    "tally f g \<Longrightarrow> accounted f (counterSlot ops idx h c) = accounted f c"
    "tally f g \<Longrightarrow> label_gap f (counterSlot ops idx h c) = label_gap f c"
proof -
  define c0 where "c0 = noteBucket idx c"
  have sb: "same_books c c0" by (simp add: c0_def)
  note same = same_booksD[OF sb]
  have inv0: "co_inv c0" using assms(1) same by simp
  have car0: "carries c c0" using sb assms(1) by (rule same_books_carries)
  have cs: "counterSlot ops idx h c = (if idx \<le> co_sealed c0 then c0
      else case claim ops idx c0 of None \<Rightarrow> c0 | Some c1 \<Rightarrow> on_slot (ring_pos c0 idx) h c1)"
    unfolding counterSlot_def Let_def c0_def[symmetric] by (rule refl)
  consider "counterSlot ops idx h c = c0"
    | c1 where "claim ops idx c0 = Some c1" "co_sealed c0 < idx"
        "counterSlot ops idx h c = on_slot (ring_pos c0 idx) h c1"
    using cs by (cases "claim ops idx c0") (auto split: if_splits)
  then have "carries c (counterSlot ops idx h c) \<and> on_timeline (counterSlot ops idx h c) = on_timeline c \<and>
     (tally f g \<longrightarrow> accounted f (counterSlot ops idx h c) = accounted f c \<and>
        label_gap f (counterSlot ops idx h c) = label_gap f c)"
  proof cases
    case 1
    then show ?thesis using car0 same(2-4) by simp
  next
    case 2
    have "0 \<le> idx" using co_invD(12)[OF inv0] 2(2) by linarith
    note cl = claim_facts[OF inv0 this 2(2,1)]
    have pos: "ring_pos c0 idx < length (co_ring c1)" using ring_pos_less[OF inv0] cl(3) by simp
    let ?d = "on_slot (ring_pos c0 idx) h c1"
    have "slot_ok (length (co_names c1)) (h (co_ring c1 ! ring_pos c0 idx))"
      using co_invD(5)[OF cl(1) pos] f by (simp add: slot_ok_def)
    then have "co_inv ?d" using f by (intro on_slot_inv cl(1) pos)
    then have "carries c1 ?d" by (simp add: carries_def on_slot_def)
    moreover have "carries c0 c1" using cl by (simp add: carries_def)
    ultimately have "carries c ?d" using carries_trans[OF car0] carries_trans by blast
    moreover have sum: "slot_sum k (h s) = slot_sum k s" for k :: "'a accum \<Rightarrow> int" and s
      by (simp add: slot_sum_def f)
    then have "on_timeline ?d = on_timeline c"
      using pos cl(6) same(4) by (simp add: on_timeline_def on_slot_def sum_list_map_update)
    moreover have "tally f g \<Longrightarrow> accounted f ?d = accounted f c"
      using cl(9)[of f g] same(2) pos sum f by (simp add: accounted_def ring_total_def on_slot_def sum_list_map_update)
    moreover have "tally f g \<Longrightarrow> label_gap f ?d = label_gap f c"
      using cl(10)[of f g] same(3) by (simp add: label_gap_def on_slot_def)
    ultimately show ?thesis using 2(3) by simp
  qed
  then show "carries c (counterSlot ops idx h c)" "on_timeline (counterSlot ops idx h c) = on_timeline c"
    "tally f g \<Longrightarrow> accounted f (counterSlot ops idx h c) = accounted f c"
    "tally f g \<Longrightarrow> label_gap f (counterSlot ops idx h c) = label_gap f c" by auto
qed

text \<open>Sealing some of the slots: any subset, one after the other.\<close>

definition seals :: "('s sketch_ops \<Rightarrow> nat \<Rightarrow> 's collector \<Rightarrow> 's collector) \<Rightarrow> bool" where
  "seals st \<longleftrightarrow> (\<forall>ops pos c. st ops pos c = c \<or> st ops pos c = sealSlot ops pos c \<and> 0 \<le> sl_index (co_ring c ! pos))"

lemma seal_due_seals: "seals (\<lambda>ops. seal_due ops now)"
  by (auto simp: seals_def seal_due_def Let_def)

lemma seal_open_seals: "seals seal_open"
  by (auto simp: seals_def seal_open_def)

lemma sealing_facts:
  assumes st: "seals st" and "co_inv c" "n \<le> length (co_ring c)"
  shows "carries c (fold (st ops) [0..<n] c) \<and> on_timeline (fold (st ops) [0..<n] c) = on_timeline c \<and>
    (tally f g \<longrightarrow> accounted f (fold (st ops) [0..<n] c) = accounted f c \<and>
       label_gap f (fold (st ops) [0..<n] c) = label_gap f c) \<and>
    length (co_ring (fold (st ops) [0..<n] c)) = length (co_ring c)"
  using assms(3)
proof (induction n)
  case (Suc n)
  let ?d = "fold (st ops) [0..<n] c"
  have IH: "carries c ?d" "on_timeline ?d = on_timeline c" "length (co_ring ?d) = length (co_ring c)"
    "tally f g \<Longrightarrow> accounted f ?d = accounted f c" "tally f g \<Longrightarrow> label_gap f ?d = label_gap f c"
    using Suc by auto
  have n: "n < length (co_ring ?d)" using IH(3) Suc.prems by simp
  note inv = carriesD(1)[OF IH(1)]
  have fold: "fold (st ops) [0..<Suc n] c = st ops n ?d" by simp
  consider "st ops n ?d = ?d" | "st ops n ?d = sealSlot ops n ?d" "0 \<le> sl_index (co_ring ?d ! n)"
    using st by (auto simp: seals_def)
  then show ?case
  proof cases
    case 2
    obtain k1 roll where r: "roll_of ops n ?d = (k1, roll)" by (cases "roll_of ops n ?d")
    note sel = sealSlot_sel[OF inv n r]
    obtain b where "co_buckets (sealSlot ops n ?d) = (co_buckets ?d)(sl_index (co_ring ?d ! n) \<mapsto> b)"
      using sel(10) by blast
    then have "co_buckets ?d \<subseteq>\<^sub>m co_buckets (sealSlot ops n ?d)"
      using co_invD(7)[OF inv n 2(2)] by (auto simp: map_le_def)
    then have "carries ?d (sealSlot ops n ?d)"
      using sealSlot_inv[OF inv n 2(2)] sel by (simp add: carries_def)
    then show ?thesis
      unfolding fold 2(1)
      using carries_trans[OF IH(1)] sealSlot_timeline[OF inv n 2(2)] IH tally.sealSlot_tally[OF _ inv n]
        sel(6) by simp
  qed (use IH fold in simp)
qed (use assms(2) carries_refl in simp)

lemma SealThrough_facts:
  assumes "co_inv c"
  shows "carries c (SealThrough ops now c)" "on_timeline (SealThrough ops now c) = on_timeline c"
    "tally f g \<Longrightarrow> accounted f (SealThrough ops now c) = accounted f c"
    "tally f g \<Longrightarrow> label_gap f (SealThrough ops now c) = label_gap f c"
  using sealing_facts[OF seal_due_seals assms order_refl] by (auto simp: SealThrough_def)

lemma Finish_facts:
  assumes "co_inv c"
  shows "carries c (Finish ops c)" "on_timeline (Finish ops c) = on_timeline c"
    "tally f g \<Longrightarrow> accounted f (Finish ops c) = accounted f c"
    "tally f g \<Longrightarrow> label_gap f (Finish ops c) = label_gap f c"
  using sealing_facts[OF seal_open_seals assms order_refl] by (auto simp: Finish_def)

text \<open>After \<open>Finish\<close> no bucket is open, so everything accounted for is in the run totals.\<close>

lemma seal_open_closed:
  assumes "co_inv c" "n \<le> length (co_ring c)" "p < n"
  shows "sl_index (co_ring (fold (seal_open ops) [0..<n] c) ! p) < 0"
  using assms(2,3)
proof (induction n arbitrary: p)
  case (Suc n)
  let ?d = "fold (seal_open ops) [0..<n] c"
  have facts: "carries c ?d" "length (co_ring ?d) = length (co_ring c)"
    using sealing_facts[OF seal_open_seals assms(1), of n ops ac_n] Suc.prems(1) by auto
  then have n: "n < length (co_ring ?d)" using Suc.prems(1) by simp
  note inv = carriesD(1)[OF facts(1)]
  obtain k1 roll where r: "roll_of ops n ?d = (k1, roll)" by (cases "roll_of ops n ?d")
  have "co_ring (seal_open ops n ?d) =
      (if 0 \<le> sl_index (co_ring ?d ! n) then (co_ring ?d)[n := reset_slot ops (co_ring ?d ! n)] else co_ring ?d)"
    using sealSlot_sel(6)[OF inv n r] by (simp add: seal_open_def)
  then show ?case using Suc.IH[of p] Suc.prems n by (cases "p = n") auto
qed simp

lemma Finish_closed:
  assumes "co_inv c" "s \<in> set (co_ring (Finish ops c))"
  shows "sl_index s < 0"
proof -
  have "length (co_ring (Finish ops c)) = length (co_ring c)"
    using sealing_facts[OF seal_open_seals assms(1) order_refl, of ops ac_n] by (simp add: Finish_def)
  then show ?thesis
    using seal_open_closed[OF assms(1) order_refl, of _ ops] assms(2)
    by (auto simp: in_set_conv_nth Finish_def)
qed

lemma zero_list: "\<forall>x \<in> set xs. h x = (0 :: int) \<Longrightarrow> sum_list (map h xs) = 0"
  by (induction xs) auto

lemma closed_sums:
  assumes "co_inv c" "\<forall>s \<in> set (co_ring c). sl_index s < 0" "tally f g"
  shows "ring_total f c = 0" "(\<Sum>s \<leftarrow> co_ring c. slot_sum f s) = 0"
proof -
  have "\<forall>s \<in> set (co_ring c). slot_sum f s = 0"
    using tally.idle_slot[OF assms(3) co_invD(5)[OF assms(1)]] assms(2)
    by (metis in_set_conv_nth)
  then show "ring_total f c = 0" "(\<Sum>s \<leftarrow> co_ring c. slot_sum f s) = 0"
    unfolding ring_total_def by (auto intro!: zero_list)
qed

section \<open>Runs\<close>

datatype event =
  ERecord outcome | EOffered int | EDropped int | EInFlight int int | ESeal int

fun co_step :: "'s sketch_ops \<Rightarrow> event \<Rightarrow> 's collector \<Rightarrow> 's collector" where
  "co_step ops (ERecord o') c = Record ops o' c"
| "co_step ops (EOffered i) c = RecordOffered ops i c"
| "co_step ops (EDropped i) c = RecordDropped ops i c"
| "co_step ops (EInFlight i n) c = ObserveInFlight ops i n c"
| "co_step ops (ESeal now) c = SealThrough ops now c"

definition co_run :: "'s sketch_ops \<Rightarrow> event list \<Rightarrow> 's collector \<Rightarrow> 's collector" where
  "co_run ops evs c = fold (co_step ops) evs c"

definition recorded :: "event list \<Rightarrow> outcome list" where
  "recorded evs = [o'. ERecord o' \<leftarrow> evs]"

lemma recorded_simps [simp]:
  "recorded [] = []" "recorded (ERecord o' # evs) = o' # recorded evs"
  "recorded (EOffered i # evs) = recorded evs" "recorded (EDropped i # evs) = recorded evs"
  "recorded (EInFlight i n # evs) = recorded evs" "recorded (ESeal now # evs) = recorded evs"
  by (simp_all add: recorded_def)

lemma co_step_facts:
  assumes "co_inv c"
  shows "carries c (co_step ops e c)" "on_timeline (co_step ops e c) = on_timeline c + int (length (recorded [e]))"
    "tally f g \<Longrightarrow> accounted f (co_step ops e c) = accounted f c + sum_list (map g (filter (measured c) (recorded [e])))"
    "tally f g \<Longrightarrow> label_gap f (co_step ops e c) = label_gap f c"
proof -
  note r = Record_facts[OF assms] and s = SealThrough_facts[OF assms]
  note k = counterSlot_facts[OF assms, of "\<lambda>s. s\<lparr>sl_offered := sl_offered s + 1\<rparr>"]
    counterSlot_facts[OF assms, of "\<lambda>s. s\<lparr>sl_dropped := sl_dropped s + 1\<rparr>"]
    counterSlot_facts[OF assms, of "\<lambda>s. s\<lparr>sl_in_flight := (if n \<le> sl_in_flight s then sl_in_flight s else n)\<rparr>" for n]
  show "carries c (co_step ops e c)" "on_timeline (co_step ops e c) = on_timeline c + int (length (recorded [e]))"
    using r(1,2) s(1,2) k(1,2,5,6,9,10)
    by (cases e; simp add: RecordOffered_def RecordDropped_def ObserveInFlight_def)+
  assume t: "tally f g"
  show "accounted f (co_step ops e c) = accounted f c + sum_list (map g (filter (measured c) (recorded [e])))"
    "label_gap f (co_step ops e c) = label_gap f c"
    using r(3,4)[OF t] s(3,4)[OF t] k(3,4,7,8,11,12)[OF _ _ t]
    by (cases e; simp add: RecordOffered_def RecordDropped_def ObserveInFlight_def)+
qed

lemma measured_carries: "carries c d \<Longrightarrow> measured d = measured c"
  using carriesD(2,4)[of c d] by (simp add: measured_def fun_eq_iff)

lemma co_run_facts:
  "co_inv c \<Longrightarrow> carries c (co_run ops evs c) \<and>
   on_timeline (co_run ops evs c) = on_timeline c + int (length (recorded evs)) \<and>
   (tally f g \<longrightarrow> accounted f (co_run ops evs c) =
      accounted f c + sum_list (map g (filter (measured c) (recorded evs))) \<and>
      label_gap f (co_run ops evs c) = label_gap f c)"
proof (induction evs arbitrary: c)
  case (Cons e evs)
  note one = co_step_facts[OF Cons.prems, where ops = ops and e = e]
  note IH = Cons.IH[OF carriesD(1)[OF one(1)]]
  have run: "co_run ops (e # evs) c = co_run ops evs (co_step ops e c)" by (simp add: co_run_def)
  have rec: "recorded (e # evs) = recorded [e] @ recorded evs" by (cases e) simp_all
  show ?case
    unfolding run rec using carries_trans[OF one(1)] IH one(2-4) measured_carries[OF one(1)] by simp
qed (simp add: co_run_def carries_refl)

end
