(* ===== verification/CollectorRuns.thy ===== *)
theory CollectorRuns
  imports CollectorFacts
begin

text \<open>
  What the snapshot of a finished run says of the operations that were performed on the
  collector, in any order: totals, error table, labels, timeline, and that a sealed bucket is
  final.
\<close>

section \<open>A finished run\<close>

lemma new_slot_sum: "f (newAccum ops) = 0 \<Longrightarrow> slot_sum f (new_slot ops k) = 0"
  by (simp add: slot_sum_def new_slot_def sum_list_replicate)

lemma NewCollector_sel:
  assumes "NewCollector ops cfg = Inr c"
  shows "co_cfg c = withDefaults cfg" "0 < cf_width cfg" "0 \<le> cf_warmup cfg" "0 \<le> cf_seal_delay cfg"
    "co_warmup c = (cf_warmup cfg + cf_width cfg - 1) div cf_width cfg"
    "co_ring c = replicate (ring_size cfg) (new_slot ops (length (co_names c)))"
    "co_whole c = newAccum ops" "co_whole_labels c = replicate (length (co_names c)) (newAccum ops)"
    "co_buckets c = Map.empty" "co_late c = 0" "co_sealed c = -1" "co_overflow c < length (co_names c)"
proof -
  have v: "validate (withDefaults cfg) = None"
    using assms by (auto simp: NewCollector_def Let_def split: option.splits)
  then show w: "0 < cf_width cfg" "0 \<le> cf_warmup cfg" "0 \<le> cf_seal_delay cfg"
    by (auto simp: validate_def withDefaults_def split: if_splits)
  obtain names over where cl: "collect_labels (cf_labels (withDefaults cfg)) ([], False) = (names, over)"
    by (cases "collect_labels (cf_labels (withDefaults cfg)) ([], False)")
  have sizes: "ring_size (withDefaults cfg) = ring_size cfg" "cf_warmup (withDefaults cfg) = cf_warmup cfg"
    "cf_width (withDefaults cfg) = cf_width cfg"
    by (simp_all add: ring_size_def withDefaults_def)
  have "(cf_width cfg - 1) div cf_width cfg = 0" using w(1) by (simp add: div_pos_pos_trivial)
  then show "co_cfg c = withDefaults cfg"
    "co_warmup c = (cf_warmup cfg + cf_width cfg - 1) div cf_width cfg"
    "co_ring c = replicate (ring_size cfg) (new_slot ops (length (co_names c)))"
    "co_whole c = newAccum ops" "co_whole_labels c = replicate (length (co_names c)) (newAccum ops)"
    "co_buckets c = Map.empty" "co_late c = 0" "co_sealed c = -1" "co_overflow c < length (co_names c)"
    using assms v cl w sizes by (auto simp: NewCollector_def Let_def)
qed

lemma NewCollector_inv:
  assumes "NewCollector ops cfg = Inr c"
  shows "co_inv c" "on_timeline c = 0" "tally f g \<Longrightarrow> accounted f c = 0" "tally f g \<Longrightarrow> label_gap f c = 0"
proof -
  note sel = NewCollector_sel[OF assms]
  have slot: "slot_ok (length (co_names c)) (new_slot ops (length (co_names c)))"
    by (auto simp: slot_ok_def new_slot_def) (simp add: newAccum_def)
  have idx: "sl_index (new_slot ops k) = -1" for k by (simp add: new_slot_def)
  have "0 < ring_size cfg" by (simp add: ring_size_def Let_def)
  then show "co_inv c"
    using sel(2,12) slot by (intro co_invI) (simp_all add: sel(1,6-9,11) idx withDefaults_def)
  have zero: "f (newAccum ops) = 0 \<Longrightarrow> slot_sum f (new_slot ops k) = 0" for f :: "'a accum \<Rightarrow> int" and k
    by (rule new_slot_sum)
  show "on_timeline c = 0"
    using zero[of ac_n "length (co_names c)"]
    by (simp add: on_timeline_def sel(6,9,10) newAccum_def sum_list_replicate)
  assume t: "tally f g"
  note e = tally.empty[OF t, of ops]
  show "accounted f c = 0"
    using new_slot_sum[of f ops "length (co_names c)", OF e] by (simp add: accounted_def ring_total_def sel(6,7) e sum_list_replicate)
  show "label_gap f c = 0" by (simp add: label_gap_def sel(7,8) e sum_list_replicate)
qed

text \<open>The books of a whole run, closed by \<open>Finish\<close>.\<close>

lemma finished_run:
  fixes evs :: "event list"
  assumes "NewCollector ops cfg = Inr c0"
  defines "c \<equiv> Finish ops (co_run ops evs c0)"
  shows "co_inv c" "carries c0 c"
    "tally f g \<Longrightarrow> f (co_whole c) = sum_list (map g (filter (measured c0) (recorded evs)))"
    "tally f g \<Longrightarrow> sum_list (map f (co_whole_labels c)) = f (co_whole c)"
    "(\<Sum>i \<in> dom (co_buckets c). bs_n (the (co_buckets c i))) + co_late c = int (length (recorded evs))"
proof -
  note new = NewCollector_inv[OF assms(1)]
  note run = co_run_facts[OF new(1), of ops evs]
  have inv: "co_inv (co_run ops evs c0)" using run carriesD(1) by blast
  note fin = Finish_facts[OF inv, where ops = ops, folded c_def]
  show "co_inv c" using carriesD(1)[OF fin(1)] .
  show "carries c0 c" using run carries_trans fin(1) by blast
  have closed: "\<forall>s \<in> set (co_ring c). sl_index s < 0" using Finish_closed[OF inv] by (simp add: c_def)
  show "(\<Sum>i \<in> dom (co_buckets c). bs_n (the (co_buckets c i))) + co_late c = int (length (recorded evs))"
    using fin(2) run new(2) closed_sums(2)[OF \<open>co_inv c\<close> closed ops_n.tally_axioms]
    by (simp add: on_timeline_def)
  assume t: "tally f g"
  have "accounted f c = sum_list (map g (filter (measured c0) (recorded evs)))"
    using fin(3)[OF t] run new(3)[OF t] t by simp
  then show "f (co_whole c) = sum_list (map g (filter (measured c0) (recorded evs)))"
    using closed_sums(1)[OF \<open>co_inv c\<close> closed t] by (simp add: accounted_def)
  show "sum_list (map f (co_whole_labels c)) = f (co_whole c)"
    using fin(4)[OF t] run new(4)[OF t] t by (simp add: label_gap_def)
qed

section \<open>Properties\<close>

text \<open>A sketch that keeps nothing, and a run of three operations, for the concrete instances.\<close>

definition no_sketch :: "unit sketch_ops" where
  "no_sketch = \<lparr>sk_empty = (), sk_add = (\<lambda>_ _. Some ()), sk_merge = (\<lambda>_ _. Some ()), sk_count = (\<lambda>_. 0),
     sk_quantile = (\<lambda>_ _. None), sk_encode = (\<lambda>_. []), sk_decode = (\<lambda>_. Some ())\<rparr>"

definition small_cfg :: config where
  "small_cfg = \<lparr>cf_runner = ''http'', cf_kind = KindApp, cf_labels = [''get''], cf_width = 1000000000,
     cf_warmup = 1000000000, cf_seal_delay = 2000000000, cf_min_samples = 1, cf_accuracy = 1 / 100,
     cf_budget = 100, cf_track = False\<rparr>"

definition op_at :: "int \<Rightarrow> outcome_class \<Rightarrow> outcome" where
  "op_at t k = \<lparr>o_label = 0, o_class = k, o_status = 0, o_intended = t, o_dispatched = t, o_worker_start = t,
     o_conn_acquired = t, o_first_byte = 0, o_end = t + 5000000, o_bytes_in = 10, o_bytes_out = 1\<rparr>"

definition small_run :: "event list" where
  "small_run = [ERecord (op_at 0 ClassOK), ERecord (op_at 1500000000 ClassTimeout), ESeal 9000000000,
     ERecord (op_at 1600000000 ClassOK), ERecord (op_at 7000000000 ClassOK)]"

lemma small_collector:
  "\<exists>c0. NewCollector no_sketch small_cfg = Inr c0 \<and>
     filter (measured c0) (recorded small_run) =
       [op_at 1500000000 ClassTimeout, op_at 1600000000 ClassOK, op_at 7000000000 ClassOK]"
proof -
  obtain c0 where c0: "NewCollector no_sketch small_cfg = Inr c0"
    by (cases "NewCollector no_sketch small_cfg")
      (auto simp: NewCollector_def Let_def validate_def withDefaults_def small_cfg_def split: prod.splits)
  have "measured c0 o' \<longleftrightarrow> 1000000000 \<le> o_intended o'" if "0 \<le> o_intended o'" for o'
    using NewCollector_sel(1,5)[OF c0] that pos_imp_zdiv_pos_iff[of 1000000000 "o_intended o'"]
    by (simp add: measured_def BucketIndexOf_def withDefaults_def small_cfg_def int_one_le_iff_zero_less)
  then show ?thesis using c0 by (simp add: small_run_def op_at_def)
qed

lemma small_sealed:
  assumes "NewCollector no_sketch small_cfg = Inr c0"
  shows "\<exists>b. co_buckets (co_run no_sketch (take 3 small_run) c0) 0 = Some b"
proof -
  have "case NewCollector no_sketch small_cfg of
      Inr c \<Rightarrow> co_buckets (co_run no_sketch (take 3 small_run) c) 0 \<noteq> None | Inl _ \<Rightarrow> True"
    by code_simp
  then show ?thesis using assms by auto
qed

text \<open>C3. The run totals lose nothing and count nothing twice: whatever the order of the operations,
  however early buckets seal and however late outcomes arrive, the summary's operations,
  successes and bytes are those of the outcomes recorded after the warm-up.\<close>

theorem run_totals:
  assumes "NewCollector ops cfg = Inr c0"
  shows "(let s = sn_summary (Snapshot ops (Finish ops (co_run ops evs c0)));
              post = filter (measured c0) (recorded evs)
          in (os_n s, os_ok s, os_bytes_in s, os_bytes_out s) =
             (int (length post), int (length (filter (\<lambda>o'. o_class o' = ClassOK) post)),
              sum_list (map o_bytes_in post), sum_list (map o_bytes_out post)))"
proof -
  note t = finished_run(3)[OF assms, where evs = evs]
  have count: "(\<Sum>o' \<leftarrow> xs. if o_class o' = k then 1 else 0) = int (length (filter (\<lambda>o'. o_class o' = k) xs))" for k xs
    by (induction xs) simp_all
  have length: "(\<Sum>o' \<leftarrow> xs. 1) = int (length xs)" for xs :: "outcome list"
    by (induction xs) simp_all
  show ?thesis
    using t[OF ops_n.tally_axioms] t[OF class_n.tally_axioms[of ClassOK]] t[OF bytes_in.tally_axioms]
      t[OF bytes_out.tally_axioms]
    by (simp add: Snapshot_def accum_summary_def Let_def count length)
qed

theorem run_totals_witness:
  "\<exists>c0. NewCollector no_sketch small_cfg = Inr c0 \<and>
     os_n (sn_summary (Snapshot no_sketch (Finish no_sketch (co_run no_sketch small_run c0)))) = 3"
proof -
  obtain c0 where c0: "NewCollector no_sketch small_cfg = Inr c0"
    "filter (measured c0) (recorded small_run) =
       [op_at 1500000000 ClassTimeout, op_at 1600000000 ClassOK, op_at 7000000000 ClassOK]"
    using small_collector by blast
  then show ?thesis using run_totals[OF c0(1), of small_run] by (simp add: Let_def)
qed

text \<open>The error table of the run is exact: each failing class with its count, and no other entry.\<close>

theorem run_errors:
  assumes "NewCollector ops cfg = Inr c0"
  shows "os_errors (sn_summary (Snapshot ops (Finish ops (co_run ops evs c0)))) =
    (let n = (\<lambda>k. int (length (filter (\<lambda>o'. o_class o' = k) (filter (measured c0) (recorded evs)))))
     in [(class_string k, n k). k \<leftarrow> Classes, 0 < n k, k \<noteq> ClassOK])"
proof -
  note t = finished_run(3)[OF assms, where evs = evs]
  have count: "(\<Sum>o' \<leftarrow> xs. if o_class o' = k then 1 else 0) = int (length (filter (\<lambda>o'. o_class o' = k) xs))" for k xs
    by (induction xs) simp_all
  have "ac_errs (co_whole (Finish ops (co_run ops evs c0))) ! class_index k =
      int (length (filter (\<lambda>o'. o_class o' = k) (filter (measured c0) (recorded evs))))" for k
    using t[OF class_n.tally_axioms[of k]] by (simp only: count)
  then show ?thesis by (simp only: Snapshot_def accum_summary_def Let_def snapshot.simps op_summary.simps error_map_def)
qed

theorem run_errors_witness:
  "\<exists>c0. NewCollector no_sketch small_cfg = Inr c0 \<and>
     os_errors (sn_summary (Snapshot no_sketch (Finish no_sketch (co_run no_sketch small_run c0)))) = [(''timeout'', 1)]"
proof -
  obtain c0 where c0: "NewCollector no_sketch small_cfg = Inr c0"
    "filter (measured c0) (recorded small_run) =
       [op_at 1500000000 ClassTimeout, op_at 1600000000 ClassOK, op_at 7000000000 ClassOK]"
    using small_collector by blast
  have "os_errors (sn_summary (Snapshot no_sketch (Finish no_sketch (co_run no_sketch small_run c0)))) = [(''timeout'', 1)]"
    unfolding run_errors[OF c0(1)] c0(2)
    by (simp add: Let_def Classes_def op_at_def class_string_def classNames_def)
  then show ?thesis using c0(1) by blast
qed

text \<open>The labels add up: the operations of the label summaries are those of the runner's.\<close>

theorem label_totals:
  fixes evs :: "event list"
  assumes "NewCollector ops cfg = Inr c0"
  defines "s \<equiv> Snapshot ops (Finish ops (co_run ops evs c0))"
  shows "sum_list (map (\<lambda>(l, x). os_n x) (sn_label_summaries s)) = os_n (sn_summary s)"
proof -
  let ?w = "co_whole_labels (Finish ops (co_run ops evs c0))"
  have skip: "sum_list (map (\<lambda>i. ac_n (?w ! i)) (filter (\<lambda>i. ac_n (?w ! i) \<noteq> 0) is)) =
      sum_list (map (\<lambda>i. ac_n (?w ! i)) is)" for "is"
    by (induction "is") auto
  have all: "map (\<lambda>i. ac_n (?w ! i)) [0..<length ?w] = map ac_n ?w"
    by (rule nth_equalityI) simp_all
  have "sum_list (map (\<lambda>(l, x). os_n x) (sn_label_summaries s)) =
      sum_list (map (\<lambda>i. ac_n (?w ! i)) (filter (\<lambda>i. ac_n (?w ! i) \<noteq> 0) [0..<length ?w]))"
    by (simp add: s_def Snapshot_def accum_summary_def Let_def o_def)
  also have "\<dots> = ac_n (co_whole (Finish ops (co_run ops evs c0)))"
    using finished_run(4)[OF assms(1) ops_n.tally_axioms, where evs = evs] unfolding skip all .
  also have "\<dots> = os_n (sn_summary s)" by (simp add: s_def Snapshot_def accum_summary_def Let_def)
  finally show ?thesis .
qed

theorem label_totals_witness:
  "\<exists>c0. NewCollector no_sketch small_cfg = Inr c0 \<and>
     (let s = Snapshot no_sketch (Finish no_sketch (co_run no_sketch small_run c0))
      in sum_list (map (\<lambda>(l, x). os_n x) (sn_label_summaries s)) = os_n (sn_summary s))"
proof -
  obtain c0 where c0: "NewCollector no_sketch small_cfg = Inr c0" using small_collector by blast
  have "let s = Snapshot no_sketch (Finish no_sketch (co_run no_sketch small_run c0))
      in sum_list (map (\<lambda>(l, x). os_n x) (sn_label_summaries s)) = os_n (sn_summary s)"
    unfolding Let_def by (rule label_totals[OF c0])
  then show ?thesis using c0 by blast
qed

lemma sum_over_interval:
  fixes m :: "int \<Rightarrow> int"
  assumes "D \<subseteq> {a..b}" "\<forall>i. i \<notin> D \<longrightarrow> m i = 0"
  shows "sum_list (map m [a..b]) = (\<Sum>i \<in> D. m i)"
proof -
  have "sum_list (map m [a..b]) = (\<Sum>i \<in> {a..b}. m i)"
    by (metis sum_list_distinct_conv_sum_set distinct_upto set_upto)
  also have "\<dots> = (\<Sum>i \<in> D. m i)" using assms by (intro sum.mono_neutral_right) auto
  finally show ?thesis .
qed

lemma timeline_sum:
  assumes "finite (dom (co_buckets c))"
  shows "sum_list (map bs_n (timeline c)) = (\<Sum>i \<in> dom (co_buckets c). bs_n (the (co_buckets c i)))"
proof (cases "dom (co_buckets c) = {}")
  case True
  then show ?thesis by (simp add: timeline_def sortedBucketIndexes_def)
next
  case False
  let ?D = "dom (co_buckets c)" and ?ixs = "sorted_list_of_set (dom (co_buckets c))"
  define m where "m i = (case co_buckets c i of Some b \<Rightarrow> bs_n b | None \<Rightarrow> 0)" for i
  have ixs: "?ixs \<noteq> []" "set ?ixs = ?D" "sorted ?ixs" using False assms by simp_all
  have "?D \<subseteq> {hd ?ixs..last ?ixs}" using sorted_within[OF ixs(3)] unfolding ixs(2) atLeastAtMost_iff subset_iff by blast
  then have "sum_list (map m [hd ?ixs..last ?ixs]) = (\<Sum>i \<in> ?D. m i)"
    by (intro sum_over_interval) (auto simp: m_def split: option.splits)
  also have "\<dots> = (\<Sum>i \<in> ?D. bs_n (the (co_buckets c i)))"
    by (intro sum.cong) (auto simp: m_def)
  also have "map m [hd ?ixs..last ?ixs] = map bs_n (timeline c)"
  proof -
    have tl: "timeline c = map (\<lambda>i. case co_buckets c i of Some b \<Rightarrow> b | None \<Rightarrow> empty_bucket c i) [hd ?ixs..last ?ixs]"
      unfolding timeline_def sortedBucketIndexes_def Let_def using ixs(1) by (simp only: if_False)
    have "m i = bs_n (case co_buckets c i of Some b \<Rightarrow> b | None \<Rightarrow> empty_bucket c i)" for i
      by (simp add: m_def empty_bucket_def Let_def split: option.split)
    then show ?thesis unfolding tl map_map o_def by (intro map_cong refl)
  qed
  finally show ?thesis .
qed






end
