(* ===== verification/Executor.thy ===== *)
theory Executor
  imports CollectorRuns Schedule "HOL-Library.Sublist"
begin

text \<open>
  The open-model executor, \<open>internal/executor/executor.go\<close> and \<open>lag.go\<close>: the generator walks
  the schedule and offers arrivals, a fixed set of workers takes them from a bounded queue
  and performs them. The goroutines interleave: a step is one pass of the generator's loop or
  one move of one worker. The runner, the random source and the sketch library are
  parameters, times come from outside. The last four fields of the state are a history that
  no operation reads.
\<close>

section \<open>The lag tracker\<close>

record 's lagTracker =
  lt_sketch :: 's
  lt_n :: int
  lt_sum :: real
  lt_max :: real

definition newLagTracker :: "'s sketch_ops option \<Rightarrow> 's lagTracker result" where
  "newLagTracker mapping = (case mapping of
      None \<Rightarrow> Inl (new_error CodeInternal)
    | Some ops \<Rightarrow> Inr \<lparr>lt_sketch = sk_empty ops, lt_n = 0, lt_sum = 0, lt_max = 0\<rparr>)"

definition lag_add :: "'s sketch_ops \<Rightarrow> int \<Rightarrow> 's lagTracker \<Rightarrow> 's lagTracker" where
  "lag_add ops d l =
     (let m = ms d; m = (if m < 0 then 0 else m)
      in case sk_add ops m (lt_sketch l) of
           None \<Rightarrow> l
         | Some s \<Rightarrow> \<lparr>lt_sketch = s, lt_n = lt_n l + 1, lt_sum = lt_sum l + m,
                      lt_max = (if lt_max l < m then m else lt_max l)\<rparr>)"

definition lag_quantiles :: "'s sketch_ops \<Rightarrow> 's lagTracker \<Rightarrow> quantiles" where
  "lag_quantiles ops l =
     (let q = \<lparr>q_p50 = 0, q_p90 = 0, q_p95 = 0, q_p99 = 0, q_p999 = 0, q_max = lt_max l,
               q_mean = (if 0 < lt_n l then lt_sum l / real_of_int (lt_n l) else 0)\<rparr>;
          rd = read_quantile ops (lt_sketch l)
      in if sk_count ops (lt_sketch l) = 0 then q
         else q\<lparr>q_p50 := rd 0.5, q_p90 := rd 0.9, q_p95 := rd 0.95, q_p99 := rd 0.99, q_p999 := rd 0.999\<rparr>)"

section \<open>State\<close>

definition DefaultMaxInFlight :: int where "DefaultMaxInFlight = 256"
definition DefaultQueueDepth :: int where "DefaultQueueDepth = 64"

record job =
  jb_index :: int
  jb_intended :: int
  jb_dispatched :: int

text \<open>
  Where a worker is: before its next receive, parked in the receive, holding a job it has
  just received, performing it, or returned.
\<close>

datatype worker = Ready | Parked | Got job | Busy iteration | Exited

record ('r, 's) exec_config =
  ec_runner :: bool
  ec_schedule :: "'r option schedule option"
  ec_collector :: "'s collector option"
  ec_clock :: bool
  ec_max_in_flight :: int
  ec_queue_depth :: int

record ('r, 's) exec =
  ex_max :: nat
  ex_depth :: nat
  ex_sched :: "'r option schedule"
  ex_collector :: "'s collector"
  ex_queue :: "job list"
  ex_closed :: bool
  ex_workers :: "worker list"
  ex_in_flight :: int
  ex_peak :: int
  ex_offered :: int
  ex_dispatched :: int
  ex_dropped :: int
  ex_lag :: "'s lagTracker"
  ex_offsets :: "int list"
  ex_sent :: "job list"
  ex_finished :: "job list"
  ex_events :: "event list"

definition NewArrivalRate ::
  "'s sketch_ops option \<Rightarrow> ('r, 's) exec_config \<Rightarrow> ('r, 's) exec result" where
  "NewArrivalRate mapping cfg =
     (if \<not> ec_runner cfg then Inl (new_error CodeInternal)
      else case ec_schedule cfg of None \<Rightarrow> Inl (new_error CodeInternal)
      | Some sched \<Rightarrow> (case ec_collector cfg of None \<Rightarrow> Inl (new_error CodeInternal)
      | Some coll \<Rightarrow>
          if \<not> ec_clock cfg then Inl (new_error CodeInternal)
          else let mx = (if ec_max_in_flight cfg \<le> 0 then DefaultMaxInFlight else ec_max_in_flight cfg);
                   depth = (if ec_queue_depth cfg < 0 then DefaultQueueDepth else ec_queue_depth cfg)
               in rbind (newLagTracker mapping) (\<lambda>lag. Inr \<lparr>
                    ex_max = nat mx, ex_depth = nat depth, ex_sched = sched, ex_collector = coll,
                    ex_queue = [], ex_closed = False, ex_workers = replicate (nat mx) Ready,
                    ex_in_flight = 0, ex_peak = 0, ex_offered = 0, ex_dispatched = 0, ex_dropped = 0,
                    ex_lag = lag, ex_offsets = [], ex_sent = [], ex_finished = [], ex_events = []\<rparr>)))"

section \<open>The generator\<close>

text \<open>An operation on the collector, kept in the history.\<close>

definition on_collector :: "'s sketch_ops \<Rightarrow> event \<Rightarrow> ('r, 's) exec \<Rightarrow> ('r, 's) exec" where
  "on_collector ops ev e =
     e\<lparr>ex_collector := co_step ops ev (ex_collector e), ex_events := ex_events e @ [ev]\<rparr>"

text \<open>The \<open>select\<close>: a parked worker is handed the job, otherwise it takes room in the queue.\<close>

definition send :: "nat option \<Rightarrow> job \<Rightarrow> ('r, 's) exec \<Rightarrow> ('r, 's) exec option" where
  "send w j e = (case w of
      Some i \<Rightarrow> Some (e\<lparr>ex_workers := (ex_workers e)[i := Got j], ex_sent := ex_sent e @ [j]\<rparr>)
    | None \<Rightarrow> if length (ex_queue e) < ex_depth e
              then Some (e\<lparr>ex_queue := ex_queue e @ [j], ex_sent := ex_sent e @ [j]\<rparr>) else None)"

definition recordLag :: "'s sketch_ops \<Rightarrow> int \<Rightarrow> ('r, 's) exec \<Rightarrow> ('r, 's) exec" where
  "recordLag ops d e = e\<lparr>ex_lag := lag_add ops d (ex_lag e)\<rparr>"

definition offer :: "'s sketch_ops \<Rightarrow> nat option \<Rightarrow> int \<Rightarrow> int \<Rightarrow> ('r, 's) exec \<Rightarrow> ('r, 's) exec" where
  "offer ops w off now e =
     (let bucket = BucketIndexOf (ex_collector e) off;
          e = e\<lparr>ex_offered := ex_offered e + 1, ex_offsets := ex_offsets e @ [off]\<rparr>;
          e = on_collector ops (EOffered bucket) e;
          lag = now - off; lag = (if lag < 0 then 0 else lag);
          e = recordLag ops lag e
      in case send w \<lparr>jb_index = ex_offered e, jb_intended = off, jb_dispatched = now\<rparr> e of
           Some e' \<Rightarrow> e'\<lparr>ex_dispatched := ex_dispatched e' + 1\<rparr>
         | None \<Rightarrow> on_collector ops (EDropped bucket) (e\<lparr>ex_dropped := ex_dropped e + 1\<rparr>))"

text \<open>The worker a job may be handed to: any parked one, and none only if nobody is parked.\<close>

definition receiver :: "('r, 's) exec \<Rightarrow> nat option \<Rightarrow> bool" where
  "receiver e w = (case w of
      Some i \<Rightarrow> i < length (ex_workers e) \<and> ex_workers e ! i = Parked
    | None \<Rightarrow> Parked \<notin> set (ex_workers e))"

definition close :: "('r, 's) exec \<Rightarrow> ('r, 's) exec" where
  "close e = e\<lparr>ex_closed := True\<rparr>"

section \<open>The workers\<close>

definition set_worker :: "nat \<Rightarrow> worker \<Rightarrow> ('r, 's) exec \<Rightarrow> ('r, 's) exec" where
  "set_worker i w e = e\<lparr>ex_workers := (ex_workers e)[i := w]\<rparr>"

definition notePeak :: "int \<Rightarrow> ('r, 's) exec \<Rightarrow> ('r, 's) exec" where
  "notePeak n e = (if n \<le> ex_peak e then e else e\<lparr>ex_peak := n\<rparr>)"

definition begin_job :: "'s sketch_ops \<Rightarrow> nat \<Rightarrow> int \<Rightarrow> job \<Rightarrow> ('r, 's) exec \<Rightarrow> ('r, 's) exec" where
  "begin_job ops i now j e =
     (let n = ex_in_flight e + 1; e = notePeak n (e\<lparr>ex_in_flight := n\<rparr>);
          e = on_collector ops (EInFlight (BucketIndexOf (ex_collector e) (jb_intended j)) n) e
      in set_worker i (Busy \<lparr>it_index = jb_index j, it_worker = int i, it_intended = jb_intended j,
           it_dispatched = jb_dispatched j, it_worker_start = now\<rparr>) e)"

text \<open>\<open>Do\<close> has recorded the outcomes \<open>os\<close> and returned.\<close>

definition job_of :: "iteration \<Rightarrow> job" where
  "job_of it = \<lparr>jb_index = it_index it, jb_intended = it_intended it, jb_dispatched = it_dispatched it\<rparr>"

definition finish_job ::
  "'s sketch_ops \<Rightarrow> nat \<Rightarrow> iteration \<Rightarrow> outcome list \<Rightarrow> ('r, 's) exec \<Rightarrow> ('r, 's) exec" where
  "finish_job ops i it os e =
     (let e = fold (\<lambda>o'. on_collector ops (ERecord o')) os e
      in set_worker i Ready (e\<lparr>ex_in_flight := ex_in_flight e - 1, ex_finished := ex_finished e @ [job_of it]\<rparr>))"

text \<open>
  A move of a worker. \<open>does it os\<close> says that the runner, given the iteration \<open>it\<close>, may record
  \<open>os\<close>. A receive from a closed and empty queue ends the loop.
\<close>

inductive worker_step ::
  "'s sketch_ops \<Rightarrow> (iteration \<Rightarrow> outcome list \<Rightarrow> bool) \<Rightarrow> ('r, 's) exec \<Rightarrow> ('r, 's) exec \<Rightarrow> bool"
  for ops does where
  park: "i < length (ex_workers e) \<Longrightarrow> ex_workers e ! i = Ready \<Longrightarrow> ex_queue e = [] \<Longrightarrow> \<not> ex_closed e \<Longrightarrow>
     worker_step ops does e (set_worker i Parked e)"
| receive: "i < length (ex_workers e) \<Longrightarrow> ex_workers e ! i = Ready \<Longrightarrow> ex_queue e = j # q \<Longrightarrow>
     worker_step ops does e (set_worker i (Got j) (e\<lparr>ex_queue := q\<rparr>))"
| begins: "i < length (ex_workers e) \<Longrightarrow> ex_workers e ! i = Got j \<Longrightarrow>
     worker_step ops does e (begin_job ops i now j e)"
| finish: "i < length (ex_workers e) \<Longrightarrow> ex_workers e ! i = Busy it \<Longrightarrow> does it os \<Longrightarrow>
     worker_step ops does e (finish_job ops i it os e)"
| leave: "i < length (ex_workers e) \<Longrightarrow> ex_workers e ! i = Ready \<or> ex_workers e ! i = Parked \<Longrightarrow>
     ex_queue e = [] \<Longrightarrow> ex_closed e \<Longrightarrow> worker_step ops does e (set_worker i Exited e)"

text \<open>
  A step of the whole: a pass of the generator, which offers an arrival, ends with the
  schedule or is cancelled in its sleep; a worker's move; or the seal of a bucket by the engine's sampler.
\<close>

inductive exec_step ::
  "'s sketch_ops \<Rightarrow> ('r \<Rightarrow> real \<times> 'r) \<Rightarrow> (iteration \<Rightarrow> outcome list \<Rightarrow> bool) \<Rightarrow> ('r, 's) exec \<Rightarrow> ('r, 's) exec \<Rightarrow> bool"
  for ops draw does where
  arrive: "\<not> ex_closed e \<Longrightarrow> Next draw (ex_sched e) = (Some off, s) \<Longrightarrow> receiver e w \<Longrightarrow>
     exec_step ops draw does e (offer ops w off now (e\<lparr>ex_sched := s\<rparr>))"
| exhausted: "\<not> ex_closed e \<Longrightarrow> Next draw (ex_sched e) = (None, s) \<Longrightarrow>
     exec_step ops draw does e (close (e\<lparr>ex_sched := s\<rparr>))"
| cancelled: "\<not> ex_closed e \<Longrightarrow> Next draw (ex_sched e) = (Some off, s) \<Longrightarrow>
     exec_step ops draw does e (close (e\<lparr>ex_sched := s\<rparr>))"
| work: "worker_step ops does e e' \<Longrightarrow> exec_step ops draw does e e'"
| seal: "exec_step ops draw does e (on_collector ops (ESeal now) e)"

inductive reached ::
  "'s sketch_ops \<Rightarrow> ('r \<Rightarrow> real \<times> 'r) \<Rightarrow> (iteration \<Rightarrow> outcome list \<Rightarrow> bool) \<Rightarrow> ('r, 's) exec \<Rightarrow> ('r, 's) exec \<Rightarrow> bool"
  for ops draw does e0 where
  start: "reached ops draw does e0 e0"
| step: "reached ops draw does e0 e \<Longrightarrow> exec_step ops draw does e e' \<Longrightarrow> reached ops draw does e0 e'"

inductive_cases worker_stepE: "worker_step ops does e e'"
inductive_cases exec_stepE: "exec_step ops draw does e e'"

section \<open>What the executor reports\<close>

record stats =
  st_offered :: int
  st_dispatched :: int
  st_dropped :: int
  st_peak :: int
  st_max :: nat
  st_lag :: quantiles

definition Stats :: "'s sketch_ops \<Rightarrow> ('r, 's) exec \<Rightarrow> stats" where
  "Stats ops e = \<lparr>st_offered = ex_offered e, st_dispatched = ex_dispatched e, st_dropped = ex_dropped e,
     st_peak = ex_peak e, st_max = ex_max e, st_lag = lag_quantiles ops (ex_lag e)\<rparr>"

definition InFlight :: "('r, 's) exec \<Rightarrow> int" where
  "InFlight e = ex_in_flight e"


section \<open>Where the jobs are\<close>

fun held :: "worker \<Rightarrow> job list" where
  "held (Got j) = [j]"
| "held (Busy it) = [job_of it]"
| "held _ = []"

fun busy :: "worker \<Rightarrow> int" where
  "busy (Busy it) = 1"
| "busy _ = 0"

definition in_hand :: "('r, 's) exec \<Rightarrow> job list" where
  "in_hand e = concat (map held (ex_workers e))"

lemma held_update:
  "i < length ws \<Longrightarrow> mset (concat (map held (ws[i := w]))) + mset (held (ws ! i)) =
     mset (concat (map held ws)) + mset (held w)"
  by (induction ws arbitrary: i) (auto split: nat.splits)

text \<open>
  Jobs are neither lost nor doubled: each one sent is queued, in a worker's hand or finished.
  The counters agree with it, and every bound of the configuration holds.
\<close>

definition jobs_ok :: "('r, 's) exec \<Rightarrow> bool" where
  "jobs_ok e \<longleftrightarrow> mset (ex_sent e) = mset (ex_queue e) + mset (in_hand e) + mset (ex_finished e) \<and>
     ex_dispatched e = int (length (ex_sent e)) \<and> ex_offered e = int (length (ex_offsets e)) \<and>
     ex_offered e = ex_dispatched e + ex_dropped e \<and> 0 \<le> ex_dropped e"

definition bounds_ok :: "('r, 's) exec \<Rightarrow> bool" where
  "bounds_ok e \<longleftrightarrow> length (ex_workers e) = ex_max e \<and> length (ex_queue e) \<le> ex_depth e \<and>
     ex_in_flight e = (\<Sum>w \<leftarrow> ex_workers e. busy w) \<and> ex_in_flight e \<le> ex_peak e \<and> ex_peak e \<le> int (ex_max e) \<and>
     (Parked \<in> set (ex_workers e) \<longrightarrow> ex_queue e = [])"

lemma on_collector_sel [simp]:
  "ex_max (on_collector ops ev e) = ex_max e" "ex_depth (on_collector ops ev e) = ex_depth e"
  "ex_sched (on_collector ops ev e) = ex_sched e" "ex_queue (on_collector ops ev e) = ex_queue e"
  "ex_closed (on_collector ops ev e) = ex_closed e" "ex_workers (on_collector ops ev e) = ex_workers e"
  "ex_in_flight (on_collector ops ev e) = ex_in_flight e" "ex_peak (on_collector ops ev e) = ex_peak e"
  "ex_offered (on_collector ops ev e) = ex_offered e" "ex_dispatched (on_collector ops ev e) = ex_dispatched e"
  "ex_dropped (on_collector ops ev e) = ex_dropped e" "ex_offsets (on_collector ops ev e) = ex_offsets e"
  "ex_sent (on_collector ops ev e) = ex_sent e" "ex_finished (on_collector ops ev e) = ex_finished e"
  "ex_events (on_collector ops ev e) = ex_events e @ [ev]"
  "ex_collector (on_collector ops ev e) = co_step ops ev (ex_collector e)"
  by (simp_all add: on_collector_def)

lemma set_worker_sel [simp]:
  "ex_max (set_worker i w e) = ex_max e" "ex_depth (set_worker i w e) = ex_depth e"
  "ex_sched (set_worker i w e) = ex_sched e" "ex_queue (set_worker i w e) = ex_queue e"
  "ex_closed (set_worker i w e) = ex_closed e" "ex_workers (set_worker i w e) = (ex_workers e)[i := w]"
  "ex_in_flight (set_worker i w e) = ex_in_flight e" "ex_peak (set_worker i w e) = ex_peak e"
  "ex_offered (set_worker i w e) = ex_offered e" "ex_dispatched (set_worker i w e) = ex_dispatched e"
  "ex_dropped (set_worker i w e) = ex_dropped e" "ex_offsets (set_worker i w e) = ex_offsets e"
  "ex_sent (set_worker i w e) = ex_sent e" "ex_finished (set_worker i w e) = ex_finished e"
  "ex_events (set_worker i w e) = ex_events e" "ex_collector (set_worker i w e) = ex_collector e"
  by (simp_all add: set_worker_def)

lemma close_sel [simp]:
  "ex_closed (close e) = True" "ex_queue (close e) = ex_queue e" "ex_workers (close e) = ex_workers e"
  "ex_sched (close e) = ex_sched e" "ex_events (close e) = ex_events e" "ex_collector (close e) = ex_collector e"
  "ex_offsets (close e) = ex_offsets e" "ex_finished (close e) = ex_finished e" "ex_sent (close e) = ex_sent e"
  by (simp_all add: close_def)

lemma record_all_sel [simp]:
  "ex_max (fold (\<lambda>o'. on_collector ops (ERecord o')) os e) = ex_max e"
  "ex_depth (fold (\<lambda>o'. on_collector ops (ERecord o')) os e) = ex_depth e"
  "ex_sched (fold (\<lambda>o'. on_collector ops (ERecord o')) os e) = ex_sched e"
  "ex_queue (fold (\<lambda>o'. on_collector ops (ERecord o')) os e) = ex_queue e"
  "ex_closed (fold (\<lambda>o'. on_collector ops (ERecord o')) os e) = ex_closed e"
  "ex_workers (fold (\<lambda>o'. on_collector ops (ERecord o')) os e) = ex_workers e"
  "ex_in_flight (fold (\<lambda>o'. on_collector ops (ERecord o')) os e) = ex_in_flight e"
  "ex_peak (fold (\<lambda>o'. on_collector ops (ERecord o')) os e) = ex_peak e"
  "ex_offered (fold (\<lambda>o'. on_collector ops (ERecord o')) os e) = ex_offered e"
  "ex_dispatched (fold (\<lambda>o'. on_collector ops (ERecord o')) os e) = ex_dispatched e"
  "ex_dropped (fold (\<lambda>o'. on_collector ops (ERecord o')) os e) = ex_dropped e"
  "ex_offsets (fold (\<lambda>o'. on_collector ops (ERecord o')) os e) = ex_offsets e"
  "ex_sent (fold (\<lambda>o'. on_collector ops (ERecord o')) os e) = ex_sent e"
  "ex_finished (fold (\<lambda>o'. on_collector ops (ERecord o')) os e) = ex_finished e"
  "ex_events (fold (\<lambda>o'. on_collector ops (ERecord o')) os e) = ex_events e @ map ERecord os"
  "ex_collector (fold (\<lambda>o'. on_collector ops (ERecord o')) os e) = co_run ops (map ERecord os) (ex_collector e)"
  by (induction os arbitrary: e) (simp_all add: co_run_def)

lemma notePeak_sel [simp]:
  "ex_max (notePeak n e) = ex_max e" "ex_depth (notePeak n e) = ex_depth e" "ex_sched (notePeak n e) = ex_sched e"
  "ex_queue (notePeak n e) = ex_queue e" "ex_closed (notePeak n e) = ex_closed e"
  "ex_workers (notePeak n e) = ex_workers e" "ex_in_flight (notePeak n e) = ex_in_flight e"
  "ex_peak (notePeak n e) = max n (ex_peak e)" "ex_offered (notePeak n e) = ex_offered e"
  "ex_dispatched (notePeak n e) = ex_dispatched e" "ex_dropped (notePeak n e) = ex_dropped e"
  "ex_offsets (notePeak n e) = ex_offsets e" "ex_sent (notePeak n e) = ex_sent e"
  "ex_finished (notePeak n e) = ex_finished e" "ex_events (notePeak n e) = ex_events e"
  "ex_collector (notePeak n e) = ex_collector e"
  by (simp_all add: notePeak_def)

text \<open>The three ways an offer ends.\<close>

lemma offer_cases:
  fixes e :: "('r, 's) exec" and now off :: int and ops :: "'s sketch_ops"
  assumes "receiver e w"
  defines "j \<equiv> \<lparr>jb_index = ex_offered e + 1, jb_intended = off, jb_dispatched = now\<rparr>"
    and "b \<equiv> BucketIndexOf (ex_collector e) off" and "e' \<equiv> offer ops w off now e"
  obtains i where "i < length (ex_workers e)" "ex_workers e ! i = Parked" "ex_workers e' = (ex_workers e)[i := Got j]"
      "ex_queue e' = ex_queue e" "ex_sent e' = ex_sent e @ [j]" "ex_dispatched e' = ex_dispatched e + 1"
      "ex_dropped e' = ex_dropped e" "ex_events e' = ex_events e @ [EOffered b]"
      "ex_collector e' = co_step ops (EOffered b) (ex_collector e)"
  | "Parked \<notin> set (ex_workers e)" "length (ex_queue e) < ex_depth e" "ex_workers e' = ex_workers e"
      "ex_queue e' = ex_queue e @ [j]" "ex_sent e' = ex_sent e @ [j]" "ex_dispatched e' = ex_dispatched e + 1"
      "ex_dropped e' = ex_dropped e" "ex_events e' = ex_events e @ [EOffered b]"
      "ex_collector e' = co_step ops (EOffered b) (ex_collector e)"
  | "Parked \<notin> set (ex_workers e)" "ex_depth e \<le> length (ex_queue e)" "ex_workers e' = ex_workers e"
      "ex_queue e' = ex_queue e" "ex_sent e' = ex_sent e" "ex_dispatched e' = ex_dispatched e"
      "ex_dropped e' = ex_dropped e + 1" "ex_events e' = ex_events e @ [EOffered b, EDropped b]"
      "ex_collector e' = co_step ops (EDropped b) (co_step ops (EOffered b) (ex_collector e))"
proof (cases w)
  case (Some i)
  then show ?thesis
    using assms(1) that(1)[of i] by (simp add: receiver_def offer_def send_def recordLag_def Let_def j_def b_def e'_def)
next
  case None
  then show ?thesis
    using assms(1) that(2,3)
    by (cases "length (ex_queue e) < ex_depth e")
      (simp_all add: receiver_def offer_def send_def recordLag_def Let_def j_def b_def e'_def)
qed

lemma offer_sel [simp]:
  "ex_max (offer ops w off now e) = ex_max e" "ex_depth (offer ops w off now e) = ex_depth e"
  "ex_sched (offer ops w off now e) = ex_sched e" "ex_closed (offer ops w off now e) = ex_closed e"
  "ex_in_flight (offer ops w off now e) = ex_in_flight e" "ex_peak (offer ops w off now e) = ex_peak e"
  "ex_offered (offer ops w off now e) = ex_offered e + 1" "ex_offsets (offer ops w off now e) = ex_offsets e @ [off]"
  "ex_finished (offer ops w off now e) = ex_finished e"
  by (cases w; simp add: offer_def send_def recordLag_def Let_def)+

lemma in_hand_update:
  "i < length (ex_workers e) \<Longrightarrow> ex_workers e' = (ex_workers e)[i := w] \<Longrightarrow>
   mset (in_hand e') + mset (held (ex_workers e ! i)) = mset (in_hand e) + mset (held w)"
  using held_update[of i "ex_workers e" w] by (simp add: in_hand_def)

lemma job_of_begun [simp]:
  "job_of \<lparr>it_index = jb_index j, it_worker = k, it_intended = jb_intended j, it_dispatched = jb_dispatched j,
     it_worker_start = t\<rparr> = j"
  by (simp add: job_of_def)

lemma offer_jobs:
  assumes "jobs_ok e" "receiver e w"
  shows "jobs_ok (offer ops w off now e)"
proof (rule offer_cases[OF assms(2), of ops off now])
  let ?e = "offer ops w off now e"
  fix i assume e: "i < length (ex_workers e)" "ex_workers e ! i = Parked"
    "ex_workers ?e = (ex_workers e)[i := Got \<lparr>jb_index = ex_offered e + 1, jb_intended = off, jb_dispatched = now\<rparr>]"
    "ex_queue ?e = ex_queue e" "ex_sent ?e = ex_sent e @ [\<lparr>jb_index = ex_offered e + 1, jb_intended = off, jb_dispatched = now\<rparr>]"
    "ex_dispatched ?e = ex_dispatched e + 1" "ex_dropped ?e = ex_dropped e"
  show ?thesis using assms(1) e in_hand_update[OF e(1,3)] by (simp add: jobs_ok_def)
qed (use assms(1) in \<open>simp_all add: jobs_ok_def in_hand_def\<close>)

lemma offer_bounds:
  assumes "bounds_ok e" "receiver e w"
  shows "bounds_ok (offer ops w off now e)"
proof (rule offer_cases[OF assms(2), of ops off now])
  let ?e = "offer ops w off now e"
  fix i assume e: "i < length (ex_workers e)" "ex_workers e ! i = Parked"
    "ex_workers ?e = (ex_workers e)[i := Got \<lparr>jb_index = ex_offered e + 1, jb_intended = off, jb_dispatched = now\<rparr>]"
    "ex_queue ?e = ex_queue e"
  have "ex_queue e = []" using assms(1) e(1,2) nth_mem[of i "ex_workers e"] by (auto simp: bounds_ok_def)
  then show ?thesis using assms(1) e by (simp add: bounds_ok_def sum_list_map_update)
qed (use assms(1) in \<open>simp_all add: bounds_ok_def\<close>)

lemma worker_step_jobs:
  assumes "worker_step ops does e e'" "jobs_ok e"
  shows "jobs_ok e'"
  using assms(1)
proof cases
  case (park i)
  then show ?thesis using assms(2) in_hand_update[of i e e' Parked] by (simp add: jobs_ok_def)
next
  case (receive i j q)
  then show ?thesis using assms(2) in_hand_update[of i e e' "Got j"] by (simp add: jobs_ok_def)
next
  case (begins i j now)
  let ?it = "\<lparr>it_index = jb_index j, it_worker = int i, it_intended = jb_intended j, it_dispatched = jb_dispatched j, it_worker_start = now\<rparr>"
  have "ex_workers e' = (ex_workers e)[i := Busy ?it]" using begins by (simp add: begin_job_def Let_def)
  then show ?thesis
    using assms(2) begins in_hand_update[of i e e' "Busy ?it"] by (simp add: jobs_ok_def begin_job_def Let_def)
next
  case (finish i it os)
  then have "ex_workers e' = (ex_workers e)[i := Ready]" by (simp add: finish_job_def Let_def)
  then show ?thesis
    using assms(2) finish in_hand_update[of i e e' Ready] by (simp add: jobs_ok_def finish_job_def Let_def)
next
  case (leave i)
  then show ?thesis using assms(2) in_hand_update[of i e e' Exited] by (auto simp: jobs_ok_def)
qed

lemma busy_le: "busy w \<le> 1"
  by (cases w) simp_all

lemma busy_sum: "(\<Sum>w \<leftarrow> ws. busy w) \<le> int (length ws)"
proof (induction ws)
  case (Cons w ws)
  then show ?case using busy_le[of w] by simp
qed simp

lemma busy_sum_bound:
  assumes "i < length ws" "busy (ws ! i) = 0"
  shows "(\<Sum>w \<leftarrow> ws. busy w) + 1 \<le> int (length ws)"
proof -
  fix it
  have "(\<Sum>w \<leftarrow> ws[i := Busy it]. busy w) = (\<Sum>w \<leftarrow> ws. busy w) + 1"
    unfolding sum_list_map_update[OF assms(1)] assms(2) by simp
  then show ?thesis using busy_sum[of "ws[i := Busy it]"] unfolding length_list_update by linarith
qed

lemma parked_update: "Parked \<in> set (ws[i := w]) \<Longrightarrow> w \<noteq> Parked \<Longrightarrow> Parked \<in> set ws"
  using set_update_subset_insert[of ws i w] by auto

lemma worker_step_bounds:
  assumes "worker_step ops does e e'" "bounds_ok e"
  shows "bounds_ok e'"
  using assms(1)
proof cases
  case (park i)
  then show ?thesis using assms(2) by (simp add: bounds_ok_def sum_list_map_update)
next
  case (receive i j q)
  then show ?thesis using assms(2) parked_update[of "ex_workers e" i "Got j"]
    by (auto simp: bounds_ok_def sum_list_map_update)
next
  case (begins i j now)
  then show ?thesis
    using assms(2) busy_sum_bound[of i "ex_workers e"] parked_update[of "ex_workers e" i]
    by (auto simp: bounds_ok_def begin_job_def Let_def sum_list_map_update)
next
  case (finish i it os)
  then show ?thesis
    using assms(2) parked_update[of "ex_workers e" i Ready]
    by (auto simp: bounds_ok_def finish_job_def Let_def sum_list_map_update)
next
  case (leave i)
  then show ?thesis using assms(2) parked_update[of "ex_workers e" i Exited]
    by (auto simp: bounds_ok_def sum_list_map_update)
qed

lemma other_field:
  "jobs_ok (e\<lparr>ex_sched := s\<rparr>) = jobs_ok e" "bounds_ok (e\<lparr>ex_sched := s\<rparr>) = bounds_ok e"
  "jobs_ok (close e) = jobs_ok e" "bounds_ok (close e) = bounds_ok e"
  "jobs_ok (on_collector ops ev e) = jobs_ok e" "bounds_ok (on_collector ops ev e) = bounds_ok e"
  "receiver (e\<lparr>ex_sched := s\<rparr>) w = receiver e w"
  by (simp_all add: jobs_ok_def bounds_ok_def in_hand_def close_def receiver_def split: option.split)

lemma exec_step_jobs:
  assumes "exec_step ops draw does e e'" "jobs_ok e \<and> bounds_ok e"
  shows "jobs_ok e' \<and> bounds_ok e'"
  using assms(1)
proof cases
  case (arrive off s w now)
  then show ?thesis
    using assms(2) offer_jobs[of "e\<lparr>ex_sched := s\<rparr>"] offer_bounds[of "e\<lparr>ex_sched := s\<rparr>"] by (simp add: other_field)
qed (use assms(2) worker_step_jobs worker_step_bounds in \<open>auto simp: other_field\<close>)

lemma reached_jobs: "reached ops draw does e0 e \<Longrightarrow> jobs_ok e0 \<Longrightarrow> bounds_ok e0 \<Longrightarrow> jobs_ok e \<and> bounds_ok e"
  by (induction rule: reached.induct) (auto dest: exec_step_jobs)

lemma NewArrivalRate_sel:
  assumes "NewArrivalRate mapping cfg = Inr e"
  shows "jobs_ok e" "bounds_ok e" "ex_offsets e = []" "ex_events e = []" "ex_finished e = []" "\<not> ex_closed e"
    "ec_schedule cfg = Some (ex_sched e)" "ec_collector cfg = Some (ex_collector e)"
    "ex_max e = nat (if ec_max_in_flight cfg \<le> 0 then 256 else ec_max_in_flight cfg)" "0 < ex_max e"
    "ex_depth e = nat (if ec_queue_depth cfg < 0 then 64 else ec_queue_depth cfg)"
  using assms
  by (auto simp: NewArrivalRate_def Let_def rbind_Inr jobs_ok_def bounds_ok_def in_hand_def sum_list_replicate
      DefaultMaxInFlight_def DefaultQueueDepth_def split: if_splits option.splits)

section \<open>What the collector and the schedule have seen\<close>

definition offered_in :: "event list \<Rightarrow> int list" where
  "offered_in evs = [b. EOffered b \<leftarrow> evs]"

definition dropped_in :: "event list \<Rightarrow> int list" where
  "dropped_in evs = [b. EDropped b \<leftarrow> evs]"

lemma events_simps [simp]:
  "offered_in [] = []" "offered_in (evs @ evs') = offered_in evs @ offered_in evs'"
  "offered_in (ERecord o' # evs) = offered_in evs" "offered_in (EOffered b # evs) = b # offered_in evs"
  "offered_in (EDropped b # evs) = offered_in evs" "offered_in (EInFlight b n # evs) = offered_in evs"
  "offered_in (ESeal t # evs) = offered_in evs"
  "dropped_in [] = []" "dropped_in (evs @ evs') = dropped_in evs @ dropped_in evs'"
  "dropped_in (ERecord o' # evs) = dropped_in evs" "dropped_in (EOffered b # evs) = dropped_in evs"
  "dropped_in (EDropped b # evs) = b # dropped_in evs" "dropped_in (EInFlight b n # evs) = dropped_in evs"
  "dropped_in (ESeal t # evs) = dropped_in evs"
  by (simp_all add: offered_in_def dropped_in_def)

lemma recorded_append [simp]: "recorded (evs @ evs') = recorded evs @ recorded evs'"
  by (simp add: recorded_def)

lemma recorded_only [simp]:
  "recorded (map ERecord os) = os" "offered_in (map ERecord os) = []" "dropped_in (map ERecord os) = []"
  by (induction os) simp_all

lemma co_run_append [simp]: "co_run ops (evs @ evs') c = co_run ops evs' (co_run ops evs c)"
  by (simp add: co_run_def)

lemma co_run_simps [simp]: "co_run ops [] c = c" "co_run ops (ev # evs) c = co_run ops evs (co_step ops ev c)"
  by (simp_all add: co_run_def)

definition history_ok ::
  "'s sketch_ops \<Rightarrow> (iteration \<Rightarrow> outcome list \<Rightarrow> bool) \<Rightarrow> 's collector \<Rightarrow> ('r, 's) exec \<Rightarrow> bool" where
  "history_ok ops does c0 e \<longleftrightarrow> ex_collector e = co_run ops (ex_events e) c0 \<and>
     offered_in (ex_events e) = map (BucketIndexOf c0) (ex_offsets e) \<and>
     int (length (dropped_in (ex_events e))) = ex_dropped e \<and>
     (\<exists>its oss. map job_of its = ex_finished e \<and> list_all2 does its oss \<and> recorded (ex_events e) = concat oss)"

lemma history_bucket: "history_ok ops does c0 e \<Longrightarrow> co_inv c0 \<Longrightarrow> BucketIndexOf (ex_collector e) = BucketIndexOf c0"
  using co_run_facts[of c0 ops "ex_events e" ac_n] carriesD(4) by (auto simp: history_ok_def)

lemma offer_history:
  assumes "history_ok ops does c0 e" "co_inv c0" "receiver e w"
  shows "history_ok ops does c0 (offer ops w off now e)"
  using assms(1) history_bucket[OF assms(1,2)]
  by (cases rule: offer_cases[OF assms(3), of ops off now]) (simp_all add: history_ok_def)

lemma worker_step_history:
  assumes "worker_step ops does e e'" "history_ok ops does c0 e"
  shows "history_ok ops does c0 e'"
  using assms(1)
proof cases
  case (finish i it os)
  obtain its oss where h: "map job_of its = ex_finished e" "list_all2 does its oss" "recorded (ex_events e) = concat oss"
    using assms(2) by (auto simp: history_ok_def)
  have "map job_of (its @ [it]) = ex_finished e'" "list_all2 does (its @ [it]) (oss @ [os])"
    "recorded (ex_events e') = concat (oss @ [os])"
    using finish h by (simp_all add: finish_job_def Let_def list_all2_appendI)
  then have "\<exists>its oss. map job_of its = ex_finished e' \<and> list_all2 does its oss \<and> recorded (ex_events e') = concat oss"
    by blast
  moreover have "ex_collector e' = co_run ops (ex_events e') c0"
    "offered_in (ex_events e') = map (BucketIndexOf c0) (ex_offsets e')"
    "int (length (dropped_in (ex_events e'))) = ex_dropped e'"
    using assms(2) finish by (simp_all add: history_ok_def finish_job_def Let_def)
  ultimately show ?thesis unfolding history_ok_def by blast
qed (use assms(2) in \<open>simp_all add: history_ok_def begin_job_def Let_def\<close>)

lemma exec_step_history:
  assumes "exec_step ops draw does e e'" "history_ok ops does c0 e" "co_inv c0"
  shows "history_ok ops does c0 e'"
  using assms(1)
proof cases
  case (arrive off s w now)
  have "history_ok ops does c0 (e\<lparr>ex_sched := s\<rparr>)" using assms(2) by (simp add: history_ok_def)
  then show ?thesis
    using offer_history[of ops does c0 "e\<lparr>ex_sched := s\<rparr>"] assms(3) arrive by (simp add: other_field)
next
  case work
  then show ?thesis using assms(2) by (rule worker_step_history)
qed (use assms(2) in \<open>simp_all add: history_ok_def close_def\<close>)

lemma reached_history:
  "reached ops draw does e0 e \<Longrightarrow> history_ok ops does c0 e0 \<Longrightarrow> co_inv c0 \<Longrightarrow> history_ok ops does c0 e"
  by (induction rule: reached.induct) (auto dest: exec_step_history)

lemma NewArrivalRate_history:
  assumes "NewArrivalRate mapping cfg = Inr e" "ec_collector cfg = Some c0"
  shows "history_ok ops does c0 e"
  using NewArrivalRate_sel[OF assms(1)] assms NewArrivalRate_sel(1)[OF assms(1)]
  by (auto simp: history_ok_def jobs_ok_def intro: exI[of _ "[]"])

text \<open>The offers follow the schedule.\<close>

lemma arrivals_add:
  "arrivals draw n s0 = (xs, s) \<Longrightarrow> length xs = n \<Longrightarrow>
   arrivals draw (n + k) s0 = (xs @ fst (arrivals draw k s), snd (arrivals draw k s))"
  by (induction n arbitrary: s0 xs) (auto split: prod.splits option.splits)

lemma Next_done: "Next draw s = (Some off, s') \<Longrightarrow> \<not> sc_done s'"
  by (auto simp: Next_def Let_def consume_def split: if_splits option.splits prod.splits arrival.splits)

definition sched_ok :: "('r \<Rightarrow> real \<times> 'r) \<Rightarrow> 'r option schedule \<Rightarrow> ('r, 's) exec \<Rightarrow> bool" where
  "sched_ok draw s0 e \<longleftrightarrow> fst (arrivals draw (length (ex_offsets e)) s0) = ex_offsets e \<and>
     (\<not> ex_closed e \<longrightarrow> snd (arrivals draw (length (ex_offsets e)) s0) = ex_sched e) \<and>
     (ex_closed e \<and> sc_done (ex_sched e) \<longrightarrow>
        (\<forall>n \<ge> length (ex_offsets e). fst (arrivals draw n s0) = ex_offsets e))"

lemma worker_step_frame:
  assumes "worker_step ops does e e'"
  shows "ex_offsets e' = ex_offsets e \<and> ex_closed e' = ex_closed e \<and> ex_sched e' = ex_sched e \<and>
    ex_sent e' = ex_sent e \<and> ex_max e' = ex_max e \<and> ex_depth e' = ex_depth e"
  using assms by cases (simp_all add: begin_job_def finish_job_def Let_def)

lemma exec_step_sched:
  assumes "exec_step ops draw does e e'" "sched_ok draw s0 e"
  shows "sched_ok draw s0 e'"
  using assms(1)
proof cases
  case (arrive off s w now)
  have "arrivals draw (length (ex_offsets e)) s0 = (ex_offsets e, ex_sched e)"
    using assms(2) arrive by (simp add: sched_ok_def prod_eq_iff)
  from arrivals_add[OF this, of 1] show ?thesis using arrive by (simp add: sched_ok_def)
next
  case (exhausted s)
  have a: "arrivals draw (length (ex_offsets e)) s0 = (ex_offsets e, ex_sched e)"
    using assms(2) exhausted by (simp add: sched_ok_def prod_eq_iff)
  have "fst (arrivals draw k (ex_sched e)) = []" for k using exhausted by (cases k) simp_all
  then have "fst (arrivals draw (length (ex_offsets e) + k) s0) = ex_offsets e" for k
    using arrivals_add[OF a, of k] by simp
  then have "\<forall>n \<ge> length (ex_offsets e). fst (arrivals draw n s0) = ex_offsets e" by (metis le_add_diff_inverse)
  then show ?thesis using exhausted a by (simp add: sched_ok_def)
next
  case (cancelled off s)
  then show ?thesis using assms(2) Next_done by (auto simp: sched_ok_def)
next
  case work
  then show ?thesis using assms(2) worker_step_frame by (metis sched_ok_def)
qed (use assms(2) in \<open>simp add: sched_ok_def\<close>)

lemma reached_sched: "reached ops draw does e0 e \<Longrightarrow> sched_ok draw s0 e0 \<Longrightarrow> sched_ok draw s0 e"
  by (induction rule: reached.induct) (auto dest: exec_step_sched)

text \<open>The jobs sent are a selection of the offers, in order, with their times.\<close>

lemma exec_step_sent:
  assumes "exec_step ops draw does e e'" "subseq (map jb_intended (ex_sent e)) (ex_offsets e)"
  shows "subseq (map jb_intended (ex_sent e')) (ex_offsets e')"
  using assms(1)
proof cases
  case (arrive off s w now)
  have rec: "receiver (e\<lparr>ex_sched := s\<rparr>) w" using arrive by (simp add: other_field)
  have one: "subseq (map jb_intended (ex_sent e) @ [off]) (ex_offsets e @ [off])"
    "subseq (map jb_intended (ex_sent e)) (ex_offsets e @ [off])"
    using assms(2) by (auto intro: list_emb_append_mono subseq_order.trans[OF assms(2)])
  show ?thesis
    by (cases rule: offer_cases[OF rec, of ops off now]) (use one arrive in simp_all)
next
  case work
  then show ?thesis using assms(2) worker_step_frame by metis
qed (use assms(2) in \<open>simp_all\<close>)

lemma reached_sent:
  "reached ops draw does e0 e \<Longrightarrow> subseq (map jb_intended (ex_sent e0)) (ex_offsets e0) \<Longrightarrow>
   subseq (map jb_intended (ex_sent e)) (ex_offsets e)"
  by (induction rule: reached.induct) (auto dest: exec_step_sent)

lemma NewArrivalRate_sent: "NewArrivalRate mapping cfg = Inr e \<Longrightarrow> ex_sent e = []"
  by (auto simp: NewArrivalRate_def Let_def rbind_Inr split: if_splits option.splits)

section \<open>Draining\<close>

text \<open>A worker that has left found the queue closed and empty.\<close>

definition left_ok :: "('r, 's) exec \<Rightarrow> bool" where
  "left_ok e \<longleftrightarrow> (Exited \<in> set (ex_workers e) \<longrightarrow> ex_closed e \<and> ex_queue e = [])"

lemma left_update: "Exited \<in> set (ws[i := w]) \<Longrightarrow> w \<noteq> Exited \<Longrightarrow> Exited \<in> set ws"
  using set_update_subset_insert[of ws i w] by auto

lemma worker_step_left:
  assumes "worker_step ops does e e'" "left_ok e"
  shows "left_ok e'"
  using assms(1)
proof cases
  case (park i)
  then show ?thesis using assms(2) left_update[of "ex_workers e" i Parked] by (auto simp: left_ok_def)
next
  case (receive i j q)
  then show ?thesis using assms(2) left_update[of "ex_workers e" i "Got j"] by (auto simp: left_ok_def)
next
  case (begins i j now)
  then show ?thesis using assms(2) left_update[of "ex_workers e" i] by (auto simp: left_ok_def begin_job_def Let_def)
next
  case (finish i it os)
  then show ?thesis using assms(2) left_update[of "ex_workers e" i Ready] by (auto simp: left_ok_def finish_job_def Let_def)
qed (use assms(2) in \<open>simp add: left_ok_def\<close>)

lemma exec_step_left:
  assumes "exec_step ops draw does e e'" "left_ok e"
  shows "left_ok e'"
  using assms(1)
proof cases
  case (arrive off s w now)
  have rec: "receiver (e\<lparr>ex_sched := s\<rparr>) w" using arrive by (simp add: other_field)
  have none: "Exited \<notin> set (ex_workers e)" using assms(2) arrive by (auto simp: left_ok_def)
  show ?thesis
    by (cases rule: offer_cases[OF rec, of ops off now])
      (use none left_update[of "ex_workers e"] arrive in \<open>auto simp: left_ok_def\<close>)
next
  case work
  then show ?thesis using assms(2) by (rule worker_step_left)
qed (use assms(2) in \<open>auto simp: left_ok_def\<close>)

lemma reached_left: "reached ops draw does e0 e \<Longrightarrow> left_ok e0 \<Longrightarrow> left_ok e"
  by (induction rule: reached.induct) (auto dest: exec_step_left)

fun load :: "worker \<Rightarrow> int" where
  "load Ready = 1" | "load Parked = 1" | "load (Got j) = 3" | "load (Busy it) = 2" | "load Exited = 0"

definition pending :: "('r, 's) exec \<Rightarrow> int" where
  "pending e = 3 * int (length (ex_queue e)) + (\<Sum>w \<leftarrow> ex_workers e. load w)"

lemma load_range: "0 \<le> load w" "load w \<le> 3"
  by (cases w; simp)+

lemma load_sum: "0 \<le> (\<Sum>w \<leftarrow> ws. load w)" "(\<Sum>w \<leftarrow> ws. load w) \<le> 3 * int (length ws)"
proof (induction ws)
  case (Cons w ws)
  { case 1 then show ?case using Cons load_range[of w] by simp }
  { case 2 then show ?case using Cons load_range[of w] by simp }
qed simp_all

lemma worker_step_pending:
  assumes "worker_step ops does e e'" "ex_closed e"
  shows "pending e' < pending e"
  using assms
  by cases (auto simp: pending_def sum_list_map_update begin_job_def finish_job_def Let_def)

lemma drain_progress:
  assumes "bounds_ok e" "ex_closed e" "\<forall>it. \<exists>os. does it os" "\<not> (\<forall>e'. \<not> worker_step ops does e e') \<longleftrightarrow> P"
  shows "P \<longleftrightarrow> (\<exists>w \<in> set (ex_workers e). w \<noteq> Exited)"
proof -
  have "\<exists>e'. worker_step ops does e e'" if i: "i < length (ex_workers e)" "ex_workers e ! i \<noteq> Exited" for i
  proof (cases "ex_workers e ! i")
    case Ready
    then show ?thesis
      using i assms(2) leave[of i e] receive[of i e] by (cases "ex_queue e") blast+
  next
    case Parked
    then have "ex_queue e = []" using assms(1) i(1) nth_mem[of i "ex_workers e"] by (auto simp: bounds_ok_def)
    then show ?thesis using Parked i assms(2) leave[of i e] by blast
  next
    case (Got j)
    then show ?thesis using i begins[of i e] by blast
  next
    case (Busy it)
    then show ?thesis using i assms(3) finish[of i e] by blast
  qed (use i in simp)
  moreover have "\<exists>w \<in> set (ex_workers e). w \<noteq> Exited" if "worker_step ops does e e'" for e'
    using that by cases (metis nth_mem worker.distinct)+
  ultimately show ?thesis using assms(4) by (metis in_set_conv_nth)
qed

lemma NewArrivalRate_left: "NewArrivalRate mapping cfg = Inr e \<Longrightarrow> left_ok e"
  by (auto simp: NewArrivalRate_def Let_def rbind_Inr left_ok_def split: if_splits option.splits)

lemma exec_step_max: "exec_step ops draw does e e' \<Longrightarrow> ex_max e' = ex_max e"
  by (cases rule: exec_step.cases) (auto dest: worker_step_frame simp: close_def)

lemma same_max: "reached ops draw does e0 e \<Longrightarrow> ex_max e = ex_max e0"
  by (induction rule: reached.induct) (auto dest: exec_step_max)

text \<open>When every worker has left, every job sent is finished.\<close>

lemma all_left:
  assumes "jobs_ok e" "bounds_ok e" "left_ok e" "\<forall>w \<in> set (ex_workers e). w = Exited" "0 < ex_max e"
  shows "mset (ex_finished e) = mset (ex_sent e)"
proof -
  have "ex_workers e \<noteq> []" using assms(2,5) by (auto simp: bounds_ok_def)
  then have "Exited \<in> set (ex_workers e)" using assms(4) by (cases "ex_workers e") auto
  then have "ex_queue e = []" using assms(3) by (simp add: left_ok_def)
  moreover have "in_hand e = []" using assms(4) by (auto simp: in_hand_def)
  ultimately show ?thesis using assms(1) by (simp add: jobs_ok_def)
qed

lemma sum_list_ones: "(\<Sum>x \<leftarrow> xs. 1) = int (length xs)"
  by (induction xs) simp_all

section \<open>A small run\<close>

text \<open>One worker, a queue of one, one arrival per second for one second; the runner records one
  successful outcome per iteration.\<close>

definition one_second :: "stage list" where
  "one_second = [\<lparr>st_duration = 1000000000, st_target = Fin 1\<rparr>]"

lemma one_second_compiled: "\<exists>p. NewProfile (Fin 1) one_second = Inr p \<and> p_total p = 1"
proof -
  have "is_ok (compile_stages 0 1 0 \<lparr>segs = [], p_duration = 0, p_total = 0\<rparr> one_second)"
    unfolding compile_ok_iff by (simp add: one_second_def stage_ok_def fin_nonneg_def)
  then obtain p where p: "compile_stages 0 1 0 \<lparr>segs = [], p_duration = 0, p_total = 0\<rparr> one_second = Inr p"
    by (auto simp: is_ok_iff)
  then have "NewProfile (Fin 1) one_second = Inr p" by (simp add: NewProfile_def finite_err_def one_second_def)
  moreover have "p_total p = 1"
    using compile_total[OF p] by (simp add: one_second_def secs_def)
  ultimately show ?thesis by blast
qed

definition does_one :: "iteration \<Rightarrow> outcome list \<Rightarrow> bool" where
  "does_one it os \<longleftrightarrow> os = [StampOutcome it (op_at (it_intended it) ClassOK)]"

definition small_exec :: "'s sketch_ops \<Rightarrow> unit option schedule \<Rightarrow> 's collector \<Rightarrow> (unit, 's) exec_config" where
  "small_exec ops s c = \<lparr>ec_runner = True, ec_schedule = Some s, ec_collector = Some c, ec_clock = True,
     ec_max_in_flight = 1, ec_queue_depth = 1\<rparr>"

lemma small_schedule:
  "\<exists>s off s1 s2. Next (\<lambda>r :: unit. (1, r)) s = (Some off, s1) \<and> Next (\<lambda>r. (1, r)) s1 = (None, s2) \<and> sc_done s2 \<and>
     0 \<le> off"
proof -
  obtain p where p: "p_total p = 1" "NewProfile (Fin 1) one_second = Inr p" using one_second_compiled by blast
  let ?s = "\<lparr>sc_profile = p, sc_arrival = ArrivalUniform, sc_rng = None, sc_consumed = 0, sc_last = 0,
    sc_count = 0, sc_done = False\<rparr>"
  let ?off = "if seconds (invert_secs p 1) < 0 then 0 else seconds (invert_secs p 1)"
  have "Next (\<lambda>r :: unit. (1, r)) ?s = (Some ?off, ?s\<lparr>sc_consumed := 1, sc_last := ?off, sc_count := 1\<rparr>)"
    using p by (simp add: Next_def consume_def Invert_def Let_def)
  moreover have "Next (\<lambda>r :: unit. (1, r)) (?s\<lparr>sc_consumed := 1, sc_last := ?off, sc_count := 1\<rparr>) =
      (None, ?s\<lparr>sc_consumed := 2, sc_last := ?off, sc_count := 1, sc_done := True\<rparr>)"
    using p by (simp add: Next_def consume_def Invert_def Let_def)
  ultimately show ?thesis by (intro exI conjI) (assumption | simp)+
qed

text \<open>The whole run: the arrival is queued, taken, performed, and the worker leaves.\<close>

lemma does_one_total: "\<forall>it. \<exists>os. does_one it os"
  by (simp add: does_one_def)

lemma small_run_reached:
  fixes ops :: "'s sketch_ops"
  assumes "Next draw s = (Some off, s1)" "Next draw s1 = (None, s2)" "\<forall>it. \<exists>os. does it os"
  shows "\<exists>e0 e d. NewArrivalRate (Some ops) (small_exec ops s c) = Inr e0 \<and>
    reached ops draw does e0 d \<and> ex_closed d \<and> (worker_step ops does ^^ 4) d e \<and> reached ops draw does e0 e \<and>
    ex_workers e = [Exited] \<and> ex_closed e \<and> ex_sched e = s2 \<and> length (ex_sent e) = 1 \<and> ex_offsets e = [off]"
proof -
  obtain e0 where e0: "NewArrivalRate (Some ops) (small_exec ops s c) = Inr e0" "ex_workers e0 = [Ready]" "ex_queue e0 = []"
    "ex_sched e0 = s" "\<not> ex_closed e0" "ex_depth e0 = 1" "ex_sent e0 = []" "ex_offered e0 = 0" "ex_offsets e0 = []"
    by (simp add: NewArrivalRate_def small_exec_def newLagTracker_def)
  define j where "j = \<lparr>jb_index = 1, jb_intended = off, jb_dispatched = off\<rparr>"
  define e1 where "e1 = offer ops None off off (e0\<lparr>ex_sched := s1\<rparr>)"
  have r: "receiver e0 None" by (simp add: receiver_def e0)
  have s1: "exec_step ops draw does e0 e1" unfolding e1_def using e0 assms(1) r by (intro arrive) simp_all
  have e1: "ex_workers e1 = [Ready]" "ex_queue e1 = [j]" "ex_sched e1 = s1" "\<not> ex_closed e1" "ex_sent e1 = [j]" "ex_offsets e1 = [off]"
    by (simp_all add: e1_def offer_def send_def recordLag_def Let_def e0 j_def)
  define e2 where "e2 = close (e1\<lparr>ex_sched := s2\<rparr>)"
  have s2: "exec_step ops draw does e1 e2" unfolding e2_def using e1 assms(2) by (intro exhausted) simp_all
  have e2: "ex_workers e2 = [Ready]" "ex_queue e2 = [j]" "ex_sched e2 = s2" "ex_closed e2" "ex_sent e2 = [j]" "ex_offsets e2 = [off]"
    using e1 by (simp_all add: e2_def)
  define e3 where "e3 = set_worker 0 (Got j) (e2\<lparr>ex_queue := []\<rparr>)"
  have s3: "worker_step ops does e2 e3" unfolding e3_def using e2 by (intro receive) simp_all
  have e3: "ex_workers e3 = [Got j]" "ex_queue e3 = []" "ex_sched e3 = s2" "ex_closed e3" "ex_sent e3 = [j]" "ex_offsets e3 = [off]"
    using e2 by (simp_all add: e3_def)
  define it where "it = \<lparr>it_index = jb_index j, it_worker = int 0, it_intended = jb_intended j,
    it_dispatched = jb_dispatched j, it_worker_start = off\<rparr>"
  define e4 where "e4 = begin_job ops 0 off j e3"
  have s4: "worker_step ops does e3 e4" unfolding e4_def using e3 by (intro begins) simp_all
  have e4: "ex_workers e4 = [Busy it]" "ex_queue e4 = []" "ex_sched e4 = s2" "ex_closed e4" "ex_sent e4 = [j]" "ex_offsets e4 = [off]"
    using e3 by (simp_all add: e4_def begin_job_def Let_def it_def)
  obtain os where os: "does it os" using assms(3) by blast
  define e5 where "e5 = finish_job ops 0 it os e4"
  have s5: "worker_step ops does e4 e5" unfolding e5_def using e4 by (intro finish) (simp_all add: os)
  have e5: "ex_workers e5 = [Ready]" "ex_queue e5 = []" "ex_sched e5 = s2" "ex_closed e5" "ex_sent e5 = [j]" "ex_offsets e5 = [off]"
    using e4 by (simp_all add: e5_def finish_job_def Let_def)
  define e6 where "e6 = set_worker 0 Exited e5"
  have s6: "worker_step ops does e5 e6" unfolding e6_def using e5 by (intro leave) simp_all
  have e6: "ex_workers e6 = [Exited]" "ex_sched e6 = s2" "ex_closed e6" "ex_sent e6 = [j]" "ex_offsets e6 = [off]"
    using e5 by (simp_all add: e6_def)
  have r2: "reached ops draw does e0 e2" using reached.step[OF reached.step[OF start s1] s2] .
  have four: "(worker_step ops does ^^ 4) e2 e6"
    using s3 s4 s5 s6 by (auto simp: numeral_eq_Suc relcompp_apply)
  have "reached ops draw does e0 e6"
    using r2 s3 s4 s5 s6 by (meson reached.step work)
  then show ?thesis using e0(1) r2 e2(4) four e6 by (intro exI[of _ e0] exI[of _ e6] exI[of _ e2]) simp
qed

text \<open>
  Without room in the queue an arrival is dropped although a worker is idle, when that worker
  has not yet reached its receive.
\<close>

lemma idle_worker_drop:
  assumes "ex_depth e = 0" "ex_workers e = [Ready]" "ex_queue e = []"
  shows "receiver e None" "ex_dropped (offer ops None off now e) = ex_dropped e + 1"
  using assms by (simp_all add: receiver_def offer_def send_def recordLag_def Let_def)

section \<open>Properties\<close>

text \<open>C4. The executor neither loses nor doubles a job, whatever the interleaving: each arrival the
  schedule called for is either dropped or sent, and each job sent is queued, in the hands
  of one worker or finished. No more than the configured number of operations are ever in
  progress, and no more jobs wait than the queue was given room for.\<close>

theorem executor_books:
  assumes "NewArrivalRate (Some ops) cfg = Inr e0" "reached ops draw does e0 e"
  shows "(let st = Stats ops e in
     mset (ex_sent e) = mset (ex_queue e) + mset (in_hand e) + mset (ex_finished e) \<and>
     st_offered st = int (length (ex_offsets e)) \<and> st_dispatched st = int (length (ex_sent e)) \<and>
     st_offered st = st_dispatched st + st_dropped st \<and> 0 \<le> st_dropped st \<and>
     InFlight e \<le> st_peak st \<and> st_peak st \<le> int (st_max st) \<and> length (ex_queue e) \<le> ex_depth e)"
  using reached_jobs[OF assms(2) NewArrivalRate_sel(1,2)[OF assms(1)]]
  by (simp add: jobs_ok_def bounds_ok_def Stats_def InFlight_def)

theorem executor_books_witness:
  "\<exists>s e. reached no_sketch (\<lambda>r :: unit. (1, r)) does_one s e \<and> length (ex_sent e) = 1 \<and>
     mset (ex_sent e) = mset (ex_queue e) + mset (in_hand e) + mset (ex_finished e)"
proof -
  obtain s off s1 s2 where s: "Next (\<lambda>r :: unit. (1, r)) s = (Some off, s1)" "Next (\<lambda>r. (1, r)) s1 = (None, s2)"
    using small_schedule by blast
  obtain c where "NewCollector no_sketch small_cfg = Inr c" using small_collector by blast
  obtain e0 e where e: "NewArrivalRate (Some no_sketch) (small_exec no_sketch s c) = Inr e0"
    "reached no_sketch (\<lambda>r. (1, r)) does_one e0 e" "length (ex_sent e) = 1"
    using small_run_reached[OF s does_one_total, of no_sketch c] by blast
  show ?thesis using executor_books[OF e(1,2)] e unfolding Let_def by blast
qed

text \<open>C13. Arrivals are offered at the schedule's times and at no others: what was offered is always
  what the schedule delivers first, each job keeps its intended time however late it is
  dispatched, and a run whose schedule ended has offered everything.\<close>

theorem executor_follows_schedule:
  assumes "NewArrivalRate (Some ops) cfg = Inr e0" "ec_schedule cfg = Some s" "reached ops draw does e0 e"
  shows "ex_offsets e = fst (arrivals draw (length (ex_offsets e)) s) \<and>
    (ex_closed e \<and> sc_done (ex_sched e) \<longrightarrow> (\<forall>n \<ge> length (ex_offsets e). fst (arrivals draw n s) = ex_offsets e)) \<and>
    subseq (map jb_intended (ex_sent e)) (ex_offsets e)"
proof -
  have "sched_ok draw s e0" using NewArrivalRate_sel(3,6,7)[OF assms(1)] assms(2) by (simp add: sched_ok_def)
  from reached_sched[OF assms(3) this] have "sched_ok draw s e" .
  moreover have "subseq (map jb_intended (ex_sent e)) (ex_offsets e)"
    using reached_sent[OF assms(3)] NewArrivalRate_sel(3)[OF assms(1)] NewArrivalRate_sent[OF assms(1)] by simp
  ultimately show ?thesis by (simp add: sched_ok_def)
qed


theorem executor_follows_schedule_witness:
  "\<exists>s e off. ex_closed (e :: (unit, unit) exec) \<and> ex_offsets e = [off] \<and>
     (\<forall>n \<ge> 1. fst (arrivals (\<lambda>r :: unit. (1, r)) n s) = [off])"
proof -
  obtain s off s1 s2 where s: "Next (\<lambda>r :: unit. (1, r)) s = (Some off, s1)" "Next (\<lambda>r. (1, r)) s1 = (None, s2)" "sc_done s2"
    using small_schedule by blast
  obtain c where c: "NewCollector no_sketch small_cfg = Inr c" using small_collector by blast
  obtain e0 e where e: "NewArrivalRate (Some no_sketch) (small_exec no_sketch s c) = Inr e0"
    "reached no_sketch (\<lambda>r. (1, r)) does_one e0 e" "ex_closed e" "ex_sched e = s2" "ex_offsets e = [off]"
    using small_run_reached[OF s(1,2) does_one_total, of no_sketch c] by blast
  have "ec_schedule (small_exec no_sketch s c) = Some s" by (simp add: small_exec_def)
  from executor_follows_schedule[OF e(1) this e(2)] have "\<forall>n \<ge> length (ex_offsets e). fst (arrivals (\<lambda>r. (1, r)) n s) = ex_offsets e"
    using e(3,4) s(3) by blast
  then show ?thesis using e(3,5) by (metis One_nat_def length_Cons list.size(3))
qed

text \<open>C24. Draining ends: once arrivals have stopped, the workers make at most three moves for each
  place in the queue and each worker, however they interleave; they can move until every
  one of them has returned, and then every job that was ever sent has been performed.\<close>

theorem executor_drains:
  assumes "NewArrivalRate (Some ops) cfg = Inr e0" "reached ops draw does e0 e" "ex_closed e"
    "\<forall>it. \<exists>os. does it os" "(worker_step ops does ^^ n) e e'"
  shows "n \<le> 3 * (ex_depth e + ex_max e) \<and>
    ((\<forall>e''. \<not> worker_step ops does e' e'') \<longleftrightarrow> (\<forall>w \<in> set (ex_workers e'). w = Exited)) \<and>
    ((\<forall>w \<in> set (ex_workers e'). w = Exited) \<longrightarrow> mset (ex_finished e') = mset (ex_sent e))"
proof -
  have moves: "reached ops draw does e0 e' \<and> ex_closed e' \<and> int n + pending e' \<le> pending e \<and> ex_sent e' = ex_sent e"
    using assms(5)
  proof (induction n arbitrary: e')
    case (Suc n)
    then obtain d where d: "(worker_step ops does ^^ n) e d" "worker_step ops does d e'" by auto
    show ?case
      using Suc.IH[OF d(1)] worker_step_pending[OF d(2)] worker_step_frame[OF d(2)] reached.step[OF _ work[OF d(2)]]
      by force
  qed (use assms(2,3) in simp)
  note ok = reached_jobs[OF _ NewArrivalRate_sel(1,2)[OF assms(1)]]
  have "pending e \<le> 3 * int (length (ex_queue e)) + 3 * int (length (ex_workers e))" "0 \<le> pending e'"
    using load_sum by (simp_all add: pending_def)
  moreover have "int (length (ex_queue e)) \<le> int (ex_depth e)" "int (length (ex_workers e)) = int (ex_max e)"
    using ok[OF assms(2)] by (simp_all add: bounds_ok_def)
  moreover have "int n + pending e' \<le> pending e" using moves by blast
  ultimately have "int n \<le> 3 * int (ex_depth e) + 3 * int (ex_max e)" by linarith
  then have "n \<le> 3 * (ex_depth e + ex_max e)" by simp
  moreover have "bounds_ok e'" "jobs_ok e'" using ok moves by blast+
  then have "(\<forall>e''. \<not> worker_step ops does e' e'') \<longleftrightarrow> (\<forall>w \<in> set (ex_workers e'). w = Exited)"
    using drain_progress[OF _ _ assms(4), of e' ops] moves by blast
  moreover have "mset (ex_finished e') = mset (ex_sent e)" if "\<forall>w \<in> set (ex_workers e'). w = Exited"
    using all_left[OF \<open>jobs_ok e'\<close> \<open>bounds_ok e'\<close> _ that] reached_left[of ops draw does e0 e'] moves
      NewArrivalRate_left[OF assms(1)] same_max[of ops draw does e0 e'] NewArrivalRate_sel(10)[OF assms(1)] by simp
  ultimately show ?thesis by blast
qed

theorem executor_drains_witness:
  "\<exists>e e'. ex_closed e \<and> (worker_step no_sketch does_one ^^ 4) (e :: (unit, unit) exec) e' \<and> 4 \<le> 3 * (ex_depth e + ex_max e) \<and>
     mset (ex_finished e') = mset (ex_sent e)"
proof -
  obtain s off s1 s2 where s: "Next (\<lambda>r :: unit. (1, r)) s = (Some off, s1)" "Next (\<lambda>r. (1, r)) s1 = (None, s2)"
    using small_schedule by blast
  obtain c where c: "NewCollector no_sketch small_cfg = Inr c" using small_collector by blast
  obtain e0 e d where e: "NewArrivalRate (Some no_sketch) (small_exec no_sketch s c) = Inr e0"
    "reached no_sketch (\<lambda>r. (1, r)) does_one e0 d" "ex_closed d" "(worker_step no_sketch does_one ^^ 4) d e" "ex_workers e = [Exited]"
    using small_run_reached[OF s does_one_total, of no_sketch c] by blast
  have "\<forall>it. \<exists>os. does_one it os" by (simp add: does_one_def)
  from executor_drains[OF e(1-3) this e(4)] show ?thesis using e by auto
qed

text \<open>From schedule to report: when the runner records one outcome per iteration, stamped with the
  iteration's times, the operations in the summary of a drained run are the jobs sent after
  the warm-up.\<close>

lemma drained_summary:
  assumes "NewArrivalRate (Some ops) cfg = Inr e0" "ec_collector cfg = Some c0" "NewCollector ops ccfg = Inr c0"
    "reached ops draw does e0 e" "\<forall>it os. does it os \<longrightarrow> (\<exists>o'. os = [StampOutcome it o'])"
    "\<forall>w \<in> set (ex_workers e). w = Exited"
  shows "os_n (sn_summary (Snapshot ops (Finish ops (ex_collector e)))) =
    int (length (filter (\<lambda>j. co_warmup c0 \<le> BucketIndexOf c0 (jb_intended j)) (ex_sent e)))"
proof -
  let ?in = "\<lambda>t. co_warmup c0 \<le> BucketIndexOf c0 t"
  have h: "history_ok ops does c0 e"
    using reached_history[OF assms(4) NewArrivalRate_history[OF assms(1,2)] NewCollector_inv(1)[OF assms(3)]] .
  then obtain its oss where its: "map job_of its = ex_finished e" "list_all2 does its oss" "recorded (ex_events e) = concat oss"
    "ex_collector e = co_run ops (ex_events e) c0" by (auto simp: history_ok_def)
  have "length (filter (measured c0) (concat oss)) = length (filter (\<lambda>j. ?in (jb_intended j)) (map job_of its))"
    using its(2)
  proof (induction rule: list_all2_induct)
    case (Cons it its os oss)
    then show ?case using assms(5) by (force simp: measured_def StampOutcome_def job_of_def)
  qed simp
  also have "\<dots> = length (filter (\<lambda>j. ?in (jb_intended j)) (ex_sent e))"
  proof -
    have "mset (ex_finished e) = mset (ex_sent e)"
      using all_left[OF _ _ _ assms(6)] reached_jobs[OF assms(4) NewArrivalRate_sel(1,2)[OF assms(1)]]
        reached_left[OF assms(4) NewArrivalRate_left[OF assms(1)]] same_max[OF assms(4)] NewArrivalRate_sel(10)[OF assms(1)] by simp
    then show ?thesis unfolding its(1) by (metis mset_filter size_mset)
  qed
  finally show ?thesis
    using finished_run(3)[OF assms(3) ops_n.tally_axioms, of "ex_events e"] its(3,4)
    by (simp add: Snapshot_def accum_summary_def Let_def sum_list_ones)
qed

end
