(* ===== verification/Config.thy ===== *)
theory Config
  imports Policy Schedule
begin

text \<open>
  The configuration document, \<open>internal/config/types.go\<close>: one record per section, the
  durations and bind arguments with their YAML forms, and the small accessors. An optional
  pointer is an \<^typ>\<open>'a option\<close>, a Go map a partial function, a scalar whose type YAML
  decides a \<open>yaml\<close> value. A node of the YAML library is represented by the value it denotes;
  how the library reads a boolean is a parameter.
\<close>

section \<open>YAML values and durations\<close>

datatype yaml =
    YNull
  | YBool bool
  | YInt int
  | YFloat float64
  | YStr string
  | YSeq "yaml list"
  | YMap "(string \<times> yaml) list"

definition Version :: int where "Version = 1"

text \<open>\<open>Duration.UnmarshalYAML\<close> and \<open>MarshalYAML\<close>; \<open>read_string\<close> is the library's string decoder.\<close>

definition unmarshal_duration :: "(yaml \<Rightarrow> string option) \<Rightarrow> yaml \<Rightarrow> duration option" where
  "unmarshal_duration read_string n = (case read_string n of
      None \<Rightarrow> None
    | Some s \<Rightarrow> parse_duration s)"

definition marshal_duration :: "duration \<Rightarrow> yaml" where
  "marshal_duration d = YStr (duration_string d)"

section \<open>Sections\<close>

record run_section =
  rn_name :: string
  rn_duration :: duration
  rn_bucket :: duration
  rn_warmup :: duration
  rn_grace :: duration
  rn_timeout :: duration
  rn_seed :: "int option"
  rn_arrival :: string
  rn_min_samples :: int
  rn_tags :: "string \<rightharpoonup> string"

record slo_target =
  so_p95 :: "duration option"
  so_p99 :: "duration option"
  so_error_rate :: "float64 option"

definition no_budget :: slo_target where
  "no_budget = \<lparr>so_p95 = None, so_p99 = None, so_error_rate = None\<rparr>"

definition slo_target_zero :: "slo_target \<Rightarrow> bool" where
  "slo_target_zero s \<longleftrightarrow> so_p95 s = None \<and> so_p99 s = None \<and> so_error_rate s = None"

record slo =
  so_http :: slo_target
  so_db :: slo_target
  so_redis :: slo_target

definition slo_zero :: "slo \<Rightarrow> bool" where
  "slo_zero s \<longleftrightarrow> slo_target_zero (so_http s) \<and> slo_target_zero (so_db s) \<and> slo_target_zero (so_redis s)"

definition slo_for :: "slo \<Rightarrow> string \<Rightarrow> slo_target" where
  "slo_for s runner =
     (if runner = ''http'' then so_http s
      else if runner = ''db'' then so_db s
      else if runner = ''redis'' then so_redis s
      else no_budget)"

record abort_guard =
  ag_enabled :: "bool option"
  ag_error_ratio :: "float64 option"
  ag_window :: "duration option"

record safety =
  sf_allow_writes :: bool
  sf_allow_dangerous :: bool
  sf_allow_targets :: "string list"
  sf_allow_insecure_tls :: bool
  sf_max_rate :: "float64 option"
  sf_max_in_flight :: "int option"
  sf_max_duration :: "duration option"
  sf_abort_guard :: "abort_guard option"

definition safety_zero :: "safety \<Rightarrow> bool" where
  "safety_zero s \<longleftrightarrow> \<not> sf_allow_writes s \<and> \<not> sf_allow_dangerous s \<and> sf_allow_targets s = []
     \<and> \<not> sf_allow_insecure_tls s \<and> sf_max_rate s = None \<and> sf_max_in_flight s = None
     \<and> sf_max_duration s = None \<and> sf_abort_guard s = None"

text \<open>A \<open>Stage\<close> of the document is the \<^typ>\<open>stage\<close> of the schedule: the same two fields.\<close>

record executor_section =
  xs_type :: string
  xs_rate :: float64
  xs_vus :: int
  xs_stages :: "stage list"
  xs_max_in_flight :: int
  xs_queue_depth :: "int option"
  xs_pick :: string

record json_expect =
  je_path :: string
  je_exists :: "bool option"
  je_equals :: yaml

record expect =
  ep_status :: "int list"
  ep_json :: "json_expect list"
  ep_max_body_bytes :: int

record extraction =
  et_name :: string
  et_from :: string
  et_path :: string

record think_time =
  tt_type :: string
  tt_duration :: "duration option"
  tt_min :: "duration option"
  tt_max :: "duration option"
  tt_mean :: "duration option"

record http_step =
  hs_name :: string
  hs_weight :: "float64 option"
  hs_method :: string
  hs_url :: string
  hs_headers :: "string \<rightharpoonup> string"
  hs_body :: string
  hs_body_file :: string
  hs_timeout :: "duration option"
  hs_expect :: "expect option"
  hs_extract :: "extraction list"
  hs_think :: "think_time option"

record journey =
  jn_name :: string
  jn_weight :: "float64 option"
  jn_steps :: "http_step list"

record feeder =
  fd_name :: string
  fd_file :: string
  fd_mode :: string

record tls =
  tl_insecure :: bool
  tl_server_name :: string
  tl_ca_file :: string
  tl_cert_file :: string
  tl_key_file :: string

record transport =
  tr_max_idle :: int
  tr_http2 :: "bool option"
  tr_keep_alive :: "bool option"
  tr_tls :: "tls option"

record http_section =
  ht_base_url :: string
  ht_headers :: "string \<rightharpoonup> string"
  ht_traceparent :: bool
  ht_executor :: executor_section
  ht_transport :: "transport option"
  ht_feeders :: "feeder list"
  ht_requests :: "http_step list"
  ht_journeys :: "journey list"

record pool =
  po_max_open :: int
  po_max_idle :: int
  po_conn_max_lifetime :: "duration option"
  po_conn_max_idle_time :: "duration option"

record arg =
  ar_value :: yaml
  ar_secret :: bool

record tx_statement =
  tx_sql :: string
  tx_args :: "arg list"

record query =
  qu_name :: string
  qu_weight :: "float64 option"
  qu_type :: string
  qu_sql :: string
  qu_args :: "arg list"
  qu_tx :: "tx_statement list"
  qu_timeout :: "duration option"
  qu_prepare :: bool

record db_section =
  db_driver :: string
  db_dsn :: string
  db_executor :: executor_section
  db_pool :: "pool option"
  db_tag_sessions :: "bool option"
  db_comment_queries :: bool
  db_queries :: "query list"

record redis_pool =
  rp_size :: int
  rp_min_idle :: int

record redis_command =
  rc_name :: string
  rc_weight :: "float64 option"
  rc_type :: string
  rc_cmd :: "string list"
  rc_pipeline :: "string list list"
  rc_timeout :: "duration option"

record redis_section =
  rd_mode :: string
  rd_addr :: string
  rd_addrs :: "string list"
  rd_master_name :: string
  rd_username :: string
  rd_password :: string
  rd_db :: int
  rd_tls :: "tls option"
  rd_executor :: executor_section
  rd_pool :: "redis_pool option"
  rd_commands :: "redis_command list"

record sampler =
  sm_enabled :: bool
  sm_interval :: "duration option"
  sm_dsn :: string
  sm_statements :: bool
  sm_latency :: bool

record telemetry =
  te_interval :: "duration option"
  te_postgres :: "sampler option"
  te_mysql :: "sampler option"
  te_redis :: "sampler option"

record capacity =
  cp_knob :: string
  cp_runner :: string
  cp_start :: float64
  cp_max :: float64
  cp_step_duration :: "duration option"
  cp_settle :: "duration option"
  cp_cooldown :: "duration option"
  cp_refine :: string
  cp_resolution :: float64
  cp_confirm :: "bool option"

record configuration =
  cf_version :: int
  cf_run :: run_section
  cf_slo :: slo
  cf_safety :: safety
  cf_http :: "http_section option"
  cf_db :: "db_section option"
  cf_redis :: "redis_section option"
  cf_telemetry :: "telemetry option"
  cf_capacity :: "capacity option"

section \<open>Accessors\<close>

definition Runners :: "configuration \<Rightarrow> string list" where
  "Runners c =
     (case cf_http c of None \<Rightarrow> [] | Some _ \<Rightarrow> [''http''])
     @ (case cf_db c of None \<Rightarrow> [] | Some _ \<Rightarrow> [''db''])
     @ (case cf_redis c of None \<Rightarrow> [] | Some _ \<Rightarrow> [''redis''])"

definition executor_of :: "configuration \<Rightarrow> string \<Rightarrow> executor_section option" where
  "executor_of c runner =
     (if runner = ''http'' then map_option ht_executor (cf_http c)
      else if runner = ''db'' then map_option db_executor (cf_db c)
      else if runner = ''redis'' then map_option rd_executor (cf_redis c)
      else None)"

definition Kind :: "string \<Rightarrow> string" where
  "Kind runner = (if runner = ''http'' then ''app'' else ''storage'')"

definition DefaultWeight :: float64 where "DefaultWeight = Fin 1"

definition weightOr :: "float64 option \<Rightarrow> float64" where
  "weightOr w = (case w of None \<Rightarrow> DefaultWeight | Some x \<Rightarrow> x)"

definition journey_labels :: "journey \<Rightarrow> string list" where
  "journey_labels j = map (\<lambda>s. jn_name j @ ''/'' @ hs_name s) (jn_steps j)"

definition Labels :: "configuration \<Rightarrow> string \<Rightarrow> string list" where
  "Labels c runner =
     (if runner = ''http'' then (case cf_http c of
          None \<Rightarrow> []
        | Some h \<Rightarrow> map hs_name (ht_requests h) @ concat (map journey_labels (ht_journeys h)))
      else if runner = ''db'' then (case cf_db c of None \<Rightarrow> [] | Some d \<Rightarrow> map qu_name (db_queries d))
      else if runner = ''redis'' then (case cf_redis c of None \<Rightarrow> [] | Some r \<Rightarrow> map rc_name (rd_commands r))
      else [])"

lemma Runners_set:
  "set (Runners c) = {r. executor_of c r \<noteq> None}"
  by (cases "cf_http c"; cases "cf_db c"; cases "cf_redis c")
    (auto simp: Runners_def executor_of_def split: if_splits)

lemma Runners_distinct: "distinct (Runners c)"
  by (auto simp: Runners_def split: option.splits)

section \<open>Bind arguments and samplers\<close>

text \<open>
  \<open>Arg.UnmarshalYAML\<close>: only a mapping that carries a \<open>value\<close> key is the object form. The
  wrapper the library fills has a \<open>secret\<close> field that stays false when the key is absent.
\<close>

definition has_value :: "yaml \<Rightarrow> bool" where
  "has_value n = (case n of YMap kvs \<Rightarrow> ''value'' \<in> fst ` set kvs | _ \<Rightarrow> False)"

definition unmarshal_arg :: "(yaml \<Rightarrow> bool option) \<Rightarrow> yaml \<Rightarrow> arg option" where
  "unmarshal_arg read_bool n = (case n of
      YMap kvs \<Rightarrow>
        if has_value n then
          (case map_of kvs ''secret'' of
             None \<Rightarrow> Some \<lparr>ar_value = the (map_of kvs ''value''), ar_secret = False\<rparr>
           | Some b \<Rightarrow> map_option (\<lambda>s. \<lparr>ar_value = the (map_of kvs ''value''), ar_secret = s\<rparr>)
               (read_bool b))
        else Some \<lparr>ar_value = n, ar_secret = False\<rparr>
    | _ \<Rightarrow> Some \<lparr>ar_value = n, ar_secret = False\<rparr>)"

definition marshal_arg :: "arg \<Rightarrow> yaml" where
  "marshal_arg a =
     (if ar_secret a then YMap [(''value'', ar_value a), (''secret'', YBool True)] else ar_value a)"

text \<open>\<open>Sampler.UnmarshalYAML\<close>: a scalar is the switch; an object starts out enabled.\<close>

definition plain_sampler :: sampler where
  "plain_sampler = \<lparr>sm_enabled = True, sm_interval = None, sm_dsn = [], sm_statements = False, sm_latency = False\<rparr>"

fun is_scalar :: "yaml \<Rightarrow> bool" where
  "is_scalar (YSeq _) = False"
| "is_scalar (YMap _) = False"
| "is_scalar _ = True"

definition unmarshal_sampler ::
  "(yaml \<Rightarrow> bool option) \<Rightarrow> (sampler \<Rightarrow> yaml \<Rightarrow> sampler option) \<Rightarrow> sampler \<Rightarrow> yaml \<Rightarrow> sampler option" where
  "unmarshal_sampler read_bool read_fields s n =
     (if is_scalar n then map_option (\<lambda>b. s\<lparr>sm_enabled := b\<rparr>) (read_bool n)
      else read_fields plain_sampler n)"

lemma inner_value: "map_of kvs k = Some w \<Longrightarrow> w \<noteq> YMap kvs"
proof
  assume w: "map_of kvs k = Some w" and eq: "w = YMap kvs"
  have "size w \<le> size_list (size_prod (\<lambda>_. 0) size) kvs"
    using map_of_SomeD[OF w] by (rule size_list_estimation') simp
  then show False by (simp add: eq)
qed

lemma arg_read_back:
  assumes "\<And>b. read_bool (YBool b) = Some b"
  shows "unmarshal_arg read_bool (marshal_arg a) = Some a \<longleftrightarrow> ar_secret a \<or> \<not> has_value (ar_value a)"
proof (cases "ar_secret a \<or> \<not> has_value (ar_value a)")
  case True
  then show ?thesis using assms
    by (cases a; cases "ar_value a") (auto simp: unmarshal_arg_def marshal_arg_def has_value_def)
next
  case False
  then obtain kvs where v: "ar_value a = YMap kvs" "''value'' \<in> fst ` set kvs"
    by (cases "ar_value a") (auto simp: has_value_def)
  then obtain w where w: "map_of kvs ''value'' = Some w"
    by (metis map_of_eq_None_iff not_None_eq)
  have "b \<noteq> a" if "unmarshal_arg read_bool (marshal_arg a) = Some b" for b
    using that inner_value[OF w] False v w
    by (auto simp: unmarshal_arg_def marshal_arg_def has_value_def split: option.splits)
  then show ?thesis using False by auto
qed

section \<open>Properties\<close>



text \<open>A duration written to the effective configuration is read back as the same number of
  nanoseconds.\<close>

theorem duration_round_trip:
  assumes "\<forall>s. read_string (YStr s) = Some s" "in_int64 d"
  shows "unmarshal_duration read_string (marshal_duration d) = Some d"
  using assms by (simp add: unmarshal_duration_def marshal_duration_def parse_written)

theorem duration_round_trip_witness:
  "unmarshal_duration (\<lambda>n. case n of YStr s \<Rightarrow> Some s | _ \<Rightarrow> None) (marshal_duration 90500000000) =
     Some 90500000000"
  by (rule duration_round_trip) (simp_all add: in_int64_def min_int64_def max_int64_def)

end
