(* ===== verification/Validate.thy ===== *)
theory Validate
  imports Config
begin

text \<open>
  Finishing a configuration, \<open>internal/config/defaults.go\<close> and \<open>validate.go\<close>: the defaults, then
  the checks. A validator returns the problems it adds, in the order it adds them; only their
  codes and paths are modelled.
\<close>

section \<open>Defaults\<close>

definition DefaultDuration :: duration where "DefaultDuration = minute"
definition DefaultBucket :: duration where "DefaultBucket = second"
definition DefaultGrace :: duration where "DefaultGrace = 30 * second"
definition DefaultTimeout :: duration where "DefaultTimeout = 10 * second"
definition DefaultMinSamples :: int where "DefaultMinSamples = 20"
definition DefaultArrival :: string where "DefaultArrival = ''uniform''"
definition DefaultExecutor :: string where "DefaultExecutor = ''arrival-rate''"
definition config_DefaultMaxInFlight :: int where "config_DefaultMaxInFlight = 256"
definition config_DefaultQueueDepth :: int where "config_DefaultQueueDepth = 64"
definition DefaultMethod :: string where "DefaultMethod = ''GET''"
definition DefaultPick :: string where "DefaultPick = ''per-iteration''"
definition DefaultFeederMode :: string where "DefaultFeederMode = ''sequential''"
definition DefaultRedisMode :: string where "DefaultRedisMode = ''single''"

lemmas default_consts =
  DefaultDuration_def DefaultBucket_def DefaultGrace_def DefaultTimeout_def DefaultMinSamples_def
  DefaultArrival_def DefaultExecutor_def config_DefaultMaxInFlight_def config_DefaultQueueDepth_def
  DefaultMethod_def DefaultPick_def DefaultFeederMode_def DefaultRedisMode_def

definition applyRunDefaults :: "run_section \<Rightarrow> run_section" where
  "applyRunDefaults r = r\<lparr>
     rn_duration := (if rn_duration r = 0 then DefaultDuration else rn_duration r),
     rn_bucket := (if rn_bucket r = 0 then DefaultBucket else rn_bucket r),
     rn_grace := (if rn_grace r = 0 then DefaultGrace else rn_grace r),
     rn_timeout := (if rn_timeout r = 0 then DefaultTimeout else rn_timeout r),
     rn_min_samples := (if rn_min_samples r = 0 then DefaultMinSamples else rn_min_samples r),
     rn_arrival := (if rn_arrival r = [] then DefaultArrival else rn_arrival r)\<rparr>"

definition applyExtractDefaults :: "extraction \<Rightarrow> extraction" where
  "applyExtractDefaults e = e\<lparr>et_from := (if et_from e = [] then ''body'' else et_from e)\<rparr>"

definition applyStepDefaults :: "http_step \<Rightarrow> http_step" where
  "applyStepDefaults s = s\<lparr>
     hs_method := (if hs_method s = [] then DefaultMethod else hs_method s),
     hs_extract := map applyExtractDefaults (hs_extract s)\<rparr>"

text \<open>The two shorthands, each a single stage that lasts the whole run.\<close>

definition open_defaults :: "duration \<Rightarrow> executor_section \<Rightarrow> executor_section" where
  "open_defaults runDuration e =
     (if xs_type e = DefaultExecutor
      then e\<lparr>xs_max_in_flight := (if xs_max_in_flight e = 0 then config_DefaultMaxInFlight else xs_max_in_flight e),
             xs_queue_depth := (case xs_queue_depth e of None \<Rightarrow> Some config_DefaultQueueDepth | d \<Rightarrow> d),
             xs_stages := (if xs_stages e = [] \<and> f_less (Fin 0) (xs_rate e)
                           then [\<lparr>st_duration = runDuration, st_target = xs_rate e\<rparr>]
                           else xs_stages e)\<rparr>
      else e)"

definition vus_target :: "executor_section \<Rightarrow> float64" where
  "vus_target e = Fin (of_int (xs_vus e))"

definition closed_defaults :: "duration \<Rightarrow> executor_section \<Rightarrow> executor_section" where
  "closed_defaults runDuration e =
     (if xs_type e = ''vus''
      then e\<lparr>xs_pick := (if xs_pick e = [] then DefaultPick else xs_pick e),
             xs_stages := (if xs_stages e = [] \<and> 0 < xs_vus e
                           then [\<lparr>st_duration = runDuration, st_target = vus_target e\<rparr>]
                           else xs_stages e)\<rparr>
      else e)"

definition applyExecutorDefaults :: "duration \<Rightarrow> executor_section \<Rightarrow> executor_section" where
  "applyExecutorDefaults runDuration e =
     closed_defaults runDuration (open_defaults runDuration
       (e\<lparr>xs_type := (if xs_type e = [] then DefaultExecutor else xs_type e)\<rparr>))"

definition NormaliseDriver :: "string \<Rightarrow> string" where
  "NormaliseDriver name =
     (if name \<in> {''postgresql'', ''psql'', ''pg'', ''postgres''} then ''postgres''
      else if name \<in> {''mysql'', ''mariadb''} then ''mysql''
      else if name \<in> {''sqlite'', ''sqlite3''} then ''sqlite''
      else name)"

definition applyHTTPDefaults :: "duration \<Rightarrow> http_section \<Rightarrow> http_section" where
  "applyHTTPDefaults d h = h\<lparr>
     ht_executor := applyExecutorDefaults d (ht_executor h),
     ht_requests := map applyStepDefaults (ht_requests h),
     ht_journeys := map (\<lambda>j. j\<lparr>jn_steps := map applyStepDefaults (jn_steps j)\<rparr>) (ht_journeys h),
     ht_feeders := map (\<lambda>f. f\<lparr>fd_mode := (if fd_mode f = [] then DefaultFeederMode else fd_mode f)\<rparr>)
       (ht_feeders h)\<rparr>"

definition ApplyDefaults :: "configuration \<Rightarrow> configuration" where
  "ApplyDefaults c =
     (let r = applyRunDefaults (cf_run c); d = rn_duration r
      in c\<lparr>cf_run := r,
           cf_http := map_option (applyHTTPDefaults d) (cf_http c),
           cf_db := map_option (\<lambda>s. s\<lparr>db_executor := applyExecutorDefaults d (db_executor s),
                                     db_driver := NormaliseDriver (db_driver s)\<rparr>) (cf_db c),
           cf_redis := map_option (\<lambda>s. s\<lparr>rd_executor := applyExecutorDefaults d (rd_executor s),
                                        rd_mode := (if rd_mode s = [] then DefaultRedisMode else rd_mode s)\<rparr>)
             (cf_redis c)\<rparr>)"

definition StartRate :: "executor_section \<Rightarrow> float64" where
  "StartRate e = (case xs_stages e of
      [s] \<Rightarrow> if f_less (Fin 0) (xs_rate e) \<and> st_target s = xs_rate e then xs_rate e
             else if 0 < xs_vus e \<and> st_target s = vus_target e then vus_target e
             else Fin 0
    | _ \<Rightarrow> Fin 0)"

definition TotalDuration :: "executor_section \<Rightarrow> duration" where
  "TotalDuration e = foldl (\<lambda>sofar s. wrap64 (sofar + st_duration s)) 0 (xs_stages e)"

section \<open>Problems\<close>

definition invalid :: "string \<Rightarrow> coded_error" where
  "invalid path = error_at CodeConfigInvalidValue path"

definition missing :: "string \<Rightarrow> coded_error" where
  "missing path = error_at CodeConfigMissingField path"

definition duplicate :: "string \<Rightarrow> coded_error" where
  "duplicate path = error_at CodeConfigDuplicateName path"

text \<open>\<open>if c { add(e) }\<close>\<close>

definition complain :: "bool \<Rightarrow> coded_error \<Rightarrow> coded_error list" where
  "complain c e = (if c then [e] else [])"

definition summarise_config :: "coded_error list \<Rightarrow> coded_error" where
  "summarise_config es = (case es of [e] \<Rightarrow> e | _ \<Rightarrow> with_causes es (new_error (err_code (hd es))))"

definition nth_path :: "string \<Rightarrow> string \<Rightarrow> nat \<Rightarrow> string" where
  "nth_path path field i = path @ field @ itoa (int i)"

lemma complain_Nil [simp]: "complain c e = [] \<longleftrightarrow> \<not> c"
  by (simp add: complain_def)

definition checkWeight :: "float64 option \<Rightarrow> string \<Rightarrow> coded_error list" where
  "checkWeight w path = (case w of
      None \<Rightarrow> []
    | Some x \<Rightarrow> complain (f_le x (Fin 0) \<or> is_nan x \<or> is_inf x) (invalid path))"

text \<open>
  The loop \<open>for i, x := range xs\<close> over named items: each is judged against the names seen
  before it.
\<close>

fun check_each :: "(nat \<Rightarrow> string set \<Rightarrow> 'a \<Rightarrow> coded_error list) \<Rightarrow> ('a \<Rightarrow> string) \<Rightarrow>
    nat \<Rightarrow> string set \<Rightarrow> 'a list \<Rightarrow> coded_error list \<times> string set" where
  "check_each judge name i seen [] = ([], seen)"
| "check_each judge name i seen (x # xs) =
     (case check_each judge name (i + 1) (insert (name x) seen) xs of
        (ps, seen') \<Rightarrow> (judge i seen x @ ps, seen'))"

text \<open>The name of a request, step, query or command: present, and not seen before.\<close>

definition check_name :: "string \<Rightarrow> string set \<Rightarrow> string \<Rightarrow> coded_error list" where
  "check_name path seen name =
     (if name = [] then [missing (path @ ''/name'')]
      else complain (name \<in> seen) (duplicate (path @ ''/name'')))"

section \<open>The run and its budgets\<close>

definition validate_budget :: "string \<Rightarrow> slo_target \<Rightarrow> coded_error list" where
  "validate_budget base t =
     complain (case so_error_rate t of None \<Rightarrow> False | Some r \<Rightarrow> f_less r (Fin 0) \<or> f_less (Fin 1) r)
       (invalid (base @ ''/error_rate''))
     @ complain (case so_p95 t of None \<Rightarrow> False | Some d \<Rightarrow> d \<le> 0) (invalid (base @ ''/p95''))
     @ complain (case so_p99 t of None \<Rightarrow> False | Some d \<Rightarrow> d \<le> 0) (invalid (base @ ''/p99''))
     @ complain (case (so_p95 t, so_p99 t) of (Some d, Some e) \<Rightarrow> e < d | _ \<Rightarrow> False)
         (invalid (base @ ''/p95''))"

text \<open>Go visits the three budgets in an order of its own: the parameter \<open>ord\<close>.\<close>

definition validateSLO :: "string list \<Rightarrow> configuration \<Rightarrow> coded_error list" where
  "validateSLO ord c = concat (map (\<lambda>name. validate_budget (''/slo/'' @ name) (slo_for (cf_slo c) name)) ord)"

definition validateRun :: "string list \<Rightarrow> configuration \<Rightarrow> coded_error list" where
  "validateRun ord c =
     (let r = cf_run c
      in complain (rn_duration r \<le> 0) (invalid ''/run/duration'')
         @ complain (rn_bucket r \<le> 0) (invalid ''/run/bucket'')
         @ complain (rn_warmup r < 0) (invalid ''/run/warmup'')
         @ complain (0 < rn_duration r \<and> 0 < rn_bucket r \<and> rn_duration r < rn_bucket r)
             (invalid ''/run/bucket'')
         @ complain (rn_duration r \<le> rn_warmup r \<and> 0 < rn_duration r) (invalid ''/run/warmup'')
         @ complain (rn_min_samples r < 1) (invalid ''/run/min_samples'')
         @ complain (rn_arrival r \<notin> {[], ''uniform'', ''poisson''}) (invalid ''/run/arrival'')
         @ validateSLO ord c)"

section \<open>Executors\<close>

definition validate_type :: "executor_section \<Rightarrow> string \<Rightarrow> coded_error list" where
  "validate_type e path =
     (if xs_type e = [] \<or> xs_type e = ''arrival-rate''
      then complain (0 < xs_vus e) (invalid (path @ ''/vus''))
           @ complain (xs_max_in_flight e < 0) (invalid (path @ ''/max_in_flight''))
      else if xs_type e = ''vus''
      then complain (f_less (Fin 0) (xs_rate e)) (invalid (path @ ''/rate''))
           @ complain (xs_pick e \<notin> {[], ''per-iteration'', ''per-vu''}) (invalid (path @ ''/pick''))
      else [invalid (path @ ''/type'')])"

definition validate_stage :: "string \<Rightarrow> stage \<Rightarrow> coded_error list" where
  "validate_stage p s =
     complain (st_duration s \<le> 0) (invalid (p @ ''/duration''))
     @ complain (f_less (st_target s) (Fin 0) \<or> is_nan (st_target s) \<or> is_inf (st_target s))
         (invalid (p @ ''/target''))"

definition validateExecutor :: "duration \<Rightarrow> executor_section \<Rightarrow> string \<Rightarrow> coded_error list" where
  "validateExecutor runDuration e path =
     validate_type e path
     @ complain (f_less (Fin 0) (xs_rate e) \<and> 1 < length (xs_stages e)) (invalid (path @ ''/rate''))
     @ complain (xs_stages e = [] \<and> xs_rate e = Fin 0 \<and> xs_vus e = 0) (missing path)
     @ concat (map (\<lambda>(i, s). validate_stage (nth_path path ''/stages/'' i) s) (enumerate 0 (xs_stages e)))
     @ complain (xs_stages e \<noteq> [] \<and> 0 < runDuration \<and> TotalDuration e \<noteq> runDuration)
         (error_at CodeConfigStagesMismatch (path @ ''/stages''))"

section \<open>Runners\<close>

definition validateThink :: "string \<Rightarrow> think_time \<Rightarrow> coded_error list" where
  "validateThink path t =
     (if tt_type t = ''constant'' then complain (tt_duration t = None) (missing (path @ ''/duration''))
      else if tt_type t = ''uniform''
      then (case (tt_min t, tt_max t) of
              (Some lo, Some hi) \<Rightarrow> complain (hi < lo) (invalid (path @ ''/min''))
            | _ \<Rightarrow> [missing (path @ ''/min'')])
      else if tt_type t = ''exponential'' then complain (tt_mean t = None) (missing (path @ ''/mean''))
      else [invalid (path @ ''/type'')])"

definition validate_extract :: "string \<Rightarrow> extraction \<Rightarrow> coded_error list" where
  "validate_extract p e =
     complain (et_name e = []) (missing (p @ ''/name''))
     @ complain (et_from e \<notin> {[], ''body'', ''header'', ''status''}) (invalid (p @ ''/from''))
     @ complain (et_path e = [] \<and> et_from e \<noteq> ''status'') (missing (p @ ''/path''))"

definition validateStep :: "string \<Rightarrow> bool \<Rightarrow> string set \<Rightarrow> http_step \<Rightarrow> coded_error list" where
  "validateStep path weighted seen s =
     check_name path seen (hs_name s)
     @ (if weighted then checkWeight (hs_weight s) (path @ ''/weight'')
        else complain (hs_weight s \<noteq> None) (invalid (path @ ''/weight'')))
     @ complain (hs_url s = []) (missing (path @ ''/url''))
     @ complain (hs_body s \<noteq> [] \<and> hs_body_file s \<noteq> []) (invalid (path @ ''/body''))
     @ complain (case hs_timeout s of None \<Rightarrow> False | Some d \<Rightarrow> d \<le> 0) (invalid (path @ ''/timeout''))
     @ (case hs_expect s of
          None \<Rightarrow> []
        | Some ex \<Rightarrow> concat (map (\<lambda>(k, st). complain (st < 100 \<or> 599 < st)
            (invalid (nth_path path ''/expect/status/'' k))) (enumerate 0 (ep_status ex))))
     @ concat (map (\<lambda>(k, e). validate_extract (nth_path path ''/extract/'' k) e)
         (enumerate 0 (hs_extract s)))
     @ (case hs_think s of None \<Rightarrow> [] | Some t \<Rightarrow> validateThink (path @ ''/think'') t)"

definition validate_journey :: "string \<Rightarrow> string set \<Rightarrow> journey \<Rightarrow> coded_error list" where
  "validate_journey path seen j =
     complain (jn_name j = []) (missing (path @ ''/name''))
     @ complain (jn_name j \<in> seen) (duplicate (path @ ''/name''))
     @ checkWeight (jn_weight j) (path @ ''/weight'')
     @ complain (jn_steps j = []) (missing (path @ ''/steps''))
     @ fst (check_each (\<lambda>k. validateStep (nth_path path ''/steps/'' k) False) hs_name 0 {} (jn_steps j))"

definition validate_feeder :: "string \<Rightarrow> string set \<Rightarrow> feeder \<Rightarrow> coded_error list" where
  "validate_feeder path seen f =
     complain (fd_name f = []) (missing (path @ ''/name''))
     @ complain (fd_file f = []) (missing (path @ ''/file''))
     @ complain (fd_name f \<in> seen) (duplicate (path @ ''/name''))
     @ complain (fd_mode f \<notin> {[], ''sequential'', ''random'', ''unique''}) (invalid (path @ ''/mode''))"

definition validateHTTP :: "duration \<Rightarrow> http_section \<Rightarrow> coded_error list" where
  "validateHTTP d h =
     (case check_each (\<lambda>i. validateStep (nth_path ''/http'' ''/requests/'' i) True) hs_name 0 {}
         (ht_requests h) of (requests, seen) \<Rightarrow>
       (if ht_requests h \<noteq> [] \<and> ht_journeys h \<noteq> []
        then [error_at CodeConfigRequestsAndJourney ''/http'']
        else if ht_requests h = [] \<and> ht_journeys h = []
        then [missing ''/http'']
        else [])
       @ requests
       @ fst (check_each (\<lambda>i. validate_journey (nth_path ''/http'' ''/journeys/'' i)) jn_name 0 seen
           (ht_journeys h))
       @ fst (check_each (\<lambda>i. validate_feeder (nth_path ''/http'' ''/feeders/'' i)) fd_name 0 {}
           (ht_feeders h))
       @ validateExecutor d (ht_executor h) ''/http/executor'')"

definition validate_query :: "string \<Rightarrow> string set \<Rightarrow> query \<Rightarrow> coded_error list" where
  "validate_query path seen q =
     check_name path seen (qu_name q)
     @ (if qu_sql q = [] \<and> qu_tx q = [] then [missing (path @ ''/sql'')]
        else complain (qu_sql q \<noteq> [] \<and> qu_tx q \<noteq> []) (invalid (path @ ''/sql'')))
     @ complain (qu_type q \<notin> {[], ''read'', ''write''}) (invalid (path @ ''/type''))
     @ checkWeight (qu_weight q) (path @ ''/weight'')"

definition validateDB :: "duration \<Rightarrow> db_section \<Rightarrow> coded_error list" where
  "validateDB d s =
     (if NormaliseDriver (db_driver s) \<in> {''postgres'', ''mysql'', ''sqlite''} then []
      else if NormaliseDriver (db_driver s) = [] then [missing ''/db/driver'']
      else [invalid ''/db/driver''])
     @ complain (db_dsn s = []) (missing ''/db/dsn'')
     @ complain (db_queries s = []) (missing ''/db/queries'')
     @ fst (check_each (\<lambda>i. validate_query (nth_path ''/db'' ''/queries/'' i)) qu_name 0 {} (db_queries s))
     @ complain (case db_pool s of None \<Rightarrow> False | Some p \<Rightarrow> po_max_open p < 0) (invalid ''/db/pool/max_open'')
     @ validateExecutor d (db_executor s) ''/db/executor''"

definition validate_command :: "string \<Rightarrow> string set \<Rightarrow> redis_command \<Rightarrow> coded_error list" where
  "validate_command path seen cmd =
     check_name path seen (rc_name cmd)
     @ (if rc_cmd cmd = [] \<and> rc_pipeline cmd = [] then [missing (path @ ''/cmd'')]
        else complain (rc_cmd cmd \<noteq> [] \<and> rc_pipeline cmd \<noteq> []) (invalid (path @ ''/cmd'')))
     @ checkWeight (rc_weight cmd) (path @ ''/weight'')"

definition validate_mode :: "redis_section \<Rightarrow> coded_error list" where
  "validate_mode r =
     (if rd_mode r = [] \<or> rd_mode r = ''single''
      then complain (rd_addr r = [] \<and> rd_addrs r = []) (missing ''/redis/addr'')
      else if rd_mode r = ''cluster'' then complain (rd_addrs r = []) (missing ''/redis/addrs'')
      else if rd_mode r = ''sentinel''
      then complain (rd_addrs r = []) (missing ''/redis/addrs'')
           @ complain (rd_master_name r = []) (missing ''/redis/master_name'')
      else [invalid ''/redis/mode''])"

definition validateRedis :: "duration \<Rightarrow> redis_section \<Rightarrow> coded_error list" where
  "validateRedis d r =
     validate_mode r
     @ complain (rd_addr r \<noteq> [] \<and> rd_addrs r \<noteq> []) (invalid ''/redis/addr'')
     @ complain (rd_commands r = []) (missing ''/redis/commands'')
     @ fst (check_each (\<lambda>i. validate_command (nth_path ''/redis'' ''/commands/'' i)) rc_name 0 {}
         (rd_commands r))
     @ validateExecutor d (rd_executor r) ''/redis/executor''"

section \<open>Validation\<close>

definition config_problems :: "string list \<Rightarrow> configuration \<Rightarrow> coded_error list" where
  "config_problems ord c =
     (let d = rn_duration (cf_run c)
      in validateRun ord c
         @ complain (Runners c = []) (new_error CodeConfigNoRunner)
         @ (case cf_http c of None \<Rightarrow> [] | Some h \<Rightarrow> validateHTTP d h)
         @ (case cf_db c of None \<Rightarrow> [] | Some s \<Rightarrow> validateDB d s)
         @ (case cf_redis c of None \<Rightarrow> [] | Some r \<Rightarrow> validateRedis d r))"

definition Validate :: "string list \<Rightarrow> configuration \<Rightarrow> coded_error option" where
  "Validate ord c =
     (if config_problems ord c = [] then None else Some (summarise_config (config_problems ord c)))"

text \<open>\<open>Finalise\<close>: the defaults first, so that what is judged is what will run.\<close>

definition Finalise :: "string list \<Rightarrow> configuration \<Rightarrow> configuration result" where
  "Finalise ord c =
     (let c' = ApplyDefaults c in case Validate ord c' of None \<Rightarrow> Inr c' | Some e \<Rightarrow> Inl e)"

section \<open>Names\<close>

text \<open>A judge that rejects a name it has seen; the loop over it leaves only distinct names.\<close>

locale name_judge =
  fixes judge :: "nat \<Rightarrow> string set \<Rightarrow> 'a \<Rightarrow> coded_error list"
    and name :: "'a \<Rightarrow> string"
  assumes fresh_name: "judge i seen x = [] \<Longrightarrow> name x \<notin> seen"
begin

lemma passed:
  "fst (check_each judge name i seen xs) = [] \<Longrightarrow>
   distinct (map name xs) \<and> name ` set xs \<inter> seen = {} \<and> (\<forall>x \<in> set xs. \<exists>k s. judge k s x = [])"
proof (induction xs arbitrary: i seen)
  case (Cons x xs)
  then have "judge i seen x = []" "fst (check_each judge name (i + 1) (insert (name x) seen) xs) = []"
    by (auto split: prod.splits)
  with Cons.IH[OF this(2)] fresh_name[OF this(1)] show ?case by auto
qed simp

lemma distinct_names: "fst (check_each judge name i seen xs) = [] \<Longrightarrow> distinct (map name xs)"
  using passed by blast

end

lemma seen_names: "snd (check_each judge name i seen xs) = seen \<union> name ` set xs"
  by (induction xs arbitrary: i seen) (auto split: prod.splits simp: prod.case_eq_if)

lemma check_name_fresh: "check_name path seen n = [] \<Longrightarrow> n \<notin> seen \<and> n \<noteq> []"
  by (auto simp: check_name_def split: if_splits)

interpretation steps: name_judge "\<lambda>i. validateStep (p i) w" hs_name for p w
  by unfold_locales (auto simp: validateStep_def dest: check_name_fresh)

interpretation journeys: name_judge "\<lambda>i. validate_journey (p i)" jn_name for p
  by unfold_locales (auto simp: validate_journey_def)

interpretation feeders: name_judge "\<lambda>i. validate_feeder (p i)" fd_name for p
  by unfold_locales (auto simp: validate_feeder_def)

interpretation queries: name_judge "\<lambda>i. validate_query (p i)" qu_name for p
  by unfold_locales (auto simp: validate_query_def dest: check_name_fresh)

interpretation commands: name_judge "\<lambda>i. validate_command (p i)" rc_name for p
  by unfold_locales (auto simp: validate_command_def dest: check_name_fresh)

end
