(* ===== verification/Validated.thy ===== *)
theory Validated
  imports Validate
begin

text \<open>
  What a finished configuration guarantees to the parts that run it: every executor that
  passed validation compiles to a profile that lasts the whole run
  (\<open>engine.buildExecutors\<close>), the \<open>rate\<close> shorthand is a flat rate, and the labels the
  collector resolves are distinct.
\<close>

section \<open>The arrival schedule of a runner\<close>

text \<open>\<open>schedule.Arrival(cfg.Run.Arrival)\<close>\<close>

definition arrival_of :: "string \<Rightarrow> arrival" where
  "arrival_of s = (if s = ''uniform'' then ArrivalUniform
                   else if s = ''poisson'' then ArrivalPoisson
                   else ArrivalOther s)"

text \<open>The profile and the schedule \<open>buildExecutors\<close> makes for one runner; the source is seeded.\<close>

definition build_schedule :: "configuration \<Rightarrow> string \<Rightarrow> 'r \<Rightarrow> 'r option schedule result" where
  "build_schedule c runner rng = (case executor_of c runner of
      None \<Rightarrow> Inl (new_error CodeInternal)
    | Some ex \<Rightarrow> rbind (NewProfile (StartRate ex) (xs_stages ex)) (\<lambda>p.
        NewSchedule (Some p) (arrival_of (rn_arrival (cf_run c))) (Some rng)))"

section \<open>Executors that passed\<close>

lemma enumerate_concat_Nil:
  "concat (map (\<lambda>(i, x). f i x) (enumerate n xs)) = [] \<longleftrightarrow> (\<forall>k < length xs. f (n + k) (xs ! k) = [])"
  by (auto simp: in_set_enumerate_eq set_conv_nth nth_enumerate_eq)

lemma validate_stage_ok: "validate_stage p s = [] \<longleftrightarrow> stage_ok s"
  by (cases "st_target s") (auto simp: validate_stage_def stage_ok_def fin_nonneg_def)

lemma validateExecutor_passed:
  assumes "validateExecutor d e path = []"
  shows "validate_type e path = []" "list_all stage_ok (xs_stages e)"
    "xs_stages e \<noteq> [] \<Longrightarrow> 0 < d \<Longrightarrow> TotalDuration e = d"
  using assms
  by (simp_all add: validateExecutor_def list_all_length enumerate_concat_Nil validate_stage_ok
      del: concat_eq_Nil_conv)

lemma config_problems_Nil:
  "config_problems ord c = [] \<longleftrightarrow> validateRun ord c = [] \<and> Runners c \<noteq> []
     \<and> (\<forall>h. cf_http c = Some h \<longrightarrow> validateHTTP (rn_duration (cf_run c)) h = [])
     \<and> (\<forall>s. cf_db c = Some s \<longrightarrow> validateDB (rn_duration (cf_run c)) s = [])
     \<and> (\<forall>r. cf_redis c = Some r \<longrightarrow> validateRedis (rn_duration (cf_run c)) r = [])"
  by (simp add: config_problems_def Let_def split: option.splits)

lemma section_executor:
  "validateHTTP d h = [] \<Longrightarrow> validateExecutor d (ht_executor h) ''/http/executor'' = []"
  "validateDB d s = [] \<Longrightarrow> validateExecutor d (db_executor s) ''/db/executor'' = []"
  "validateRedis d r = [] \<Longrightarrow> validateExecutor d (rd_executor r) ''/redis/executor'' = []"
  by (simp_all only: validateHTTP_def validateDB_def validateRedis_def append_is_Nil_conv prod.case_eq_if)

lemma Finalise_passed:
  assumes "Finalise ord c0 = Inr c"
  shows "c = ApplyDefaults c0" "config_problems ord c = []"
    "0 < rn_duration (cf_run c)" "rn_arrival (cf_run c) \<in> {''uniform'', ''poisson''}"
    "\<And>r ex. executor_of c r = Some ex \<Longrightarrow> \<exists>path. validateExecutor (rn_duration (cf_run c)) ex path = []"
proof -
  show c: "c = ApplyDefaults c0" and ok: "config_problems ord c = []"
    using assms by (auto simp: Finalise_def Validate_def Let_def split: if_splits option.splits)
  then have run: "validateRun ord c = []" by (simp add: config_problems_Nil)
  then show "0 < rn_duration (cf_run c)" by (simp add: validateRun_def Let_def)
  have "rn_arrival (cf_run c) \<noteq> []"
    by (simp add: c ApplyDefaults_def applyRunDefaults_def DefaultArrival_def Let_def)
  then show "rn_arrival (cf_run c) \<in> {''uniform'', ''poisson''}"
    using run by (simp add: validateRun_def Let_def)
  show "\<exists>path. validateExecutor (rn_duration (cf_run c)) ex path = []"
    if e: "executor_of c r = Some ex" for r ex
  proof -
    note sections = ok[unfolded config_problems_Nil]
    consider h where "cf_http c = Some h" "ex = ht_executor h"
      | s where "cf_db c = Some s" "ex = db_executor s"
      | d where "cf_redis c = Some d" "ex = rd_executor d"
      using e by (auto simp: executor_of_def split: if_splits)
    then show ?thesis using sections section_executor by cases blast+
  qed
qed

lemma StartRate_ok: "list_all stage_ok (xs_stages e) \<Longrightarrow> fin_nonneg (StartRate e)"
  by (auto simp: StartRate_def stage_ok_def fin_nonneg_def vus_target_def split: list.splits)

lemma compile_duration:
  "compile_stages i r off p sts = Inr q \<Longrightarrow>
   p_duration q = foldl (\<lambda>sofar s. wrap64 (sofar + st_duration s)) (p_duration p) sts"
  by (induction sts arbitrary: i r off p) (auto simp: Let_def split: if_splits option.splits)

lemma NewProfile_duration:
  "NewProfile r (xs_stages e) = Inr p \<Longrightarrow> p_duration p = TotalDuration e"
  using compile_duration by (force simp: NewProfile_def TotalDuration_def split: if_splits option.splits)

lemma profile_accepted:
  "is_ok (NewProfile r sts) \<longleftrightarrow> sts \<noteq> [] \<and> fin_nonneg r \<and> list_all stage_ok sts"
  unfolding NewProfile_def fin_nonneg_tests using compile_ok_iff by (auto split: option.splits)

lemma finished_profile:
  assumes "Finalise ord c0 = Inr c" "executor_of c r = Some ex" "xs_stages ex \<noteq> []"
  shows "\<exists>p. NewProfile (StartRate ex) (xs_stages ex) = Inr p \<and> p_duration p = rn_duration (cf_run c)"
proof -
  note passed = Finalise_passed[OF assms(1)]
  obtain path where ex: "validateExecutor (rn_duration (cf_run c)) ex path = []"
    using passed(5)[OF assms(2)] ..
  note v = validateExecutor_passed[OF ex]
  have "is_ok (NewProfile (StartRate ex) (xs_stages ex))"
    using v(2) StartRate_ok[OF v(2)] assms(3) by (simp add: profile_accepted)
  then obtain p where "NewProfile (StartRate ex) (xs_stages ex) = Inr p" by (auto simp: is_ok_iff)
  with NewProfile_duration[OF this] v(3)[OF assms(3) passed(3)] show ?thesis by simp
qed

lemma defaults_stages:
  "xs_stages (applyExecutorDefaults d e) =
     (if xs_stages e \<noteq> [] then xs_stages e
      else if xs_type e \<in> {[], ''arrival-rate''} \<and> f_less (Fin 0) (xs_rate e)
      then [\<lparr>st_duration = d, st_target = xs_rate e\<rparr>]
      else if xs_type e = ''vus'' \<and> 0 < xs_vus e
      then [\<lparr>st_duration = d, st_target = vus_target e\<rparr>]
      else [])"
  by (simp add: applyExecutorDefaults_def open_defaults_def closed_defaults_def DefaultExecutor_def vus_target_def)

lemma defaults_kept:
  "xs_rate (applyExecutorDefaults d e) = xs_rate e" "xs_vus (applyExecutorDefaults d e) = xs_vus e"
  "xs_type (applyExecutorDefaults d e) = (if xs_type e = [] then ''arrival-rate'' else xs_type e)"
  by (simp_all add: applyExecutorDefaults_def open_defaults_def closed_defaults_def DefaultExecutor_def)

lemma defaults_in_flight:
  "xs_max_in_flight (applyExecutorDefaults d e) =
     (if xs_type e \<in> {[], ''arrival-rate''} \<and> xs_max_in_flight e = 0 then 256 else xs_max_in_flight e)"
  by (simp add: applyExecutorDefaults_def open_defaults_def closed_defaults_def default_consts)

lemma defaults_executor:
  "executor_of (ApplyDefaults c) r =
     map_option (applyExecutorDefaults (rn_duration (cf_run (ApplyDefaults c)))) (executor_of c r)"
  by (simp add: executor_of_def ApplyDefaults_def Let_def applyHTTPDefaults_def option.map_comp comp_def)

lemma finished_type:
  assumes "Finalise ord c0 = Inr c" "executor_of c r = Some ex"
  shows "(xs_type ex = ''arrival-rate'' \<and> xs_vus ex \<le> 0) \<or>
         (xs_type ex = ''vus'' \<and> \<not> f_less (Fin 0) (xs_rate ex))"
proof -
  note passed = Finalise_passed[OF assms(1)]
  obtain e where "executor_of c0 r = Some e" and ex: "ex = applyExecutorDefaults (rn_duration (cf_run c)) e"
    using assms(2) by (auto simp: passed(1) defaults_executor)
  then have "xs_type ex \<noteq> []" by (simp add: defaults_kept)
  moreover obtain path where "validate_type ex path = []"
    using passed(5)[OF assms(2)] validateExecutor_passed(1) by blast
  ultimately show ?thesis by (auto simp: validate_type_def split: if_splits)
qed

lemma finished_without_stages:
  assumes "Finalise ord c0 = Inr c" "executor_of c r = Some ex" "xs_stages ex = []"
  shows "\<not> f_le (Fin 0) (xs_rate ex) \<or> xs_vus ex < 0"
proof -
  note passed = Finalise_passed[OF assms(1)]
  obtain e where ex: "ex = applyExecutorDefaults (rn_duration (cf_run c)) e"
    using assms(2) by (auto simp: passed(1) defaults_executor)
  obtain path where "validateExecutor (rn_duration (cf_run c)) ex path = []"
    using passed(5)[OF assms(2)] ..
  then have some: "xs_rate ex \<noteq> Fin 0 \<or> xs_vus ex \<noteq> 0"
    using assms(3) by (auto simp: validateExecutor_def)
  have "\<not> f_less (Fin 0) (xs_rate ex)" "xs_vus ex \<le> 0"
    using finished_type[OF assms(1,2)] assms(3)
    by (auto simp: ex defaults_stages defaults_kept split: if_splits)
  then show ?thesis using some by (cases "xs_rate ex") auto
qed

lemma schedule_of_profile:
  assumes "Finalise ord c0 = Inr c" "NewProfile (StartRate ex) (xs_stages ex) = Inr p"
    "executor_of c r = Some ex"
  shows "\<exists>s. build_schedule c r rng = Inr s \<and> sc_profile s = p"
  using Finalise_passed(4)[OF assms(1)] assms(2,3)
  by (auto simp: build_schedule_def NewSchedule_def arrival_of_def)

section \<open>A flat rate\<close>

lemma flat_profile:
  assumes "0 < d" "0 < r"
  shows "\<exists>p. NewProfile (Fin r) [\<lparr>st_duration = d, st_target = Fin r\<rparr>] = Inr p
      \<and> segs p = [mk_segment 0 (secs d) r r 0] \<and> Expected p = r * secs d"
  using assms
  by (simp add: NewProfile_def finite_err_def Let_def Expected_def mk_segment_cap secs_pos)

lemma flat_rate:
  assumes "segs p = [mk_segment 0 (secs d) r r 0]" "0 \<le> t" "t \<le> p_duration p"
  shows "RateAt p t = r"
  using assms by (simp add: RateAt_def segmentAtTime_def Let_def mk_segment_def)

section \<open>Distinct labels\<close>

lemma check_each_map: "fst (check_each judge name i seen xs) = [] \<Longrightarrow> x \<in> set xs \<Longrightarrow> \<exists>k s. judge k s x = []"
proof (induction xs arbitrary: i seen)
  case (Cons y ys)
  then show ?case by (cases "x = y") (auto simp: prod.case_eq_if)
qed simp

lemma journey_labels_prefix:
  assumes "CHR ''/'' \<notin> set (jn_name j)" "l \<in> set (journey_labels j)"
  shows "takeWhile (\<lambda>c. c \<noteq> CHR ''/'') l = jn_name j"
proof -
  obtain x where l: "l = jn_name j @ CHR ''/'' # x" using assms(2) by (auto simp: journey_labels_def)
  have "takeWhile (\<lambda>c. c \<noteq> CHR ''/'') (jn_name j @ CHR ''/'' # x) = jn_name j"
    using assms(1) by (subst takeWhile_append2) auto
  then show ?thesis by (simp only: l)
qed

lemma journey_labels_distinct: "distinct (map hs_name (jn_steps j)) \<Longrightarrow> distinct (journey_labels j)"
  by (simp add: journey_labels_def distinct_map inj_on_def)

lemma journeys_distinct:
  assumes "distinct (map jn_name js)" "\<forall>j \<in> set js. distinct (map hs_name (jn_steps j))"
    "\<forall>j \<in> set js. CHR ''/'' \<notin> set (jn_name j)"
  shows "distinct (concat (map journey_labels js))"
  using assms
proof (induction js)
  case (Cons j js)
  have "l \<notin> set (journey_labels k)" if "k \<in> set js" "l \<in> set (journey_labels j)" for k l
    using that Cons.prems journey_labels_prefix[of j l] journey_labels_prefix[of k l] by auto
  with Cons show ?case by (auto simp: journey_labels_distinct)
qed simp

lemma finished_labels:
  assumes "Finalise ord c0 = Inr c" "\<forall>h \<in> set_option (cf_http c). \<forall>j \<in> set (ht_journeys h). CHR ''/'' \<notin> set (jn_name j)"
  shows "distinct (Labels c r)"
proof -
  note passed = Finalise_passed(2)[OF assms(1), unfolded config_problems_Nil]
  have http: "distinct (map hs_name (ht_requests h) @ concat (map journey_labels (ht_journeys h)))"
    if h: "cf_http c = Some h" for h
  proof -
    let ?d = "rn_duration (cf_run c)"
    have v: "validateHTTP ?d h = []" using passed h by blast
    let ?req = "check_each (\<lambda>i. validateStep (nth_path ''/http'' ''/requests/'' i) True) hs_name 0 {} (ht_requests h)"
    let ?jn = "check_each (\<lambda>i. validate_journey (nth_path ''/http'' ''/journeys/'' i)) jn_name 0 (snd ?req) (ht_journeys h)"
    have parts: "ht_requests h = [] \<or> ht_journeys h = []" "fst ?req = []" "fst ?jn = []"
      using v by (auto simp: validateHTTP_def prod.case_eq_if split: if_splits)
    have steps: "distinct (map hs_name (jn_steps j))" if "j \<in> set (ht_journeys h)" for j
      using check_each_map[OF parts(3) that] by (auto simp: validate_journey_def dest: steps.distinct_names)
    have "distinct (concat (map journey_labels (ht_journeys h)))"
      using journeys_distinct[of "ht_journeys h"] journeys.distinct_names[OF parts(3)] steps assms(2) h by auto
    moreover have "distinct (map hs_name (ht_requests h))" by (rule steps.distinct_names[OF parts(2)])
    ultimately show ?thesis using parts(1) by auto
  qed
  have db: "distinct (map qu_name (db_queries s))" if "cf_db c = Some s" for s
    using passed that by (auto simp: validateDB_def dest: queries.distinct_names)
  have redis: "distinct (map rc_name (rd_commands s))" if "cf_redis c = Some s" for s
    using passed that by (auto simp: validateRedis_def dest: commands.distinct_names)
  show ?thesis using http db redis
    by (auto simp: Labels_def simp del: distinct_append split: option.splits)
qed

text \<open>Two journeys that validation accepts and whose labels coincide.\<close>

definition slash_step :: "string \<Rightarrow> http_step" where
  "slash_step name = \<lparr>hs_name = name, hs_weight = None, hs_method = [], hs_url = ''u'', hs_headers = Map.empty,
     hs_body = [], hs_body_file = [], hs_timeout = None, hs_expect = None, hs_extract = [], hs_think = None\<rparr>"

definition slash_journeys :: "journey list" where
  "slash_journeys = [\<lparr>jn_name = ''a'', jn_weight = None, jn_steps = [slash_step ''b/c'']\<rparr>,
                     \<lparr>jn_name = ''a/b'', jn_weight = None, jn_steps = [slash_step ''c'']\<rparr>]"

lemma slash_labels_collide:
  "fst (check_each (\<lambda>i. validate_journey (nth_path ''/http'' ''/journeys/'' i)) jn_name 0 {} slash_journeys) = []
   \<and> map journey_labels slash_journeys = [[''a/b/c''], [''a/b/c'']]"
  by (simp add: slash_journeys_def slash_step_def validate_journey_def validateStep_def check_name_def
      checkWeight_def journey_labels_def)

section \<open>A finished configuration\<close>

definition demo_executor :: executor_section where
  "demo_executor = \<lparr>xs_type = [], xs_rate = Fin 50, xs_vus = 0, xs_stages = [], xs_max_in_flight = 0,
     xs_queue_depth = None, xs_pick = []\<rparr>"

definition demo_query :: query where
  "demo_query = \<lparr>qu_name = ''q'', qu_weight = None, qu_type = [], qu_sql = ''SELECT 1'', qu_args = [],
     qu_tx = [], qu_timeout = None, qu_prepare = False\<rparr>"

definition demo_db :: db_section where
  "demo_db = \<lparr>db_driver = ''pg'', db_dsn = ''d'', db_executor = demo_executor, db_pool = None,
     db_tag_sessions = None, db_comment_queries = False, db_queries = [demo_query]\<rparr>"

definition demo_run :: run_section where
  "demo_run = \<lparr>rn_name = [], rn_duration = 0, rn_bucket = 0, rn_warmup = 0, rn_grace = 0, rn_timeout = 0,
     rn_seed = None, rn_arrival = [], rn_min_samples = 0, rn_tags = Map.empty\<rparr>"

definition no_safety :: safety where
  "no_safety = \<lparr>sf_allow_writes = False, sf_allow_dangerous = False, sf_allow_targets = [],
     sf_allow_insecure_tls = False, sf_max_rate = None, sf_max_in_flight = None, sf_max_duration = None,
     sf_abort_guard = None\<rparr>"

definition demo :: configuration where
  "demo = \<lparr>cf_version = Version, cf_run = demo_run, cf_slo = \<lparr>so_http = no_budget, so_db = no_budget,
     so_redis = no_budget\<rparr>, cf_safety = no_safety, cf_http = None, cf_db = Some demo_db, cf_redis = None,
     cf_telemetry = None, cf_capacity = None\<rparr>"

lemmas demo_defs = demo_executor_def demo_query_def demo_db_def demo_run_def no_safety_def demo_def

definition slo_order :: "string list" where "slo_order = [''http'', ''db'', ''redis'']"

lemma demo_parts:
  "cf_run (ApplyDefaults demo) = applyRunDefaults demo_run"
  "executor_of demo ''db'' = Some demo_executor"
  "cf_http (ApplyDefaults demo) = None" "cf_redis (ApplyDefaults demo) = None"
  "slo_for (cf_slo (ApplyDefaults demo)) r = no_budget"
  "cf_db (ApplyDefaults demo) = Some (demo_db\<lparr>db_executor := applyExecutorDefaults minute demo_executor,
     db_driver := ''postgres''\<rparr>)"
  by (simp_all add: ApplyDefaults_def demo_def demo_db_def Let_def executor_of_def NormaliseDriver_def
      applyRunDefaults_def demo_run_def default_consts slo_for_def)

lemma demo_finished: "Finalise slo_order demo = Inr (ApplyDefaults demo)"
proof -
  let ?c = "ApplyDefaults demo"
  have run: "validateRun slo_order ?c = []"
    by (simp add: validateRun_def demo_parts applyRunDefaults_def demo_run_def default_consts duration_units
        validateSLO_def slo_order_def no_budget_def validate_budget_def)
  have ex: "validateExecutor minute (applyExecutorDefaults minute demo_executor) p = []" for p
    by (simp add: validateExecutor_def validate_type_def defaults_stages defaults_kept demo_executor_def
        applyExecutorDefaults_def open_defaults_def closed_defaults_def default_consts
        validate_stage_def duration_units TotalDuration_def wrap64_id)
  have db: "validateDB minute (the (cf_db ?c)) = []"
    by (simp add: validateDB_def demo_parts demo_db_def NormaliseDriver_def ex demo_query_def
        validate_query_def check_name_def checkWeight_def)
  have "rn_duration (cf_run ?c) = minute" by (simp add: demo_parts applyRunDefaults_def demo_run_def default_consts)
  then have "config_problems slo_order ?c = []"
    using run db by (simp add: config_problems_Nil demo_parts Runners_def)
  then show ?thesis by (simp add: Finalise_def Validate_def)
qed

section \<open>Properties\<close>

text \<open>C16. A finished configuration can be scheduled: a runner with a stage gets an arrival schedule
  whose profile lasts exactly the run. A runner is left without a stage only by a rate that is
  negative or not a number, or a negative number of virtual users, which validation lets pass and
  which then fails when the executors are built.\<close>

theorem finished_schedule:
  assumes "Finalise ord c0 = Inr c" "executor_of c runner = Some ex"
  shows "case build_schedule c runner rng of
      Inr s \<Rightarrow> p_duration (sc_profile s) = rn_duration (cf_run c) \<and> xs_stages ex \<noteq> []
    | Inl e \<Rightarrow> xs_stages ex = [] \<and> (\<not> f_le (Fin 0) (xs_rate ex) \<or> xs_vus ex < 0)"
proof (cases "xs_stages ex = []")
  case True
  then have "\<not> is_ok (NewProfile (StartRate ex) (xs_stages ex))" by (simp add: profile_accepted)
  then obtain e where "build_schedule c runner rng = Inl e"
    using assms(2) by (cases "NewProfile (StartRate ex) (xs_stages ex)") (auto simp: build_schedule_def)
  with True finished_without_stages[OF assms True] show ?thesis by simp
next
  case False
  obtain p where p: "NewProfile (StartRate ex) (xs_stages ex) = Inr p" "p_duration p = rn_duration (cf_run c)"
    using finished_profile[OF assms False] by blast
  then show ?thesis using schedule_of_profile[OF assms(1) p(1) assms(2), of rng] False by auto
qed

theorem finished_schedule_witness:
  "p_duration (sc_profile (projr (build_schedule (ApplyDefaults demo) ''db'' ()))) = minute"
proof -
  have ex: "executor_of (ApplyDefaults demo) ''db'' = Some (applyExecutorDefaults minute demo_executor)"
    by (simp add: defaults_executor demo_parts applyRunDefaults_def demo_run_def default_consts)
  have "xs_stages (applyExecutorDefaults minute demo_executor) \<noteq> []"
    by (simp add: defaults_stages demo_executor_def)
  then show ?thesis
    using finished_schedule[OF demo_finished ex, of "()"]
    by (auto simp: demo_parts applyRunDefaults_def demo_run_def default_consts split: sum.splits)
qed

text \<open>The \<open>rate\<close> shorthand is a flat rate: an executor given a positive rate and no stages offers
  that rate at every instant of the run, and the rate times the run's duration in all.\<close>

theorem rate_shorthand:
  assumes "Finalise ord c0 = Inr c" "executor_of c0 runner = Some e"
    "xs_stages e = []" "xs_rate e = Fin r" "0 < r"
  shows "\<exists>s. build_schedule c runner rng = Inr s \<and> p_duration (sc_profile s) = rn_duration (cf_run c)
    \<and> Expected (sc_profile s) = r * secs (rn_duration (cf_run c))
    \<and> (\<forall>t. 0 \<le> t \<and> t \<le> rn_duration (cf_run c) \<longrightarrow> RateAt (sc_profile s) t = r)"
proof -
  note passed = Finalise_passed[OF assms(1)]
  let ?d = "rn_duration (cf_run c)"
  define ex where "ex = applyExecutorDefaults ?d e"
  have ex: "executor_of c runner = Some ex" using assms(2) by (simp add: passed(1) defaults_executor ex_def)
  have "xs_type e \<in> {[], ''arrival-rate''}"
    using finished_type[OF assms(1) ex] assms(4,5) by (auto simp: ex_def defaults_kept split: if_splits)
  then have stages: "xs_stages ex = [\<lparr>st_duration = ?d, st_target = Fin r\<rparr>]"
    using assms(3-5) by (auto simp: ex_def defaults_stages)
  then have "StartRate ex = Fin r" using assms(4,5) by (simp add: StartRate_def ex_def defaults_kept)
  then obtain p where p: "NewProfile (StartRate ex) (xs_stages ex) = Inr p"
      "segs p = [mk_segment 0 (secs ?d) r r 0]" "Expected p = r * secs ?d"
    using flat_profile[OF passed(3) assms(5)] stages by auto
  have "p_duration p = ?d" using finished_profile[OF assms(1) ex] stages p(1) by auto
  then show ?thesis using schedule_of_profile[OF assms(1) p(1) ex, of rng] flat_rate[OF p(2)] p(3) by auto
qed

theorem rate_shorthand_witness:
  "\<exists>s. build_schedule (ApplyDefaults demo) ''db'' () = Inr s \<and> Expected (sc_profile s) = 3000"
  using rate_shorthand[OF demo_finished demo_parts(2), of 50 "()"]
  by (auto simp: demo_executor_def demo_parts applyRunDefaults_def demo_run_def default_consts duration_units
      secs_def)

text \<open>The labels of a finished configuration are distinct for every runner, so no two items share
  their statistics, provided no journey has a slash in its name.\<close>

theorem labels_distinct:
  assumes "Finalise ord c0 = Inr c"
    "\<forall>h \<in> set_option (cf_http c). \<forall>j \<in> set (ht_journeys h). CHR ''/'' \<notin> set (jn_name j)"
  shows "distinct (Labels c runner)"
  using assms by (rule finished_labels)

theorem labels_distinct_witness: "distinct (Labels (ApplyDefaults demo) ''db'')"
  by (rule labels_distinct[OF demo_finished]) (simp add: demo_parts)

end
