(* ===== verification/Apply.thy ===== *)
theory Apply
  imports Validated Classify
begin

text \<open>
  Applying a policy to a configuration, \<open>internal/config/apply_policy.go\<close>: the tightening a
  configuration asks for, the classification of its statements, the checks against the
  envelope in force, and the hosts it will contact. How \<open>fmt\<close> quotes a name and how \<open>net/url\<close>
  reads a URL are parameters.
\<close>

section \<open>The envelope asked for\<close>

definition tightening_of :: "configuration \<Rightarrow> tightening" where
  "tightening_of c =
     (let s = cf_safety c
      in \<lparr>t_allow_writes = sf_allow_writes s, t_allow_dangerous = sf_allow_dangerous s,
          t_allow_insecure_tls = sf_allow_insecure_tls s, t_allow_targets = sf_allow_targets s,
          t_max_rate = sf_max_rate s, t_max_in_flight = sf_max_in_flight s,
          t_max_duration = sf_max_duration s\<rparr>)"

text \<open>The highest rate a profile offers, and NaN when the shorthand is NaN.\<close>

definition peakRate :: "executor_section \<Rightarrow> float64" where
  "peakRate e = foldl (\<lambda>peak s. if f_less peak (st_target s) then st_target s else peak) (xs_rate e) (xs_stages e)"

section \<open>Classifying the statements\<close>

record warning =
  w_code :: string
  w_message :: string
  w_fix :: string

definition db_statements :: "query \<Rightarrow> string list" where
  "db_statements q = (if qu_sql q \<noteq> [] then [qu_sql q] else []) @ map tx_sql (qu_tx q)"

definition query_writes :: "query \<Rightarrow> bool" where
  "query_writes q \<longleftrightarrow> qu_type q = ''write'' \<or>
     (\<exists>sql \<in> set (db_statements q). qu_type q = [] \<and> c_op (ClassifySQL sql) = OpWrite)"

definition found_dangerous :: "string \<Rightarrow> classification \<Rightarrow> dangerous list" where
  "found_dangerous label got =
     (if c_dangerous got \<noteq> [] then [\<lparr>dg_label = label, dg_keyword = c_dangerous got\<rparr>] else [])"

definition unrecognised :: "string \<Rightarrow> string \<Rightarrow> classification \<Rightarrow> warning list" where
  "unrecognised what type got =
     (if type = [] \<and> c_op got = OpWrite \<and> \<not> c_certain got
      then [\<lparr>w_code = ''UNRECOGNISED_STATEMENT'',
             w_message = what @ '' was not recognised and is being treated as a write'',
             w_fix = ''declare its type explicitly with type: read or type: write''\<rparr>]
      else [])"

definition query_warnings :: "(string \<Rightarrow> string) \<Rightarrow> query \<Rightarrow> string \<Rightarrow> warning list" where
  "query_warnings quote q sql =
     (let got = ClassifySQL sql; what = ''query '' @ quote (qu_name q)
      in (if qu_type q = ''read'' \<and> c_op got = OpWrite \<and> c_certain got
          then [\<lparr>w_code = ''DECLARED_READ_LOOKS_LIKE_WRITE'',
                 w_message = what @ '' is declared read but its statement looks like a write'',
                 w_fix = ''check the statement, or change its type to write''\<rparr>]
          else [])
         @ unrecognised what (qu_type q) got)"

definition redis_commands :: "redis_command \<Rightarrow> string list list" where
  "redis_commands cmd = (if rc_cmd cmd \<noteq> [] then [rc_cmd cmd] else []) @ rc_pipeline cmd"

definition command_writes :: "redis_command \<Rightarrow> bool" where
  "command_writes cmd \<longleftrightarrow> rc_type cmd = ''write'' \<or>
     (\<exists>args \<in> set (redis_commands cmd). rc_type cmd = [] \<and> c_op (ClassifyRedis args) = OpWrite)"

definition command_warnings :: "(string \<Rightarrow> string) \<Rightarrow> redis_command \<Rightarrow> string list \<Rightarrow> warning list" where
  "command_warnings quote cmd args =
     (let got = ClassifyRedis args; what = ''command '' @ quote (rc_name cmd)
      in (if c_blocking got \<noteq> []
          then [\<lparr>w_code = ''DANGEROUS_COMMAND'',
                 w_message = what @ '' uses '' @ c_blocking got
                   @ '', which blocks the server for time proportional to the data size'',
                 w_fix = ''it will distort both the target and the measurement; prefer SCAN, or accept that this run measures the blocking call''\<rparr>]
          else [])
         @ unrecognised what (rc_type cmd) got)"

record judged =
  jd_writes :: "string \<Rightarrow> string list"
  jd_dangerous :: "string \<Rightarrow> dangerous list"
  jd_warnings :: "warning list"

definition queries_of :: "configuration \<Rightarrow> query list" where
  "queries_of c = (case cf_db c of None \<Rightarrow> [] | Some d \<Rightarrow> db_queries d)"

definition commands_of :: "configuration \<Rightarrow> redis_command list" where
  "commands_of c = (case cf_redis c of None \<Rightarrow> [] | Some r \<Rightarrow> rd_commands r)"

text \<open>Warnings with the same message are equal, so the sort need not be stable.\<close>

definition classifyStatements :: "(string \<Rightarrow> string) \<Rightarrow> configuration \<Rightarrow> judged" where
  "classifyStatements quote c =
     \<lparr>jd_writes = (\<lambda>r. if r = ''db'' then map qu_name (List.filter query_writes (queries_of c))
                       else if r = ''redis'' then map rc_name (List.filter command_writes (commands_of c))
                       else []),
      jd_dangerous = (\<lambda>r.
        if r = ''db'' then [d. q \<leftarrow> queries_of c, sql \<leftarrow> db_statements q,
                              d \<leftarrow> found_dangerous (qu_name q) (ClassifySQL sql)]
        else if r = ''redis'' then [d. cmd \<leftarrow> commands_of c, args \<leftarrow> redis_commands cmd,
                                      d \<leftarrow> found_dangerous (rc_name cmd) (ClassifyRedis args)]
        else []),
      jd_warnings = sort_key w_message
        ([w. q \<leftarrow> queries_of c, sql \<leftarrow> db_statements q, w \<leftarrow> query_warnings quote q sql]
         @ [w. cmd \<leftarrow> commands_of c, args \<leftarrow> redis_commands cmd, w \<leftarrow> command_warnings quote cmd args])\<rparr>"

section \<open>The decision\<close>

definition checkInsecureTLS :: "configuration \<Rightarrow> policy \<Rightarrow> unit result" where
  "checkInsecureTLS c p =
     (let http = (case cf_http c of None \<Rightarrow> None | Some h \<Rightarrow>
            (case ht_transport h of None \<Rightarrow> None | Some t \<Rightarrow> tr_tls t));
          redis = (case cf_redis c of None \<Rightarrow> None | Some r \<Rightarrow> rd_tls r);
          off = (\<lambda>t. case t of None \<Rightarrow> False | Some s \<Rightarrow> tl_insecure s)
      in if \<not> (off http \<or> off redis) \<or> p_allow_insecure_tls p then Inr ()
         else Inl (error_at CodePolicyInsecureTLS ''/http/transport/tls/insecure_skip_verify''))"

fun problem_of :: "unit result \<Rightarrow> coded_error list" where
  "problem_of (Inl e) = [e]"
| "problem_of (Inr _) = []"

definition executor_problems :: "configuration \<Rightarrow> policy \<Rightarrow> string \<Rightarrow> coded_error list" where
  "executor_problems c p name = (case executor_of c name of
      None \<Rightarrow> []
    | Some ex \<Rightarrow>
        problem_of (CheckRate p name (peakRate ex))
        @ (if 0 < xs_max_in_flight ex then problem_of (CheckInFlight p name (xs_max_in_flight ex)) else []))"

definition policy_problems :: "configuration \<Rightarrow> policy \<Rightarrow> judged \<Rightarrow> coded_error list" where
  "policy_problems c p j =
     concat (map (\<lambda>runner. problem_of (CheckWrites p runner (jd_writes j runner))
                           @ problem_of (CheckDangerous p runner (jd_dangerous j runner)))
       [''db'', ''redis''])
     @ problem_of (CheckDuration p (rn_duration (cf_run c)))
     @ concat (map (executor_problems c p) (Runners c))
     @ problem_of (checkInsecureTLS c p)"

definition ApplyPolicy :: "(string \<Rightarrow> string) \<Rightarrow> configuration \<Rightarrow> policy \<Rightarrow> (policy \<times> warning list) result" where
  "ApplyPolicy quote c granted =
     rbind (Tighten granted (tightening_of c)) (\<lambda>effective.
       let j = classifyStatements quote c; problems = policy_problems c effective j
       in if problems \<noteq> [] then Inl (summarise_config problems)
          else Inr (effective, jd_warnings j))"

section \<open>Targets\<close>

text \<open>\<open>strings.LastIndex\<close> of one byte, and \<open>strings.Trim\<close> by a set of bytes.\<close>

definition last_index :: "char \<Rightarrow> string \<Rightarrow> nat option" where
  "last_index c s = (if c \<in> set s then Some (length s - 1 - length (takeWhile (\<lambda>d. d \<noteq> c) (rev s))) else None)"

definition trim_set :: "string \<Rightarrow> string \<Rightarrow> string" where
  "trim_set cs s = trim_func (\<lambda>d. d \<in> set cs) s"

definition hostPort :: "string \<Rightarrow> string" where
  "hostPort addr =
     (if addr = [] then []
      else case last_index CHR '':'' addr of
          Some i \<Rightarrow> if 0 < i \<and> \<not> contains (drop (i + 1) addr) '']''
                    then trim_set ''[]'' (take i addr) else addr
        | None \<Rightarrow> addr)"

text \<open>\<open>net/url\<close>: parsing, resolving a reference, printing and the host of a URL.\<close>

record 'u url_lib =
  ul_parse :: "string \<Rightarrow> 'u option"
  ul_resolve :: "'u \<Rightarrow> string \<Rightarrow> 'u option"
  ul_string :: "'u \<Rightarrow> string"
  ul_hostname :: "'u \<Rightarrow> string"

definition hostOf :: "'u url_lib \<Rightarrow> string \<Rightarrow> string \<Rightarrow> string" where
  "hostOf lib base ref =
     (let full = (if base \<noteq> [] then (case ul_parse lib base of
              Some b \<Rightarrow> (case ul_resolve lib b ref of Some u \<Rightarrow> ul_string lib u | None \<Rightarrow> ref)
            | None \<Rightarrow> ref) else ref)
      in case ul_parse lib full of None \<Rightarrow> [] | Some u \<Rightarrow> ul_hostname lib u)"

definition libpq_host :: "string list \<Rightarrow> string" where
  "libpq_host fs =
     (case List.find (\<lambda>f. case cut f ''='' of (k, v, ok) \<Rightarrow> ok \<and> equal_fold k ''host'') fs of
        None \<Rightarrow> []
      | Some f \<Rightarrow> trim_set [CHR 0x27, CHR 0x22] (fst (snd (cut f ''=''))))"

definition hostFromDSN :: "'u url_lib \<Rightarrow> string \<Rightarrow> string \<Rightarrow> string" where
  "hostFromDSN lib driver dsn =
     (if driver = ''sqlite'' then []
      else if driver = ''mysql'' then
        (case index_of dsn ''('' of
           None \<Rightarrow> []
         | Some i \<Rightarrow> (case index_of (drop i dsn) '')'' of
             Some k \<Rightarrow> if 0 < k then hostPort (take (k - 1) (drop (i + 1) dsn)) else []
           | None \<Rightarrow> []))
      else if contains dsn ''://''
      then (case ul_parse lib dsn of Some u \<Rightarrow> ul_hostname lib u | None \<Rightarrow> [])
      else libpq_host (GoStrings.fields dsn))"

text \<open>Every host once, without the empty one, sorted.\<close>

definition Targets :: "'u url_lib \<Rightarrow> configuration \<Rightarrow> string list" where
  "Targets lib c =
     (let http = (case cf_http c of None \<Rightarrow> [] | Some h \<Rightarrow>
            map (\<lambda>r. hostOf lib (ht_base_url h) (hs_url r)) (ht_requests h)
            @ [hostOf lib (ht_base_url h) (hs_url s). j \<leftarrow> ht_journeys h, s \<leftarrow> jn_steps j]);
          db = (case cf_db c of None \<Rightarrow> [] | Some d \<Rightarrow> [hostFromDSN lib (db_driver d) (db_dsn d)]);
          redis = (case cf_redis c of None \<Rightarrow> [] | Some r \<Rightarrow> map hostPort (rd_addr r # rd_addrs r))
      in sort (remdups (List.filter (\<lambda>h. h \<noteq> []) (http @ db @ redis))))"

section \<open>The rate a profile reaches\<close>

lemma compile_rates:
  "compile_stages i r off p sts = Inr q \<Longrightarrow> r \<le> m \<Longrightarrow> \<forall>st \<in> set sts. f_val (st_target st) \<le> m \<Longrightarrow>
   \<exists>new. segs q = segs p @ new \<and> (sts \<noteq> [] \<longrightarrow> new \<noteq> [] \<and> start_offset (hd new) = off)
     \<and> (\<forall>s \<in> set new. 0 < seg_d s \<and> seg_r0 s \<le> m \<and> seg_r1 s \<le> m)"
proof (induction sts arbitrary: i r off p)
  case (Cons st sts)
  let ?d = "secs (st_duration st)" and ?t = "f_val (st_target st)"
  let ?seg = "mk_segment off ?d r ?t (p_total p)"
  let ?p = "p\<lparr>segs := segs p @ [?seg], p_total := p_total p + seg_cap ?seg,
                    p_duration := wrap64 (p_duration p + st_duration st)\<rparr>"
  have c: "0 < st_duration st" "compile_stages (i + 1) ?t (off + ?d) ?p sts = Inr q"
    using Cons.prems(1) by (auto simp: Let_def split: if_splits option.splits)
  have seg: "start_offset ?seg = off" "seg_d ?seg = ?d" "seg_r0 ?seg = r" "seg_r1 ?seg = ?t"
    by (simp_all add: mk_segment_def Let_def)
  obtain new where "segs q = (segs p @ [?seg]) @ new"
    "\<forall>s \<in> set new. 0 < seg_d s \<and> seg_r0 s \<le> m \<and> seg_r1 s \<le> m"
    using Cons.IH[OF c(2)] Cons.prems(3) by auto
  then show ?case using c(1) seg Cons.prems(2,3)
    by (intro exI[of _ "?seg # new"]) (simp add: secs_pos)
qed simp

lemma blend_le: "0 < d \<Longrightarrow> 0 \<le> s \<Longrightarrow> s \<le> d \<Longrightarrow> a \<le> m \<Longrightarrow> b \<le> m \<Longrightarrow> a + (b - a) * s / d \<le> (m :: real)"
proof -
  assume d: "0 < d" "0 \<le> s" "s \<le> d" and m: "a \<le> m" "b \<le> m"
  define x where "x = s / d"
  have x: "0 \<le> x" "x \<le> 1" using d by (auto simp: x_def)
  have "a + (b - a) * x = a * (1 - x) + b * x" by (simp add: algebra_simps)
  also have "\<dots> \<le> m * (1 - x) + m * x" using x m by (intro add_mono mult_right_mono) auto
  finally show ?thesis by (simp add: x_def algebra_simps)
qed

lemma RateAt_le:
  assumes "segs p \<noteq> []" "start_offset (hd (segs p)) = 0" "0 \<le> m"
    "\<forall>s \<in> set (segs p). 0 < seg_d s \<and> seg_r0 s \<le> m \<and> seg_r1 s \<le> m"
  shows "RateAt p t \<le> m"
proof (cases "t < 0 \<or> p_duration p < t")
  case True
  then show ?thesis using assms(3) by (auto simp: RateAt_def)
next
  case False
  define i where "i = last_true (starts_by p (secs t)) 0 (length (segs p) - 1)"
  define seg where "seg = segs p ! i"
  have "starts_by p (secs t) 0"
    using assms(1,2) False by (simp add: starts_by_def hd_conv_nth secs_def)
  then have "starts_by p (secs t) i" unfolding i_def by (rule last_true_holds) simp
  moreover have "i \<le> length (segs p) - 1" unfolding i_def using last_true_range by blast
  then have "i < length (segs p)" using assms(1) by (cases "segs p") auto
  then have ok: "0 < seg_d seg" "seg_r0 seg \<le> m" "seg_r1 seg \<le> m" using assms(4) by (auto simp: seg_def)
  ultimately have "0 \<le> secs t - start_offset seg" by (simp add: starts_by_def seg_def)
  moreover have "segmentAtTime p (secs t) = seg" by (simp add: segmentAtTime_def i_def seg_def)
  ultimately show ?thesis
    using False ok by (auto simp: RateAt_def Let_def intro!: blend_le)
qed

lemma profile_rate_le:
  assumes "NewProfile r sts = Inr p" "f_val r \<le> m" "\<forall>st \<in> set sts. f_val (st_target st) \<le> m"
  shows "RateAt p t \<le> m"
proof -
  have ok: "sts \<noteq> []" "fin_nonneg r" using assms(1) profile_accepted[of r sts] by auto
  have "compile_stages 0 (f_val r) 0 \<lparr>segs = [], p_duration = 0, p_total = 0\<rparr> sts = Inr p"
    using assms(1) by (auto simp: NewProfile_def split: if_splits option.splits)
  from compile_rates[OF this assms(2,3)] ok(1)
  have "segs p \<noteq> []" "start_offset (hd (segs p)) = 0"
    "\<forall>s \<in> set (segs p). 0 < seg_d s \<and> seg_r0 s \<le> m \<and> seg_r1 s \<le> m" by auto
  moreover have "0 \<le> m" using ok(2) assms(2) by (simp add: fin_nonneg_def)
  ultimately show ?thesis by (intro RateAt_le) auto
qed

lemma f_le_refl: "\<not> is_nan x \<Longrightarrow> f_le x x"
  by (cases x) auto

lemma peak_fold:
  "list_all stage_ok sts \<Longrightarrow> \<not> is_nan r \<Longrightarrow>
   (let m = foldl (\<lambda>peak s. if f_less peak (st_target s) then st_target s else peak) r sts
    in f_le r m \<and> (\<forall>s \<in> set sts. f_le (st_target s) m))"
proof (induction sts arbitrary: r)
  case (Cons st sts)
  let ?r = "if f_less r (st_target st) then st_target st else r"
  have st: "\<not> is_nan (st_target st)" using Cons.prems(1) by (simp add: stage_ok_def fin_nonneg_def)
  have "f_le r ?r" "f_le (st_target st) ?r"
    using st Cons.prems(2) f_not_less[of r "st_target st"] f_less_imp_le[of r "st_target st"]
    by (cases r; cases "st_target st"; auto)+
  moreover have "\<not> is_nan ?r" using st Cons.prems(2) by simp
  note ih = Cons.IH[OF _ this]
  ultimately show ?case using ih Cons.prems(1) by (auto simp: Let_def simp del: f_le.simps intro: f_le_trans)
qed (auto simp: Let_def f_le_refl)

lemma peak_nan: "foldl (\<lambda>peak s. if f_less peak (st_target s) then st_target s else peak) NaN sts = NaN"
  by (induction sts) auto

lemma peak_target:
  assumes "list_all stage_ok (xs_stages e)" "f_le (peakRate e) l" "s \<in> set (xs_stages e)"
  shows "f_le (st_target s) l"
proof -
  have "\<not> is_nan (xs_rate e)" using assms(2) by (cases "xs_rate e") (auto simp: peakRate_def peak_nan)
  from peak_fold[OF assms(1) this] show ?thesis
    using assms(2,3) f_le_trans unfolding peakRate_def Let_def by blast
qed

lemma StartRate_cases: "StartRate e = Fin 0 \<or> (\<exists>s \<in> set (xs_stages e). StartRate e = st_target s)"
  by (auto simp: StartRate_def split: list.splits)

lemma peak_covers:
  assumes "list_all stage_ok (xs_stages e)" "f_le (peakRate e) (Fin m)" "NewProfile (StartRate e) (xs_stages e) = Inr p"
  shows "RateAt p t \<le> m"
proof -
  have targets: "f_val (st_target s) \<le> m \<and> 0 \<le> f_val (st_target s)" if "s \<in> set (xs_stages e)" for s
  proof -
    have "stage_ok s" using assms(1) that by (simp add: list_all_iff)
    then show ?thesis using peak_target[OF assms(1,2) that]
      by (cases "st_target s") (auto simp: stage_ok_def fin_nonneg_def)
  qed
  have "xs_stages e \<noteq> []" using assms(3) profile_accepted[of "StartRate e" "xs_stages e"] by auto
  then have "0 \<le> m" using targets[of "hd (xs_stages e)"] by simp
  then have "f_val (StartRate e) \<le> m" using StartRate_cases[of e] targets by auto
  then show ?thesis using profile_rate_le[OF assms(3)] targets by blast
qed

section \<open>What an accepted configuration may do\<close>

lemma problem_of_Nil [simp]: "problem_of r = [] \<longleftrightarrow> is_ok r"
  by (cases r) auto

lemma policy_problems_Nil:
  assumes "policy_problems c p j = []"
  shows "runner \<in> {''db'', ''redis''} \<Longrightarrow> permits p (AskWrites runner (jd_writes j runner))"
    "runner \<in> {''db'', ''redis''} \<Longrightarrow> permits p (AskDangerous runner (jd_dangerous j runner))"
    "permits p (AskDuration (rn_duration (cf_run c)))"
    "executor_of c runner = Some ex \<Longrightarrow> permits p (AskRate runner (peakRate ex))"
    "executor_of c runner = Some ex \<Longrightarrow> 0 < xs_max_in_flight ex \<Longrightarrow>
       permits p (AskInFlight runner (xs_max_in_flight ex))"
    "is_ok (checkInsecureTLS c p)"
proof -
  note parts = assms[unfolded policy_problems_def append_is_Nil_conv concat_eq_Nil_conv]
  show "runner \<in> {''db'', ''redis''} \<Longrightarrow> permits p (AskWrites runner (jd_writes j runner))"
    "runner \<in> {''db'', ''redis''} \<Longrightarrow> permits p (AskDangerous runner (jd_dangerous j runner))"
    "permits p (AskDuration (rn_duration (cf_run c)))" "is_ok (checkInsecureTLS c p)"
    using parts by auto
  have "executor_problems c p runner = []" if "executor_of c runner = Some ex" for ex
    using parts Runners_set[of c] that by auto
  then show "executor_of c runner = Some ex \<Longrightarrow> permits p (AskRate runner (peakRate ex))"
    "executor_of c runner = Some ex \<Longrightarrow> 0 < xs_max_in_flight ex \<Longrightarrow>
       permits p (AskInFlight runner (xs_max_in_flight ex))"
    by (auto simp: executor_problems_def split: if_splits)
qed

lemma ApplyPolicy_Inr:
  "ApplyPolicy quote c granted = Inr (eff, ws) \<longleftrightarrow>
     Tighten granted (tightening_of c) = Inr eff \<and>
     policy_problems c eff (classifyStatements quote c) = [] \<and> ws = jd_warnings (classifyStatements quote c)"
  by (auto simp: ApplyPolicy_def rbind_Inr Let_def split: if_splits)

lemma schedule_profile:
  "build_schedule c runner rng = Inr s \<Longrightarrow> executor_of c runner = Some ex \<Longrightarrow>
   NewProfile (StartRate ex) (xs_stages ex) = Inr (sc_profile s)"
  by (cases "arrival_of (rn_arrival (cf_run c))") (auto simp: build_schedule_def rbind_Inr NewSchedule_def)

lemma peak_permits:
  assumes "permits p (AskRate runner (peakRate ex))" "list_all stage_ok (xs_stages ex)"
    "NewProfile (StartRate ex) (xs_stages ex) = Inr q"
  shows "permits p (AskRate runner (Fin (RateAt q t)))"
proof (cases "p_max_rate p")
  case None
  then show ?thesis by (simp add: permits_through del: permits.simps)
next
  case (Some l)
  then have le: "f_le (peakRate ex) l" using assms(1) by (simp add: permits_through del: permits.simps)
  have "xs_stages ex \<noteq> []" using assms(3) profile_accepted[of "StartRate ex" "xs_stages ex"] by auto
  then have "stage_ok (hd (xs_stages ex))" and first: "f_le (st_target (hd (xs_stages ex))) l"
    using assms(2) peak_target[OF assms(2) le] by (simp_all add: list_all_iff)
  then obtain x where x: "st_target (hd (xs_stages ex)) = Fin x"
    using not_special_Fin unfolding stage_ok_def fin_nonneg_def by blast
  have "f_le (Fin (RateAt q t)) l"
  proof (cases l)
    case (Fin m)
    then have "RateAt q t \<le> m" using peak_covers[OF assms(2) _ assms(3)] le by simp
    then show ?thesis by (simp only: Fin f_le_Fin)
  qed (use first x in simp_all)
  with Some show ?thesis by (simp add: permits_through del: permits.simps)
qed

lemma open_in_flight:
  assumes "Finalise ord c0 = Inr c" "executor_of c runner = Some ex" "xs_type ex = ''arrival-rate''"
  shows "0 < xs_max_in_flight ex"
proof -
  note passed = Finalise_passed[OF assms(1)]
  obtain path where "validate_type ex path = []"
    using passed(5)[OF assms(2)] validateExecutor_passed(1) by blast
  then have "0 \<le> xs_max_in_flight ex" using assms(3) by (simp add: validate_type_def)
  moreover obtain e where "ex = applyExecutorDefaults (rn_duration (cf_run c)) e"
    using assms(2) by (auto simp: passed(1) defaults_executor)
  then have "xs_max_in_flight ex \<noteq> 0"
    using assms(3) by (auto simp: defaults_kept defaults_in_flight split: if_splits)
  ultimately show ?thesis by simp
qed

lemma insecure_granted:
  "Tighten g t = Inr q \<Longrightarrow> is_ok (checkInsecureTLS c q) \<Longrightarrow> is_ok (checkInsecureTLS c g)"
  by (auto simp: checkInsecureTLS_def Let_def Tighten_Inr split: if_splits)

text \<open>
  The limit on concurrency is only checked where a number is written: a closed executor without
  one passes any limit, and the engine then runs it with the default of 256 workers.
\<close>

lemma closed_skips_limit:
  assumes "executor_of c runner = Some ex" "xs_type ex = ''vus''" "xs_max_in_flight ex = 0"
    "is_ok (CheckRate p runner (peakRate ex))"
  shows "executor_problems c (p\<lparr>p_max_in_flight := Some 10\<rparr>) runner = []"
  using assms by (simp add: executor_problems_def CheckRate_def)

section \<open>Inside the envelope\<close>

text \<open>What an accepted configuration does stays inside both the envelope in force and the one the
  human granted: the rate offered at every instant, the length of the run, the concurrency of an
  open executor, the statements that write or are dangerous, and unverified TLS.\<close>

lemma applied_inside:
  assumes "Finalise ord c0 = Inr c" "ApplyPolicy quote c granted = Inr (eff, ws)"
    "sane_policy granted" "sane_wish (tightening_of c)"
    "executor_of c runner = Some ex" "build_schedule c runner rng = Inr s" "p \<in> {eff, granted}"
  shows "permits p (AskRate runner (Fin (RateAt (sc_profile s) t)))
    \<and> permits p (AskDuration (p_duration (sc_profile s)))
    \<and> (xs_type ex = ''arrival-rate'' \<longrightarrow> permits p (AskInFlight runner (xs_max_in_flight ex)))
    \<and> permits p (AskWrites runner (jd_writes (classifyStatements quote c) runner))
    \<and> permits p (AskDangerous runner (jd_dangerous (classifyStatements quote c) runner))
    \<and> is_ok (checkInsecureTLS c p)"
proof -
  let ?j = "classifyStatements quote c"
  have tight: "Tighten granted (tightening_of c) = Inr eff" and none: "policy_problems c eff ?j = []"
    using assms(2) by (auto simp: ApplyPolicy_Inr)
  have wide: "permits p a" if "permits eff a" for a
    using assms(7) that Tighten_permits[OF assms(3,4) tight] by auto
  note ok = policy_problems_Nil[OF none]
  have prof: "NewProfile (StartRate ex) (xs_stages ex) = Inr (sc_profile s)"
    by (rule schedule_profile[OF assms(6,5)])
  then have stages: "list_all stage_ok (xs_stages ex)" "xs_stages ex \<noteq> []"
    using profile_accepted[of "StartRate ex" "xs_stages ex"] by auto
  have "permits eff (AskRate runner (Fin (RateAt (sc_profile s) t)))"
    by (rule peak_permits[OF ok(4)[OF assms(5)] stages(1) prof])
  moreover have "permits eff (AskDuration (p_duration (sc_profile s)))"
    using finished_profile[OF assms(1,5) stages(2)] prof ok(3) by auto
  moreover have "permits eff (AskInFlight runner (xs_max_in_flight ex))" if "xs_type ex = ''arrival-rate''"
    using ok(5)[OF assms(5)] open_in_flight[OF assms(1,5) that] by blast
  moreover have "permits eff (AskWrites runner (jd_writes ?j runner)) \<and>
      permits eff (AskDangerous runner (jd_dangerous ?j runner))"
    using ok(1,2)[of runner] by (cases "runner \<in> {''db'', ''redis''}")
      (simp_all add: classifyStatements_def permits_through del: permits.simps)
  moreover have "is_ok (checkInsecureTLS c p)"
    using assms(7) ok(6) insecure_granted[OF tight ok(6)] by auto
  ultimately show ?thesis using wide by blast
qed

lemma demo_applied: "ApplyPolicy id (ApplyDefaults demo) ServerDefault = Inr (ServerDefault, [])"
proof -
  let ?c = "ApplyDefaults demo"
  have safety: "cf_safety ?c = no_safety" by (simp add: ApplyDefaults_def demo_def Let_def)
  have tight: "Tighten ServerDefault (tightening_of ?c) = Inr ServerDefault"
    by (simp add: Tighten_def tightening_of_def safety no_safety_def Let_def ServerDefault_def Default_def flag_problem_def
        tighten_targets_def tighten_rate_def tighten_in_flight_def tighten_duration_def)
  have sql: "ClassifySQL ''SELECT 1'' = mk_class OpRead [] True" by code_simp
  have lists: "queries_of ?c = [demo_query]" "commands_of ?c = []"
    by (simp_all add: queries_of_def commands_of_def demo_parts demo_db_def)
  have j: "jd_writes (classifyStatements id ?c) = (\<lambda>_. [])"
    "jd_dangerous (classifyStatements id ?c) = (\<lambda>_. [])" "jd_warnings (classifyStatements id ?c) = []"
    by (simp_all add: classifyStatements_def lists db_statements_def demo_query_def query_writes_def sql
        found_dangerous_def query_warnings_def unrecognised_def Let_def fun_eq_iff)
  have limit: "MaxRunDuration ServerDefault = Inr (Some 600000000000)" by code_simp
  have names: "Runners ?c = [''db'']" by (simp add: Runners_def demo_parts)
  have ex: "executor_of ?c ''db'' = Some (applyExecutorDefaults minute demo_executor)"
    by (simp add: executor_of_def demo_parts)
  have peak: "peakRate (applyExecutorDefaults minute demo_executor) = Fin 50"
    by (simp add: peakRate_def defaults_kept defaults_stages demo_executor_def)
  have flight: "xs_max_in_flight (applyExecutorDefaults minute demo_executor) = 256"
    by (simp add: defaults_in_flight demo_executor_def)
  have "executor_problems ?c ServerDefault ''db'' = []"
    by (simp add: executor_problems_def ex peak CheckRate_def CheckInFlight_def flight ServerDefault_def)
  moreover have "rn_duration (cf_run ?c) = minute"
    by (simp add: demo_parts applyRunDefaults_def demo_run_def default_consts)
  ultimately have "policy_problems ?c ServerDefault (classifyStatements id ?c) = []"
    by (simp add: policy_problems_def j CheckWrites_def CheckDangerous_def CheckDuration_def limit names
        checkInsecureTLS_def demo_parts duration_units)
  with tight j(3) show ?thesis by (simp add: ApplyPolicy_Inr)
qed

text \<open>The demonstration configuration under the default envelope of a server.\<close>

lemma demo_scheduled:
  obtains s where "executor_of (ApplyDefaults demo) ''db'' = Some (applyExecutorDefaults minute demo_executor)"
    "build_schedule (ApplyDefaults demo) ''db'' () = Inr s"
proof -
  have ex: "executor_of (ApplyDefaults demo) ''db'' = Some (applyExecutorDefaults minute demo_executor)"
    by (simp add: defaults_executor demo_parts applyRunDefaults_def demo_run_def default_consts)
  have "xs_stages (applyExecutorDefaults minute demo_executor) \<noteq> []"
    by (simp add: defaults_stages demo_executor_def)
  then obtain p where p: "NewProfile (StartRate (applyExecutorDefaults minute demo_executor))
      (xs_stages (applyExecutorDefaults minute demo_executor)) = Inr p"
    using finished_profile[OF demo_finished ex] by blast
  then show ?thesis using schedule_of_profile[OF demo_finished p ex, of "()"] ex that by blast
qed

end
