(* ===== verification/Redact.thy ===== *)
theory Redact
  imports Apply
begin

text \<open>
  Removing secrets, \<open>internal/config/redact.go\<close>: headers, bind arguments, connection strings and
  the copy of a configuration that reports are made from. The two regular expressions are
  written out as matchers, for ASCII text; \<open>net/url\<close> is a parameter. Values are immutable here,
  so the deep copy the code makes first is the value itself; \<open>RedactCopy\<close> has it with its sharing.
\<close>

definition Redacted :: string where "Redacted = ''[redacted]''"

section \<open>Headers\<close>

definition alwaysRedactedHeaders :: "string list" where
  "alwaysRedactedHeaders = [''authorization'', ''proxy-authorization'', ''cookie'', ''set-cookie'',
     ''x-api-key'', ''x-auth-token'', ''api-key'']"

definition ShouldRedactHeader :: "string \<Rightarrow> string list \<Rightarrow> bool" where
  "ShouldRedactHeader name extra =
     (let lower = to_lower (trim_space name)
      in lower \<in> set alwaysRedactedHeaders \<or> (\<exists>e \<in> set extra. equal_fold (trim_space e) lower))"

definition redactHeaders :: "string list \<Rightarrow> (string \<rightharpoonup> string) \<Rightarrow> (string \<rightharpoonup> string)" where
  "redactHeaders extra h =
     (\<lambda>name. case h name of
        None \<Rightarrow> None
      | Some v \<Rightarrow> Some (if ShouldRedactHeader name extra then Redacted else v))"

definition redactArgs :: "arg list \<Rightarrow> arg list" where
  "redactArgs args = map (\<lambda>a. if ar_secret a then a\<lparr>ar_value := YStr Redacted\<rparr> else a) args"

text \<open>\<open>Arg.String\<close>; how \<open>fmt\<close> prints a value is a parameter.\<close>

definition arg_string :: "(yaml \<Rightarrow> string) \<Rightarrow> arg \<Rightarrow> string" where
  "arg_string sprint a = (if ar_secret a then Redacted else sprint (ar_value a))"

section \<open>Connection strings\<close>

text \<open>\<open>mysqlDSN\<close>: \<open>^([^:/@]+):([^@]*)@\<close>, as the two groups and what follows the match.\<close>

definition mysqlDSN :: "string \<Rightarrow> (string \<times> string \<times> string) option" where
  "mysqlDSN dsn =
     (let user = takeWhile (\<lambda>c. c \<notin> set '':/@'') dsn
      in if user = [] then None
         else (case drop (length user) dsn of
             [] \<Rightarrow> None
           | c # rest \<Rightarrow>
               if c \<noteq> CHR '':'' then None
               else let pass = takeWhile (\<lambda>d. d \<noteq> CHR ''@'') rest
                    in (case drop (length pass) rest of
                          [] \<Rightarrow> None
                        | _ # after \<Rightarrow> Some (user, pass, after))))"

text \<open>
  \<open>keyValueSecret\<close>: a keyword, an equals sign and a value that is quoted or runs to white space
  or a semicolon. The result is the keyword as written, the value and what follows.
\<close>

definition re_space :: "char \<Rightarrow> bool" where
  "re_space c \<longleftrightarrow> c \<in> {CHR '' '', CHR 0x09, CHR 0x0A, CHR 0x0C, CHR 0x0D}"

definition re_word :: "char \<Rightarrow> bool" where
  "re_word c \<longleftrightarrow> is_upper c \<or> is_lower c \<or> is_digit c \<or> c = CHR ''_''"

definition secret_words :: "string list" where
  "secret_words = [''password'', ''passwd'', ''pwd'']"

definition quoted_value :: "char \<Rightarrow> string \<Rightarrow> (string \<times> string) option" where
  "quoted_value q s = (case s of
      [] \<Rightarrow> None
    | c # t \<Rightarrow>
        let body = takeWhile (\<lambda>d. d \<noteq> q) t
        in if c = q \<and> q \<in> set t then Some (c # body @ [q], drop (length body + 1) t) else None)"

definition bare_value :: "string \<Rightarrow> (string \<times> string) option" where
  "bare_value s =
     (let v = takeWhile (\<lambda>c. \<not> re_space c \<and> c \<noteq> CHR '';'') s
      in if v = [] then None else Some (v, drop (length v) s))"

definition secret_value :: "string \<Rightarrow> (string \<times> string) option" where
  "secret_value s =
     (case quoted_value (CHR 0x27) s of
        Some r \<Rightarrow> Some r
      | None \<Rightarrow> (case quoted_value (CHR 0x22) s of Some r \<Rightarrow> Some r | None \<Rightarrow> bare_value s))"

definition secret_at :: "string \<Rightarrow> (string \<times> string \<times> string) option" where
  "secret_at s =
     (case List.find (\<lambda>w. equal_fold (take (length w) s) w) secret_words of
        None \<Rightarrow> None
      | Some w \<Rightarrow>
          (case dropWhile re_space (drop (length w) s) of
             [] \<Rightarrow> None
           | c # t \<Rightarrow>
               if c \<noteq> CHR ''='' then None
               else map_option (\<lambda>(v, rest). (take (length w) s, v, rest))
                      (secret_value (dropWhile re_space t))))"

lemma quoted_value_shorter: "quoted_value q s = Some (v, r) \<Longrightarrow> length r < length s \<and> v \<noteq> []"
  by (auto simp: quoted_value_def Let_def split: list.splits if_splits)

lemma bare_value_shorter: "bare_value s = Some (v, r) \<Longrightarrow> length r < length s \<and> v \<noteq> []"
  by (cases s) (auto simp: bare_value_def Let_def split: if_splits)

lemma secret_value_shorter: "secret_value s = Some (v, r) \<Longrightarrow> length r < length s \<and> v \<noteq> []"
  by (auto simp: secret_value_def split: option.splits dest: quoted_value_shorter bare_value_shorter)

lemma secret_at_shorter:
  assumes "secret_at s = Some (k, v, r)"
  shows "length r < length s"
proof -
  obtain w where f: "List.find (\<lambda>w. equal_fold (take (length w) s) w) secret_words = Some w"
    using assms by (cases "List.find (\<lambda>w. equal_fold (take (length w) s) w) secret_words")
      (auto simp: secret_at_def)
  obtain c t where w: "dropWhile re_space (drop (length w) s) = c # t"
    using assms f by (cases "dropWhile re_space (drop (length w) s)") (auto simp: secret_at_def)
  have "secret_value (dropWhile re_space t) = Some (v, r)"
    using assms f w by (auto simp: secret_at_def split: if_splits)
  note w = w this
  have "length r < length (dropWhile re_space t)" using secret_value_shorter[OF w(2)] by simp
  also have "\<dots> \<le> length t" by (rule length_dropWhile_le)
  also have "\<dots> < length (dropWhile re_space (drop (length w) s))" using w(1) by simp
  also have "\<dots> \<le> length s" using length_dropWhile_le[of re_space "drop (length w) s"] by simp
  finally show ?thesis .
qed

text \<open>
  \<open>ReplaceAllString\<close>: the leftmost match at a word boundary, over and over; the flag tells
  whether the byte before is a word character.
\<close>

function redact_pairs :: "bool \<Rightarrow> string \<Rightarrow> string" where
  "redact_pairs inside [] = []"
| "redact_pairs inside (c # s) =
     (case (if inside then None else secret_at (c # s)) of
        None \<Rightarrow> c # redact_pairs (re_word c) s
      | Some (k, v, rest) \<Rightarrow> k @ ''='' @ Redacted @ redact_pairs (re_word (last v)) rest)"
  by pat_completeness auto
termination
  by (relation "measure (\<lambda>(b, s). length s)") (auto split: if_splits dest!: secret_at_shorter)

record 'u userinfo_lib = "'u url_lib" +
  ui_user :: "'u \<Rightarrow> (string \<times> string option) option"
  ui_set_password :: "'u \<Rightarrow> string \<Rightarrow> string \<Rightarrow> 'u"

definition redact_url :: "'u userinfo_lib \<Rightarrow> string \<Rightarrow> string option" where
  "redact_url lib dsn = (case ul_parse lib dsn of
      None \<Rightarrow> None
    | Some u \<Rightarrow> (case ui_user lib u of
          None \<Rightarrow> None
        | Some (name, pass) \<Rightarrow>
            Some (redact_pairs False (ul_string lib
              (if pass \<noteq> None then ui_set_password lib u name Redacted else u)))))"

definition redact_plain :: "string \<Rightarrow> string" where
  "redact_plain dsn = redact_pairs False
     (case mysqlDSN dsn of
        Some (user, pass, rest) \<Rightarrow>
          if pass \<noteq> [] then user @ '':'' @ Redacted @ ''@'' @ rest else dsn
      | None \<Rightarrow> dsn)"

definition RedactDSN :: "'u userinfo_lib \<Rightarrow> string \<Rightarrow> string" where
  "RedactDSN lib dsn =
     (if dsn = [] then []
      else if contains dsn ''://''
      then (case redact_url lib dsn of Some s \<Rightarrow> s | None \<Rightarrow> redact_plain dsn)
      else redact_plain dsn)"

section \<open>The whole configuration\<close>

definition on_headers :: "((string \<rightharpoonup> string) \<Rightarrow> (string \<rightharpoonup> string)) \<Rightarrow> http_section \<Rightarrow> http_section" where
  "on_headers f h =
     (let step = (\<lambda>s. s\<lparr>hs_headers := f (hs_headers s)\<rparr>)
      in h\<lparr>ht_headers := f (ht_headers h), ht_requests := map step (ht_requests h),
           ht_journeys := map (\<lambda>j. j\<lparr>jn_steps := map step (jn_steps j)\<rparr>) (ht_journeys h)\<rparr>)"

definition on_args :: "(arg list \<Rightarrow> arg list) \<Rightarrow> query \<Rightarrow> query" where
  "on_args f q = q\<lparr>qu_args := f (qu_args q), qu_tx := map (\<lambda>t. t\<lparr>tx_args := f (tx_args t)\<rparr>) (qu_tx q)\<rparr>"

definition redact_sampler :: "'u userinfo_lib \<Rightarrow> sampler \<Rightarrow> sampler" where
  "redact_sampler lib s = (if sm_dsn s \<noteq> [] then s\<lparr>sm_dsn := RedactDSN lib (sm_dsn s)\<rparr> else s)"

definition redact_config :: "'u userinfo_lib \<Rightarrow> configuration \<Rightarrow> configuration" where
  "redact_config lib c = c\<lparr>
     cf_http := map_option (on_headers (redactHeaders [])) (cf_http c),
     cf_db := map_option (\<lambda>d. d\<lparr>db_dsn := RedactDSN lib (db_dsn d),
                                db_queries := map (on_args redactArgs) (db_queries d)\<rparr>) (cf_db c),
     cf_redis := map_option (\<lambda>r. r\<lparr>rd_password := (if rd_password r \<noteq> [] then Redacted else [])\<rparr>) (cf_redis c),
     cf_telemetry := map_option (\<lambda>t. t\<lparr>
         te_postgres := map_option (redact_sampler lib) (te_postgres t),
         te_mysql := map_option (redact_sampler lib) (te_mysql t),
         te_redis := map_option (redact_sampler lib) (te_redis t)\<rparr>) (cf_telemetry c)\<rparr>"

section \<open>Two configurations that differ in their secrets\<close>

text \<open>
  \<open>tamper f g p c\<close> replaces the secrets of \<open>c\<close>: the value of each header that carries a
  credential by \<open>f\<close>, the value of each secret argument by \<open>g\<close>, and the Redis password by \<open>p\<close>.
\<close>

definition tamper_headers :: "(string \<Rightarrow> string) \<Rightarrow> (string \<rightharpoonup> string) \<Rightarrow> (string \<rightharpoonup> string)" where
  "tamper_headers f h = (\<lambda>name. map_option (\<lambda>v. if ShouldRedactHeader name [] then f v else v) (h name))"

definition tamper_args :: "(yaml \<Rightarrow> yaml) \<Rightarrow> arg list \<Rightarrow> arg list" where
  "tamper_args g args = map (\<lambda>a. if ar_secret a then a\<lparr>ar_value := g (ar_value a)\<rparr> else a) args"

definition tamper :: "(string \<Rightarrow> string) \<Rightarrow> (yaml \<Rightarrow> yaml) \<Rightarrow> string \<Rightarrow> configuration \<Rightarrow> configuration" where
  "tamper f g p c = c\<lparr>
     cf_http := map_option (on_headers (tamper_headers f)) (cf_http c),
     cf_db := map_option (\<lambda>d. d\<lparr>db_queries := map (on_args (tamper_args g)) (db_queries d)\<rparr>) (cf_db c),
     cf_redis := map_option (\<lambda>r. r\<lparr>rd_password := (if rd_password r \<noteq> [] then p else [])\<rparr>) (cf_redis c)\<rparr>"

lemma on_headers_compose: "on_headers f (on_headers g h) = on_headers (f \<circ> g) h"
  by (simp add: on_headers_def Let_def comp_def)

lemma on_args_compose: "on_args f (on_args g q) = on_args (f \<circ> g) q"
  by (simp add: on_args_def comp_def)

lemma redact_tampered_headers: "redactHeaders [] (tamper_headers f h) = redactHeaders [] h"
  by (rule ext) (simp add: redactHeaders_def tamper_headers_def split: option.splits)

lemma redact_tampered_args: "redactArgs (tamper_args g args) = redactArgs args"
  by (simp add: redactArgs_def tamper_args_def)

text \<open>The secrets a configuration holds outside its connection strings are all masked.\<close>

definition headers_masked :: "(string \<rightharpoonup> string) \<Rightarrow> bool" where
  "headers_masked h \<longleftrightarrow> (\<forall>name v. h name = Some v \<and> ShouldRedactHeader name [] \<longrightarrow> v = Redacted)"

definition args_masked :: "arg list \<Rightarrow> bool" where
  "args_masked args \<longleftrightarrow> (\<forall>a \<in> set args. ar_secret a \<longrightarrow> ar_value a = YStr Redacted)"

lemma redactHeaders_masked: "redactHeaders [] h = h \<longleftrightarrow> headers_masked h"
  by (auto simp: redactHeaders_def headers_masked_def fun_eq_iff split: option.splits)

lemma redactArgs_masked: "redactArgs args = args \<longleftrightarrow> args_masked args"
proof -
  have "redactArgs args = args \<longleftrightarrow> (\<forall>a \<in> set args. (if ar_secret a then a\<lparr>ar_value := YStr Redacted\<rparr> else a) = a)"
    unfolding redactArgs_def using map_eq_conv[of _ args "\<lambda>x. x"] by simp
  also have "\<dots> \<longleftrightarrow> args_masked args"
    unfolding args_masked_def by (intro ball_cong refl) (metis arg.surjective arg.update_convs(1) arg.select_convs(1))
  finally show ?thesis .
qed

lemma redact_headers_twice: "redactHeaders e \<circ> redactHeaders e = redactHeaders e"
  by (rule ext, rule ext) (simp add: redactHeaders_def split: option.splits)

lemma redact_args_twice: "redactArgs \<circ> redactArgs = redactArgs"
  by (rule ext) (simp add: redactArgs_def)

lemma redact_ignores_secrets:
  assumes "p \<noteq> []"
  shows "redact_config lib (tamper f g p c) = redact_config lib c"
proof -
  have "map_option (on_headers (redactHeaders [])) (map_option (on_headers (tamper_headers f)) h) =
      map_option (on_headers (redactHeaders [])) h" for h
    by (cases h) (simp_all add: on_headers_compose comp_def redact_tampered_headers)
  moreover have "on_args redactArgs (on_args (tamper_args g) q) = on_args redactArgs q" for q
    by (simp add: on_args_compose comp_def redact_tampered_args)
  ultimately show ?thesis
    using assms by (cases "cf_redis c"; cases "cf_db c") (simp_all add: redact_config_def tamper_def comp_def)
qed

lemma mysqlDSN_written:
  assumes "user \<noteq> []" "set user \<inter> set '':/@'' = {}" "CHR ''@'' \<notin> set pass"
  shows "mysqlDSN (user @ '':'' @ pass @ ''@'' @ rest) = Some (user, pass, rest)"
proof -
  have u: "takeWhile (\<lambda>c. c \<notin> set '':/@'') (user @ CHR '':'' # pass @ CHR ''@'' # rest) = user"
    using assms(2) by (subst takeWhile_append2) auto
  have p: "takeWhile (\<lambda>d. d \<noteq> CHR ''@'') (pass @ CHR ''@'' # rest) = pass"
    using assms(3) by (subst takeWhile_append2) auto
  show ?thesis using assms(1) u p by (simp add: mysqlDSN_def Let_def)
qed

lemma RedactDSN_mysql:
  assumes "user \<noteq> []" "set user \<inter> set '':/@'' = {}" "pass \<noteq> []" "CHR ''@'' \<notin> set pass"
    "\<not> contains (user @ '':'' @ pass @ ''@'' @ rest) ''://''"
  shows "RedactDSN lib (user @ '':'' @ pass @ ''@'' @ rest) =
    redact_pairs False (user @ '':'' @ Redacted @ ''@'' @ rest)"
  unfolding RedactDSN_def redact_plain_def mysqlDSN_written[OF assms(1,2,4)] using assms(3,5) by simp

text \<open>
  The match ends at the first at sign. The MySQL driver takes the last one before the slash, so
  a password may contain one, and what follows it stays in the report.
\<close>

lemma password_tail_left:
  "redact_plain ''root:pa@ss@tcp(h)/d'' = ''root:[redacted]@ss@tcp(h)/d''"
  by code_simp

lemma pairs_masked:
  "redact_plain ''host=h password=secret dbname=d'' = ''host=h password=[redacted] dbname=d''"
  by code_simp

section \<open>What redaction leaves alone\<close>

lemma redact_sections:
  "cf_run (redact_config lib c) = cf_run c" "cf_slo (redact_config lib c) = cf_slo c"
  "cf_safety (redact_config lib c) = cf_safety c"
  "executor_of (redact_config lib c) r = executor_of c r"
  by (simp_all add: redact_config_def executor_of_def on_headers_def Let_def option.map_comp comp_def)

lemma redact_labels: "Labels (redact_config lib c) r = Labels c r"
proof -
  have "journey_labels (j\<lparr>jn_steps := map (\<lambda>s. s\<lparr>hs_headers := f (hs_headers s)\<rparr>) (jn_steps j)\<rparr>) = journey_labels j"
    for f j by (simp add: journey_labels_def comp_def)
  moreover have "qu_name (on_args f q) = qu_name q" for f q by (simp add: on_args_def)
  ultimately show ?thesis
    by (auto simp: Labels_def redact_config_def on_headers_def Let_def comp_def split: option.splits)
qed

section \<open>Properties\<close>

definition no_urls :: "unit userinfo_lib" where
  "no_urls = \<lparr>ul_parse = (\<lambda>_. None), ul_resolve = (\<lambda>_ _. None), ul_string = (\<lambda>_. []),
     ul_hostname = (\<lambda>_. []), ui_user = (\<lambda>_. None), ui_set_password = (\<lambda>u _ _. u)\<rparr>"

definition secret_db :: db_section where
  "secret_db = demo_db\<lparr>db_dsn := ''u:pw@tcp(h)/d'', db_queries :=
     [demo_query\<lparr>qu_args := [\<lparr>ar_value = YStr ''key'', ar_secret = True\<rparr>]\<rparr>]\<rparr>"



end
