(* ===== verification/RedactCopy.thy ===== *)
theory RedactCopy
  imports Redact
begin

text \<open>
  \<open>Redacted\<close> and \<open>clone\<close> of \<open>internal/config/redact.go\<close> with the sharing Go has: a configuration is a struct of pointers, slices and
  maps, the copy is made so that overwriting secrets in it cannot reach the one the run is using. Objects live in a store, by address; what
  neither function follows (pointers to scalars, the expectations of a step) stays in the value it is a part of. \<open>Redact\<close> has what the
  result means; here is that it is what the store shows, and that the original still shows what it did.
\<close>

section \<open>The store\<close>

type_synonym addr = nat

text \<open>A pointer or a map that may be nil is an optional address, a slice is the address of its array, and a struct is a pair of what it points
  to and the rest of it.\<close>

datatype obj =
    OMap "string \<rightharpoonup> string"
  | OArgs "arg list"
  | OSteps "(addr option \<times> http_step) list"
  | OJourneys "(addr \<times> journey) list"
  | OTx "(addr \<times> tx_statement) list"
  | OQueries "((addr \<times> addr) \<times> query) list"
  | OHTTP "(addr option \<times> addr \<times> addr) \<times> http_section"
  | ODB "addr \<times> db_section"
  | ORedis redis_section
  | OSampler sampler
  | OTelemetry "(addr option \<times> addr option \<times> addr option) \<times> telemetry"

record store =
  st_next :: addr
  st_obj :: "addr \<Rightarrow> obj"

definition alloc :: "obj \<Rightarrow> store \<Rightarrow> addr \<times> store" where
  "alloc x h = (st_next h, h\<lparr>st_next := Suc (st_next h), st_obj := (st_obj h)(st_next h := x)\<rparr>)"

definition overwrite :: "addr \<Rightarrow> obj \<Rightarrow> store \<Rightarrow> store" where
  "overwrite a x h = h\<lparr>st_obj := (st_obj h)(a := x)\<rparr>"

text \<open>Reading at a type.\<close>

fun as_map :: "obj \<Rightarrow> (string \<rightharpoonup> string)" where "as_map (OMap x) = x" | "as_map _ = Map.empty"
fun as_args :: "obj \<Rightarrow> arg list" where "as_args (OArgs x) = x" | "as_args _ = []"
fun as_steps :: "obj \<Rightarrow> (addr option \<times> http_step) list" where "as_steps (OSteps x) = x" | "as_steps _ = []"
fun as_journeys :: "obj \<Rightarrow> (addr \<times> journey) list" where "as_journeys (OJourneys x) = x" | "as_journeys _ = []"
fun as_tx :: "obj \<Rightarrow> (addr \<times> tx_statement) list" where "as_tx (OTx x) = x" | "as_tx _ = []"
fun as_queries :: "obj \<Rightarrow> ((addr \<times> addr) \<times> query) list" where "as_queries (OQueries x) = x" | "as_queries _ = []"
fun as_http :: "obj \<Rightarrow> (addr option \<times> addr \<times> addr) \<times> http_section" where "as_http (OHTTP x) = x" | "as_http _ = undefined"
fun as_db :: "obj \<Rightarrow> addr \<times> db_section" where "as_db (ODB x) = x" | "as_db _ = undefined"
fun as_redis :: "obj \<Rightarrow> redis_section" where "as_redis (ORedis x) = x" | "as_redis _ = undefined"
fun as_sampler :: "obj \<Rightarrow> sampler" where "as_sampler (OSampler x) = x" | "as_sampler _ = undefined"
fun as_telemetry :: "obj \<Rightarrow> (addr option \<times> addr option \<times> addr option) \<times> telemetry" where
  "as_telemetry (OTelemetry x) = x" | "as_telemetry _ = undefined"

section \<open>Copying and overwriting\<close>

text \<open>A loop that copies the elements of a slice, and one that overwrites in each of them.\<close>

fun copy_each :: "('a \<Rightarrow> store \<Rightarrow> 'a \<times> store) \<Rightarrow> 'a list \<Rightarrow> store \<Rightarrow> 'a list \<times> store" where
  "copy_each f [] h = ([], h)"
| "copy_each f (x # xs) h = (case f x h of (y, h1) \<Rightarrow> (case copy_each f xs h1 of (ys, h2) \<Rightarrow> (y # ys, h2)))"

definition below :: "addr \<Rightarrow> store \<Rightarrow> store \<Rightarrow> bool" where
  "below n h h' \<longleftrightarrow> (\<forall>a < n. st_obj h' a = st_obj h a)"

definition same_on :: "addr list \<Rightarrow> store \<Rightarrow> store \<Rightarrow> bool" where
  "same_on as h h' \<longleftrightarrow> (\<forall>a \<in> set as. st_obj h' a = st_obj h a)"

text \<open>Something in the store that can be copied: what it shows, and the addresses it is made of.\<close>

locale shown =
  fixes shows_at :: "store \<Rightarrow> 'a \<Rightarrow> 'v" and addrs :: "store \<Rightarrow> 'a \<Rightarrow> addr list"
  assumes frame: "same_on (addrs h x) h h' \<Longrightarrow> shows_at h' x = shows_at h x \<and> addrs h' x = addrs h x"
begin

lemma frame_each:
  "same_on (concat (map (addrs h) xs)) h h' \<Longrightarrow>
   map (shows_at h') xs = map (shows_at h) xs \<and> map (addrs h') xs = map (addrs h) xs"
proof (induction xs)
  case (Cons x xs)
  then have "same_on (addrs h x) h h'" "same_on (concat (map (addrs h) xs)) h h'" by (auto simp: same_on_def)
  then show ?case using frame[of h x h'] Cons.IH by simp
qed simp

end

locale copier = shown shows_at addrs for shows_at :: "store \<Rightarrow> 'a \<Rightarrow> 'v" and addrs +
  fixes copy :: "'a \<Rightarrow> store \<Rightarrow> 'a \<times> store"
  assumes copied: "set (addrs h x) \<subseteq> {..<st_next h} \<Longrightarrow> copy x h = (y, h') \<Longrightarrow>
    st_next h \<le> st_next h' \<and> below (st_next h) h h' \<and> shows_at h' y = shows_at h x \<and>
    set (addrs h' y) \<subseteq> {st_next h..<st_next h'} \<and> distinct (addrs h' y)"
begin

lemma copied_each:
  "set (concat (map (addrs h) xs)) \<subseteq> {..<st_next h} \<Longrightarrow> copy_each copy xs h = (ys, h') \<Longrightarrow>
   st_next h \<le> st_next h' \<and> below (st_next h) h h' \<and> map (shows_at h') ys = map (shows_at h) xs \<and>
   set (concat (map (addrs h') ys)) \<subseteq> {st_next h..<st_next h'} \<and> distinct (concat (map (addrs h') ys))"
proof (induction xs arbitrary: h ys)
  case (Cons x xs)
  obtain y h1 where y: "copy x h = (y, h1)" by (metis prod.exhaust)
  obtain zs where zs: "copy_each copy xs h1 = (zs, h')" "ys = y # zs" using Cons.prems(2) y by (auto split: prod.splits)
  have x: "set (addrs h x) \<subseteq> {..<st_next h}" using Cons.prems(1) by simp
  have c: "st_next h \<le> st_next h1" "below (st_next h) h h1" "shows_at h1 y = shows_at h x"
    "set (addrs h1 y) \<subseteq> {st_next h..<st_next h1}" "distinct (addrs h1 y)" using copied[OF x y] by blast+
  have "same_on (concat (map (addrs h) xs)) h h1" unfolding same_on_def using Cons.prems(1) c(2) by (auto simp: below_def)
  from frame_each[OF this] have kept: "map (shows_at h1) xs = map (shows_at h) xs" "map (addrs h1) xs = map (addrs h) xs" by simp_all
  have "set (concat (map (addrs h) xs)) \<subseteq> {..<st_next h1}" using Cons.prems(1) c(1) by fastforce
  then have r: "st_next h1 \<le> st_next h'" "below (st_next h1) h1 h'" "map (shows_at h') zs = map (shows_at h1) xs"
    "set (concat (map (addrs h') zs)) \<subseteq> {st_next h1..<st_next h'}" "distinct (concat (map (addrs h') zs))"
    using Cons.IH[OF _ zs(1)] unfolding kept(2) by blast+
  have "same_on (addrs h1 y) h1 h'" unfolding same_on_def using c(4) r(2) by (auto simp: below_def)
  from frame[OF this] have late: "shows_at h' y = shows_at h1 y" "addrs h' y = addrs h1 y" by simp_all
  have "set (addrs h1 y) \<inter> set (concat (map (addrs h') zs)) = {}" using c(4) r(4) by fastforce
  then have "distinct (concat (map (addrs h') ys))" unfolding zs(2) list.map concat.simps late using c(5) r(5) by simp
  moreover have "below (st_next h) h h'" unfolding below_def using c(1,2) r(2) by (simp add: below_def)
  moreover have "set (concat (map (addrs h') ys)) \<subseteq> {st_next h..<st_next h'}"
    unfolding zs(2) list.map concat.simps set_append late using c(1,4) r(1,4) by fastforce
  moreover have "map (shows_at h') ys = map (shows_at h) (x # xs)" unfolding zs(2) list.map late using c(3) r(3) kept(1) by simp
  ultimately show ?case using c(1) r(1) by simp
qed (simp add: below_def)

end

text \<open>Overwriting something in place, as long as nothing in it is shared: it touches its own addresses only, keeps them, and shows what \<open>f\<close>
  makes of it.\<close>

locale masker = shown shows_at addrs for shows_at :: "store \<Rightarrow> 'a \<Rightarrow> 'v" and addrs +
  fixes mask :: "'a \<Rightarrow> store \<Rightarrow> store" and f :: "'v \<Rightarrow> 'v"
  assumes masked: "distinct (addrs h x) \<Longrightarrow>
    (\<forall>a. a \<notin> set (addrs h x) \<longrightarrow> st_obj (mask x h) a = st_obj h a) \<and> st_next (mask x h) = st_next h \<and>
    addrs (mask x h) x = addrs h x \<and> shows_at (mask x h) x = f (shows_at h x)"
begin

lemma masked_each:
  "distinct (concat (map (addrs h) xs)) \<Longrightarrow>
   (\<forall>a. a \<notin> set (concat (map (addrs h) xs)) \<longrightarrow> st_obj (fold mask xs h) a = st_obj h a) \<and>
   st_next (fold mask xs h) = st_next h \<and> map (addrs (fold mask xs h)) xs = map (addrs h) xs \<and>
   map (shows_at (fold mask xs h)) xs = map f (map (shows_at h) xs)"
proof (induction xs arbitrary: h)
  case (Cons x xs)
  let ?h = "mask x h"
  have "distinct (addrs h x)" using Cons.prems by simp
  then have m: "\<forall>a. a \<notin> set (addrs h x) \<longrightarrow> st_obj ?h a = st_obj h a" "st_next ?h = st_next h" "addrs ?h x = addrs h x"
    "shows_at ?h x = f (shows_at h x)" using masked[of h x] by blast+
  have "same_on (concat (map (addrs h) xs)) h ?h" unfolding same_on_def using Cons.prems m(1) by fastforce
  from frame_each[OF this] have kept: "map (shows_at ?h) xs = map (shows_at h) xs" "map (addrs ?h) xs = map (addrs h) xs" by simp_all
  have "distinct (concat (map (addrs ?h) xs))" unfolding kept using Cons.prems by simp
  note r = Cons.IH[OF this, unfolded kept]
  have "same_on (addrs ?h x) ?h (fold mask xs ?h)" unfolding same_on_def m(3) using r Cons.prems by fastforce
  from frame[OF this] have late: "shows_at (fold mask xs ?h) x = f (shows_at h x)" "addrs (fold mask xs ?h) x = addrs h x"
    using m(3,4) by simp_all
  have "st_obj (fold mask (x # xs) h) a = st_obj h a" if "a \<notin> set (concat (map (addrs h) (x # xs)))" for a
    using that r m(1) by simp
  then show ?case using r late m(2) by simp
qed simp

end

section \<open>Shapes\<close>

text \<open>A value without pointers.\<close>

definition leaf_shows :: "store \<Rightarrow> 'a \<Rightarrow> 'a" where "leaf_shows h x = x"
definition leaf_addrs :: "store \<Rightarrow> 'a \<Rightarrow> addr list" where "leaf_addrs h x = []"
definition copy_leaf :: "'a \<Rightarrow> store \<Rightarrow> 'a \<times> store" where "copy_leaf x h = (x, h)"

text \<open>What is behind a pointer: read as \<open>get\<close>, stored as \<open>put\<close>.\<close>

definition cell_shows :: "(obj \<Rightarrow> 'a) \<Rightarrow> (store \<Rightarrow> 'a \<Rightarrow> 'v) \<Rightarrow> store \<Rightarrow> addr \<Rightarrow> 'v" where
  "cell_shows get sh h a = sh h (get (st_obj h a))"

definition cell_addrs :: "(obj \<Rightarrow> 'a) \<Rightarrow> (store \<Rightarrow> 'a \<Rightarrow> addr list) \<Rightarrow> store \<Rightarrow> addr \<Rightarrow> addr list" where
  "cell_addrs get ad h a = a # ad h (get (st_obj h a))"

definition copy_cell :: "(obj \<Rightarrow> 'a) \<Rightarrow> ('a \<Rightarrow> obj) \<Rightarrow> ('a \<Rightarrow> store \<Rightarrow> 'a \<times> store) \<Rightarrow> addr \<Rightarrow> store \<Rightarrow> addr \<times> store" where
  "copy_cell get put copy a h = (case copy (get (st_obj h a)) h of (y, h') \<Rightarrow> alloc (put y) h')"

definition mask_within :: "(obj \<Rightarrow> 'a) \<Rightarrow> ('a \<Rightarrow> store \<Rightarrow> store) \<Rightarrow> addr \<Rightarrow> store \<Rightarrow> store" where
  "mask_within get m a h = m (get (st_obj h a)) h"

definition mask_own :: "(obj \<Rightarrow> 'a) \<Rightarrow> ('a \<Rightarrow> obj) \<Rightarrow> ('a \<Rightarrow> 'a) \<Rightarrow> addr \<Rightarrow> store \<Rightarrow> store" where
  "mask_own get put g a h = overwrite a (put (g (get (st_obj h a)))) h"

text \<open>What may be nil, pairs, structs whose first part points, and slices.\<close>

definition opt_addrs :: "(store \<Rightarrow> 'a \<Rightarrow> addr list) \<Rightarrow> store \<Rightarrow> 'a option \<Rightarrow> addr list" where
  "opt_addrs ad h x = (case x of None \<Rightarrow> [] | Some y \<Rightarrow> ad h y)"

definition copy_opt :: "('a \<Rightarrow> store \<Rightarrow> 'a \<times> store) \<Rightarrow> 'a option \<Rightarrow> store \<Rightarrow> 'a option \<times> store" where
  "copy_opt copy x h = (case x of None \<Rightarrow> (None, h) | Some y \<Rightarrow> (case copy y h of (z, h') \<Rightarrow> (Some z, h')))"

definition mask_opt :: "('a \<Rightarrow> store \<Rightarrow> store) \<Rightarrow> 'a option \<Rightarrow> store \<Rightarrow> store" where
  "mask_opt m x h = (case x of None \<Rightarrow> h | Some y \<Rightarrow> m y h)"

definition pair_shows :: "(store \<Rightarrow> 'a \<Rightarrow> 'v) \<Rightarrow> (store \<Rightarrow> 'b \<Rightarrow> 'w) \<Rightarrow> store \<Rightarrow> 'a \<times> 'b \<Rightarrow> 'v \<times> 'w" where
  "pair_shows s1 s2 h p = (s1 h (fst p), s2 h (snd p))"

definition pair_addrs :: "(store \<Rightarrow> 'a \<Rightarrow> addr list) \<Rightarrow> (store \<Rightarrow> 'b \<Rightarrow> addr list) \<Rightarrow> store \<Rightarrow> 'a \<times> 'b \<Rightarrow> addr list" where
  "pair_addrs a1 a2 h p = a1 h (fst p) @ a2 h (snd p)"

definition copy_pair :: "('a \<Rightarrow> store \<Rightarrow> 'a \<times> store) \<Rightarrow> ('b \<Rightarrow> store \<Rightarrow> 'b \<times> store) \<Rightarrow> 'a \<times> 'b \<Rightarrow> store \<Rightarrow> ('a \<times> 'b) \<times> store" where
  "copy_pair c1 c2 p h = (case c1 (fst p) h of (x, h1) \<Rightarrow> (case c2 (snd p) h1 of (y, h2) \<Rightarrow> ((x, y), h2)))"

definition mask_pair :: "('a \<Rightarrow> store \<Rightarrow> store) \<Rightarrow> ('b \<Rightarrow> store \<Rightarrow> store) \<Rightarrow> 'a \<times> 'b \<Rightarrow> store \<Rightarrow> store" where
  "mask_pair m1 m2 p h = m2 (snd p) (m1 (fst p) h)"

definition struct_shows :: "(store \<Rightarrow> 'a \<Rightarrow> 'v) \<Rightarrow> ('v \<Rightarrow> 'r \<Rightarrow> 'w) \<Rightarrow> store \<Rightarrow> 'a \<times> 'r \<Rightarrow> 'w" where
  "struct_shows sh fill h p = fill (sh h (fst p)) (snd p)"

definition struct_addrs :: "(store \<Rightarrow> 'a \<Rightarrow> addr list) \<Rightarrow> store \<Rightarrow> 'a \<times> 'r \<Rightarrow> addr list" where
  "struct_addrs ad h p = ad h (fst p)"

definition copy_struct :: "('a \<Rightarrow> store \<Rightarrow> 'a \<times> store) \<Rightarrow> 'a \<times> 'r \<Rightarrow> store \<Rightarrow> ('a \<times> 'r) \<times> store" where
  "copy_struct copy p h = (case copy (fst p) h of (x, h') \<Rightarrow> ((x, snd p), h'))"

definition mask_struct :: "('a \<Rightarrow> store \<Rightarrow> store) \<Rightarrow> 'a \<times> 'r \<Rightarrow> store \<Rightarrow> store" where
  "mask_struct m p h = m (fst p) h"

definition each_shows :: "(store \<Rightarrow> 'a \<Rightarrow> 'v) \<Rightarrow> store \<Rightarrow> 'a list \<Rightarrow> 'v list" where
  "each_shows sh h xs = map (sh h) xs"

definition each_addrs :: "(store \<Rightarrow> 'a \<Rightarrow> addr list) \<Rightarrow> store \<Rightarrow> 'a list \<Rightarrow> addr list" where
  "each_addrs ad h xs = concat (map (ad h) xs)"

definition mask_each :: "('a \<Rightarrow> store \<Rightarrow> store) \<Rightarrow> 'a list \<Rightarrow> store \<Rightarrow> store" where
  "mask_each m xs h = fold m xs h"

subsection \<open>Every shape can be copied\<close>

lemma same_on_simps [simp]: "same_on [] h h'" "same_on (a # as) h h' \<longleftrightarrow> st_obj h' a = st_obj h a \<and> same_on as h h'"
  "same_on (as @ bs) h h' \<longleftrightarrow> same_on as h h' \<and> same_on bs h h'"
  by (auto simp: same_on_def)

lemma same_below: "set as \<subseteq> {..<n} \<Longrightarrow> below n h h' \<Longrightarrow> same_on as h h'"
  by (auto simp: same_on_def below_def)

lemma below_trans: "below n h h1 \<Longrightarrow> below m h1 h2 \<Longrightarrow> n \<le> m \<Longrightarrow> below n h h2"
  by (simp add: below_def)

lemma below_alloc: "alloc x h = (a, h') \<Longrightarrow> a = st_next h \<and> st_next h' = Suc (st_next h) \<and> below (st_next h) h h' \<and> st_obj h' a = x"
  by (auto simp: alloc_def below_def)

text \<open>What \<open>copied\<close> of \<open>copier\<close> asks for, as one predicate.\<close>

definition fresh_copy :: "store \<Rightarrow> store \<Rightarrow> 'v \<Rightarrow> 'v \<Rightarrow> addr list \<Rightarrow> bool" where
  "fresh_copy h h' v w as \<longleftrightarrow> st_next h \<le> st_next h' \<and> below (st_next h) h h' \<and> w = v \<and>
     set as \<subseteq> {st_next h..<st_next h'} \<and> distinct as"

lemma copierI:
  assumes "shown sh ad"
    and "\<And>h x y h'. set (ad h x) \<subseteq> {..<st_next h} \<Longrightarrow> copy x h = (y, h') \<Longrightarrow> fresh_copy h h' (sh h x) (sh h' y) (ad h' y)"
  shows "copier sh ad copy"
  using assms by (auto simp: copier_def copier_axioms_def fresh_copy_def)

lemma copierD:
  assumes "copier sh ad copy"
  shows "shown sh ad" "set (ad h x) \<subseteq> {..<st_next h} \<Longrightarrow> copy x h = (y, h') \<Longrightarrow> fresh_copy h h' (sh h x) (sh h' y) (ad h' y)"
  using assms by (auto simp: copier_def copier_axioms_def fresh_copy_def)

lemma fresh_refl: "fresh_copy h h v v []"
  by (simp add: fresh_copy_def below_def)

text \<open>A copy stays what it is when more is copied after it.\<close>

lemma fresh_then:
  assumes "fresh_copy h h1 v (sh h1 y) (ad h1 y)" "shown sh ad" "below (st_next h1) h1 h2"
  shows "sh h2 y = sh h1 y" "ad h2 y = ad h1 y"
proof -
  have "set (ad h1 y) \<subseteq> {..<st_next h1}" using assms(1) by (fastforce simp: fresh_copy_def)
  from shown.frame[OF assms(2) same_below[OF this assms(3)]] show "sh h2 y = sh h1 y" "ad h2 y = ad h1 y" by simp_all
qed

lemma copier_leaf: "copier leaf_shows leaf_addrs copy_leaf"
  by (rule copierI) (unfold_locales, auto simp: leaf_shows_def leaf_addrs_def copy_leaf_def fresh_refl)

lemma shown_cell: "shown sh ad \<Longrightarrow> shown (cell_shows get sh) (cell_addrs get ad)"
  by unfold_locales (auto simp: cell_shows_def cell_addrs_def dest: shown.frame)

lemma copier_cell:
  assumes "copier sh ad copy" "\<And>x. get (put x) = x"
  shows "copier (cell_shows get sh) (cell_addrs get ad) (copy_cell get put copy)"
proof (rule copierI[OF shown_cell[OF copierD(1)[OF assms(1)]]])
  fix h x y h' assume sub: "set (cell_addrs get ad h x) \<subseteq> {..<st_next h}" and run: "copy_cell get put copy x h = (y, h')"
  obtain z h1 where z: "copy (get (st_obj h x)) h = (z, h1)" by (metis prod.exhaust)
  have "alloc (put z) h1 = (y, h')" using run z by (simp add: copy_cell_def)
  then have al: "y = st_next h1" "st_next h' = Suc (st_next h1)" "below (st_next h1) h1 h'" "st_obj h' y = put z" by (auto dest: below_alloc)
  have "set (ad h (get (st_obj h x))) \<subseteq> {..<st_next h}" using sub by (simp add: cell_addrs_def)
  note c = copierD(2)[OF assms(1) this z]
  note late = fresh_then[OF c copierD(1)[OF assms(1)] al(3)]
  show "fresh_copy h h' (cell_shows get sh h x) (cell_shows get sh h' y) (cell_addrs get ad h' y)"
    using c al below_trans[OF _ al(3)] unfolding fresh_copy_def cell_shows_def cell_addrs_def al(4) assms(2) late by fastforce
qed

lemma shown_opt: "shown sh ad \<Longrightarrow> shown (\<lambda>h. map_option (sh h)) (opt_addrs ad)"
  by unfold_locales (auto simp: opt_addrs_def dest: shown.frame split: option.splits)

lemma copier_opt: "copier sh ad copy \<Longrightarrow> copier (\<lambda>h. map_option (sh h)) (opt_addrs ad) (copy_opt copy)"
proof (rule copierI)
  fix h h' and x y :: "'a option" assume c: "copier sh ad copy" and sub: "set (opt_addrs ad h x) \<subseteq> {..<st_next h}" and run: "copy_opt copy x h = (y, h')"
  show "fresh_copy h h' (map_option (sh h) x) (map_option (sh h') y) (opt_addrs ad h' y)"
  proof (cases x)
    case (Some z)
    obtain z' h1 where z: "copy z h = (z', h1)" by (metis prod.exhaust)
    then have "y = Some z'" "h' = h1" using run Some by (auto simp: copy_opt_def)
    then show ?thesis using copierD(2)[OF c _ z] sub Some by (simp add: opt_addrs_def fresh_copy_def)
  qed (use run in \<open>simp add: copy_opt_def opt_addrs_def fresh_refl\<close>)
qed (auto intro: shown_opt dest: copierD(1))

lemma shown_pair: "shown s1 a1 \<Longrightarrow> shown s2 a2 \<Longrightarrow> shown (pair_shows s1 s2) (pair_addrs a1 a2)"
proof
  fix h h' p assume "shown s1 a1" "shown s2 a2" "same_on (pair_addrs a1 a2 h p) h h'"
  then show "pair_shows s1 s2 h' p = pair_shows s1 s2 h p \<and> pair_addrs a1 a2 h' p = pair_addrs a1 a2 h p"
    using shown.frame[of s1 a1 h "fst p" h'] shown.frame[of s2 a2 h "snd p" h'] by (simp add: pair_shows_def pair_addrs_def)
qed

lemma copier_pair:
  assumes "copier s1 a1 c1" "copier s2 a2 c2"
  shows "copier (pair_shows s1 s2) (pair_addrs a1 a2) (copy_pair c1 c2)"
proof (rule copierI[OF shown_pair[OF copierD(1)[OF assms(1)] copierD(1)[OF assms(2)]]])
  fix h p q h' assume sub: "set (pair_addrs a1 a2 h p) \<subseteq> {..<st_next h}" and run: "copy_pair c1 c2 p h = (q, h')"
  obtain x h1 where x: "c1 (fst p) h = (x, h1)" by (metis prod.exhaust)
  obtain y where y: "c2 (snd p) h1 = (y, h')" "q = (x, y)" using run x by (auto simp: copy_pair_def split: prod.splits)
  have subs: "set (a1 h (fst p)) \<subseteq> {..<st_next h}" "set (a2 h (snd p)) \<subseteq> {..<st_next h}" using sub by (simp_all add: pair_addrs_def)
  note f1 = copierD(2)[OF assms(1) subs(1) x]
  then have b1: "st_next h \<le> st_next h1" "below (st_next h) h h1" by (simp_all add: fresh_copy_def)
  have kept: "s2 h1 (snd p) = s2 h (snd p)" "a2 h1 (snd p) = a2 h (snd p)"
    using shown.frame[OF copierD(1)[OF assms(2)] same_below[OF subs(2) b1(2)]] by simp_all
  have "set (a2 h1 (snd p)) \<subseteq> {..<st_next h1}" unfolding kept using subs(2) b1(1) by fastforce
  note f2 = copierD(2)[OF assms(2) this y(1)]
  then have b2: "st_next h1 \<le> st_next h'" "below (st_next h1) h1 h'" by (simp_all add: fresh_copy_def)
  note late = fresh_then[OF f1 copierD(1)[OF assms(1)] b2(2)]
  have apart: "set (a1 h1 x) \<inter> set (a2 h' y) = {}" using f1 f2 by (fastforce simp: fresh_copy_def)
  show "fresh_copy h h' (pair_shows s1 s2 h p) (pair_shows s1 s2 h' q) (pair_addrs a1 a2 h' q)"
    unfolding fresh_copy_def pair_shows_def pair_addrs_def y(2) fst_conv snd_conv late
  proof (intro conjI)
    show "st_next h \<le> st_next h'" using b1 b2 by simp
    show "below (st_next h) h h'" by (rule below_trans[OF b1(2) b2(2) b1(1)])
    show "(s1 h1 x, s2 h' y) = (s1 h (fst p), s2 h (snd p))" using f1 f2 kept by (simp add: fresh_copy_def)
    show "set (a1 h1 x @ a2 h' y) \<subseteq> {st_next h..<st_next h'}" using f1 f2 b1 b2 by (fastforce simp: fresh_copy_def)
    show "distinct (a1 h1 x @ a2 h' y)" using f1 f2 apart by (simp add: fresh_copy_def)
  qed
qed

lemma shown_struct: "shown sh ad \<Longrightarrow> shown (struct_shows sh fill) (struct_addrs ad)"
  by unfold_locales (auto simp: struct_shows_def struct_addrs_def dest: shown.frame)

lemma copier_struct:
  fixes sh :: "store \<Rightarrow> 'a \<Rightarrow> 'v" and fill :: "'v \<Rightarrow> 'r \<Rightarrow> 'w"
  assumes "copier sh ad copy"
  shows "copier (struct_shows sh fill) (struct_addrs ad) (copy_struct copy)"
proof (rule copierI[OF shown_struct[OF copierD(1)[OF assms]]])
  fix h h' and p q :: "'a \<times> 'r" assume sub: "set (struct_addrs ad h p) \<subseteq> {..<st_next h}" and run: "copy_struct copy p h = (q, h')"
  obtain x where x: "copy (fst p) h = (x, h')" "q = (x, snd p)" using run by (auto simp: copy_struct_def split: prod.splits)
  show "fresh_copy h h' (struct_shows sh fill h p) (struct_shows sh fill h' q) (struct_addrs ad h' q)"
    using copierD(2)[OF assms _ x(1)] sub by (simp add: struct_addrs_def struct_shows_def x(2) fresh_copy_def)
qed

lemma shown_each: "shown sh ad \<Longrightarrow> shown (each_shows sh) (each_addrs ad)"
proof
  fix h h' xs assume "shown sh ad" "same_on (each_addrs ad h xs) h h'"
  then have "map (sh h') xs = map (sh h) xs \<and> map (ad h') xs = map (ad h) xs"
    using shown.frame_each[of sh ad h xs h'] unfolding each_addrs_def by blast
  then show "each_shows sh h' xs = each_shows sh h xs \<and> each_addrs ad h' xs = each_addrs ad h xs" by (simp only: each_shows_def each_addrs_def)
qed

lemma copier_each: "copier sh ad copy \<Longrightarrow> copier (each_shows sh) (each_addrs ad) (copy_each copy)"
proof (rule copierI)
  fix h xs ys h' assume c: "copier sh ad copy" and "set (each_addrs ad h xs) \<subseteq> {..<st_next h}" "copy_each copy xs h = (ys, h')"
  then show "fresh_copy h h' (each_shows sh h xs) (each_shows sh h' ys) (each_addrs ad h' ys)"
    unfolding each_addrs_def each_shows_def fresh_copy_def using copier.copied_each[OF c, of h xs ys h'] by blast
qed (auto intro: shown_each dest: copierD(1))

lemmas copiers = copier_leaf copier_cell copier_opt copier_pair copier_struct copier_each

subsection \<open>Every shape can be overwritten\<close>

definition in_place :: "store \<Rightarrow> store \<Rightarrow> addr list \<Rightarrow> addr list \<Rightarrow> 'v \<Rightarrow> 'v \<Rightarrow> bool" where
  "in_place h h' as bs v w \<longleftrightarrow> (\<forall>a. a \<notin> set as \<longrightarrow> st_obj h' a = st_obj h a) \<and> st_next h' = st_next h \<and> bs = as \<and> w = v"

lemma maskerI:
  assumes "shown sh ad" "\<And>h x. distinct (ad h x) \<Longrightarrow> in_place h (m x h) (ad h x) (ad (m x h) x) (f (sh h x)) (sh (m x h) x)"
  shows "masker sh ad m f"
  using assms by (auto simp: masker_def masker_axioms_def in_place_def)

lemma maskerD:
  assumes "masker sh ad m f"
  shows "shown sh ad" "distinct (ad h x) \<Longrightarrow> in_place h (m x h) (ad h x) (ad (m x h) x) (f (sh h x)) (sh (m x h) x)"
  using assms by (auto simp: masker_def masker_axioms_def in_place_def)

lemma masker_own:
  assumes "shown sh ad" "\<And>x. get (put x) = x" "\<And>h x. ad h (g x) = ad h x" "\<And>h x. sh h (g x) = f (sh h x)"
  shows "masker (cell_shows get sh) (cell_addrs get ad) (mask_own get put g) f"
proof (rule maskerI[OF shown_cell[OF assms(1)]])
  fix h x assume d: "distinct (cell_addrs get ad h x)"
  let ?y = "get (st_obj h x)" and ?h = "mask_own get put g x h"
  have "same_on (ad h (g ?y)) h ?h" using d by (auto simp: assms(3) cell_addrs_def mask_own_def overwrite_def same_on_def)
  from shown.frame[OF assms(1) this] have "sh ?h (g ?y) = f (sh h ?y)" "ad ?h (g ?y) = ad h ?y" by (simp_all add: assms(3,4))
  moreover have "get (st_obj ?h x) = g ?y" by (simp add: mask_own_def overwrite_def assms(2))
  ultimately show "in_place h ?h (cell_addrs get ad h x) (cell_addrs get ad ?h x) (f (cell_shows get sh h x)) (cell_shows get sh ?h x)"
    by (simp add: in_place_def cell_addrs_def cell_shows_def) (simp add: mask_own_def overwrite_def)
qed

lemma masker_within:
  assumes "masker sh ad m f"
  shows "masker (cell_shows get sh) (cell_addrs get ad) (mask_within get m) f"
proof (rule maskerI[OF shown_cell[OF maskerD(1)[OF assms]]])
  fix h x assume "distinct (cell_addrs get ad h x)"
  then have d: "distinct (ad h (get (st_obj h x)))" "x \<notin> set (ad h (get (st_obj h x)))" by (simp_all add: cell_addrs_def)
  then show "in_place h (mask_within get m x h) (cell_addrs get ad h x) (cell_addrs get ad (mask_within get m x h) x)
      (f (cell_shows get sh h x)) (cell_shows get sh (mask_within get m x h) x)"
    using maskerD(2)[OF assms d(1)] by (simp add: in_place_def cell_addrs_def cell_shows_def mask_within_def)
qed

lemma masker_then:
  assumes "masker sh ad m1 f1" "masker sh ad m2 f2"
  shows "masker sh ad (\<lambda>x h. m2 x (m1 x h)) (\<lambda>v. f2 (f1 v))"
proof (rule maskerI[OF maskerD(1)[OF assms(1)]])
  fix h x assume d: "distinct (ad h x)"
  note one = maskerD(2)[OF assms(1) d]
  then have "distinct (ad (m1 x h) x)" using d by (simp add: in_place_def)
  from maskerD(2)[OF assms(2) this] one
  show "in_place h (m2 x (m1 x h)) (ad h x) (ad (m2 x (m1 x h)) x) (f2 (f1 (sh h x))) (sh (m2 x (m1 x h)) x)" by (simp add: in_place_def)
qed

lemma masker_opt: "masker sh ad m f \<Longrightarrow> masker (\<lambda>h. map_option (sh h)) (opt_addrs ad) (mask_opt m) (map_option f)"
  by (rule maskerI, rule shown_opt, erule maskerD(1))
    (auto simp: opt_addrs_def mask_opt_def in_place_def dest: maskerD(2) split: option.splits)

lemma masker_pair:
  assumes "masker s1 a1 m1 f1" "masker s2 a2 m2 f2"
  shows "masker (pair_shows s1 s2) (pair_addrs a1 a2) (mask_pair m1 m2) (map_prod f1 f2)"
proof (rule maskerI[OF shown_pair[OF maskerD(1)[OF assms(1)] maskerD(1)[OF assms(2)]]])
  fix h p assume "distinct (pair_addrs a1 a2 h p)"
  then have d: "distinct (a1 h (fst p))" "distinct (a2 h (snd p))" "set (a1 h (fst p)) \<inter> set (a2 h (snd p)) = {}" by (simp_all add: pair_addrs_def)
  let ?h = "m1 (fst p) h" and ?k = "m2 (snd p) (m1 (fst p) h)"
  have one: "\<forall>a. a \<notin> set (a1 h (fst p)) \<longrightarrow> st_obj ?h a = st_obj h a" "st_next ?h = st_next h" "a1 ?h (fst p) = a1 h (fst p)"
    "s1 ?h (fst p) = f1 (s1 h (fst p))" using maskerD(2)[OF assms(1) d(1)] by (simp_all add: in_place_def)
  have "same_on (a2 h (snd p)) h ?h" unfolding same_on_def using d(3) one(1) by blast
  from shown.frame[OF maskerD(1)[OF assms(2)] this] have kept: "s2 ?h (snd p) = s2 h (snd p)" "a2 ?h (snd p) = a2 h (snd p)" by simp_all
  have "distinct (a2 ?h (snd p))" using d(2) kept by simp
  from maskerD(2)[OF assms(2) this] have two: "\<forall>a. a \<notin> set (a2 h (snd p)) \<longrightarrow> st_obj ?k a = st_obj ?h a" "st_next ?k = st_next ?h"
    "a2 ?k (snd p) = a2 h (snd p)" "s2 ?k (snd p) = f2 (s2 h (snd p))" by (simp_all add: in_place_def kept)
  have "same_on (a1 ?h (fst p)) ?h ?k" unfolding same_on_def one(3) using d(3) two(1) by blast
  from shown.frame[OF maskerD(1)[OF assms(1)] this] have late: "s1 ?k (fst p) = f1 (s1 h (fst p))" "a1 ?k (fst p) = a1 h (fst p)"
    using one(3,4) by simp_all
  show "in_place h (mask_pair m1 m2 p h) (pair_addrs a1 a2 h p) (pair_addrs a1 a2 (mask_pair m1 m2 p h) p)
      (map_prod f1 f2 (pair_shows s1 s2 h p)) (pair_shows s1 s2 (mask_pair m1 m2 p h) p)"
    using one(1,2) two late by (simp add: in_place_def mask_pair_def pair_addrs_def pair_shows_def)
qed

lemma masker_struct:
  fixes sh :: "store \<Rightarrow> 'a \<Rightarrow> 'v" and fill :: "'v \<Rightarrow> 'r \<Rightarrow> 'w"
  assumes "masker sh ad m f" "\<And>v r. F (fill v r) = fill (f v) r"
  shows "masker (struct_shows sh fill) (struct_addrs ad) (mask_struct m) F"
proof (rule maskerI[OF shown_struct[OF maskerD(1)[OF assms(1)]]])
  fix h and p :: "'a \<times> 'r" assume "distinct (struct_addrs ad h p)"
  then show "in_place h (mask_struct m p h) (struct_addrs ad h p) (struct_addrs ad (mask_struct m p h) p)
      (F (struct_shows sh fill h p)) (struct_shows sh fill (mask_struct m p h) p)"
    using maskerD(2)[OF assms(1), of h "fst p"] by (simp add: in_place_def struct_addrs_def struct_shows_def mask_struct_def assms(2))
qed

lemma masker_each: "masker sh ad m f \<Longrightarrow> masker (each_shows sh) (each_addrs ad) (mask_each m) (map f)"
proof (rule maskerI)
  fix h xs assume c: "masker sh ad m f" and "distinct (each_addrs ad h xs)"
  then have "distinct (concat (map (ad h) xs))" by (simp add: each_addrs_def)
  from masker.masked_each[OF c this]
  show "in_place h (mask_each m xs h) (each_addrs ad h xs) (each_addrs ad (mask_each m xs h) xs) (map f (each_shows sh h xs)) (each_shows sh (mask_each m xs h) xs)"
    unfolding in_place_def each_addrs_def each_shows_def mask_each_def by (elim conjE) (intro conjI; (assumption | simp only:))
qed (auto intro: shown_each dest: maskerD(1))

section \<open>The configuration in the store\<close>

fun headers_of :: "(string \<rightharpoonup> string) option \<Rightarrow> (string \<rightharpoonup> string)" where
  "headers_of None = Map.empty"
| "headers_of (Some m) = m"

abbreviation map_shows :: "store \<Rightarrow> addr option \<Rightarrow> (string \<rightharpoonup> string) option" where
  "map_shows \<equiv> \<lambda>h. map_option (cell_shows as_map leaf_shows h)"

abbreviation map_addrs :: "store \<Rightarrow> addr option \<Rightarrow> addr list" where
  "map_addrs \<equiv> opt_addrs (cell_addrs as_map leaf_addrs)"

definition copyMap :: "addr option \<Rightarrow> store \<Rightarrow> addr option \<times> store" where
  "copyMap = copy_opt (copy_cell as_map OMap copy_leaf)"

definition fill_step :: "(string \<rightharpoonup> string) option \<Rightarrow> http_step \<Rightarrow> http_step" where
  "fill_step m s = s\<lparr>hs_headers := headers_of m\<rparr>"

abbreviation steps_shows :: "store \<Rightarrow> addr \<Rightarrow> http_step list" where
  "steps_shows \<equiv> cell_shows as_steps (each_shows (struct_shows map_shows fill_step))"

abbreviation steps_addrs :: "store \<Rightarrow> addr \<Rightarrow> addr list" where
  "steps_addrs \<equiv> cell_addrs as_steps (each_addrs (struct_addrs map_addrs))"

definition copySteps :: "addr \<Rightarrow> store \<Rightarrow> addr \<times> store" where
  "copySteps = copy_cell as_steps OSteps (copy_each (copy_struct copyMap))"

definition fill_journey :: "http_step list \<Rightarrow> journey \<Rightarrow> journey" where
  "fill_journey ss j = j\<lparr>jn_steps := ss\<rparr>"

abbreviation journeys_shows :: "store \<Rightarrow> addr \<Rightarrow> journey list" where
  "journeys_shows \<equiv> cell_shows as_journeys (each_shows (struct_shows steps_shows fill_journey))"

abbreviation journeys_addrs :: "store \<Rightarrow> addr \<Rightarrow> addr list" where
  "journeys_addrs \<equiv> cell_addrs as_journeys (each_addrs (struct_addrs steps_addrs))"

definition copyJourneys :: "addr \<Rightarrow> store \<Rightarrow> addr \<times> store" where
  "copyJourneys = copy_cell as_journeys OJourneys (copy_each (copy_struct copySteps))"

definition fill_http :: "(string \<rightharpoonup> string) option \<times> http_step list \<times> journey list \<Rightarrow> http_section \<Rightarrow> http_section" where
  "fill_http v r = (case v of (m, ss, js) \<Rightarrow> r\<lparr>ht_headers := headers_of m, ht_requests := ss, ht_journeys := js\<rparr>)"

abbreviation http_shows :: "store \<Rightarrow> addr \<Rightarrow> http_section" where
  "http_shows \<equiv> cell_shows as_http (struct_shows (pair_shows map_shows (pair_shows steps_shows journeys_shows)) fill_http)"

abbreviation http_addrs :: "store \<Rightarrow> addr \<Rightarrow> addr list" where
  "http_addrs \<equiv> cell_addrs as_http (struct_addrs (pair_addrs map_addrs (pair_addrs steps_addrs journeys_addrs)))"

definition copyHTTP :: "addr \<Rightarrow> store \<Rightarrow> addr \<times> store" where
  "copyHTTP = copy_cell as_http OHTTP (copy_struct (copy_pair copyMap (copy_pair copySteps copyJourneys)))"

definition fill_tx :: "arg list \<Rightarrow> tx_statement \<Rightarrow> tx_statement" where
  "fill_tx xs t = t\<lparr>tx_args := xs\<rparr>"

definition fill_query :: "arg list \<times> tx_statement list \<Rightarrow> query \<Rightarrow> query" where
  "fill_query v q = q\<lparr>qu_args := fst v, qu_tx := snd v\<rparr>"

abbreviation args_shows :: "store \<Rightarrow> addr \<Rightarrow> arg list" where
  "args_shows \<equiv> cell_shows as_args leaf_shows"

abbreviation args_addrs :: "store \<Rightarrow> addr \<Rightarrow> addr list" where
  "args_addrs \<equiv> cell_addrs as_args leaf_addrs"

abbreviation query_shows :: "store \<Rightarrow> (addr \<times> addr) \<times> query \<Rightarrow> query" where
  "query_shows \<equiv> struct_shows (pair_shows args_shows (cell_shows as_tx (each_shows (struct_shows args_shows fill_tx)))) fill_query"

abbreviation query_addrs :: "store \<Rightarrow> (addr \<times> addr) \<times> query \<Rightarrow> addr list" where
  "query_addrs \<equiv> struct_addrs (pair_addrs args_addrs (cell_addrs as_tx (each_addrs (struct_addrs args_addrs))))"

definition copyArgs :: "addr \<Rightarrow> store \<Rightarrow> addr \<times> store" where
  "copyArgs = copy_cell as_args OArgs copy_leaf"

definition copyQuery :: "(addr \<times> addr) \<times> query \<Rightarrow> store \<Rightarrow> ((addr \<times> addr) \<times> query) \<times> store" where
  "copyQuery = copy_struct (copy_pair copyArgs (copy_cell as_tx OTx (copy_each (copy_struct copyArgs))))"

definition fill_db :: "query list \<Rightarrow> db_section \<Rightarrow> db_section" where
  "fill_db qs d = d\<lparr>db_queries := qs\<rparr>"

abbreviation db_shows :: "store \<Rightarrow> addr \<Rightarrow> db_section" where
  "db_shows \<equiv> cell_shows as_db (struct_shows (cell_shows as_queries (each_shows query_shows)) fill_db)"

abbreviation db_addrs :: "store \<Rightarrow> addr \<Rightarrow> addr list" where
  "db_addrs \<equiv> cell_addrs as_db (struct_addrs (cell_addrs as_queries (each_addrs query_addrs)))"

definition copyDB :: "addr \<Rightarrow> store \<Rightarrow> addr \<times> store" where
  "copyDB = copy_cell as_db ODB (copy_struct (copy_cell as_queries OQueries (copy_each copyQuery)))"

definition copySampler :: "addr option \<Rightarrow> store \<Rightarrow> addr option \<times> store" where
  "copySampler = copy_opt (copy_cell as_sampler OSampler copy_leaf)"

abbreviation sampler_shows :: "store \<Rightarrow> addr option \<Rightarrow> sampler option" where
  "sampler_shows \<equiv> \<lambda>h. map_option (cell_shows as_sampler leaf_shows h)"

abbreviation sampler_addrs :: "store \<Rightarrow> addr option \<Rightarrow> addr list" where
  "sampler_addrs \<equiv> opt_addrs (cell_addrs as_sampler leaf_addrs)"

definition fill_telemetry :: "sampler option \<times> sampler option \<times> sampler option \<Rightarrow> telemetry \<Rightarrow> telemetry" where
  "fill_telemetry v t = (case v of (p, m, r) \<Rightarrow> t\<lparr>te_postgres := p, te_mysql := m, te_redis := r\<rparr>)"

abbreviation telemetry_shows :: "store \<Rightarrow> addr \<Rightarrow> telemetry" where
  "telemetry_shows \<equiv> cell_shows as_telemetry (struct_shows (pair_shows sampler_shows (pair_shows sampler_shows sampler_shows)) fill_telemetry)"

abbreviation telemetry_addrs :: "store \<Rightarrow> addr \<Rightarrow> addr list" where
  "telemetry_addrs \<equiv> cell_addrs as_telemetry (struct_addrs (pair_addrs sampler_addrs (pair_addrs sampler_addrs sampler_addrs)))"

definition copyTelemetry :: "addr \<Rightarrow> store \<Rightarrow> addr \<times> store" where
  "copyTelemetry = copy_cell as_telemetry OTelemetry (copy_struct (copy_pair copySampler (copy_pair copySampler copySampler)))"

text \<open>The \<open>Config\<close> struct itself: four pointers and the rest.\<close>

type_synonym config_struct = "(addr option \<times> addr option \<times> addr option \<times> addr option) \<times> configuration"

definition fill_config ::
  "http_section option \<times> db_section option \<times> redis_section option \<times> telemetry option \<Rightarrow> configuration \<Rightarrow> configuration" where
  "fill_config v c = (case v of (w, d, r, t) \<Rightarrow> c\<lparr>cf_http := w, cf_db := d, cf_redis := r, cf_telemetry := t\<rparr>)"

definition config_shows :: "store \<Rightarrow> config_struct \<Rightarrow> configuration" where
  "config_shows = struct_shows (pair_shows (\<lambda>h. map_option (http_shows h)) (pair_shows (\<lambda>h. map_option (db_shows h))
     (pair_shows (\<lambda>h. map_option (cell_shows as_redis leaf_shows h)) (\<lambda>h. map_option (telemetry_shows h))))) fill_config"

definition config_addrs :: "store \<Rightarrow> config_struct \<Rightarrow> addr list" where
  "config_addrs = struct_addrs (pair_addrs (opt_addrs http_addrs) (pair_addrs (opt_addrs db_addrs)
     (pair_addrs (opt_addrs (cell_addrs as_redis leaf_addrs)) (opt_addrs telemetry_addrs))))"

definition clone :: "config_struct \<Rightarrow> store \<Rightarrow> config_struct \<times> store" where
  "clone = copy_struct (copy_pair (copy_opt copyHTTP) (copy_pair (copy_opt copyDB)
     (copy_pair (copy_opt (copy_cell as_redis ORedis copy_leaf)) (copy_opt copyTelemetry))))"

section \<open>Overwriting the secrets\<close>

definition mask_headers :: "addr option \<Rightarrow> store \<Rightarrow> store" where
  "mask_headers = mask_opt (mask_own as_map OMap (redactHeaders []))"

definition mask_steps :: "addr \<Rightarrow> store \<Rightarrow> store" where
  "mask_steps = mask_within as_steps (mask_each (mask_struct mask_headers))"

definition mask_http :: "addr \<Rightarrow> store \<Rightarrow> store" where
  "mask_http = mask_within as_http (mask_struct (mask_pair mask_headers (mask_pair mask_steps
     (mask_within as_journeys (mask_each (mask_struct mask_steps))))))"

definition mask_args :: "addr \<Rightarrow> store \<Rightarrow> store" where
  "mask_args = mask_own as_args OArgs redactArgs"

definition mask_query :: "(addr \<times> addr) \<times> query \<Rightarrow> store \<Rightarrow> store" where
  "mask_query = mask_struct (mask_pair mask_args (mask_within as_tx (mask_each (mask_struct mask_args))))"

definition mask_db :: "'u userinfo_lib \<Rightarrow> addr \<Rightarrow> store \<Rightarrow> store" where
  "mask_db lib a h = mask_within as_db (mask_struct (mask_within as_queries (mask_each mask_query))) a
     (mask_own as_db ODB (\<lambda>(q, d). (q, d\<lparr>db_dsn := RedactDSN lib (db_dsn d)\<rparr>)) a h)"

definition mask_redis :: "addr \<Rightarrow> store \<Rightarrow> store" where
  "mask_redis = mask_own as_redis ORedis (\<lambda>r. if rd_password r \<noteq> [] then r\<lparr>rd_password := Redacted\<rparr> else r)"

definition mask_telemetry :: "'u userinfo_lib \<Rightarrow> addr \<Rightarrow> store \<Rightarrow> store" where
  "mask_telemetry lib =
     (let s = mask_opt (mask_own as_sampler OSampler (redact_sampler lib))
      in mask_within as_telemetry (mask_struct (mask_pair s (mask_pair s s))))"

definition mask_config :: "'u userinfo_lib \<Rightarrow> config_struct \<Rightarrow> store \<Rightarrow> store" where
  "mask_config lib = mask_struct (mask_pair (mask_opt mask_http) (mask_pair (mask_opt (mask_db lib))
     (mask_pair (mask_opt mask_redis) (mask_opt (mask_telemetry lib)))))"

definition Redacted_copy :: "'u userinfo_lib \<Rightarrow> config_struct \<Rightarrow> store \<Rightarrow> config_struct \<times> store" where
  "Redacted_copy lib c h = (case clone c h of (out, h') \<Rightarrow> (out, mask_config lib out h'))"

section \<open>The copy is the redaction, and the original stays\<close>

lemma copier_config: "copier config_shows config_addrs clone"
  unfolding config_shows_def config_addrs_def clone_def copyHTTP_def copyDB_def copyQuery_def copyTelemetry_def copySampler_def copyJourneys_def
    copySteps_def copyMap_def copyArgs_def
  by (intro copiers) simp_all

lemmas shown_shapes = shown_cell shown_opt shown_pair shown_struct shown_each copierD(1)[OF copier_leaf]

lemma masker_headers: "masker map_shows map_addrs mask_headers (map_option (redactHeaders []))"
  unfolding mask_headers_def by (intro masker_opt masker_own shown_shapes) (simp_all add: leaf_addrs_def leaf_shows_def)

lemma redact_nil: "redactHeaders [] (headers_of m) = headers_of (map_option (redactHeaders []) m)"
  by (cases m) (simp_all add: redactHeaders_def)

definition redact_step :: "http_step \<Rightarrow> http_step" where
  "redact_step s = s\<lparr>hs_headers := redactHeaders [] (hs_headers s)\<rparr>"

lemma masker_steps: "masker steps_shows steps_addrs mask_steps (map redact_step)"
  unfolding mask_steps_def
  by (intro masker_within masker_each masker_struct[OF masker_headers]) (simp add: redact_step_def fill_step_def redact_nil)

lemma masker_journeys:
  "masker journeys_shows journeys_addrs (mask_within as_journeys (mask_each (mask_struct mask_steps))) (map (\<lambda>j. j\<lparr>jn_steps := map redact_step (jn_steps j)\<rparr>))"
  by (intro masker_within masker_each masker_struct[OF masker_steps]) (simp add: fill_journey_def)

lemma masker_http: "masker http_shows http_addrs mask_http (on_headers (redactHeaders []))"
  unfolding mask_http_def
  by (intro masker_within masker_struct[OF masker_pair[OF masker_headers masker_pair[OF masker_steps masker_journeys]]])
    (auto simp: fill_http_def on_headers_def redact_nil redact_step_def Let_def)

lemma masker_args: "masker args_shows args_addrs mask_args redactArgs"
  unfolding mask_args_def by (intro masker_own shown_shapes) (simp_all add: leaf_addrs_def leaf_shows_def)

lemma masker_query: "masker query_shows query_addrs mask_query (on_args redactArgs)"
proof -
  have "masker (cell_shows as_tx (each_shows (struct_shows args_shows fill_tx))) (cell_addrs as_tx (each_addrs (struct_addrs args_addrs)))
      (mask_within as_tx (mask_each (mask_struct mask_args))) (map (\<lambda>t. t\<lparr>tx_args := redactArgs (tx_args t)\<rparr>))"
    by (intro masker_within masker_each masker_struct[OF masker_args]) (simp add: fill_tx_def)
  from masker_struct[OF masker_pair[OF masker_args this], of "on_args redactArgs" fill_query] show ?thesis
    unfolding mask_query_def by (auto simp: fill_query_def on_args_def)
qed

lemma masker_db: "masker db_shows db_addrs (mask_db lib) (\<lambda>d. d\<lparr>db_dsn := RedactDSN lib (db_dsn d), db_queries := map (on_args redactArgs) (db_queries d)\<rparr>)"
proof -
  let ?inner = "\<lambda>d. d\<lparr>db_queries := map (on_args redactArgs) (db_queries d)\<rparr>" and ?own = "\<lambda>d. d\<lparr>db_dsn := RedactDSN lib (db_dsn d)\<rparr>"
  have within: "masker db_shows db_addrs (mask_within as_db (mask_struct (mask_within as_queries (mask_each mask_query)))) ?inner"
    by (intro masker_within masker_struct[OF masker_within[OF masker_each[OF masker_query]]]) (simp add: fill_db_def)
  have own: "masker db_shows db_addrs (mask_own as_db ODB (\<lambda>(q, d). (q, ?own d))) ?own"
    by (intro masker_own shown_shapes) (auto simp: struct_addrs_def struct_shows_def fill_db_def split: prod.splits)
  from masker_then[OF own within] show ?thesis unfolding mask_db_def by simp
qed

lemma masker_redis: "masker (cell_shows as_redis leaf_shows) (cell_addrs as_redis leaf_addrs) mask_redis
    (\<lambda>r. r\<lparr>rd_password := (if rd_password r \<noteq> [] then Redacted else [])\<rparr>)"
  unfolding mask_redis_def by (intro masker_own shown_shapes) (simp_all add: leaf_addrs_def leaf_shows_def)

lemma masker_telemetry: "masker telemetry_shows telemetry_addrs (mask_telemetry lib)
    (\<lambda>t. t\<lparr>te_postgres := map_option (redact_sampler lib) (te_postgres t), te_mysql := map_option (redact_sampler lib) (te_mysql t),
       te_redis := map_option (redact_sampler lib) (te_redis t)\<rparr>)"
proof -
  have one: "masker sampler_shows sampler_addrs (mask_opt (mask_own as_sampler OSampler (redact_sampler lib))) (map_option (redact_sampler lib))"
    by (intro masker_opt masker_own shown_shapes) (simp_all add: leaf_addrs_def leaf_shows_def)
  show ?thesis unfolding mask_telemetry_def Let_def
    by (intro masker_within masker_struct[OF masker_pair[OF one masker_pair[OF one one]]]) (auto simp: fill_telemetry_def)
qed

lemma masker_config: "masker config_shows config_addrs (mask_config lib) (redact_config lib)"
  unfolding config_shows_def config_addrs_def mask_config_def
  by (intro masker_struct[OF masker_pair[OF masker_opt[OF masker_http] masker_pair[OF masker_opt[OF masker_db]
      masker_pair[OF masker_opt[OF masker_redis] masker_opt[OF masker_telemetry]]]]]) (auto simp: fill_config_def redact_config_def)

interpretation config_copy: copier config_shows config_addrs clone
  by (rule copier_config)

interpretation config_mask: masker config_shows config_addrs "mask_config lib" "redact_config lib" for lib
  by (rule masker_config)

text \<open>Two queries that share one array of arguments, which a plain copy of the structs would go on sharing.\<close>

definition shared_store :: store where
  "shared_store = \<lparr>st_next = 4, st_obj = (\<lambda>_. OTx [])(0 := OArgs [\<lparr>ar_value = YStr ''key'', ar_secret = True\<rparr>],
     2 := OQueries [((0, 1), demo_query), ((0, 1), demo_query)], 3 := ODB (2, demo_db))\<rparr>"

definition shared_config :: config_struct where
  "shared_config = ((None, Some 3, None, None), demo)"

text \<open>C36. The redacted configuration is a copy. Whatever maps, arrays and sections the configuration of the run shares inside itself, every
  object that was in the store is as it was, so the run still sees its secrets; and the copy shows exactly the redaction.\<close>

theorem redaction_copies:
  assumes "set (config_addrs h c) \<subseteq> {..<st_next h}" "Redacted_copy lib c h = (out, h')"
  shows "config_shows h' out = redact_config lib (config_shows h c) \<and> config_shows h' c = config_shows h c \<and>
    (\<forall>a < st_next h. st_obj h' a = st_obj h a)"
proof -
  obtain h1 where cl: "clone c h = (out, h1)" and m: "h' = mask_config lib out h1"
    using assms(2) by (auto simp: Redacted_copy_def split: prod.splits)
  have f: "below (st_next h) h h1" "config_shows h1 out = config_shows h c" "set (config_addrs h1 out) \<subseteq> {st_next h..<st_next h1}"
    "distinct (config_addrs h1 out)" using config_copy.copied[OF assms(1) cl] by simp_all
  have i: "\<forall>a. a \<notin> set (config_addrs h1 out) \<longrightarrow> st_obj h' a = st_obj h1 a" "config_shows h' out = redact_config lib (config_shows h1 out)"
    using config_mask.masked[OF f(4), of lib] unfolding m by blast+
  have kept: "st_obj h' a = st_obj h a" if "a < st_next h" for a
  proof -
    have "a \<notin> set (config_addrs h1 out)" using f(3) that by fastforce
    then show ?thesis using i(1) f(1) that by (simp add: below_def)
  qed
  then have "same_on (config_addrs h c) h h'" unfolding same_on_def using assms(1) by blast
  from config_copy.frame[OF this] show ?thesis using kept i(2) f(2) by simp
qed

theorem redaction_copies_witness:
  "config_shows (snd (Redacted_copy no_urls shared_config shared_store)) (fst (Redacted_copy no_urls shared_config shared_store)) =
     redact_config no_urls (config_shows shared_store shared_config) \<and>
   st_obj (snd (Redacted_copy no_urls shared_config shared_store)) 0 = OArgs [\<lparr>ar_value = YStr ''key'', ar_secret = True\<rparr>]"
proof -
  have "set (config_addrs shared_store shared_config) \<subseteq> {..<st_next shared_store}"
    by (simp add: config_addrs_def shared_store_def shared_config_def struct_addrs_def pair_addrs_def opt_addrs_def cell_addrs_def
        each_addrs_def leaf_addrs_def)
  from redaction_copies[OF this surjective_pairing, of no_urls] show ?thesis by (simp add: shared_store_def)
qed

end
