(* ===== verification/Report.thy ===== *)
theory Report
  imports Executor Validated
begin

text \<open>
  The result document and what is concluded from it: \<open>internal/result/build.go\<close> and
  \<open>analyse.go\<close>, and the exit code of a finished run from \<open>internal/cli/commands.go\<close>. Numbers
  are exact reals, truncated where the code converts them to integers; \<open>%.1f\<close> and its kin
  print a real to a fixed number of places. Distributions, operation summaries and buckets
  have the same fields in \<open>internal/result\<close> and in \<open>internal/metrics\<close> and are shared. The text of
  the document and the identity of tool, machine and configuration are in \<open>Document\<close>.
\<close>

section \<open>Printing\<close>

definition round_even :: "real \<Rightarrow> int" where
  "round_even x = (let f = \<lfloor>x\<rfloor>; rest = x - of_int f
     in if rest < 1 / 2 \<or> (rest = 1 / 2 \<and> even f) then f else f + 1)"

text \<open>\<open>%.nf\<close>\<close>

definition fixed :: "nat \<Rightarrow> real \<Rightarrow> string" where
  "fixed n x =
     (let k = nat (round_even (\<bar>x\<bar> * 10 ^ n)); whole = nat_digits (k div 10 ^ n);
          part = nat_digits (k mod 10 ^ n); pad = replicate (n - length part) CHR ''0''
      in (if x < 0 then ''-'' else []) @ whole @ (if n = 0 then [] else ''.'' @ pad @ part))"

section \<open>The document\<close>

definition SchemaVersion :: string where "SchemaVersion = ''1.0''"

datatype status = StatusCompleted | StatusInterrupted | StatusAborted | StatusFailed

record run_doc =
  ru_id :: string
  ru_name :: string
  ru_status :: status
  ru_duration_ms :: real
  ru_elapsed_ms :: real
  ru_bucket_ms :: real
  ru_bucket_count :: int
  ru_warmup_ms :: real
  ru_min_samples :: int
  ru_seed :: int
  ru_arrival :: string
  ru_interrupted :: string
  ru_tags :: "string \<rightharpoonup> string"

record stage_doc =
  sd_duration_ms :: real
  sd_target :: float64

record executor_stats =
  es_type :: string
  es_offered :: int
  es_dispatched :: int
  es_dropped :: int
  es_dropped_ratio :: real
  es_max_in_flight :: int
  es_peak_in_flight :: int
  es_dispatch_lag :: quantiles
  es_stages :: "stage_doc list"

record http_detail =
  hd_statuses :: "(string \<times> int) list"
  hd_phases :: "(string \<times> quantiles) list"
  hd_reuse :: real
  hd_insecure :: bool

record sql_pool =
  sp_max_open :: int
  sp_peak_in_use :: int
  sp_wait_count :: int
  sp_wait_ms :: real

record sql_detail =
  sq_reads :: int
  sq_writes :: int
  sq_pool :: "sql_pool option"

record redis_pool_doc =
  rq_size :: int
  rq_hits :: int
  rq_misses :: int
  rq_timeouts :: int

record redis_detail =
  rk_reads :: int
  rk_writes :: int
  rk_pool :: "redis_pool_doc option"

record runner_doc =
  rr_name :: string
  rr_kind :: string
  rr_driver :: string
  rr_targets :: "target list"
  rr_labels :: "string list"
  rr_executor :: "executor_stats option"
  rr_summary :: op_summary
  rr_label_summaries :: "(string \<times> op_summary) list"
  rr_sketches :: "(string \<times> encoded_sketch) list"
  rr_buckets :: "bucket_summary list"
  rr_label_buckets :: "(string \<times> bucket_summary list) list"
  rr_http :: "http_detail option"
  rr_sql :: "sql_detail option"
  rr_redis :: "redis_detail option"

datatype severity = SeverityInfo | SeverityWarn | SeverityError

datatype detail = DText string | DNumber real

record finding =
  fi_code :: string
  fi_severity :: severity
  fi_message :: string
  fi_detail :: "(string \<times> detail) list"
  fi_fix :: string

datatype state = ValidityValid | ValidityDegraded | ValidityInvalid

record validity =
  va_state :: state
  va_findings :: "finding list"

record slo_check =
  sc_runner :: string
  sc_metric :: string
  sc_budget :: float64
  sc_actual :: real
  sc_pass :: bool

record slo_outcome =
  sl_pass :: bool
  sl_checks :: "slo_check list"

datatype bottleneck = BottleneckClient | BottleneckNone | BottleneckInconclusive
datatype confidence = ConfidenceHigh | ConfidenceMedium | ConfidenceLow

datatype evidence_data = NoData | DetailData "(string \<times> detail) list" | CheckData slo_check

record evidence =
  ev_kind :: string
  ev_text :: string
  ev_data :: evidence_data

record verdict =
  vd_bottleneck :: bottleneck
  vd_confidence :: confidence
  vd_summary :: string
  vd_evidence :: "evidence list"
  vd_caveat :: string
  vd_next_steps :: "string list"

record analysis =
  an_validity :: validity
  an_slo :: slo_outcome
  an_verdict :: verdict

record result_doc =
  rs_schema :: string
  rs_run :: run_doc
  rs_runners :: "runner_doc list"
  rs_analysis :: analysis
  rs_warnings :: "finding list"

section \<open>Building\<close>

text \<open>\<open>float64(int64(v*1000+0.5)) / 1000\<close>: the conversion truncates towards zero.\<close>

definition go_trunc :: "real \<Rightarrow> int" where
  "go_trunc x = (if 0 \<le> x then \<lfloor>x\<rfloor> else \<lceil>x\<rceil>)"

definition round_ms :: "real \<Rightarrow> real" where
  "round_ms v = of_int (go_trunc (v * 1000 + 1 / 2)) / 1000"

definition convertQuantiles :: "quantiles \<Rightarrow> quantiles" where
  "convertQuantiles q = \<lparr>q_p50 = round_ms (q_p50 q), q_p90 = round_ms (q_p90 q), q_p95 = round_ms (q_p95 q),
     q_p99 = round_ms (q_p99 q), q_p999 = round_ms (q_p999 q), q_max = round_ms (q_max q),
     q_mean = round_ms (q_mean q)\<rparr>"

definition convertSummary :: "op_summary \<Rightarrow> op_summary" where
  "convertSummary s = s\<lparr>os_response := convertQuantiles (os_response s),
     os_service := convertQuantiles (os_service s), os_wait := convertQuantiles (os_wait s)\<rparr>"

definition convertBuckets :: "bucket_summary list \<Rightarrow> bucket_summary list" where
  "convertBuckets bs = map (\<lambda>b. b\<lparr>bs_response := convertQuantiles (bs_response b),
     bs_service := convertQuantiles (bs_service b), bs_wait := convertQuantiles (bs_wait b)\<rparr>) bs"

record runner_input =
  ri_snapshot :: snapshot
  ri_stats :: stats
  ri_driver :: string
  ri_targets :: "target list"
  ri_http :: "http_detail option"
  ri_sql :: "sql_detail option"
  ri_redis :: "redis_detail option"
  ri_stages :: "stage_doc list"

fun kind_str :: "kind \<Rightarrow> string" where
  "kind_str KindApp = ''app''"
| "kind_str KindStorage = ''storage''"
| "kind_str KindEmpty = []"

definition buildRunner :: "runner_input \<Rightarrow> runner_doc" where
  "buildRunner inp =
     (let s = ri_snapshot inp; st = ri_stats inp
      in \<lparr>rr_name = sn_runner s, rr_kind = kind_str (sn_kind s), rr_driver = ri_driver inp,
          rr_targets = ri_targets inp, rr_labels = sn_labels s,
          rr_executor = Some \<lparr>es_type = ''arrival-rate'', es_offered = st_offered st,
            es_dispatched = st_dispatched st, es_dropped = st_dropped st,
            es_dropped_ratio = (if 0 < st_offered st
              then of_int (st_dropped st) / of_int (st_offered st) else 0),
            es_max_in_flight = int (st_max st), es_peak_in_flight = st_peak st,
            es_dispatch_lag = convertQuantiles (st_lag st), es_stages = ri_stages inp\<rparr>,
          rr_summary = convertSummary (sn_summary s),
          rr_label_summaries = map (map_prod id convertSummary) (sn_label_summaries s),
          rr_sketches = sn_sketches s, rr_buckets = convertBuckets (sn_buckets s),
          rr_label_buckets = map (map_prod id convertBuckets) (sn_label_buckets s),
          rr_http = ri_http inp, rr_sql = ri_sql inp, rr_redis = ri_redis inp\<rparr>)"

section \<open>Validity\<close>

definition mean :: "real list \<Rightarrow> real" where
  "mean v = (if v = [] then 0 else sum_list v / real (length v))"

definition serviceTimeRose :: "runner_doc \<Rightarrow> bool" where
  "serviceTimeRose rn =
     (let vals = [q_p99 (bs_service b). b \<leftarrow> rr_buckets rn, \<not> (bs_warmup b \<or> bs_insufficient b \<or> bs_n b = 0)];
          third = length vals div 3;
          early = mean (take third vals); late = mean (drop (length vals - third) vals)
      in if length vals < 6 then False
         else if early \<le> 0 then 0 < late
         else early * (5 / 4) < late)"

definition littlesLawHint :: "runner_doc \<Rightarrow> executor_stats \<Rightarrow> string" where
  "littlesLawHint rn ex =
     (let rate = os_rps (rr_summary rn); p99 = q_p99 (os_service (rr_summary rn));
          needed = go_trunc (rate * (p99 / 1000)) + 1;
          needed = (if needed \<le> es_max_in_flight ex then es_max_in_flight ex * 2 else needed)
      in ''raise '' @ rr_name rn @ ''.executor.max_in_flight to about '' @ itoa needed
         @ '' (Little's Law: '' @ fixed 0 rate @ '' req/s x '' @ fixed 0 p99 @ ''ms service time)'')"

definition mk_finding :: "string \<Rightarrow> severity \<Rightarrow> string \<Rightarrow> (string \<times> detail) list \<Rightarrow> string \<Rightarrow> finding" where
  "mk_finding c s m d f = \<lparr>fi_code = c, fi_severity = s, fi_message = m, fi_detail = d, fi_fix = f\<rparr>"

definition lag_limit :: "run_doc \<Rightarrow> real" where
  "lag_limit run = (if 5 < ru_bucket_ms run / 20 then ru_bucket_ms run / 20 else 5)"

definition lag_findings :: "real \<Rightarrow> runner_doc \<Rightarrow> executor_stats \<Rightarrow> finding list" where
  "lag_findings limit rn ex =
     (let lag = q_p99 (es_dispatch_lag ex)
      in if limit < lag
         then [mk_finding ''GENERATOR_BEHIND'' SeverityError
           (''the '' @ rr_name rn @ '' runner dispatched arrivals '' @ fixed 1 lag
            @ ''ms late at p99, above the '' @ fixed 1 limit
            @ ''ms limit: the generator missed its own schedule, so every latency it reports includes that delay'')
           [(''runner'', DText (rr_name rn)), (''dispatch_lag_p99_ms'', DNumber lag), (''limit_ms'', DNumber limit)]
           ''lower the rate, raise max_in_flight, or run the generator on a less loaded machine'']
         else [])"

definition drop_findings :: "runner_doc \<Rightarrow> executor_stats \<Rightarrow> finding list" where
  "drop_findings rn ex =
     (let ratio = es_dropped_ratio ex;
          detail = [(''runner'', DText (rr_name rn)), (''dropped_ratio'', DNumber ratio)];
          head = ''the '' @ rr_name rn @ '' runner dropped '' @ fixed 1 (ratio * 100)
      in if ratio \<le> 1 / 100 then []
         else if serviceTimeRose rn
         then [mk_finding ''TARGET_SATURATED'' SeverityWarn
           (head @ ''% of arrivals while service time rose: the target could not keep up'') detail
           ''this is a finding about the target, not a fault in the run; lower the rate to measure below saturation'']
         else [mk_finding ''CLIENT_CAPPED'' SeverityError
           (head @ ''% of arrivals while service time stayed flat: the ceiling was ours, not the target's'')
           detail (littlesLawHint rn ex)])"

definition host_findings :: "runner_doc \<Rightarrow> finding list" where
  "host_findings rn = (case List.find (\<lambda>t. tg_scope t = ScopeLoopback) (rr_targets rn) of
      None \<Rightarrow> []
    | Some t \<Rightarrow> [mk_finding ''SAME_HOST_TARGET'' SeverityWarn
        (tg_host t @ '' resolves to loopback, so the generator and the target shared this machine's CPU'') []
        ''results are indicative rather than a capacity number; run the generator on a separate host to measure capacity''])"

definition limited_ratio :: "runner_doc \<Rightarrow> http_detail \<Rightarrow> real option" where
  "limited_ratio rn h =
     (let n = (case map_of (hd_statuses h) ''429'' of None \<Rightarrow> 0 | Some k \<Rightarrow> k)
      in if 0 < n \<and> 0 < os_n (rr_summary rn) then Some (of_int n / of_int (os_n (rr_summary rn))) else None)"

definition http_findings :: "runner_doc \<Rightarrow> finding list" where
  "http_findings rn = (case rr_http rn of
      None \<Rightarrow> []
    | Some h \<Rightarrow>
        (if hd_insecure h
         then [mk_finding ''INSECURE_TLS'' SeverityWarn ''certificate verification was disabled for this run'' []
               ''remove insecure_skip_verify, or supply the CA bundle with tls.ca_file'']
         else [])
        @ (case limited_ratio rn h of
             None \<Rightarrow> []
           | Some ratio \<Rightarrow>
               if 1 / 20 < ratio
               then [mk_finding ''RATE_LIMITED'' SeverityWarn
                 (fixed 0 (ratio * 100) @ ''% of responses were 429: this run measured the rate limiter, not the service'') []
                 ''lower the rate below the limit, or have the limiter exempt the test's user agent'']
               else []))"

text \<open>A runner without executor statistics is skipped altogether.\<close>

definition runner_findings :: "run_doc \<Rightarrow> runner_doc \<Rightarrow> finding list" where
  "runner_findings run rn = (case rr_executor rn of
      None \<Rightarrow> []
    | Some ex \<Rightarrow> lag_findings (lag_limit run) rn ex @ drop_findings rn ex @ host_findings rn @ http_findings rn)"

fun dedupe :: "(string \<times> string) set \<Rightarrow> finding list \<Rightarrow> finding list" where
  "dedupe seen [] = []"
| "dedupe seen (f # fs) =
     (if (fi_code f, fi_message f) \<in> seen then dedupe seen fs
      else f # dedupe (insert (fi_code f, fi_message f) seen) fs)"

definition dedupeFindings :: "finding list \<Rightarrow> finding list" where
  "dedupeFindings fs = dedupe {} fs"

text \<open>The loop over the severities: an error ends it, a warning degrades.\<close>

fun judge_state :: "state \<Rightarrow> finding list \<Rightarrow> state" where
  "judge_state st [] = st"
| "judge_state st (f # fs) = (case fi_severity f of
      SeverityError \<Rightarrow> ValidityInvalid
    | SeverityWarn \<Rightarrow> judge_state ValidityDegraded fs
    | SeverityInfo \<Rightarrow> judge_state st fs)"

definition evaluateValidity :: "run_doc \<Rightarrow> runner_doc list \<Rightarrow> validity" where
  "evaluateValidity run rns =
     (let found = concat (map (runner_findings run) rns)
            @ (if ru_status run = StatusAborted
               then [mk_finding ''RUN_ABORTED'' SeverityWarn
                 ''the abort guard stopped this run early, so it covers less than the configured duration'' [] []]
               else []);
          fs = dedupeFindings found
      in \<lparr>va_state = judge_state ValidityValid fs, va_findings = fs\<rparr>)"

section \<open>Budgets\<close>

definition slo_add :: "slo_outcome \<Rightarrow> string \<Rightarrow> string \<Rightarrow> float64 \<Rightarrow> real \<Rightarrow> slo_outcome" where
  "slo_add s runner metric budget actual =
     (let ok = f_le (Fin actual) budget
      in s\<lparr>sl_pass := (sl_pass s \<and> ok), sl_checks := sl_checks s @
          [\<lparr>sc_runner = runner, sc_metric = metric, sc_budget = budget, sc_actual = actual, sc_pass = ok\<rparr>]\<rparr>)"

definition check_budget :: "slo \<Rightarrow> slo_outcome \<Rightarrow> runner_doc \<Rightarrow> slo_outcome" where
  "check_budget budgets s rn =
     (let t = slo_for budgets (rr_name rn); sum = rr_summary rn; n = rr_name rn;
          s = (case so_p95 t of None \<Rightarrow> s
               | Some d \<Rightarrow> slo_add s n ''p95'' (Fin (ms d)) (q_p95 (os_response sum)));
          s = (case so_p99 t of None \<Rightarrow> s
               | Some d \<Rightarrow> slo_add s n ''p99'' (Fin (ms d)) (q_p99 (os_response sum)));
          s = (case so_error_rate t of None \<Rightarrow> s
               | Some r \<Rightarrow> slo_add s n ''error_rate'' r (os_error_ratio sum))
      in s)"

definition evaluateSLO :: "configuration option \<Rightarrow> runner_doc list \<Rightarrow> slo_outcome" where
  "evaluateSLO cfg rns = (case cfg of
      None \<Rightarrow> \<lparr>sl_pass = True, sl_checks = []\<rparr>
    | Some c \<Rightarrow> if slo_zero (cf_slo c) then \<lparr>sl_pass = True, sl_checks = []\<rparr>
                else foldl (check_budget (cf_slo c)) \<lparr>sl_pass = True, sl_checks = []\<rparr> rns)"

section \<open>The verdict\<close>

definition StandingCaveat :: string where
  "StandingCaveat = ''Shared-clock correlation shows association, not causation.''"

definition validity_evidence :: "evidence_data \<Rightarrow> finding \<Rightarrow> evidence" where
  "validity_evidence d f = \<lparr>ev_kind = ''validity'', ev_text = fi_message f, ev_data = d\<rparr>"

definition slo_evidence :: "(float64 \<Rightarrow> string) \<Rightarrow> slo_check \<Rightarrow> evidence" where
  "slo_evidence show c = \<lparr>ev_kind = ''slo'',
     ev_text = sc_runner c @ '' '' @ sc_metric c @ '' was '' @ fixed 1 (sc_actual c)
       @ '' against a budget of '' @ show (sc_budget c),
     ev_data = CheckData c\<rparr>"

definition invalid_verdict :: "validity \<Rightarrow> verdict" where
  "invalid_verdict v =
     (let errors = List.filter (\<lambda>f. fi_severity f = SeverityError) (va_findings v)
      in \<lparr>vd_bottleneck = BottleneckClient, vd_confidence = ConfidenceHigh,
          vd_summary = ''This run is invalid: the load generator, not the target, set the pace. Its latency numbers describe TracePoint's own delay and must not be read as a measurement of the target.'',
          vd_evidence = map (\<lambda>f. validity_evidence (DetailData (fi_detail f)) f) errors, vd_caveat = StandingCaveat,
          vd_next_steps = map fi_fix (List.filter (\<lambda>f. fi_fix f \<noteq> []) errors)
            @ [''re-run once the generator can keep to its schedule, then read the result'']\<rparr>)"

definition app_runner :: "runner_doc list \<Rightarrow> runner_doc option" where
  "app_runner rns = List.find (\<lambda>r. rr_kind r = ''app'') rns"

definition breach_verdict :: "(float64 \<Rightarrow> string) \<Rightarrow> slo_outcome \<Rightarrow> verdict" where
  "breach_verdict show s = \<lparr>vd_bottleneck = BottleneckInconclusive, vd_confidence = ConfidenceMedium,
     vd_summary = ''The target missed its latency or error budget. Which tier is responsible cannot be attributed from this run: tier attribution needs storage probes and server-side telemetry on the same clock.'',
     vd_evidence = map (slo_evidence show) (List.filter (\<lambda>c. \<not> sc_pass c) (sl_checks s)),
     vd_caveat = StandingCaveat,
     vd_next_steps = [''add a db or redis section so the storage tiers are probed alongside the application'',
       ''enable telemetry so the datastore's own view corroborates the latency'']\<rparr>"

definition empty_verdict :: verdict where
  "empty_verdict = \<lparr>vd_bottleneck = BottleneckInconclusive, vd_confidence = ConfidenceLow,
     vd_summary = ''No operations completed, so there is nothing to conclude.'', vd_evidence = [],
     vd_caveat = StandingCaveat,
     vd_next_steps = [''check the target and the configuration with `tracepoint validate`'']\<rparr>"

definition sample_evidence :: "runner_doc \<Rightarrow> evidence" where
  "sample_evidence app =
     (let s = rr_summary app
      in \<lparr>ev_kind = ''sample_size'',
          ev_text = itoa (os_n s) @ '' operations at '' @ fixed 0 (os_rps s) @ ''/s, p99 ''
            @ fixed 1 (q_p99 (os_response s)) @ ''ms, '' @ fixed 2 (os_error_ratio s * 100) @ ''% errors'',
          ev_data = NoData\<rparr>)"

definition quiet_verdict :: "runner_doc option \<Rightarrow> verdict" where
  "quiet_verdict app = \<lparr>vd_bottleneck = BottleneckNone, vd_confidence = ConfidenceMedium,
     vd_summary = ''Nothing stood out: the run stayed within its budgets and the generator kept to its schedule.'',
     vd_evidence = (case app of None \<Rightarrow> [] | Some a \<Rightarrow> [sample_evidence a]),
     vd_caveat = StandingCaveat, vd_next_steps = []\<rparr>"

text \<open>How \<open>%.1f\<close> prints a budget, which may be any \<open>float64\<close>, is a parameter.\<close>

definition buildVerdict :: "(float64 \<Rightarrow> string) \<Rightarrow> runner_doc list \<Rightarrow> validity \<Rightarrow> slo_outcome \<Rightarrow> verdict" where
  "buildVerdict show rns va sl =
     (if va_state va = ValidityInvalid then invalid_verdict va
      else let app = app_runner rns;
               v = (if \<not> sl_pass sl then breach_verdict show sl
                    else if (case app of None \<Rightarrow> False | Some a \<Rightarrow> os_n (rr_summary a) = 0) then empty_verdict
                    else quiet_verdict app)
           in if va_state va = ValidityDegraded
              then v\<lparr>vd_confidence := ConfidenceLow,
                     vd_evidence := vd_evidence v @ map (validity_evidence NoData) (va_findings va)\<rparr>
              else v)"

definition Analyse :: "(float64 \<Rightarrow> string) \<Rightarrow> run_doc \<Rightarrow> runner_doc list \<Rightarrow> configuration option \<Rightarrow> analysis" where
  "Analyse show run rns cfg =
     (let va = evaluateValidity run rns; sl = evaluateSLO cfg rns
      in \<lparr>an_validity = va, an_slo = sl, an_verdict = buildVerdict show rns va sl\<rparr>)"

section \<open>The result\<close>

record build_input =
  bi_id :: string
  bi_config :: "configuration option"
  bi_seed :: int
  bi_elapsed :: duration
  bi_status :: status
  bi_interrupted :: string
  bi_runners :: "runner_input list"
  bi_warnings :: "finding list"

definition run_of :: "build_input \<Rightarrow> runner_doc list \<Rightarrow> run_doc" where
  "run_of inp rns =
     (let cfg = map_option cf_run (bi_config inp);
          num = (\<lambda>f. case cfg of None \<Rightarrow> 0 | Some r \<Rightarrow> ms (f r));
          text = (\<lambda>f. case cfg of None \<Rightarrow> [] | Some r \<Rightarrow> f r)
      in \<lparr>ru_id = bi_id inp, ru_name = text rn_name, ru_status = bi_status inp, ru_duration_ms = num rn_duration,
          ru_elapsed_ms = (if 0 < bi_elapsed inp then ms (bi_elapsed inp) else 0),
          ru_bucket_ms = num rn_bucket,
          ru_bucket_count = (case rns of [] \<Rightarrow> 0 | r # _ \<Rightarrow> int (length (rr_buckets r))),
          ru_warmup_ms = num rn_warmup,
          ru_min_samples = (case cfg of None \<Rightarrow> 0 | Some r \<Rightarrow> rn_min_samples r),
          ru_seed = bi_seed inp, ru_arrival = text rn_arrival, ru_interrupted = bi_interrupted inp,
          ru_tags = (case cfg of None \<Rightarrow> Map.empty | Some r \<Rightarrow> rn_tags r)\<rparr>)"

definition Build :: "(float64 \<Rightarrow> string) \<Rightarrow> build_input \<Rightarrow> result_doc" where
  "Build show inp =
     (let rns = map buildRunner (bi_runners inp); run = run_of inp rns
      in \<lparr>rs_schema = SchemaVersion, rs_run = run, rs_runners = rns,
          rs_analysis = Analyse show run rns (bi_config inp), rs_warnings = bi_warnings inp\<rparr>)"

text \<open>The check of the schema version in \<open>Decode\<close>; \<open>None\<close> lets the document be read.\<close>

definition major :: "string \<Rightarrow> string" where
  "major v = takeWhile (\<lambda>c. c \<noteq> CHR ''.'') v"

definition check_schema :: "string \<Rightarrow> coded_error option" where
  "check_schema v =
     (if v = [] then Some (new_error CodeResultParse)
      else if major v \<noteq> major SchemaVersion then Some (new_error CodeResultSchemaUnsupported)
      else None)"

definition SortedLabels :: "runner_doc \<Rightarrow> string list" where
  "SortedLabels r = sort (remdups (map fst (rr_label_summaries r)))"

definition RunnerByName :: "result_doc \<Rightarrow> string \<Rightarrow> runner_doc option" where
  "RunnerByName r name = List.find (\<lambda>rn. rr_name rn = name) (rs_runners r)"

section \<open>The exit code of a finished run\<close>

definition outcomeExit :: "result_doc \<Rightarrow> bool \<Rightarrow> int" where
  "outcomeExit r allowInvalid =
     (if va_state (an_validity (rs_analysis r)) = ValidityInvalid \<and> \<not> allowInvalid then ExitInvalid
      else if \<not> sl_pass (an_slo (rs_analysis r)) then ExitBreach
      else ExitOK)"

end
