(* ===== verification/ReportFacts.thy ===== *)
theory ReportFacts
  imports Report
begin

text \<open>
  What the analysis of a run means: when a run is invalid or degraded, when it meets its
  budgets, the exit code that follows, what the verdict may say, and how little rounding
  changes a latency.
\<close>

section \<open>Severities\<close>

lemma judge_state_rule:
  "judge_state st fs =
     (if SeverityError \<in> fi_severity ` set fs then ValidityInvalid
      else if SeverityWarn \<in> fi_severity ` set fs then ValidityDegraded
      else st)"
  by (induction st fs rule: judge_state.induct) (auto split: severity.splits)

text \<open>The severity of a finding is that of its code, so dropping repetitions loses none.\<close>

definition code_severity :: "string \<Rightarrow> severity" where
  "code_severity c = (if c \<in> {''GENERATOR_BEHIND'', ''CLIENT_CAPPED''} then SeverityError else SeverityWarn)"

lemma dedupe_keys:
  "(\<lambda>f. (fi_code f, fi_message f)) ` set (dedupe seen fs) = (\<lambda>f. (fi_code f, fi_message f)) ` set fs - seen"
  by (induction seen fs rule: dedupe.induct) auto

lemma dedupe_subset: "set (dedupe seen fs) \<subseteq> set fs"
  by (induction seen fs rule: dedupe.induct) auto

lemma dedupe_codes: "fi_code ` set (dedupeFindings fs) = fi_code ` set fs"
proof -
  have "fst ` (\<lambda>f. (fi_code f, fi_message f)) ` set (dedupe {} fs) = fst ` (\<lambda>f. (fi_code f, fi_message f)) ` set fs"
    by (simp only: dedupe_keys Diff_empty)
  then show ?thesis by (simp add: dedupeFindings_def image_image)
qed

lemma dedupe_distinct: "distinct (map (\<lambda>f. (fi_code f, fi_message f)) (dedupe seen fs))"
proof (induction seen fs rule: dedupe.induct)
  case (2 seen f fs)
  have "(fi_code f, fi_message f) \<notin> (\<lambda>f. (fi_code f, fi_message f)) ` set (dedupe (insert (fi_code f, fi_message f) seen) fs)"
    by (simp only: dedupe_keys) simp
  with 2 show ?case by auto
qed simp

lemma mk_finding_sel [simp]:
  "fi_code (mk_finding c s m d f) = c" "fi_severity (mk_finding c s m d f) = s"
  by (simp_all add: mk_finding_def)

section \<open>Which findings a runner has\<close>

definition behind :: "run_doc \<Rightarrow> runner_doc \<Rightarrow> bool" where
  "behind run rn = (case rr_executor rn of None \<Rightarrow> False
     | Some ex \<Rightarrow> max 5 (ru_bucket_ms run / 20) < q_p99 (es_dispatch_lag ex))"

definition shedding :: "runner_doc \<Rightarrow> bool" where
  "shedding rn = (case rr_executor rn of None \<Rightarrow> False | Some ex \<Rightarrow> 1 / 100 < es_dropped_ratio ex)"

definition same_host :: "runner_doc \<Rightarrow> bool" where
  "same_host rn \<longleftrightarrow> (\<exists>t \<in> set (rr_targets rn). tg_scope t = ScopeLoopback)"

definition limited :: "runner_doc \<Rightarrow> bool" where
  "limited rn = (case rr_http rn of None \<Rightarrow> False
     | Some h \<Rightarrow> (case limited_ratio rn h of None \<Rightarrow> False | Some x \<Rightarrow> 1 / 20 < x))"

definition unverified :: "runner_doc \<Rightarrow> bool" where
  "unverified rn = (case rr_http rn of None \<Rightarrow> False | Some h \<Rightarrow> hd_insecure h)"

lemma lag_limit_max: "lag_limit run = max 5 (ru_bucket_ms run / 20)"
  by (simp add: lag_limit_def)

lemma lag_codes: "fi_code ` set (lag_findings l rn ex) = (if l < q_p99 (es_dispatch_lag ex) then {''GENERATOR_BEHIND''} else {})"
  by (simp add: lag_findings_def Let_def)

lemma drop_codes: "fi_code ` set (drop_findings rn ex) =
   (if es_dropped_ratio ex \<le> 1 / 100 then {}
    else if serviceTimeRose rn then {''TARGET_SATURATED''} else {''CLIENT_CAPPED''})"
  by (simp add: drop_findings_def Let_def)

lemma host_codes: "fi_code ` set (host_findings rn) = (if same_host rn then {''SAME_HOST_TARGET''} else {})"
proof (cases "List.find (\<lambda>t. tg_scope t = ScopeLoopback) (rr_targets rn)")
  case None
  then have "\<not> same_host rn" by (auto simp: same_host_def find_None_iff)
  with None show ?thesis by (simp add: host_findings_def)
next
  case (Some t)
  then have "same_host rn" by (auto simp: same_host_def find_Some_iff)
  with Some show ?thesis by (simp add: host_findings_def)
qed

lemma http_codes: "fi_code ` set (http_findings rn) =
   (if unverified rn then {''INSECURE_TLS''} else {}) \<union> (if limited rn then {''RATE_LIMITED''} else {})"
proof (cases "rr_http rn")
  case None
  then show ?thesis by (simp add: http_findings_def unverified_def limited_def)
next
  case (Some h)
  then show ?thesis
    by (cases "limited_ratio rn h") (simp_all add: http_findings_def unverified_def limited_def image_Un)
qed

lemma runner_codes:
  "fi_code ` set (runner_findings run rn) =
     (if rr_executor rn = None then {}
      else (if behind run rn then {''GENERATOR_BEHIND''} else {})
        \<union> (if \<not> shedding rn then {} else if serviceTimeRose rn then {''TARGET_SATURATED''} else {''CLIENT_CAPPED''})
        \<union> (if same_host rn then {''SAME_HOST_TARGET''} else {})
        \<union> (if unverified rn then {''INSECURE_TLS''} else {})
        \<union> (if limited rn then {''RATE_LIMITED''} else {}))"
proof (cases "rr_executor rn")
  case None
  then show ?thesis by (simp add: runner_findings_def)
next
  case (Some ex)
  have split: "fi_code ` set (runner_findings run rn) =
      fi_code ` set (lag_findings (lag_limit run) rn ex) \<union> fi_code ` set (drop_findings rn ex)
      \<union> fi_code ` set (host_findings rn) \<union> fi_code ` set (http_findings rn)"
    using Some by (simp add: runner_findings_def image_Un Un_assoc)
  show ?thesis
    unfolding split lag_codes drop_codes host_codes http_codes
    using Some by (simp add: behind_def shedding_def lag_limit_max Un_assoc)
qed

lemma part_severity:
  "f \<in> set (lag_findings l rn ex) \<Longrightarrow> fi_severity f = code_severity (fi_code f)"
  "f \<in> set (drop_findings rn ex) \<Longrightarrow> fi_severity f = code_severity (fi_code f)"
  "f \<in> set (host_findings rn) \<Longrightarrow> fi_severity f = code_severity (fi_code f)"
  "f \<in> set (http_findings rn) \<Longrightarrow> fi_severity f = code_severity (fi_code f)"
proof -
  show "f \<in> set (lag_findings l rn ex) \<Longrightarrow> fi_severity f = code_severity (fi_code f)"
    by (clarsimp simp: lag_findings_def Let_def code_severity_def split: if_splits)
  show "f \<in> set (drop_findings rn ex) \<Longrightarrow> fi_severity f = code_severity (fi_code f)"
    by (clarsimp simp: drop_findings_def Let_def code_severity_def split: if_splits)
  show "f \<in> set (host_findings rn) \<Longrightarrow> fi_severity f = code_severity (fi_code f)"
    by (clarsimp simp: host_findings_def code_severity_def split: option.splits)
  show "f \<in> set (http_findings rn) \<Longrightarrow> fi_severity f = code_severity (fi_code f)"
    by (clarsimp simp: http_findings_def split: option.splits if_splits; auto simp: code_severity_def)
qed

lemma runner_severity: "f \<in> set (runner_findings run rn) \<Longrightarrow> fi_severity f = code_severity (fi_code f)"
  using part_severity by (cases "rr_executor rn") (auto simp: runner_findings_def)

section \<open>Rounding\<close>

lemma round_ms_near: "0 \<le> v \<Longrightarrow> \<bar>round_ms v - v\<bar> \<le> 1 / 2000"
proof -
  assume v: "0 \<le> v"
  define k where "k = \<lfloor>v * 1000 + 1 / 2\<rfloor>"
  have k: "of_int k \<le> v * 1000 + 1 / 2" "v * 1000 + 1 / 2 < of_int k + 1" unfolding k_def by linarith+
  have "round_ms v = of_int k / 1000" using v by (simp only: round_ms_def go_trunc_def k_def) simp
  with k show ?thesis by (simp only: abs_le_iff) linarith
qed

lemma round_ms_mono: "v \<le> w \<Longrightarrow> round_ms v \<le> round_ms w"
proof -
  assume "v \<le> w"
  then have "v * 1000 + 1 / 2 \<le> w * 1000 + 1 / 2" by simp
  then have "go_trunc (v * 1000 + 1 / 2) \<le> go_trunc (w * 1000 + 1 / 2)"
    unfolding go_trunc_def by (smt (verit) ceiling_le_zero ceiling_mono floor_mono zero_le_floor)
  then show ?thesis by (simp add: round_ms_def divide_right_mono)
qed

lemma round_ms_whole: "round_ms (of_int k / 1000) = (if 0 \<le> k then of_int k / 1000 else of_int (k + 1) / 1000)"
proof -
  have *: "of_int k / 1000 * 1000 + 1 / 2 = (of_int k + 1 / 2 :: real)" by simp
  show ?thesis
  proof (cases "0 \<le> k")
    case True
    then have "(0::real) \<le> of_int k + 1 / 2" by simp
    moreover have "\<lfloor>of_int k + 1 / 2 :: real\<rfloor> = k" by linarith
    ultimately show ?thesis using True by (simp only: round_ms_def go_trunc_def * if_True)
  next
    case False
    then have "\<not> (0::real) \<le> of_int k + 1 / 2" by linarith
    moreover have "\<lceil>of_int k + 1 / 2 :: real\<rceil> = k + 1" by linarith
    ultimately show ?thesis using False by (simp only: round_ms_def go_trunc_def * if_False)
  qed
qed

lemma round_ms_twice:
  assumes "0 \<le> v"
  shows "round_ms (round_ms v) = round_ms v"
proof -
  have "0 \<le> go_trunc (v * 1000 + 1 / 2)" using assms by (simp add: go_trunc_def)
  then show ?thesis using round_ms_whole[of "go_trunc (v * 1000 + 1 / 2)"] by (simp add: round_ms_def)
qed

section \<open>The state of a run\<close>

definition faulty :: "run_doc \<Rightarrow> runner_doc \<Rightarrow> bool" where
  "faulty run rn \<longleftrightarrow> behind run rn \<or> (shedding rn \<and> \<not> serviceTimeRose rn)"

lemma faulty_rule: "faulty run = (\<lambda>rn. behind run rn \<or> (shedding rn \<and> \<not> serviceTimeRose rn))"
  by (rule ext) (simp add: faulty_def)

definition doubtful :: "runner_doc \<Rightarrow> bool" where
  "doubtful rn \<longleftrightarrow> rr_executor rn \<noteq> None \<and> (shedding rn \<or> same_host rn \<or> unverified rn \<or> limited rn)"

lemma has_executor: "behind run rn \<Longrightarrow> rr_executor rn \<noteq> None" "shedding rn \<Longrightarrow> rr_executor rn \<noteq> None"
  by (auto simp: behind_def shedding_def split: option.splits)

lemma severity_simps:
  "code_severity ''GENERATOR_BEHIND'' = SeverityError" "code_severity ''CLIENT_CAPPED'' = SeverityError"
  "code_severity ''TARGET_SATURATED'' = SeverityWarn" "code_severity ''SAME_HOST_TARGET'' = SeverityWarn"
  "code_severity ''INSECURE_TLS'' = SeverityWarn" "code_severity ''RATE_LIMITED'' = SeverityWarn"
  by (simp_all add: code_severity_def)

lemma image_if: "f ` (if b then A else B) = (if b then f ` A else f ` B)"
  by simp

lemma runner_severities:
  "fi_severity ` set (runner_findings run rn) =
     (if rr_executor rn = None then {}
      else (if behind run rn then {SeverityError} else {})
        \<union> (if \<not> shedding rn then {} else if serviceTimeRose rn then {SeverityWarn} else {SeverityError})
        \<union> (if same_host rn then {SeverityWarn} else {})
        \<union> (if unverified rn then {SeverityWarn} else {})
        \<union> (if limited rn then {SeverityWarn} else {}))"
proof -
  have "fi_severity ` set (runner_findings run rn) = code_severity ` fi_code ` set (runner_findings run rn)"
    unfolding image_image by (rule image_cong[OF refl]) (rule runner_severity)
  then show ?thesis
    by (simp only: runner_codes image_if image_Un image_insert image_empty severity_simps)
qed

lemma runner_errors:
  "SeverityError \<in> fi_severity ` set (runner_findings run rn) \<longleftrightarrow> faulty run rn"
  using has_executor unfolding runner_severities faulty_def by (simp split: if_splits)

lemma runner_warnings:
  "\<not> faulty run rn \<Longrightarrow> SeverityWarn \<in> fi_severity ` set (runner_findings run rn) \<longleftrightarrow> doubtful rn"
  using has_executor(2)[of rn] unfolding runner_severities faulty_def doubtful_def by (simp split: if_splits)

definition run_findings :: "run_doc \<Rightarrow> runner_doc list \<Rightarrow> finding list" where
  "run_findings run rns = concat (map (runner_findings run) rns)
     @ (if ru_status run = StatusAborted
        then [mk_finding ''RUN_ABORTED'' SeverityWarn
          ''the abort guard stopped this run early, so it covers less than the configured duration'' [] []]
        else [])"

lemma dedupe_severities:
  assumes "\<forall>f \<in> set fs. fi_severity f = code_severity (fi_code f)"
  shows "fi_severity ` set (dedupeFindings fs) = fi_severity ` set fs"
proof -
  have "fi_severity ` set xs = code_severity ` fi_code ` set xs" if "set xs \<subseteq> set fs" for xs
    using that assms by (force simp: image_image)
  moreover have "set (dedupeFindings fs) \<subseteq> set fs" unfolding dedupeFindings_def by (rule dedupe_subset)
  ultimately show ?thesis using dedupe_codes[of fs] by simp
qed

lemma run_severities: "f \<in> set (run_findings run rns) \<Longrightarrow> fi_severity f = code_severity (fi_code f)"
  using runner_severity by (auto simp: run_findings_def code_severity_def split: if_splits)

lemma state_rule:
  "va_state (evaluateValidity run rns) =
     (if list_ex (faulty run) rns then ValidityInvalid
      else if ru_status run = StatusAborted \<or> list_ex doubtful rns then ValidityDegraded
      else ValidityValid)"
proof -
  let ?s = "fi_severity ` set (run_findings run rns)"
  have state: "va_state (evaluateValidity run rns) =
      (if SeverityError \<in> ?s then ValidityInvalid else if SeverityWarn \<in> ?s then ValidityDegraded else ValidityValid)"
    using dedupe_severities[of "run_findings run rns"] run_severities
    by (simp add: evaluateValidity_def Let_def run_findings_def judge_state_rule)
  have parts: "?s = (\<Union>rn \<in> set rns. fi_severity ` set (runner_findings run rn))
      \<union> (if ru_status run = StatusAborted then {SeverityWarn} else {})"
    by (auto simp: run_findings_def image_Un image_UN)
  have "SeverityError \<in> ?s \<longleftrightarrow> list_ex (faulty run) rns"
    using runner_errors by (auto simp: parts list_ex_iff)
  moreover have "SeverityWarn \<in> ?s \<longleftrightarrow> ru_status run = StatusAborted \<or> list_ex doubtful rns"
    if "\<not> list_ex (faulty run) rns"
    using that runner_warnings[of run] by (auto simp: parts list_ex_iff)
  ultimately show ?thesis unfolding state by auto
qed

section \<open>Budgets\<close>

definition meets :: "slo \<Rightarrow> runner_doc \<Rightarrow> bool" where
  "meets budgets rn \<longleftrightarrow>
     (let t = slo_for budgets (rr_name rn); s = rr_summary rn
      in (case so_p95 t of None \<Rightarrow> True | Some d \<Rightarrow> q_p95 (os_response s) \<le> ms d)
         \<and> (case so_p99 t of None \<Rightarrow> True | Some d \<Rightarrow> q_p99 (os_response s) \<le> ms d)
         \<and> (case so_error_rate t of None \<Rightarrow> True | Some r \<Rightarrow> f_le (Fin (os_error_ratio s)) r))"

lemma slo_add_sel:
  "sl_pass (slo_add s r m b a) \<longleftrightarrow> sl_pass s \<and> f_le (Fin a) b"
  "list_all sc_pass (sl_checks (slo_add s r m b a)) \<longleftrightarrow> list_all sc_pass (sl_checks s) \<and> f_le (Fin a) b"
  by (simp_all add: slo_add_def Let_def del: f_le.simps)

lemma check_budget_pass:
  "sl_pass (check_budget b s rn) \<longleftrightarrow> sl_pass s \<and> meets b rn"
  "list_all sc_pass (sl_checks (check_budget b s rn)) \<longleftrightarrow> list_all sc_pass (sl_checks s) \<and> meets b rn"
  by (auto simp: check_budget_def meets_def Let_def slo_add_sel simp del: f_le.simps split: option.splits)

lemma check_all_pass:
  "sl_pass (foldl (check_budget b) s rns) \<longleftrightarrow> sl_pass s \<and> list_all (meets b) rns"
  "list_all sc_pass (sl_checks (foldl (check_budget b) s rns)) \<longleftrightarrow>
     list_all sc_pass (sl_checks s) \<and> list_all (meets b) rns"
  by (induction rns arbitrary: s) (auto simp: check_budget_pass)

lemma no_budget_meets: "slo_zero b \<Longrightarrow> meets b rn"
  by (auto simp: slo_zero_def slo_target_zero_def meets_def slo_for_def no_budget_def Let_def)

lemma slo_rule:
  "sl_pass (evaluateSLO (Some c) rns) \<longleftrightarrow> list_all (meets (cf_slo c)) rns"
  "list_all sc_pass (sl_checks (evaluateSLO (Some c) rns)) \<longleftrightarrow> list_all (meets (cf_slo c)) rns"
  by (cases "slo_zero (cf_slo c)"; simp add: evaluateSLO_def check_all_pass; simp add: list_all_iff no_budget_meets)+

text \<open>
  An aborted run is degraded, not failed: with its budgets met it exits with 0, although the code
  \<open>RUN_ABORTED\<close> is registered with exit 3.
\<close>

lemma aborted_exits_zero:
  "outcomeExit (Build show \<lparr>bi_id = ''i'', bi_config = None, bi_seed = 1, bi_elapsed = 5, bi_status = StatusAborted,
     bi_interrupted = ''r'', bi_runners = [], bi_warnings = []\<rparr>) False = ExitOK"
  by (simp add: outcomeExit_def Build_def Let_def Analyse_def state_rule evaluateSLO_def)

section \<open>Properties\<close>

text \<open>C22. A run is invalid exactly when some generator was behind its schedule - its dispatch lag above
  five percent of a bucket and above five milliseconds at p99 - or shed more than a hundredth of
  its arrivals while the service time did not rise. Otherwise it is degraded exactly when it was
  aborted or some runner shed, shared the machine, skipped certificates or was rate limited.
  Neither the order of the findings nor the removal of repetitions changes this.\<close>

theorem validity_rule:
  "va_state (evaluateValidity run rns) =
     (if list_ex (\<lambda>rn. behind run rn \<or> (shedding rn \<and> \<not> serviceTimeRose rn)) rns then ValidityInvalid
      else if ru_status run = StatusAborted \<or>
        list_ex (\<lambda>rn. rr_executor rn \<noteq> None \<and> (shedding rn \<or> same_host rn \<or> unverified rn \<or> limited rn)) rns
      then ValidityDegraded
      else ValidityValid)
   \<and> distinct (map (\<lambda>f. (fi_code f, fi_message f)) (va_findings (evaluateValidity run rns)))"
proof -
  have "doubtful = (\<lambda>rn. rr_executor rn \<noteq> None \<and> (shedding rn \<or> same_host rn \<or> unverified rn \<or> limited rn))"
    by (rule ext) (simp add: doubtful_def)
  then show ?thesis
    using faulty_rule[of run] state_rule[of run rns] dedupe_distinct[of "{}"]
    by (simp add: evaluateValidity_def Let_def dedupeFindings_def)
qed

text \<open>C21. The exit code of a finished run: 4 when some runner makes it invalid and this is not allowed,
  otherwise 1 when some runner's p95, p99 or error ratio is above its budget, otherwise 0. That
  the run was aborted does not change the exit code.\<close>

theorem run_exit:
  "outcomeExit (Build show (inp\<lparr>bi_config := Some c\<rparr>)) allowInvalid =
     (let rns = map buildRunner (bi_runners inp); run = run_of (inp\<lparr>bi_config := Some c\<rparr>) rns
      in if list_ex (\<lambda>rn. behind run rn \<or> (shedding rn \<and> \<not> serviceTimeRose rn)) rns \<and> \<not> allowInvalid
         then ExitInvalid
         else if \<not> list_all (meets (cf_slo c)) rns then ExitBreach
         else ExitOK)"
  by (simp add: outcomeExit_def Build_def Let_def Analyse_def state_rule slo_rule faulty_rule)

text \<open>C20. The verdict blames the generator exactly for an invalid run, and only then speaks with high
  confidence; it reports no bottleneck exactly when the run is not invalid, every budget is met and
  the application, if it was driven, completed an operation. It never names a tier.\<close>

theorem verdict_rule:
  "let v = an_verdict (Analyse show run rns (Some c));
       invalid = list_ex (\<lambda>rn. behind run rn \<or> (shedding rn \<and> \<not> serviceTimeRose rn)) rns
   in (vd_bottleneck v = BottleneckClient \<longleftrightarrow> invalid)
    \<and> (vd_confidence v = ConfidenceHigh \<longleftrightarrow> invalid)
    \<and> (vd_bottleneck v = BottleneckNone \<longleftrightarrow> \<not> invalid \<and> list_all (meets (cf_slo c)) rns \<and>
        (case app_runner rns of None \<Rightarrow> True | Some a \<Rightarrow> os_n (rr_summary a) \<noteq> 0))"
proof -
  have inv: "va_state (evaluateValidity run rns) = ValidityInvalid \<longleftrightarrow> list_ex (faulty run) rns"
    by (simp add: state_rule)
  have v: "an_verdict (Analyse show run rns (Some c)) =
      buildVerdict show rns (evaluateValidity run rns) (evaluateSLO (Some c) rns)"
    by (simp add: Analyse_def Let_def)
  show ?thesis
    unfolding v buildVerdict_def inv slo_rule Let_def faulty_rule[symmetric]
    by (simp add: invalid_verdict_def breach_verdict_def empty_verdict_def quiet_verdict_def Let_def
        split: option.splits)
qed

text \<open>Rounding a latency for the document moves it by at most half a microsecond, keeps the order of
  latencies and is done once: rounding again changes nothing.\<close>

theorem rounding:
  assumes "0 \<le> v"
  shows "\<bar>round_ms v - v\<bar> \<le> 1 / 2000 \<and> round_ms (round_ms v) = round_ms v \<and> (v \<le> w \<longrightarrow> round_ms v \<le> round_ms w)"
  using round_ms_near[OF assms] round_ms_twice[OF assms] round_ms_mono by blast

theorem rounding_witness: "\<bar>round_ms (123 / 100000) - 123 / 100000\<bar> \<le> 1 / 2000"
  using rounding[of "123 / 100000"] by simp

end
