(* ===== verification/Faults.thy ===== *)
theory Faults
  imports Executor
begin

text \<open>
  What the three runners under \<open>internal/runner\<close> share: the errors a library hands back, as far as
  the runners look at them, the state of a context, and the contract of one operation, which is
  what the executor needs of a runner.
\<close>

section \<open>Errors\<close>

text \<open>
  An error value is the chain \<open>errors.Is\<close> and \<open>errors.As\<close> walk. A \<open>mark\<close> is a sentinel of the
  standard library or of a driver, or a type one of the runners asks for. \<open>Timeout()\<close> of the
  first \<open>net.Error\<close> of the chain, if there is one, and the text are kept beside it.
  \<open>LocalBadConn\<close> is the variable \<open>errDriverBadConn\<close> of \<open>sqlrun.go\<close>, a value of its own.
\<close>

datatype (plugins only: code) mark =
    DeadlineExceeded | Canceled | EndOfFile | UnexpectedEOF
  | DNSError | UnknownAuthority | HostnameError | RecordHeaderError | CertificateInvalid | OpError
  | ConnDone | DriverBadConn | LocalBadConn | RedisNil | RedisClosed | OtherMark

record fault =
  ft_chain :: "mark list"
  ft_timeout :: "bool option"
  ft_text :: string

definition is_a :: "mark \<Rightarrow> fault \<Rightarrow> bool" where
  "is_a m f \<longleftrightarrow> m \<in> set (ft_chain f)"

text \<open>\<open>fmt.Errorf("...: %w", err)\<close>.\<close>

definition wrapped :: "string \<Rightarrow> fault \<Rightarrow> fault" where
  "wrapped what f = f\<lparr>ft_text := what @ '': '' @ ft_text f\<rparr>"

definition says :: "fault \<Rightarrow> string list \<Rightarrow> bool" where
  "says f ws \<longleftrightarrow> (\<exists>w \<in> set ws. contains (ft_text f) w)"

definition says_lower :: "fault \<Rightarrow> string list \<Rightarrow> bool" where
  "says_lower f ws \<longleftrightarrow> (\<exists>w \<in> set ws. contains (to_lower (ft_text f)) w)"

text \<open>A context: \<open>ctx.Err()\<close> and \<open>context.Cause(ctx)\<close>.\<close>

record go_ctx =
  gc_err :: "mark option"
  gc_cause :: "fault option"

definition open_scope :: go_ctx where
  "open_scope = \<lparr>gc_err = None, gc_cause = None\<rparr>"

lemma is_a_wrapped [simp]: "is_a m (wrapped what f) = is_a m f"
  by (simp add: is_a_def wrapped_def)

lemma text_wrapped [simp]: "ft_text (wrapped what f) = what @ '': '' @ ft_text f"
  by (simp add: wrapped_def)

text \<open>A word of the cause is still found in the text of an error that wraps it.\<close>

lemma contains_after: "contains t w \<Longrightarrow> contains (s @ t) w"
  by (simp add: contains_sublist sublist_append)

lemma to_lower_append [simp]: "to_lower (s @ t) = to_lower s @ to_lower t"
  by (simp add: to_lower_def)

lemma says_wrapped: "says f ws \<Longrightarrow> says (wrapped what f) ws"
  unfolding says_def text_wrapped by (blast intro: contains_after)

lemma says_lower_wrapped: "says_lower f ws \<Longrightarrow> says_lower (wrapped what f) ws"
  unfolding says_lower_def text_wrapped to_lower_append by (blast intro: contains_after)

section \<open>The contract of one operation\<close>

text \<open>
  An operation of a runner starts from \<open>it.StampOutcome(&o)\<close> on a zero outcome, sets the label
  and whatever else it learns, and records the result.
\<close>

definition zero_outcome :: outcome where
  "zero_outcome = \<lparr>o_label = 0, o_class = ClassOK, o_status = 0, o_intended = 0, o_dispatched = 0,
     o_worker_start = 0, o_conn_acquired = 0, o_first_byte = 0, o_end = 0, o_bytes_in = 0, o_bytes_out = 0\<rparr>"

definition started :: "iteration \<Rightarrow> int \<Rightarrow> outcome" where
  "started it label = (StampOutcome it zero_outcome)\<lparr>o_label := label\<rparr>"

definition stamped :: "iteration \<Rightarrow> outcome \<Rightarrow> bool" where
  "stamped it o' \<longleftrightarrow> StampOutcome it o' = o'"

lemma stamped_iff:
  "stamped it o' \<longleftrightarrow> o_intended o' = it_intended it \<and> o_dispatched o' = it_dispatched it
     \<and> o_worker_start o' = it_worker_start it"
  by (cases o') (auto simp: stamped_def StampOutcome_def)

lemma stamped_started [simp]: "stamped it (started it l)" "o_label (started it l) = l"
  by (simp_all add: stamped_iff started_def StampOutcome_def)

lemma stamped_updates [simp]:
  "stamped it (o'\<lparr>o_label := l\<rparr>) = stamped it o'" "stamped it (o'\<lparr>o_class := k\<rparr>) = stamped it o'"
  "stamped it (o'\<lparr>o_status := s\<rparr>) = stamped it o'" "stamped it (o'\<lparr>o_conn_acquired := t\<rparr>) = stamped it o'"
  "stamped it (o'\<lparr>o_first_byte := t\<rparr>) = stamped it o'" "stamped it (o'\<lparr>o_end := t\<rparr>) = stamped it o'"
  "stamped it (o'\<lparr>o_bytes_in := n\<rparr>) = stamped it o'" "stamped it (o'\<lparr>o_bytes_out := n\<rparr>) = stamped it o'"
  by (simp_all add: stamped_iff)

text \<open>
  What the executor and the collector rely on: exactly one outcome for every iteration, with its
  stamps untouched. \<open>Executor\<close> turns it into the statement that a drained run measures its schedule.
\<close>

locale one_outcome =
  fixes does :: "iteration \<Rightarrow> outcome list \<Rightarrow> bool"
  assumes one: "does it os \<Longrightarrow> \<exists>o'. os = [o'] \<and> stamped it o'"
begin

lemma records: "\<forall>it os. does it os \<longrightarrow> (\<exists>o'. os = [StampOutcome it o'])"
  using one unfolding stamped_def by metis

lemma measured_run:
  assumes "NewArrivalRate (Some ops) cfg = Inr e0" "ec_collector cfg = Some c0" "NewCollector ops ccfg = Inr c0"
    "reached ops draw does e0 e" "\<forall>w \<in> set (ex_workers e). w = Exited"
  shows "os_n (sn_summary (Snapshot ops (Finish ops (ex_collector e)))) =
    int (length (filter (\<lambda>j. co_warmup c0 \<le> BucketIndexOf c0 (jb_intended j)) (ex_sent e)))"
  by (rule drained_summary[OF assms(1-4) records assms(5)])

end

end
