(* ===== verification/HttpRun.thy ===== *)
theory HttpRun
  imports Faults Config Weighted Template
begin

text \<open>
  The HTTP runner, \<open>internal/runner/httprun\<close>: compiling the requests, the transport's settings,
  preflight, one operation with its trace (\<open>trace.go\<close>), reading the body and classifying what
  happened. The transport, \<open>net/url\<close>, files and certificates are parameters; what the transport
  did in one operation is a record of the hooks it called, its answer and the readings of the clock.
\<close>

section \<open>The trace of a request\<close>

text \<open>The hooks of \<open>httptrace.ClientTrace\<close> with the offset at which each was called.\<close>

datatype hook = GetConn | DNSStart | DNSDone | ConnectStart | ConnectDone | TLSStart | TLSDone
  | GotFirstResponseByte | GotConn bool

record phase_trace =
  pt_get_conn :: int
  pt_got_conn :: int
  pt_dns_start :: int
  pt_dns_done :: int
  pt_connect_start :: int
  pt_connect_done :: int
  pt_tls_start :: int
  pt_tls_done :: int
  pt_first_byte :: int
  pt_reused :: bool
  pt_have_conn :: bool

definition no_trace :: phase_trace where
  "no_trace = \<lparr>pt_get_conn = 0, pt_got_conn = 0, pt_dns_start = 0, pt_dns_done = 0, pt_connect_start = 0,
     pt_connect_done = 0, pt_tls_start = 0, pt_tls_done = 0, pt_first_byte = 0, pt_reused = False,
     pt_have_conn = False\<rparr>"

fun on_hook :: "hook \<times> int \<Rightarrow> phase_trace \<Rightarrow> phase_trace" where
  "on_hook (GetConn, t) p = p\<lparr>pt_get_conn := t\<rparr>"
| "on_hook (DNSStart, t) p = p\<lparr>pt_dns_start := t\<rparr>"
| "on_hook (DNSDone, t) p = p\<lparr>pt_dns_done := t\<rparr>"
| "on_hook (ConnectStart, t) p = p\<lparr>pt_connect_start := t\<rparr>"
| "on_hook (ConnectDone, t) p = p\<lparr>pt_connect_done := t\<rparr>"
| "on_hook (TLSStart, t) p = p\<lparr>pt_tls_start := t\<rparr>"
| "on_hook (TLSDone, t) p = p\<lparr>pt_tls_done := t\<rparr>"
| "on_hook (GotFirstResponseByte, t) p = p\<lparr>pt_first_byte := t\<rparr>"
| "on_hook (GotConn reused, t) p = p\<lparr>pt_got_conn := t, pt_reused := reused, pt_have_conn := True\<rparr>"

definition traced :: "(hook \<times> int) list \<Rightarrow> phase_trace" where
  "traced hs = fold on_hook hs no_trace"

definition connAcquiredOr :: "phase_trace \<Rightarrow> int \<Rightarrow> int" where
  "connAcquiredOr p fallback = (if pt_have_conn p then pt_got_conn p else fallback)"

record phases =
  ph_dns :: int
  ph_connect :: int
  ph_tls :: int
  ph_conn_wait :: int
  ph_ttfb :: int
  ph_transfer :: int
  ph_reused :: bool
  ph_connected :: bool

definition phases_of :: "phase_trace \<Rightarrow> int \<Rightarrow> phases" where
  "phases_of p end' =
     \<lparr>ph_dns = (if pt_dns_start p < pt_dns_done p then pt_dns_done p - pt_dns_start p else 0),
      ph_connect = (if pt_connect_start p < pt_connect_done p then pt_connect_done p - pt_connect_start p else 0),
      ph_tls = (if pt_tls_start p < pt_tls_done p then pt_tls_done p - pt_tls_start p else 0),
      ph_conn_wait = (if pt_get_conn p < pt_got_conn p then pt_got_conn p - pt_get_conn p else 0),
      ph_ttfb = (if pt_got_conn p < pt_first_byte p \<and> pt_have_conn p then pt_first_byte p - pt_got_conn p else 0),
      ph_transfer = (if pt_first_byte p < end' \<and> 0 < pt_first_byte p then end' - pt_first_byte p else 0),
      ph_reused = pt_reused p, ph_connected = pt_have_conn p\<rparr>"

text \<open>One phase over the run: a sketch with its count, sum and maximum.\<close>

record 's phase_series =
  ps_sketch :: 's
  ps_n :: int
  ps_sum :: real
  ps_max :: real

definition newPhaseSeries :: "'s sketch_ops option \<Rightarrow> 's phase_series result" where
  "newPhaseSeries m = (case m of
      None \<Rightarrow> Inl (new_error CodeInternal)
    | Some ops \<Rightarrow> Inr \<lparr>ps_sketch = sk_empty ops, ps_n = 0, ps_sum = 0, ps_max = 0\<rparr>)"

definition series_add :: "'s sketch_ops \<Rightarrow> int \<Rightarrow> 's phase_series \<Rightarrow> 's phase_series" where
  "series_add ops d p =
     (if ms d < 0 then p
      else case sk_add ops (ms d) (ps_sketch p) of
          None \<Rightarrow> p
        | Some s \<Rightarrow> \<lparr>ps_sketch = s, ps_n = ps_n p + 1, ps_sum = ps_sum p + ms d,
                     ps_max = (if ps_max p < ms d then ms d else ps_max p)\<rparr>)"

definition series_quantiles :: "'s sketch_ops \<Rightarrow> 's phase_series \<Rightarrow> quantiles" where
  "series_quantiles ops p = quantilesFrom ops (ps_sketch p) (ps_n p) (ps_sum p) (ps_max p)"

record 's phase_stats =
  st_dns :: "'s phase_series"
  st_connect :: "'s phase_series"
  st_tls :: "'s phase_series"
  st_conn_wait :: "'s phase_series"
  st_ttfb :: "'s phase_series"
  st_transfer :: "'s phase_series"
  st_requests :: int
  st_reused :: int

definition newPhaseStats :: "'s sketch_ops option \<Rightarrow> 's phase_stats result" where
  "newPhaseStats m = rbind (newPhaseSeries m) (\<lambda>s.
     Inr \<lparr>st_dns = s, st_connect = s, st_tls = s, st_conn_wait = s, st_ttfb = s, st_transfer = s,
          st_requests = 0, st_reused = 0\<rparr>)"

text \<open>A phase that did not happen is not recorded as a zero.\<close>

definition observe_phase :: "'s sketch_ops \<Rightarrow> int \<Rightarrow> 's phase_series \<Rightarrow> 's phase_series" where
  "observe_phase ops d s = (if 0 < d then series_add ops d s else s)"

definition observe :: "'s sketch_ops \<Rightarrow> phases \<Rightarrow> 's phase_stats \<Rightarrow> 's phase_stats" where
  "observe ops p s =
     \<lparr>st_dns = observe_phase ops (ph_dns p) (st_dns s), st_connect = observe_phase ops (ph_connect p) (st_connect s),
      st_tls = observe_phase ops (ph_tls p) (st_tls s), st_conn_wait = observe_phase ops (ph_conn_wait p) (st_conn_wait s),
      st_ttfb = observe_phase ops (ph_ttfb p) (st_ttfb s), st_transfer = observe_phase ops (ph_transfer p) (st_transfer s),
      st_requests = st_requests s + 1, st_reused = (if ph_reused p then st_reused s + 1 else st_reused s)\<rparr>"

record phase_quantiles =
  pq_dns :: quantiles
  pq_connect :: quantiles
  pq_tls :: quantiles
  pq_conn_wait :: quantiles
  pq_ttfb :: quantiles
  pq_transfer :: quantiles

definition PhaseBreakdown :: "'s sketch_ops \<Rightarrow> 's phase_stats \<Rightarrow> phase_quantiles" where
  "PhaseBreakdown ops s =
     \<lparr>pq_dns = series_quantiles ops (st_dns s), pq_connect = series_quantiles ops (st_connect s),
      pq_tls = series_quantiles ops (st_tls s), pq_conn_wait = series_quantiles ops (st_conn_wait s),
      pq_ttfb = series_quantiles ops (st_ttfb s), pq_transfer = series_quantiles ops (st_transfer s)\<rparr>"

definition reuseRatio :: "'s phase_stats \<Rightarrow> real" where
  "reuseRatio s = (if st_requests s = 0 then 0 else real_of_int (st_reused s) / real_of_int (st_requests s))"

section \<open>Classification\<close>

definition statusClass :: "int \<Rightarrow> outcome_class" where
  "statusClass status =
     (if 500 \<le> status then ClassHTTP5xx else if 400 \<le> status then ClassHTTP4xx else ClassExpectFailed)"

definition classifyResponse :: "int \<Rightarrow> expect option \<Rightarrow> int \<Rightarrow> outcome_class" where
  "classifyResponse status ex n =
     (if (case ex of Some e \<Rightarrow> 0 < ep_max_body_bytes e \<and> ep_max_body_bytes e < n | None \<Rightarrow> False)
      then ClassExpectFailed
      else if (case ex of Some e \<Rightarrow> ep_status e \<noteq> [] | None \<Rightarrow> False)
      then (if status \<in> set (ep_status (the ex)) then ClassOK else statusClass status)
      else if 200 \<le> status \<and> status < 400 then ClassOK
      else statusClass status)"

definition conn_words :: "string list" where
  "conn_words = [''connection refused'', ''connection reset'', ''broken pipe'', ''no such host'']"

definition classifyTransportError :: "go_ctx \<Rightarrow> fault \<Rightarrow> outcome_class" where
  "classifyTransportError sc f =
     (if is_a DeadlineExceeded f then ClassTimeout
      else if is_a Canceled f then
        (if gc_err sc \<noteq> None \<and> (case gc_cause sc of Some c \<Rightarrow> is_a Canceled c | None \<Rightarrow> False)
         then ClassCanceled else ClassCanceled)
      else if is_a DNSError f then ClassDNS
      else if is_a UnknownAuthority f \<or> is_a HostnameError f \<or> is_a RecordHeaderError f then ClassTLS
      else if is_a CertificateInvalid f then ClassTLS
      else if ft_timeout f = Some True then ClassTimeout
      else if says f conn_words \<or> is_a EndOfFile f \<or> is_a UnexpectedEOF f then ClassConnection
      else if says f [''tls:'', ''x509:''] then ClassTLS
      else if is_a OpError f then ClassConnection
      else ClassOther)"

definition preflightCode :: "fault \<Rightarrow> code" where
  "preflightCode f = (if is_a DNSError f then CodePreflightDNS else CodePreflightConnect)"

section \<open>Reading the body\<close>

text \<open>
  A body is what its reads return: chunks, the last of them with the error that ends it, the end
  of file or a failure. \<open>discard\<close> reads the rest and changes nothing that is reported.
\<close>

datatype body = Chunk nat body | Final nat fault

fun drain_from :: "int \<Rightarrow> int \<Rightarrow> body \<Rightarrow> int \<times> fault option" where
  "drain_from limit tot (Chunk n b) =
     (let tot = tot + int n
      in if 0 < limit \<and> limit < tot then (tot, None) else drain_from limit tot b)"
| "drain_from limit tot (Final n f) =
     (let tot = tot + int n
      in if 0 < limit \<and> limit < tot then (tot, None)
         else if is_a EndOfFile f then (tot, None) else (tot, Some f))"

definition body_limit :: "expect option \<Rightarrow> int" where
  "body_limit ex = (case ex of Some e \<Rightarrow> if 0 < ep_max_body_bytes e then ep_max_body_bytes e else - 1 | None \<Rightarrow> - 1)"

definition drain :: "body \<Rightarrow> expect option \<Rightarrow> int \<times> fault option" where
  "drain b ex = drain_from (body_limit ex) 0 b"

section \<open>Compiling the requests\<close>

record request =
  rq_name :: string
  rq_method :: string
  rq_url :: string
  rq_headers :: "string \<rightharpoonup> string"
  rq_body :: string
  rq_timeout :: duration
  rq_expect :: "expect option"
  rq_label :: int

text \<open>\<open>net/url\<close> and the file system, as far as compiling uses them.\<close>

record 'u world =
  wd_parse :: "string \<Rightarrow> 'u option"
  wd_is_abs :: "'u \<Rightarrow> bool"
  wd_resolve :: "'u \<Rightarrow> string \<Rightarrow> 'u option"
  wd_string :: "'u \<Rightarrow> string"
  wd_hostname :: "'u \<Rightarrow> string"
  wd_read_file :: "string \<Rightarrow> string option"

definition resolveURL :: "'u world \<Rightarrow> string \<Rightarrow> string \<Rightarrow> string result" where
  "resolveURL wd base ref =
     (let bad = Inl (new_error CodeConfigInvalidValue)
      in if base = [] then
           (case wd_parse wd ref of None \<Rightarrow> bad
            | Some u \<Rightarrow> if \<not> wd_is_abs wd u then bad else Inr (wd_string wd u))
         else (case wd_parse wd base of None \<Rightarrow> bad
            | Some b \<Rightarrow> (case wd_resolve wd b ref of None \<Rightarrow> bad | Some u \<Rightarrow> Inr (wd_string wd u))))"

definition compile_step :: "'u world \<Rightarrow> http_section \<Rightarrow> duration \<Rightarrow> http_step \<Rightarrow> request result" where
  "compile_step wd cfg timeout src =
     rbind (resolveURL wd (ht_base_url cfg) (hs_url src)) (\<lambda>full.
       if contains (hs_url src) ''{{'' \<or> contains (hs_body src) ''{{''
       then Inl (error_at CodeConfigTemplateSyntax ''/http/requests'')
       else rbind (if hs_body_file src = [] then Inr (hs_body src)
                   else case wd_read_file wd (hs_body_file src) of
                       None \<Rightarrow> Inl (new_error CodeIOReadFailed) | Some b \<Rightarrow> Inr b) (\<lambda>body.
         Inr \<lparr>rq_name = hs_name src, rq_method = hs_method src, rq_url = full,
              rq_headers = ht_headers cfg ++ hs_headers src, rq_body = body,
              rq_timeout = (case hs_timeout src of None \<Rightarrow> timeout | Some d \<Rightarrow> d),
              rq_expect = hs_expect src, rq_label = 0\<rparr>))"

fun compile_steps ::
  "'u world \<Rightarrow> http_section \<Rightarrow> duration \<Rightarrow> http_step list \<Rightarrow> 's collector \<Rightarrow> (request list \<times> 's collector) result" where
  "compile_steps wd cfg timeout [] c = Inr ([], c)"
| "compile_steps wd cfg timeout (src # rest) c =
     rbind (compile_step wd cfg timeout src) (\<lambda>q.
       case LabelID (hs_name src) c of (i, c') \<Rightarrow>
         rbind (compile_steps wd cfg timeout rest c') (\<lambda>(qs, c'').
           Inr (q\<lparr>rq_label := int i\<rparr> # qs, c'')))"

section \<open>The client\<close>

text \<open>Certificates: a pool of authorities read from PEM text and a key pair read from two files.\<close>

record ('p, 'k) cert_lib =
  cl_read_file :: "string \<Rightarrow> string option"
  cl_pool :: "string \<Rightarrow> 'p option"
  cl_pair :: "string \<Rightarrow> string \<Rightarrow> 'k option"

record ('p, 'k) tls_config =
  tc_insecure :: bool
  tc_server_name :: string
  tc_min_version :: int
  tc_roots :: "'p option"
  tc_certificate :: "'k option"

definition VersionTLS12 :: int where "VersionTLS12 = 0x0303"

definition buildTLS :: "('p, 'k) cert_lib \<Rightarrow> tls \<Rightarrow> ('p, 'k) tls_config result" where
  "buildTLS lib c =
     rbind (if tl_ca_file c = [] then Inr None
            else case cl_read_file lib (tl_ca_file c) of
                None \<Rightarrow> Inl (new_error CodeIOReadFailed)
              | Some pem \<Rightarrow> (case cl_pool lib pem of
                    None \<Rightarrow> Inl (new_error CodeConfigInvalidValue) | Some pool \<Rightarrow> Inr (Some pool))) (\<lambda>roots.
     rbind (if tl_cert_file c = [] \<and> tl_key_file c = [] then Inr None
            else case cl_pair lib (tl_cert_file c) (tl_key_file c) of
                None \<Rightarrow> Inl (new_error CodeConfigInvalidValue) | Some pair \<Rightarrow> Inr (Some pair)) (\<lambda>cert.
       Inr \<lparr>tc_insecure = tl_insecure c, tc_server_name = tl_server_name c, tc_min_version = VersionTLS12,
            tc_roots = roots, tc_certificate = cert\<rparr>))"

record ('p, 'k) client =
  ci_dial_timeout :: duration
  ci_dial_keep_alive :: duration
  ci_max_idle :: int
  ci_max_idle_per_host :: int
  ci_idle_timeout :: duration
  ci_tls_timeout :: duration
  ci_continue_timeout :: duration
  ci_http2 :: bool
  ci_disable_keep_alives :: bool
  ci_tls :: "('p, 'k) tls_config option"

definition follow_redirect :: "nat \<Rightarrow> bool" where
  "follow_redirect via \<longleftrightarrow> \<not> 10 \<le> via"

definition buildClient :: "('p, 'k) cert_lib \<Rightarrow> http_section \<Rightarrow> (('p, 'k) client \<times> bool) result" where
  "buildClient lib cfg =
     (let inFlight = xs_max_in_flight (ht_executor cfg);
          inFlight = (if inFlight \<le> 0 then 256 else inFlight);
          t = ht_transport cfg;
          idle = (case t of Some t' \<Rightarrow> if 0 < tr_max_idle t' then tr_max_idle t' else inFlight | None \<Rightarrow> inFlight);
          http2 = (case t of Some t' \<Rightarrow> (case tr_http2 t' of Some b \<Rightarrow> b | None \<Rightarrow> True) | None \<Rightarrow> True);
          keepAlive = (case t of Some t' \<Rightarrow> (case tr_keep_alive t' of Some b \<Rightarrow> b | None \<Rightarrow> True) | None \<Rightarrow> True)
      in rbind (case t of None \<Rightarrow> Inr (None, False)
           | Some t' \<Rightarrow> (case tr_tls t' of None \<Rightarrow> Inr (None, False)
               | Some s \<Rightarrow> rbind (buildTLS lib s) (\<lambda>c. Inr (Some c, tl_insecure s)))) (\<lambda>(tls, insecure).
           Inr (\<lparr>ci_dial_timeout = 10 * second, ci_dial_keep_alive = 30 * second, ci_max_idle = idle * 2,
                 ci_max_idle_per_host = idle, ci_idle_timeout = 90 * second, ci_tls_timeout = 10 * second,
                 ci_continue_timeout = second, ci_http2 = http2, ci_disable_keep_alives = \<not> keepAlive,
                 ci_tls = tls\<rparr>, insecure)))"

record ('s, 'p, 'k) http_runner =
  hr_requests :: "request list"
  hr_picker :: weighted
  hr_phases :: "'s phase_stats"
  hr_client :: "('p, 'k) client"
  hr_insecure :: bool

definition New_http ::
  "'u world \<Rightarrow> ('p, 'k) cert_lib \<Rightarrow> 's sketch_ops option \<Rightarrow> http_section option \<Rightarrow> duration \<Rightarrow> 's collector \<Rightarrow>
   (('s, 'p, 'k) http_runner \<times> 's collector) result" where
  "New_http wd lib m cfg timeout c =
     (case cfg of
        None \<Rightarrow> Inl (new_error CodeInternal)
      | Some h \<Rightarrow>
          if ht_journeys h \<noteq> [] then Inl (error_at CodeConfigInvalidValue ''/http/journeys'')
          else rbind (newPhaseStats m) (\<lambda>stats.
            rbind (compile_steps wd h timeout (ht_requests h) c) (\<lambda>(qs, c').
              rbind (buildClient lib h) (\<lambda>(cl, insecure).
                Inr (\<lparr>hr_requests = qs,
                      hr_picker = NewWeighted (map (\<lambda>s. f_val (weightOr (hs_weight s))) (ht_requests h)),
                      hr_phases = stats, hr_client = cl, hr_insecure = insecure\<rparr>, c')))))"

definition http_labels :: "('s, 'p, 'k) http_runner \<Rightarrow> string list" where
  "http_labels r = map rq_name (hr_requests r)"

definition http_targets :: "'u world \<Rightarrow> ('s, 'p, 'k) http_runner \<Rightarrow> string list" where
  "http_targets wd r =
     first_seen [] (List.filter (\<lambda>h. h \<noteq> [])
       (List.map_filter (\<lambda>q. map_option (wd_hostname wd) (wd_parse wd (rq_url q))) (hr_requests r)))"

section \<open>Sending\<close>

text \<open>
  \<open>http.Header.Set\<close> stores a value under the canonical form of its key; a key with a byte that
  cannot stand in a header name is kept as it is. The headers of a request are a Go map, so they are set
  in an order the language leaves open: \<open>order\<close> lists them.
\<close>

definition token_char :: "char \<Rightarrow> bool" where
  "token_char c \<longleftrightarrow> is_upper c \<or> is_lower c \<or> is_digit c \<or> c \<in> set ''!#$%&*+-.^_`|~'' \<or> c = CHR 0x27"

fun canon_from :: "bool \<Rightarrow> string \<Rightarrow> string" where
  "canon_from up [] = []"
| "canon_from up (c # s) = (if up then upper_char c else lower_char c) # canon_from (c = CHR ''-'') s"

definition canonical_key :: "string \<Rightarrow> string" where
  "canonical_key k = (if list_all token_char k then canon_from True k else k)"

definition set_header :: "string \<times> string \<Rightarrow> (string \<rightharpoonup> string) \<Rightarrow> (string \<rightharpoonup> string)" where
  "set_header kv h = h(canonical_key (fst kv) \<mapsto> snd kv)"

definition RunIDHeader :: string where
  "RunIDHeader = ''X-Tracepoint-Run-Id''"

definition UserAgent :: "string \<Rightarrow> string \<Rightarrow> string" where
  "UserAgent version runID = ''tracepoint/'' @ version @ '' (+run='' @ runID @ '')''"

definition sent_headers :: "(string \<times> string) list \<Rightarrow> string \<Rightarrow> string \<Rightarrow> (string \<rightharpoonup> string)" where
  "sent_headers order version runID =
     set_header (RunIDHeader, runID) (set_header (''User-Agent'', UserAgent version runID)
       (fold set_header order Map.empty))"

datatype reply = NoReply fault | Reply int body

text \<open>
  What one operation meets: whether \<open>http.NewRequest\<close> accepts it, the hooks called before the reply is in
  hand and those called while the body is read, the reply, the context, and the two
  readings of the clock. \<open>Do\<close> records the outcome and adds to the phases.
\<close>

record exchange =
  xc_built :: bool
  xc_hooks :: "(hook \<times> int) list"
  xc_late :: "(hook \<times> int) list"
  xc_reply :: reply
  xc_scope :: go_ctx
  xc_now :: int
  xc_end :: int

definition Do_http ::
  "'s sketch_ops \<Rightarrow> ('r \<Rightarrow> real \<times> 'r) \<Rightarrow> iteration \<Rightarrow> exchange \<Rightarrow> 'r \<Rightarrow> ('s, 'p, 'k) http_runner \<Rightarrow>
   outcome \<times> 'r \<times> ('s, 'p, 'k) http_runner" where
  "Do_http ops draw it x rng r =
     (case Pick draw (hr_picker r) rng of (i, rng') \<Rightarrow>
      let req = hr_requests r ! i;
          o' = started it (rq_label req)
      in if \<not> xc_built x
         then (o'\<lparr>o_class := ClassOther, o_conn_acquired := xc_now x, o_end := xc_now x\<rparr>, rng', r)
         else let o' = o'\<lparr>o_bytes_out := int (length (rq_body req))\<rparr>; tr = traced (xc_hooks x)
         in case xc_reply x of
            NoReply f \<Rightarrow>
              (o'\<lparr>o_conn_acquired := connAcquiredOr tr (xc_now x), o_end := xc_end x,
                  o_class := classifyTransportError (xc_scope x) f\<rparr>, rng', r)
          | Reply status b \<Rightarrow>
              (case drain b (rq_expect req) of (n, readErr) \<Rightarrow>
               (o'\<lparr>o_status := status, o_conn_acquired := connAcquiredOr tr (o_worker_start o'),
                   o_first_byte := pt_first_byte tr, o_bytes_in := n, o_end := xc_end x,
                   o_class := (case readErr of Some f \<Rightarrow> classifyTransportError (xc_scope x) f
                               | None \<Rightarrow> classifyResponse status (rq_expect req) n)\<rparr>,
                rng', r\<lparr>hr_phases := observe ops (phases_of (traced (xc_hooks x @ xc_late x)) (xc_end x)) (hr_phases r)\<rparr>)))"

text \<open>Preflight: one request for each label; a response below 500 is good enough.\<close>

definition http_preflight :: "bool \<Rightarrow> reply \<Rightarrow> unit result" where
  "http_preflight built rep =
     (if \<not> built then Inl (new_error CodeConfigInvalidValue)
      else case rep of
          NoReply f \<Rightarrow> Inl (new_error (preflightCode f))
        | Reply status b \<Rightarrow> if 500 \<le> status then Inl (new_error CodePreflightHTTP) else Inr ())"

fun Prepare_http :: "(request \<Rightarrow> bool \<times> reply) \<Rightarrow> request list \<Rightarrow> unit result" where
  "Prepare_http answer [] = Inr ()"
| "Prepare_http answer (q # qs) =
     rbind (case answer q of (built, rep) \<Rightarrow> http_preflight built rep) (\<lambda>_. Prepare_http answer qs)"

section \<open>What the classes say\<close>

fun body_bytes :: "body \<Rightarrow> nat" where
  "body_bytes (Chunk n b) = n + body_bytes b"
| "body_bytes (Final n f) = n"

fun body_end :: "body \<Rightarrow> fault" where
  "body_end (Chunk n b) = body_end b"
| "body_end (Final n f) = f"

definition status_accepted :: "expect option \<Rightarrow> int \<Rightarrow> bool" where
  "status_accepted ex status \<longleftrightarrow> (case ex of
      Some e \<Rightarrow> if ep_status e \<noteq> [] then status \<in> set (ep_status e) else 200 \<le> status \<and> status < 400
    | None \<Rightarrow> 200 \<le> status \<and> status < 400)"

definition fits :: "expect option \<Rightarrow> int \<Rightarrow> bool" where
  "fits ex n \<longleftrightarrow> (case ex of Some e \<Rightarrow> 0 < ep_max_body_bytes e \<longrightarrow> n \<le> ep_max_body_bytes e | None \<Rightarrow> True)"

lemma statusClass_fails [simp]: "statusClass s \<noteq> ClassOK"
  by (simp add: statusClass_def)

lemma transport_fails [simp]: "classifyTransportError sc f \<noteq> ClassOK"
  by (simp add: classifyTransportError_def)

lemma classifyResponse_eq:
  "classifyResponse s ex n =
     (if \<not> fits ex n then ClassExpectFailed else if status_accepted ex s then ClassOK else statusClass s)"
  by (auto simp: classifyResponse_def fits_def status_accepted_def split: option.splits)

lemma fits_limit: "fits ex n \<longleftrightarrow> \<not> (0 < body_limit ex \<and> body_limit ex < n)"
  by (auto simp: fits_def body_limit_def split: option.splits)

lemma drain_from_eq:
  assumes "drain_from limit tot b = (n, e)"
  shows "if 0 < limit \<and> limit < tot + int (body_bytes b) then limit < n \<and> n \<le> tot + int (body_bytes b) \<and> e = None
    else n = tot + int (body_bytes b) \<and> e = (if is_a EndOfFile (body_end b) then None else Some (body_end b))"
  using assms
proof (induction b arbitrary: tot)
  case (Chunk k b)
  show ?case
  proof (cases "0 < limit \<and> limit < tot + int k")
    case True
    then show ?thesis using Chunk.prems by (auto simp: Let_def)
  next
    case False
    then have d: "drain_from limit (tot + int k) b = (n, e)" using Chunk.prems by (auto simp: Let_def split: if_splits)
    have "tot + int (body_bytes (Chunk k b)) = tot + int k + int (body_bytes b)" by simp
    then show ?thesis using Chunk.IH[OF d] by (simp only: body_end.simps)
  qed
qed (auto simp: Let_def split: if_splits)

lemma drain_eq:
  "drain b ex = (n, e) \<Longrightarrow>
    if fits ex (int (body_bytes b)) then n = int (body_bytes b) \<and> e = (if is_a EndOfFile (body_end b) then None else Some (body_end b))
    else \<not> fits ex n \<and> n \<le> int (body_bytes b) \<and> e = None"
  unfolding drain_def fits_limit using drain_from_eq[of "body_limit ex" 0 b n e] by (auto split: if_splits)

section \<open>What the phases say\<close>

abbreviation names :: "(hook \<times> int) list \<Rightarrow> hook set" where
  "names hs \<equiv> fst ` set hs"

lemma on_hook_kept:
  "GetConn \<notin> names hs \<Longrightarrow> pt_get_conn (fold on_hook hs p) = pt_get_conn p"
  "GotFirstResponseByte \<notin> names hs \<Longrightarrow> pt_first_byte (fold on_hook hs p) = pt_first_byte p"
  "GotConn True \<notin> names hs \<Longrightarrow> GotConn False \<notin> names hs \<Longrightarrow> pt_got_conn (fold on_hook hs p) = pt_got_conn p
     \<and> pt_have_conn (fold on_hook hs p) = pt_have_conn p \<and> pt_reused (fold on_hook hs p) = pt_reused p"
proof (induction hs arbitrary: p)
  case (Cons h hs)
  { case 1 then show ?case using Cons.IH(1) by (cases "(h, p)" rule: on_hook.cases) auto
  next
    case 2 then show ?case using Cons.IH(2) by (cases "(h, p)" rule: on_hook.cases) auto
  next
    case 3 then show ?case using Cons.IH(3) by (cases "(h, p)" rule: on_hook.cases) auto }
qed simp_all

definition stamps_in :: "int \<Rightarrow> phase_trace \<Rightarrow> bool" where
  "stamps_in e p \<longleftrightarrow> (\<forall>f \<in> {pt_get_conn, pt_got_conn, pt_dns_start, pt_dns_done, pt_connect_start,
     pt_connect_done, pt_tls_start, pt_tls_done, pt_first_byte}. 0 \<le> f p \<and> f p \<le> e)"

lemma traced_in: "\<forall>h \<in> set hs. 0 \<le> snd h \<and> snd h \<le> e \<Longrightarrow> stamps_in e p \<Longrightarrow> stamps_in e (fold on_hook hs p)"
proof (induction hs arbitrary: p)
  case (Cons h hs)
  have "stamps_in e (on_hook h p)"
    using Cons.prems by (cases "(h, p)" rule: on_hook.cases) (auto simp: stamps_in_def)
  then show ?case using Cons by simp
qed simp

definition phase_list :: "phases \<Rightarrow> int list" where
  "phase_list p = [ph_dns p, ph_connect p, ph_tls p, ph_conn_wait p, ph_ttfb p, ph_transfer p]"

lemma phases_in: "stamps_in e p \<Longrightarrow> d \<in> set (phase_list (phases_of p e)) \<Longrightarrow> 0 \<le> d \<and> d \<le> e"
  by (auto simp: stamps_in_def phases_of_def phase_list_def)

text \<open>No time of a request is lost or counted twice: for a request whose hooks are called in order, its
  last connection asked for at \<open>t0\<close>, in hand at \<open>t1\<close>, and the first byte back at \<open>t2\<close>, the waits for the
  connection, for the first byte and for the body add up to the time from \<open>t0\<close> to the end, each phase lies
  inside the request, and the flags are those of that connection.\<close>

theorem phases_account:
  assumes "hs = as @ (GetConn, t0) # bs @ (GotConn reused, t1) # cs @ (GotFirstResponseByte, t2) # ds"
    and "sorted (map snd hs)" "\<forall>h \<in> set hs. 0 \<le> snd h \<and> snd h \<le> e" "0 < t2"
    and "names (bs @ cs @ ds) \<inter> {GetConn, GotConn True, GotConn False} = {}" "GotFirstResponseByte \<notin> names ds"
  shows "let p = phases_of (traced hs) e in
    ph_conn_wait p = t1 - t0 \<and> ph_conn_wait p + ph_ttfb p + ph_transfer p = e - t0 \<and>
    (\<forall>d \<in> set (phase_list p). 0 \<le> d \<and> d \<le> e) \<and> ph_connected p \<and> ph_reused p = reused"
proof -
  let ?t = "traced hs"
  have free: "GetConn \<notin> names xs" "GotConn True \<notin> names xs" "GotConn False \<notin> names xs" if "xs \<in> {bs, cs, ds}" for xs
    using assms(5) that by auto
  have "0 \<le> e" using assms(1,3) by force
  then have inside: "stamps_in e ?t"
    unfolding traced_def by (intro traced_in[OF assms(3)]) (simp add: stamps_in_def no_trace_def)
  have "pt_get_conn ?t = t0 \<and> pt_got_conn ?t = t1 \<and> pt_first_byte ?t = t2 \<and> pt_have_conn ?t \<and> pt_reused ?t = reused"
    unfolding traced_def assms(1) using free assms(6) by (simp add: on_hook_kept)
  moreover have "t0 \<le> t1 \<and> t1 \<le> t2 \<and> t2 \<le> e"
    using assms(2,3) unfolding assms(1) by (auto simp: sorted_append)
  ultimately show ?thesis using phases_in[OF inside] assms(4) unfolding Let_def by (auto simp: phases_of_def)
qed

theorem phases_account_witness:
  "let p = phases_of (traced [(GetConn, 10), (DNSStart, 11), (DNSDone, 14), (GotConn False, 20), (GotFirstResponseByte, 70)]) 75 in
     ph_conn_wait p = 10 \<and> ph_conn_wait p + ph_ttfb p + ph_transfer p = 65 \<and> ph_connected p"
  using phases_account[of "[(GetConn, 10), (DNSStart, 11), (DNSDone, 14), (GotConn False, 20), (GotFirstResponseByte, 70)]"
      "[]" 10 "[(DNSStart, 11), (DNSDone, 14)]" False 20 "[]" 70 "[]" 75]
  by (simp add: Let_def)

section \<open>One operation\<close>

inductive http_does ::
  "'s sketch_ops \<Rightarrow> ('r \<Rightarrow> real \<times> 'r) \<Rightarrow> ('s, 'p, 'k) http_runner \<Rightarrow> iteration \<Rightarrow> outcome list \<Rightarrow> bool"
  for ops draw r where
  "Do_http ops draw it x rng (r\<lparr>hr_phases := ph\<rparr>) = (o', rng', r') \<Longrightarrow> http_does ops draw r it [o']"

lemma Do_http_stamped: "Do_http ops draw it x rng r = (o', rng', r') \<Longrightarrow> stamped it o'"
  by (auto simp: Do_http_def Let_def split: prod.splits if_splits reply.splits)

text \<open>Between operations only the phases change, so the runner is the one that was built.\<close>

lemma Do_http_runner:
  "Do_http ops draw it x rng r = (o', rng', r') \<Longrightarrow> \<exists>ph. r' = r\<lparr>hr_phases := ph\<rparr>"
  by (cases r) (auto simp: Do_http_def Let_def split: prod.splits if_splits reply.splits)

interpretation http_run: one_outcome "http_does ops draw r"
  by unfold_locales (auto elim!: http_does.cases dest: Do_http_stamped)

text \<open>A request that never had a connection is charged for nothing but the failure itself.\<close>

lemma traced_conn: "pt_have_conn (fold on_hook hs p) \<longleftrightarrow> pt_have_conn p \<or> GotConn True \<in> names hs \<or> GotConn False \<in> names hs"
proof (induction hs arbitrary: p)
  case (Cons h hs)
  show ?case
  proof (cases "fst h")
    case (GotConn r)
    then show ?thesis using Cons by (cases h; cases r) auto
  qed (use Cons in \<open>cases h; auto\<close>)+
qed simp

lemma no_connection:
  assumes "Do_http ops draw it x rng r = (o', rng', r')" "xc_built x" "xc_reply x = NoReply f"
    "names (xc_hooks x) \<inter> {GotConn True, GotConn False} = {}"
  shows "o_conn_acquired o' = xc_now x \<and> o_end o' = xc_end x \<and> o_class o' = classifyTransportError (xc_scope x) f"
proof -
  have "\<not> pt_have_conn (traced (xc_hooks x))"
    using assms(4) by (auto simp: traced_def traced_conn no_trace_def)
  with assms(1-3) show ?thesis
    by (auto simp: Do_http_def Let_def connAcquiredOr_def split: prod.splits)
qed

text \<open>An answered request is a success exactly when its body stays within the limit, is read to its end and
  the status is one that was expected, or 2xx and 3xx when none was named. A body over the limit is a
  failed expectation whatever the status; otherwise all of it is counted, and an unexpected
  status is classified by what it was.\<close>

theorem http_outcome:
  assumes "Do_http ops draw it x rng r = (o', rng', r')" "Pick draw (hr_picker r) rng = (i, rng1)"
    "xc_built x" "xc_reply x = Reply status b" "ex = rq_expect (hr_requests r ! i)" "n = int (body_bytes b)"
  shows "stamped it o' \<and> o_label o' = rq_label (hr_requests r ! i) \<and> o_status o' = status \<and>
    (o_class o' = ClassOK \<longleftrightarrow> fits ex n \<and> is_a EndOfFile (body_end b) \<and> status_accepted ex status) \<and>
    (\<not> fits ex n \<longrightarrow> o_class o' = ClassExpectFailed \<and> \<not> fits ex (o_bytes_in o')) \<and>
    (fits ex n \<longrightarrow> o_bytes_in o' = n \<and>
       (is_a EndOfFile (body_end b) \<and> \<not> status_accepted ex status \<longrightarrow> o_class o' = statusClass status))"
proof -
  obtain m e where d: "drain b ex = (m, e)" by (cases "drain b ex")
  have "stamped it o'" by (rule Do_http_stamped[OF assms(1)])
  moreover have "o_label o' = rq_label (hr_requests r ! i)" "o_status o' = status" "o_bytes_in o' = m"
    "o_class o' = (case e of Some f \<Rightarrow> classifyTransportError (xc_scope x) f | None \<Rightarrow> classifyResponse status ex m)"
    using assms(1-5) d by (auto simp: Do_http_def Let_def)
  ultimately show ?thesis using drain_eq[OF d] assms(6)
    by (auto simp: classifyResponse_eq split: option.splits if_splits)
qed

section \<open>The run's breakdown\<close>

lemma observe_fold:
  "st_dns (fold (observe ops) ps s) = fold (observe_phase ops) (map ph_dns ps) (st_dns s)"
  "st_connect (fold (observe ops) ps s) = fold (observe_phase ops) (map ph_connect ps) (st_connect s)"
  "st_tls (fold (observe ops) ps s) = fold (observe_phase ops) (map ph_tls ps) (st_tls s)"
  "st_conn_wait (fold (observe ops) ps s) = fold (observe_phase ops) (map ph_conn_wait ps) (st_conn_wait s)"
  "st_ttfb (fold (observe ops) ps s) = fold (observe_phase ops) (map ph_ttfb ps) (st_ttfb s)"
  "st_transfer (fold (observe ops) ps s) = fold (observe_phase ops) (map ph_transfer ps) (st_transfer s)"
  "st_requests (fold (observe ops) ps s) = st_requests s + int (length ps)"
  "st_reused (fold (observe ops) ps s) = st_reused s + int (length (filter ph_reused ps))"
  by (induction ps arbitrary: s) (auto simp: observe_def)

lemma series_fold:
  assumes "\<And>v s. sk_add ops v s \<noteq> None"
  shows "ps_n (fold (observe_phase ops) ds s) = ps_n s + int (length (filter (\<lambda>d. 0 < d) ds))
    \<and> ps_sum (fold (observe_phase ops) ds s) = ps_sum s + (\<Sum>d \<leftarrow> filter (\<lambda>d. 0 < d) ds. ms d)"
proof (induction ds arbitrary: s)
  case (Cons d ds)
  have "0 < d \<Longrightarrow> \<exists>s'. observe_phase ops d s = s' \<and> ps_n s' = ps_n s + 1 \<and> ps_sum s' = ps_sum s + ms d"
    using assms[of "ms d" "ps_sketch s"] by (auto simp: observe_phase_def series_add_def ms_def)
  then show ?case using Cons[of "observe_phase ops d s"] by (auto simp: observe_phase_def)
qed simp

text \<open>The breakdown of a run: every answered request is counted, the reuse ratio is the share served on a
  reused connection, and each of the six series holds exactly the phases that did happen, so a
  reused connection adds no zero to the lookups.\<close>

theorem phase_totals:
  assumes "newPhaseStats (Some ops) = Inr s" "\<And>v s. sk_add ops v s \<noteq> None"
  shows "let t = fold (observe ops) ps s in
    st_requests t = int (length ps) \<and>
    reuseRatio t * real (length ps) = real (length (filter ph_reused ps)) \<and> 0 \<le> reuseRatio t \<and> reuseRatio t \<le> 1 \<and>
    (\<forall>(get, ph) \<in> {(st_dns, ph_dns), (st_connect, ph_connect), (st_tls, ph_tls), (st_conn_wait, ph_conn_wait),
                    (st_ttfb, ph_ttfb), (st_transfer, ph_transfer)}.
       let did = filter (\<lambda>d. 0 < d) (map ph ps)
       in ps_n (get t) = int (length did) \<and> ps_sum (get t) = sum_list (map ms did))"
proof -
  have zero: "st_requests s = 0" "st_reused s = 0"
    "\<forall>get \<in> {st_dns, st_connect, st_tls, st_conn_wait, st_ttfb, st_transfer}. ps_n (get s) = 0 \<and> ps_sum (get s) = 0"
    using assms(1) by (auto simp: newPhaseStats_def newPhaseSeries_def)
  let ?t = "fold (observe ops) ps s"
  have "length (filter ph_reused ps) \<le> length ps" by (rule length_filter_le)
  then have share: "st_requests ?t = int (length ps)" "reuseRatio ?t * real (length ps) = real (length (filter ph_reused ps))"
    "0 \<le> reuseRatio ?t" "reuseRatio ?t \<le> 1"
    by (auto simp: reuseRatio_def observe_fold zero divide_le_eq_1)
  show ?thesis
    unfolding Let_def using share zero(3)
    by (simp add: observe_fold series_fold[OF assms(2)])
qed

definition seen_phases :: phases where
  "seen_phases = \<lparr>ph_dns = 0, ph_connect = 0, ph_tls = 0, ph_conn_wait = 2000000, ph_ttfb = 7, ph_transfer = 0,
     ph_reused = True, ph_connected = True\<rparr>"

theorem phase_totals_witness:
  "\<exists>s. newPhaseStats (Some no_sketch) = Inr s \<and>
    (let t = fold (observe no_sketch) [seen_phases, seen_phases\<lparr>ph_reused := False, ph_conn_wait := 0\<rparr>] s
     in st_requests t = 2 \<and> reuseRatio t = 1 / 2 \<and> ps_n (st_conn_wait t) = 1 \<and> ps_sum (st_conn_wait t) = 2)"
proof -
  obtain s :: "unit phase_stats" where s: "newPhaseStats (Some no_sketch) = Inr s"
    by (simp add: newPhaseStats_def newPhaseSeries_def)
  have "sk_add no_sketch v s \<noteq> None" for v s by (simp add: no_sketch_def)
  from phase_totals[OF s this, of "[seen_phases, seen_phases\<lparr>ph_reused := False, ph_conn_wait := 0\<rparr>]"]
  show ?thesis using s by (auto simp: Let_def ms_def seen_phases_def)
qed

definition small_request :: request where
  "small_request = \<lparr>rq_name = ''home'', rq_method = ''GET'', rq_url = ''http://h/'', rq_headers = Map.empty,
     rq_body = [], rq_timeout = second, rq_expect = Some \<lparr>ep_status = [200], ep_json = [], ep_max_body_bytes = 5\<rparr>,
     rq_label = 3\<rparr>"

definition small_http :: "(unit, unit, unit) http_runner" where
  "small_http = \<lparr>hr_requests = [small_request], hr_picker = NewWeighted [1],
     hr_phases = (let s = \<lparr>ps_sketch = (), ps_n = 0, ps_sum = 0, ps_max = 0\<rparr> in
       \<lparr>st_dns = s, st_connect = s, st_tls = s, st_conn_wait = s, st_ttfb = s, st_transfer = s,
        st_requests = 0, st_reused = 0\<rparr>),
     hr_client = \<lparr>ci_dial_timeout = 0, ci_dial_keep_alive = 0, ci_max_idle = 2, ci_max_idle_per_host = 1,
       ci_idle_timeout = 0, ci_tls_timeout = 0, ci_continue_timeout = 0, ci_http2 = True,
       ci_disable_keep_alives = False, ci_tls = None\<rparr>, hr_insecure = False\<rparr>"

definition eof :: fault where
  "eof = \<lparr>ft_chain = [EndOfFile], ft_timeout = None, ft_text = ''EOF''\<rparr>"

definition small_exchange :: exchange where
  "small_exchange = \<lparr>xc_built = True, xc_hooks = [(GetConn, 1), (GotConn True, 2)], xc_late = [],
     xc_reply = Reply 200 (Chunk 4 (Final 3 eof)), xc_scope = open_scope, xc_now = 9, xc_end = 10\<rparr>"

definition small_iteration :: iteration where
  "small_iteration = \<lparr>it_index = 0, it_worker = 0, it_intended = 5, it_dispatched = 6, it_worker_start = 7\<rparr>"

theorem http_outcome_witness:
  "o_class (fst (Do_http no_sketch (\<lambda>r. (0, r)) small_iteration small_exchange () small_http)) = ClassExpectFailed"
proof -
  let ?d = "Do_http no_sketch (\<lambda>r. (0, r)) small_iteration small_exchange () small_http"
  obtain o' rng' r' where d: "?d = (o', rng', r')" by (cases ?d)
  have "Pick (\<lambda>r. (0, r)) (hr_picker small_http) () = (0, ())"
    by (simp add: Pick_def small_http_def NewWeighted_def)
  from http_outcome[OF d this, of 200 "Chunk 4 (Final 3 eof)" "rq_expect small_request" 7]
  show ?thesis using d by (simp add: small_exchange_def small_http_def small_request_def fits_def)
qed

section \<open>What is compiled and sent\<close>

lemma compile_step_name: "compile_step wd cfg timeout src = Inr q \<Longrightarrow> rq_name q = hs_name src"
  by (auto simp: compile_step_def rbind_Inr split: if_splits)

lemma compile_steps_names:
  "compile_steps wd cfg timeout ss c = Inr (qs, c') \<Longrightarrow> map rq_name qs = map hs_name ss"
proof (induction ss arbitrary: c qs)
  case (Cons s ss)
  obtain k c1 where l: "LabelID (hs_name s) c = (k, c1)" by (cases "LabelID (hs_name s) c")
  with Cons.prems obtain q qs' where "compile_step wd cfg timeout s = Inr q"
    "compile_steps wd cfg timeout ss c1 = Inr (qs', c')" "qs = q\<lparr>rq_label := int k\<rparr> # qs'"
    by (auto simp: rbind_Inr)
  then show ?case using Cons.IH compile_step_name by auto
qed simp

text \<open>The labels a runner reports are those the collector of its section was given.\<close>

lemma New_http_labels:
  assumes "New_http wd lib m (cf_http cf) timeout c = Inr (r, c')"
  shows "http_labels r = Config.Labels cf ''http''"
  using assms compile_steps_names
  by (fastforce simp: New_http_def http_labels_def Config.Labels_def rbind_Inr split: option.splits if_splits)

text \<open>Every request carries the run's identity, whatever headers were configured.\<close>

lemma identified:
  "sent_headers order version runID RunIDHeader = Some runID"
  "sent_headers order version runID ''User-Agent'' = Some (UserAgent version runID)"
proof -
  have "canonical_key RunIDHeader = RunIDHeader" "canonical_key ''User-Agent'' = ''User-Agent''"
    "RunIDHeader \<noteq> ''User-Agent''" by code_simp+
  then show "sent_headers order version runID RunIDHeader = Some runID"
    "sent_headers order version runID ''User-Agent'' = Some (UserAgent version runID)"
    by (simp_all add: sent_headers_def set_header_def)
qed

text \<open>Tokens are looked for in the URL and the body only; one in a header is sent as it is written.\<close>

lemma header_token_sent:
  assumes "compile_step wd cfg timeout src = Inr q" "hs_headers src k = Some v"
  shows "rq_headers q k = Some v"
  using assms by (auto simp: compile_step_def rbind_Inr split: if_splits)

text \<open>The idle pool is never smaller than the concurrency it was sized for.\<close>

lemma buildClient_idle:
  assumes "buildClient lib cfg = Inr (cl, insecure)" "ht_transport cfg = None" "0 < xs_max_in_flight (ht_executor cfg)"
  shows "ci_max_idle_per_host cl = xs_max_in_flight (ht_executor cfg) \<and> \<not> insecure"
  using assms by (auto simp: buildClient_def Let_def)

end
