(* ===== verification/SqlRun.thy ===== *)
theory SqlRun
  imports Faults Apply Template Weighted
begin

text \<open>
  The SQL runner, \<open>internal/runner/sqlrun\<close>: compiling the queries, the comment that marks a
  statement, the pool, preflight, and one operation with the calls it makes on \<open>database/sql\<close>.
  The database is a parameter: it answers each call from the calls before it.
\<close>

section \<open>Drivers\<close>

definition drivers :: "(string \<times> string) list" where
  "drivers = [(''postgres'', ''pgx''), (''mysql'', ''mysql''), (''sqlite'', ''sqlite'')]"

definition Drivers :: "string list" where
  "Drivers = [''mysql'', ''postgres'', ''sqlite'']"

lemma Drivers_listing: "Drivers = sort (map fst drivers)"
  by code_simp

section \<open>Marking statements\<close>

text \<open>Control characters and delete, as \<open>strings.Map\<close> drops them.\<close>

definition control_char :: "char \<Rightarrow> bool" where
  "control_char c \<longleftrightarrow> code_of c < 32 \<or> code_of c = 127"

definition quote1 :: char where "quote1 = CHR 0x27"

definition sanitiseComment :: "string \<Rightarrow> string" where
  "sanitiseComment s =
     (let s = replace_all s ''*/'' []; s = replace_all s [quote1] []
      in filter (\<lambda>c. \<not> control_char c) s)"

definition comment :: "bool \<Rightarrow> string \<Rightarrow> string \<Rightarrow> string" where
  "comment on runID label =
     (if \<not> on then []
      else ''/* tracepoint_run='' @ [quote1] @ sanitiseComment runID @ [quote1] @ '',label='' @ [quote1]
        @ sanitiseComment label @ [quote1] @ '' */ '')"

section \<open>Compiling\<close>

record statement =
  sx_tpl :: "yaml template"
  sx_text :: string
  sx_args :: "yaml template list"
  sx_prepped :: bool

record unit_of_work =
  un_name :: string
  un_label :: int
  un_op :: op
  un_tx :: bool
  un_stmts :: "statement list"
  un_timeout :: duration
  un_prepare :: bool

text \<open>What the YAML decoder puts in an \<open>any\<close>.\<close>

fun go_value :: "yaml \<Rightarrow> yaml val" where
  "go_value (YStr s) = VStr s"
| "go_value (YInt n) = VInt n"
| "go_value YNull = VNil"
| "go_value y = VAny y"

definition compileArg :: "(yaml val \<Rightarrow> string) \<Rightarrow> arg \<Rightarrow> yaml template result" where
  "compileArg sp a = (case ar_value a of
      YStr s \<Rightarrow> Template.Compile s
    | y \<Rightarrow> Inr (Literal sp (go_value y)))"

fun wrapTemplate :: "'a result \<Rightarrow> 'a result" where
  "wrapTemplate (Inl e) = Inl (with_path ''/db/queries'' e)"
| "wrapTemplate (Inr x) = Inr x"

text \<open>A declared type wins; any type but \<open>write\<close> is then carried out as a read.\<close>

definition declared_op :: "string \<Rightarrow> op" where
  "declared_op type = (if type = ''write'' then OpWrite else OpRead)"

definition inferred_op :: "string list \<Rightarrow> op" where
  "inferred_op sqls = foldl (\<lambda>op sql. if c_op (ClassifySQL sql) = OpWrite then OpWrite else op) OpRead sqls"

definition raw_statements :: "query \<Rightarrow> (string \<times> arg list) list" where
  "raw_statements src = (if qu_sql src \<noteq> [] then [(qu_sql src, qu_args src)] else [])
     @ map (\<lambda>t. (tx_sql t, tx_args t)) (qu_tx src)"

fun compile_args :: "(yaml val \<Rightarrow> string) \<Rightarrow> arg list \<Rightarrow> yaml template list result" where
  "compile_args sp [] = Inr []"
| "compile_args sp (a # as) =
     rbind (wrapTemplate (compileArg sp a)) (\<lambda>t. rbind (compile_args sp as) (\<lambda>ts. Inr (t # ts)))"

fun compile_raw :: "(yaml val \<Rightarrow> string) \<Rightarrow> string \<Rightarrow> (string \<times> arg list) list \<Rightarrow> statement list result" where
  "compile_raw sp mark [] = Inr []"
| "compile_raw sp mark ((sql, args) # rest) =
     rbind (wrapTemplate (Template.Compile sql)) (\<lambda>tpl.
       rbind (compile_args sp args) (\<lambda>as.
         rbind (compile_raw sp mark rest) (\<lambda>sts.
           Inr (\<lparr>sx_tpl = tpl, sx_text = (if IsStatic tpl then mark @ Static tpl else []),
                 sx_args = as, sx_prepped = False\<rparr> # sts))))"

text \<open>What the runner is given: the section, the run's id, the default timeout and \<open>fmt.Sprint\<close>.\<close>

record sql_deps =
  sd_run_id :: string
  sd_timeout :: duration
  sd_sprint :: "yaml val \<Rightarrow> string"

definition mark_of :: "db_section \<Rightarrow> sql_deps \<Rightarrow> string \<Rightarrow> string" where
  "mark_of cfg d label = comment (db_comment_queries cfg) (sd_run_id d) label"

definition compile_query ::
  "db_section \<Rightarrow> sql_deps \<Rightarrow> query \<Rightarrow> 's collector \<Rightarrow> (unit_of_work \<times> 's collector) result" where
  "compile_query cfg d src c =
     (case LabelID (qu_name src) c of (i, c') \<Rightarrow>
      rbind (compile_raw (sd_sprint d) (mark_of cfg d (qu_name src)) (raw_statements src)) (\<lambda>sts.
        Inr (\<lparr>un_name = qu_name src, un_label = int i,
              un_op = (if qu_type src \<noteq> [] then declared_op (qu_type src)
                       else inferred_op (map fst (raw_statements src))),
              un_tx = (qu_tx src \<noteq> []), un_stmts = sts,
              un_timeout = (case qu_timeout src of Some t \<Rightarrow> t | None \<Rightarrow> sd_timeout d),
              un_prepare = qu_prepare src\<rparr>, c')))"

fun compile_queries ::
  "db_section \<Rightarrow> sql_deps \<Rightarrow> query list \<Rightarrow> 's collector \<Rightarrow> (unit_of_work list \<times> 's collector) result" where
  "compile_queries cfg d [] c = Inr ([], c)"
| "compile_queries cfg d (q # qs) c =
     rbind (compile_query cfg d q c) (\<lambda>(u, c').
       rbind (compile_queries cfg d qs c') (\<lambda>(us, c''). Inr (u # us, c'')))"

section \<open>Connecting\<close>

text \<open>\<open>tag_url\<close> parses a URL and prints it with \<open>application_name\<close> set, \<open>None\<close> when it does not parse.\<close>

definition tagDSN :: "(string \<Rightarrow> string \<Rightarrow> string option) \<Rightarrow> db_section \<Rightarrow> string \<Rightarrow> string \<Rightarrow> string \<Rightarrow> string result" where
  "tagDSN tag_url cfg runID driver dsn =
     (let tag = ''tracepoint/'' @ runID
      in if db_tag_sessions cfg = Some False then Inr dsn
         else if driver \<noteq> ''postgres'' then Inr dsn
         else if contains dsn ''application_name'' then Inr dsn
         else if contains dsn ''://'' then
           (case tag_url dsn tag of None \<Rightarrow> Inl (error_at CodeConfigInvalidValue ''/db/dsn'') | Some s \<Rightarrow> Inr s)
         else Inr (dsn @ '' application_name='' @ [quote1] @ tag @ [quote1]))"

record pool_settings =
  pl_max_open :: int
  pl_max_idle :: int
  pl_lifetime :: "duration option"
  pl_idle_time :: "duration option"

definition configurePool :: "db_section \<Rightarrow> pool_settings" where
  "configurePool cfg =
     (let workers = xs_max_in_flight (db_executor cfg); workers = (if workers \<le> 0 then 16 else workers)
      in case db_pool cfg of
           None \<Rightarrow> \<lparr>pl_max_open = workers, pl_max_idle = workers, pl_lifetime = None, pl_idle_time = None\<rparr>
         | Some p \<Rightarrow>
             let maxOpen = (if 0 < po_max_open p then po_max_open p else workers);
                 maxIdle = (if 0 < po_max_idle p then po_max_idle p else maxOpen)
             in \<lparr>pl_max_open = maxOpen, pl_max_idle = maxIdle, pl_lifetime = po_conn_max_lifetime p,
                 pl_idle_time = po_conn_max_idle_time p\<rparr>)"

record sql_runner =
  sr_units :: "unit_of_work list"
  sr_picker :: weighted
  sr_driver :: string
  sr_pool :: pool_settings
  sr_reads :: int
  sr_writes :: int

text \<open>\<open>open_db\<close> is \<open>sql.Open\<close>: whether the driver accepts the connection string.\<close>

definition New_sql ::
  "(string \<Rightarrow> string \<Rightarrow> string option) \<Rightarrow> (string \<Rightarrow> string \<Rightarrow> bool) \<Rightarrow> db_section option \<Rightarrow> sql_deps \<Rightarrow> 's collector \<Rightarrow>
   (sql_runner \<times> 's collector) result" where
  "New_sql tag_url open_db cfg d c =
     (case cfg of
        None \<Rightarrow> Inl (new_error CodeInternal)
      | Some s \<Rightarrow>
          let driver = NormaliseDriver (db_driver s)
          in case map_of drivers driver of
               None \<Rightarrow> Inl (error_at CodePreflightDriverUnknown ''/db/driver'')
             | Some sql_driver \<Rightarrow>
                 rbind (compile_queries s d (db_queries s) c) (\<lambda>(us, c').
                   rbind (tagDSN tag_url s (sd_run_id d) driver (db_dsn s)) (\<lambda>dsn.
                     if \<not> open_db sql_driver dsn then Inl (error_at CodeConfigInvalidValue ''/db/dsn'')
                     else Inr (\<lparr>sr_units = us,
                                sr_picker = NewWeighted (map (\<lambda>q. f_val (weightOr (qu_weight q))) (db_queries s)),
                                sr_driver = driver, sr_pool = configurePool s, sr_reads = 0, sr_writes = 0\<rparr>, c'))))"

definition sql_labels :: "sql_runner \<Rightarrow> string list" where
  "sql_labels r = map un_name (sr_units r)"

definition staticText :: "string \<Rightarrow> statement \<Rightarrow> string option" where
  "staticText mark st =
     (if sx_text st \<noteq> [] then Some (sx_text st)
      else if IsStatic (sx_tpl st) then Some (mark @ Static (sx_tpl st)) else None)"

text \<open>Preflight asks the database to parse every statement that needs no rendering; \<open>parses\<close> answers.\<close>

fun prepare_stmts :: "(string \<Rightarrow> bool) \<Rightarrow> string \<Rightarrow> bool \<Rightarrow> statement list \<Rightarrow> statement list result" where
  "prepare_stmts parses mark hold [] = Inr []"
| "prepare_stmts parses mark hold (st # sts) =
     rbind (case staticText mark st of
         None \<Rightarrow> Inr st
       | Some text \<Rightarrow> if \<not> parses text then Inl (error_at CodePreflightDBPrepare ''/db/queries'')
                      else Inr (if hold then st\<lparr>sx_prepped := True\<rparr> else st))
       (\<lambda>st'. rbind (prepare_stmts parses mark hold sts) (\<lambda>sts'. Inr (st' # sts')))"

fun prepare_units :: "(string \<Rightarrow> bool) \<Rightarrow> (string \<Rightarrow> string) \<Rightarrow> unit_of_work list \<Rightarrow> unit_of_work list result" where
  "prepare_units parses mark [] = Inr []"
| "prepare_units parses mark (u # us) =
     rbind (prepare_stmts parses (mark (un_name u)) (un_prepare u) (un_stmts u)) (\<lambda>sts.
       rbind (prepare_units parses mark us) (\<lambda>us'. Inr (u\<lparr>un_stmts := sts\<rparr> # us')))"

definition Prepare_sql :: "bool \<Rightarrow> (string \<Rightarrow> bool) \<Rightarrow> (string \<Rightarrow> string) \<Rightarrow> sql_runner \<Rightarrow> sql_runner result" where
  "Prepare_sql answers parses mark r =
     (if \<not> answers then Inl (new_error CodePreflightDBPing)
      else rbind (prepare_units parses mark (sr_units r)) (\<lambda>us. Inr (r\<lparr>sr_units := us\<rparr>)))"

section \<open>Classification\<close>

definition poolClass :: "go_ctx \<Rightarrow> fault \<Rightarrow> outcome_class" where
  "poolClass sc f =
     (if is_a Canceled f then ClassCanceled
      else if is_a DeadlineExceeded f then ClassPoolTimeout
      else if gc_err sc \<noteq> None then ClassCanceled
      else ClassConnection)"

definition sql_conn_words :: "string list" where
  "sql_conn_words = [''connection refused'', ''connection reset'', ''broken pipe'', ''server closed'',
     ''bad connection'', ''no such host'']"

definition classify_sql_error :: "go_ctx \<Rightarrow> fault \<Rightarrow> outcome_class" where
  "classify_sql_error sc f =
     (if is_a DeadlineExceeded f then ClassTimeout
      else if is_a Canceled f then ClassCanceled
      else if is_a ConnDone f \<or> is_a LocalBadConn f then ClassConnection
      else if gc_err sc \<noteq> None then ClassCanceled
      else if says_lower f sql_conn_words then ClassConnection
      else if says_lower f [''timeout'', ''deadline''] then ClassTimeout
      else if says_lower f [''tls'', ''certificate''] then ClassTLS
      else ClassQueryError)"

section \<open>One operation\<close>

text \<open>
  The calls on the connection. A statement runs on the connection, in the transaction, or as a
  prepared statement of the pool, alone or bound to the transaction. Reading rows is a call for each row,
  one that finds no more, and the close.
\<close>

datatype via = OnConn | OnTx | OnStmt | OnTxStmt

datatype sql_call = BeginTx | ExecCall via string "yaml val list" | QueryCall via string "yaml val list"
  | NextRow | CloseRows | Commit | Rollback

record database =
  db_answer :: "sql_call list \<Rightarrow> sql_call \<Rightarrow> fault option"
  db_rows :: "sql_call list \<Rightarrow> nat \<times> fault option"

datatype ended = Done | Erred fault | Crashed

record 'r sql_env =
  ev_rand :: "'r rand_ops"
  ev_pr :: "yaml printers"
  ev_say :: "coded_error \<Rightarrow> string"
  ev_db :: database
  ev_mark :: "string \<Rightarrow> string"

definition fault_of :: "(coded_error \<Rightarrow> string) \<Rightarrow> coded_error \<Rightarrow> fault" where
  "fault_of say e = \<lparr>ft_chain = [OtherMark], ft_timeout = None, ft_text = say e\<rparr>"

fun stopped :: "(coded_error \<Rightarrow> string) \<Rightarrow> stop \<Rightarrow> ended" where
  "stopped say (Failed e) = Erred (fault_of say e)"
| "stopped say Panicked = Crashed"

definition via_of :: "bool \<Rightarrow> statement \<Rightarrow> via" where
  "via_of tx st = (if tx \<and> sx_prepped st then OnTxStmt else if tx then OnTx
     else if sx_prepped st then OnStmt else OnConn)"

definition sql_exec :: "database \<Rightarrow> bool \<Rightarrow> statement \<Rightarrow> string \<Rightarrow> yaml val list \<Rightarrow> sql_call list \<Rightarrow> ended \<times> sql_call list" where
  "sql_exec db tx st text args calls =
     (let c = ExecCall (via_of tx st) text args
      in (case db_answer db calls c of Some f \<Rightarrow> Erred (wrapped ''executing'' f) | None \<Rightarrow> Done, calls @ [c]))"

definition sql_query :: "database \<Rightarrow> bool \<Rightarrow> statement \<Rightarrow> string \<Rightarrow> yaml val list \<Rightarrow> sql_call list \<Rightarrow> ended \<times> sql_call list" where
  "sql_query db tx st text args calls =
     (let c = QueryCall (via_of tx st) text args
      in case db_answer db calls c of
           Some f \<Rightarrow> (Erred (wrapped ''querying'' f), calls @ [c])
         | None \<Rightarrow> (case db_rows db (calls @ [c]) of (n, err) \<Rightarrow>
             (case err of Some f \<Rightarrow> Erred (wrapped ''reading rows'' f) | None \<Rightarrow> Done,
              calls @ [c] @ replicate (Suc n) NextRow @ [CloseRows])))"

fun render_args ::
  "'r sql_env \<Rightarrow> yaml template list \<Rightarrow> 'r ctx option \<Rightarrow> (yaml val list \<times> 'r ctx option) out" where
  "render_args env [] ctx = Inr ([], ctx)"
| "render_args env (a # as) ctx =
     rbind (RenderValue (ev_rand env) (ev_pr env) a ctx) (\<lambda>(v, ctx').
       rbind (render_args env as ctx') (\<lambda>(vs, ctx''). Inr (v # vs, ctx'')))"

definition statement_text :: "'r sql_env \<Rightarrow> string \<Rightarrow> statement \<Rightarrow> 'r ctx option \<Rightarrow> (string \<times> 'r ctx option) out" where
  "statement_text env name st ctx =
     (if sx_text st \<noteq> [] then Inr (sx_text st, ctx)
      else rbind (Render (ev_rand env) (ev_pr env) (sx_tpl st) ctx) (\<lambda>(s, ctx'). Inr (ev_mark env name @ s, ctx')))"

definition runStatement ::
  "'r sql_env \<Rightarrow> unit_of_work \<Rightarrow> bool \<Rightarrow> statement \<Rightarrow> 'r ctx option \<Rightarrow> sql_call list \<Rightarrow>
   ended \<times> sql_call list \<times> 'r ctx option" where
  "runStatement env u tx st ctx calls =
     (case rbind (statement_text env (un_name u) st ctx) (\<lambda>(text, ctx').
             rbind (render_args env (sx_args st) ctx') (\<lambda>(args, ctx''). Inr (text, args, ctx''))) of
        Inl s \<Rightarrow> (stopped (ev_say env) s, calls, ctx)
      | Inr (text, args, ctx') \<Rightarrow>
          (case (if un_op u = OpWrite then sql_exec (ev_db env) tx st text args calls
                 else sql_query (ev_db env) tx st text args calls) of
             (r, calls') \<Rightarrow> (r, calls', ctx')))"

fun run_tx ::
  "'r sql_env \<Rightarrow> unit_of_work \<Rightarrow> statement list \<Rightarrow> 'r ctx option \<Rightarrow> sql_call list \<Rightarrow>
   ended \<times> sql_call list \<times> 'r ctx option" where
  "run_tx env u [] ctx calls =
     (case db_answer (ev_db env) calls Commit of
        Some f \<Rightarrow> Erred (wrapped ''committing'' f) | None \<Rightarrow> Done, calls @ [Commit], ctx)"
| "run_tx env u (st # sts) ctx calls =
     (case runStatement env u True st ctx calls of
        (Done, calls', ctx') \<Rightarrow> run_tx env u sts ctx' calls'
      | (Erred f, calls', ctx') \<Rightarrow> (Erred f, calls' @ [Rollback], ctx')
      | (Crashed, calls', ctx') \<Rightarrow> (Crashed, calls', ctx'))"

definition execute_sql ::
  "'r sql_env \<Rightarrow> unit_of_work \<Rightarrow> 'r ctx option \<Rightarrow> ended \<times> sql_call list \<times> 'r ctx option" where
  "execute_sql env u ctx =
     (if \<not> un_tx u then runStatement env u False (un_stmts u ! 0) ctx []
      else case db_answer (ev_db env) [] BeginTx of
          Some f \<Rightarrow> (Erred (wrapped ''beginning a transaction'' f), [BeginTx], ctx)
        | None \<Rightarrow> run_tx env u (un_stmts u) ctx [BeginTx])"

text \<open>
  What one operation meets: whether a connection was to be had, the context, and the readings of the clock
  when it was and at the end. \<open>None\<close> for the outcome is a panic in a template.
\<close>

record sql_exchange =
  sq_conn_err :: "fault option"
  sq_scope :: go_ctx
  sq_acquired :: int
  sq_done :: int

definition Do_sql ::
  "'r sql_env \<Rightarrow> ('r \<Rightarrow> real \<times> 'r) \<Rightarrow> shared \<Rightarrow> iteration \<Rightarrow> sql_exchange \<Rightarrow> 'r \<Rightarrow> sql_runner \<Rightarrow>
   outcome option \<times> sql_call list \<times> sql_runner" where
  "Do_sql env draw sh it x rng r =
     (case Pick draw (sr_picker r) rng of (i, rng') \<Rightarrow>
      let u = sr_units r ! i;
          o' = (started it (un_label u))\<lparr>o_conn_acquired := sq_acquired x\<rparr>
      in case sq_conn_err x of
           Some f \<Rightarrow> (Some (o'\<lparr>o_end := sq_acquired x, o_class := poolClass (sq_scope x) f\<rparr>), [], r)
         | None \<Rightarrow>
             (case execute_sql env u (Some \<lparr>cx_shared = Some sh, cx_rand = Some rng', cx_vars = None, cx_rows = None\<rparr>) of
                (res, calls, ctx) \<Rightarrow>
                  let o' = o'\<lparr>o_end := sq_done x\<rparr>;
                      r' = (if un_op u = OpWrite then r\<lparr>sr_writes := sr_writes r + 1\<rparr>
                            else r\<lparr>sr_reads := sr_reads r + 1\<rparr>)
                  in case res of
                       Done \<Rightarrow> (Some (o'\<lparr>o_class := ClassOK\<rparr>), calls, r')
                     | Erred f \<Rightarrow> (Some (o'\<lparr>o_class := classify_sql_error (sq_scope x) f\<rparr>), calls, r')
                     | Crashed \<Rightarrow> (None, calls, r)))"

section \<open>The mark is a comment\<close>

lemma no_pair_append:
  "\<not> sublist [x, y] a \<Longrightarrow> \<not> sublist [x, y] b \<Longrightarrow> a = [] \<or> last a \<noteq> x \<or> b = [] \<or> hd b \<noteq> y \<Longrightarrow>
   \<not> sublist [x, y] (a @ b)"
proof (induction a)
  case (Cons c a)
  then have "\<not> sublist [x, y] (a @ b)" by (auto simp: sublist_Cons_right split: if_splits)
  with Cons.prems show ?case by (cases a; cases b) (auto simp: sublist_Cons_right)
qed simp

lemma index_close:
  "\<not> sublist ''*/'' a \<Longrightarrow> a = [] \<or> last a \<noteq> CHR ''*'' \<Longrightarrow> index_of (a @ ''*/'' @ b) ''*/'' = Some (length a)"
proof (induction a)
  case (Cons c a)
  have "\<not> sublist ''*/'' a" "a = [] \<or> last a \<noteq> CHR ''*''"
    using Cons.prems by (auto simp: sublist_Cons_right split: if_splits)
  moreover have "\<not> prefix ''*/'' (c # a @ ''*/'' @ b)"
    using Cons.prems by (cases a) (auto simp: sublist_Cons_right)
  ultimately show ?case using Cons.IH by simp
qed simp

lemma strip_comment:
  assumes "\<not> sublist ''*/'' a" "a = [] \<or> last a \<noteq> CHR ''*''"
  shows "stripSQLComments (''/*'' @ a @ ''*/'' @ t) = CHR '' '' # stripSQLComments t"
proof -
  have "\<not> has_prefix (''/*'' @ a @ ''*/'' @ t) ''--''" "has_prefix (''/*'' @ a @ ''*/'' @ t) ''/*''"
    by (simp_all add: has_prefix_def)
  moreover have "drop (length a + 4) (''/*'' @ a @ ''*/'' @ t) = t" "drop 2 (''/*'' @ a @ ''*/'' @ t) = a @ ''*/'' @ t"
    by (simp_all add: numeral_eq_Suc)
  ultimately show ?thesis using index_close[OF assms, of t]
    by (subst stripSQLComments.simps) (simp del: drop_Cons_numeral)
qed

definition judge :: "string \<Rightarrow> classification" where
  "judge s = foldl (\<lambda>worst part. merge worst (classifyOneSQL part)) (mk_class OpRead [] True) (splitStatements s)"

lemma judge_strip: "ClassifySQL s = judge (stripSQLComments s)"
  by (simp add: ClassifySQL_def judge_def)

lemma blank_first:
  "classifyOneSQL (CHR '' '' # s) = classifyOneSQL s" "trim_space (CHR '' '' # s) = trim_space s"
  by (simp_all add: classifyOneSQL_def sql_fields_def sql_space_def trim_space_def trim_func_def is_space_def)

lemma judge_blank: "judge (CHR '' '' # s) = judge s"
proof -
  obtain w ws where w: "split_char CHR '';'' s = w # ws" by (cases "split_char CHR '';'' s") auto
  have none: "classifyOneSQL '' '' = classifyOneSQL []" by (rule blank_first)
  show ?thesis
    by (simp add: judge_def splitStatements_def w blank_first Let_def)
qed

lemma comment_harmless_aux:
  assumes "\<not> sublist ''*/'' (sanitiseComment runID)" "\<not> sublist ''*/'' (sanitiseComment label)"
  shows "ClassifySQL (comment on runID label @ sql) = ClassifySQL sql"
proof (cases on)
  case True
  let ?a = "'' tracepoint_run='' @ [quote1] @ sanitiseComment runID @ [quote1] @ '',label='' @ [quote1]
    @ sanitiseComment label @ [quote1] @ '' ''"
  have q: "quote1 \<noteq> CHR ''*''" "quote1 \<noteq> CHR ''/''" by (simp_all add: quote1_def)
  have "\<not> sublist ''*/'' ?a"
    using assms q by (intro no_pair_append) (auto simp: sublist_Cons_right)
  moreover have "?a = [] \<or> last ?a \<noteq> CHR ''*''" by simp
  moreover have "comment on runID label @ sql = ''/*'' @ ?a @ ''*/'' @ CHR '' '' # sql"
    using True by (simp add: comment_def)
  moreover have "stripSQLComments (CHR '' '' # sql) = CHR '' '' # stripSQLComments sql"
    using strip_plain[of "'' ''" sql] by (simp add: unquoted_def)
  ultimately show ?thesis using strip_comment[of ?a] by (simp add: judge_strip judge_blank)
qed (simp add: comment_def)

text \<open>Marking a statement does not change what it is: as long as neither name still closes the comment once it
  has been sanitised, the text that is sent is classified exactly as the statement the policy judged.\<close>

theorem comment_harmless:
  assumes "\<not> sublist ''*/'' (sanitiseComment runID)" "\<not> sublist ''*/'' (sanitiseComment label)"
  shows "ClassifySQL (comment on runID label @ sql) = ClassifySQL sql"
  by (rule comment_harmless_aux[OF assms])

theorem comment_harmless_witness:
  "ClassifySQL (comment True ''r1'' ''a*b /c'' @ ''SELECT 1'') = mk_class OpRead [] True"
proof -
  have "\<not> sublist ''*/'' (sanitiseComment ''r1'')" "\<not> sublist ''*/'' (sanitiseComment ''a*b /c'')"
    unfolding contains_sublist[symmetric] by code_simp+
  from comment_harmless[OF this, of True "''SELECT 1''"]
  have "ClassifySQL (comment True ''r1'' ''a*b /c'' @ ''SELECT 1'') = ClassifySQL ''SELECT 1''" .
  also have "\<dots> = mk_class OpRead [] True" by code_simp
  finally show ?thesis .
qed

text \<open>The condition is needed: removing \<open>*/\<close> once can leave another one, and so can removing a quote.\<close>

lemma comment_escapes:
  "c_dangerous (ClassifySQL (comment True ''r1'' ''**//;DROP TABLE t;--'' @ ''SELECT 1'')) = ''DROP''"
  "c_op (ClassifySQL ''SELECT 1'') = OpRead"
  "sanitiseComment (''*'' @ [quote1] @ ''/'') = ''*/''"
  by code_simp+

lemma sanitised_clean: "c \<in> set (sanitiseComment s) \<Longrightarrow> c \<noteq> quote1 \<and> \<not> control_char c"
proof -
  have "quote1 \<notin> set (replace_all t [quote1] [])" for t by (induction t) auto
  then show "c \<in> set (sanitiseComment s) \<Longrightarrow> c \<noteq> quote1 \<and> \<not> control_char c"
    by (auto simp: sanitiseComment_def Let_def)
qed

section \<open>Reads and writes\<close>

lemma inferred_write: "inferred_op sqls = OpWrite \<longleftrightarrow> (\<exists>sql \<in> set sqls. c_op (ClassifySQL sql) = OpWrite)"
proof -
  have "foldl (\<lambda>op sql. if c_op (ClassifySQL sql) = OpWrite then OpWrite else op) o' sqls = OpWrite \<longleftrightarrow>
      o' = OpWrite \<or> (\<exists>sql \<in> set sqls. c_op (ClassifySQL sql) = OpWrite)" for o'
    by (induction sqls arbitrary: o') auto
  then show ?thesis by (simp add: inferred_op_def)
qed

lemma raw_texts: "map fst (raw_statements q) = db_statements q"
  by (simp add: raw_statements_def db_statements_def comp_def)

text \<open>The runner and the policy agree on which queries write.\<close>

lemma compile_query_op:
  "compile_query cfg d q c = Inr (u, c') \<Longrightarrow> un_op u = OpWrite \<longleftrightarrow> query_writes q"
  by (auto simp: compile_query_def rbind_Inr inferred_write raw_texts query_writes_def declared_op_def
      split: prod.splits if_splits)

lemma compile_sel:
  assumes "compile_query cfg d q c = Inr (u, c')"
  shows "un_name u = qu_name q" "un_tx u = (qu_tx q \<noteq> [])"
    "compile_raw (sd_sprint d) (mark_of cfg d (qu_name q)) (raw_statements q) = Inr (un_stmts u)"
  using assms by (auto simp: compile_query_def rbind_Inr split: prod.splits)

lemma wrapTemplate_Inr [simp]: "wrapTemplate r = Inr x \<longleftrightarrow> r = Inr x"
  by (cases r) auto

lemma Compile_source: "Template.Compile s = Inr t \<Longrightarrow> Static t = s"
  by (auto simp: Template.Compile_def Static_def rbind_Inr)

text \<open>A compiled statement: its template is that of the written text, and a static one is the text with its mark.\<close>

definition marked :: "string \<Rightarrow> string \<Rightarrow> statement \<Rightarrow> bool" where
  "marked mark sql st \<longleftrightarrow> Static (sx_tpl st) = sql \<and> (sx_text st = (if IsStatic (sx_tpl st) then mark @ sql else []))"

lemma compile_raw_marked:
  "compile_raw sp mark raw = Inr sts \<Longrightarrow> list_all2 (marked mark) (map fst raw) sts"
  by (induction sp mark raw arbitrary: sts rule: compile_raw.induct)
    (auto simp: rbind_Inr marked_def dest!: Compile_source)

lemma statement_text_static:
  assumes "statement_text env name st ctx = Inr (text, ctx')" "marked mark sql st" "IsStatic (sx_tpl st)" "ev_mark env name = mark"
  shows "text = mark @ sql"
  using assms by (auto simp: statement_text_def marked_def Render_def Static_def rbind_Inr split: if_splits)

text \<open>
  What may be sent for a unit: only calls of its statements, of the kind the unit has, each with a text one of
  its statements gives.
\<close>

definition text_of :: "'r sql_env \<Rightarrow> unit_of_work \<Rightarrow> string \<Rightarrow> bool" where
  "text_of env u text \<longleftrightarrow> (\<exists>st \<in> set (un_stmts u). \<exists>c1 c2. statement_text env (un_name u) st c1 = Inr (text, c2))"

fun call_ok :: "'r sql_env \<Rightarrow> unit_of_work \<Rightarrow> sql_call \<Rightarrow> bool" where
  "call_ok env u (ExecCall v text args) = (un_op u = OpWrite \<and> text_of env u text)"
| "call_ok env u (QueryCall v text args) = (un_op u \<noteq> OpWrite \<and> text_of env u text)"
| "call_ok env u NextRow = True"
| "call_ok env u CloseRows = True"
| "call_ok env u c = False"

fun is_run :: "sql_call \<Rightarrow> bool" where
  "is_run (ExecCall v text args) = True"
| "is_run (QueryCall v text args) = True"
| "is_run c = False"

lemma no_runs: "filter is_run (replicate n NextRow) = []"
  by (induction n) auto

definition rendered :: "'r sql_env \<Rightarrow> unit_of_work \<Rightarrow> statement \<Rightarrow> 'r ctx option \<Rightarrow> (string \<times> yaml val list \<times> 'r ctx option) out" where
  "rendered env u st ctx = rbind (statement_text env (un_name u) st ctx) (\<lambda>(text, c1).
     rbind (render_args env (sx_args st) c1) (\<lambda>(args, c2). Inr (text, args, c2)))"

lemma runStatement_shape:
  assumes "runStatement env u tx st ctx calls = (res, calls', ctx')" "st \<in> set (un_stmts u)"
  shows "\<exists>new. calls' = calls @ new \<and> list_all (call_ok env u) new \<and> (res = Done \<longrightarrow> length (filter is_run new) = 1)"
proof (cases "rendered env u st ctx")
  case (Inl e)
  then show ?thesis using assms(1) by (cases e) (auto simp: runStatement_def rendered_def)
next
  case (Inr r)
  obtain sent args ctx2 where r: "r = (sent, args, ctx2)" by (cases r) auto
  have t: "text_of env u sent"
    using Inr assms(2) unfolding r text_of_def rendered_def by (fastforce simp: rbind_Inr)
  have step: "(res, calls') = (if un_op u = OpWrite then sql_exec (ev_db env) tx st sent args calls
      else sql_query (ev_db env) tx st sent args calls)"
    using assms(1) Inr unfolding r rendered_def by (auto simp: runStatement_def split: prod.splits if_splits)
  show ?thesis
  proof (cases "un_op u = OpWrite")
    case True
    with step t show ?thesis by (simp add: sql_exec_def Let_def)
  next
    case False
    let ?c = "QueryCall (via_of tx st) sent args"
    have "(\<exists>f. res = Erred f \<and> calls' = calls @ [?c]) \<or> (\<exists>n. calls' = calls @ [?c] @ replicate n NextRow @ [CloseRows])"
      using step False by (auto simp: sql_query_def Let_def simp del: replicate_Suc split: option.splits prod.splits)
    then show ?thesis using t False by (elim disjE exE conjE) (simp_all add: no_runs list_all_iff)
  qed
qed

definition tx_end :: "'r sql_env \<Rightarrow> nat \<Rightarrow> sql_call list \<Rightarrow> sql_call list \<Rightarrow> sql_call list \<Rightarrow> ended \<Rightarrow> bool" where
  "tx_end env n before mid tail res \<longleftrightarrow>
     tail = [Commit] \<and> length (filter is_run mid) = n \<and> res \<noteq> Crashed \<and>
       (res = Done \<longleftrightarrow> db_answer (ev_db env) (before @ mid) Commit = None) \<or>
     tail = [Rollback] \<and> (\<exists>f. res = Erred f) \<or> tail = [] \<and> res = Crashed"

lemma tx_end_Cons:
  "length (filter is_run new) = 1 \<Longrightarrow> tx_end env n (before @ new) mid tail res \<Longrightarrow> tx_end env (Suc n) before (new @ mid) tail res"
  by (auto simp: tx_end_def)

lemma run_tx_shape:
  assumes "run_tx env u sts ctx calls = (res, calls', ctx')" "set sts \<subseteq> set (un_stmts u)"
  shows "\<exists>mid tail. calls' = calls @ mid @ tail \<and> list_all (call_ok env u) mid \<and> tx_end env (length sts) calls mid tail res"
  using assms
proof (induction sts arbitrary: ctx calls)
  case Nil
  then show ?case by (intro exI[of _ "[]"] exI[of _ "[Commit]"]) (auto simp: tx_end_def split: option.splits)
next
  case (Cons st sts)
  obtain r1 calls1 ctx1 where s1: "runStatement env u True st ctx calls = (r1, calls1, ctx1)"
    by (cases "runStatement env u True st ctx calls")
  obtain new where new: "calls1 = calls @ new" "list_all (call_ok env u) new" "r1 = Done \<longrightarrow> length (filter is_run new) = 1"
    using runStatement_shape[OF s1] Cons.prems(2) by auto
  show ?case
  proof (cases r1)
    case Done
    then have "run_tx env u sts ctx1 calls1 = (res, calls', ctx')" using Cons.prems s1 by simp
    from Cons.IH[OF this] Cons.prems(2) obtain mid tail where m: "calls' = calls1 @ mid @ tail" "list_all (call_ok env u) mid"
      "tx_end env (length sts) calls1 mid tail res" by auto
    then have "calls' = calls @ (new @ mid) @ tail" "list_all (call_ok env u) (new @ mid)" using new by auto
    moreover have "tx_end env (length (st # sts)) calls (new @ mid) tail res"
      using tx_end_Cons[of new] m(3) new Done by simp
    ultimately show ?thesis by blast
  next
    case (Erred f)
    then have "calls' = calls @ new @ [Rollback]" "tx_end env (length (st # sts)) calls new [Rollback] res"
      using Cons.prems(1) s1 new(1) by (auto simp: tx_end_def)
    then show ?thesis using new(2) by blast
  next
    case Crashed
    then have "calls' = calls @ new @ []" "tx_end env (length (st # sts)) calls new [] res"
      using Cons.prems(1) s1 new(1) by (auto simp: tx_end_def)
    then show ?thesis using new(2) by blast
  qed
qed

lemma transaction_shape:
  assumes "execute_sql env u ctx = (res, calls, ctx')" "un_tx u" "db_answer (ev_db env) [] BeginTx = None"
  shows "\<exists>mid tail. calls = BeginTx # mid @ tail \<and> list_all (call_ok env u) mid \<and> set tail \<subseteq> {Commit, Rollback}
    \<and> tx_end env (length (un_stmts u)) [BeginTx] mid tail res"
proof -
  have "run_tx env u (un_stmts u) ctx [BeginTx] = (res, calls, ctx')"
    using assms by (simp add: execute_sql_def)
  from run_tx_shape[OF this subset_refl] obtain mid tail where m: "calls = [BeginTx] @ mid @ tail"
    "list_all (call_ok env u) mid" "tx_end env (length (un_stmts u)) [BeginTx] mid tail res" by blast
  moreover have "set tail \<subseteq> {Commit, Rollback}" using m(3) by (auto simp: tx_end_def)
  ultimately show ?thesis by auto
qed


text \<open>Outside a transaction there is the one statement.\<close>

lemma execute_calls:
  assumes "execute_sql env u ctx = (res, calls, ctx')" "un_stmts u \<noteq> []" "c \<in> set calls"
  shows "call_ok env u c \<or> c \<in> {BeginTx, Commit, Rollback}"
proof (cases "un_tx u")
  case True
  show ?thesis
  proof (cases "db_answer (ev_db env) [] BeginTx")
    case None
    obtain mid tail where "calls = BeginTx # mid @ tail" "list_all (call_ok env u) mid" "set tail \<subseteq> {Commit, Rollback}"
      using transaction_shape[OF assms(1) True None] by auto
    with assms(3) show ?thesis by (auto simp: list_all_iff)
  next
    case (Some f)
    then show ?thesis using assms True by (auto simp: execute_sql_def)
  qed
next
  case False
  then have run: "runStatement env u False (un_stmts u ! 0) ctx [] = (res, calls, ctx')"
    using assms(1) by (simp add: execute_sql_def)
  have "un_stmts u ! 0 \<in> set (un_stmts u)" using assms(2) by simp
  from runStatement_shape[OF run this] assms(3) show ?thesis by (auto simp: list_all_iff)
qed

text \<open>Preflight may mark statements as prepared and changes nothing else.\<close>

definition prepared_from :: "unit_of_work \<Rightarrow> unit_of_work \<Rightarrow> bool" where
  "prepared_from u u' \<longleftrightarrow> u' = u\<lparr>un_stmts := un_stmts u'\<rparr> \<and>
     list_all2 (\<lambda>st st'. st' = st\<lparr>sx_prepped := sx_prepped st'\<rparr>) (un_stmts u) (un_stmts u')"

lemma prepare_stmts_from:
  "prepare_stmts parses mark hold sts = Inr sts' \<Longrightarrow> list_all2 (\<lambda>st st'. st' = st\<lparr>sx_prepped := sx_prepped st'\<rparr>) sts sts'"
  by (induction sts arbitrary: sts') (auto simp: rbind_Inr split: option.splits if_splits)

lemma prepare_units_from: "prepare_units parses mark us = Inr us' \<Longrightarrow> list_all2 prepared_from us us'"
  by (induction us arbitrary: us') (auto simp: rbind_Inr prepared_from_def dest: prepare_stmts_from)

lemma prepared_from_sel: "prepared_from u u' \<Longrightarrow> un_op u' = un_op u \<and> un_name u' = un_name u"
  by (cases u; cases u') (auto simp: prepared_from_def)

lemma prepared_from_refl: "prepared_from u u"
  by (simp add: prepared_from_def list_all2_same)

lemma prepared_marked:
  assumes "list_all2 (\<lambda>st st'. st' = st\<lparr>sx_prepped := sx_prepped st'\<rparr>) sts sts'" "list_all2 (marked mark) sqls sts"
  shows "list_all2 (marked mark) sqls sts'"
proof -
  have "marked mark sql (st\<lparr>sx_prepped := b\<rparr>) = marked mark sql st" for sql st b by (simp add: marked_def)
  then show ?thesis using assms unfolding list_all2_conv_all_nth by metis
qed

text \<open>The texts of a compiled unit whose statements are all static.\<close>

lemma marked_text:
  assumes "list_all2 (marked mark) sqls (un_stmts u)" "text_of env u sent" "list_all (\<lambda>st. IsStatic (sx_tpl st)) (un_stmts u)"
    "ev_mark env (un_name u) = mark"
  shows "\<exists>sql \<in> set sqls. sent = mark @ sql"
proof -
  obtain st c1 c2 where st: "st \<in> set (un_stmts u)" "statement_text env (un_name u) st c1 = Inr (sent, c2)"
    using assms(2) by (auto simp: text_of_def)
  then obtain sql where "sql \<in> set sqls" "marked mark sql st"
    using assms(1) by (metis in_set_conv_nth list_all2_conv_all_nth)
  moreover have "IsStatic (sx_tpl st)" using assms(3) st(1) by (simp add: list_all_iff)
  ultimately have "sql \<in> set sqls \<and> sent = mark @ sql" using st(2) assms(4)
    by (auto simp: statement_text_def marked_def Render_def Static_def split: if_splits)
  then show ?thesis by blast
qed

lemma refused_writes:
  assumes "ApplyPolicy quote c granted = Inr (eff, ws)" "\<not> p_allow_writes eff" "q \<in> set (queries_of c)"
  shows "\<not> query_writes q"
proof -
  have "policy_problems c eff (classifyStatements quote c) = []" using assms(1) by (simp add: ApplyPolicy_Inr)
  from policy_problems_Nil(1)[OF this, of "''db''"]
  have "jd_writes (classifyStatements quote c) ''db'' = []" using assms(2) by (simp add: permits_through CheckWrites_def split: if_splits)
  then show ?thesis using assms(3) by (auto simp: classifyStatements_def filter_empty_conv)
qed


section \<open>The outcome of an operation\<close>

inductive sql_does ::
  "'r sql_env \<Rightarrow> ('r \<Rightarrow> real \<times> 'r) \<Rightarrow> sql_runner \<Rightarrow> iteration \<Rightarrow> outcome list \<Rightarrow> bool"
  for env draw r where
  "Do_sql env draw sh it x rng (r\<lparr>sr_reads := n, sr_writes := m\<rparr>) = (Some o', calls, r') \<Longrightarrow> sql_does env draw r it [o']"

lemma Do_sql_stamped: "Do_sql env draw sh it x rng r = (Some o', calls, r') \<Longrightarrow> stamped it o'"
  by (auto simp: Do_sql_def Let_def split: prod.splits option.splits ended.splits)

interpretation sql_run: one_outcome "sql_does env draw r"
  by unfold_locales (auto elim!: sql_does.cases dest: Do_sql_stamped)

text \<open>The wait for a connection is never the database's time: without one the operation has no service time at all,
  sends nothing, and a pool that ran out or a run that ended does not count toward the abort guard;
  with one, the service starts when it was in hand.\<close>

theorem sql_wait_not_charged:
  assumes "Do_sql env draw sh it x rng r = (Some o', calls, r')"
  shows "o_conn_acquired o' = sq_acquired x \<and>
    (case sq_conn_err x of
       Some f \<Rightarrow> ServiceTime o' = 0 \<and> calls = [] \<and> r' = r \<and>
         (is_a DeadlineExceeded f \<or> is_a Canceled f \<or> gc_err (sq_scope x) \<noteq> None \<longrightarrow>
            \<not> CountsTowardAbortGuard (o_class o'))
     | None \<Rightarrow> o_end o' = sq_done x \<and> sr_reads r' + sr_writes r' = sr_reads r + sr_writes r + 1)"
  using assms
  by (auto simp: Do_sql_def Let_def poolClass_def CountsTowardAbortGuard_def ServiceTime_def wrap64_def
      split: prod.splits option.splits ended.splits if_splits)

section \<open>The pool\<close>

text \<open>
  Every operation holds the connection it acquired; a prepared statement outside a transaction runs on the
  pool and takes another one for itself. The state is how many connections each worker holds.
\<close>

definition conns_needed :: "unit_of_work \<Rightarrow> nat" where
  "conns_needed u = (if via_of (un_tx u) (un_stmts u ! 0) = OnStmt then 2 else 1)"

inductive pool_step :: "nat \<Rightarrow> nat \<Rightarrow> nat list \<Rightarrow> nat list \<Rightarrow> bool" for limit need where
  take_conn: "i < length h \<Longrightarrow> h ! i < need \<Longrightarrow> sum_list h < limit \<Longrightarrow> pool_step limit need h (h[i := h ! i + 1])"
| give_back: "i < length h \<Longrightarrow> h ! i = need \<Longrightarrow> pool_step limit need h (h[i := 0])"

inductive_cases pool_stepE: "pool_step limit need h h'"

lemma held_one: "(pool_step limit 1)\<^sup>*\<^sup>* h0 h \<Longrightarrow> \<forall>x \<in> set h0. x \<le> 1 \<Longrightarrow> length h = length h0 \<and> (\<forall>x \<in> set h. x \<le> 1)"
  by (induction rule: rtranclp_induct) (auto elim!: pool_stepE dest!: set_update_subset_insert[THEN subsetD])

lemma sum_le_length: "\<forall>x \<in> set h. x \<le> (1 :: nat) \<Longrightarrow> sum_list h \<le> length h"
  by (induction h) auto

lemma sum_less_length: "\<forall>x \<in> set h. x \<le> (1 :: nat) \<Longrightarrow> i < length h \<Longrightarrow> h ! i = 0 \<Longrightarrow> sum_list h < length h"
proof (induction h arbitrary: i)
  case (Cons x h)
  then show ?case using sum_le_length[of h] by (cases i) fastforce+
qed simp

lemma all_take_one:
  "k \<le> w \<Longrightarrow> (pool_step w 2)\<^sup>*\<^sup>* (replicate w 0) (replicate k 1 @ replicate (w - k) 0)"
proof (induction k)
  case (Suc k)
  let ?h = "replicate k 1 @ replicate (w - k) (0 :: nat)"
  have "replicate (w - k) (0 :: nat) = 0 # replicate (w - Suc k) 0"
    using Suc.prems by (metis Suc_diff_le Suc_le_lessD diff_Suc_Suc replicate_Suc)
  then have "?h[k := ?h ! k + 1] = replicate (Suc k) 1 @ replicate (w - Suc k) 0"
    by (simp add: nth_append list_update_append replicate_app_Cons_same)
  moreover have "pool_step w 2 ?h (?h[k := ?h ! k + 1])"
    using Suc.prems by (intro take_conn) (auto simp: nth_append sum_list_replicate)
  ultimately show ?case using Suc by (simp add: rtranclp.rtrancl_into_rtrancl)
qed simp

text \<open>C38. Sized by default, the pool has a connection for every worker, so an operation that needs one never waits
  for it. A prepared statement outside a transaction needs two, and with the same pool there is a reachable state in
  which every worker holds one connection and none can go on.\<close>

theorem pool_sizing:
  assumes "db_pool cfg = None" "w = nat (xs_max_in_flight (db_executor cfg))" "0 < w"
    "limit = nat (pl_max_open (configurePool cfg))"
  shows "(conns_needed u = 1 \<longrightarrow>
      (\<forall>h. (pool_step limit (conns_needed u))\<^sup>*\<^sup>* (replicate w 0) h \<longrightarrow> (\<forall>i < w. h ! i = 0 \<longrightarrow> sum_list h < limit))) \<and>
    (conns_needed u = 2 \<longrightarrow>
      (\<exists>h. (pool_step limit (conns_needed u))\<^sup>*\<^sup>* (replicate w 0) h \<and> (\<forall>h'. \<not> pool_step limit (conns_needed u) h h')))"
proof -
  have limit: "limit = w" using assms by (simp add: configurePool_def Let_def)
  have "sum_list h < w" if "(pool_step w 1)\<^sup>*\<^sup>* (replicate w 0) h" "i < w" "h ! i = 0" for h i
    using held_one[OF that(1)] sum_less_length[of h i] that(2,3) by auto
  moreover have "(pool_step w 2)\<^sup>*\<^sup>* (replicate w 0) (replicate w 1)" using all_take_one[of w w] by simp
  moreover have "\<not> pool_step w 2 (replicate w 1) h'" for h'
    by (auto elim!: pool_stepE simp: sum_list_replicate)
  ultimately show ?thesis unfolding limit by auto
qed

section \<open>Labels and words\<close>

lemma compile_queries_names:
  "compile_queries cfg d qs c = Inr (us, c') \<Longrightarrow> map un_name us = map qu_name qs"
proof (induction qs arbitrary: c us)
  case (Cons q qs)
  then obtain u c1 us' where "compile_query cfg d q c = Inr (u, c1)" "compile_queries cfg d qs c1 = Inr (us', c')" "us = u # us'"
    by (auto simp: rbind_Inr)
  then show ?case using Cons.IH compile_sel(1) by auto
qed simp

lemma New_sql_labels:
  assumes "New_sql tag_url open_db (cf_db cf) d c = Inr (r, c')"
  shows "sql_labels r = Config.Labels cf ''db''"
  using assms compile_queries_names
  by (fastforce simp: New_sql_def sql_labels_def Config.Labels_def Let_def rbind_Inr split: option.splits if_splits)

text \<open>
  The text of an error decides where no sentinel does. A refusal that names a column is read as a
  timeout, and the sentinel of \<open>database/sql/driver\<close> is not the one the code compares with, so only
  its text says what it is.
\<close>

lemma words_mislead:
  "classify_sql_error open_scope \<lparr>ft_chain = [OtherMark], ft_timeout = None, ft_text = ''column session_timeout does not exist''\<rparr>
     = ClassTimeout"
  "classify_sql_error open_scope \<lparr>ft_chain = [DriverBadConn], ft_timeout = None, ft_text = ''gone''\<rparr> = ClassQueryError"
  by code_simp+

section \<open>Examples\<close>

definition plain_stmt :: "string \<Rightarrow> statement" where
  "plain_stmt sql = \<lparr>sx_tpl = \<lparr>t_source = sql, t_parts = [LiteralP sql], t_solo = None\<rparr>, sx_text = sql,
     sx_args = [], sx_prepped = False\<rparr>"

definition two_updates :: unit_of_work where
  "two_updates = \<lparr>un_name = ''move'', un_label = 1, un_op = OpWrite, un_tx = True,
     un_stmts = [plain_stmt ''UPDATE a'', plain_stmt ''UPDATE b''], un_timeout = second, un_prepare = False\<rparr>"

definition deadline :: fault where
  "deadline = \<lparr>ft_chain = [DeadlineExceeded], ft_timeout = None, ft_text = ''deadline''\<rparr>"

text \<open>A database that answers two calls and then no more.\<close>

definition small_env :: "unit sql_env" where
  "small_env = \<lparr>ev_rand = \<lparr>Int64N = (\<lambda>_ r. (0, r)), IntN = (\<lambda>_ r. (0, r)), Uint64 = (\<lambda>r. (0, r))\<rparr>,
     ev_pr = \<lparr>fmt_time = (\<lambda>_. []), sprint = (\<lambda>_. [])\<rparr>, ev_say = (\<lambda>_. []),
     ev_db = \<lparr>db_answer = (\<lambda>calls c. if length calls = 2 then Some deadline else None), db_rows = (\<lambda>_. (3, None))\<rparr>,
     ev_mark = (\<lambda>_. [])\<rparr>"

lemma two_updates_run:
  "execute_sql small_env two_updates None =
     (Erred (wrapped ''executing'' deadline),
      [BeginTx, ExecCall OnTx ''UPDATE a'' [], ExecCall OnTx ''UPDATE b'' [], Rollback], None)"
  by (simp add: execute_sql_def two_updates_def small_env_def plain_stmt_def runStatement_def statement_text_def
      sql_exec_def via_of_def Let_def)


definition small_deps :: sql_deps where
  "small_deps = \<lparr>sd_run_id = ''r1'', sd_timeout = second, sd_sprint = (\<lambda>_. [])\<rparr>"

lemma select_compiles: "Template.Compile ''SELECT 1'' = Inr (sx_tpl (plain_stmt ''SELECT 1''))"
  by (simp add: Template.Compile_def compile_parts.simps plain_stmt_def)

lemma demo_compiled:
  assumes "cf_db (ApplyDefaults demo) = Some d"
  shows "\<exists>u col'. compile_query d small_deps demo_query col = Inr (u, col') \<and> un_stmts u = [plain_stmt ''SELECT 1''] \<and>
    un_op u = OpRead \<and> un_tx u = False \<and> mark_of d small_deps = (\<lambda>_. [])"
proof -
  have "d = demo_db\<lparr>db_executor := applyExecutorDefaults minute demo_executor, db_driver := ''postgres''\<rparr>"
    using assms by (simp add: demo_parts)
  then have off: "db_comment_queries d = False" by (simp add: demo_db_def)
  have op: "inferred_op [''SELECT 1''] = OpRead" by code_simp
  have static: "IsStatic (sx_tpl (plain_stmt s))" "Static (sx_tpl (plain_stmt s)) = s" for s
    by (simp_all add: plain_stmt_def IsStatic_def Static_def)
  have raw: "compile_raw (sd_sprint small_deps) (mark_of d small_deps (qu_name demo_query)) (raw_statements demo_query)
      = Inr [plain_stmt ''SELECT 1'']"
    by (simp add: raw_statements_def demo_query_def select_compiles static off mark_of_def comment_def)
      (simp add: plain_stmt_def)
  have "\<exists>u col'. compile_query d small_deps demo_query col = Inr (u, col') \<and> un_stmts u = [plain_stmt ''SELECT 1''] \<and>
      un_op u = OpRead \<and> un_tx u = False"
    using raw op by (cases "LabelID (qu_name demo_query) col") (simp add: compile_query_def demo_query_def raw_statements_def)
  then show ?thesis using off by (auto simp: mark_of_def comment_def fun_eq_iff)
qed


definition small_sql :: sql_runner where
  "small_sql = \<lparr>sr_units = [two_updates], sr_picker = NewWeighted [1], sr_driver = ''sqlite'',
     sr_pool = \<lparr>pl_max_open = 1, pl_max_idle = 1, pl_lifetime = None, pl_idle_time = None\<rparr>, sr_reads = 0, sr_writes = 0\<rparr>"

definition small_it :: iteration where
  "small_it = \<lparr>it_index = 0, it_worker = 0, it_intended = 5, it_dispatched = 6, it_worker_start = 7\<rparr>"

theorem sql_wait_not_charged_witness:
  "\<exists>o'. fst (Do_sql small_env (\<lambda>r. (0, r)) \<lparr>sh_seq = 0, sh_now = 0\<rparr> small_it
       \<lparr>sq_conn_err = Some deadline, sq_scope = open_scope, sq_acquired = 40, sq_done = 50\<rparr> () small_sql) = Some o'
     \<and> ServiceTime o' = 0 \<and> \<not> CountsTowardAbortGuard (o_class o')"
proof -
  let ?x = "\<lparr>sq_conn_err = Some deadline, sq_scope = open_scope, sq_acquired = 40, sq_done = 50\<rparr>"
  obtain o' where "Do_sql small_env (\<lambda>r. (0, r)) \<lparr>sh_seq = 0, sh_now = 0\<rparr> small_it ?x () small_sql = (Some o', [], small_sql)"
    by (cases "Pick (\<lambda>r. (0, r)) (sr_picker small_sql) ()") (simp add: Do_sql_def Let_def)
  from this sql_wait_not_charged[OF this] show ?thesis by (auto simp: is_a_def deadline_def)
qed

theorem pool_sizing_witness:
  "\<exists>h. (pool_step 3 2)\<^sup>*\<^sup>* [0, 0, 0] h \<and> (\<forall>h'. \<not> pool_step 3 2 h h')"
proof -
  let ?cfg = "demo_db\<lparr>db_executor := demo_executor\<lparr>xs_max_in_flight := 3\<rparr>\<rparr>"
  let ?u = "two_updates\<lparr>un_tx := False, un_stmts := [plain_stmt ''SELECT 1''\<lparr>sx_prepped := True\<rparr>]\<rparr>"
  have "db_pool ?cfg = None" "3 = nat (xs_max_in_flight (db_executor ?cfg))" "(0 :: nat) < 3"
    "3 = nat (pl_max_open (configurePool ?cfg))" by (simp_all add: demo_db_def demo_executor_def configurePool_def)
  from pool_sizing[OF this, of ?u] show ?thesis by (simp add: conns_needed_def via_of_def numeral_eq_Suc)
qed

end
