(* ===== verification/RedisRun.thy ===== *)
theory RedisRun
  imports HttpRun SqlRun
begin

text \<open>
  The Redis runner, \<open>internal/runner/redisrun\<close>: compiling commands and pipelines, the options of the
  client, preflight, one operation, and how its failures are classified. The server is a parameter: it
  answers a command, and a pipeline with an error for the whole and one for each command.
\<close>

section \<open>Compiling\<close>

record command =
  cm_name :: string
  cm_label :: int
  cm_op :: op
  cm_timeout :: duration
  cm_pipeline :: bool
  cm_parts :: "yaml template list list"
  cm_static :: "yaml val list list option"

definition declared_kind :: "string \<Rightarrow> op" where
  "declared_kind type = (if type = ''write'' then OpWrite else OpRead)"

definition inferred_kind :: "string list list \<Rightarrow> op" where
  "inferred_kind units = foldl (\<lambda>op u. if c_op (ClassifyRedis u) = OpWrite then OpWrite else op) OpRead units"

fun compile_words :: "string list \<Rightarrow> yaml template list result" where
  "compile_words [] = Inr []"
| "compile_words (w # ws) =
     (case Template.Compile w of
        Inl e \<Rightarrow> Inl (with_path ''/redis/commands'' e)
      | Inr t \<Rightarrow> rbind (compile_words ws) (\<lambda>ts. Inr (t # ts)))"

fun compile_units :: "string list list \<Rightarrow> yaml template list list result" where
  "compile_units [] = Inr []"
| "compile_units (u # us) = rbind (compile_words u) (\<lambda>ts. rbind (compile_units us) (\<lambda>tss. Inr (ts # tss)))"

text \<open>A command none of whose arguments change is resolved once.\<close>

definition all_static :: "yaml template list list \<Rightarrow> bool" where
  "all_static parts = list_all (list_all IsStatic) parts"

definition resolved :: "yaml template list list \<Rightarrow> yaml val list list option" where
  "resolved parts = (if all_static parts \<and> parts \<noteq> [] then Some (map (map (\<lambda>t. VStr (Static t))) parts) else None)"

definition compile_command :: "duration \<Rightarrow> redis_command \<Rightarrow> 's collector \<Rightarrow> (command \<times> 's collector) result" where
  "compile_command timeout src c =
     (case LabelID (rc_name src) c of (i, c') \<Rightarrow>
      rbind (compile_units (redis_commands src)) (\<lambda>parts.
        Inr (\<lparr>cm_name = rc_name src, cm_label = int i,
              cm_op = (if rc_type src \<noteq> [] then declared_kind (rc_type src) else inferred_kind (redis_commands src)),
              cm_timeout = (case rc_timeout src of Some t \<Rightarrow> t | None \<Rightarrow> timeout),
              cm_pipeline = (rc_pipeline src \<noteq> []), cm_parts = parts, cm_static = resolved parts\<rparr>, c')))"

fun compile_commands :: "duration \<Rightarrow> redis_command list \<Rightarrow> 's collector \<Rightarrow> (command list \<times> 's collector) result" where
  "compile_commands timeout [] c = Inr ([], c)"
| "compile_commands timeout (src # rest) c =
     rbind (compile_command timeout src c) (\<lambda>(cmd, c').
       rbind (compile_commands timeout rest c') (\<lambda>(cmds, c''). Inr (cmd # cmds, c'')))"

record ('p, 'k) redis_options =
  ro_addrs :: "string list"
  ro_username :: string
  ro_password :: string
  ro_db :: int
  ro_pool_size :: int
  ro_min_idle :: int
  ro_client_name :: string
  ro_master_name :: string
  ro_route_randomly :: bool
  ro_tls :: "('p, 'k) tls_config option"

text \<open>The certificates are read by the same code as the HTTP runner's.\<close>

definition redis_buildTLS :: "('p, 'k) cert_lib \<Rightarrow> tls \<Rightarrow> ('p, 'k) tls_config result" where
  "redis_buildTLS lib c =
     rbind (if tl_ca_file c = [] then Inr None
            else case cl_read_file lib (tl_ca_file c) of
                None \<Rightarrow> Inl (new_error CodeIOReadFailed)
              | Some pem \<Rightarrow> (case cl_pool lib pem of
                    None \<Rightarrow> Inl (new_error CodeConfigInvalidValue) | Some pool \<Rightarrow> Inr (Some pool))) (\<lambda>roots.
     rbind (if tl_cert_file c = [] \<and> tl_key_file c = [] then Inr None
            else case cl_pair lib (tl_cert_file c) (tl_key_file c) of
                None \<Rightarrow> Inl (new_error CodeConfigInvalidValue) | Some pair \<Rightarrow> Inr (Some pair)) (\<lambda>cert.
       Inr \<lparr>tc_insecure = tl_insecure c, tc_server_name = tl_server_name c, tc_min_version = VersionTLS12,
            tc_roots = roots, tc_certificate = cert\<rparr>))"

definition clientOptions :: "('p, 'k) cert_lib \<Rightarrow> string \<Rightarrow> redis_section \<Rightarrow> ('p, 'k) redis_options result" where
  "clientOptions lib runID cfg =
     (let workers = xs_max_in_flight (rd_executor cfg); workers = (if workers \<le> 0 then 16 else workers);
          opts = \<lparr>ro_addrs = (if rd_addrs cfg = [] \<and> rd_addr cfg \<noteq> [] then [rd_addr cfg] else rd_addrs cfg),
                  ro_username = rd_username cfg, ro_password = rd_password cfg, ro_db = rd_db cfg,
                  ro_pool_size = (case rd_pool cfg of Some p \<Rightarrow> if 0 < rp_size p then rp_size p else workers | None \<Rightarrow> workers),
                  ro_min_idle = (case rd_pool cfg of Some p \<Rightarrow> rp_min_idle p | None \<Rightarrow> 0),
                  ro_client_name = ''tracepoint-'' @ runID,
                  ro_master_name = (if rd_mode cfg = ''sentinel'' then rd_master_name cfg else []),
                  ro_route_randomly = (rd_mode cfg = ''cluster''), ro_tls = None\<rparr>
      in case rd_tls cfg of None \<Rightarrow> Inr opts
         | Some t \<Rightarrow> rbind (redis_buildTLS lib t) (\<lambda>c. Inr (opts\<lparr>ro_tls := Some c\<rparr>)))"

record ('p, 'k) redis_runner =
  rr_commands :: "command list"
  rr_picker :: weighted
  rr_options :: "('p, 'k) redis_options"
  rr_reads :: int
  rr_writes :: int

definition New_redis ::
  "('p, 'k) cert_lib \<Rightarrow> string \<Rightarrow> redis_section option \<Rightarrow> duration \<Rightarrow> 's collector \<Rightarrow>
   (('p, 'k) redis_runner \<times> 's collector) result" where
  "New_redis lib runID cfg timeout c =
     (case cfg of
        None \<Rightarrow> Inl (new_error CodeInternal)
      | Some s \<Rightarrow>
          rbind (compile_commands timeout (rd_commands s) c) (\<lambda>(cmds, c').
            rbind (clientOptions lib runID s) (\<lambda>opts.
              Inr (\<lparr>rr_commands = cmds,
                    rr_picker = NewWeighted (map (\<lambda>k. f_val (weightOr (rc_weight k))) (rd_commands s)),
                    rr_options = opts, rr_reads = 0, rr_writes = 0\<rparr>, c'))))"

definition redis_labels :: "('p, 'k) redis_runner \<Rightarrow> string list" where
  "redis_labels r = map cm_name (rr_commands r)"

text \<open>Preflight is a ping, and a warning when the pool is smaller than the number of workers.\<close>

definition Prepare_redis :: "bool \<Rightarrow> redis_section \<Rightarrow> bool result" where
  "Prepare_redis answers cfg =
     (if \<not> answers then Inl (new_error CodePreflightRedisPing)
      else Inr (0 < xs_max_in_flight (rd_executor cfg) \<and>
        (case rd_pool cfg of Some p \<Rightarrow> 0 < rp_size p \<and> rp_size p < xs_max_in_flight (rd_executor cfg) | None \<Rightarrow> False)))"

section \<open>One operation\<close>

fun render_unit ::
  "'r rand_ops \<Rightarrow> yaml printers \<Rightarrow> yaml template list \<Rightarrow> 'r ctx option \<Rightarrow> (yaml val list \<times> 'r ctx option) out" where
  "render_unit ops pr [] ctx = Inr ([], ctx)"
| "render_unit ops pr (t # ts) ctx =
     rbind (RenderValue ops pr t ctx) (\<lambda>(v, ctx').
       rbind (render_unit ops pr ts ctx') (\<lambda>(vs, ctx''). Inr (v # vs, ctx'')))"

fun render_units ::
  "'r rand_ops \<Rightarrow> yaml printers \<Rightarrow> yaml template list list \<Rightarrow> 'r ctx option \<Rightarrow> (yaml val list list \<times> 'r ctx option) out" where
  "render_units ops pr [] ctx = Inr ([], ctx)"
| "render_units ops pr (u # us) ctx =
     rbind (render_unit ops pr u ctx) (\<lambda>(vs, ctx').
       rbind (render_units ops pr us ctx') (\<lambda>(vss, ctx''). Inr (vs # vss, ctx'')))"

definition render_command ::
  "'r rand_ops \<Rightarrow> yaml printers \<Rightarrow> command \<Rightarrow> 'r ctx option \<Rightarrow> (yaml val list list \<times> 'r ctx option) out" where
  "render_command ops pr c ctx =
     (case cm_static c of Some args \<Rightarrow> Inr (args, ctx) | None \<Rightarrow> render_units ops pr (cm_parts c) ctx)"

text \<open>The server: its answer to one command, and to a pipeline. \<open>name\<close> prints the first argument.\<close>

record server =
  rs_do :: "yaml val list \<Rightarrow> fault option"
  rs_exec :: "yaml val list list \<Rightarrow> fault option \<times> fault option list"
  rs_name :: "yaml val \<Rightarrow> string"

definition refused :: "fault option \<Rightarrow> bool" where
  "refused e = (case e of Some f \<Rightarrow> \<not> is_a RedisNil f | None \<Rightarrow> False)"

definition execute_redis :: "server \<Rightarrow> command \<Rightarrow> yaml val list list \<Rightarrow> fault option" where
  "execute_redis srv c units =
     (if \<not> cm_pipeline c then
        (let e = rs_do srv (units ! 0)
         in if refused e then map_option (wrapped (''running '' @ rs_name srv (units ! 0 ! 0))) e else None)
      else case rs_exec srv units of (e, cmds) \<Rightarrow>
        if refused e then map_option (wrapped ''running a pipeline'') e
        else case List.find refused cmds of
            Some e' \<Rightarrow> map_option (wrapped ''in a pipeline'') e'
          | None \<Rightarrow> None)"

definition redis_conn_words :: "string list" where
  "redis_conn_words = [''connection refused'', ''connection reset'', ''broken pipe'', ''eof'', ''no such host'']"

definition classify_redis_error :: "go_ctx \<Rightarrow> fault \<Rightarrow> outcome_class" where
  "classify_redis_error sc f =
     (if is_a DeadlineExceeded f then ClassTimeout
      else if is_a Canceled f then ClassCanceled
      else if is_a RedisClosed f then ClassConnection
      else if gc_err sc \<noteq> None then ClassCanceled
      else if says_lower f redis_conn_words then ClassConnection
      else if says_lower f [''pool timeout'', ''connection pool''] then ClassPoolTimeout
      else if says_lower f [''i/o timeout'', ''timeout''] then ClassTimeout
      else if says_lower f [''tls'', ''certificate''] then ClassTLS
      else ClassQueryError)"

record redis_exchange =
  rx_scope :: go_ctx
  rx_acquired :: int
  rx_done :: int

definition Do_redis ::
  "'r rand_ops \<Rightarrow> yaml printers \<Rightarrow> server \<Rightarrow> ('r \<Rightarrow> real \<times> 'r) \<Rightarrow> shared \<Rightarrow> iteration \<Rightarrow> redis_exchange \<Rightarrow> 'r \<Rightarrow>
   ('p, 'k) redis_runner \<Rightarrow> outcome option \<times> ('p, 'k) redis_runner" where
  "Do_redis ops pr srv draw sh it x rng r =
     (case Pick draw (rr_picker r) rng of (i, rng') \<Rightarrow>
      let c = rr_commands r ! i;
          o' = (started it (cm_label c))\<lparr>o_conn_acquired := rx_acquired x\<rparr>
      in case render_command ops pr c (Some \<lparr>cx_shared = Some sh, cx_rand = Some rng', cx_vars = None, cx_rows = None\<rparr>) of
           Inl Panicked \<Rightarrow> (None, r)
         | Inl (Failed e) \<Rightarrow> (Some (o'\<lparr>o_end := rx_acquired x, o_class := ClassExtractFailed\<rparr>), r)
         | Inr (args, _) \<Rightarrow>
             (Some (o'\<lparr>o_end := rx_done x,
                       o_class := (case execute_redis srv c args of
                           Some f \<Rightarrow> classify_redis_error (rx_scope x) f | None \<Rightarrow> ClassOK)\<rparr>),
              if cm_op c = OpWrite then r\<lparr>rr_writes := rr_writes r + 1\<rparr> else r\<lparr>rr_reads := rr_reads r + 1\<rparr>))"

section \<open>Rendering\<close>

lemma Compile_solo:
  assumes "Template.Compile w = Inr t" "IsStatic t"
  shows "t_solo t = None"
proof -
  obtain ps where t: "t = \<lparr>t_source = w, t_parts = ps, t_solo = (case ps of [LiteralP _] \<Rightarrow> None | [p] \<Rightarrow> Some p | _ \<Rightarrow> None)\<rparr>"
    using assms(1) by (auto simp: Template.Compile_def rbind_Inr)
  then have "list_all is_literal ps" using assms(2) by (simp add: IsStatic_def)
  then show ?thesis unfolding t by (cases ps; cases "hd ps"; cases "tl ps") simp_all
qed

lemma compile_words_static:
  "compile_words ws = Inr ts \<Longrightarrow> map Static ts = ws \<and> list_all (\<lambda>t. IsStatic t \<longrightarrow> t_solo t = None) ts"
proof (induction ws arbitrary: ts)
  case (Cons w ws)
  obtain t ts' where t: "Template.Compile w = Inr t" "compile_words ws = Inr ts'" "ts = t # ts'"
    using Cons.prems by (auto simp: rbind_Inr split: sum.splits)
  have "Static t = w" by (rule Compile_source[OF t(1)])
  moreover have "IsStatic t \<longrightarrow> t_solo t = None" using Compile_solo[OF t(1)] by blast
  ultimately show ?case using Cons.IH[OF t(2)] t(3) by simp
qed simp

lemma compile_units_static:
  "compile_units us = Inr tss \<Longrightarrow> map (map Static) tss = us \<and> list_all (list_all (\<lambda>t. IsStatic t \<longrightarrow> t_solo t = None)) tss"
proof (induction us arbitrary: tss)
  case (Cons u us)
  then obtain ts tss' where "compile_words u = Inr ts" "compile_units us = Inr tss'" "tss = ts # tss'" by (auto simp: rbind_Inr)
  then show ?case using Cons.IH compile_words_static by auto
qed simp

lemma compile_command_sel:
  assumes "compile_command timeout src c = Inr (cmd, c')"
  shows "compile_units (redis_commands src) = Inr (cm_parts cmd)" "cm_static cmd = resolved (cm_parts cmd)"
    "cm_name cmd = rc_name src" "cm_pipeline cmd = (rc_pipeline src \<noteq> [])"
  using assms by (auto simp: compile_command_def rbind_Inr split: prod.splits)

lemma render_unit_static:
  "list_all IsStatic ts \<Longrightarrow> list_all (\<lambda>t. IsStatic t \<longrightarrow> t_solo t = None) ts \<Longrightarrow>
   render_unit ops pr ts ctx = Inr (map (\<lambda>t. VStr (Static t)) ts, ctx)"
  by (induction ts) (auto simp: RenderValue_def Render_def Static_def)

lemma render_units_static:
  "all_static tss \<Longrightarrow> list_all (list_all (\<lambda>t. IsStatic t \<longrightarrow> t_solo t = None)) tss \<Longrightarrow>
   render_units ops pr tss ctx = Inr (map (map (\<lambda>t. VStr (Static t))) tss, ctx)"
  by (induction tss) (auto simp: all_static_def render_unit_static)

text \<open>Resolving a fixed command once is an optimisation only: for every command the runner compiles, taking the
  stored arguments gives what rendering every template would, and leaves the random source and the
  sequence as they were.\<close>

theorem static_rendering:
  assumes "compile_command timeout src c = Inr (cmd, c')"
  shows "render_command ops pr cmd ctx = render_units ops pr (cm_parts cmd) ctx"
proof -
  note clean = compile_units_static[OF compile_command_sel(1)[OF assms]]
  show ?thesis
  proof (cases "all_static (cm_parts cmd) \<and> cm_parts cmd \<noteq> []")
    case True
    then show ?thesis using clean render_units_static[of "cm_parts cmd" ops pr ctx]
      by (simp add: render_command_def compile_command_sel(2)[OF assms] resolved_def)
  next
    case False
    then show ?thesis by (auto simp: render_command_def compile_command_sel(2)[OF assms] resolved_def)
  qed
qed

section \<open>Reads and writes\<close>

lemma inferred_kind_write: "inferred_kind us = OpWrite \<longleftrightarrow> (\<exists>u \<in> set us. c_op (ClassifyRedis u) = OpWrite)"
proof -
  have "foldl (\<lambda>op u. if c_op (ClassifyRedis u) = OpWrite then OpWrite else op) o' us = OpWrite \<longleftrightarrow>
      o' = OpWrite \<or> (\<exists>u \<in> set us. c_op (ClassifyRedis u) = OpWrite)" for o'
    by (induction us arbitrary: o') auto
  then show ?thesis by (simp add: inferred_kind_def)
qed

lemma compile_command_op:
  "compile_command timeout src c = Inr (cmd, c') \<Longrightarrow> cm_op cmd = OpWrite \<longleftrightarrow> command_writes src"
  by (auto simp: compile_command_def rbind_Inr inferred_kind_write command_writes_def declared_kind_def
      split: prod.splits if_splits)


text \<open>
  A template in the place of a subcommand is judged as it is written, not as it is rendered: a draw
  can make a command the classifier called a read one that it calls dangerous.
\<close>

lemma template_subcommand:
  "c_op (ClassifyRedis [''CONFIG'', ''{{pick GET|SET}}'']) = OpRead"
  "c_certain (ClassifyRedis [''CONFIG'', ''{{pick GET|SET}}''])"
  "c_dangerous (ClassifyRedis [''CONFIG'', ''SET'']) = ''CONFIG SET''"
  by code_simp+

lemma template_becomes:
  "\<exists>t. Template.Compile ''{{pick GET|SET}}'' = Inr t \<and>
     RenderValue \<lparr>Int64N = (\<lambda>_ r. (0, r)), IntN = (\<lambda>_ r. (1, r)), Uint64 = (\<lambda>r. (0, r))\<rparr> (pr :: yaml printers) t
       (Some \<lparr>cx_shared = Some \<lparr>sh_seq = 0, sh_now = 0\<rparr>, cx_rand = Some (), cx_vars = None, cx_rows = None\<rparr>)
     = Inr (VStr ''SET'', Some \<lparr>cx_shared = Some \<lparr>sh_seq = 0, sh_now = 0\<rparr>, cx_rand = Some (), cx_vars = None, cx_rows = None\<rparr>)"
proof -
  have tok: "compileToken ''pick GET|SET'' = Inr (GenP (PickOne [''GET'', ''SET'']) :: yaml part)" by code_simp
  have cut: "index_of ''{{pick GET|SET}}'' ''{{'' = Some 0" "index_of ''pick GET|SET}}'' ''}}'' = Some 12"
    "trim_space (take 12 ''pick GET|SET}}'') = ''pick GET|SET''" by code_simp+
  have "compile_parts ''{{pick GET|SET}}'' = Inr [GenP (PickOne [''GET'', ''SET'']) :: yaml part]"
    by (subst compile_parts.simps) (simp add: cut[simplified] tok[simplified] compile_parts.simps[of "[]"])
  then show ?thesis by (simp add: Template.Compile_def RenderValue_def generate_def)
qed

section \<open>The outcome of an operation\<close>

inductive redis_does ::
  "'r rand_ops \<Rightarrow> yaml printers \<Rightarrow> ('r \<Rightarrow> real \<times> 'r) \<Rightarrow> ('p, 'k) redis_runner \<Rightarrow> iteration \<Rightarrow> outcome list \<Rightarrow> bool"
  for ops pr draw r where
  "Do_redis ops pr srv draw sh it x rng (r\<lparr>rr_reads := n, rr_writes := m\<rparr>) = (Some o', r') \<Longrightarrow>
   redis_does ops pr draw r it [o']"

lemma Do_redis_stamped: "Do_redis ops pr srv draw sh it x rng r = (Some o', r') \<Longrightarrow> stamped it o'"
  by (auto simp: Do_redis_def Let_def split: prod.splits option.splits sum.splits stop.splits)

interpretation redis_run: one_outcome "redis_does ops pr draw r"
  by unfold_locales (auto elim!: redis_does.cases dest: Do_redis_stamped)

lemma execute_redis_None:
  "execute_redis srv c units = None \<longleftrightarrow>
     (if \<not> cm_pipeline c then \<not> refused (rs_do srv (units ! 0))
      else \<not> refused (fst (rs_exec srv units)) \<and> list_all (\<lambda>e. \<not> refused e) (snd (rs_exec srv units)))"
proof -
  have some: "refused e \<Longrightarrow> map_option g e \<noteq> None" for e and g :: "fault \<Rightarrow> fault" by (cases e) (auto simp: refused_def)
  obtain e cmds where rs: "rs_exec srv units = (e, cmds)" by (cases "rs_exec srv units")
  have all: "List.find refused cmds = None \<longleftrightarrow> list_all (\<lambda>e. \<not> refused e) cmds"
    by (auto simp: find_None_iff list_all_iff)
  have "refused e'" if "List.find refused cmds = Some e'" for e'
    using that by (auto simp: find_Some_iff)
  then show ?thesis using some all rs
    by (cases "List.find refused cmds") (auto simp: execute_redis_def Let_def)
qed

lemma classify_redis_fails [simp]: "classify_redis_error sc f \<noteq> ClassOK"
  by (simp add: classify_redis_error_def)

text \<open>An operation on Redis succeeds exactly when nothing in it was refused, and the answer that a key is absent refuses
  nothing, in a pipeline neither for the whole nor for one of its commands; an operation whose template cannot be rendered is
  never sent, has no service time and counts neither as a read nor as a write.\<close>

theorem redis_outcome:
  assumes "Do_redis ops pr srv draw sh it x rng r = (Some o', r')" "Pick draw (rr_picker r) rng = (i, rng')"
    "cmd = rr_commands r ! i"
    "ctx = Some \<lparr>cx_shared = Some sh, cx_rand = Some rng', cx_vars = None, cx_rows = None\<rparr>"
  shows "case render_command ops pr cmd ctx of
      Inl _ \<Rightarrow> o_class o' = ClassExtractFailed \<and> ServiceTime o' = 0 \<and> r' = r
    | Inr (args, _) \<Rightarrow> o_end o' = rx_done x \<and>
        rr_reads r' + rr_writes r' = rr_reads r + rr_writes r + 1 \<and>
        (o_class o' = ClassOK \<longleftrightarrow>
           (if cm_pipeline cmd
            then \<not> refused (fst (rs_exec srv args)) \<and> list_all (\<lambda>e. \<not> refused e) (snd (rs_exec srv args))
            else \<not> refused (rs_do srv (args ! 0))))"
proof (cases "render_command ops pr cmd ctx")
  case (Inl s)
  then show ?thesis using assms
    by (cases s) (auto simp: Do_redis_def Let_def ServiceTime_def wrap64_def)
next
  case (Inr p)
  obtain args ctx' where p: "p = (args, ctx')" by (cases p)
  have "o_end o' = rx_done x \<and> rr_reads r' + rr_writes r' = rr_reads r + rr_writes r + 1 \<and>
      (o_class o' = ClassOK \<longleftrightarrow> execute_redis srv cmd args = None)"
    using assms Inr unfolding p by (auto simp: Do_redis_def Let_def split: option.splits if_splits)
  then show ?thesis using Inr unfolding p execute_redis_None by (simp split: if_splits)
qed

section \<open>Labels and words\<close>

lemma compile_commands_names:
  "compile_commands timeout cs c = Inr (cmds, c') \<Longrightarrow> map cm_name cmds = map rc_name cs"
proof (induction cs arbitrary: c cmds)
  case (Cons k cs)
  then obtain cmd c1 cmds' where "compile_command timeout k c = Inr (cmd, c1)" "compile_commands timeout cs c1 = Inr (cmds', c')"
    "cmds = cmd # cmds'" by (auto simp: rbind_Inr)
  then show ?case using Cons.IH compile_command_sel(3) by auto
qed simp

lemma New_redis_labels:
  assumes "New_redis lib runID (cf_redis cf) timeout c = Inr (r, c')"
  shows "redis_labels r = Config.Labels cf ''redis''"
  using assms compile_commands_names
  by (fastforce simp: New_redis_def redis_labels_def Config.Labels_def rbind_Inr split: option.splits)

text \<open>A refusal that happens to contain the letters of \<open>eof\<close> is read as a lost connection.\<close>

lemma letters_mislead:
  "classify_redis_error open_scope \<lparr>ft_chain = [OtherMark], ft_timeout = None, ft_text = ''ERR unknown command typeof''\<rparr>
     = ClassConnection"
  by code_simp

section \<open>Examples\<close>

definition small_get :: redis_command where
  "small_get = \<lparr>rc_name = ''get'', rc_weight = None, rc_type = [], rc_cmd = [''GET'', ''k''], rc_pipeline = [],
     rc_timeout = None\<rparr>"

definition fixed_word :: "string \<Rightarrow> yaml template" where
  "fixed_word w = \<lparr>t_source = w, t_parts = [LiteralP w], t_solo = None\<rparr>"

lemma small_get_compiled:
  "\<exists>cmd col'. compile_command t small_get col = Inr (cmd, col') \<and> cm_parts cmd = [[fixed_word ''GET'', fixed_word ''k'']]
     \<and> cm_static cmd = Some [[VStr ''GET'', VStr ''k'']] \<and> cm_pipeline cmd = False"
proof -
  have words: "Template.Compile w = Inr (fixed_word w)" if "w \<in> {''GET'', ''k''}" for w
    using that by (auto simp: Template.Compile_def compile_parts.simps fixed_word_def)
  have "resolved [[fixed_word ''GET'', fixed_word ''k'']] = Some [[VStr ''GET'', VStr ''k'']]"
    by (simp add: resolved_def all_static_def IsStatic_def Static_def fixed_word_def)
  then show ?thesis
    by (cases "LabelID ''get'' col")
      (simp add: compile_command_def small_get_def redis_commands_def words)
qed

theorem static_rendering_witness:
  "\<exists>(col :: unit collector) cmd col'. compile_command second small_get col = Inr (cmd, col') \<and>
     render_units (ev_rand small_env) (ev_pr small_env) (cm_parts cmd) None = Inr ([[VStr ''GET'', VStr ''k'']], None)"
proof -
  obtain col :: "unit collector" where "NewCollector no_sketch small_cfg = Inr col" using small_collector by blast
  obtain cmd col' where c: "compile_command second small_get col = Inr (cmd, col')"
    "cm_static cmd = Some [[VStr ''GET'', VStr ''k'']]" using small_get_compiled by blast
  have "render_command (ev_rand small_env) (ev_pr small_env) cmd None = Inr ([[VStr ''GET'', VStr ''k'']], None)"
    by (simp add: render_command_def c(2))
  then have "render_units (ev_rand small_env) (ev_pr small_env) (cm_parts cmd) None = Inr ([[VStr ''GET'', VStr ''k'']], None)"
    using static_rendering[OF c(1), of "ev_rand small_env" "ev_pr small_env" None] by simp
  then show ?thesis using c(1) by blast
qed

definition small_redis :: redis_section where
  "small_redis = \<lparr>rd_mode = [], rd_addr = ''h:6379'', rd_addrs = [], rd_master_name = [], rd_username = [],
     rd_password = [], rd_db = 0, rd_tls = None, rd_executor = demo_executor, rd_pool = None, rd_commands = [small_get]\<rparr>"

definition redis_demo :: configuration where
  "redis_demo = demo\<lparr>cf_db := None, cf_redis := Some small_redis\<rparr>"

lemma redis_demo_applied: "ApplyPolicy id redis_demo ServerDefault = Inr (ServerDefault, [])"
proof -
  have tight: "Tighten ServerDefault (tightening_of redis_demo) = Inr ServerDefault"
    by (simp add: Tighten_def tightening_of_def redis_demo_def demo_def no_safety_def Let_def ServerDefault_def Default_def
        flag_problem_def tighten_targets_def tighten_rate_def tighten_in_flight_def tighten_duration_def)
  have get: "ClassifyRedis [''GET'', ''k''] = mk_class OpRead [] True" by code_simp
  have lists: "queries_of redis_demo = []" "commands_of redis_demo = [small_get]"
    by (simp_all add: queries_of_def commands_of_def redis_demo_def small_redis_def)
  have j: "jd_writes (classifyStatements id redis_demo) = (\<lambda>_. [])"
    "jd_dangerous (classifyStatements id redis_demo) = (\<lambda>_. [])" "jd_warnings (classifyStatements id redis_demo) = []"
    by (simp_all add: classifyStatements_def lists redis_commands_def small_get_def command_writes_def get
        found_dangerous_def command_warnings_def unrecognised_def Let_def fun_eq_iff)
  have limit: "MaxRunDuration ServerDefault = Inr (Some 600000000000)" by code_simp
  have names: "Runners redis_demo = [''redis'']" by (simp add: Runners_def redis_demo_def demo_def)
  have ex: "executor_of redis_demo ''redis'' = Some demo_executor"
    by (simp add: executor_of_def redis_demo_def small_redis_def)
  have "executor_problems redis_demo ServerDefault ''redis'' = []"
    by (simp add: executor_problems_def ex peakRate_def demo_executor_def CheckRate_def ServerDefault_def)
  moreover have "rn_duration (cf_run redis_demo) = 0" "checkInsecureTLS redis_demo ServerDefault = Inr ()"
    by (simp_all add: redis_demo_def demo_def demo_run_def small_redis_def checkInsecureTLS_def)
  ultimately have "policy_problems redis_demo ServerDefault (classifyStatements id redis_demo) = []"
    by (simp add: policy_problems_def j CheckWrites_def CheckDangerous_def CheckDuration_def limit names)
  with tight j(3) show ?thesis by (simp add: ApplyPolicy_Inr)
qed


definition absent_key :: server where
  "absent_key = \<lparr>rs_do = (\<lambda>_. Some \<lparr>ft_chain = [RedisNil], ft_timeout = None, ft_text = ''redis: nil''\<rparr>),
     rs_exec = (\<lambda>_. (None, [])), rs_name = (\<lambda>_. [])\<rparr>"

definition small_command :: command where
  "small_command = \<lparr>cm_name = ''get'', cm_label = 0, cm_op = OpRead, cm_timeout = second, cm_pipeline = False,
     cm_parts = [[fixed_word ''GET'', fixed_word ''k'']], cm_static = Some [[VStr ''GET'', VStr ''k'']]\<rparr>"

definition small_redis_runner :: "(unit, unit) redis_runner" where
  "small_redis_runner = \<lparr>rr_commands = [small_command], rr_picker = NewWeighted [1],
     rr_options = \<lparr>ro_addrs = [], ro_username = [], ro_password = [], ro_db = 0, ro_pool_size = 16, ro_min_idle = 0,
       ro_client_name = [], ro_master_name = [], ro_route_randomly = False, ro_tls = None\<rparr>, rr_reads = 0, rr_writes = 0\<rparr>"

theorem redis_outcome_witness:
  "\<exists>o'. fst (Do_redis (ev_rand small_env) (ev_pr small_env) absent_key (\<lambda>r. (0, r)) \<lparr>sh_seq = 0, sh_now = 0\<rparr> small_it
      \<lparr>rx_scope = open_scope, rx_acquired = 8, rx_done = 9\<rparr> () small_redis_runner) = Some o' \<and> o_class o' = ClassOK"
proof -
  let ?sh = "\<lparr>sh_seq = 0, sh_now = 0\<rparr>" and ?x = "\<lparr>rx_scope = open_scope, rx_acquired = 8, rx_done = 9\<rparr>"
  have pick: "Pick (\<lambda>r. (0, r)) (rr_picker small_redis_runner) () = (0, ())"
    by (simp add: Pick_def small_redis_runner_def NewWeighted_def)
  have cmd: "rr_commands small_redis_runner ! 0 = small_command" by (simp add: small_redis_runner_def)
  obtain o' r' where d: "Do_redis (ev_rand small_env) (ev_pr small_env) absent_key (\<lambda>r. (0, r)) ?sh small_it ?x () small_redis_runner
      = (Some o', r')"
    by (simp add: Do_redis_def pick cmd Let_def render_command_def small_command_def)
  from redis_outcome[OF d pick cmd[symmetric] refl]
  have "o_class o' = ClassOK"
    by (simp add: render_command_def small_command_def absent_key_def refused_def is_a_def)
  then show ?thesis using d by simp
qed

end
