(* ===== verification/Runners.thy ===== *)
theory Runners
  imports HttpRun SqlRun RedisRun
begin

text \<open>
  What the three runners have in common: each keeps the contract \<open>one_outcome\<close>, so a drained run
  measures its schedule whichever of them performs it, and each sorts its failures into the classes the
  abort guard and the validity rules read.
\<close>

section \<open>Classes\<close>

text \<open>The verdicts the guard may act on.\<close>

lemma transport_guarded:
  "is_a DeadlineExceeded f \<Longrightarrow> classifyTransportError sc f = ClassTimeout"
  "\<not> is_a DeadlineExceeded f \<Longrightarrow> is_a Canceled f \<Longrightarrow> classifyTransportError sc f = ClassCanceled"
  by (simp_all add: classifyTransportError_def)

lemma transport_range:
  "classifyTransportError sc f \<in> {ClassTimeout, ClassCanceled, ClassDNS, ClassTLS, ClassConnection, ClassOther}"
  by (simp add: classifyTransportError_def)

lemma sql_range:
  "classify_sql_error sc f \<in> {ClassTimeout, ClassCanceled, ClassConnection, ClassTLS, ClassQueryError}"
  by (simp add: classify_sql_error_def)

lemma redis_range:
  "classify_redis_error sc f \<in> {ClassTimeout, ClassCanceled, ClassConnection, ClassPoolTimeout, ClassTLS, ClassQueryError}"
  by (simp add: classify_redis_error_def)

text \<open>The three classifications agree on what matters most. A failure is never a success. A deadline the target
  missed is a timeout and counts toward the abort guard; a cancellation, or on the storage tiers any
  failure after the context has ended that is not a lost connection, is ours and never counts; and
  wrapping an error on its way up changes neither.\<close>

theorem faults_classified:
  assumes "classify \<in> {classifyTransportError, classify_sql_error, classify_redis_error}"
  shows "classify sc f \<noteq> ClassOK \<and>
    (is_a DeadlineExceeded f \<longrightarrow> classify sc (wrapped what f) = ClassTimeout \<and> CountsTowardAbortGuard (classify sc f)) \<and>
    (\<not> is_a DeadlineExceeded f \<and> is_a Canceled f \<longrightarrow>
       classify sc (wrapped what f) = ClassCanceled \<and> \<not> CountsTowardAbortGuard (classify sc f)) \<and>
    (classify \<noteq> classifyTransportError \<and> gc_err sc \<noteq> None \<and>
     \<not> is_a DeadlineExceeded f \<and> \<not> is_a ConnDone f \<and> \<not> is_a LocalBadConn f \<and> \<not> is_a RedisClosed f \<longrightarrow>
       \<not> CountsTowardAbortGuard (classify sc f))"
proof -
  consider "classify = classifyTransportError" | "classify = classify_sql_error" | "classify = classify_redis_error"
    using assms by blast
  then show ?thesis
  proof cases
    case 1
    then show ?thesis by (simp add: transport_guarded CountsTowardAbortGuard_def)
  next
    case 2
    have "classify_sql_error sc f \<noteq> ClassOK" using sql_range[of sc f] by auto
    with 2 show ?thesis by (simp add: classify_sql_error_def CountsTowardAbortGuard_def)
  next
    case 3
    then show ?thesis by (simp add: classify_redis_error_def CountsTowardAbortGuard_def)
  qed
qed

theorem faults_classified_witness:
  "classify_sql_error open_scope (wrapped ''querying'' deadline) = ClassTimeout \<and>
   CountsTowardAbortGuard (classify_sql_error open_scope deadline)"
proof -
  have "classify_sql_error \<in> {classifyTransportError, classify_sql_error, classify_redis_error}" by simp
  from faults_classified[OF this, of open_scope deadline "''querying''"] show ?thesis
    by (simp add: is_a_def deadline_def)
qed

section \<open>From schedule to report\<close>

text \<open>Whichever runner performs the operations, the operations in the summary of a run that has drained are exactly
  the jobs sent whose intended time lies after the warm-up: a slow target, a failure of any kind, a pool that ran out or
  a late worker can neither hide nor move one.\<close>

theorem runners_measure_schedule:
  assumes "does \<in> {http_does sk draw' hr, sql_does env draw'' sr, redis_does rops pr draw''' rr}"
    "NewArrivalRate (Some ops) cfg = Inr e0" "ec_collector cfg = Some c0" "NewCollector ops ccfg = Inr c0"
    "reached ops draw does e0 e" "\<forall>w \<in> set (ex_workers e). w = Exited"
  shows "os_n (sn_summary (Snapshot ops (Finish ops (ex_collector e)))) =
    int (length (filter (\<lambda>j. co_warmup c0 \<le> BucketIndexOf c0 (jb_intended j)) (ex_sent e)))"
proof -
  have "one_outcome does"
    using assms(1) http_run.one_outcome_axioms sql_run.one_outcome_axioms redis_run.one_outcome_axioms by auto
  from one_outcome.measured_run[OF this assms(2-6)] show ?thesis .
qed

definition select_unit :: unit_of_work where
  "select_unit = \<lparr>un_name = ''q'', un_label = 0, un_op = OpRead, un_tx = False,
     un_stmts = [plain_stmt ''SELECT 1''], un_timeout = second, un_prepare = False\<rparr>"

definition select_runner :: sql_runner where
  "select_runner = small_sql\<lparr>sr_units := [select_unit]\<rparr>"

lemma select_does: "\<exists>o'. sql_does small_env (\<lambda>r. (0, r)) select_runner it [o'] \<and> o_end o' = 2"
proof -
  let ?x = "\<lparr>sq_conn_err = None, sq_scope = open_scope, sq_acquired = 1, sq_done = 2\<rparr>"
  let ?r = "select_runner\<lparr>sr_reads := 0, sr_writes := 0\<rparr>"
  have "Pick (\<lambda>r. (0, r)) (sr_picker ?r) () = (0, ())"
    by (simp add: Pick_def select_runner_def small_sql_def NewWeighted_def)
  moreover have "fst (execute_sql small_env select_unit ctx) = Done" for ctx
    by (simp add: execute_sql_def select_unit_def small_env_def plain_stmt_def runStatement_def statement_text_def
        sql_query_def via_of_def Let_def)
  then obtain calls ctx' where "execute_sql small_env select_unit
      (Some \<lparr>cx_shared = Some \<lparr>sh_seq = 0, sh_now = 0\<rparr>, cx_rand = Some (), cx_vars = None, cx_rows = None\<rparr>) = (Done, calls, ctx')"
    by (metis prod.collapse)
  ultimately obtain o' r' where "Do_sql small_env (\<lambda>r. (0, r)) \<lparr>sh_seq = 0, sh_now = 0\<rparr> it ?x () ?r = (Some o', calls, r')"
    "o_end o' = 2"
    by (simp add: Do_sql_def Let_def select_runner_def)
  then show ?thesis by (blast intro: sql_does.intros)
qed

theorem runners_measure_schedule_witness:
  "\<exists>c0 e. NewCollector no_sketch small_cfg = Inr c0 \<and> length (ex_sent (e :: (unit, unit) exec)) = 1 \<and>
     os_n (sn_summary (Snapshot no_sketch (Finish no_sketch (ex_collector e)))) =
       int (length (filter (\<lambda>j. co_warmup c0 \<le> BucketIndexOf c0 (jb_intended j)) (ex_sent e)))"
proof -
  obtain s off s1 s2 where s: "Next (\<lambda>r :: unit. (1, r)) s = (Some off, s1)" "Next (\<lambda>r. (1, r)) s1 = (None, s2)"
    using small_schedule by blast
  obtain c where c: "NewCollector no_sketch small_cfg = Inr c" using small_collector by blast
  let ?does = "sql_does small_env (\<lambda>r. (0, r)) select_runner"
  have all: "\<forall>it. \<exists>os. ?does it os" using select_does by blast
  obtain e0 e where e: "NewArrivalRate (Some no_sketch) (small_exec no_sketch s c) = Inr e0"
    "reached no_sketch (\<lambda>r. (1, r)) ?does e0 e" "ex_workers e = [Exited]" "length (ex_sent e) = 1"
    using small_run_reached[OF s all, of no_sketch c] by blast
  have col: "ec_collector (small_exec no_sketch s c) = Some c" by (simp add: small_exec_def)
  have "?does \<in> {http_does no_sketch (\<lambda>r. (0, r)) small_http, ?does,
      redis_does (ev_rand small_env) (ev_pr small_env) (\<lambda>r. (0, r)) small_redis_runner}" by simp
  from runners_measure_schedule[OF this e(1) col c e(2)] e(3,4) c show ?thesis by auto
qed

end
