(* ===== verification/Reflect.thy ===== *)
theory Reflect
  imports Config
begin

text \<open>
  The parts of \<open>internal/config\<close> that walk the configuration by its Go types: the types and values of
  \<open>reflect\<close> as data, the table of YAML names (\<open>yamlFields\<close>), the type of the whole document, and
  reading and writing at an address inside a value.
\<close>

section \<open>Types and values\<close>

text \<open>
  A type as \<open>reflect\<close> shows it. \<open>TInt None\<close> is \<open>int\<close>, \<open>TInt (Some 64)\<close> is \<open>int64\<close>. \<open>TDuration\<close> is the
  named type, \<open>TIface\<close> is \<open>any\<close>. A struct carries whether its pointer implements \<open>yaml.Unmarshaler\<close>; a field
  its Go name, its \<open>yaml\<close> tag and whether it is embedded.
\<close>

datatype go_type =
    TString
  | TBool
  | TInt "nat option"
  | TUint "nat option"
  | TFloat
  | TDuration
  | TIface
  | TPtr go_type
  | TSlice go_type
  | TMap go_type go_type
  | TStruct bool "go_field list"
and go_field = Field (gf_name: string) (gf_tag: string) (gf_embedded: bool) (gf_type: go_type)

datatype go_val =
    VString string
  | VBool bool
  | VInt int
  | VFloat float64
  | VIface "yaml option"
  | VNil
  | VPtr go_val
  | VSlice "go_val list"
  | VMap "(string \<times> go_val) list"
  | VStruct "go_val list"

text \<open>\<open>reflect.New\<close> and an absent section: the zero value. A nil list or map is the empty one.\<close>

fun zero :: "go_type \<Rightarrow> go_val" and zero_field :: "go_field \<Rightarrow> go_val" where
  "zero TString = VString []"
| "zero TBool = VBool False"
| "zero (TInt w) = VInt 0"
| "zero (TUint w) = VInt 0"
| "zero TFloat = VFloat (Fin 0)"
| "zero TDuration = VInt 0"
| "zero TIface = VIface None"
| "zero (TPtr t) = VNil"
| "zero (TSlice t) = VSlice []"
| "zero (TMap k t) = VMap []"
| "zero (TStruct u fs) = VStruct (map zero_field fs)"
| "zero_field (Field n tag emb t) = zero t"

definition bits :: "nat option \<Rightarrow> nat" where
  "bits w = (case w of None \<Rightarrow> 64 | Some b \<Rightarrow> b)"

definition fits_int :: "nat option \<Rightarrow> int \<Rightarrow> bool" where
  "fits_int w n \<longleftrightarrow> - (2 ^ (bits w - 1)) \<le> n \<and> n < 2 ^ (bits w - 1)"

definition fits_uint :: "nat option \<Rightarrow> int \<Rightarrow> bool" where
  "fits_uint w n \<longleftrightarrow> 0 \<le> n \<and> n < 2 ^ bits w"

text \<open>What a value of a type looks like.\<close>

fun has_type :: "go_type \<Rightarrow> go_val \<Rightarrow> bool" and field_has_type :: "go_field \<Rightarrow> go_val \<Rightarrow> bool" where
  "has_type TString v = (case v of VString s \<Rightarrow> True | _ \<Rightarrow> False)"
| "has_type TBool v = (case v of VBool b \<Rightarrow> True | _ \<Rightarrow> False)"
| "has_type (TInt w) v = (case v of VInt n \<Rightarrow> fits_int w n | _ \<Rightarrow> False)"
| "has_type (TUint w) v = (case v of VInt n \<Rightarrow> fits_uint w n | _ \<Rightarrow> False)"
| "has_type TFloat v = (case v of VFloat x \<Rightarrow> True | _ \<Rightarrow> False)"
| "has_type TDuration v = (case v of VInt n \<Rightarrow> in_int64 n | _ \<Rightarrow> False)"
| "has_type TIface v = (case v of VIface x \<Rightarrow> True | _ \<Rightarrow> False)"
| "has_type (TPtr t) v = (case v of VNil \<Rightarrow> True | VPtr w \<Rightarrow> has_type t w | _ \<Rightarrow> False)"
| "has_type (TSlice t) v = (case v of VSlice vs \<Rightarrow> list_all (has_type t) vs | _ \<Rightarrow> False)"
| "has_type (TMap k t) v = (case v of VMap kvs \<Rightarrow> list_all (\<lambda>kv. has_type t (snd kv)) kvs | _ \<Rightarrow> False)"
| "has_type (TStruct u fs) v = (case v of VStruct vs \<Rightarrow> list_all2 field_has_type fs vs | _ \<Rightarrow> False)"
| "field_has_type (Field n tag emb t) v = has_type t v"

lemma field_has_type_eq [simp]: "field_has_type f v = has_type (gf_type f) v"
  by (cases f) simp

lemma zero_field_eq [simp]: "zero_field f = zero (gf_type f)"
  by (cases f) simp

lemma fits_zero: "bits w \<noteq> 0 \<Longrightarrow> fits_int w 0" "fits_uint w 0"
  by (simp_all add: fits_int_def fits_uint_def)

text \<open>Widths in use are never zero, so the zero value has its type.\<close>

fun sized :: "go_type \<Rightarrow> bool" and sized_field :: "go_field \<Rightarrow> bool" where
  "sized (TInt w) = (bits w \<noteq> 0)"
| "sized (TUint w) = (bits w \<noteq> 0)"
| "sized (TPtr t) = sized t"
| "sized (TSlice t) = sized t"
| "sized (TMap k t) = (sized k \<and> sized t)"
| "sized (TStruct u fs) = list_all sized_field fs"
| "sized _ = True"
| "sized_field (Field n tag emb t) = sized t"

lemma zero_has_type: "sized t \<Longrightarrow> has_type t (zero t)" and "sized_field f \<Longrightarrow> has_type (gf_type f) (zero (gf_type f))"
  by (induction t and f) (auto simp: fits_zero in_int64_def min_int64_def max_int64_def list_all2_map2 list_all2_same list_all_iff)

section \<open>Names of fields\<close>

text \<open>
  \<open>yamlFields\<close> as an association list, later entries first because a later field of the same name replaces an
  earlier one. A field of an embedded struct is entered with the index it has in that struct. No struct of the
  configuration embeds another.
\<close>

definition exported :: "string \<Rightarrow> bool" where
  "exported n = (case n of [] \<Rightarrow> False | c # _ \<Rightarrow> is_upper c)"

fun yaml_fields :: "go_type \<Rightarrow> (string \<times> nat \<times> go_field) list"
  and field_entries :: "nat \<Rightarrow> go_field list \<Rightarrow> (string \<times> nat \<times> go_field) list"
  and field_entry :: "nat \<Rightarrow> go_field \<Rightarrow> (string \<times> nat \<times> go_field) list" where
  "yaml_fields (TStruct u fs) = field_entries 0 fs"
| "yaml_fields _ = []"
| "field_entries i [] = []"
| "field_entries i (f # fs) = field_entries (Suc i) fs @ field_entry i f"
| "field_entry i (Field n tag emb t) =
     (if \<not> exported n then []
      else let name = fst (cut tag '','')
           in if name = ''-'' then []
              else if name = [] \<and> emb then yaml_fields t
              else [(if name = [] then to_lower n else name, i, Field n tag emb t)])"

definition yamlFields :: "go_type \<Rightarrow> string \<Rightarrow> (nat \<times> go_field) option" where
  "yamlFields t = map_of (yaml_fields t)"

definition implementsUnmarshaler :: "go_type \<Rightarrow> bool" where
  "implementsUnmarshaler t = (case t of TStruct u fs \<Rightarrow> u | TDuration \<Rightarrow> True | _ \<Rightarrow> False)"

text \<open>No struct inside a type embeds another.\<close>

fun plain_type :: "go_type \<Rightarrow> bool" and plain_field :: "go_field \<Rightarrow> bool" where
  "plain_type (TPtr t) = plain_type t"
| "plain_type (TSlice t) = plain_type t"
| "plain_type (TMap k t) = (plain_type k \<and> plain_type t)"
| "plain_type (TStruct u fs) = list_all plain_field fs"
| "plain_type _ = True"
| "plain_field (Field n tag emb t) = (\<not> emb \<and> plain_type t)"

lemma field_entry_plain: "plain_field f \<Longrightarrow> (x, j, g) \<in> set (field_entry i f) \<Longrightarrow> j = i \<and> g = f"
  by (cases f) (auto simp: Let_def split: if_splits)

lemma field_entries_plain:
  "list_all plain_field fs \<Longrightarrow> (x, j, g) \<in> set (field_entries i fs) \<Longrightarrow> i \<le> j \<and> j < i + length fs \<and> g = fs ! (j - i)"
proof (induction fs arbitrary: i)
  case (Cons f fs)
  from Cons.prems(2) consider "(x, j, g) \<in> set (field_entries (Suc i) fs)" | "(x, j, g) \<in> set (field_entry i f)"
    by auto
  then show ?case
  proof cases
    case 1
    with Cons.IH[of "Suc i"] Cons.prems(1) show ?thesis by (auto simp: nth_Cons')
  next
    case 2
    with field_entry_plain[of f x j g i] Cons.prems(1) show ?thesis by auto
  qed
qed simp

lemma yamlFields_plain:
  assumes "plain_type (TStruct u fs)" "yamlFields (TStruct u fs) name = Some (i, f)"
  shows "i < length fs" "f = fs ! i" "plain_type (gf_type f)"
proof -
  have "(name, i, f) \<in> set (field_entries 0 fs)" using map_of_SomeD assms(2) by (fastforce simp: yamlFields_def)
  from field_entries_plain[OF _ this] assms(1) show "i < length fs" "f = fs ! i" by auto
  with assms(1) show "plain_type (gf_type f)"
    by (metis go_field.collapse list_all_length plain_type.simps(4) plain_field.simps)
qed

section \<open>Addresses\<close>

text \<open>
  Where inside a value something is stored. Reading goes through a nil pointer to the zero value of the
  type it would point to; writing allocates it.
\<close>

datatype place = Deref | At nat

definition child :: "go_type \<Rightarrow> go_val \<Rightarrow> place \<Rightarrow> (go_type \<times> go_val) option" where
  "child t v p =
     (case (t, p) of
        (TPtr t', Deref) \<Rightarrow> Some (t', case v of VPtr w \<Rightarrow> w | _ \<Rightarrow> zero t')
      | (TStruct u fs, At i) \<Rightarrow> (case v of VStruct vs \<Rightarrow>
            (if i < length vs \<and> i < length fs then Some (gf_type (fs ! i), vs ! i) else None) | _ \<Rightarrow> None)
      | (TSlice t', At i) \<Rightarrow> (case v of VSlice vs \<Rightarrow> (if i < length vs then Some (t', vs ! i) else None) | _ \<Rightarrow> None)
      | _ \<Rightarrow> None)"

definition set_child :: "go_val \<Rightarrow> place \<Rightarrow> go_val \<Rightarrow> go_val" where
  "set_child v p w =
     (case p of
        Deref \<Rightarrow> VPtr w
      | At i \<Rightarrow> (case v of VStruct vs \<Rightarrow> VStruct (vs[i := w]) | VSlice vs \<Rightarrow> VSlice (vs[i := w]) | _ \<Rightarrow> v))"

fun read_at :: "go_type \<Rightarrow> go_val \<Rightarrow> place list \<Rightarrow> go_val option" where
  "read_at t v [] = Some v"
| "read_at t v (p # a) = (case child t v p of None \<Rightarrow> None | Some (t', w) \<Rightarrow> read_at t' w a)"

fun write_at :: "go_type \<Rightarrow> go_val \<Rightarrow> place list \<Rightarrow> go_val \<Rightarrow> go_val" where
  "write_at t v [] x = x"
| "write_at t v (p # a) x = (case child t v p of None \<Rightarrow> v | Some (t', w) \<Rightarrow> set_child v p (write_at t' w a x))"

fun type_at :: "go_type \<Rightarrow> go_val \<Rightarrow> place list \<Rightarrow> go_type option" where
  "type_at t v [] = Some t"
| "type_at t v (p # a) = (case child t v p of None \<Rightarrow> None | Some (t', w) \<Rightarrow> type_at t' w a)"

lemma child_set_child: "child t v p = Some (t', w) \<Longrightarrow> child t (set_child v p x) p = Some (t', x)"
  by (auto simp: child_def set_child_def split: go_type.splits place.splits go_val.splits if_splits)

lemma child_other: "child t v p = Some tw \<Longrightarrow> p \<noteq> q \<Longrightarrow> child t (set_child v p x) q = child t v q"
  by (auto simp: child_def set_child_def nth_list_update split: go_type.splits place.splits go_val.splits if_splits)

lemma child_has_type: "has_type t v \<Longrightarrow> sized t \<Longrightarrow> child t v p = Some (t', w) \<Longrightarrow> has_type t' w \<and> sized t'"
  by (auto simp: child_def zero_has_type list_all_length list_all2_conv_all_nth split: go_type.splits place.splits go_val.splits if_splits)
    (metis go_field.collapse sized_field.simps)

lemma set_child_has_type:
  "has_type t v \<Longrightarrow> child t v p = Some (t', w) \<Longrightarrow> has_type t' x \<Longrightarrow> has_type t (set_child v p x)"
  by (auto simp: child_def set_child_def list_all_length list_all2_conv_all_nth nth_list_update split: go_type.splits place.splits go_val.splits if_splits)

text \<open>Two addresses are apart when neither is inside the other.\<close>

definition apart :: "place list \<Rightarrow> place list \<Rightarrow> bool" where
  "apart a b \<longleftrightarrow> \<not> prefix a b \<and> \<not> prefix b a"

lemma apart_Cons [simp]: "apart (p # a) (q # b) \<longleftrightarrow> p \<noteq> q \<or> apart a b"
  by (auto simp: apart_def)

lemma apart_Nil [simp]: "\<not> apart [] b" "\<not> apart a []"
  by (simp_all add: apart_def)

lemma apart_sym: "apart a b \<Longrightarrow> apart b a"
  by (auto simp: apart_def)

lemma read_write: "read_at t v a \<noteq> None \<Longrightarrow> read_at t (write_at t v a x) a = Some x"
  by (induction t v a rule: read_at.induct) (auto simp: child_set_child split: option.splits)

lemma read_apart: "apart a b \<Longrightarrow> read_at t (write_at t v a x) b = read_at t v b"
proof (induction t v a x arbitrary: b rule: write_at.induct)
  case (2 t v p a x)
  show ?case
  proof (cases "child t v p")
    case (Some tw)
    then obtain t' w where c: "child t v p = Some (t', w)" by (cases tw) simp
    obtain q b' where b: "b = q # b'" using 2(2) by (cases b) auto
    show ?thesis
    proof (cases "p = q")
      case True
      with 2(2) b have "apart a b'" by simp
      with 2(1)[OF c refl] True b c show ?thesis by (simp add: child_set_child)
    next
      case False
      then show ?thesis using b c child_other[OF c, of q] by simp
    qed
  qed simp
qed auto

lemma write_has_type:
  "has_type t v \<Longrightarrow> sized t \<Longrightarrow> type_at t v a = Some t' \<Longrightarrow> has_type t' x \<Longrightarrow> has_type t (write_at t v a x)"
proof (induction t v a x rule: write_at.induct)
  case (2 t v p a x)
  then obtain t1 w where c: "child t v p = Some (t1, w)" by (auto split: option.splits)
  from child_has_type[OF 2(2,3) c] 2 c show ?case by (auto intro: set_child_has_type[OF 2(2) c])
qed simp

lemma type_read: "type_at t v a = None \<longleftrightarrow> read_at t v a = None"
  by (induction t v a rule: read_at.induct) (auto split: option.splits)

text \<open>
  Reading and writing as an interface: what was written is read back, and nothing apart from it changes. The clients
  are sequences of writes.
\<close>

locale addressed =
  fixes get :: "'v \<Rightarrow> 'a \<Rightarrow> 'x option" and put :: "'v \<Rightarrow> 'a \<Rightarrow> 'x \<Rightarrow> 'v" and away :: "'a \<Rightarrow> 'a \<Rightarrow> bool"
  assumes put_get: "get v a \<noteq> None \<Longrightarrow> get (put v a x) a = Some x"
    and put_away: "away a b \<Longrightarrow> get (put v a x) b = get v b"
begin

definition puts :: "'v \<Rightarrow> ('a \<times> 'x) list \<Rightarrow> 'v" where
  "puts v ws = foldl (\<lambda>v (a, x). put v a x) v ws"

lemma puts_away: "\<forall>(a, x) \<in> set ws. away a b \<Longrightarrow> get (puts v ws) b = get v b"
  by (induction ws arbitrary: v) (auto simp: puts_def put_away)

lemma puts_last: "get (puts v ws) a \<noteq> None \<Longrightarrow> \<forall>(b, y) \<in> set ws'. away b a \<Longrightarrow> get (puts v (ws @ (a, x) # ws')) a = Some x"
  using puts_away[of ws' a "put (puts v ws) a x"] put_get[of "puts v ws" a x] by (simp add: puts_def)

end

interpretation go_store: addressed "read_at t" "write_at t" apart
  by unfold_locales (auto simp: read_write[simplified] read_apart)

end
