(* ===== verification/DocTypes.thy ===== *)
theory DocTypes
  imports Reflect
begin

text \<open>
  The types of \<open>internal/config/types.go\<close> as \<open>reflect\<close> shows them, struct by struct with Go names and \<open>yaml\<close>
  tags, and the reading of a value of such a type as the record \<open>Config\<close> has for the same struct.
\<close>

section \<open>Types\<close>

definition tCapacity :: go_type where
  "tCapacity = TStruct False
    [Field ''Knob'' ''knob'' False TString,
     Field ''Runner'' ''runner'' False TString,
     Field ''Start'' ''start'' False TFloat,
     Field ''Max'' ''max'' False TFloat,
     Field ''StepDuration'' ''step_duration'' False (TPtr TDuration),
     Field ''Settle'' ''settle'' False (TPtr TDuration),
     Field ''Cooldown'' ''cooldown'' False (TPtr TDuration),
     Field ''Refine'' ''refine'' False TString,
     Field ''Resolution'' ''resolution'' False TFloat,
     Field ''Confirm'' ''confirm'' False (TPtr TBool)]"

definition tStage :: go_type where
  "tStage = TStruct False
    [Field ''Duration'' ''duration'' False TDuration,
     Field ''Target'' ''target'' False TFloat]"

definition tExecutor :: go_type where
  "tExecutor = TStruct False
    [Field ''Type'' ''type'' False TString,
     Field ''Rate'' ''rate'' False TFloat,
     Field ''VUs'' ''vus'' False (TInt None),
     Field ''Stages'' ''stages'' False (TSlice tStage),
     Field ''MaxInFlight'' ''max_in_flight'' False (TInt None),
     Field ''QueueDepth'' ''queue_depth'' False (TPtr (TInt None)),
     Field ''Pick'' ''pick'' False TString]"

definition tPool :: go_type where
  "tPool = TStruct False
    [Field ''MaxOpen'' ''max_open'' False (TInt None),
     Field ''MaxIdle'' ''max_idle'' False (TInt None),
     Field ''ConnMaxLifetime'' ''conn_max_lifetime'' False (TPtr TDuration),
     Field ''ConnMaxIdleTime'' ''conn_max_idle_time'' False (TPtr TDuration)]"

definition tArg :: go_type where
  "tArg = TStruct True
    [Field ''Value'' '''' False TIface,
     Field ''Secret'' '''' False TBool]"

definition tTxStatement :: go_type where
  "tTxStatement = TStruct False
    [Field ''SQL'' ''sql'' False TString,
     Field ''Args'' ''args'' False (TSlice tArg)]"

definition tQuery :: go_type where
  "tQuery = TStruct False
    [Field ''Name'' ''name'' False TString,
     Field ''Weight'' ''weight'' False (TPtr TFloat),
     Field ''Type'' ''type'' False TString,
     Field ''SQL'' ''sql'' False TString,
     Field ''Args'' ''args'' False (TSlice tArg),
     Field ''Tx'' ''tx'' False (TSlice tTxStatement),
     Field ''Timeout'' ''timeout'' False (TPtr TDuration),
     Field ''Prepare'' ''prepare'' False TBool]"

definition tDB :: go_type where
  "tDB = TStruct False
    [Field ''Driver'' ''driver'' False TString,
     Field ''DSN'' ''dsn'' False TString,
     Field ''Executor'' ''executor'' False tExecutor,
     Field ''Pool'' ''pool'' False (TPtr tPool),
     Field ''TagSessions'' ''tag_sessions'' False (TPtr TBool),
     Field ''CommentQueries'' ''comment_queries'' False TBool,
     Field ''Queries'' ''queries'' False (TSlice tQuery)]"

definition tFeeder :: go_type where
  "tFeeder = TStruct False
    [Field ''Name'' ''name'' False TString,
     Field ''File'' ''file'' False TString,
     Field ''Mode'' ''mode'' False TString]"

definition tJSONExpect :: go_type where
  "tJSONExpect = TStruct False
    [Field ''Path'' ''path'' False TString,
     Field ''Exists'' ''exists'' False (TPtr TBool),
     Field ''Equals'' ''equals'' False TIface]"

definition tExpect :: go_type where
  "tExpect = TStruct False
    [Field ''Status'' ''status'' False (TSlice (TInt None)),
     Field ''JSON'' ''json'' False (TSlice tJSONExpect),
     Field ''MaxBodyBytes'' ''max_body_bytes'' False (TInt (Some 64))]"

definition tExtract :: go_type where
  "tExtract = TStruct False
    [Field ''Name'' ''name'' False TString,
     Field ''From'' ''from'' False TString,
     Field ''Path'' ''path'' False TString]"

definition tThinkTime :: go_type where
  "tThinkTime = TStruct False
    [Field ''Type'' ''type'' False TString,
     Field ''Duration'' ''duration'' False (TPtr TDuration),
     Field ''Min'' ''min'' False (TPtr TDuration),
     Field ''Max'' ''max'' False (TPtr TDuration),
     Field ''Mean'' ''mean'' False (TPtr TDuration)]"

definition tHTTPStep :: go_type where
  "tHTTPStep = TStruct False
    [Field ''Name'' ''name'' False TString,
     Field ''Weight'' ''weight'' False (TPtr TFloat),
     Field ''Method'' ''method'' False TString,
     Field ''URL'' ''url'' False TString,
     Field ''Headers'' ''headers'' False (TMap TString TString),
     Field ''Body'' ''body'' False TString,
     Field ''BodyFile'' ''body_file'' False TString,
     Field ''Timeout'' ''timeout'' False (TPtr TDuration),
     Field ''Expect'' ''expect'' False (TPtr tExpect),
     Field ''Extract'' ''extract'' False (TSlice tExtract),
     Field ''Think'' ''think'' False (TPtr tThinkTime)]"

definition tJourney :: go_type where
  "tJourney = TStruct False
    [Field ''Name'' ''name'' False TString,
     Field ''Weight'' ''weight'' False (TPtr TFloat),
     Field ''Steps'' ''steps'' False (TSlice tHTTPStep)]"

definition tTLS :: go_type where
  "tTLS = TStruct False
    [Field ''InsecureSkipVerify'' ''insecure_skip_verify'' False TBool,
     Field ''ServerName'' ''server_name'' False TString,
     Field ''CAFile'' ''ca_file'' False TString,
     Field ''CertFile'' ''cert_file'' False TString,
     Field ''KeyFile'' ''key_file'' False TString]"

definition tTransport :: go_type where
  "tTransport = TStruct False
    [Field ''MaxIdleConnsPerHost'' ''max_idle_conns_per_host'' False (TInt None),
     Field ''HTTP2'' ''http2'' False (TPtr TBool),
     Field ''KeepAlive'' ''keep_alive'' False (TPtr TBool),
     Field ''TLS'' ''tls'' False (TPtr tTLS)]"

definition tHTTP :: go_type where
  "tHTTP = TStruct False
    [Field ''BaseURL'' ''base_url'' False TString,
     Field ''Headers'' ''headers'' False (TMap TString TString),
     Field ''Traceparent'' ''traceparent'' False TBool,
     Field ''Executor'' ''executor'' False tExecutor,
     Field ''Transport'' ''transport'' False (TPtr tTransport),
     Field ''Feeders'' ''feeders'' False (TSlice tFeeder),
     Field ''Requests'' ''requests'' False (TSlice tHTTPStep),
     Field ''Journeys'' ''journeys'' False (TSlice tJourney)]"

definition tCommand :: go_type where
  "tCommand = TStruct False
    [Field ''Name'' ''name'' False TString,
     Field ''Weight'' ''weight'' False (TPtr TFloat),
     Field ''Type'' ''type'' False TString,
     Field ''Cmd'' ''cmd'' False (TSlice TString),
     Field ''Pipeline'' ''pipeline'' False (TSlice (TSlice TString)),
     Field ''Timeout'' ''timeout'' False (TPtr TDuration)]"

definition tRedisPool :: go_type where
  "tRedisPool = TStruct False
    [Field ''Size'' ''size'' False (TInt None),
     Field ''MinIdle'' ''min_idle'' False (TInt None)]"

definition tRedis :: go_type where
  "tRedis = TStruct False
    [Field ''Mode'' ''mode'' False TString,
     Field ''Addr'' ''addr'' False TString,
     Field ''Addrs'' ''addrs'' False (TSlice TString),
     Field ''MasterName'' ''master_name'' False TString,
     Field ''Username'' ''username'' False TString,
     Field ''Password'' ''password'' False TString,
     Field ''DB'' ''db'' False (TInt None),
     Field ''TLS'' ''tls'' False (TPtr tTLS),
     Field ''Executor'' ''executor'' False tExecutor,
     Field ''Pool'' ''pool'' False (TPtr tRedisPool),
     Field ''Commands'' ''commands'' False (TSlice tCommand)]"

definition tRun :: go_type where
  "tRun = TStruct False
    [Field ''Name'' ''name'' False TString,
     Field ''Duration'' ''duration'' False TDuration,
     Field ''Bucket'' ''bucket'' False TDuration,
     Field ''Warmup'' ''warmup'' False TDuration,
     Field ''Grace'' ''grace'' False TDuration,
     Field ''Timeout'' ''timeout'' False TDuration,
     Field ''Seed'' ''seed'' False (TPtr (TUint (Some 64))),
     Field ''Arrival'' ''arrival'' False TString,
     Field ''MinSamples'' ''min_samples'' False (TInt None),
     Field ''Tags'' ''tags'' False (TMap TString TString)]"

definition tSLOTarget :: go_type where
  "tSLOTarget = TStruct False
    [Field ''P95'' ''p95'' False (TPtr TDuration),
     Field ''P99'' ''p99'' False (TPtr TDuration),
     Field ''ErrorRate'' ''error_rate'' False (TPtr TFloat)]"

definition tSLO :: go_type where
  "tSLO = TStruct False
    [Field ''HTTP'' ''http'' False tSLOTarget,
     Field ''DB'' ''db'' False tSLOTarget,
     Field ''Redis'' ''redis'' False tSLOTarget]"

definition tAbortGuard :: go_type where
  "tAbortGuard = TStruct False
    [Field ''Enabled'' ''enabled'' False (TPtr TBool),
     Field ''ErrorRatio'' ''error_ratio'' False (TPtr TFloat),
     Field ''Window'' ''window'' False (TPtr TDuration)]"

definition tSafety :: go_type where
  "tSafety = TStruct False
    [Field ''AllowWrites'' ''allow_writes'' False TBool,
     Field ''AllowDangerous'' ''allow_dangerous'' False TBool,
     Field ''AllowTargets'' ''allow_targets'' False (TSlice TString),
     Field ''AllowInsecureTLS'' ''allow_insecure_tls'' False TBool,
     Field ''MaxRatePerRunner'' ''max_rate_per_runner'' False (TPtr TFloat),
     Field ''MaxInFlight'' ''max_in_flight'' False (TPtr (TInt None)),
     Field ''MaxDuration'' ''max_duration'' False (TPtr TDuration),
     Field ''AbortGuard'' ''abort_guard'' False (TPtr tAbortGuard)]"

definition tSampler :: go_type where
  "tSampler = TStruct True
    [Field ''Enabled'' ''enabled'' False TBool,
     Field ''Interval'' ''interval'' False (TPtr TDuration),
     Field ''DSN'' ''dsn'' False TString,
     Field ''Statements'' ''statements'' False TBool,
     Field ''Latency'' ''latency'' False TBool]"

definition tTelemetry :: go_type where
  "tTelemetry = TStruct False
    [Field ''Interval'' ''interval'' False (TPtr TDuration),
     Field ''Postgres'' ''postgres'' False (TPtr tSampler),
     Field ''MySQL'' ''mysql'' False (TPtr tSampler),
     Field ''Redis'' ''redis'' False (TPtr tSampler)]"

definition tConfig :: go_type where
  "tConfig = TStruct False
    [Field ''Version'' ''version'' False (TInt None),
     Field ''Run'' ''run'' False tRun,
     Field ''SLO'' ''slo'' False tSLO,
     Field ''Safety'' ''safety'' False tSafety,
     Field ''HTTP'' ''http'' False (TPtr tHTTP),
     Field ''DB'' ''db'' False (TPtr tDB),
     Field ''Redis'' ''redis'' False (TPtr tRedis),
     Field ''Telemetry'' ''telemetry'' False (TPtr tTelemetry),
     Field ''Capacity'' ''capacity'' False (TPtr tCapacity)]"

lemmas doc_types = tCapacity_def
  tStage_def
  tExecutor_def
  tPool_def
  tArg_def
  tTxStatement_def
  tQuery_def
  tDB_def
  tFeeder_def
  tJSONExpect_def
  tExpect_def
  tExtract_def
  tThinkTime_def
  tHTTPStep_def
  tJourney_def
  tTLS_def
  tTransport_def
  tHTTP_def
  tCommand_def
  tRedisPool_def
  tRedis_def
  tRun_def
  tSLOTarget_def
  tSLO_def
  tAbortGuard_def
  tSafety_def
  tSampler_def
  tTelemetry_def
  tConfig_def

section \<open>Values as records\<close>

fun as_str :: "go_val \<Rightarrow> string" where "as_str (VString s) = s" | "as_str v = []"
fun as_bool :: "go_val \<Rightarrow> bool" where "as_bool (VBool b) = b" | "as_bool v = False"
fun as_int :: "go_val \<Rightarrow> int" where "as_int (VInt n) = n" | "as_int v = 0"
fun as_float :: "go_val \<Rightarrow> float64" where "as_float (VFloat x) = x" | "as_float v = Fin 0"
fun as_any :: "go_val \<Rightarrow> yaml" where "as_any (VIface (Some y)) = y" | "as_any v = YNull"
fun as_opt :: "(go_val \<Rightarrow> 'a) \<Rightarrow> go_val \<Rightarrow> 'a option" where "as_opt f (VPtr v) = Some (f v)" | "as_opt f v = None"
fun as_list :: "(go_val \<Rightarrow> 'a) \<Rightarrow> go_val \<Rightarrow> 'a list" where "as_list f (VSlice vs) = map f vs" | "as_list f v = []"
fun as_dict :: "go_val \<Rightarrow> string \<rightharpoonup> string" where
  "as_dict (VMap kvs) = map_of (map (\<lambda>(k, v). (k, as_str v)) kvs)"
| "as_dict v = Map.empty"
fun nth_part :: "nat \<Rightarrow> go_val \<Rightarrow> go_val" where
  "nth_part i (VStruct vs) = (if i < length vs then vs ! i else VNil)"
| "nth_part i v = VNil"

definition asCapacity :: "go_val \<Rightarrow> capacity" where
  "asCapacity v = capacity.make
    (as_str (nth_part 0 v))
    (as_str (nth_part 1 v))
    (as_float (nth_part 2 v))
    (as_float (nth_part 3 v))
    (as_opt as_int (nth_part 4 v))
    (as_opt as_int (nth_part 5 v))
    (as_opt as_int (nth_part 6 v))
    (as_str (nth_part 7 v))
    (as_float (nth_part 8 v))
    (as_opt as_bool (nth_part 9 v))"

definition asStage :: "go_val \<Rightarrow> stage" where
  "asStage v = stage.make
    (as_int (nth_part 0 v))
    (as_float (nth_part 1 v))"

definition asExecutor :: "go_val \<Rightarrow> executor_section" where
  "asExecutor v = executor_section.make
    (as_str (nth_part 0 v))
    (as_float (nth_part 1 v))
    (as_int (nth_part 2 v))
    (as_list asStage (nth_part 3 v))
    (as_int (nth_part 4 v))
    (as_opt as_int (nth_part 5 v))
    (as_str (nth_part 6 v))"

definition asPool :: "go_val \<Rightarrow> pool" where
  "asPool v = pool.make
    (as_int (nth_part 0 v))
    (as_int (nth_part 1 v))
    (as_opt as_int (nth_part 2 v))
    (as_opt as_int (nth_part 3 v))"

definition asArg :: "go_val \<Rightarrow> arg" where
  "asArg v = arg.make
    (as_any (nth_part 0 v))
    (as_bool (nth_part 1 v))"

definition asTxStatement :: "go_val \<Rightarrow> tx_statement" where
  "asTxStatement v = tx_statement.make
    (as_str (nth_part 0 v))
    (as_list asArg (nth_part 1 v))"

definition asQuery :: "go_val \<Rightarrow> query" where
  "asQuery v = query.make
    (as_str (nth_part 0 v))
    (as_opt as_float (nth_part 1 v))
    (as_str (nth_part 2 v))
    (as_str (nth_part 3 v))
    (as_list asArg (nth_part 4 v))
    (as_list asTxStatement (nth_part 5 v))
    (as_opt as_int (nth_part 6 v))
    (as_bool (nth_part 7 v))"

definition asDB :: "go_val \<Rightarrow> db_section" where
  "asDB v = db_section.make
    (as_str (nth_part 0 v))
    (as_str (nth_part 1 v))
    (asExecutor (nth_part 2 v))
    (as_opt asPool (nth_part 3 v))
    (as_opt as_bool (nth_part 4 v))
    (as_bool (nth_part 5 v))
    (as_list asQuery (nth_part 6 v))"

definition asFeeder :: "go_val \<Rightarrow> feeder" where
  "asFeeder v = feeder.make
    (as_str (nth_part 0 v))
    (as_str (nth_part 1 v))
    (as_str (nth_part 2 v))"

definition asJSONExpect :: "go_val \<Rightarrow> json_expect" where
  "asJSONExpect v = json_expect.make
    (as_str (nth_part 0 v))
    (as_opt as_bool (nth_part 1 v))
    (as_any (nth_part 2 v))"

definition asExpect :: "go_val \<Rightarrow> expect" where
  "asExpect v = expect.make
    (as_list as_int (nth_part 0 v))
    (as_list asJSONExpect (nth_part 1 v))
    (as_int (nth_part 2 v))"

definition asExtract :: "go_val \<Rightarrow> extraction" where
  "asExtract v = extraction.make
    (as_str (nth_part 0 v))
    (as_str (nth_part 1 v))
    (as_str (nth_part 2 v))"

definition asThinkTime :: "go_val \<Rightarrow> think_time" where
  "asThinkTime v = think_time.make
    (as_str (nth_part 0 v))
    (as_opt as_int (nth_part 1 v))
    (as_opt as_int (nth_part 2 v))
    (as_opt as_int (nth_part 3 v))
    (as_opt as_int (nth_part 4 v))"

definition asHTTPStep :: "go_val \<Rightarrow> http_step" where
  "asHTTPStep v = http_step.make
    (as_str (nth_part 0 v))
    (as_opt as_float (nth_part 1 v))
    (as_str (nth_part 2 v))
    (as_str (nth_part 3 v))
    (as_dict (nth_part 4 v))
    (as_str (nth_part 5 v))
    (as_str (nth_part 6 v))
    (as_opt as_int (nth_part 7 v))
    (as_opt asExpect (nth_part 8 v))
    (as_list asExtract (nth_part 9 v))
    (as_opt asThinkTime (nth_part 10 v))"

definition asJourney :: "go_val \<Rightarrow> journey" where
  "asJourney v = journey.make
    (as_str (nth_part 0 v))
    (as_opt as_float (nth_part 1 v))
    (as_list asHTTPStep (nth_part 2 v))"

definition asTLS :: "go_val \<Rightarrow> tls" where
  "asTLS v = tls.make
    (as_bool (nth_part 0 v))
    (as_str (nth_part 1 v))
    (as_str (nth_part 2 v))
    (as_str (nth_part 3 v))
    (as_str (nth_part 4 v))"

definition asTransport :: "go_val \<Rightarrow> transport" where
  "asTransport v = transport.make
    (as_int (nth_part 0 v))
    (as_opt as_bool (nth_part 1 v))
    (as_opt as_bool (nth_part 2 v))
    (as_opt asTLS (nth_part 3 v))"

definition asHTTP :: "go_val \<Rightarrow> http_section" where
  "asHTTP v = http_section.make
    (as_str (nth_part 0 v))
    (as_dict (nth_part 1 v))
    (as_bool (nth_part 2 v))
    (asExecutor (nth_part 3 v))
    (as_opt asTransport (nth_part 4 v))
    (as_list asFeeder (nth_part 5 v))
    (as_list asHTTPStep (nth_part 6 v))
    (as_list asJourney (nth_part 7 v))"

definition asCommand :: "go_val \<Rightarrow> redis_command" where
  "asCommand v = redis_command.make
    (as_str (nth_part 0 v))
    (as_opt as_float (nth_part 1 v))
    (as_str (nth_part 2 v))
    (as_list as_str (nth_part 3 v))
    (as_list (as_list as_str) (nth_part 4 v))
    (as_opt as_int (nth_part 5 v))"

definition asRedisPool :: "go_val \<Rightarrow> redis_pool" where
  "asRedisPool v = redis_pool.make
    (as_int (nth_part 0 v))
    (as_int (nth_part 1 v))"

definition asRedis :: "go_val \<Rightarrow> redis_section" where
  "asRedis v = redis_section.make
    (as_str (nth_part 0 v))
    (as_str (nth_part 1 v))
    (as_list as_str (nth_part 2 v))
    (as_str (nth_part 3 v))
    (as_str (nth_part 4 v))
    (as_str (nth_part 5 v))
    (as_int (nth_part 6 v))
    (as_opt asTLS (nth_part 7 v))
    (asExecutor (nth_part 8 v))
    (as_opt asRedisPool (nth_part 9 v))
    (as_list asCommand (nth_part 10 v))"

definition asRun :: "go_val \<Rightarrow> run_section" where
  "asRun v = run_section.make
    (as_str (nth_part 0 v))
    (as_int (nth_part 1 v))
    (as_int (nth_part 2 v))
    (as_int (nth_part 3 v))
    (as_int (nth_part 4 v))
    (as_int (nth_part 5 v))
    (as_opt as_int (nth_part 6 v))
    (as_str (nth_part 7 v))
    (as_int (nth_part 8 v))
    (as_dict (nth_part 9 v))"

definition asSLOTarget :: "go_val \<Rightarrow> slo_target" where
  "asSLOTarget v = slo_target.make
    (as_opt as_int (nth_part 0 v))
    (as_opt as_int (nth_part 1 v))
    (as_opt as_float (nth_part 2 v))"

definition asSLO :: "go_val \<Rightarrow> slo" where
  "asSLO v = slo.make
    (asSLOTarget (nth_part 0 v))
    (asSLOTarget (nth_part 1 v))
    (asSLOTarget (nth_part 2 v))"

definition asAbortGuard :: "go_val \<Rightarrow> abort_guard" where
  "asAbortGuard v = abort_guard.make
    (as_opt as_bool (nth_part 0 v))
    (as_opt as_float (nth_part 1 v))
    (as_opt as_int (nth_part 2 v))"

definition asSafety :: "go_val \<Rightarrow> safety" where
  "asSafety v = safety.make
    (as_bool (nth_part 0 v))
    (as_bool (nth_part 1 v))
    (as_list as_str (nth_part 2 v))
    (as_bool (nth_part 3 v))
    (as_opt as_float (nth_part 4 v))
    (as_opt as_int (nth_part 5 v))
    (as_opt as_int (nth_part 6 v))
    (as_opt asAbortGuard (nth_part 7 v))"

definition asSampler :: "go_val \<Rightarrow> sampler" where
  "asSampler v = sampler.make
    (as_bool (nth_part 0 v))
    (as_opt as_int (nth_part 1 v))
    (as_str (nth_part 2 v))
    (as_bool (nth_part 3 v))
    (as_bool (nth_part 4 v))"

definition asTelemetry :: "go_val \<Rightarrow> telemetry" where
  "asTelemetry v = telemetry.make
    (as_opt as_int (nth_part 0 v))
    (as_opt asSampler (nth_part 1 v))
    (as_opt asSampler (nth_part 2 v))
    (as_opt asSampler (nth_part 3 v))"

definition asConfig :: "go_val \<Rightarrow> configuration" where
  "asConfig v = configuration.make
    (as_int (nth_part 0 v))
    (asRun (nth_part 1 v))
    (asSLO (nth_part 2 v))
    (asSafety (nth_part 3 v))
    (as_opt asHTTP (nth_part 4 v))
    (as_opt asDB (nth_part 5 v))
    (as_opt asRedis (nth_part 6 v))
    (as_opt asTelemetry (nth_part 7 v))
    (as_opt asCapacity (nth_part 8 v))"

lemmas doc_views = asCapacity_def
  asStage_def
  asExecutor_def
  asPool_def
  asArg_def
  asTxStatement_def
  asQuery_def
  asDB_def
  asFeeder_def
  asJSONExpect_def
  asExpect_def
  asExtract_def
  asThinkTime_def
  asHTTPStep_def
  asJourney_def
  asTLS_def
  asTransport_def
  asHTTP_def
  asCommand_def
  asRedisPool_def
  asRedis_def
  asRun_def
  asSLOTarget_def
  asSLO_def
  asAbortGuard_def
  asSafety_def
  asSampler_def
  asTelemetry_def
  asConfig_def

section \<open>The document type is well formed\<close>

lemma tConfig_plain: "plain_type tConfig"
  by (simp add: doc_types)

lemma tConfig_sized: "sized tConfig"
  by (simp add: doc_types bits_def)

end
