(* ===== verification/KnownFields.thy ===== *)
theory KnownFields
  imports DocTypes
begin

text \<open>
  \<open>internal/config/knownfields.go\<close>: the walk over a parsed document that reports every key the
  configuration does not have, and the search for the field that was meant. The specification of
  \<open>editDistance\<close> is the least number of single-character edits.
\<close>

section \<open>Edit distance\<close>

text \<open>One row of the table from the row above: \<open>left\<close> is the cell before the first of \<open>bs\<close>.\<close>

fun row_cells :: "char \<Rightarrow> string \<Rightarrow> nat list \<Rightarrow> nat \<Rightarrow> nat list" where
  "row_cells a (b # bs) (d # u # us) left =
     (let c = min (min (u + 1) (left + 1)) (d + (if a = b then 0 else 1))
      in c # row_cells a bs (u # us) c)"
| "row_cells a _ _ left = []"

fun edit_rows :: "nat \<Rightarrow> string \<Rightarrow> string \<Rightarrow> nat list \<Rightarrow> nat list" where
  "edit_rows i [] br prev = prev"
| "edit_rows i (a # ar) br prev = edit_rows (Suc i) ar br (i # row_cells a br prev i)"

definition editDistance :: "string \<Rightarrow> string \<Rightarrow> nat" where
  "editDistance a b = (if a = b then 0 else edit_rows 1 a b [0..<Suc (length b)] ! length b)"

text \<open>The recursion the table tabulates, over the ends of the two texts.\<close>

fun lev :: "string \<Rightarrow> string \<Rightarrow> nat" where
  "lev [] ys = length ys"
| "lev xs [] = length xs"
| "lev (x # xs) (y # ys) =
     min (min (lev xs (y # ys) + 1) (lev (x # xs) ys + 1)) (lev xs ys + (if x = y then 0 else 1))"

definition row :: "string \<Rightarrow> string \<Rightarrow> nat list" where
  "row a b = map (\<lambda>j. lev (rev a) (rev (take j b))) [0..<Suc (length b)]"

lemma lev_Nil [simp]: "lev xs [] = length xs"
  by (cases xs) simp_all

lemma row_Nil: "row [] b = [0..<Suc (length b)]"
  by (rule nth_equalityI) (auto simp: row_def simp del: upt_Suc)

lemma lev_snoc:
  "lev (rev (xs @ [x])) (rev (ys @ [y])) =
     min (min (lev (rev xs) (rev (ys @ [y])) + 1) (lev (rev (xs @ [x])) (rev ys) + 1))
         (lev (rev xs) (rev ys) + (if x = y then 0 else 1))"
  by simp

lemma row_cells_row:
  "row_cells x bs (map (\<lambda>j. lev (rev a) (rev (done @ take j bs))) [0..<Suc (length bs)]) (lev (rev (a @ [x])) (rev done)) =
   map (\<lambda>j. lev (rev (a @ [x])) (rev (done @ take j bs))) [1..<Suc (length bs)]"
proof (induction bs arbitrary: "done")
  case (Cons b bs)
  let ?f = "\<lambda>xs j. lev (rev xs) (rev (done @ take j (b # bs)))"
  have shift: "map (?f xs) [1..<Suc (Suc (length bs))] = map (\<lambda>j. lev (rev xs) (rev ((done @ [b]) @ take j bs))) [0..<Suc (length bs)]" for xs
    by (rule nth_equalityI) (auto simp del: upt_Suc)
  have up: "map (?f a) [0..<Suc (length (b # bs))] = ?f a 0 # ?f a 1 # map (?f a) [2..<Suc (Suc (length bs))]"
    by (simp add: upt_conv_Cons numeral_2_eq_2 del: upt_Suc)
  have up1: "map (?f xs) [1..<Suc (Suc (length bs))] = ?f xs 1 # map (?f xs) [2..<Suc (Suc (length bs))]" for xs
    by (simp add: upt_conv_Cons numeral_2_eq_2 del: upt_Suc)
  have tail: "map (?f (a @ [x])) [2..<Suc (Suc (length bs))] =
      map (\<lambda>j. lev (rev (a @ [x])) (rev ((done @ [b]) @ take j bs))) [1..<Suc (length bs)]"
    by (rule nth_equalityI) (auto simp del: upt_Suc)
  have cell: "min (min (?f a 1 + 1) (lev (rev (a @ [x])) (rev done) + 1)) (?f a 0 + (if x = b then 0 else 1)) = ?f (a @ [x]) 1"
    using lev_snoc[of a x "done" b] by simp
  have rest: "row_cells x bs (?f a 1 # map (?f a) [2..<Suc (Suc (length bs))]) (?f (a @ [x]) 1) =
      map (?f (a @ [x])) [2..<Suc (Suc (length bs))]"
    using Cons.IH[of "done @ [b]"] unfolding up1[symmetric] shift tail by simp
  show ?case unfolding up by (simp only: row_cells.simps Let_def cell rest up1 length_Cons)
qed simp

lemma edit_rows_row: "edit_rows (Suc (length a)) c b (row a b) = row (a @ c) b"
proof (induction c arbitrary: a)
  case (Cons x c)
  have "Suc (length a) # row_cells x b (row a b) (Suc (length a)) = row (a @ [x]) b"
    using row_cells_row[of x b a "[]"] by (simp add: row_def upt_conv_Cons del: upt_Suc)
  with Cons[of "a @ [x]"] show ?case by simp
qed simp

lemma editDistance_lev: "editDistance a b = (if a = b then 0 else lev (rev a) (rev b))"
proof -
  have "edit_rows 1 a b [0..<Suc (length b)] = row a b" using edit_rows_row[of "[]" a b] by (simp add: row_Nil del: upt_Suc)
  then show ?thesis by (simp add: editDistance_def row_def del: upt_Suc)
qed

section \<open>The least number of edits\<close>

text \<open>One edit inserts, removes or replaces one character.\<close>

inductive edit1 :: "string \<Rightarrow> string \<Rightarrow> bool" where
  insert_char: "edit1 w (c # w)"
| remove_char: "edit1 (c # w) w"
| replace_char: "edit1 (c # w) (d # w)"
| later_char: "edit1 u w \<Longrightarrow> edit1 (c # u) (c # w)"

inductive_cases edit1_NilE: "edit1 xs []"
inductive_cases edit1_ConsE: "edit1 xs (y # ys)"

text \<open>Edits in order of position, the form the recursion finds.\<close>

inductive align :: "nat \<Rightarrow> string \<Rightarrow> string \<Rightarrow> bool" where
  align_Nil: "align 0 [] []"
| align_keep: "align n xs ys \<Longrightarrow> align n (x # xs) (x # ys)"
| align_replace: "align n xs ys \<Longrightarrow> align (Suc n) (x # xs) (y # ys)"
| align_remove: "align n xs ys \<Longrightarrow> align (Suc n) (x # xs) ys"
| align_insert: "align n xs ys \<Longrightarrow> align (Suc n) xs (y # ys)"

lemmas align_steps = align_keep align_replace align_remove align_insert

lemma lev_remove: "lev (x # xs) ys \<le> Suc (lev xs ys)"
  by (cases ys) auto

lemma lev_insert: "lev xs (y # ys) \<le> Suc (lev xs ys)"
  by (cases xs) auto

lemma lev_le: "align n xs ys \<Longrightarrow> lev xs ys \<le> n"
proof (induction rule: align.induct)
  case (align_remove n xs ys x)
  then show ?case using lev_remove[of x xs ys] by linarith
next
  case (align_insert n xs ys y)
  then show ?case using lev_insert[of xs y ys] by linarith
qed auto

lemma align_all_inserted: "align (length ys) [] ys"
  by (induction ys) (auto intro: align.intros)

lemma align_all_removed: "align (length xs) xs []"
  by (induction xs) (auto intro: align.intros)

lemma align_lev: "align (lev xs ys) xs ys"
proof (induction xs ys rule: lev.induct)
  case (3 x xs y ys)
  then show ?case by (auto simp: min_def intro: align_steps)
next
  case (2 x xs)
  show ?case using align_all_removed[of "x # xs"] by simp
qed (simp add: align_all_inserted)

lemma align_refl: "align 0 xs xs"
  by (induction xs) (auto intro: align.intros)

lemma align_append: "align n xs ys \<Longrightarrow> align m us vs \<Longrightarrow> align (n + m) (xs @ us) (ys @ vs)"
  by (induction rule: align.induct) (auto intro: align_steps)

lemma align_rev: "align n xs ys \<Longrightarrow> align n (rev xs) (rev ys)"
proof (induction rule: align.induct)
  case (align_keep n xs ys x)
  then show ?case using align_append[of n "rev xs" "rev ys" 0 "[x]" "[x]"] by (auto intro: align.intros)
next
  case (align_replace n xs ys x y)
  then show ?case using align_append[of n "rev xs" "rev ys" 1 "[x]" "[y]"] by (auto intro: align.intros)
next
  case (align_remove n xs ys x)
  then show ?case using align_append[of n "rev xs" "rev ys" 1 "[x]" "[]"] by (auto intro: align.intros)
next
  case (align_insert n xs ys y)
  then show ?case using align_append[of n "rev xs" "rev ys" 1 "[]" "[y]"] by (auto intro: align.intros)
qed (simp add: align_Nil)

lemma lev_rev: "lev (rev xs) (rev ys) = lev xs ys"
  using lev_le[OF align_rev[OF align_lev[of xs ys]]] lev_le[OF align_rev[OF align_lev[of "rev xs" "rev ys"]]] by simp

lemma align_edit1: "align n xs' ys \<Longrightarrow> edit1 xs xs' \<Longrightarrow> \<exists>k \<le> Suc n. align k xs ys"
proof (induction arbitrary: xs rule: align.induct)
  case align_Nil
  then obtain c where "xs = [c]" by (auto elim: edit1_NilE)
  then show ?case using align_all_removed[of xs] by auto
next
  case (align_keep n a b x)
  from align_keep.prems show ?case
    by (cases rule: edit1_ConsE) (use align_keep in \<open>blast intro: align_steps\<close>)+
next
  case (align_replace n a b x y)
  from align_replace.prems show ?case
    by (cases rule: edit1_ConsE)
      (use align_replace.hyps align_replace.IH in \<open>blast intro: align_steps le_SucI Suc_le_mono[THEN iffD2]\<close>)+
next
  case (align_remove n a b x)
  from align_remove.prems show ?case
    by (cases rule: edit1_ConsE)
      (use align_remove.hyps align_remove.IH in \<open>blast intro: align_steps le_SucI Suc_le_mono[THEN iffD2]\<close>)+
next
  case (align_insert n a b y)
  then show ?case by (blast intro: align_steps Suc_le_mono[THEN iffD2])
qed

lemma align_edits: "(edit1 ^^ n) xs ys \<Longrightarrow> \<exists>k \<le> n. align k xs ys"
proof (induction n arbitrary: xs)
  case 0
  then show ?case using align_refl by auto
next
  case (Suc n)
  then obtain xs' where "edit1 xs xs'" "(edit1 ^^ n) xs' ys" by (meson relpowp_Suc_E2)
  with Suc.IH[of xs'] obtain k where "k \<le> n" "align k xs' ys" by blast
  from align_edit1[OF this(2) \<open>edit1 xs xs'\<close>] \<open>k \<le> n\<close> show ?case by (meson Suc_le_mono le_trans)
qed

lemma edits_Cons: "(edit1 ^^ n) xs ys \<Longrightarrow> (edit1 ^^ n) (c # xs) (c # ys)"
  by (induction n arbitrary: ys) (auto intro: later_char)

lemma edits_align: "align n xs ys \<Longrightarrow> (edit1 ^^ n) xs ys"
proof (induction rule: align.induct)
  case (align_replace n xs ys x y)
  show ?case by (rule relpowp_Suc_I2[OF replace_char edits_Cons[OF align_replace.IH]])
next
  case (align_remove n xs ys x)
  show ?case by (rule relpowp_Suc_I2[OF remove_char align_remove.IH])
next
  case (align_insert n xs ys y)
  show ?case by (rule relpowp_Suc_I2[OF insert_char edits_Cons[OF align_insert.IH]])
qed (auto intro: edits_Cons)

text \<open>C27. \<open>editDistance\<close>, computed over two rows, is the least number of single-character insertions, removals and
  replacements that turn one text into the other.\<close>

theorem editDistance_least: "editDistance a b = (LEAST n. (edit1 ^^ n) a b)"
proof -
  have "(LEAST n. (edit1 ^^ n) a b) = lev a b"
  proof (rule Least_equality)
    show "(edit1 ^^ lev a b) a b" by (rule edits_align[OF align_lev])
    show "lev a b \<le> n" if "(edit1 ^^ n) a b" for n using align_edits[OF that] lev_le by (meson le_trans)
  qed
  moreover have "lev a a = 0" using lev_le[OF align_refl[of a]] by simp
  ultimately show ?thesis by (auto simp: editDistance_lev lev_rev)
qed

section \<open>Suggestions\<close>

text \<open>
  The candidates come out of a Go map in any order. \<open>suggest\<close> keeps the first one that is strictly closer than
  the best so far, starting above the limit.
\<close>

definition suggest_limit :: "string \<Rightarrow> nat" where
  "suggest_limit name = length name div 3 + 1"

definition name_distance :: "string \<Rightarrow> string \<Rightarrow> nat" where
  "name_distance name candidate = editDistance (to_lower name) (to_lower candidate)"

fun closest :: "string \<Rightarrow> string \<times> nat \<Rightarrow> string list \<Rightarrow> string \<times> nat" where
  "closest name bd [] = bd"
| "closest name bd (c # cs) =
     closest name (if name_distance name c < snd bd then (c, name_distance name c) else bd) cs"

definition suggest :: "string \<Rightarrow> string list \<Rightarrow> string option" where
  "suggest name known =
     (case closest name ([], suggest_limit name + 1) known of
        (best, d) \<Rightarrow> if d \<le> suggest_limit name then Some best else None)"

lemma closest_min:
  "snd (closest name bd cs) \<le> snd bd \<and> (\<forall>c \<in> set cs. snd (closest name bd cs) \<le> name_distance name c) \<and>
   (closest name bd cs = bd \<or> fst (closest name bd cs) \<in> set cs \<and> snd (closest name bd cs) = name_distance name (fst (closest name bd cs)))"
proof (induction cs arbitrary: bd)
  case (Cons c cs)
  show ?case using Cons[of "if name_distance name c < snd bd then (c, name_distance name c) else bd"]
    by (auto split: if_splits)
qed simp

text \<open>For every order in which the map of known fields is enumerated: a suggestion is a known field, none is closer,
  and it is within a third of what was typed; without one, every known field is further off than that.\<close>

theorem suggest_closest:
  "case suggest name known of
     None \<Rightarrow> (\<forall>c \<in> set known. suggest_limit name < name_distance name c)
   | Some s \<Rightarrow> s \<in> set known \<and> name_distance name s \<le> suggest_limit name \<and>
       (\<forall>c \<in> set known. name_distance name s \<le> name_distance name c)"
  using closest_min[of name "([], suggest_limit name + 1)" known]
  by (auto simp: suggest_def split: prod.splits if_splits)

section \<open>The document\<close>

text \<open>
  A node of \<open>go.yaml.in/yaml/v3\<close>. The content of a mapping alternates keys and values. \<open>ZeroNode\<close> is what
  an empty document leaves.
\<close>

datatype node_kind = ZeroNode | DocumentNode | SequenceNode | MappingNode | ScalarNode | AliasNode

datatype node = Node (yn_kind: node_kind) (yn_value: string) (yn_line: int) (yn_column: int) (yn_content: "node list")

fun pairs :: "'a list \<Rightarrow> ('a \<times> 'a) list" where
  "pairs (k # v # rest) = (k, v) # pairs rest"
| "pairs _ = []"

lemma pairs_set: "(k, v) \<in> set (pairs xs) \<Longrightarrow> k \<in> set xs \<and> v \<in> set xs"
  by (induction xs rule: pairs.induct) auto

lemma size_in_list: "m \<in> set ns \<Longrightarrow> size (m :: node) \<le> size_list size ns"
  by (induction ns) auto

lemma content_smaller: "m \<in> set (yn_content n) \<Longrightarrow> size m < size n"
proof (cases n)
  case (Node k v l c ns)
  have "size_list size ns < size (Node k v l c ns)" by simp
  moreover assume "m \<in> set (yn_content n)"
  ultimately show ?thesis using size_in_list[of m ns] Node by (metis le_less_trans node.sel(5))
qed

lemma pair_smaller:
  assumes "(k, v) \<in> set (pairs (yn_content n))" shows "size v < size n"
  using content_smaller[OF conjunct2[OF pairs_set[OF assms]]] .

datatype hint = DidYouMean string | ValidFields "string list" | NoHint

text \<open>\<open>unknownField\<close>; \<open>enum\<close> is the order in which the map of known fields is enumerated.\<close>

type_synonym enumeration = "string list \<Rightarrow> string list"

definition known_names :: "go_type \<Rightarrow> string list" where
  "known_names t = remdups (map fst (yaml_fields t))"

definition unknownField :: "enumeration \<Rightarrow> string \<Rightarrow> string \<Rightarrow> node \<Rightarrow> go_type \<Rightarrow> coded_error \<times> hint" where
  "unknownField enum name path key t =
     (with_pos (yn_line key) (yn_column key) (error_at CodeConfigUnknownField (path @ ''/'' @ name)),
      case suggest name (enum (known_names t)) of
        Some s \<Rightarrow> DidYouMean s
      | None \<Rightarrow> (if known_names t \<noteq> [] then ValidFields (sort (known_names t)) else NoHint))"

fun strip_ptr :: "go_type \<Rightarrow> go_type" where
  "strip_ptr (TPtr t) = strip_ptr t"
| "strip_ptr t = t"

function walk :: "enumeration \<Rightarrow> node \<Rightarrow> go_type \<Rightarrow> string \<Rightarrow> (coded_error \<times> hint) list" where
  "walk enum n t path =
     (if yn_kind n = AliasNode then []
      else case strip_ptr t of
        TStruct u fs \<Rightarrow>
          (if yn_kind n \<noteq> MappingNode \<or> implementsUnmarshaler (TStruct u fs) then []
           else concat (map (\<lambda>(key, v). case yamlFields (TStruct u fs) (yn_value key) of
               None \<Rightarrow> [unknownField enum (yn_value key) path key (TStruct u fs)]
             | Some (_, f) \<Rightarrow> walk enum v (gf_type f) (path @ ''/'' @ yn_value key)) (pairs (yn_content n))))
      | TSlice t' \<Rightarrow>
          (if yn_kind n \<noteq> SequenceNode then []
           else concat (map (\<lambda>(i, v). walk enum v t' (path @ ''/'' @ itoa (int i))) (enumerate 0 (yn_content n))))
      | TMap k t' \<Rightarrow>
          (if yn_kind n \<noteq> MappingNode then []
           else concat (map (\<lambda>(key, v). walk enum v t' (path @ ''/'' @ yn_value key)) (pairs (yn_content n))))
      | _ \<Rightarrow> [])"
  by pat_completeness auto
termination
proof (relation "measure (\<lambda>(enum, n, t, path). size n)", goal_cases)
  case (2 enum n t path t' p i v)
  then have "v \<in> set (yn_content n)" by (auto simp: in_set_enumerate_eq intro: nth_mem)
  then show ?case by (simp add: content_smaller)
qed (auto dest: pair_smaller)

declare walk.simps [simp del]

definition checkKnownFields :: "enumeration \<Rightarrow> node \<Rightarrow> go_type \<Rightarrow> (coded_error \<times> hint) list" where
  "checkKnownFields enum doc t =
     walk enum (if yn_kind doc = DocumentNode \<and> yn_content doc \<noteq> [] then hd (yn_content doc) else doc) t []"

section \<open>Every misplaced key, and nothing else\<close>

text \<open>
  \<open>unknown_key t n path key p\<close>: reading \<open>n\<close> as a \<open>t\<close>, the node \<open>key\<close> stands at \<open>p\<close> where a struct has no field of
  that name.
\<close>

inductive unknown_key :: "go_type \<Rightarrow> node \<Rightarrow> string \<Rightarrow> node \<Rightarrow> string \<Rightarrow> bool" where
  unknown_here: "strip_ptr t = TStruct False fs \<Longrightarrow> yn_kind n = MappingNode \<Longrightarrow> (key, v) \<in> set (pairs (yn_content n)) \<Longrightarrow>
    yamlFields (TStruct False fs) (yn_value key) = None \<Longrightarrow> unknown_key t n path key (path @ ''/'' @ yn_value key)"
| below_field: "strip_ptr t = TStruct False fs \<Longrightarrow> yn_kind n = MappingNode \<Longrightarrow> (k, v) \<in> set (pairs (yn_content n)) \<Longrightarrow>
    yamlFields (TStruct False fs) (yn_value k) = Some (i, f) \<Longrightarrow>
    unknown_key (gf_type f) v (path @ ''/'' @ yn_value k) key p \<Longrightarrow> unknown_key t n path key p"
| below_item: "strip_ptr t = TSlice t' \<Longrightarrow> yn_kind n = SequenceNode \<Longrightarrow> i < length (yn_content n) \<Longrightarrow>
    unknown_key t' (yn_content n ! i) (path @ ''/'' @ itoa (int i)) key p \<Longrightarrow> unknown_key t n path key p"
| below_value: "strip_ptr t = TMap kt t' \<Longrightarrow> yn_kind n = MappingNode \<Longrightarrow> (k, v) \<in> set (pairs (yn_content n)) \<Longrightarrow>
    unknown_key t' v (path @ ''/'' @ yn_value k) key p \<Longrightarrow> unknown_key t n path key p"

definition reported :: "node \<Rightarrow> string \<Rightarrow> coded_error" where
  "reported key p = with_pos (yn_line key) (yn_column key) (error_at CodeConfigUnknownField p)"

lemma unknownField_reported: "fst (unknownField enum (yn_value key) path key t) = reported key (path @ ''/'' @ yn_value key)"
  by (simp add: unknownField_def reported_def)

lemma unmarshaler_struct [simp]: "implementsUnmarshaler (TStruct u fs) = u"
  by (simp add: implementsUnmarshaler_def)

lemma walk_struct:
  "strip_ptr t = TStruct False fs \<Longrightarrow> yn_kind n = MappingNode \<Longrightarrow> walk enum n t path =
     concat (map (\<lambda>(key, v). case yamlFields (TStruct False fs) (yn_value key) of
         None \<Rightarrow> [unknownField enum (yn_value key) path key (TStruct False fs)]
       | Some (_, f) \<Rightarrow> walk enum v (gf_type f) (path @ ''/'' @ yn_value key)) (pairs (yn_content n)))"
  by (subst walk.simps) simp

lemma walk_slice:
  "strip_ptr t = TSlice t' \<Longrightarrow> yn_kind n = SequenceNode \<Longrightarrow> walk enum n t path =
     concat (map (\<lambda>(i, v). walk enum v t' (path @ ''/'' @ itoa (int i))) (enumerate 0 (yn_content n)))"
  by (subst walk.simps) simp

lemma walk_map:
  "strip_ptr t = TMap kt t' \<Longrightarrow> yn_kind n = MappingNode \<Longrightarrow> walk enum n t path =
     concat (map (\<lambda>(key, v). walk enum v t' (path @ ''/'' @ yn_value key)) (pairs (yn_content n)))"
  by (subst walk.simps) simp

lemma walk_cases:
  assumes "eh \<in> set (walk enum n t path)"
  obtains (struct) fs where "strip_ptr t = TStruct False fs" "yn_kind n = MappingNode"
    | (slice) t' where "strip_ptr t = TSlice t'" "yn_kind n = SequenceNode"
    | (dict) kt t' where "strip_ptr t = TMap kt t'" "yn_kind n = MappingNode"
  using assms by (subst (asm) walk.simps) (auto split: if_splits go_type.splits)

lemma walk_sound: "(e, h) \<in> set (walk enum n t path) \<Longrightarrow> \<exists>key p. unknown_key t n path key p \<and> e = reported key p"
proof (induction enum n t path rule: walk.induct)
  case (1 enum n t path)
  from 1(4) have live: "yn_kind n \<noteq> AliasNode" by (auto simp: walk.simps[of enum n t] split: if_splits)
  from 1(4) show ?case
  proof (cases rule: walk_cases)
    case (struct fs)
    with 1(4) obtain k v where kv: "(k, v) \<in> set (pairs (yn_content n))"
      "(e, h) \<in> set (case yamlFields (TStruct False fs) (yn_value k) of
          None \<Rightarrow> [unknownField enum (yn_value k) path k (TStruct False fs)]
        | Some (_, f) \<Rightarrow> walk enum v (gf_type f) (path @ ''/'' @ yn_value k))"
      by (auto simp: walk_struct)
    show ?thesis
    proof (cases "yamlFields (TStruct False fs) (yn_value k)")
      case None
      with kv(2) have "e = reported k (path @ ''/'' @ yn_value k)"
        using unknownField_reported[of enum k path "TStruct False fs"] by (metis empty_iff empty_set fst_conv option.simps(4) set_ConsD)
      with unknown_here[OF struct kv(1) None] show ?thesis by auto
    next
      case (Some jf)
      obtain j f where jf: "jf = (j, f)" by (cases jf)
      with kv(2) Some have "(e, h) \<in> set (walk enum v (gf_type f) (path @ ''/'' @ yn_value k))" by simp
      with 1(3)[OF live struct(1) _ kv(1) refl Some jf[symmetric]] struct
      obtain key p where "unknown_key (gf_type f) v (path @ ''/'' @ yn_value k) key p" "e = reported key p" by auto
      with below_field[OF struct kv(1)] Some jf show ?thesis by blast
    qed
  next
    case (slice t')
    with 1(4) obtain i v where iv: "(i, v) \<in> set (enumerate 0 (yn_content n))"
      "(e, h) \<in> set (walk enum v t' (path @ ''/'' @ itoa (int i)))"
      by (auto simp: walk_slice)
    from iv(1) have nth: "i < length (yn_content n)" "v = yn_content n ! i" by (auto simp: in_set_enumerate_eq)
    from 1(1)[OF live slice(1) _ iv(1) refl iv(2)] slice
    obtain key p where "unknown_key t' v (path @ ''/'' @ itoa (int i)) key p" "e = reported key p" by auto
    with below_item[OF slice nth(1)] nth(2) show ?thesis by blast
  next
    case (dict kt t')
    with 1(4) obtain k v where kv: "(k, v) \<in> set (pairs (yn_content n))"
      "(e, h) \<in> set (walk enum v t' (path @ ''/'' @ yn_value k))"
      by (auto simp: walk_map)
    from 1(2)[OF live dict(1) _ kv(1) refl kv(2)] dict
    obtain key p where "unknown_key t' v (path @ ''/'' @ yn_value k) key p" "e = reported key p" by auto
    with below_value[OF dict kv(1)] show ?thesis by blast
  qed
qed

lemma walk_complete: "unknown_key t n path key p \<Longrightarrow> \<exists>h. (reported key p, h) \<in> set (walk enum n t path)"
proof (induction rule: unknown_key.induct)
  case (unknown_here t fs n key v path)
  have "unknownField enum (yn_value key) path key (TStruct False fs) \<in> set (walk enum n t path)"
    unfolding walk_struct[OF unknown_here(1,2)] set_concat using unknown_here(3,4)
    by (intro UN_I[OF imageI[OF unknown_here(3), folded set_map]]) simp
  then show ?case using unknownField_reported[of enum key path "TStruct False fs"] by (metis prod.collapse)
next
  case (below_field t fs n k v i f path key p)
  then obtain h where "(reported key p, h) \<in> set (walk enum v (gf_type f) (path @ ''/'' @ yn_value k))" by blast
  then show ?case unfolding walk_struct[OF below_field(1,2)] set_concat using below_field(4)
    by (intro exI UN_I[OF imageI[OF below_field(3), folded set_map]]) simp
next
  case (below_item t t' n i path key p)
  then obtain h where "(reported key p, h) \<in> set (walk enum (yn_content n ! i) t' (path @ ''/'' @ itoa (int i)))" by blast
  moreover have "(i, yn_content n ! i) \<in> set (enumerate 0 (yn_content n))" using below_item(3) by (auto simp: in_set_enumerate_eq)
  ultimately have "(reported key p, h) \<in> set (walk enum n t path)" unfolding walk_slice[OF below_item(1,2)]
    by (simp add: bexI[where x = "(i, yn_content n ! i)"])
  then show ?case ..
next
  case (below_value t kt t' n k v path key p)
  then obtain h where "(reported key p, h) \<in> set (walk enum v t' (path @ ''/'' @ yn_value k))" by blast
  then show ?case unfolding walk_map[OF below_value(1,2)] set_concat
    by (intro exI UN_I[OF imageI[OF below_value(3), folded set_map]]) simp
qed

text \<open>C12. All mistakes are reported at once: for any order of the map of known fields, what \<open>checkKnownFields\<close> reports of a
  document is exactly the keys that stand where the configuration has no such field, each with the line and column of the
  key and its path.\<close>

theorem unknown_fields_reported:
  "fst ` set (checkKnownFields enum (Node DocumentNode val l c (tree # rest)) tConfig) =
   {reported key p | key p. unknown_key tConfig tree [] key p}"
proof (intro equalityI subsetI)
  fix e assume "e \<in> fst ` set (checkKnownFields enum (Node DocumentNode val l c (tree # rest)) tConfig)"
  then obtain h where "(e, h) \<in> set (walk enum tree tConfig [])" by (auto simp: checkKnownFields_def)
  from walk_sound[OF this] show "e \<in> {reported key p | key p. unknown_key tConfig tree [] key p}" by blast
next
  fix e assume "e \<in> {reported key p | key p. unknown_key tConfig tree [] key p}"
  then obtain key p where "e = reported key p" "unknown_key tConfig tree [] key p" by blast
  with walk_complete[of tConfig tree "[]" key p enum] obtain h where "(e, h) \<in> set (walk enum tree tConfig [])" by blast
  then show "e \<in> fst ` set (checkKnownFields enum (Node DocumentNode val l c (tree # rest)) tConfig)"
    by (force simp: checkKnownFields_def)
qed

text \<open>
  What the walk does not see. An alias is skipped although its anchor may have been checked against another type: here the
  mapping that \<open>run.tags\<close> names, where every key is allowed, is the whole of \<open>safety\<close>. And the merge key of YAML is
  taken for a field name.
\<close>

definition scalar :: "string \<Rightarrow> node" where
  "scalar s = Node ScalarNode s 1 1 []"

lemma alias_unchecked: "walk enum (Node AliasNode val l c ns) t path = []"
  by (simp add: walk.simps)

lemma alias_hides:
  "checkKnownFields enum (Node DocumentNode [] 1 1 [Node MappingNode [] 1 1
     [scalar ''run'', Node MappingNode [] 1 1 [scalar ''tags'', Node MappingNode [] 1 1 [scalar ''alow_writes'', scalar ''x'']],
      scalar ''safety'', Node AliasNode ''anchor'' 3 1 []]]) tConfig = []"
  by (simp add: checkKnownFields_def walk.simps yamlFields_def scalar_def tConfig_def tRun_def exported_def cut_def
      is_upper_def prefix_def Let_def)

lemma merge_key_refused: "yamlFields tExecutor ''<<'' = None"
  by (simp add: yamlFields_def tExecutor_def exported_def cut_def is_upper_def prefix_def Let_def)

end
