(* ===== verification/SetPath.thy ===== *)
theory SetPath
  imports KnownFields Validate "HOL-Library.AList"
begin

text \<open>
  \<open>internal/config/set.go\<close>: overrides \<open>path=value\<close> on the configuration as written, and the list of paths that
  are offered. A \<open>reflect.Value\<close> is an address into the configuration with the type found there; every value met
  on the way is settable, because the walk starts at a pointer and every field is exported. An override that fails leaves
  no trace: \<open>ApplySet\<close> then returns an error, and its caller drops the configuration.
\<close>

section \<open>Following a path\<close>

definition parseSegment :: "string \<Rightarrow> (string \<times> string option) result" where
  "parseSegment segment =
     (case index_of segment ''['' of
        None \<Rightarrow> Inr (segment, None)
      | Some i \<Rightarrow>
          if \<not> has_suffix segment '']'' then Inl (new_error CodeSetParse)
          else Inr (take i segment, Some (drop (i + 1) (butlast segment))))"

text \<open>The loop over pointers, allocating what is missing, and the one over a list item, which stops at nil.\<close>

fun derefs :: "go_type \<Rightarrow> go_val \<Rightarrow> place list \<times> go_type \<times> go_val" where
  "derefs (TPtr t) v = (case derefs t (case v of VPtr w \<Rightarrow> w | _ \<Rightarrow> zero t) of (d, t', v') \<Rightarrow> (Deref # d, t', v'))"
| "derefs t v = ([], t, v)"

fun live_derefs :: "go_type \<Rightarrow> go_val \<Rightarrow> place list \<times> go_type \<times> go_val" where
  "live_derefs (TPtr t) v =
     (case v of VPtr w \<Rightarrow> (case live_derefs t w of (d, t', v') \<Rightarrow> (Deref # d, t', v')) | _ \<Rightarrow> ([], TPtr t, v))"
| "live_derefs t v = ([], t, v)"

text \<open>\<open>reflect.FieldByName("Name")\<close> of a struct, when it is a string.\<close>

definition name_of :: "go_type \<Rightarrow> go_val \<Rightarrow> string option" where
  "name_of t v =
     (case (t, v) of
        (TStruct u fs, VStruct vs) \<Rightarrow>
          (case List.find (\<lambda>(f, w). gf_name f = ''Name'') (zip fs vs) of
             Some (f, VString s) \<Rightarrow> (if gf_type f = TString then Some s else None)
           | _ \<Rightarrow> None)
      | _ \<Rightarrow> None)"

definition elementOf :: "go_type \<Rightarrow> go_val \<Rightarrow> string \<Rightarrow> (place list \<times> go_type \<times> go_val) result" where
  "elementOf t v selector =
     (case (t, v) of
        (TSlice t', VSlice vs) \<Rightarrow>
          (case parse_int selector of
             Some n \<Rightarrow>
               (if n < 0 \<or> int (length vs) \<le> n then Inl (new_error CodeSetIndexNotFound)
                else Inr ([At (nat n)], t', vs ! nat n))
           | None \<Rightarrow>
               (case List.find (\<lambda>i. case live_derefs t' (vs ! i) of (d, t1, v1) \<Rightarrow> name_of t1 v1 = Some selector) [0..<length vs] of
                  Some i \<Rightarrow> (case live_derefs t' (vs ! i) of (d, t1, v1) \<Rightarrow> Inr (At i # d, t1, v1))
                | None \<Rightarrow> Inl (new_error CodeSetIndexNotFound)))
      | _ \<Rightarrow> Inl (new_error CodeSetUnknownPath))"

text \<open>One segment of the path: through pointers to a struct, its field, and the item selected from it.\<close>

definition step_into :: "go_type \<Rightarrow> go_val \<Rightarrow> string \<Rightarrow> (place list \<times> go_type \<times> go_val) result" where
  "step_into t v segment =
     rbind (parseSegment segment) (\<lambda>(name, index).
       case derefs t v of (d, t1, v1) \<Rightarrow>
         (case t1 of
            TStruct u fs \<Rightarrow>
              (case yamlFields t1 name of
                 None \<Rightarrow> Inl (new_error CodeSetUnknownPath)
               | Some (i, f) \<Rightarrow>
                   (case child t1 v1 (At i) of
                      None \<Rightarrow> Inl (new_error CodeSetUnknownPath)
                    | Some (t2, v2) \<Rightarrow>
                        (case index of
                           None \<Rightarrow> Inr (d @ [At i], t2, v2)
                         | Some sel \<Rightarrow> rbind (elementOf t2 v2 sel) (\<lambda>(e, t3, v3). Inr (d @ At i # e, t3, v3)))))
          | _ \<Rightarrow> Inl (new_error CodeSetUnknownPath)))"

lemma cut_shorter: "cut s sep = (a, b, k) \<Longrightarrow> b \<noteq> [] \<Longrightarrow> sep \<noteq> [] \<Longrightarrow> length b < length s"
  by (cases k) (auto dest!: cut_found cut_not_found)

function walk_path :: "go_type \<Rightarrow> go_val \<Rightarrow> string \<Rightarrow> (place list \<times> go_type \<times> go_val) result" where
  "walk_path t v rest =
     (case cut rest ''.'' of (segment, remainder, _) \<Rightarrow>
        (case step_into t v segment of
           Inl e \<Rightarrow> Inl e
         | Inr (a, t1, v1) \<Rightarrow>
             if remainder = [] then Inr (a, t1, v1)
             else (case walk_path t1 v1 remainder of
                     Inl e \<Rightarrow> Inl e
                   | Inr (b, t2, v2) \<Rightarrow> Inr (a @ b, t2, v2))))"
  by pat_completeness auto
termination
  by (relation "measure (\<lambda>(t, v, rest). length rest)") (auto dest: cut_shorter[OF sym])

declare walk_path.simps [simp del]

section \<open>Assigning\<close>

text \<open>\<open>strconv.ParseBool\<close>, and \<open>ParseUint\<close> in base ten; \<open>pf\<close> is \<open>strconv.ParseFloat\<close>.\<close>

definition parse_bool :: "string \<Rightarrow> bool option" where
  "parse_bool s =
     (if s \<in> {''1'', ''t'', ''T'', ''TRUE'', ''true'', ''True''} then Some True
      else if s \<in> {''0'', ''f'', ''F'', ''FALSE'', ''false'', ''False''} then Some False
      else None)"

definition parse_uint :: "string \<Rightarrow> int option" where
  "parse_uint s = (case parse_unsigned s of Some n \<Rightarrow> (if n < 2 ^ 64 then Some n else None) | None \<Rightarrow> None)"

definition typeMismatch :: "'a result" where
  "typeMismatch = Inl (new_error CodeSetTypeMismatch)"

fun parse_ints :: "string list \<Rightarrow> go_val list option" where
  "parse_ints [] = Some []"
| "parse_ints (p # ps) =
     (case (parse_int (trim_space p), parse_ints ps) of (Some n, Some ns) \<Rightarrow> Some (VInt n # ns) | _ \<Rightarrow> None)"

definition assignSlice :: "go_type \<Rightarrow> string \<Rightarrow> go_val result" where
  "assignSlice elem value =
     (if elem \<noteq> TString \<and> elem \<noteq> TInt None then typeMismatch
      else if trim_space value = [] then Inr (VSlice [])
      else if elem = TString then Inr (VSlice (map (\<lambda>p. VString (trim_space p)) (split_char (CHR '','') value)))
      else (case parse_ints (split_char (CHR '','') value) of Some ns \<Rightarrow> Inr (VSlice ns) | None \<Rightarrow> typeMismatch))"

definition assignMapEntry :: "go_type \<Rightarrow> go_type \<Rightarrow> go_val \<Rightarrow> string \<Rightarrow> go_val result" where
  "assignMapEntry kt et v value =
     (if kt \<noteq> TString \<or> et \<noteq> TString then typeMismatch
      else case cut value '':'' of (key, x, ok) \<Rightarrow>
        if \<not> ok then typeMismatch
        else Inr (VMap (AList.update (trim_space key) (VString (trim_space x)) (case v of VMap kvs \<Rightarrow> kvs | _ \<Rightarrow> []))))"

definition leaf_value :: "(string \<Rightarrow> float64 option) \<Rightarrow> go_type \<Rightarrow> go_val \<Rightarrow> string \<Rightarrow> go_val result" where
  "leaf_value pf t v value =
     (case t of
        TDuration \<Rightarrow> (case parse_duration value of Some d \<Rightarrow> Inr (VInt d) | None \<Rightarrow> typeMismatch)
      | TString \<Rightarrow> Inr (VString value)
      | TBool \<Rightarrow> (case parse_bool value of Some b \<Rightarrow> Inr (VBool b) | None \<Rightarrow> typeMismatch)
      | TInt w \<Rightarrow> (case parse_int value of Some n \<Rightarrow> (if fits_int w n then Inr (VInt n) else typeMismatch) | None \<Rightarrow> typeMismatch)
      | TUint w \<Rightarrow> (case parse_uint value of Some n \<Rightarrow> (if fits_uint w n then Inr (VInt n) else typeMismatch) | None \<Rightarrow> typeMismatch)
      | TFloat \<Rightarrow> (case pf value of Some x \<Rightarrow> Inr (VFloat x) | None \<Rightarrow> typeMismatch)
      | TSlice et \<Rightarrow> assignSlice et value
      | TMap kt et \<Rightarrow> assignMapEntry kt et v value
      | _ \<Rightarrow> typeMismatch)"

text \<open>Where \<open>assign\<close> writes, and what.\<close>

definition assign :: "(string \<Rightarrow> float64 option) \<Rightarrow> go_type \<Rightarrow> go_val \<Rightarrow> string \<Rightarrow> (place list \<times> go_val) result" where
  "assign pf t v value =
     (case derefs t v of (d, t1, v1) \<Rightarrow> rbind (leaf_value pf t1 v1 value) (\<lambda>x. Inr (d, x)))"

text \<open>\<open>setPath\<close>: the address and the new value there; then the write.\<close>

definition resolve_set :: "(string \<Rightarrow> float64 option) \<Rightarrow> go_type \<Rightarrow> go_val \<Rightarrow> string \<Rightarrow> string \<Rightarrow> (place list \<times> go_val) result" where
  "resolve_set pf t v path value =
     rbind (walk_path t v path) (\<lambda>(a, t1, v1). rbind (assign pf t1 v1 value) (\<lambda>(d, x). Inr (a @ d, x)))"

definition setPath :: "(string \<Rightarrow> float64 option) \<Rightarrow> go_type \<Rightarrow> go_val \<Rightarrow> string \<Rightarrow> string \<Rightarrow> go_val result" where
  "setPath pf t v path value = rbind (resolve_set pf t v path value) (\<lambda>(a, x). Inr (write_at t v a x))"

section \<open>Overrides in order\<close>

definition read_override :: "string \<Rightarrow> (string \<times> string) result" where
  "read_override raw =
     (case cut raw ''='' of (path, value, ok) \<Rightarrow>
        if \<not> ok then Inl (new_error CodeSetParse)
        else if trim_space path = [] then Inl (new_error CodeSetParse)
        else Inr (trim_space path, value))"

fun apply_each :: "(string \<Rightarrow> float64 option) \<Rightarrow> string list \<Rightarrow> go_val \<Rightarrow> coded_error list \<times> go_val" where
  "apply_each pf [] v = ([], v)"
| "apply_each pf (raw # rest) v =
     (case rbind (read_override raw) (\<lambda>(path, value). setPath pf tConfig v path value) of
        Inl e \<Rightarrow> (case apply_each pf rest v of (es, w) \<Rightarrow> (e # es, w))
      | Inr w \<Rightarrow> apply_each pf rest w)"

definition ApplySet :: "(string \<Rightarrow> float64 option) \<Rightarrow> string list \<Rightarrow> go_val \<Rightarrow> go_val result" where
  "ApplySet pf overrides v =
     (case apply_each pf overrides v of ([], w) \<Rightarrow> Inr w | (es, _) \<Rightarrow> Inl (summarise_config es))"

section \<open>Where a path leads\<close>

definition leads :: "go_type \<Rightarrow> go_val \<Rightarrow> place list \<Rightarrow> go_type \<Rightarrow> go_val \<Rightarrow> bool" where
  "leads t v a t' v' \<longleftrightarrow> type_at t v a = Some t' \<and> read_at t v a = Some v'"

lemma leads_Nil [simp]: "leads t v [] t v"
  by (simp add: leads_def)

lemma leads_Cons: "child t v p = Some (t1, v1) \<Longrightarrow> leads t1 v1 a t' v' \<Longrightarrow> leads t v (p # a) t' v'"
  by (simp add: leads_def)

lemma leads_append: "leads t v a t1 v1 \<Longrightarrow> leads t1 v1 b t2 v2 \<Longrightarrow> leads t v (a @ b) t2 v2"
  by (induction t v a rule: read_at.induct) (auto simp: leads_def split: option.splits)

lemma leads_has_type: "leads t v a t' v' \<Longrightarrow> has_type t v \<Longrightarrow> sized t \<Longrightarrow> has_type t' v' \<and> sized t'"
proof (induction t v a rule: read_at.induct)
  case (2 t v p a)
  then obtain t1 v1 where c: "child t v p = Some (t1, v1)" by (auto simp: leads_def split: option.splits)
  from child_has_type[OF 2(3,4) c] 2 c show ?case by (auto simp: leads_def)
qed (simp add: leads_def)

lemma derefs_leads: "derefs t v = (d, t', v') \<Longrightarrow> leads t v d t' v'"
  by (induction t v arbitrary: d rule: derefs.induct) (auto simp: child_def split: prod.splits intro!: leads_Cons)

lemma live_derefs_leads: "live_derefs t v = (d, t', v') \<Longrightarrow> leads t v d t' v'"
  by (induction t v arbitrary: d rule: live_derefs.induct) (auto simp: child_def split: prod.splits go_val.splits intro!: leads_Cons)

lemma elementOf_leads:
  assumes "elementOf t v sel = Inr (e, t', v')" shows "leads t v e t' v'"
proof -
  from assms obtain t1 vs where t: "t = TSlice t1" "v = VSlice vs" by (auto simp: elementOf_def split: go_type.splits go_val.splits)
  have c: "child t v (At i) = Some (t1, vs ! i)" if "i < length vs" for i using that t by (simp add: child_def)
  show ?thesis
  proof (cases "parse_int sel")
    case None
    then obtain i where f: "List.find (\<lambda>i. case live_derefs t1 (vs ! i) of (d, t2, v2) \<Rightarrow> name_of t2 v2 = Some sel) [0..<length vs] = Some i"
      using assms t by (auto simp: elementOf_def split: option.splits)
    then have "i < length vs" by (auto simp: find_Some_iff)
    moreover obtain d where "live_derefs t1 (vs ! i) = (d, t', v')" "e = At i # d"
      using assms t None f by (auto simp: elementOf_def split: prod.splits)
    ultimately have "i < length vs" "live_derefs t1 (vs ! i) = (d, t', v')" "e = At i # d" by auto
    then show ?thesis using leads_Cons[OF c live_derefs_leads] by simp
  next
    case (Some n)
    with assms t have "nat n < length vs" "e = [At (nat n)]" "t' = t1" "v' = vs ! nat n"
      by (auto simp: elementOf_def split: if_splits)
    then show ?thesis using leads_Cons[OF c leads_Nil] by simp
  qed
qed

lemma step_into_leads: "step_into t v seg = Inr (a, t', v') \<Longrightarrow> leads t v a t' v'"
proof -
  assume s: "step_into t v seg = Inr (a, t', v')"
  then obtain name index where "parseSegment seg = Inr (name, index)" by (cases "parseSegment seg") (auto simp: step_into_def)
  moreover obtain d t1 v1 where d: "derefs t v = (d, t1, v1)" by (metis prod_cases3)
  ultimately obtain u fs i f t2 v2 where f: "t1 = TStruct u fs" "yamlFields t1 name = Some (i, f)" "child t1 v1 (At i) = Some (t2, v2)"
    "(case index of None \<Rightarrow> Inr (d @ [At i], t2, v2)
      | Some sel \<Rightarrow> rbind (elementOf t2 v2 sel) (\<lambda>(e, t3, v3). Inr (d @ At i # e, t3, v3))) = Inr (a, t', v')"
    using s by (auto simp: step_into_def split: go_type.splits option.splits)
  show ?thesis
  proof (cases index)
    case None
    with f derefs_leads[OF d] show ?thesis by (auto intro!: leads_append leads_Cons)
  next
    case (Some sel)
    with f(4) obtain e where "elementOf t2 v2 sel = Inr (e, t', v')" "a = d @ At i # e" by (cases "elementOf t2 v2 sel") auto
    with f derefs_leads[OF d] elementOf_leads show ?thesis by (auto intro!: leads_append leads_Cons)
  qed
qed

lemma walk_path_leads: "walk_path t v rest = Inr (a, t', v') \<Longrightarrow> leads t v a t' v'"
proof (induction t v rest arbitrary: a rule: walk_path.induct)
  case (1 t v rest)
  obtain seg rem k where c: "cut rest ''.'' = (seg, rem, k)" by (metis prod_cases3)
  with 1(2) obtain a1 t1 v1 where s: "step_into t v seg = Inr (a1, t1, v1)"
    by (subst (asm) walk_path.simps) (auto split: sum.splits)
  show ?case
  proof (cases "rem = []")
    case True
    with 1(2) c s step_into_leads[OF s] show ?thesis by (subst (asm) walk_path.simps) auto
  next
    case False
    with 1(2) c s obtain b where b: "walk_path t1 v1 rem = Inr (b, t', v')" "a = a1 @ b"
      by (subst (asm) walk_path.simps) (auto split: sum.splits)
    from 1(1)[OF c[symmetric] refl s refl refl False b(1)] step_into_leads[OF s] b(2) show ?thesis by (auto intro: leads_append)
  qed
qed

section \<open>What is assigned has the type of its place\<close>

lemma leading_int_nonneg: "leading_int x s = Some (v, r) \<Longrightarrow> 0 \<le> x \<Longrightarrow> 0 \<le> v"
  by (induction x s rule: leading_int.induct) (auto simp: Let_def is_digit_def digit_val_def split: if_splits)

lemma leading_fraction_nonneg: "leading_fraction x sc ov s = (f, sc', r) \<Longrightarrow> 0 \<le> x \<Longrightarrow> 0 < sc \<Longrightarrow> 0 \<le> f \<and> 0 < sc'"
  by (induction x sc ov s rule: leading_fraction.induct) (auto simp: Let_def is_digit_def digit_val_def split: if_splits)

lemma read_number_nonneg: "read_number s = Some (v, f, sc, ok, r) \<Longrightarrow> 0 \<le> v \<and> 0 \<le> f \<and> 0 < sc"
  by (auto simp: read_number_def Let_def split: option.splits list.splits if_splits prod.splits
      dest!: leading_int_nonneg leading_fraction_nonneg)

lemma units_positive: "map_of unit_map u = Some n \<Longrightarrow> 0 < n"
  by (auto simp: unit_map_def nanosecond_def microsecond_def millisecond_def second_def minute_def hour_def split: if_splits)

lemma duration_loop_range: "duration_loop d s = Some e \<Longrightarrow> 0 \<le> d \<Longrightarrow> d \<le> 9223372036854775808 \<Longrightarrow> 0 \<le> e \<and> e \<le> 9223372036854775808"
proof (induction d s rule: duration_loop.induct)
  case (1 d s)
  show ?case
  proof (cases "s = []")
    case False
    with 1(2) obtain v f sc ok s2 where r: "read_number s = Some (v, f, sc, ok, s2)" "unit_end (hd s)"
      by (subst (asm) duration_loop.simps) (auto split: if_splits option.splits)
    let ?u = "takeWhile (\<lambda>c. \<not> unit_end c) s2"
    from 1(2) False r obtain un where u: "map_of unit_map ?u = Some un" "ok" "?u \<noteq> []"
      by (subst (asm) duration_loop.simps) (auto simp: Let_def split: if_splits option.splits)
    let ?w = "v * un + (if 0 < f then f * un div sc else 0)"
    from 1(2) False r u have w: "\<not> 9223372036854775808 div un < v" "\<not> 9223372036854775808 < ?w" "\<not> 9223372036854775808 < d + ?w"
      "duration_loop (d + ?w) (drop (length ?u) s2) = Some e"
      by (subst (asm) duration_loop.simps, simp add: Let_def split: if_splits)+
    have "0 \<le> ?w" using read_number_nonneg[OF r(1)] units_positive[OF u(1)] by (simp add: pos_imp_zdiv_nonneg_iff)
    with 1(1)[OF False _ r(1) refl refl refl refl refl _ u(1)] 1(3) w r(2) u show ?thesis by auto
  qed (use 1 in \<open>simp add: duration_loop.simps\<close>)
qed

lemma parse_duration_range: "parse_duration s = Some d \<Longrightarrow> in_int64 d"
  by (auto simp: parse_duration_def in_int64_def min_int64_def max_int64_def Let_def split: list.splits if_splits option.splits
      dest!: duration_loop_range)

lemma fits_int_plain: "fits_int None n \<longleftrightarrow> in_int64 n"
  by (auto simp: fits_int_def bits_def in_int64_def min_int64_def max_int64_def)

lemma parse_ints_type: "parse_ints ps = Some ns \<Longrightarrow> list_all (has_type (TInt None)) ns"
  by (induction ps arbitrary: ns) (auto simp: fits_int_plain parse_int_range split: option.splits)

lemma update_has_type: "list_all (\<lambda>kv. has_type t (snd kv)) kvs \<Longrightarrow> has_type t x \<Longrightarrow> list_all (\<lambda>kv. has_type t (snd kv)) (AList.update k x kvs)"
  by (induction kvs) auto

lemma assignSlice_type: "assignSlice et value = Inr x \<Longrightarrow> has_type (TSlice et) x"
  by (auto simp: assignSlice_def typeMismatch_def list_all_length dest: parse_ints_type split: if_splits option.splits)

lemma assignMapEntry_type: "assignMapEntry kt et v value = Inr x \<Longrightarrow> has_type (TMap kt et) v \<Longrightarrow> has_type (TMap kt et) x"
  by (cases v) (auto simp: assignMapEntry_def typeMismatch_def update_has_type[of TString, simplified] split: if_splits prod.splits simp del: update.simps)

lemma leaf_value_type: "leaf_value pf t v value = Inr x \<Longrightarrow> has_type t v \<Longrightarrow> has_type t x"
  by (cases t) (auto simp: leaf_value_def typeMismatch_def parse_duration_range simp del: has_type.simps(9,10)
      split: option.splits if_splits dest: assignSlice_type assignMapEntry_type)

section \<open>What a list of overrides does\<close>

lemma resolve_set_leads:
  assumes "resolve_set pf t v path value = Inr (a, x)" "has_type t v" "sized t"
  obtains t' v' where "leads t v a t' v'" "has_type t' x"
proof -
  from assms(1) obtain b t1 v1 d where w: "walk_path t v path = Inr (b, t1, v1)" "assign pf t1 v1 value = Inr (d, x)" "a = b @ d"
    by (cases "walk_path t v path"; cases "assign pf (fst (snd (projr (walk_path t v path)))) (snd (snd (projr (walk_path t v path)))) value")
      (auto simp: resolve_set_def)
  obtain d' t2 v2 where d: "derefs t1 v1 = (d', t2, v2)" by (metis prod_cases3)
  with w(2) have x: "leaf_value pf t2 v2 value = Inr x" "d = d'" by (cases "leaf_value pf t2 v2 value"; auto simp: assign_def)+
  have l: "leads t v a t2 v2" using walk_path_leads[OF w(1)] derefs_leads[OF d] w(3) x(2) by (auto intro: leads_append)
  from leads_has_type[OF this assms(2,3)] leaf_value_type[OF x(1)] that[OF l] show ?thesis by blast
qed

lemma setPath_has_type: "setPath pf t v path value = Inr w \<Longrightarrow> has_type t v \<Longrightarrow> sized t \<Longrightarrow> has_type t w"
proof -
  assume a: "setPath pf t v path value = Inr w" "has_type t v" "sized t"
  then obtain ad x where r: "resolve_set pf t v path value = Inr (ad, x)" "w = write_at t v ad x"
    by (cases "resolve_set pf t v path value") (auto simp: setPath_def)
  from resolve_set_leads[OF r(1) a(2,3)] a r(2) show ?thesis by (metis leads_def write_has_type)
qed

text \<open>The overrides as a sequence of writes, each resolved in the configuration its predecessors left.\<close>

fun resolved_to :: "(string \<Rightarrow> float64 option) \<Rightarrow> go_val \<Rightarrow> string list \<Rightarrow> (place list \<times> go_val) list \<Rightarrow> bool" where
  "resolved_to pf v [] ws = (ws = [])"
| "resolved_to pf v (raw # rest) ws =
     (case ws of
        [] \<Rightarrow> False
      | w # ws' \<Rightarrow> (\<exists>path value. read_override raw = Inr (path, value) \<and> resolve_set pf tConfig v path value = Inr w) \<and>
                  resolved_to pf (write_at tConfig v (fst w) (snd w)) rest ws')"

lemma apply_each_resolved:
  "apply_each pf os v = ([], v') \<Longrightarrow> \<exists>ws. resolved_to pf v os ws \<and> v' = go_store.puts tConfig v ws"
proof (induction os arbitrary: v)
  case Nil
  then show ?case by (simp add: go_store.puts_def)
next
  case (Cons raw os)
  then obtain path val w where o: "read_override raw = Inr (path, val)" "setPath pf tConfig v path val = Inr w"
      "apply_each pf os w = ([], v')"
    by (cases "read_override raw"; cases "rbind (read_override raw) (\<lambda>(path, value). setPath pf tConfig v path value)")
      (auto split: prod.splits)
  then obtain a x where r: "resolve_set pf tConfig v path val = Inr (a, x)" "w = write_at tConfig v a x"
    by (cases "resolve_set pf tConfig v path val") (auto simp: setPath_def)
  from Cons.IH[OF o(3)] obtain ws where "resolved_to pf w os ws" "v' = go_store.puts tConfig w ws" by blast
  with o(1) r show ?case by (intro exI[of _ "(a, x) # ws"]) (auto simp: go_store.puts_def)
qed

lemma resolved_length: "resolved_to pf v os ws \<Longrightarrow> length ws = length os"
  by (induction pf v os ws rule: resolved_to.induct) (auto split: list.splits)

lemma resolved_puts_type:
  "resolved_to pf v os ws \<Longrightarrow> has_type tConfig v \<Longrightarrow> has_type tConfig (go_store.puts tConfig v ws)"
proof (induction pf v os ws rule: resolved_to.induct)
  case (2 pf v raw rest ws)
  from 2(2) obtain w ws' path val where w: "ws = w # ws'" "resolve_set pf tConfig v path val = Inr w"
    "resolved_to pf (write_at tConfig v (fst w) (snd w)) rest ws'" by (auto split: list.splits)
  obtain a x where ax: "w = (a, x)" by (cases w)
  from resolve_set_leads[OF w(2)[unfolded ax] 2(3) tConfig_sized]
  have "has_type tConfig (write_at tConfig v a x)" using 2(3) tConfig_sized by (metis leads_def write_has_type)
  with 2(1)[OF w(1) w(3)] w ax show ?case by (simp add: go_store.puts_def)
qed (simp add: go_store.puts_def)

lemma resolved_live:
  "resolved_to pf v os ws \<Longrightarrow> has_type tConfig v \<Longrightarrow> ws = us @ (a, x) # us' \<Longrightarrow>
   read_at tConfig (go_store.puts tConfig v us) a \<noteq> None"
proof (induction us arbitrary: v os ws)
  case Nil
  then obtain raw rest path val where "resolve_set pf tConfig v path val = Inr (a, x)"
    by (cases os) (auto split: list.splits)
  from resolve_set_leads[OF this Nil(2) tConfig_sized] show ?case by (auto simp: leads_def go_store.puts_def)
next
  case (Cons w us)
  from Cons.prems obtain raw rest path val where o: "os = raw # rest" "resolve_set pf tConfig v path val = Inr w"
    "resolved_to pf (write_at tConfig v (fst w) (snd w)) rest (us @ (a, x) # us')" by (cases os) (auto split: list.splits)
  obtain b y where wp: "w = (b, y)" by (cases w)
  from resolve_set_leads[OF o(2)[unfolded wp] Cons.prems(2) tConfig_sized]
  have "has_type tConfig (write_at tConfig v b y)" using Cons.prems(2) tConfig_sized by (metis leads_def write_has_type)
  with Cons.IH[OF o(3)] wp show ?case by (simp add: go_store.puts_def)
qed


section \<open>The paths on offer\<close>

text \<open>
  \<open>collectPaths\<close> to the depth that is left of \<open>maxDepth\<close>. The fields come out of a map; the list is sorted at the end.
\<close>

fun collectPaths :: "nat \<Rightarrow> go_type \<Rightarrow> string \<Rightarrow> string list" where
  "collectPaths 0 t pre = []"
| "collectPaths (Suc n) t pre =
     (case strip_ptr t of
        TStruct u fs \<Rightarrow>
          (if implementsUnmarshaler (TStruct u fs) then []
           else concat (map (\<lambda>(name, _, f).
             let path = (if pre = [] then name else pre @ ''.'' @ name)
             in case strip_ptr (gf_type f) of
                  TStruct u' fs' \<Rightarrow> (if implementsUnmarshaler (TStruct u' fs') then [path] else collectPaths n (TStruct u' fs') path)
                | TSlice et \<Rightarrow> (path @ ''[name]'') # collectPaths n et (path @ ''[name]'')
                | _ \<Rightarrow> [path]) (AList.clearjunk (yaml_fields (TStruct u fs)))))
      | _ \<Rightarrow> [])"

definition SetPaths :: "string list" where
  "SetPaths = sort (collectPaths 7 tConfig [])"

lemmas evaluate_paths = yamlFields_def exported_def is_upper_def cut_def has_suffix_def suffix_def Let_def

lemma set_max_in_flight:
  "resolve_set pf tConfig (zero tConfig) ''http.executor.max_in_flight'' ''240'' = Inr ([At 4, Deref, At 3, At 4], VInt 240)"
  by (simp add: resolve_set_def walk_path.simps step_into_def parseSegment_def evaluate_paths doc_types child_def assign_def
      leaf_value_def parse_int_def parse_unsigned_def is_digit_def digit_val_def in_int64_def min_int64_def max_int64_def fits_int_def bits_def)


text \<open>In terms of the record: the ceiling is set, the section that was absent now exists.\<close>

lemma max_in_flight_record:
  "map_option (xs_max_in_flight \<circ> ht_executor)
     (cf_http (asConfig (write_at tConfig (zero tConfig) [At 4, Deref, At 3, At 4] (VInt 240)))) = Some 240"
  by (simp add: doc_types child_def set_child_def doc_views configuration.make_def http_section.make_def executor_section.make_def)

text \<open>
  The list of paths and what works differ. A sampler is listed as a whole, which cannot be assigned, and its fields are
  not listed, which can; a list of strings is listed by item and not as the whole that a comma-separated value replaces.
\<close>

lemma telemetry_paths:
  "set (collectPaths 6 tTelemetry ''telemetry'') =
   {''telemetry.interval'', ''telemetry.postgres'', ''telemetry.mysql'', ''telemetry.redis''}"
  by (simp add: tTelemetry_def tSampler_def evaluate_paths numeral_eq_Suc insert_commute)

lemma sampler_refused: "setPath pf tConfig (zero tConfig) ''telemetry.postgres'' val = Inl (new_error CodeSetTypeMismatch)"
  by (simp add: setPath_def resolve_set_def walk_path.simps step_into_def parseSegment_def evaluate_paths doc_types child_def
      assign_def leaf_value_def typeMismatch_def)

lemma addrs_not_listed: "''redis.addrs'' \<notin> set (collectPaths 6 tRedis ''redis'')"
  by (simp add: tRedis_def tTLS_def tExecutor_def tStage_def tRedisPool_def tCommand_def evaluate_paths numeral_eq_Suc)

lemma addrs_accepted:
  "resolve_set pf tConfig (zero tConfig) ''redis.addrs'' ''a,b'' = Inr ([At 6, Deref, At 2], VSlice [VString ''a'', VString ''b''])"
  by (simp add: resolve_set_def walk_path.simps step_into_def parseSegment_def evaluate_paths doc_types child_def
      assign_def leaf_value_def assignSlice_def trim_space_def trim_func_def is_space_def)

text \<open>The path is cut at every dot, also inside a selector, so an item whose name has one cannot be addressed by it.\<close>

lemma dotted_name_refused:
  "resolve_set pf tConfig (zero tConfig) ''db.queries[a.b].weight'' val = Inl (new_error CodeSetParse)"
  by (simp add: resolve_set_def walk_path.simps step_into_def parseSegment_def evaluate_paths doc_types child_def)

end
