(* ===== verification/Load.thy ===== *)
theory Load
  imports SetPath Validated
begin

text \<open>
  \<open>internal/config/load.go\<close>: the expansion of environment references in the raw text, the checks in their order,
  and the coding of the errors of the YAML library. Reading files, the parser and the decoder of the library are
  parameters.
\<close>

section \<open>References\<close>

text \<open>The expression \<open>envRef\<close> at the head of a text: the name, the default when there is one, and what follows.\<close>

definition name_start :: "char \<Rightarrow> bool" where
  "name_start c \<longleftrightarrow> is_upper c \<or> is_lower c \<or> c = CHR ''_''"

definition name_char :: "char \<Rightarrow> bool" where
  "name_char c \<longleftrightarrow> name_start c \<or> is_digit c"

definition ref_end :: "string \<Rightarrow> string \<Rightarrow> (string \<times> string option \<times> string) option" where
  "ref_end name r =
     (case r of
        [] \<Rightarrow> None
      | c # r1 \<Rightarrow>
          if c = CHR ''}'' then Some (name, None, r1)
          else if prefix '':-'' r \<and> CHR ''}'' \<in> set r
            then Some (name, Some (takeWhile (\<lambda>d. d \<noteq> CHR ''}'') (drop 2 r)), tl (dropWhile (\<lambda>d. d \<noteq> CHR ''}'') (drop 2 r)))
          else None)"

definition match_ref :: "string \<Rightarrow> (string \<times> string option \<times> string) option" where
  "match_ref s =
     (if prefix ''${'' s \<and> drop 2 s \<noteq> [] \<and> name_start (s ! 2)
      then ref_end (takeWhile name_char (drop 2 s)) (dropWhile name_char (drop 2 s))
      else None)"

text \<open>How a reference is written.\<close>

definition write_ref :: "string \<Rightarrow> string option \<Rightarrow> string" where
  "write_ref name d = ''${'' @ name @ (case d of None \<Rightarrow> [] | Some x \<Rightarrow> '':-'' @ x) @ ''}''"

lemma split_at_first: "x \<in> set q \<Longrightarrow> q = takeWhile (\<lambda>d. d \<noteq> x) q @ x # tl (dropWhile (\<lambda>d. d \<noteq> x) q)"
  by (induction q) auto

lemma ref_end_written: "ref_end name r = Some (n, d, rest) \<Longrightarrow> n = name \<and> r = (case d of None \<Rightarrow> [] | Some x \<Rightarrow> '':-'' @ x) @ ''}'' @ rest"
proof -
  assume e: "ref_end name r = Some (n, d, rest)"
  then obtain c r1 where r: "r = c # r1" by (cases r) (auto simp: ref_end_def)
  show ?thesis
  proof (cases "c = CHR ''}''")
    case False
    with e r have p: "prefix '':-'' r" "CHR ''}'' \<in> set r" by (auto simp: ref_end_def split: if_splits)
    then obtain q where q: "r = '':-'' @ q" "CHR ''}'' \<in> set q" by (auto simp: prefix_def)
    have "q = takeWhile (\<lambda>d. d \<noteq> CHR ''}'') q @ CHR ''}'' # tl (dropWhile (\<lambda>d. d \<noteq> CHR ''}'') q)"
      by (rule split_at_first[OF q(2)])
    with e r q False show ?thesis by (auto simp: ref_end_def)
  qed (use e r in \<open>auto simp: ref_end_def\<close>)
qed

lemma match_ref_written:
  assumes "match_ref s = Some (n, d, rest)"
  shows "s = write_ref n d @ rest" "n \<noteq> []" "name_start (hd n)" "list_all name_char n"
proof -
  from assms have m: "prefix ''${'' s" "drop 2 s \<noteq> []" "name_start (s ! 2)"
    "ref_end (takeWhile name_char (drop 2 s)) (dropWhile name_char (drop 2 s)) = Some (n, d, rest)"
    by (auto simp: match_ref_def split: if_splits)
  note e = ref_end_written[OF m(4)]
  obtain q where s: "s = ''${'' @ q" using m(1) by (auto simp: prefix_def)
  with m(2) obtain c q' where q: "q = c # q'" by (cases q) auto
  have c: "name_start c" "name_char c" using m(3) s q by (auto simp: name_char_def)
  have n: "n = takeWhile name_char q" "dropWhile name_char q = (case d of None \<Rightarrow> [] | Some x \<Rightarrow> '':-'' @ x) @ ''}'' @ rest"
    using e s by auto
  have "q = n @ (case d of None \<Rightarrow> [] | Some x \<Rightarrow> '':-'' @ x) @ ''}'' @ rest" using n by (metis takeWhile_dropWhile_id)
  with s show "s = write_ref n d @ rest" by (simp add: write_ref_def)
  show "n \<noteq> []" "name_start (hd n)" using n(1) q c by auto
  show "list_all name_char n" unfolding n(1) list_all_iff by (blast dest: set_takeWhileD)
qed

lemma match_ref_shorter: "match_ref (c # s) = Some (n, d, rest) \<Longrightarrow> length rest < Suc (length s)"
  using arg_cong[where f = length, OF match_ref_written(1)[of "c # s" n d rest]] by (simp add: write_ref_def)

section \<open>Interpolation\<close>

definition lineOf :: "string \<Rightarrow> string \<Rightarrow> int" where
  "lineOf raw m = (case index_of raw m of None \<Rightarrow> 0 | Some i \<Rightarrow> int (length (filter (\<lambda>c. c = CHR 10) (take i raw))) + 1)"

type_synonym lookup = "string \<Rightarrow> string option"

definition value_of :: "lookup \<Rightarrow> string \<Rightarrow> string option \<Rightarrow> string option" where
  "value_of env name d = (case env name of Some v \<Rightarrow> Some v | None \<Rightarrow> d)"

definition unset :: "string \<Rightarrow> string \<Rightarrow> coded_error" where
  "unset raw m = with_pos (lineOf raw m) 0 (new_error CodeConfigEnvUnset)"

text \<open>\<open>ReplaceAllFunc\<close> with the errors its function collects: the scan goes on after each match.\<close>

function replace_refs :: "lookup \<Rightarrow> string \<Rightarrow> string \<Rightarrow> string \<times> coded_error list" where
  "replace_refs env raw [] = ([], [])"
| "replace_refs env raw (c # s) =
     (case match_ref (c # s) of
        None \<Rightarrow> (case replace_refs env raw s of (out, gone) \<Rightarrow> (c # out, gone))
      | Some (name, d, rest) \<Rightarrow>
          (case replace_refs env raw rest of (out, gone) \<Rightarrow>
             (case value_of env name d of
                Some v \<Rightarrow> (v @ out, gone)
              | None \<Rightarrow> (write_ref name d @ out, unset raw (write_ref name d) # gone))))"
  by pat_completeness auto
termination
  by (relation "measure (\<lambda>(env, raw, s). length s)") (auto dest: match_ref_shorter)

definition Interpolate :: "string \<Rightarrow> lookup \<Rightarrow> string result" where
  "Interpolate raw env =
     (case replace_refs env raw raw of (out, gone) \<Rightarrow> if gone \<noteq> [] then Inl (summarise_config gone) else Inr out)"

text \<open>The document as literal characters and references.\<close>

datatype piece = Lit char | Ref string "string option"

function pieces :: "string \<Rightarrow> piece list" where
  "pieces [] = []"
| "pieces (c # s) =
     (case match_ref (c # s) of None \<Rightarrow> Lit c # pieces s | Some (name, d, rest) \<Rightarrow> Ref name d # pieces rest)"
  by pat_completeness auto
termination
  by (relation "measure length") (auto dest: match_ref_shorter)

fun written :: "piece \<Rightarrow> string" where
  "written (Lit c) = [c]"
| "written (Ref n d) = write_ref n d"

fun expanded :: "lookup \<Rightarrow> piece \<Rightarrow> string" where
  "expanded env (Lit c) = [c]"
| "expanded env (Ref n d) = (case value_of env n d of Some v \<Rightarrow> v | None \<Rightarrow> write_ref n d)"

fun unresolved :: "lookup \<Rightarrow> piece \<Rightarrow> bool" where
  "unresolved env (Lit c) = False"
| "unresolved env (Ref n d) = (env n = None \<and> d = None)"

lemma pieces_written: "concat (map written (pieces s)) = s"
  by (induction s rule: pieces.induct) (auto split: option.splits dest!: match_ref_written(1))

lemma replace_refs_pieces:
  "replace_refs env raw s =
     (concat (map (expanded env) (pieces s)), map (\<lambda>p. unset raw (written p)) (filter (unresolved env) (pieces s)))"
proof (induction env raw s rule: replace_refs.induct)
  case (2 env raw c s)
  show ?case
  proof (cases "match_ref (c # s)")
    case (Some m)
    obtain n d r where m: "m = (n, d, r)" by (cases m)
    show ?thesis using Some m 2(2)[OF Some m[symmetric] refl]
      by (cases "env n"; cases d) (simp_all add: value_of_def)
  qed (use 2(1) in simp)
qed simp

lemma unset_code [simp]: "err_code (unset raw m) = CodeConfigEnvUnset"
  by (simp add: unset_def)

text \<open>A document is cut into characters and references, losing nothing. Each reference is replaced by the value of its
  variable or by its default, once: what a value contains is not expanded again. One without either is never replaced by
  nothing: the document is refused, with one error for each such reference in order.\<close>

theorem interpolation:
  "concat (map written (pieces raw)) = raw \<and>
   Interpolate raw env =
     (let open_refs = filter (unresolved env) (pieces raw)
      in if open_refs = [] then Inr (concat (map (expanded env) (pieces raw)))
         else Inl (summarise_config (map (\<lambda>p. unset raw (written p)) open_refs)))"
  by (simp add: Interpolate_def replace_refs_pieces pieces_written Let_def)

text \<open>Every unresolved occurrence of a reference is reported on the line of the first. References do not nest.\<close>

lemma repeated_reference:
  "replace_refs (\<lambda>_. None) (''${A}'' @ [CHR 10] @ ''${A}'') (''${A}'' @ [CHR 10] @ ''${A}'') =
     (''${A}'' @ [CHR 10] @ ''${A}'', [with_pos 1 0 (new_error CodeConfigEnvUnset), with_pos 1 0 (new_error CodeConfigEnvUnset)])"
  by (simp add: match_ref_def ref_end_def name_char_def name_start_def is_upper_def is_lower_def is_digit_def
      value_of_def unset_def lineOf_def write_ref_def)

lemma nested_reference: "Interpolate ''${${A}}'' (\<lambda>n. if n = ''A'' then Some ''B'' else None) = Inr ''${B}''"
  by (simp add: Interpolate_def match_ref_def ref_end_def name_char_def name_start_def is_upper_def is_lower_def is_digit_def value_of_def)

section \<open>Errors of the library\<close>

text \<open>\<open>yamlPos\<close>: the digits of the first \<open>line N:\<close> in a message; \<open>atoi\<close> wraps at 64 bits.\<close>

fun find_line :: "string \<Rightarrow> string option" where
  "find_line [] = None"
| "find_line (c # s) =
     (let r = drop 4 s; ds = takeWhile is_digit r
      in if prefix ''line '' (c # s) \<and> ds \<noteq> [] \<and> prefix '':'' (dropWhile is_digit r) then Some ds else find_line s)"

fun atoi_from :: "int \<Rightarrow> string \<Rightarrow> int" where
  "atoi_from n [] = n"
| "atoi_from n (c # s) = (if \<not> is_digit c then 0 else atoi_from (wrap64 (n * 10 + digit_val c)) s)"

definition atoi :: "string \<Rightarrow> int" where
  "atoi s = atoi_from 0 s"

definition at_line :: "string \<Rightarrow> coded_error \<Rightarrow> coded_error" where
  "at_line message e = (case find_line message of Some ds \<Rightarrow> with_pos (atoi ds) 0 e | None \<Rightarrow> e)"

definition parseError :: "string \<Rightarrow> coded_error" where
  "parseError message = at_line message (new_error CodeConfigParse)"

text \<open>What decoding can fail with: the list a \<open>yaml.TypeError\<close> carries, or any other error.\<close>

datatype decode_failure = TypeErrors "string list" | OtherFailure string

definition decodeError :: "decode_failure \<Rightarrow> coded_error" where
  "decodeError f =
     (case f of
        TypeErrors (m # ms) \<Rightarrow> summarise_config (map (\<lambda>m. at_line m (new_error CodeConfigInvalidValue)) (m # ms))
      | TypeErrors [] \<Rightarrow> new_error CodeConfigInvalidValue
      | OtherFailure m \<Rightarrow> at_line m (new_error CodeConfigInvalidValue))"

section \<open>Loading\<close>

text \<open>
  Where the text comes from (\<open>Source\<close>), and what reading finds: \<open>files\<close> and \<open>stdin\<close> are the operating system's, \<open>parse\<close>
  and \<open>decode\<close> the YAML library's. A parsed document of kind zero is an empty one.
\<close>

datatype source = FromFile string | FromBytes string string

datatype file_outcome = Contents string | NotExist | ReadFailed

record loader =
  ld_env :: lookup
  ld_files :: "string \<Rightarrow> file_outcome"
  ld_stdin :: "string option"
  ld_parse :: "string \<Rightarrow> string + node"
  ld_decode :: "node \<Rightarrow> decode_failure + go_val"
  ld_enum :: enumeration
  ld_ended :: bool

definition read_source :: "loader \<Rightarrow> source \<Rightarrow> string result" where
  "read_source l src =
     (case src of
        FromBytes label text \<Rightarrow> Inr text
      | FromFile path \<Rightarrow>
          if path = ''-'' then (case ld_stdin l of Some s \<Rightarrow> Inr s | None \<Rightarrow> Inl (new_error CodeIOReadFailed))
          else (case ld_files l path of
                  Contents s \<Rightarrow> Inr s
                | NotExist \<Rightarrow> Inl (new_error CodeConfigNotFound)
                | ReadFailed \<Rightarrow> Inl (new_error CodeIOReadFailed)))"

text \<open>The document as written, up to the check of its version; then, unless it is wanted raw, \<open>Finalise\<close>.\<close>

definition load_raw :: "loader \<Rightarrow> source \<Rightarrow> go_val result" where
  "load_raw l src =
     (if ld_ended l then Inl (new_error CodeIOReadFailed)
      else rbind (read_source l src) (\<lambda>raw.
        rbind (Interpolate raw (ld_env l)) (\<lambda>text.
          case ld_parse l text of
            Inl message \<Rightarrow> Inl (parseError message)
          | Inr doc \<Rightarrow>
              if yn_kind doc = ZeroNode \<or> yn_content doc = [] then Inl (new_error CodeConfigParse)
              else
                (let unknown = map fst (checkKnownFields (ld_enum l) doc tConfig)
                 in if unknown \<noteq> [] then Inl (summarise_config unknown)
                    else (case ld_decode l doc of
                      Inl f \<Rightarrow> Inl (decodeError f)
                    | Inr v \<Rightarrow> if cf_version (asConfig v) \<noteq> Version
                               then Inl (error_at CodeConfigVersionUnsupported ''/version'')
                               else Inr v)))))"

definition Load :: "string list \<Rightarrow> loader \<Rightarrow> source \<Rightarrow> configuration result" where
  "Load ord l src = rbind (load_raw l src) (\<lambda>v. Finalise ord (asConfig v))"

lemma load_raw_steps:
  assumes "load_raw l src = Inr v"
  obtains raw out doc where "read_source l src = Inr raw" "Interpolate raw (ld_env l) = Inr out"
    "ld_parse l out = Inr doc" "yn_content doc \<noteq> []" "checkKnownFields (ld_enum l) doc tConfig = []"
    "ld_decode l doc = Inr v" "cf_version (asConfig v) = 1"
proof -
  from assms obtain raw out where t: "read_source l src = Inr raw" "Interpolate raw (ld_env l) = Inr out"
    by (auto simp: load_raw_def rbind_Inr split: if_splits)
  with assms obtain doc where "ld_parse l out = Inr doc" "yn_content doc \<noteq> []" "checkKnownFields (ld_enum l) doc tConfig = []"
    "ld_decode l doc = Inr v" "cf_version (asConfig v) = 1"
    by (auto simp: load_raw_def rbind_Inr Let_def Version_def split: if_splits sum.splits)
  with t that show ?thesis by blast
qed

text \<open>C28. A configuration that loads came from a text whose references all had a value, parsed, with no key that the
  configuration does not have, of the version this build understands, and passed validation with its defaults.\<close>

theorem loaded:
  assumes "Load ord l src = Inr c"
  shows "\<exists>raw text doc v.
    read_source l src = Inr raw \<and> Interpolate raw (ld_env l) = Inr text \<and> filter (unresolved (ld_env l)) (pieces raw) = [] \<and>
    ld_parse l text = Inr doc \<and> (yn_kind doc = DocumentNode \<longrightarrow> (\<forall>key p. \<not> unknown_key tConfig (hd (yn_content doc)) [] key p)) \<and>
    ld_decode l doc = Inr v \<and> cf_version (asConfig v) = 1 \<and> Finalise ord (asConfig v) = Inr c"
proof -
  from assms obtain v where v: "load_raw l src = Inr v" "Finalise ord (asConfig v) = Inr c" by (auto simp: Load_def rbind_Inr)
  then obtain raw out doc where t: "read_source l src = Inr raw" "Interpolate raw (ld_env l) = Inr out"
    and d: "ld_parse l out = Inr doc" "yn_content doc \<noteq> []" "checkKnownFields (ld_enum l) doc tConfig = []"
      "ld_decode l doc = Inr v" "cf_version (asConfig v) = 1" by (blast elim: load_raw_steps)
  have "filter (unresolved (ld_env l)) (pieces raw) = []"
    using t(2) by (auto simp: Interpolate_def replace_refs_pieces split: if_splits)
  moreover have "\<not> unknown_key tConfig (hd (yn_content doc)) [] key p" if "yn_kind doc = DocumentNode" for key p
    using walk_complete[of tConfig "hd (yn_content doc)" "[]" key p "ld_enum l"] d(2,3) that by (auto simp: checkKnownFields_def)
  ultimately show ?thesis using t d v(2) by blast
qed

text \<open>A document as the decoder leaves it: version 1 and a database section.\<close>

definition demo_value :: go_val where
  "demo_value = VStruct ((case zero tConfig of VStruct vs \<Rightarrow> vs | _ \<Rightarrow> [])
     [0 := VInt 1,
      5 := VPtr (VStruct ((case zero tDB of VStruct vs \<Rightarrow> vs | _ \<Rightarrow> [])
        [0 := VString ''pg'', 1 := VString ''d'',
         2 := VStruct ((case zero tExecutor of VStruct vs \<Rightarrow> vs | _ \<Rightarrow> []) [1 := VFloat (Fin 50)]),
         6 := VSlice [VStruct ((case zero tQuery of VStruct vs \<Rightarrow> vs | _ \<Rightarrow> [])
           [0 := VString ''q'', 3 := VString ''SELECT 1''])]]))])"

lemma demo_value_record: "asConfig demo_value = demo"
  by (simp add: demo_value_def doc_types doc_views demo_defs configuration.make_def run_section.make_def slo.make_def
      slo_target.make_def safety.make_def db_section.make_def executor_section.make_def query.make_def no_budget_def Version_def)

lemma demo_value_type: "has_type tConfig demo_value"
  by (simp add: demo_value_def doc_types fits_int_def bits_def in_int64_def min_int64_def max_int64_def fits_uint_def)

definition demo_loader :: loader where
  "demo_loader = \<lparr>ld_env = (\<lambda>_. None), ld_files = (\<lambda>_. Contents ''version: 1''), ld_stdin = None,
     ld_parse = (\<lambda>_. Inr (Node DocumentNode [] 1 1 [Node MappingNode [] 1 1 [scalar ''version'', scalar ''1'']])),
     ld_decode = (\<lambda>_. Inr demo_value), ld_enum = id, ld_ended = False\<rparr>"

lemma demo_loads_raw: "load_raw demo_loader (FromFile ''f'') = Inr demo_value"
proof -
  have "Interpolate ''version: 1'' (\<lambda>_. None) = Inr ''version: 1''"
    by (simp add: Interpolate_def match_ref_def)
  moreover have "checkKnownFields id (Node DocumentNode [] 1 1 [Node MappingNode [] 1 1 [scalar ''version'', scalar ''1'']]) tConfig = []"
    by (simp add: checkKnownFields_def walk.simps scalar_def tConfig_def evaluate_paths)
  moreover have "cf_version (asConfig demo_value) = Version" by (simp add: demo_value_record demo_def)
  ultimately show ?thesis by (simp add: load_raw_def demo_loader_def read_source_def)
qed

theorem loaded_witness:
  "Load slo_order demo_loader (FromFile ''f'') = Inr (ApplyDefaults demo) \<and>
   (\<exists>v. Finalise slo_order (asConfig v) = Inr (ApplyDefaults demo) \<and> cf_version (asConfig v) = 1)"
proof -
  have l: "Load slo_order demo_loader (FromFile ''f'') = Inr (ApplyDefaults demo)"
    by (simp add: Load_def demo_loads_raw demo_value_record demo_finished)
  from loaded[OF this] l show ?thesis by blast
qed

end
