(* ===== verification/Plan.thy ===== *)
theory Plan
  imports Load Apply Report
begin

text \<open>
  The command line as far as it decides something: loading the policy (\<open>policy.Load\<close>), \<open>prepare\<close> of
  \<open>internal/cli/commands.go\<close>, the plan of a dry run (\<open>plan.go\<close>), and how an outcome becomes an exit code and a document
  on standard output (\<open>cli.go\<close>). Flags, logging and the text for people are left out.
\<close>

section \<open>The policy file\<close>

text \<open>\<open>read\<close> finds the contents of a file, \<open>decode\<close> is the strict decoder started on \<open>Default\<close>.\<close>

definition EnvVar :: string where "EnvVar = ''TRACEPOINT_POLICY''"

definition policy_path :: "string \<Rightarrow> lookup \<Rightarrow> string" where
  "policy_path path env = (if path = [] then (case env EnvVar of Some v \<Rightarrow> v | None \<Rightarrow> []) else path)"

definition load_policy :: "(string \<Rightarrow> string option) \<Rightarrow> (policy \<Rightarrow> string \<Rightarrow> policy option) \<Rightarrow> string \<Rightarrow> lookup \<Rightarrow> policy result" where
  "load_policy read decode path env =
     (if policy_path path env = [] then Inr Default
      else case read (policy_path path env) of
        None \<Rightarrow> Inl (new_error CodePolicyParse)
      | Some raw \<Rightarrow> (case decode Default raw of
          None \<Rightarrow> Inl (new_error CodePolicyParse)
        | Some p \<Rightarrow>
            if p_version p \<noteq> policy_version then Inl (error_at CodePolicyParse ''/version'')
            else rbind (MaxRunDuration p) (\<lambda>_. Inr p)))"

section \<open>Preparing a run\<close>

record command_env =
  ce_loader :: loader
  ce_source :: source
  ce_policy_file :: "string \<Rightarrow> string option"
  ce_policy_decode :: "policy \<Rightarrow> string \<Rightarrow> policy option"
  ce_policy_path :: string
  ce_float :: "string \<Rightarrow> float64 option"
  ce_quote :: "string \<Rightarrow> string"
  ce_order :: "string list"

text \<open>The document with the overrides: without any, \<open>Load\<close> finishes it; with some, they are applied to it as written.\<close>

definition load_with :: "command_env \<Rightarrow> string list \<Rightarrow> configuration result" where
  "load_with e overrides =
     (if overrides = [] then Load (ce_order e) (ce_loader e) (ce_source e)
      else rbind (load_raw (ce_loader e) (ce_source e)) (\<lambda>v.
        rbind (ApplySet (ce_float e) overrides v) (\<lambda>v'. Finalise (ce_order e) (asConfig v'))))"

definition prepare :: "command_env \<Rightarrow> string list \<Rightarrow> (configuration \<times> policy \<times> warning list) result" where
  "prepare e overrides =
     rbind (load_policy (ce_policy_file e) (ce_policy_decode e) (ce_policy_path e) (ld_env (ce_loader e))) (\<lambda>granted.
       rbind (load_with e overrides) (\<lambda>c.
         rbind (ApplyPolicy (ce_quote e) c granted) (\<lambda>(effective, warnings). Inr (c, effective, warnings))))"

text \<open>What the decoder of the library guarantees: a value of the document's type.\<close>

definition decodes_typed :: "command_env \<Rightarrow> bool" where
  "decodes_typed e \<longleftrightarrow> (\<forall>doc v. ld_decode (ce_loader e) doc = Inr v \<longrightarrow> has_type tConfig v)"

lemma load_raw_decoded: "load_raw l src = Inr v \<Longrightarrow> \<exists>doc. ld_decode l doc = Inr v"
  by (blast elim: load_raw_steps)

lemma ApplySet_has_type: "ApplySet pf os v = Inr v' \<Longrightarrow> has_type tConfig v \<Longrightarrow> has_type tConfig v'"
  using apply_each_resolved resolved_puts_type by (fastforce simp: ApplySet_def split: prod.splits list.splits)

lemma load_with_typed:
  assumes "load_with e overrides = Inr c" "decodes_typed e"
  obtains v where "has_type tConfig v" "Finalise (ce_order e) (asConfig v) = Inr c"
  using assms load_raw_decoded ApplySet_has_type
  by (cases "overrides = []") (auto simp: load_with_def Load_def rbind_Inr decodes_typed_def, blast+)

lemma has_type_part: "has_type (TStruct u fs) v \<Longrightarrow> i < length fs \<Longrightarrow> has_type (gf_type (fs ! i)) (nth_part i v)"
  by (cases v) (auto simp: list_all2_conv_all_nth)

lemma typed_duration: "has_type (TPtr TDuration) v \<Longrightarrow> as_opt as_int v = Some d \<Longrightarrow> in_int64 d"
  by (cases v) (auto split: go_val.splits)

text \<open>A duration of the safety section fits 64 bits, so the wish is one \<open>Tighten\<close> can be held to.\<close>

lemma typed_wish:
  assumes "has_type tConfig v" "sf_max_duration (cf_safety (asConfig v)) = Some d" shows "in_int64 d"
proof -
  have "has_type tSafety (nth_part 3 v)" using has_type_part[of False _ v 3] assms(1) by (force simp: tConfig_def)
  then have "has_type (TPtr TDuration) (nth_part 6 (nth_part 3 v))" using has_type_part[of False _ "nth_part 3 v" 6] by (force simp: tSafety_def)
  moreover have "as_opt as_int (nth_part 6 (nth_part 3 v)) = Some d"
    using assms(2) by (simp add: asConfig_def configuration.make_def asSafety_def safety.make_def)
  ultimately show ?thesis by (rule typed_duration)
qed

lemma finished_safety: "Finalise ord c = Inr c' \<Longrightarrow> cf_safety c' = cf_safety c"
  by (auto simp: Finalise_def ApplyDefaults_def Let_def split: option.splits)

text \<open>C2. From the command line to the load: when \<open>prepare\<close> accepts a document, a policy file and overrides, then whatever
  the overrides were, the run stays inside both the envelope in force and the one a human granted, as long as neither
  states its rate limit as NaN: the rate offered at every instant, the length of the run, the concurrency of an open executor, the statements that
  write or are dangerous, and unverified TLS.\<close>

theorem prepared_inside:
  assumes "prepare e overrides = Inr (c, eff, ws)" "decodes_typed e"
    "load_policy (ce_policy_file e) (ce_policy_decode e) (ce_policy_path e) (ld_env (ce_loader e)) = Inr granted"
    "p_max_rate granted \<noteq> Some NaN" "sf_max_rate (cf_safety c) \<noteq> Some NaN"
    "executor_of c runner = Some ex" "build_schedule c runner rng = Inr s" "p \<in> {eff, granted}"
  shows "permits p (AskRate runner (Fin (RateAt (sc_profile s) t)))
    \<and> permits p (AskDuration (p_duration (sc_profile s)))
    \<and> (xs_type ex = ''arrival-rate'' \<longrightarrow> permits p (AskInFlight runner (xs_max_in_flight ex)))
    \<and> permits p (AskWrites runner (jd_writes (classifyStatements (ce_quote e) c) runner))
    \<and> permits p (AskDangerous runner (jd_dangerous (classifyStatements (ce_quote e) c) runner))
    \<and> is_ok (checkInsecureTLS c p)"
proof -
  from assms(1,3) have l: "load_with e overrides = Inr c" and a: "ApplyPolicy (ce_quote e) c granted = Inr (eff, ws)"
    by (auto simp: prepare_def rbind_Inr)
  from load_with_typed[OF l assms(2)] obtain v where v: "has_type tConfig v" "Finalise (ce_order e) (asConfig v) = Inr c" by blast
  have "sane_policy granted" using assms(4) by (simp add: sane_policy_def)
  moreover have "sane_wish (tightening_of c)"
    using assms(5) typed_wish[OF v(1)] finished_safety[OF v(2)] by (auto simp: sane_wish_def tightening_of_def Let_def)
  ultimately show ?thesis using applied_inside[OF v(2) a _ _ assms(6,7,8)] by blast
qed

definition demo_env :: command_env where
  "demo_env = \<lparr>ce_loader = demo_loader, ce_source = FromFile ''f'', ce_policy_file = (\<lambda>_. Some ''server''),
     ce_policy_decode = (\<lambda>_ _. Some ServerDefault), ce_policy_path = ''policy.yaml'', ce_float = (\<lambda>_. None),
     ce_quote = id, ce_order = slo_order\<rparr>"

lemma demo_policy: "load_policy (ce_policy_file demo_env) (ce_policy_decode demo_env) (ce_policy_path demo_env) (ld_env (ce_loader demo_env)) = Inr ServerDefault"
proof -
  have "parse_duration ''10m'' = Some 600000000000" by code_simp
  then show ?thesis
    by (simp add: load_policy_def policy_path_def demo_env_def ServerDefault_def Default_def MaxRunDuration_def)
qed

lemma demo_prepared: "prepare demo_env [] = Inr (ApplyDefaults demo, ServerDefault, [])"
proof -
  have "load_with demo_env [] = Inr (ApplyDefaults demo)"
    by (simp add: load_with_def Load_def demo_env_def demo_loads_raw demo_value_record demo_finished)
  then show ?thesis using demo_policy demo_applied by (simp add: prepare_def) (simp add: demo_env_def)
qed

theorem prepared_inside_witness:
  "\<exists>s. prepare demo_env [] = Inr (ApplyDefaults demo, ServerDefault, []) \<and> build_schedule (ApplyDefaults demo) ''db'' () = Inr s \<and>
     permits ServerDefault (AskRate ''db'' (Fin (RateAt (sc_profile s) 7))) \<and>
     permits ServerDefault (AskDuration (p_duration (sc_profile s)))"
proof -
  obtain s where s: "executor_of (ApplyDefaults demo) ''db'' = Some (applyExecutorDefaults minute demo_executor)"
    "build_schedule (ApplyDefaults demo) ''db'' () = Inr s" by (rule demo_scheduled)
  have "decodes_typed demo_env" by (simp add: decodes_typed_def demo_env_def demo_loader_def demo_value_type)
  moreover have "p_max_rate ServerDefault \<noteq> Some NaN" by (simp add: ServerDefault_def Default_def)
  moreover have "sf_max_rate (cf_safety (ApplyDefaults demo)) \<noteq> Some NaN"
    by (simp add: ApplyDefaults_def demo_def no_safety_def Let_def)
  ultimately show ?thesis using prepared_inside[OF demo_prepared _ demo_policy _ _ s insertI1, of 7] demo_prepared s(2) by blast
qed

section \<open>The plan of a dry run\<close>

record plan_runner =
  pr_name :: string
  pr_kind :: string
  pr_driver :: string
  pr_executor :: string
  pr_profile :: string
  pr_peak :: float64
  pr_offered :: real
  pr_labels :: "string list"
  pr_writes :: "string list"

record plan_slo =
  ps_runner :: string
  ps_metric :: string
  ps_budget :: string

record plan_safety =
  py_allow_writes :: bool
  py_allow_dangerous :: bool
  py_allow_insecure_tls :: bool
  py_allow_targets :: "string list"
  py_max_rate :: "float64 option"
  py_max_duration :: "string option"

record plan =
  pn_path :: string
  pn_overrides :: "string list"
  pn_duration :: real
  pn_bucket :: real
  pn_warmup :: real
  pn_arrival :: string
  pn_seed :: "int option"
  pn_runners :: "plan_runner list"
  pn_targets :: "string list"
  pn_slo :: "plan_slo list"
  pn_safety :: plan_safety
  pn_warnings :: "warning list"
  pn_total :: real

text \<open>The rates of an accepted configuration are finite, so the sum is one of reals.\<close>

fun offered_loop :: "real \<Rightarrow> real \<Rightarrow> stage list \<Rightarrow> real" where
  "offered_loop acc prev [] = acc"
| "offered_loop acc prev (s # ss) =
     offered_loop (acc + (prev + f_val (st_target s)) / 2 * secs (st_duration s)) (f_val (st_target s)) ss"

definition offeredOperations :: "executor_section \<Rightarrow> real" where
  "offeredOperations e = (if xs_type e = ''vus'' then 0 else offered_loop 0 (f_val (StartRate e)) (xs_stages e))"

text \<open>\<open>fmt_g\<close> and \<open>fmt_pct\<close> are the verbs \<open>%g\<close> and \<open>%.2f%%\<close> of \<open>fmt\<close>.\<close>

record plan_fmt =
  fm_g :: "float64 \<Rightarrow> string"
  fm_pct :: "float64 \<Rightarrow> string"

fun describe_stages :: "plan_fmt \<Rightarrow> float64 \<Rightarrow> stage list \<Rightarrow> string list" where
  "describe_stages fm prev [] = []"
| "describe_stages fm prev (s # ss) =
     (if st_target s = prev
      then ''hold '' @ fm_g fm (st_target s) @ '' for '' @ duration_string (st_duration s)
      else fm_g fm prev @ '' to '' @ fm_g fm (st_target s) @ '' over '' @ duration_string (st_duration s))
     # describe_stages fm (st_target s) ss"

definition describeProfile :: "plan_fmt \<Rightarrow> executor_section \<Rightarrow> string" where
  "describeProfile fm e =
     (if xs_stages e = [] then ''none'' else join (describe_stages fm (StartRate e) (xs_stages e)) '', then '')"

definition plan_runner_of :: "plan_fmt \<Rightarrow> (string \<Rightarrow> string) \<Rightarrow> configuration \<Rightarrow> string \<Rightarrow> executor_section \<Rightarrow> plan_runner" where
  "plan_runner_of fm quote c name ex =
     \<lparr>pr_name = name, pr_kind = Kind name,
      pr_driver = (case cf_db c of Some d \<Rightarrow> (if name = ''db'' then NormaliseDriver (db_driver d) else []) | None \<Rightarrow> []),
      pr_executor = xs_type ex, pr_profile = describeProfile fm ex, pr_peak = peakRate ex,
      pr_offered = offeredOperations ex, pr_labels = Config.Labels c name,
      pr_writes = jd_writes (classifyStatements quote c) name\<rparr>"

definition plan_budgets :: "plan_fmt \<Rightarrow> configuration \<Rightarrow> string \<Rightarrow> plan_slo list" where
  "plan_budgets fm c name =
     (let t = slo_for (cf_slo c) name in
      (case so_p95 t of Some d \<Rightarrow> [\<lparr>ps_runner = name, ps_metric = ''p95'', ps_budget = duration_string d\<rparr>] | None \<Rightarrow> [])
      @ (case so_p99 t of Some d \<Rightarrow> [\<lparr>ps_runner = name, ps_metric = ''p99'', ps_budget = duration_string d\<rparr>] | None \<Rightarrow> [])
      @ (case so_error_rate t of Some x \<Rightarrow> [\<lparr>ps_runner = name, ps_metric = ''error_rate'', ps_budget = fm_pct fm x\<rparr>] | None \<Rightarrow> []))"

definition BuildPlan ::
  "plan_fmt \<Rightarrow> (string \<Rightarrow> string) \<Rightarrow> 'u url_lib \<Rightarrow> configuration \<Rightarrow> policy \<Rightarrow> warning list \<Rightarrow> string \<Rightarrow> string list \<Rightarrow> plan" where
  "BuildPlan fm quote lib c effective ws path overrides =
     (let rs = concat (map (\<lambda>name. case executor_of c name of
                 None \<Rightarrow> [] | Some ex \<Rightarrow> [plan_runner_of fm quote c name ex]) (Runners c))
      in \<lparr>pn_path = path, pn_overrides = overrides, pn_duration = secs (rn_duration (cf_run c)),
          pn_bucket = secs (rn_bucket (cf_run c)), pn_warmup = secs (rn_warmup (cf_run c)),
          pn_arrival = rn_arrival (cf_run c), pn_seed = rn_seed (cf_run c), pn_runners = rs,
          pn_targets = Targets lib c, pn_slo = concat (map (plan_budgets fm c) [''http'', ''db'', ''redis'']),
          pn_safety = \<lparr>py_allow_writes = p_allow_writes effective, py_allow_dangerous = p_allow_dangerous effective,
             py_allow_insecure_tls = p_allow_insecure_tls effective, py_allow_targets = p_allow_targets effective,
             py_max_rate = p_max_rate effective, py_max_duration = p_max_duration effective\<rparr>,
          pn_warnings = ws, pn_total = foldl (\<lambda>acc r. acc + pr_offered r) 0 rs\<rparr>)"

lemma offered_loop_area: "offered_loop acc prev ss = acc + area prev ss"
  by (induction ss arbitrary: acc prev) auto

lemma profile_area: "NewProfile r sts = Inr p \<Longrightarrow> Expected p = area (f_val r) sts"
  using compile_total by (force simp: NewProfile_def Expected_def split: if_splits option.splits)

text \<open>C31. A dry run says what the run will do. For every open executor of an accepted configuration, the number of operations in the
  plan is the number its schedule offers, the rate of the schedule never exceeds the peak in the plan, and the
  schedule lasts the duration in the plan.\<close>

theorem plan_foretells:
  assumes "Finalise ord c0 = Inr c" "pr \<in> set (pn_runners (BuildPlan fm quote lib c effective ws path os))"
    "pr_executor pr = ''arrival-rate''" "build_schedule c (pr_name pr) rng = Inr s" "f_le (pr_peak pr) (Fin m)"
  shows "pr_offered pr = Expected (sc_profile s) \<and> RateAt (sc_profile s) t \<le> m \<and>
    secs (p_duration (sc_profile s)) = pn_duration (BuildPlan fm quote lib c effective ws path os)"
proof -
  from assms(2) obtain name ex where n: "executor_of c name = Some ex" "pr = plan_runner_of fm quote c name ex"
    by (auto simp: BuildPlan_def Let_def split: option.splits intro: sym)
  then have ex: "executor_of c (pr_name pr) = Some ex"
    by (simp_all add: plan_runner_of_def)
  have p: "NewProfile (StartRate ex) (xs_stages ex) = Inr (sc_profile s)" by (rule schedule_profile[OF assms(4) ex(1)])
  then have st: "list_all stage_ok (xs_stages ex)" "xs_stages ex \<noteq> []"
    using profile_accepted[of "StartRate ex" "xs_stages ex"] by auto
  have "xs_type ex = ''arrival-rate''" "peakRate ex = pr_peak pr" "pr_offered pr = offeredOperations ex"
    using n(2) assms(3) by (auto simp: plan_runner_of_def)
  then have "pr_offered pr = area (f_val (StartRate ex)) (xs_stages ex)" by (simp add: offeredOperations_def offered_loop_area)
  moreover have "RateAt (sc_profile s) t \<le> m" using peak_covers[OF st(1) _ p] assms(5) \<open>peakRate ex = pr_peak pr\<close> by simp
  moreover have "p_duration (sc_profile s) = rn_duration (cf_run c)" using finished_profile[OF assms(1) ex(1) st(2)] p by auto
  ultimately show ?thesis using profile_area[OF p] by (simp add: BuildPlan_def Let_def)
qed

theorem plan_foretells_witness:
  "\<forall>fm quote (lib :: unit url_lib). \<exists>pr s. pr \<in> set (pn_runners (BuildPlan fm quote lib (ApplyDefaults demo) ServerDefault [] ''f'' [])) \<and>
     build_schedule (ApplyDefaults demo) ''db'' () = Inr s \<and> pr_offered pr = Expected (sc_profile s)"
proof (intro allI)
  fix fm quote and lib :: "unit url_lib"
  obtain s where s: "executor_of (ApplyDefaults demo) ''db'' = Some (applyExecutorDefaults minute demo_executor)"
    "build_schedule (ApplyDefaults demo) ''db'' () = Inr s" by (rule demo_scheduled)
  define ex where "ex = applyExecutorDefaults minute demo_executor"
  define pr where "pr = plan_runner_of fm quote (ApplyDefaults demo) ''db'' ex"
  have "''db'' \<in> set (Runners (ApplyDefaults demo))" by (simp add: Runners_def demo_parts)
  then have pr: "pr \<in> set (pn_runners (BuildPlan fm quote lib (ApplyDefaults demo) ServerDefault [] ''f'' []))"
    using s(1) by (force simp: BuildPlan_def Let_def pr_def ex_def)
  have ty: "pr_executor pr = ''arrival-rate''" "pr_name pr = ''db''"
    by (simp_all add: pr_def plan_runner_of_def ex_def applyExecutorDefaults_def open_defaults_def closed_defaults_def default_consts demo_executor_def)
  have peak: "f_le (pr_peak pr) (Fin 50)"
    by (simp add: pr_def plan_runner_of_def peakRate_def ex_def defaults_stages defaults_kept demo_executor_def)
  from plan_foretells[OF demo_finished pr ty(1) s(2)[folded ty(2)] peak, of 0] pr s(2)
  show "\<exists>pr s. pr \<in> set (pn_runners (BuildPlan fm quote lib (ApplyDefaults demo) ServerDefault [] ''f'' [])) \<and>
     build_schedule (ApplyDefaults demo) ''db'' () = Inr s \<and> pr_offered pr = Expected (sc_profile s)" by blast
qed

text \<open>A closed executor is shown with nothing offered, but the engine drives it by the same schedule as an open one, with
  the number of users as the rate: what is offered is not zero.\<close>

definition ten_users :: executor_section where
  "ten_users = \<lparr>xs_type = ''vus'', xs_rate = Fin 0, xs_vus = 10,
     xs_stages = [\<lparr>st_duration = minute, st_target = Fin 10\<rparr>], xs_max_in_flight = 0, xs_queue_depth = None, xs_pick = []\<rparr>"

lemma closed_offers:
  "offeredOperations ten_users = 0"
  "\<exists>p. NewProfile (StartRate ten_users) (xs_stages ten_users) = Inr p \<and> Expected p = 600"
proof -
  show "offeredOperations ten_users = 0" by (simp add: offeredOperations_def ten_users_def)
  have r: "StartRate ten_users = Fin 10" by (simp add: StartRate_def ten_users_def vus_target_def)
  have d: "(0 :: int) < minute" by (simp add: duration_units)
  from flat_profile[OF d, of 10] obtain p where
    "NewProfile (Fin 10) [\<lparr>st_duration = minute, st_target = Fin 10\<rparr>] = Inr p" "Expected p = 10 * secs minute" by auto
  moreover have "secs minute = 60" by (simp add: secs_def duration_units)
  ultimately show "\<exists>p. NewProfile (StartRate ten_users) (xs_stages ten_users) = Inr p \<and> Expected p = 600"
    unfolding r by (simp add: ten_users_def)
qed

section \<open>Documents and exit codes\<close>

text \<open>
  What a command puts on standard output. \<open>exit_err\<close> is \<open>exitError\<close>: an outcome that is not a failure of the tool, with
  the code to exit with, and whether what was written already says so.
\<close>

datatype out_doc = PlanDoc plan | ResultDoc result_doc | EnvelopeDoc err_doc | HumanPage

record exit_err =
  xe_code :: int
  xe_err :: "go_error option"
  xe_documented :: bool

datatype cli_error = ExitError exit_err | OtherError go_error

definition outcome_error :: "result_doc \<Rightarrow> bool \<Rightarrow> exit_err option" where
  "outcome_error r allowInvalid =
     (if va_state (an_validity (rs_analysis r)) = ValidityInvalid \<and> \<not> allowInvalid
      then Some \<lparr>xe_code = ExitInvalid, xe_err = Some (Coded (new_error CodeRunInvalid)), xe_documented = True\<rparr>
      else if \<not> sl_pass (an_slo (rs_analysis r))
      then Some \<lparr>xe_code = ExitBreach, xe_err = Some (Coded (new_error CodeSLOBreach)), xe_documented = True\<rparr>
      else None)"

text \<open>\<open>report\<close>: the code, and the envelope when nothing has been written yet and JSON is wanted.\<close>

definition report :: "bool \<Rightarrow> bool \<Rightarrow> cli_error \<Rightarrow> int \<times> out_doc list" where
  "report json writable e =
     (let envelopes = (\<lambda>err. if json \<and> writable then [EnvelopeDoc (envelope_of err)] else [])
      in case e of
        ExitError x \<Rightarrow> (case xe_err x of
            None \<Rightarrow> (xe_code x, [])
          | Some err \<Rightarrow>
              (if xe_code x \<noteq> 0 then xe_code x else exit_code_of (Some err),
               if xe_documented x then [] else envelopes err))
      | OtherError err \<Rightarrow> (exit_code_of (Some err), envelopes err))"

text \<open>
  \<open>runRun\<close>, given what it calls: the outcome of \<open>prepare\<close>, of the engine, and of saving the result when that was asked for.
\<close>

record run_world =
  rw_prepared :: "(configuration \<times> policy \<times> warning list) result"
  rw_plan :: "configuration \<Rightarrow> policy \<Rightarrow> warning list \<Rightarrow> plan"
  rw_engine :: "configuration \<Rightarrow> policy \<Rightarrow> warning list \<Rightarrow> go_error + result_doc"
  rw_save :: "result_doc \<Rightarrow> go_error option"
  rw_writable :: bool

record run_options =
  ro_json :: bool
  ro_dry_run :: bool
  ro_allow_invalid :: bool

definition write_failed :: "cli_error option" where
  "write_failed = Some (OtherError (Coded (new_error CodeIOWriteFailed)))"

definition runRun :: "run_world \<Rightarrow> run_options \<Rightarrow> out_doc list \<times> cli_error option" where
  "runRun w opts =
     (case rw_prepared w of
        Inl e \<Rightarrow> ([], Some (OtherError (Coded e)))
      | Inr (c, eff, ws) \<Rightarrow>
          if ro_dry_run opts
          then (if rw_writable w then ([if ro_json opts then PlanDoc (rw_plan w c eff ws) else HumanPage], None) else ([], write_failed))
          else (case rw_engine w c eff ws of
            Inl err \<Rightarrow> ([], Some (OtherError err))
          | Inr res \<Rightarrow> (case rw_save w res of
              Some err \<Rightarrow> ([], Some (OtherError err))
            | None \<Rightarrow>
                if rw_writable w
                then ([if ro_json opts then ResultDoc res else HumanPage],
                      map_option ExitError (outcome_error res (ro_allow_invalid opts)))
                else ([], write_failed))))"

definition Execute :: "run_world \<Rightarrow> run_options \<Rightarrow> int \<times> out_doc list" where
  "Execute w opts =
     (case runRun w opts of
        (docs, None) \<Rightarrow> (ExitOK, docs)
      | (docs, Some e) \<Rightarrow> (case report (ro_json opts) (rw_writable w) e of (code, docs') \<Rightarrow> (code, docs @ docs')))"

lemma outcome_error_code:
  "(case outcome_error r allow of None \<Rightarrow> ExitOK | Some x \<Rightarrow> fst (report json writable (ExitError x))) = outcomeExit r allow"
  "outcome_error r allow = Some x \<Longrightarrow> snd (report json writable (ExitError x)) = []"
  by (auto simp: outcome_error_def outcomeExit_def report_def ExitInvalid_def ExitBreach_def split: if_splits)

lemma failure_codes: "exit_code_of (Some err) \<noteq> ExitOK" "exit_code_of (Some err) = d_exit_code (envelope_of err)"
proof -
  show "exit_code_of (Some err) \<noteq> ExitOK" by (simp add: only_success_exits_zero)
  show "exit_code_of (Some err) = d_exit_code (envelope_of err)"
    by (cases "as_coded err") (simp_all add: exit_code_of_def envelope_of_def envelope_def exit_code_def meta_of_def registry_def)
qed

text \<open>With \<open>--output json\<close> and a stream that can be written, a run puts exactly one document on standard output, whatever
  happens: the plan of a dry run and code 0, the result with the code that its validity and its budgets
  give, or an envelope that names the code the process exits with, which is then never 0.\<close>

theorem one_document:
  assumes "ro_json opts" "rw_writable w" "Execute w opts = (code, docs)"
  shows "\<exists>d. docs = [d] \<and> (case d of
      PlanDoc p \<Rightarrow> ro_dry_run opts \<and> code = ExitOK
    | ResultDoc r \<Rightarrow> \<not> ro_dry_run opts \<and> code = outcomeExit r (ro_allow_invalid opts)
    | EnvelopeDoc x \<Rightarrow> d_exit_code x = code \<and> code \<noteq> ExitOK
    | HumanPage \<Rightarrow> False)"
proof -
  have env: "\<exists>d. docs = [d] \<and> (case d of EnvelopeDoc x \<Rightarrow> d_exit_code x = code \<and> code \<noteq> ExitOK | _ \<Rightarrow> False)"
    if "runRun w opts = ([], Some (OtherError err))" for err
    using assms that failure_codes[of err] by (auto simp: Execute_def report_def)
  show ?thesis
  proof (cases "rw_prepared w")
    case (Inl e)
    then have "runRun w opts = ([], Some (OtherError (Coded e)))" by (simp add: runRun_def)
    from env[OF this] show ?thesis by (auto split: out_doc.splits)
  next
    case (Inr p)
    obtain c eff ws where p: "p = (c, eff, ws)" by (cases p)
    show ?thesis
    proof (cases "ro_dry_run opts")
      case True
      with Inr p assms show ?thesis by (auto simp: Execute_def runRun_def)
    next
      case False
      show ?thesis
      proof (cases "rw_engine w c eff ws")
        case (Inl err)
        with Inr p False have "runRun w opts = ([], Some (OtherError err))" by (simp add: runRun_def)
        from env[OF this] show ?thesis by (auto split: out_doc.splits)
      next
        case (Inr res)
        show ?thesis
        proof (cases "rw_save w res")
          case None
          with Inr \<open>rw_prepared w = Inr p\<close> p False assms(1,2)
          have r: "runRun w opts = ([ResultDoc res], map_option ExitError (outcome_error res (ro_allow_invalid opts)))"
            by (simp add: runRun_def)
          show ?thesis
            using outcome_error_code[where r = res and allow = "ro_allow_invalid opts" and json = True and writable = True] assms r False
            by (cases "outcome_error res (ro_allow_invalid opts)") (auto simp: Execute_def split: prod.splits)
        next
          case (Some err)
          with Inr \<open>rw_prepared w = Inr p\<close> p False have "runRun w opts = ([], Some (OtherError err))" by (simp add: runRun_def)
          from env[OF this] show ?thesis by (auto split: out_doc.splits)
        qed
      qed
    qed
  qed
qed

definition no_url_lib :: "unit url_lib" where
  "no_url_lib = \<lparr>ul_parse = (\<lambda>_. None), ul_resolve = (\<lambda>_ _. None), ul_string = (\<lambda>_. []), ul_hostname = (\<lambda>_. [])\<rparr>"

definition refusing_world :: run_world where
  "refusing_world = \<lparr>rw_prepared = Inl (new_error CodeConfigNoRunner), rw_plan = (\<lambda>c eff ws. BuildPlan \<lparr>fm_g = (\<lambda>_. []), fm_pct = (\<lambda>_. [])\<rparr> id no_url_lib c eff ws ''f'' []),
      rw_engine = (\<lambda>_ _ _. Inl Foreign),
     rw_save = (\<lambda>_. None), rw_writable = True\<rparr>"

theorem one_document_witness:
  "\<exists>x. Execute refusing_world \<lparr>ro_json = True, ro_dry_run = False, ro_allow_invalid = False\<rparr> = (2, [EnvelopeDoc x]) \<and>
     d_exit_code x = 2 \<and> (2 :: int) \<noteq> ExitOK"
proof -
  let ?o = "\<lparr>ro_json = True, ro_dry_run = False, ro_allow_invalid = False\<rparr>"
  have e: "Execute refusing_world ?o = (2, [EnvelopeDoc (envelope (new_error CodeConfigNoRunner))])"
    by (simp add: Execute_def runRun_def refusing_world_def report_def envelope_of_def exit_code_of_def exit_code_def meta_of_def
        registry_def ExitUsage_def)
  have "ro_json ?o" "rw_writable refusing_world" by (simp_all add: refusing_world_def)
  from one_document[OF this e] e show ?thesis by auto
qed

end
