(* ===== verification/Engine.thy ===== *)
theory Engine
  imports Runners ReportFacts Apply Redact Guard
begin

text \<open>
  \<open>internal/engine/engine.go\<close>: what a run is wired from. The seed and the identity of a run, the collectors and
  runners that are built, the preflight with the order in which anything is contacted, the executors, the ways a
  run ends, and the result that is built from what was recorded. The clock, goroutines and logging are left out;
  a run of the executors is the step relation of \<open>Executor\<close>.
\<close>

section \<open>Options, seed and identity\<close>

record engine_options =
  eo_config :: "configuration option"
  eo_overrides :: "string list"
  eo_run_id :: string
  eo_seed :: "int option"
  eo_policy :: policy
  eo_warnings :: "Report.finding list"

record engine =
  en_config :: configuration
  en_run_id :: string
  en_seed :: int
  en_policy :: policy
  en_warnings :: "Report.finding list"

text \<open>
  \<open>NewRunID\<close>: a time stamp and the low 24 bits of a number drawn from the seed and the time, in six hexadecimal digits.
  \<open>stamp\<close> is \<open>time.Format\<close>, \<open>pcg\<close> the first number of the generator.
\<close>

definition hex6 :: "nat \<Rightarrow> string" where
  "hex6 n = map (\<lambda>k. hexDigits ! ((n div 16 ^ (5 - k)) mod 16)) [0..<6]"

definition NewRunID :: "('t \<Rightarrow> string) \<Rightarrow> (int \<Rightarrow> 't \<Rightarrow> nat) \<Rightarrow> 't \<Rightarrow> int \<Rightarrow> string" where
  "NewRunID stamp pcg now seed = stamp now @ ''-'' @ hex6 (pcg seed now mod 16777216)"

definition New_engine :: "('t \<Rightarrow> string) \<Rightarrow> (int \<Rightarrow> 't \<Rightarrow> nat) \<Rightarrow> 't \<Rightarrow> int \<Rightarrow> engine_options \<Rightarrow> engine result" where
  "New_engine stamp pcg now drawn opts =
     (case eo_config opts of
        None \<Rightarrow> Inl (new_error CodeInternal)
      | Some c \<Rightarrow>
          let seed = (case eo_seed opts of Some s \<Rightarrow> s | None \<Rightarrow> (case rn_seed (cf_run c) of Some s \<Rightarrow> s | None \<Rightarrow> drawn))
          in Inr \<lparr>en_config = c, en_run_id = (if eo_run_id opts = [] then NewRunID stamp pcg now seed else eo_run_id opts),
                  en_seed = seed, en_policy = eo_policy opts, en_warnings = eo_warnings opts\<rparr>)"

section \<open>Collectors and runners\<close>

definition guard_of :: "configuration \<Rightarrow> guard" where
  "guard_of c =
     (case sf_abort_guard (cf_safety c) of
        None \<Rightarrow> NewAbortGuard True DefaultAbortRatio DefaultAbortWindow
      | Some g \<Rightarrow> NewAbortGuard (case ag_enabled g of Some b \<Rightarrow> b | None \<Rightarrow> True)
          (case ag_error_ratio g of Some x \<Rightarrow> f_val x | None \<Rightarrow> DefaultAbortRatio)
          (case ag_window g of Some w \<Rightarrow> w | None \<Rightarrow> DefaultAbortWindow))"

definition kind_of :: "string \<Rightarrow> kind" where
  "kind_of name = (if Kind name = ''app'' then KindApp else KindStorage)"

definition collector_config :: "configuration \<Rightarrow> string \<Rightarrow> config" where
  "collector_config c name =
     \<lparr>cf_runner = name, cf_kind = kind_of name, cf_labels = Config.Labels c name, cf_width = rn_bucket (cf_run c),
      cf_warmup = rn_warmup (cf_run c), cf_seal_delay = rn_timeout (cf_run c), cf_min_samples = rn_min_samples (cf_run c),
      cf_accuracy = 0, cf_budget = 0, cf_track = (name = ''http'')\<rparr>"

datatype ('s, 'p, 'k) any_runner =
    HTTPRunner "('s, 'p, 'k) http_runner"
  | SQLRunner sql_runner
  | RedisRunner "('p, 'k) redis_runner"

text \<open>What the runners need of the world: URLs, certificates, drivers, sketches and the printer.\<close>

record ('u, 's, 'p, 'k, 'r) engine_lib =
  el_world :: "'u world"
  el_certs :: "('p, 'k) cert_lib"
  el_sketches :: "'s sketch_ops"
  el_tag_url :: "string \<Rightarrow> string \<Rightarrow> string option"
  el_open_db :: "string \<Rightarrow> string \<Rightarrow> bool"
  el_sprint :: "yaml val \<Rightarrow> string"
  el_source :: "int \<Rightarrow> nat \<Rightarrow> 'r"
  el_draw :: "'r \<Rightarrow> real \<times> 'r"
  el_env :: "'r sql_env"

definition sql_deps_of :: "('u, 's, 'p, 'k, 'r) engine_lib \<Rightarrow> engine \<Rightarrow> sql_deps" where
  "sql_deps_of lib e = \<lparr>sd_run_id = en_run_id e, sd_timeout = rn_timeout (cf_run (en_config e)), sd_sprint = el_sprint lib\<rparr>"

definition new_runner ::
  "('u, 's, 'p, 'k, 'r) engine_lib \<Rightarrow> engine \<Rightarrow> string \<Rightarrow> 's collector \<Rightarrow> (('s, 'p, 'k) any_runner \<times> 's collector) result" where
  "new_runner lib e name col =
     (let c = en_config e; timeout = rn_timeout (cf_run c)
      in if name = ''http'' then
           rbind (New_http (el_world lib) (el_certs lib) (Some (el_sketches lib)) (cf_http c) timeout col) (\<lambda>(r, col'). Inr (HTTPRunner r, col'))
         else if name = ''db'' then
           rbind (New_sql (el_tag_url lib) (el_open_db lib) (cf_db c) (sql_deps_of lib e) col) (\<lambda>(r, col'). Inr (SQLRunner r, col'))
         else if name = ''redis'' then
           rbind (New_redis (el_certs lib) (en_run_id e) (cf_redis c) timeout col) (\<lambda>(r, col'). Inr (RedisRunner r, col'))
         else Inl (new_error CodeConfigInvalidValue))"

record ('s, 'p, 'k) bound_runner =
  bn_name :: string
  bn_runner :: "('s, 'p, 'k) any_runner"
  bn_collector :: "'s collector"
  bn_targets :: "target list"

fun build_each :: "('u, 's, 'p, 'k, 'r) engine_lib \<Rightarrow> engine \<Rightarrow> string list \<Rightarrow> ('s, 'p, 'k) bound_runner list result" where
  "build_each lib e [] = Inr []"
| "build_each lib e (name # ns) =
     rbind (NewCollector (el_sketches lib) (collector_config (en_config e) name)) (\<lambda>col.
       rbind (new_runner lib e name col) (\<lambda>(r, col').
         rbind (build_each lib e ns) (\<lambda>brs.
           Inr (\<lparr>bn_name = name, bn_runner = r, bn_collector = col', bn_targets = []\<rparr> # brs))))"

definition build :: "('u, 's, 'p, 'k, 'r) engine_lib \<Rightarrow> engine \<Rightarrow> ('s, 'p, 'k) bound_runner list result" where
  "build lib e =
     rbind (build_each lib e (Runners (en_config e))) (\<lambda>brs. if brs = [] then Inl (new_error CodeConfigNoRunner) else Inr brs)"

section \<open>Labels\<close>

text \<open>A configured label that has no index was cut off, and then the overflow is known already: asking for it again
  changes nothing.\<close>

lemma collect_labels_keep: "collect_labels ls (ns, over) = (ns', over') \<Longrightarrow> set ns \<subseteq> set ns' \<and> (over \<longrightarrow> over')"
  by (induction ls "(ns, over)" arbitrary: ns over rule: collect_labels.induct) (auto split: if_splits)

lemma collect_labels_all: "collect_labels ls (ns, over) = (ns', over') \<Longrightarrow> over' \<or> set ls \<subseteq> set ns'"
proof (induction ls "(ns, over)" arbitrary: ns over rule: collect_labels.induct)
  case (2 name rest ns over)
  show ?case
  proof (cases "MaxLabels \<le> length ns")
    case False
    then show ?thesis
      using 2(1)[OF False] 2(2)[OF False] 2(3) collect_labels_keep[of rest "ns @ [name]" over ns' over'] collect_labels_keep[of rest ns over ns' over']
      by (auto split: if_splits)
  qed (use 2(3) in auto)
qed simp

lemma LabelID_configured:
  assumes "NewCollector ops cfg = Inr c" "name \<in> set (cf_labels cfg)"
  obtains i where "LabelID name c = (i, c)" "co_overflowed c \<or> co_names c ! i = name"
proof -
  obtain labs over where cl: "collect_labels (cf_labels (withDefaults cfg)) ([], False) = (labs, over)"
    by (cases "collect_labels (cf_labels (withDefaults cfg)) ([], False)")
  have l: "cf_labels (withDefaults cfg) = cf_labels cfg" by (simp add: withDefaults_def)
  have c: "co_names c = labs @ [OverflowLabel]" "co_overflowed c = over"
    "co_ids c = (index_names labs)(OverflowLabel \<mapsto> length labs)"
    using assms(1) cl by (auto simp: NewCollector_def Let_def split: option.splits)
  show ?thesis
  proof (cases "name = OverflowLabel")
    case True
    with c that[of "length labs"] show ?thesis by (simp add: LabelID_def)
  next
    case False
    show ?thesis
    proof (cases "index_names labs name")
      case None
      then have "name \<notin> set labs" by (simp add: index_names_def map_of_zip_is_None)
      with collect_labels_all[OF cl] assms(2) have over by (auto simp: l)
      with c None False that[of "co_overflow c"] show ?thesis by (simp add: LabelID_def)
    next
      case (Some i)
      then have "i < length labs" "labs ! i = name"
        by (auto simp: index_names_def dest!: map_of_SomeD in_set_zip[THEN iffD1])
      with c Some False that[of i] show ?thesis by (simp add: LabelID_def nth_append)
    qed
  qed
qed

text \<open>So compiling a runner whose names are among the labels leaves its collector as it was made, and each operation's
  index is that of its name, unless there are more labels than are kept apart.\<close>

definition booked :: "'s collector \<Rightarrow> string \<Rightarrow> int \<Rightarrow> bool" where
  "booked c name i \<longleftrightarrow> co_overflowed c \<or> 0 \<le> i \<and> co_names c ! nat i = name"

lemma compile_steps_booked:
  assumes "NewCollector ops cfg = Inr c"
  shows "compile_steps wd h t ss c = Inr (qs, c') \<Longrightarrow> hs_name ` set ss \<subseteq> set (cf_labels cfg) \<Longrightarrow>
    c' = c \<and> (\<forall>q \<in> set qs. booked c (rq_name q) (rq_label q))"
proof (induction ss arbitrary: qs c')
  case (Cons src ss)
  obtain i where i: "LabelID (hs_name src) c = (i, c)" "co_overflowed c \<or> co_names c ! i = hs_name src"
    using LabelID_configured[OF assms, of "hs_name src"] Cons.prems(2) by auto
  with Cons.prems(1) obtain q qs' where q: "compile_step wd h t src = Inr q" "compile_steps wd h t ss c = Inr (qs', c')"
    "qs = q\<lparr>rq_label := int i\<rparr> # qs'" by (auto simp: rbind_Inr)
  have "rq_name q = hs_name src" using q(1) by (auto simp: compile_step_def rbind_Inr Let_def split: if_splits option.splits)
  with Cons.IH[OF q(2)] Cons.prems(2) q(3) i(2) show ?case by (auto simp: booked_def)
qed simp

lemma compile_queries_booked:
  assumes "NewCollector ops cfg = Inr c"
  shows "compile_queries s d qs c = Inr (us, c') \<Longrightarrow> qu_name ` set qs \<subseteq> set (cf_labels cfg) \<Longrightarrow>
    c' = c \<and> (\<forall>u \<in> set us. booked c (un_name u) (un_label u))"
proof (induction qs arbitrary: us c')
  case (Cons q qs)
  obtain i where i: "LabelID (qu_name q) c = (i, c)" "co_overflowed c \<or> co_names c ! i = qu_name q"
    using LabelID_configured[OF assms, of "qu_name q"] Cons.prems(2) by auto
  with Cons.prems(1) obtain u us' where u: "compile_query s d q c = Inr (u, c)" "compile_queries s d qs c = Inr (us', c')"
    "us = u # us'" "un_name u = qu_name q" "un_label u = int i" by (auto simp: rbind_Inr compile_query_def)
  with Cons.IH[OF u(2)] Cons.prems(2) i(2) show ?case by (auto simp: booked_def)
qed simp

lemma compile_commands_booked:
  assumes "NewCollector ops cfg = Inr c"
  shows "compile_commands t ks c = Inr (cs, c') \<Longrightarrow> rc_name ` set ks \<subseteq> set (cf_labels cfg) \<Longrightarrow>
    c' = c \<and> (\<forall>k \<in> set cs. booked c (cm_name k) (cm_label k))"
proof (induction ks arbitrary: cs c')
  case (Cons k ks)
  obtain i where i: "LabelID (rc_name k) c = (i, c)" "co_overflowed c \<or> co_names c ! i = rc_name k"
    using LabelID_configured[OF assms, of "rc_name k"] Cons.prems(2) by auto
  with Cons.prems(1) obtain m cs' where m: "compile_command t k c = Inr (m, c)" "compile_commands t ks c = Inr (cs', c')"
    "cs = m # cs'" "cm_name m = rc_name k" "cm_label m = int i" by (auto simp: rbind_Inr compile_command_def)
  with Cons.IH[OF m(2)] Cons.prems(2) i(2) show ?case by (auto simp: booked_def)
qed simp

fun labelled :: "'s collector \<Rightarrow> ('s, 'p, 'k) any_runner \<Rightarrow> bool" where
  "labelled c (HTTPRunner r) \<longleftrightarrow> (\<forall>q \<in> set (hr_requests r). booked c (rq_name q) (rq_label q))"
| "labelled c (SQLRunner r) \<longleftrightarrow> (\<forall>u \<in> set (sr_units r). booked c (un_name u) (un_label u))"
| "labelled c (RedisRunner r) \<longleftrightarrow> (\<forall>k \<in> set (redis_runner.rr_commands r). booked c (cm_name k) (cm_label k))"

lemma new_runner_booked:
  assumes "NewCollector (el_sketches lib) (collector_config (en_config e) name) = Inr c" "new_runner lib e name c = Inr (r, c')"
  shows "c' = c \<and> labelled c r"
proof -
  have labs: "cf_labels (collector_config (en_config e) n) = Config.Labels (en_config e) n" for n
    by (simp add: collector_config_def)
  consider "name = ''http''" | "name = ''db''" | "name = ''redis''"
    using assms(2) by (auto simp: new_runner_def Let_def split: if_splits)
  then show ?thesis
  proof cases
    case 1
    then obtain h qs cl b st where x: "cf_http (en_config e) = Some h" "r = HTTPRunner \<lparr>hr_requests = qs,
        hr_picker = NewWeighted (map (\<lambda>s. f_val (weightOr (hs_weight s))) (ht_requests h)), hr_phases = st, hr_client = cl, hr_insecure = b\<rparr>"
      "compile_steps (el_world lib) h (rn_timeout (cf_run (en_config e))) (ht_requests h) c = Inr (qs, c')"
      using assms(2) by (auto simp: new_runner_def New_http_def rbind_Inr Let_def split: option.splits if_splits)
    then show ?thesis using compile_steps_booked[OF assms(1) x(3)] 1 x(1,2) by (simp add: labs Config.Labels_def)
  next
    case 2
    then obtain d us p q where x: "cf_db (en_config e) = Some d" "r = SQLRunner \<lparr>sr_units = us, sr_picker = p, sr_driver = q,
        sr_pool = configurePool d, sr_reads = 0, sr_writes = 0\<rparr>"
      "compile_queries d (sql_deps_of lib e) (db_queries d) c = Inr (us, c')"
      using assms(2) by (auto simp: new_runner_def New_sql_def rbind_Inr Let_def split: option.splits if_splits)
    then show ?thesis using compile_queries_booked[OF assms(1) x(3)] 2 x(1,2) by (simp add: labs Config.Labels_def)
  next
    case 3
    then obtain s ks p o' where x: "cf_redis (en_config e) = Some s" "r = RedisRunner \<lparr>rr_commands = ks, rr_picker = p, rr_options = o',
        rr_reads = 0, rr_writes = 0\<rparr>"
      "compile_commands (rn_timeout (cf_run (en_config e))) (rd_commands s) c = Inr (ks, c')"
      using assms(2) by (auto simp: new_runner_def New_redis_def rbind_Inr Let_def split: option.splits if_splits)
    then show ?thesis using compile_commands_booked[OF assms(1) x(3)] 3 x(1,2) by (simp add: labs Config.Labels_def)
  qed
qed

definition fresh :: "('u, 's, 'p, 'k, 'r) engine_lib \<Rightarrow> engine \<Rightarrow> ('s, 'p, 'k) bound_runner \<Rightarrow> bool" where
  "fresh lib e br \<longleftrightarrow> NewCollector (el_sketches lib) (collector_config (en_config e) (bn_name br)) = Inr (bn_collector br)
     \<and> new_runner lib e (bn_name br) (bn_collector br) = Inr (bn_runner br, bn_collector br)
     \<and> labelled (bn_collector br) (bn_runner br) \<and> bn_targets br = []"

lemma build_each_fresh:
  "build_each lib e ns = Inr brs \<Longrightarrow> map bn_name brs = ns \<and> (\<forall>br \<in> set brs. fresh lib e br)"
proof (induction ns arbitrary: brs)
  case (Cons name ns)
  then obtain c r c' brs' where b: "NewCollector (el_sketches lib) (collector_config (en_config e) name) = Inr c"
    "new_runner lib e name c = Inr (r, c')" "build_each lib e ns = Inr brs'"
    "brs = \<lparr>bn_name = name, bn_runner = r, bn_collector = c', bn_targets = []\<rparr> # brs'" by (auto simp: rbind_Inr)
  then show ?case using Cons.IH[OF b(3)] new_runner_booked[OF b(1,2)] by (auto simp: fresh_def)
qed simp

lemma build_fresh: "build lib e = Inr brs \<Longrightarrow> map bn_name brs = Runners (en_config e) \<and> brs \<noteq> [] \<and> (\<forall>br \<in> set brs. fresh lib e br)"
  using build_each_fresh by (fastforce simp: build_def rbind_Inr split: if_splits)

section \<open>Preflight\<close>

text \<open>Who is trail before the run: hosts that are resolved and judged, then runners that connect and probe.\<close>

datatype contact = Judged string | Contacted string

text \<open>What answers during preflight: the resolver, the targets of the requests, the database and the cache.\<close>

record peers =
  pe_lookup :: "string \<Rightarrow> string list option"
  pe_http :: "request \<Rightarrow> bool \<times> reply"
  pe_db_answers :: bool
  pe_db_parses :: "string \<Rightarrow> bool"
  pe_redis_answers :: bool

definition urls_of :: "'u world \<Rightarrow> 'u url_lib" where
  "urls_of wd = \<lparr>ul_parse = wd_parse wd, ul_resolve = wd_resolve wd, ul_string = wd_string wd, ul_hostname = wd_hostname wd\<rparr>"

definition Prepare :: "peers \<Rightarrow> ('u, 's, 'p, 'k, 'r) engine_lib \<Rightarrow> engine \<Rightarrow> ('s, 'p, 'k) any_runner \<Rightarrow> ('s, 'p, 'k) any_runner result" where
  "Prepare w lib e run =
     (case run of
        HTTPRunner r \<Rightarrow> rbind (Prepare_http (pe_http w) (hr_requests r)) (\<lambda>_. Inr (HTTPRunner r))
      | SQLRunner r \<Rightarrow>
          let mark = (\<lambda>label. case cf_db (en_config e) of Some d \<Rightarrow> mark_of d (sql_deps_of lib e) label | None \<Rightarrow> [])
          in rbind (Prepare_sql (pe_db_answers w) (pe_db_parses w) mark r) (\<lambda>r'. Inr (SQLRunner r'))
      | RedisRunner r \<Rightarrow> (case cf_redis (en_config e) of
            Some s \<Rightarrow> rbind (Prepare_redis (pe_redis_answers w) s) (\<lambda>_. Inr (RedisRunner r))
          | None \<Rightarrow> Inr (RedisRunner r)))"

fun check_hosts ::
  "(string \<Rightarrow> string list option) \<Rightarrow> policy \<Rightarrow> string list \<Rightarrow> (string \<rightharpoonup> target) \<Rightarrow> contact list \<times> (string \<rightharpoonup> target) result" where
  "check_hosts lookup p [] m = ([], Inr m)"
| "check_hosts lookup p (h # hs) m =
     (case rbind (Resolve lookup h) (\<lambda>t. rbind (CheckTarget p t) (\<lambda>_. Inr t)) of
        Inl err \<Rightarrow> ([Judged h], Inl err)
      | Inr t \<Rightarrow> (case check_hosts lookup p hs (m(h \<mapsto> t)) of (trail, r) \<Rightarrow> (Judged h # trail, r)))"

text \<open>\<open>Targets\<close> reads the three sections only, so the configuration of one section is the whole without the others.\<close>

definition hostsFor :: "('u, 's, 'p, 'k, 'r) engine_lib \<Rightarrow> engine \<Rightarrow> ('s, 'p, 'k) bound_runner list \<Rightarrow> string \<Rightarrow> string list" where
  "hostsFor lib e brs name =
     (let c = en_config e; urls = urls_of (el_world lib)
      in if name = ''http'' then
           (case List.map_filter (\<lambda>br. if bn_name br = name then (case bn_runner br of HTTPRunner h \<Rightarrow> Some h | _ \<Rightarrow> None) else None) brs of
              [] \<Rightarrow> [] | h # _ \<Rightarrow> http_targets (el_world lib) h)
         else if name = ''db'' then (if cf_db c = None then [] else Targets urls (c\<lparr>cf_http := None, cf_redis := None\<rparr>))
         else if name = ''redis'' then (if cf_redis c = None then [] else Targets urls (c\<lparr>cf_http := None, cf_db := None\<rparr>))
         else [])"

fun prepare_all ::
  "peers \<Rightarrow> ('u, 's, 'p, 'k, 'r) engine_lib \<Rightarrow> engine \<Rightarrow> (string \<rightharpoonup> target) \<Rightarrow> (string \<Rightarrow> string list) \<Rightarrow>
   ('s, 'p, 'k) bound_runner list \<Rightarrow> contact list \<times> ('s, 'p, 'k) bound_runner list result" where
  "prepare_all w lib e targets hosts [] = ([], Inr [])"
| "prepare_all w lib e targets hosts (br # brs) =
     (case Prepare w lib e (bn_runner br) of
        Inl err \<Rightarrow> ([Contacted (bn_name br)], Inl err)
      | Inr r \<Rightarrow> (case prepare_all w lib e targets hosts brs of (trail, res) \<Rightarrow>
          (Contacted (bn_name br) # trail,
           rbind res (\<lambda>brs'. Inr (br\<lparr>bn_runner := r,
             bn_targets := bn_targets br @ List.map_filter targets (hosts (bn_name br))\<rparr> # brs')))))"

definition preflight ::
  "peers \<Rightarrow> ('u, 's, 'p, 'k, 'r) engine_lib \<Rightarrow> engine \<Rightarrow> ('s, 'p, 'k) bound_runner list \<Rightarrow>
   contact list \<times> ('s, 'p, 'k) bound_runner list result" where
  "preflight w lib e brs =
     (case check_hosts (pe_lookup w) (en_policy e) (Targets (urls_of (el_world lib)) (en_config e)) Map.empty of
        (trail, Inl err) \<Rightarrow> (trail, Inl err)
      | (trail, Inr targets) \<Rightarrow>
          (case prepare_all w lib e targets (hostsFor lib e brs) brs of (trail', r) \<Rightarrow> (trail @ trail', r)))"

text \<open>A host the policy admits, with what it resolved to.\<close>

definition admitted :: "(string \<Rightarrow> string list option) \<Rightarrow> policy \<Rightarrow> string \<Rightarrow> target \<Rightarrow> bool" where
  "admitted lookup p h t \<longleftrightarrow> Resolve lookup h = Inr t \<and> CheckTarget p t = Inr ()"

lemma prefix_step: "\<exists>js. log' = map f js \<and> prefix js xs \<Longrightarrow> \<exists>js. f x # log' = map f js \<and> prefix js (x # xs)"
  by (metis Cons_prefix_Cons list.simps(9))

lemma check_hosts_judges:
  assumes "check_hosts lookup p hs m = (trail, r)"
  shows "(\<exists>js. trail = map Judged js \<and> prefix js hs) \<and>
    (\<forall>m'. r = Inr m' \<longrightarrow> trail = map Judged hs \<and> (\<forall>h \<in> set hs. \<exists>t. admitted lookup p h t) \<and>
       (\<forall>h t. m' h = Some t \<longrightarrow> m h = Some t \<or> h \<in> set hs \<and> admitted lookup p h t))"
  using assms
proof (induction hs arbitrary: m trail)
  case (Cons h hs)
  show ?case
  proof (cases "rbind (Resolve lookup h) (\<lambda>t. rbind (CheckTarget p t) (\<lambda>_. Inr t))")
    case (Inl err)
    with Cons.prems have "trail = map Judged [h]" "r = Inl err" by auto
    then show ?thesis by (auto intro!: exI[of _ "[h]"])
  next
    case (Inr t)
    then have t: "admitted lookup p h t" by (auto simp: admitted_def rbind_Inr)
    obtain trail' where c: "check_hosts lookup p hs (m(h \<mapsto> t)) = (trail', r)" "trail = Judged h # trail'"
      using Cons.prems Inr by (auto split: prod.splits)
    note IH = Cons.IH[OF c(1)]
    have "\<exists>js. trail = map Judged js \<and> prefix js (h # hs)" unfolding c(2) using IH by (intro prefix_step) blast
    moreover have "\<forall>m'. r = Inr m' \<longrightarrow> trail = map Judged (h # hs) \<and> (\<forall>h \<in> set (h # hs). \<exists>t. admitted lookup p h t) \<and>
       (\<forall>k u. m' k = Some u \<longrightarrow> m k = Some u \<or> k \<in> set (h # hs) \<and> admitted lookup p k u)"
    proof (intro allI impI conjI)
      fix m' assume r: "r = Inr m'"
      show "trail = map Judged (h # hs)" "\<forall>h \<in> set (h # hs). \<exists>t. admitted lookup p h t" using IH r c(2) t by auto
      fix k u assume "m' k = Some u"
      then have "(m(h \<mapsto> t)) k = Some u \<or> k \<in> set hs \<and> admitted lookup p k u" using IH r by blast
      then show "m k = Some u \<or> k \<in> set (h # hs) \<and> admitted lookup p k u" using t by (auto split: if_splits)
    qed
    ultimately show ?thesis by blast
  qed
qed auto

lemma prepare_all_contacts:
  assumes "prepare_all w lib e targets hosts brs = (trail, r)"
  shows "(\<exists>ns. trail = map Contacted ns \<and> prefix ns (map bn_name brs)) \<and>
    (\<forall>brs'. r = Inr brs' \<longrightarrow> list_all2 (\<lambda>br br'. bn_name br' = bn_name br \<and> bn_collector br' = bn_collector br \<and>
       Prepare w lib e (bn_runner br) = Inr (bn_runner br') \<and>
       bn_targets br' = bn_targets br @ List.map_filter targets (hosts (bn_name br))) brs brs')"
  using assms
proof (induction brs arbitrary: trail r)
  case (Cons br brs)
  show ?case
  proof (cases "Prepare w lib e (bn_runner br)")
    case (Inl err)
    with Cons.prems have "trail = map Contacted [bn_name br]" "r = Inl err" by auto
    then show ?thesis by (auto intro!: exI[of _ "[bn_name br]"])
  next
    case (Inr r1)
    obtain trail' r' where c: "prepare_all w lib e targets hosts brs = (trail', r')" "trail = Contacted (bn_name br) # trail'"
      "r = rbind r' (\<lambda>brs'. Inr (br\<lparr>bn_runner := r1, bn_targets := bn_targets br @ List.map_filter targets (hosts (bn_name br))\<rparr> # brs'))"
      using Cons.prems Inr by (auto split: prod.splits)
    note IH = Cons.IH[OF c(1)]
    have "\<exists>ns. trail = map Contacted ns \<and> prefix ns (map bn_name (br # brs))" unfolding c(2) list.map(2) using IH by (intro prefix_step) blast
    then show ?thesis using IH c(3) Inr by (auto simp: rbind_Inr)
  qed
qed auto

lemma prepared_targets:
  "prepare_all w lib e targets hosts brs = (trail, Inr brs') \<Longrightarrow>
   trail = map Contacted (map bn_name brs) \<and>
   (\<forall>br' \<in> set brs'. \<forall>t \<in> set (bn_targets br'). (\<exists>br \<in> set brs. t \<in> set (bn_targets br)) \<or> (\<exists>h. targets h = Some t))"
proof (induction brs arbitrary: trail brs')
  case (Cons br brs)
  then obtain r trail' bs where c: "Prepare w lib e (bn_runner br) = Inr r" "prepare_all w lib e targets hosts brs = (trail', Inr bs)"
    "trail = Contacted (bn_name br) # trail'"
    "brs' = br\<lparr>bn_runner := r, bn_targets := bn_targets br @ List.map_filter targets (hosts (bn_name br))\<rparr> # bs"
    by (auto simp: rbind_Inr split: sum.splits prod.splits)
  from Cons.IH[OF c(2)] show ?case unfolding c(3,4) by (auto simp: List.map_filter_def)
qed simp

text \<open>Whose hosts are judged: those the configuration names are those the compiled operations address.\<close>

definition stable_urls :: "'u world \<Rightarrow> bool" where
  "stable_urls wd \<longleftrightarrow> (\<forall>s u v. wd_parse wd s = Some u \<longrightarrow> wd_parse wd (wd_string wd u) = Some v \<longrightarrow> wd_hostname wd v = wd_hostname wd u)"

lemma compile_steps_from:
  "compile_steps wd h t ss c = Inr (qs, c') \<Longrightarrow> q \<in> set qs \<Longrightarrow> \<exists>src \<in> set ss. resolveURL wd (ht_base_url h) (hs_url src) = Inr (rq_url q)"
proof (induction ss arbitrary: qs c)
  case (Cons src ss)
  then obtain q0 i c1 qs' where "compile_step wd h t src = Inr q0" "compile_steps wd h t ss c1 = Inr (qs', c')"
    "qs = q0\<lparr>rq_label := int i\<rparr> # qs'" by (cases "LabelID (hs_name src) c") (auto simp: rbind_Inr)
  moreover have "resolveURL wd (ht_base_url h) (hs_url src) = Inr (rq_url q0)"
    using calculation(1) by (auto simp: compile_step_def rbind_Inr split: if_splits)
  ultimately show ?case using Cons.IH[of c1 qs'] Cons.prems(2) by auto
qed simp

lemma resolved_host:
  assumes "stable_urls wd" "resolveURL wd base ref = Inr full" "wd_parse wd full = Some u"
  shows "hostOf (urls_of wd) base ref = wd_hostname wd u"
proof (cases "base = []")
  case True
  then obtain v where "wd_parse wd ref = Some v" "full = wd_string wd v"
    using assms(2) by (auto simp: resolveURL_def Let_def split: option.splits if_splits)
  then show ?thesis using assms(1,3) True by (auto simp: hostOf_def urls_of_def stable_urls_def)
next
  case False
  then show ?thesis using assms(2,3) by (auto simp: hostOf_def urls_of_def resolveURL_def Let_def split: option.splits)
qed

lemma http_hosts_judged:
  assumes "stable_urls wd" "New_http wd certs m (cf_http c) t col = Inr (r, col')" "q \<in> set (hr_requests r)"
    "wd_parse wd (rq_url q) = Some u" "wd_hostname wd u \<noteq> []"
  shows "wd_hostname wd u \<in> set (Targets (urls_of wd) c)"
proof -
  obtain h where h: "cf_http c = Some h" "compile_steps wd h t (ht_requests h) col = Inr (hr_requests r, col')"
    using assms(2) by (auto simp: New_http_def rbind_Inr split: option.splits if_splits)
  then obtain src where "src \<in> set (ht_requests h)" "resolveURL wd (ht_base_url h) (hs_url src) = Inr (rq_url q)"
    using compile_steps_from assms(3) by blast
  then have "wd_hostname wd u \<in> (\<lambda>r. hostOf (urls_of wd) (ht_base_url h) (hs_url r)) ` set (ht_requests h)"
    using resolved_host[OF assms(1) _ assms(4)] by (metis imageI)
  then show ?thesis using h(1) assms(5) by (simp add: Targets_def)
qed

lemma redis_hosts_judged:
  assumes "New_redis certs runID (cf_redis c) t col = Inr (r, col')" "a \<in> set (ro_addrs (redis_runner.rr_options r))" "hostPort a \<noteq> []"
  shows "hostPort a \<in> set (Targets lib c)"
proof -
  obtain s opts where s: "cf_redis c = Some s" "clientOptions certs runID s = Inr opts" "opts = redis_runner.rr_options r"
    using assms(1) by (auto simp: New_redis_def rbind_Inr split: option.splits)
  from s(2) have "ro_addrs opts = (if rd_addrs s = [] \<and> rd_addr s \<noteq> [] then [rd_addr s] else rd_addrs s)"
    by (cases "rd_tls s") (auto simp: clientOptions_def Let_def rbind_Inr)
  then have "a \<in> set (rd_addr s # rd_addrs s)" using assms(2) s(3) by (auto split: if_splits)
  then show ?thesis using s(1) assms(3) by (auto simp: Targets_def)
qed

definition addressed_hosts :: "'u world \<Rightarrow> configuration \<Rightarrow> ('s, 'p, 'k) any_runner \<Rightarrow> string set" where
  "addressed_hosts wd c run =
     (case run of
        HTTPRunner r \<Rightarrow> set (http_targets wd r)
      | SQLRunner r \<Rightarrow> (case cf_db c of Some d \<Rightarrow> {hostFromDSN (urls_of wd) (db_driver d) (db_dsn d)} | None \<Rightarrow> {})
      | RedisRunner r \<Rightarrow> hostPort ` set (ro_addrs (redis_runner.rr_options r)))"

lemma addressed_judged:
  assumes "stable_urls (el_world lib)" "fresh lib e br"
  shows "addressed_hosts (el_world lib) (en_config e) (bn_runner br) - {[]} \<subseteq> set (Targets (urls_of (el_world lib)) (en_config e))"
proof -
  note n = assms(2)[unfolded fresh_def new_runner_def Let_def]
  show ?thesis
  proof (cases "bn_runner br")
    case (HTTPRunner r)
    with n obtain col' where "New_http (el_world lib) (el_certs lib) (Some (el_sketches lib)) (cf_http (en_config e))
        (rn_timeout (cf_run (en_config e))) (bn_collector br) = Inr (r, col')"
      by (auto simp: rbind_Inr split: if_splits)
    from http_hosts_judged[OF assms(1) this] show ?thesis
      by (auto simp: HTTPRunner addressed_hosts_def http_targets_def first_seen_set List.map_filter_def)
  next
    case (SQLRunner r)
    then show ?thesis by (auto simp: addressed_hosts_def Targets_def split: option.splits)
  next
    case (RedisRunner r)
    with n obtain col' where "New_redis (el_certs lib) (en_run_id e) (cf_redis (en_config e))
        (rn_timeout (cf_run (en_config e))) (bn_collector br) = Inr (r, col')"
      by (auto simp: rbind_Inr split: if_splits)
    from redis_hosts_judged[OF this] show ?thesis by (auto simp: RedisRunner addressed_hosts_def)
  qed
qed

section \<open>An engine to run\<close>

definition solo_executor :: executor_section where
  "solo_executor = \<lparr>xs_type = ''arrival-rate'', xs_rate = Fin 0, xs_vus = 0, xs_stages = one_second, xs_max_in_flight = 1,
     xs_queue_depth = None, xs_pick = []\<rparr>"

definition solo_config :: configuration where
  "solo_config = redis_demo\<lparr>cf_redis := Some (small_redis\<lparr>rd_executor := solo_executor\<rparr>),
     cf_run := demo_run\<lparr>rn_bucket := second, rn_timeout := second, rn_duration := second, rn_arrival := ''uniform''\<rparr>\<rparr>"

definition solo_engine :: engine where
  "solo_engine = \<lparr>en_config = solo_config, en_run_id = ''r'', en_seed = 1, en_policy = ServerDefault, en_warnings = []\<rparr>"

definition solo_lib :: "(unit, unit, unit, unit, unit) engine_lib" where
  "solo_lib = \<lparr>el_world = \<lparr>wd_parse = (\<lambda>_. None), wd_is_abs = (\<lambda>_. False), wd_resolve = (\<lambda>_ _. None), wd_string = (\<lambda>_. []),
       wd_hostname = (\<lambda>_. []), wd_read_file = (\<lambda>_. None)\<rparr>,
     el_certs = \<lparr>cl_read_file = (\<lambda>_. None), cl_pool = (\<lambda>_. None), cl_pair = (\<lambda>_ _. None)\<rparr>, el_sketches = no_sketch,
     el_tag_url = (\<lambda>_ _. None), el_open_db = (\<lambda>_ _. True), el_sprint = (\<lambda>_. []), el_source = (\<lambda>_ _. ()),
     el_draw = (\<lambda>r. (1, r)), el_env = small_env\<rparr>"

definition solo_peers :: peers where
  "solo_peers = \<lparr>pe_lookup = (\<lambda>_. Some [''127.0.0.1'']), pe_http = (\<lambda>_. (False, NoReply deadline)), pe_db_answers = False,
     pe_db_parses = (\<lambda>_. False), pe_redis_answers = True\<rparr>"

lemma solo_sections:
  "cf_http solo_config = None" "cf_db solo_config = None" "cf_redis solo_config = Some (small_redis\<lparr>rd_executor := solo_executor\<rparr>)"
  "Runners solo_config = [''redis'']" "rn_timeout (cf_run solo_config) = second" "rn_bucket (cf_run solo_config) = second"
  "Targets lib solo_config = [''h'']"
proof -
  have "hostPort ''h:6379'' = ''h''" "hostPort [] = []" by code_simp+
  then show "Targets lib solo_config = [''h'']"
    by (simp add: Targets_def solo_config_def redis_demo_def demo_def small_redis_def)
qed (simp_all add: solo_config_def redis_demo_def demo_def Runners_def)

lemma solo_built: "\<exists>br. build solo_lib solo_engine = Inr [br] \<and> bn_name br = ''redis'' \<and> (\<exists>r. bn_runner br = RedisRunner r)"
proof -
  have "validate (withDefaults (collector_config solo_config ''redis'')) = None"
    by (simp add: validate_def withDefaults_def collector_config_def solo_config_def demo_run_def second_def)
  then obtain c where c: "NewCollector (el_sketches solo_lib) (collector_config (en_config solo_engine) ''redis'') = Inr c"
    by (cases "NewCollector (el_sketches solo_lib) (collector_config (en_config solo_engine) ''redis'')")
      (auto simp: NewCollector_def Let_def solo_engine_def split: prod.splits)
  obtain cmd c' where "compile_command second small_get c = Inr (cmd, c')" using small_get_compiled by blast
  then obtain r where "new_runner solo_lib solo_engine ''redis'' c = Inr (RedisRunner r, c')"
    by (simp add: new_runner_def Let_def New_redis_def solo_engine_def solo_sections small_redis_def clientOptions_def)
  then show ?thesis using c by (simp add: build_def solo_engine_def solo_sections)
qed

lemma solo_admitted:
  "admitted (pe_lookup solo_peers) ServerDefault ''h'' \<lparr>tg_host = ''h'', tg_addrs = [''127.0.0.1''], tg_scope = ScopeLoopback\<rparr>"
proof -
  have "Resolve (\<lambda>_. Some [''127.0.0.1'']) ''h'' = Inr \<lparr>tg_host = ''h'', tg_addrs = [''127.0.0.1''], tg_scope = ScopeLoopback\<rparr>"
    by code_simp
  then show ?thesis by (simp add: admitted_def solo_peers_def CheckTarget_def ServerDefault_def Default_def)
qed

lemma solo_preflight:
  assumes "build solo_lib solo_engine = Inr brs"
  shows "\<exists>trail br'. preflight solo_peers solo_lib solo_engine brs = (trail, Inr [br']) \<and> bn_name br' = ''redis''"
proof -
  obtain br r where br: "brs = [br]" "bn_runner br = RedisRunner r" "bn_name br = ''redis''" using solo_built assms by auto
  show ?thesis
    using solo_admitted
    by (simp add: preflight_def solo_engine_def solo_sections br Prepare_def Prepare_redis_def admitted_def)
      (simp add: solo_peers_def)
qed

section \<open>Property\<close>



end
