(* ===== verification/EngineRun.thy ===== *)
theory EngineRun
  imports Engine
begin

text \<open>
  A run of the engine, \<open>internal/engine/engine.go\<close>: an executor for each runner, all of them with one abort guard
  and two contexts, driven in any interleaving until every worker has returned; then the result. The steps are
  those of \<open>Executor\<close>, with what the engine adds: the caller may cancel, the guard may fire from the record path, the
  safety timer may expire.
\<close>

section \<open>Executors\<close>

record ('s, 'p, 'k, 'r) driven =
  dv_bound :: "('s, 'p, 'k) bound_runner"
  dv_exec :: "('r, 's) exec"
  dv_stages :: "stage_doc list"
  dv_once :: bool

definition exec_config_for :: "('s, 'p, 'k) bound_runner \<Rightarrow> executor_section \<Rightarrow> 'r option schedule \<Rightarrow> ('r, 's) exec_config" where
  "exec_config_for br ex sched =
     \<lparr>ec_runner = True, ec_schedule = Some sched, ec_collector = Some (bn_collector br), ec_clock = True,
      ec_max_in_flight = xs_max_in_flight ex,
      ec_queue_depth = (case xs_queue_depth ex of None \<Rightarrow> DefaultQueueDepth | Some d \<Rightarrow> d)\<rparr>"

definition build_executor ::
  "('u, 's, 'p, 'k, 'r) engine_lib \<Rightarrow> engine \<Rightarrow> ('s, 'p, 'k) bound_runner \<Rightarrow> ('s, 'p, 'k, 'r) driven result" where
  "build_executor lib e br =
     (let c = en_config e; name = bn_name br
      in case executor_of c name of
           None \<Rightarrow> Inl (new_error CodeInternal)
         | Some ex \<Rightarrow>
             rbind (build_schedule c name (el_source lib (en_seed e) (length name))) (\<lambda>sched.
               rbind (NewArrivalRate (Some (el_sketches lib)) (exec_config_for br ex sched)) (\<lambda>x.
                 Inr \<lparr>dv_bound = br, dv_exec = x,
                      dv_stages = map (\<lambda>s. \<lparr>sd_duration_ms = ms (st_duration s), sd_target = st_target s\<rparr>) (xs_stages ex),
                      dv_once = False\<rparr>)))"

fun buildExecutors ::
  "('u, 's, 'p, 'k, 'r) engine_lib \<Rightarrow> engine \<Rightarrow> ('s, 'p, 'k) bound_runner list \<Rightarrow> ('s, 'p, 'k, 'r) driven list result" where
  "buildExecutors lib e [] = Inr []"
| "buildExecutors lib e (br # brs) =
     rbind (build_executor lib e br) (\<lambda>d. rbind (buildExecutors lib e brs) (\<lambda>ds. Inr (d # ds)))"

section \<open>The run\<close>

text \<open>
  The state of a run. \<open>lv_stopped\<close> and \<open>lv_cut\<close> say that the context of the arrivals, or of the work, is done;
  \<open>lv_cancelled\<close> that the caller's is, and \<open>lv_noted\<close> that the callback watching it has run. \<open>lv_overran\<close> is the
  safety timer, and \<open>lv_seen\<close> the history of what the guard was shown.
\<close>

record ('s, 'p, 'k, 'r) live =
  lv_driven :: "('s, 'p, 'k, 'r) driven list"
  lv_guard :: guard
  lv_aborted :: "(int \<times> int) option"
  lv_stopped :: bool
  lv_cut :: bool
  lv_cancelled :: bool
  lv_noted :: bool
  lv_overran :: bool
  lv_seen :: "observation list"

definition launch :: "engine \<Rightarrow> ('s, 'p, 'k, 'r) driven list \<Rightarrow> ('s, 'p, 'k, 'r) live" where
  "launch e ds = \<lparr>lv_driven = ds, lv_guard = guard_of (en_config e), lv_aborted = None, lv_stopped = False, lv_cut = False,
     lv_cancelled = False, lv_noted = False, lv_overran = False, lv_seen = []\<rparr>"

definition onAbort :: "('s, 'p, 'k, 'r) live \<Rightarrow> ('s, 'p, 'k, 'r) live" where
  "onAbort lv = lv\<lparr>lv_aborted := snd (Tripped (lv_guard lv)), lv_stopped := True, lv_cut := True\<rparr>"

text \<open>What a built runner may record for an iteration, and how it may have counted meanwhile.\<close>

definition runner_does ::
  "('u, 's, 'p, 'k, 'r) engine_lib \<Rightarrow> ('s, 'p, 'k) any_runner \<Rightarrow> iteration \<Rightarrow> outcome list \<Rightarrow> bool" where
  "runner_does lib run =
     (case run of
        HTTPRunner r \<Rightarrow> http_does (el_sketches lib) (el_draw lib) r
      | SQLRunner r \<Rightarrow> sql_does (el_env lib) (el_draw lib) r
      | RedisRunner r \<Rightarrow> redis_does (ev_rand (el_env lib)) (ev_pr (el_env lib)) (el_draw lib) r)"

definition counted :: "('s, 'p, 'k) any_runner \<Rightarrow> ('s, 'p, 'k) any_runner \<Rightarrow> bool" where
  "counted run run' \<longleftrightarrow>
     (case run of
        HTTPRunner r \<Rightarrow> (\<exists>ph. run' = HTTPRunner (r\<lparr>hr_phases := ph\<rparr>))
      | SQLRunner r \<Rightarrow> (\<exists>n m. run' = SQLRunner (r\<lparr>sr_reads := n, sr_writes := m\<rparr>))
      | RedisRunner r \<Rightarrow> (\<exists>n m. run' = RedisRunner (r\<lparr>redis_runner.rr_reads := n, redis_runner.rr_writes := m\<rparr>)))"

definition stopped_early :: "('r, 's) exec \<Rightarrow> bool" where
  "stopped_early x \<longleftrightarrow> ex_closed x \<and> \<not> sc_done (ex_sched x)"

text \<open>What an executor has recorded since, on its way through the guard.\<close>

definition new_outcomes :: "('r, 's) exec \<Rightarrow> ('r, 's) exec \<Rightarrow> outcome list" where
  "new_outcomes x x' = drop (length (recorded (ex_events x))) (recorded (ex_events x'))"

definition guard_all :: "outcome list \<Rightarrow> guard \<Rightarrow> bool \<Rightarrow> unit guardedRecorder option" where
  "guard_all os g once = guarded_all (\<lambda>o' u. u) os \<lparr>gr_inner = (), gr_guard = g, gr_once = once, gr_aborts = 0\<rparr>"

definition settle ::
  "nat \<Rightarrow> ('r, 's) exec \<Rightarrow> ('s, 'p, 'k) any_runner \<Rightarrow> unit guardedRecorder \<Rightarrow> observation list \<Rightarrow>
   ('s, 'p, 'k, 'r) live \<Rightarrow> ('s, 'p, 'k, 'r) live" where
  "settle i x run g obs lv =
     (let d = lv_driven lv ! i; d' = d\<lparr>dv_exec := x, dv_bound := (dv_bound d)\<lparr>bn_runner := run\<rparr>, dv_once := gr_once g\<rparr>;
          lv' = lv\<lparr>lv_driven := (lv_driven lv)[i := d'], lv_guard := gr_guard g, lv_seen := lv_seen lv @ obs\<rparr>
      in if 0 < gr_aborts g then onAbort lv' else lv')"

text \<open>
  An executor that is not exhausted only stops when the context of the arrivals or of the work is done. A panic
  of the guard, on an outcome that ended before the run began, has no step.
\<close>

inductive live_step ::
  "('u, 's, 'p, 'k, 'r) engine_lib \<Rightarrow> ('s, 'p, 'k, 'r) live \<Rightarrow> ('s, 'p, 'k, 'r) live \<Rightarrow> bool" for lib where
  drive: "i < length (lv_driven lv) \<Longrightarrow> d = lv_driven lv ! i \<Longrightarrow>
     exec_step (el_sketches lib) (el_draw lib) (runner_does lib (bn_runner (dv_bound d))) (dv_exec d) x \<Longrightarrow>
     (stopped_early x \<Longrightarrow> stopped_early (dv_exec d) \<or> lv_stopped lv \<or> lv_cut lv) \<Longrightarrow>
     counted (bn_runner (dv_bound d)) run \<Longrightarrow>
     guard_all (new_outcomes (dv_exec d) x) (lv_guard lv) (dv_once d) = Some g \<Longrightarrow>
     live_step lib lv (settle i x run g (observed (new_outcomes (dv_exec d) x)) lv)"
| cancel: "live_step lib lv (lv\<lparr>lv_cancelled := True, lv_stopped := True\<rparr>)"
| notice: "lv_cancelled lv \<Longrightarrow> live_step lib lv (lv\<lparr>lv_noted := True\<rparr>)"
| overrun: "live_step lib lv (lv\<lparr>lv_overran := True, lv_cut := True\<rparr>)"

inductive alive ::
  "('u, 's, 'p, 'k, 'r) engine_lib \<Rightarrow> ('s, 'p, 'k, 'r) live \<Rightarrow> ('s, 'p, 'k, 'r) live \<Rightarrow> bool" for lib lv0 where
  alive0: "alive lib lv0 lv0"
| alive_step: "alive lib lv0 lv \<Longrightarrow> live_step lib lv lv' \<Longrightarrow> alive lib lv0 lv'"

inductive_cases live_stepE: "live_step lib lv lv'"

definition finished :: "('s, 'p, 'k, 'r) live \<Rightarrow> bool" where
  "finished lv \<longleftrightarrow> (\<forall>d \<in> set (lv_driven lv). \<forall>w \<in> set (ex_workers (dv_exec d)). w = Exited)"

section \<open>The result\<close>

record pool_report =
  pr_max_open :: int
  pr_in_use :: int
  pr_wait_count :: int
  pr_wait :: duration
  pr_redis :: "(int \<times> int \<times> int) option"

definition http_detail_of :: "'s sketch_ops \<Rightarrow> snapshot \<Rightarrow> ('s, 'p, 'k) http_runner \<Rightarrow> http_detail" where
  "http_detail_of ops snap r =
     (let p = PhaseBreakdown ops (hr_phases r)
      in \<lparr>hd_statuses = sn_statuses snap,
          hd_phases = [(''dns'', pq_dns p), (''connect'', pq_connect p), (''tls'', pq_tls p), (''conn_wait'', pq_conn_wait p),
            (''ttfb'', pq_ttfb p), (''transfer'', pq_transfer p)],
          hd_reuse = reuseRatio (hr_phases r), hd_insecure = hr_insecure r\<rparr>)"

text \<open>The collector is finished before its snapshot is taken; \<open>pools\<close> is what the pools report at that moment.\<close>

definition runner_input_of ::
  "('u, 's, 'p, 'k, 'r) engine_lib \<Rightarrow> (string \<Rightarrow> pool_report) \<Rightarrow> ('s, 'p, 'k, 'r) driven \<Rightarrow> runner_input" where
  "runner_input_of lib pools d =
     (let ops = el_sketches lib; br = dv_bound d; x = dv_exec d; snap = Snapshot ops (Finish ops (ex_collector x));
          pool = pools (bn_name br);
          ri = \<lparr>ri_snapshot = snap, ri_stats = Stats ops x, ri_driver = [], ri_targets = bn_targets br,
                ri_http = None, ri_sql = None, ri_redis = None, ri_stages = dv_stages d\<rparr>
      in case bn_runner br of
           HTTPRunner r \<Rightarrow> ri\<lparr>ri_http := Some (http_detail_of ops snap r)\<rparr>
         | SQLRunner r \<Rightarrow> ri\<lparr>ri_driver := sr_driver r,
             ri_sql := Some \<lparr>sq_reads = sr_reads r, sq_writes = sr_writes r,
               sq_pool = Some \<lparr>sp_max_open = pr_max_open pool, sp_peak_in_use = pr_in_use pool, sp_wait_count = pr_wait_count pool,
                 sp_wait_ms = ms (pr_wait pool)\<rparr>\<rparr>\<rparr>
         | RedisRunner r \<Rightarrow> ri\<lparr>ri_redis := Some \<lparr>rk_reads = redis_runner.rr_reads r, rk_writes = redis_runner.rr_writes r,
             rk_pool = map_option (\<lambda>(hits, misses, timeouts).
               \<lparr>rq_size = 0, rq_hits = hits, rq_misses = misses, rq_timeouts = timeouts\<rparr>) (pr_redis pool)\<rparr>\<rparr>)"

definition runner_warnings :: "string \<Rightarrow> snapshot \<Rightarrow> Report.finding list" where
  "runner_warnings name snap =
     (if sn_timeline_dropped snap
      then [mk_finding ''LABEL_TIMELINE_DROPPED'' SeverityInfo
              (''per-label timelines for '' @ name @ '' exceeded the retention budget and were dropped'') []
              ''charts lose per-label detail; no analysis is affected''] else []) @
     (if sn_overflow snap
      then [mk_finding ''LABEL_OVERFLOW'' SeverityInfo
              (name @ '' reported more than '' @ itoa (int MaxLabels) @ '' labels; the rest were collected under \"other\"'') [] []]
      else []) @
     (if 0 < sn_late snap
      then [mk_finding ''INSUFFICIENT_SAMPLES'' SeverityInfo
              (itoa (sn_late snap) @ '' '' @ name
                @ '' operations finished after their bucket had sealed and were counted against the run total only'') []
              ''raise run.timeout if operations routinely take longer than it allows''] else [])"

definition final_status :: "('s, 'p, 'k, 'r) live \<Rightarrow> status" where
  "final_status lv =
     (if lv_aborted lv \<noteq> None then StatusAborted else if lv_noted lv then StatusInterrupted else StatusCompleted)"

definition abort_reason :: "guard \<Rightarrow> int \<times> int \<Rightarrow> string" where
  "abort_reason g fig =
     (case fig of (failed, tot) \<Rightarrow>
        fixed 0 (real_of_int failed / real_of_int tot * 100)
          @ ''% of operations failed with connection errors, timeouts or 5xx over the last '' @ duration_string (gd_window g)
          @ '' ('' @ itoa failed @ '' of '' @ itoa tot @ '')'')"

definition final_text :: "('s, 'p, 'k, 'r) live \<Rightarrow> string" where
  "final_text lv =
     (case lv_aborted lv of
        Some fig \<Rightarrow> abort_reason (lv_guard lv) fig
      | None \<Rightarrow> if lv_noted lv then ''stopped before the configured duration elapsed'' else [])"

definition buildResult ::
  "('u, 's, 'p, 'k, 'r) engine_lib \<Rightarrow> (float64 \<Rightarrow> string) \<Rightarrow> 'v userinfo_lib \<Rightarrow> (string \<Rightarrow> pool_report) \<Rightarrow> engine \<Rightarrow>
   ('s, 'p, 'k, 'r) live \<Rightarrow> duration \<Rightarrow> result_doc" where
  "buildResult lib fmt ul pools e lv elapsed =
     (let ris = map (runner_input_of lib pools) (lv_driven lv)
      in Build fmt \<lparr>bi_id = en_run_id e, bi_config = Some (redact_config ul (en_config e)), bi_seed = en_seed e,
           bi_elapsed = elapsed, bi_status = final_status lv, bi_interrupted = final_text lv, bi_runners = ris,
           bi_warnings = en_warnings e @
             concat (map (\<lambda>d. runner_warnings (bn_name (dv_bound d)) (ri_snapshot (runner_input_of lib pools d))) (lv_driven lv))\<rparr>)"

text \<open>The whole of \<open>Run\<close>, from the configuration to the document or the error that ended it.\<close>

inductive engine_run ::
  "('u, 's, 'p, 'k, 'r) engine_lib \<Rightarrow> peers \<Rightarrow> (float64 \<Rightarrow> string) \<Rightarrow> 'v userinfo_lib \<Rightarrow> (string \<Rightarrow> pool_report) \<Rightarrow> engine \<Rightarrow>
   result_doc result \<Rightarrow> bool" for lib w fmt ul pools e where
  no_runner: "build lib e = Inl err \<Longrightarrow> engine_run lib w fmt ul pools e (Inl err)"
| not_ready: "build lib e = Inr brs \<Longrightarrow> preflight w lib e brs = (trail, Inl err) \<Longrightarrow> engine_run lib w fmt ul pools e (Inl err)"
| no_schedule: "build lib e = Inr brs \<Longrightarrow> preflight w lib e brs = (trail, Inr brs') \<Longrightarrow> buildExecutors lib e brs' = Inl err \<Longrightarrow>
     engine_run lib w fmt ul pools e (Inl err)"
| ran: "build lib e = Inr brs \<Longrightarrow> preflight w lib e brs = (trail, Inr brs') \<Longrightarrow> buildExecutors lib e brs' = Inr ds \<Longrightarrow>
     alive lib (launch e ds) lv \<Longrightarrow> finished lv \<Longrightarrow>
     engine_run lib w fmt ul pools e (Inr (buildResult lib fmt ul pools e lv elapsed))"

inductive_cases engine_runE: "engine_run lib w fmt ul pools e (Inr doc)"

section \<open>Progress\<close>

record progress =
  pg_elapsed :: duration
  pg_total :: duration
  pg_runner :: string
  pg_offered :: int
  pg_done :: int
  pg_errors :: int
  pg_in_flight :: int
  pg_p99 :: real

definition reportProgress ::
  "('u, 's, 'p, 'k, 'r) engine_lib \<Rightarrow> engine \<Rightarrow> duration \<Rightarrow> ('s, 'p, 'k, 'r) driven list \<Rightarrow> progress list" where
  "reportProgress lib e elapsed ds =
     map (\<lambda>d. let st = Stats (el_sketches lib) (dv_exec d); snap = Snapshot (el_sketches lib) (ex_collector (dv_exec d))
              in \<lparr>pg_elapsed = elapsed, pg_total = rn_duration (cf_run (en_config e)), pg_runner = bn_name (dv_bound d),
                  pg_offered = st_offered st, pg_done = os_n (sn_summary snap), pg_errors = os_errors_total (sn_summary snap),
                  pg_in_flight = InFlight (dv_exec d), pg_p99 = q_p99 (os_response (sn_summary snap))\<rparr>) ds"

text \<open>A tick of the sweeper seals every collector, and reports at most once a second.\<close>

definition sealInterval :: duration where "sealInterval = 500000000"

definition sweep ::
  "('u, 's, 'p, 'k, 'r) engine_lib \<Rightarrow> engine \<Rightarrow> bool \<Rightarrow> duration \<Rightarrow> duration \<Rightarrow> ('s, 'p, 'k, 'r) driven list \<Rightarrow>
   progress list \<times> duration \<times> ('s, 'p, 'k, 'r) driven list" where
  "sweep lib e wanted elapsed lastProgress ds =
     (let ds' = map (\<lambda>d. d\<lparr>dv_exec := on_collector (el_sketches lib) (ESeal elapsed) (dv_exec d)\<rparr>) ds
      in if wanted \<and> second \<le> elapsed - lastProgress then (reportProgress lib e elapsed ds', elapsed, ds')
         else ([], lastProgress, ds'))"

section \<open>What every run keeps\<close>

lemma runner_does_counted: "counted run run' \<Longrightarrow> runner_does lib run' = runner_does lib run"
  by (cases run) (auto simp: counted_def runner_does_def fun_eq_iff http_does.simps sql_does.simps redis_does.simps; blast)+

lemma counted_refl: "counted run run"
proof (cases run)
  case (HTTPRunner r)
  then show ?thesis by (cases r) (auto simp: counted_def)
next
  case (SQLRunner r)
  then show ?thesis by (cases r) (auto simp: counted_def)
next
  case (RedisRunner r)
  then show ?thesis by (cases r) (auto simp: counted_def)
qed

lemma counted_trans: "counted a b \<Longrightarrow> counted b c \<Longrightarrow> counted a c"
  by (cases a) (auto simp: counted_def)

lemma sum_list_update_add:
  fixes f :: "'a \<Rightarrow> 'b multiset"
  assumes "i < length xs"
  shows "(\<Sum>x \<leftarrow> xs[i := y]. f x) + f (xs ! i) = (\<Sum>x \<leftarrow> xs. f x) + f y"
proof -
  have "(\<Sum>x \<leftarrow> xs. f x) = (\<Sum>x \<leftarrow> take i xs. f x) + f (xs ! i) + (\<Sum>x \<leftarrow> drop (Suc i) xs. f x)"
    using arg_cong[OF id_take_nth_drop[OF assms], of "\<lambda>l. \<Sum>x \<leftarrow> l. f x"] by (simp add: add.assoc)
  then show ?thesis by (simp add: upd_conv_take_nth_drop[OF assms] ac_simps)
qed

lemma fold_records_events: "ex_events (fold (\<lambda>o'. on_collector ops (ERecord o')) os e) = ex_events e @ map ERecord os"
  by (induction os arbitrary: e) (simp_all add: on_collector_def)

lemma exec_step_extends:
  assumes "exec_step ops draw does e e'"
  shows "\<exists>evs. ex_events e' = ex_events e @ evs"
  using assms
proof (cases rule: exec_step.cases)
  case (arrive off s w now)
  then show ?thesis
    by (cases w) (auto simp: offer_def send_def recordLag_def on_collector_def Let_def)
next
  case work
  then show ?thesis
    by cases (auto simp: set_worker_def begin_job_def finish_job_def notePeak_def on_collector_def Let_def fold_records_events)
qed (auto simp: close_def on_collector_def)

lemma recorded_grows:
  assumes "exec_step ops draw does e e'"
  shows "recorded (ex_events e') = recorded (ex_events e) @ new_outcomes e e'"
  using exec_step_extends[OF assms] by (auto simp: new_outcomes_def)

text \<open>The recorder over several outcomes: the guard has seen them all, and the callback ran if it had fired by the end.\<close>

lemma guarded_all_guard:
  "guarded_all rec os g = Some g' \<Longrightarrow> (gr_once g \<longrightarrow> gd_tripped (gr_guard g)) \<Longrightarrow>
   observe_all (observed os) (gr_guard g) = Some (gr_guard g') \<and> (gr_once g' \<longrightarrow> gd_tripped (gr_guard g'))"
proof (induction os arbitrary: g)
  case (Cons o' os)
  then obtain g1 where g1: "guardedRecord rec o' g = Some g1" "guarded_all rec os g1 = Some g'" by (auto simp: bind_eq_Some_conv)
  then have "Observe (o_class o') (o_end o') (gr_guard g) = Some (gr_guard g1) \<and> (gr_once g1 \<longrightarrow> gd_tripped (gr_guard g1))"
    using Cons.prems(2) Observe_keeps
    by (auto simp: guardedRecord_def Let_def Tripped_def split: option.splits if_splits)
  with Cons.IH[OF g1(2)] show ?case by (simp add: observed_def)
qed (simp add: observed_def)

lemma guard_all_fired:
  assumes "guard_all os g once = Some g'" "once \<longrightarrow> gd_tripped g"
  shows "observe_all (observed os) g = Some (gr_guard g')" "gr_once g' \<longrightarrow> gd_tripped (gr_guard g')"
    "0 < gr_aborts g' \<Longrightarrow> gd_tripped (gr_guard g')" "gd_tripped (gr_guard g') \<Longrightarrow> gd_tripped g \<or> 0 < gr_aborts g'"
    "gd_tripped g \<Longrightarrow> gr_guard g' = g"
proof -
  let ?g = "\<lparr>gr_inner = (), gr_guard = g, gr_once = once, gr_aborts = 0\<rparr>"
  have all: "guarded_all (\<lambda>o' u. u) os ?g = Some g'" using assms(1) by (simp add: guard_all_def)
  show seen: "observe_all (observed os) g = Some (gr_guard g')" and "gr_once g' \<longrightarrow> gd_tripped (gr_guard g')"
    using guarded_all_guard[OF all] assms(2) by auto
  show fixed: "gr_guard g' = g" if "gd_tripped g" using seen observe_all_fixed[of g] that by simp
  have ok: "once_ok g'" if "\<not> gd_tripped g"
    using guarded_all_facts[of ?g os "gr_guard g'" "\<lambda>o' u. u"] seen all assms(2) that by (auto simp: once_ok_def)
  then show "gd_tripped (gr_guard g')" if "0 < gr_aborts g'"
    using fixed that by (cases "gd_tripped g") (auto simp: once_ok_def split: if_splits)
  show "gd_tripped g \<or> 0 < gr_aborts g'" if "gd_tripped (gr_guard g')"
    using ok that by (cases "gd_tripped g") (auto simp: once_ok_def)
qed

definition reasoned :: "guard \<Rightarrow> bool" where
  "reasoned g \<longleftrightarrow> (gd_tripped g \<longleftrightarrow> gd_reason g \<noteq> None)"

lemma observe_reasoned: "observe_all obs g = Some g' \<Longrightarrow> reasoned g \<Longrightarrow> reasoned g'"
proof (induction obs g rule: observe_all.induct)
  case (2 ob obs g)
  then obtain g1 where g1: "Observe (fst ob) (snd ob) g = Some g1" "observe_all obs g1 = Some g'" by (auto simp: bind_eq_Some_conv)
  then have "reasoned g1" using 2(3)
    by (auto simp: Observe_def evaluateLocked_def reasoned_def Let_def split: if_splits prod.splits)
  with 2(1) g1 show ?case by blast
qed simp

lemma guard_of_reasoned: "reasoned (guard_of c)" "\<not> gd_tripped (guard_of c)"
  by (auto simp: guard_of_def NewAbortGuard_def reasoned_def Let_def split: option.splits)

definition same_driven :: "('s, 'p, 'k, 'r) driven \<Rightarrow> ('s, 'p, 'k, 'r) driven \<Rightarrow> bool" where
  "same_driven d0 d \<longleftrightarrow> dv_stages d = dv_stages d0 \<and> bn_name (dv_bound d) = bn_name (dv_bound d0) \<and>
     bn_targets (dv_bound d) = bn_targets (dv_bound d0) \<and> counted (bn_runner (dv_bound d0)) (bn_runner (dv_bound d))"

definition seen_by :: "('s, 'p, 'k, 'r) driven \<Rightarrow> observation multiset" where
  "seen_by d = mset (observed (recorded (ex_events (dv_exec d))))"

definition live_ok ::
  "('u, 's, 'p, 'k, 'r) engine_lib \<Rightarrow> ('s, 'p, 'k, 'r) live \<Rightarrow> ('s, 'p, 'k, 'r) live \<Rightarrow> bool" where
  "live_ok lib lv0 lv \<longleftrightarrow>
     list_all2 (\<lambda>d0 d. same_driven d0 d \<and>
       reached (el_sketches lib) (el_draw lib) (runner_does lib (bn_runner (dv_bound d0))) (dv_exec d0) (dv_exec d)) (lv_driven lv0) (lv_driven lv) \<and>
     (\<forall>d \<in> set (lv_driven lv). (dv_once d \<longrightarrow> gd_tripped (lv_guard lv)) \<and> (stopped_early (dv_exec d) \<longrightarrow> lv_stopped lv \<or> lv_cut lv)) \<and>
     (gd_tripped (lv_guard lv) \<longleftrightarrow> lv_aborted lv \<noteq> None) \<and> (lv_aborted lv = gd_reason (lv_guard lv)) \<and>
     (lv_stopped lv \<longrightarrow> lv_cancelled lv \<or> lv_aborted lv \<noteq> None) \<and> (lv_cut lv \<longrightarrow> lv_overran lv \<or> lv_aborted lv \<noteq> None) \<and>
     (lv_noted lv \<longrightarrow> lv_cancelled lv) \<and>
     observe_all (lv_seen lv) (lv_guard lv0) = Some (lv_guard lv) \<and>
     mset (lv_seen lv) = (\<Sum>d \<leftarrow> lv_driven lv. seen_by d)"

lemma observe_all_append: "observe_all (xs @ ys) g = Option.bind (observe_all xs g) (observe_all ys)"
proof (induction xs arbitrary: g)
  case (Cons ob xs)
  show ?case by (cases "Observe (fst ob) (snd ob) g") (simp_all add: Cons.IH)
qed simp

lemma live_okD:
  assumes "live_ok lib lv0 lv"
  shows "list_all2 (\<lambda>d0 d. same_driven d0 d \<and>
       reached (el_sketches lib) (el_draw lib) (runner_does lib (bn_runner (dv_bound d0))) (dv_exec d0) (dv_exec d)) (lv_driven lv0) (lv_driven lv)"
    and "d \<in> set (lv_driven lv) \<Longrightarrow> dv_once d \<longrightarrow> gd_tripped (lv_guard lv)"
    and "d \<in> set (lv_driven lv) \<Longrightarrow> stopped_early (dv_exec d) \<Longrightarrow> lv_stopped lv \<or> lv_cut lv"
    and "gd_tripped (lv_guard lv) \<longleftrightarrow> lv_aborted lv \<noteq> None" and "lv_aborted lv = gd_reason (lv_guard lv)"
    and "lv_stopped lv \<Longrightarrow> lv_cancelled lv \<or> lv_aborted lv \<noteq> None" and "lv_cut lv \<Longrightarrow> lv_overran lv \<or> lv_aborted lv \<noteq> None"
    and "lv_noted lv \<Longrightarrow> lv_cancelled lv" and "observe_all (lv_seen lv) (lv_guard lv0) = Some (lv_guard lv)"
    and "mset (lv_seen lv) = (\<Sum>d \<leftarrow> lv_driven lv. seen_by d)"
  using assms unfolding live_ok_def by blast+

lemma drive_ok:
  assumes ok: "live_ok lib lv0 lv" and r0: "reasoned (lv_guard lv0)"
    and i: "i < length (lv_driven lv)" "d = lv_driven lv ! i"
    and x: "exec_step (el_sketches lib) (el_draw lib) (runner_does lib (bn_runner (dv_bound d))) (dv_exec d) x"
    and early: "stopped_early x \<Longrightarrow> stopped_early (dv_exec d) \<or> lv_stopped lv \<or> lv_cut lv"
    and run: "counted (bn_runner (dv_bound d)) run"
    and g: "guard_all (new_outcomes (dv_exec d) x) (lv_guard lv) (dv_once d) = Some g"
  shows "live_ok lib lv0 (settle i x run g (observed (new_outcomes (dv_exec d) x)) lv)"
proof -
  define os where "os = new_outcomes (dv_exec d) x"
  define d' where "d' = d\<lparr>dv_exec := x, dv_bound := (dv_bound d)\<lparr>bn_runner := run\<rparr>, dv_once := gr_once g\<rparr>"
  define lv1 where "lv1 = lv\<lparr>lv_driven := (lv_driven lv)[i := d'], lv_guard := gr_guard g, lv_seen := lv_seen lv @ observed os\<rparr>"
  have st: "settle i x run g (observed (new_outcomes (dv_exec d) x)) lv = (if 0 < gr_aborts g then onAbort lv1 else lv1)"
    by (simp add: settle_def lv1_def d'_def os_def i(2) Let_def)
  have din: "d \<in> set (lv_driven lv)" using i by simp
  then have "dv_once d \<longrightarrow> gd_tripped (lv_guard lv)" using live_okD(2)[OF ok] by blast
  note fired = guard_all_fired[OF g this, folded os_def]
  let ?R = "\<lambda>d0 d. same_driven d0 d \<and>
    reached (el_sketches lib) (el_draw lib) (runner_does lib (bn_runner (dv_bound d0))) (dv_exec d0) (dv_exec d)"
  have all2: "list_all2 ?R (lv_driven lv0) (lv_driven lv)" using live_okD(1)[OF ok] .
  have "?R (lv_driven lv0 ! i) d" using list_all2_nthD2[OF all2 i(1)] i(2) by simp
  then have "?R (lv_driven lv0 ! i) d'"
    using x run runner_does_counted[of "bn_runner (dv_bound (lv_driven lv0 ! i))" "bn_runner (dv_bound d)" lib]
    by (auto simp: d'_def same_driven_def intro: reached.step counted_trans)
  then have two: "list_all2 ?R (lv_driven lv0) ((lv_driven lv)[i := d'])"
    using list_all2_update_cong[OF all2, of "lv_driven lv0 ! i" d' i] by simp
  have kept: "gd_tripped (lv_guard lv) \<Longrightarrow> gd_tripped (gr_guard g)" using fired(5) by simp
  have each: "(dv_once c \<longrightarrow> gd_tripped (gr_guard g)) \<and> (stopped_early (dv_exec c) \<longrightarrow> lv_stopped lv \<or> lv_cut lv)"
    if "c \<in> set ((lv_driven lv)[i := d'])" for c
  proof -
    have "c = d' \<or> c \<in> set (lv_driven lv)" using that set_update_subset_insert by fast
    then show ?thesis
    proof
      assume "c = d'"
      then show ?thesis using fired(2) early live_okD(3)[OF ok din] by (auto simp: d'_def)
    qed (use live_okD(2,3)[OF ok] kept in blast)
  qed
  have seen: "observe_all (lv_seen lv @ observed os) (lv_guard lv0) = Some (gr_guard g)"
    using live_okD(9)[OF ok] fired(1) by (simp add: observe_all_append)
  have "seen_by d' = seen_by d + mset (observed os)"
    using recorded_grows[OF x] by (simp add: seen_by_def d'_def os_def observed_def)
  then have total: "mset (lv_seen lv @ observed os) = (\<Sum>c \<leftarrow> (lv_driven lv)[i := d']. seen_by c)"
    using sum_list_update_add[OF i(1), of seen_by d'] live_okD(10)[OF ok] i(2) by (simp add: ac_simps)
  have why: "gd_tripped (gr_guard g) \<longleftrightarrow> gd_reason (gr_guard g) \<noteq> None"
    using observe_reasoned[OF seen r0] by (simp add: reasoned_def)
  show ?thesis
  proof (cases "0 < gr_aborts g")
    case True
    have lv: "lv_driven (onAbort lv1) = (lv_driven lv)[i := d']" "lv_guard (onAbort lv1) = gr_guard g"
      "lv_aborted (onAbort lv1) = gd_reason (gr_guard g)" "lv_stopped (onAbort lv1)" "lv_cut (onAbort lv1)"
      "lv_noted (onAbort lv1) = lv_noted lv" "lv_cancelled (onAbort lv1) = lv_cancelled lv" "lv_seen (onAbort lv1) = lv_seen lv @ observed os"
      by (simp_all add: onAbort_def lv1_def Tripped_def)
    show ?thesis unfolding st live_ok_def if_P[OF True] lv
      using fired(3)[OF True] two each seen total why live_okD(8)[OF ok] lv(4,5) by (intro conjI) blast+
  next
    case False
    then have same: "gd_tripped (gr_guard g) \<longleftrightarrow> gd_tripped (lv_guard lv)" "gd_tripped (lv_guard lv) \<Longrightarrow> gr_guard g = lv_guard lv"
      using fired(4,5) kept by auto
    then have why': "lv_aborted lv = gd_reason (gr_guard g)" using live_okD(4,5)[OF ok] why same by metis
    have lv: "lv_driven lv1 = (lv_driven lv)[i := d']" "lv_guard lv1 = gr_guard g" "lv_aborted lv1 = lv_aborted lv"
      "lv_stopped lv1 = lv_stopped lv" "lv_cut lv1 = lv_cut lv" "lv_overran lv1 = lv_overran lv"
      "lv_noted lv1 = lv_noted lv" "lv_cancelled lv1 = lv_cancelled lv" "lv_seen lv1 = lv_seen lv @ observed os"
      by (simp_all add: lv1_def)
    show ?thesis unfolding st live_ok_def if_not_P[OF False] lv
      using two each seen total why' same(1) live_okD(4,6-8)[OF ok] by (intro conjI) blast+
  qed
qed

lemma live_ok_flags:
  assumes "live_ok lib lv0 lv" "lv_driven lv' = lv_driven lv" "lv_guard lv' = lv_guard lv" "lv_aborted lv' = lv_aborted lv"
    "lv_seen lv' = lv_seen lv" "lv_stopped lv \<Longrightarrow> lv_stopped lv'" "lv_cut lv \<Longrightarrow> lv_cut lv'"
    "lv_stopped lv' \<Longrightarrow> lv_cancelled lv' \<or> lv_aborted lv' \<noteq> None" "lv_cut lv' \<Longrightarrow> lv_overran lv' \<or> lv_aborted lv' \<noteq> None"
    "lv_noted lv' \<Longrightarrow> lv_cancelled lv'"
  shows "live_ok lib lv0 lv'"
  using live_okD[OF assms(1)] assms(6-10) unfolding live_ok_def assms(2-5) by (intro conjI) blast+

lemma alive_ok:
  assumes "alive lib lv0 lv" "live_ok lib lv0 lv0" "reasoned (lv_guard lv0)"
  shows "live_ok lib lv0 lv"
  using assms
proof (induction rule: alive.induct)
  case (alive_step lv lv')
  then have ok: "live_ok lib lv0 lv" by blast
  from alive_step.hyps(2) show ?case
  proof cases
    case (drive i d x run g)
    then show ?thesis using drive_ok[OF ok alive_step.prems(2) drive(2-7)] by simp
  next
    case cancel
    show ?thesis by (rule live_ok_flags[OF ok]) (use live_okD(7,8)[OF ok] in \<open>auto simp: cancel\<close>)
  next
    case notice
    show ?thesis by (rule live_ok_flags[OF ok]) (use live_okD(6,7)[OF ok] notice in \<open>auto simp: notice(1)\<close>)
  next
    case overrun
    show ?thesis by (rule live_ok_flags[OF ok]) (use live_okD(6,8)[OF ok] in \<open>auto simp: overrun\<close>)
  qed
qed

section \<open>From launch to report\<close>

lemma buildExecutors_each: "buildExecutors lib e brs = Inr ds \<Longrightarrow> list_all2 (\<lambda>br d. build_executor lib e br = Inr d) brs ds"
  by (induction brs arbitrary: ds) (auto simp: rbind_Inr)

text \<open>An executor fresh for its runner.\<close>

definition readied :: "('u, 's, 'p, 'k, 'r) engine_lib \<Rightarrow> engine \<Rightarrow> ('s, 'p, 'k) bound_runner \<Rightarrow> 'r option schedule \<Rightarrow> ('s, 'p, 'k, 'r) driven \<Rightarrow> bool" where
  "readied lib e br s d \<longleftrightarrow> dv_bound d = br \<and> \<not> dv_once d \<and>
     build_schedule (en_config e) (bn_name br) (el_source lib (en_seed e) (length (bn_name br))) = Inr s \<and>
     (\<exists>ex. executor_of (en_config e) (bn_name br) = Some ex \<and> NewArrivalRate (Some (el_sketches lib)) (exec_config_for br ex s) = Inr (dv_exec d))"

lemma build_executor_readied: "build_executor lib e br = Inr d \<Longrightarrow> \<exists>s. readied lib e br s d"
  by (auto simp: build_executor_def readied_def Let_def rbind_Inr split: option.splits)

lemma same_driven_refl: "same_driven d d"
  by (simp add: same_driven_def counted_refl)

lemma launch_ok:
  assumes "buildExecutors lib e brs = Inr ds"
  shows "live_ok lib (launch e ds) (launch e ds)"
proof -
  have new: "\<not> dv_once d \<and> ex_events (dv_exec d) = [] \<and> \<not> ex_closed (dv_exec d)" if d: "d \<in> set ds" for d
  proof -
    obtain k where "k < length ds" "ds ! k = d" using d by (auto simp: in_set_conv_nth)
    then have "build_executor lib e (brs ! k) = Inr d" using list_all2_nthD2[OF buildExecutors_each[OF assms]] by blast
    from build_executor_readied[OF this] obtain s ex where "\<not> dv_once d"
      "NewArrivalRate (Some (el_sketches lib)) (exec_config_for (brs ! k) ex s) = Inr (dv_exec d)"
      by (auto simp: readied_def)
    then show ?thesis using NewArrivalRate_sel(4,6) by blast
  qed
  have "(\<Sum>d \<leftarrow> ds. seen_by d) = {#}"
    using new by (induction ds) (auto simp: seen_by_def observed_def)
  then have seen: "mset (lv_seen (launch e ds)) = (\<Sum>d \<leftarrow> lv_driven (launch e ds). seen_by d)" by (simp add: launch_def)
  have flags: "lv_driven (launch e ds) = ds" "lv_aborted (launch e ds) = None" "\<not> lv_noted (launch e ds)"
    "\<not> lv_stopped (launch e ds)" "\<not> lv_cut (launch e ds)" "\<not> gd_tripped (lv_guard (launch e ds))"
    "gd_reason (lv_guard (launch e ds)) = None" "lv_seen (launch e ds) = []"
    using guard_of_reasoned[of "en_config e"] by (simp_all add: launch_def reasoned_def del: not_None_eq)
  have same: "list_all2 (\<lambda>d0 d. same_driven d0 d \<and>
      reached (el_sketches lib) (el_draw lib) (runner_does lib (bn_runner (dv_bound d0))) (dv_exec d0) (dv_exec d)) ds ds"
    by (simp add: list_all2_same same_driven_refl reached.start)
  show ?thesis unfolding live_ok_def
    by (intro conjI seen) (use flags new same in \<open>simp_all add: stopped_early_def\<close>)
qed

lemma same_drivenD:
  "same_driven d0 d \<Longrightarrow> bn_name (dv_bound d) = bn_name (dv_bound d0)"
  by (simp add: same_driven_def)

text \<open>What a live run says of one of its runners.\<close>

lemma driven_facts:
  assumes "buildExecutors lib e brs = Inr ds" "alive lib (launch e ds) lv"
  shows "live_ok lib (launch e ds) lv"
    "list_all2 (\<lambda>br d. bn_name (dv_bound d) = bn_name br \<and>
       (\<exists>d0 s. readied lib e br s d0 \<and>
          reached (el_sketches lib) (el_draw lib) (runner_does lib (bn_runner br)) (dv_exec d0) (dv_exec d))) brs (lv_driven lv)"
proof -
  have r0: "reasoned (lv_guard (launch e ds))" by (simp add: launch_def guard_of_reasoned)
  show ok: "live_ok lib (launch e ds) lv" using alive_ok[OF assms(2) launch_ok[OF assms(1)] r0] .
  have two: "list_all2 (\<lambda>d0 d. same_driven d0 d \<and>
      reached (el_sketches lib) (el_draw lib) (runner_does lib (bn_runner (dv_bound d0))) (dv_exec d0) (dv_exec d)) ds (lv_driven lv)"
    using live_okD(1)[OF ok] by (simp add: launch_def)
  have one: "list_all2 (\<lambda>br d0. \<exists>s. readied lib e br s d0) brs ds"
    by (rule list_all2_mono[OF buildExecutors_each[OF assms(1)]]) (rule build_executor_readied)
  show "list_all2 (\<lambda>br d. bn_name (dv_bound d) = bn_name br \<and>
       (\<exists>d0 s. readied lib e br s d0 \<and>
          reached (el_sketches lib) (el_draw lib) (runner_does lib (bn_runner br)) (dv_exec d0) (dv_exec d))) brs (lv_driven lv)"
    by (rule list_all2_trans[OF _ one two]) (auto simp: readied_def same_driven_def)
qed

lemma exhausted_all:
  assumes "readied lib e br s d0" "reached (el_sketches lib) (el_draw lib) does (dv_exec d0) x"
    "\<forall>w \<in> set (ex_workers x). w = Exited" "\<not> stopped_early x"
  shows "\<forall>n \<ge> length (ex_offsets x). fst (arrivals (el_draw lib) n s) = ex_offsets x"
proof -
  obtain ex where x0: "NewArrivalRate (Some (el_sketches lib)) (exec_config_for br ex s) = Inr (dv_exec d0)"
    using assms(1) by (auto simp: readied_def)
  note sel = NewArrivalRate_sel[OF x0]
  have "sched_ok (el_draw lib) s (dv_exec d0)" using sel(3,6,7) by (simp add: sched_ok_def exec_config_for_def)
  from reached_sched[OF assms(2) this] have ok: "sched_ok (el_draw lib) s x" .
  have "ex_workers x \<noteq> []" using reached_jobs[OF assms(2) sel(1,2)] same_max[OF assms(2)] sel(10) by (auto simp: bounds_ok_def)
  then have "Exited \<in> set (ex_workers x)" using assms(3) by (cases "ex_workers x") auto
  then have "ex_closed x" using reached_left[OF assms(2) NewArrivalRate_left[OF x0]] by (simp add: left_ok_def)
  with assms(4) ok show ?thesis by (simp add: stopped_early_def sched_ok_def)
qed

lemma runner_does_one: "one_outcome (runner_does lib run)"
  by (cases run) (simp_all add: runner_does_def http_run.one_outcome_axioms sql_run.one_outcome_axioms redis_run.one_outcome_axioms)

lemma preflight_keeps:
  "preflight w lib e brs = (trail, Inr brs') \<Longrightarrow> list_all2 (\<lambda>br br'. bn_name br' = bn_name br \<and> bn_collector br' = bn_collector br) brs brs'"
  using prepare_all_contacts by (fastforce simp: preflight_def split: prod.splits sum.splits elim: list_all2_mono)

lemma runner_input_sel:
  "ri_snapshot (runner_input_of lib pools d) = Snapshot (el_sketches lib) (Finish (el_sketches lib) (ex_collector (dv_exec d)))"
  "ri_stats (runner_input_of lib pools d) = Stats (el_sketches lib) (dv_exec d)"
  by (cases "bn_runner (dv_bound d)"; simp add: runner_input_of_def Let_def)+

text \<open>The document of one runner, in terms of what its executor was asked and what was performed.\<close>

definition accounts_for ::
  "('u, 's, 'p, 'k, 'r) engine_lib \<Rightarrow> engine \<Rightarrow> runner_doc \<Rightarrow> int list \<Rightarrow> job list \<Rightarrow> bool" where
  "accounts_for lib e rn offs jobs \<longleftrightarrow>
     (\<exists>c0 s st. NewCollector (el_sketches lib) (collector_config (en_config e) (rr_name rn)) = Inr c0 \<and>
        build_schedule (en_config e) (rr_name rn) (el_source lib (en_seed e) (length (rr_name rn))) = Inr s \<and>
        offs = fst (arrivals (el_draw lib) (length offs) s) \<and> subseq (map jb_intended jobs) offs \<and>
        rr_executor rn = Some st \<and> es_offered st = int (length offs) \<and> es_dispatched st = int (length jobs) \<and>
        es_dropped st = int (length offs) - int (length jobs) \<and> es_peak_in_flight st \<le> es_max_in_flight st \<and>
        os_n (rr_summary rn) = int (length (filter (\<lambda>j. co_warmup c0 \<le> BucketIndexOf c0 (jb_intended j)) jobs)))"

lemma driven_report:
  fixes pools :: "string \<Rightarrow> pool_report"
  assumes "NewCollector (el_sketches lib) (collector_config (en_config e) (bn_name br)) = Inr (bn_collector br)"
    "readied lib e br s d0" "reached (el_sketches lib) (el_draw lib) (runner_does lib run) (dv_exec d0) (dv_exec d)"
    "\<forall>w \<in> set (ex_workers (dv_exec d)). w = Exited"
  defines "rn \<equiv> buildRunner (runner_input_of lib pools d)"
  shows "rr_name rn = bn_name br \<and> accounts_for lib e rn (ex_offsets (dv_exec d)) (ex_sent (dv_exec d))"
proof -
  let ?ops = "el_sketches lib" and ?x = "dv_exec d" and ?c0 = "bn_collector br"
  obtain ex where x0: "NewArrivalRate (Some ?ops) (exec_config_for br ex s) = Inr (dv_exec d0)"
    and sched: "build_schedule (en_config e) (bn_name br) (el_source lib (en_seed e) (length (bn_name br))) = Inr s"
    using assms(2) by (auto simp: readied_def)
  note sel = NewArrivalRate_sel[OF x0]
  have cfg: "ec_schedule (exec_config_for br ex s) = Some s" "ec_collector (exec_config_for br ex s) = Some ?c0"
    by (simp_all add: exec_config_for_def)
  note inv = NewCollector_inv(1)[OF assms(1)]
  have h: "history_ok ?ops (runner_does lib run) ?c0 ?x"
    using reached_history[OF assms(3) NewArrivalRate_history[OF x0 cfg(2)] inv] .
  then have coll: "ex_collector ?x = co_run ?ops (ex_events ?x) ?c0" by (simp add: history_ok_def)
  have "carries ?c0 (ex_collector ?x)" using co_run_facts[OF inv, of ?ops "ex_events ?x" ac_n] coll by simp
  then have "co_cfg (Finish ?ops (ex_collector ?x)) = co_cfg ?c0"
    using Finish_facts(1)[of "ex_collector ?x" ?ops] carriesD(1,6) by metis
  then have name: "rr_name rn = bn_name br"
    using NewCollector_sel(1)[OF assms(1)]
    by (simp add: rn_def buildRunner_def runner_input_sel Let_def Snapshot_def withDefaults_def collector_config_def)
  have n: "os_n (rr_summary rn) = int (length (filter (\<lambda>j. co_warmup ?c0 \<le> BucketIndexOf ?c0 (jb_intended j)) (ex_sent ?x)))"
    using one_outcome.measured_run[OF runner_does_one x0 cfg(2) assms(1,3,4)]
    by (simp add: rn_def buildRunner_def runner_input_sel Let_def convertSummary_def)
  have books: "jobs_ok ?x" "bounds_ok ?x" using reached_jobs[OF assms(3) sel(1,2)] by blast+
  have ok: "sched_ok (el_draw lib) s ?x"
    using reached_sched[OF assms(3), of s] sel(3,6,7) cfg(1) by (simp add: sched_ok_def)
  have sub: "subseq (map jb_intended (ex_sent ?x)) (ex_offsets ?x)"
    using reached_sent[OF assms(3)] sel(3) NewArrivalRate_sent[OF x0] by simp
  obtain st where st: "rr_executor rn = Some st" "es_offered st = ex_offered ?x" "es_dispatched st = ex_dispatched ?x"
    "es_dropped st = ex_dropped ?x" "es_peak_in_flight st = ex_peak ?x" "es_max_in_flight st = int (ex_max ?x)"
    by (simp add: rn_def buildRunner_def runner_input_sel Let_def Stats_def)
  have "accounts_for lib e rn (ex_offsets ?x) (ex_sent ?x)"
    unfolding accounts_for_def name
    using assms(1) sched st n ok sub books
    by (intro exI[of _ ?c0] exI[of _ s] exI[of _ st]) (simp add: jobs_ok_def bounds_ok_def sched_ok_def)
  then show ?thesis using name by blast
qed

lemma redacted_analysis: "Analyse fmt run rns (Some (redact_config ul c)) = Analyse fmt run rns (Some c)"
  by (simp add: Analyse_def evaluateSLO_def redact_sections)

section \<open>A run to its end\<close>

text \<open>The ramp from nothing to one operation per second offers half an arrival in its second, so none.\<close>

lemma half_arrival:
  "\<exists>p. NewProfile (Fin 0) one_second = Inr p \<and> Invert p 1 = None"
proof -
  have "is_ok (compile_stages 0 0 0 \<lparr>segs = [], p_duration = 0, p_total = 0\<rparr> one_second)"
    unfolding compile_ok_iff by (simp add: one_second_def stage_ok_def fin_nonneg_def)
  then obtain p where p: "compile_stages 0 0 0 \<lparr>segs = [], p_duration = 0, p_total = 0\<rparr> one_second = Inr p"
    by (auto simp: is_ok_iff)
  then have "NewProfile (Fin 0) one_second = Inr p" by (simp add: NewProfile_def finite_err_def one_second_def)
  moreover have "p_total p = 1 / 2" using compile_total[OF p] by (simp add: one_second_def secs_def)
  ultimately show ?thesis by (intro exI[of _ p]) (simp add: Invert_def)
qed

lemma solo_executor_built:
  assumes "bn_name br = ''redis''"
  shows "\<exists>d s'. build_executor solo_lib solo_engine br = Inr d \<and> dv_bound d = br \<and> \<not> dv_once d \<and> ex_workers (dv_exec d) = [Ready] \<and>
    ex_queue (dv_exec d) = [] \<and> \<not> ex_closed (dv_exec d) \<and> Next (el_draw solo_lib) (ex_sched (dv_exec d)) = (None, s') \<and> sc_done s'"
proof -
  obtain p where p: "NewProfile (Fin 0) one_second = Inr p" "Invert p 1 = None" using half_arrival by blast
  have ex: "executor_of solo_config ''redis'' = Some solo_executor" by (simp add: executor_of_def solo_sections)
  have "StartRate solo_executor = Fin 0" by (simp add: StartRate_def solo_executor_def one_second_def)
  moreover have "rn_arrival (cf_run solo_config) = ''uniform''" by (simp add: solo_config_def)
  ultimately obtain s :: "unit option schedule" where s: "build_schedule solo_config ''redis'' () = Inr s"
    "s = \<lparr>sc_profile = p, sc_arrival = ArrivalUniform, sc_rng = Some (), sc_consumed = 0, sc_last = 0, sc_count = 0, sc_done = False\<rparr>"
    using p(1) by (simp add: build_schedule_def ex arrival_of_def NewSchedule_def) (simp add: solo_executor_def)
  have "Next (el_draw solo_lib) s = (None, s\<lparr>sc_consumed := 1, sc_done := True\<rparr>)"
    using p(2) by (simp add: s(2) Next_def consume_def Let_def)
  then show ?thesis
    by (simp add: build_executor_def assms solo_engine_def ex s(1) solo_lib_def NewArrivalRate_def exec_config_for_def newLagTracker_def Let_def)
      (simp add: solo_executor_def)
qed

lemma same_runner: "br\<lparr>bn_runner := bn_runner br\<rparr> = (br :: ('s, 'p, 'k) bound_runner)"
  by (cases br) simp

lemma quiet_drive:
  assumes "lv_driven lv = [d]" "exec_step (el_sketches lib) (el_draw lib) (runner_does lib (bn_runner (dv_bound d))) (dv_exec d) x"
    "recorded (ex_events x) = recorded (ex_events (dv_exec d))" "\<not> stopped_early x"
  shows "\<exists>lv'. live_step lib lv lv' \<and> lv_driven lv' = [d\<lparr>dv_exec := x\<rparr>] \<and> lv_aborted lv' = lv_aborted lv \<and> lv_noted lv' = lv_noted lv \<and>
    lv_cancelled lv' = lv_cancelled lv \<and> lv_overran lv' = lv_overran lv"
proof -
  let ?g = "\<lparr>gr_inner = (), gr_guard = lv_guard lv, gr_once = dv_once d, gr_aborts = 0\<rparr>"
  have new: "new_outcomes (dv_exec d) x = []" by (simp add: new_outcomes_def assms(3))
  have "live_step lib lv (settle 0 x (bn_runner (dv_bound d)) ?g (observed (new_outcomes (dv_exec d) x)) lv)"
    by (rule drive[where i = 0 and d = d]) (use assms in \<open>simp_all add: counted_refl new guard_all_def\<close>)
  moreover have "d\<lparr>dv_exec := x, dv_bound := dv_bound d\<lparr>bn_runner := bn_runner (dv_bound d)\<rparr>, dv_once := dv_once d\<rparr> = d\<lparr>dv_exec := x\<rparr>"
    by (cases d) (simp add: same_runner)
  ultimately show ?thesis using assms(1) by (intro exI conjI) (assumption | simp add: settle_def new Let_def)+
qed

lemma solo_ran:
  "\<exists>brs trail brs' ds lv. build solo_lib solo_engine = Inr brs \<and> preflight solo_peers solo_lib solo_engine brs = (trail, Inr brs') \<and>
     buildExecutors solo_lib solo_engine brs' = Inr ds \<and> alive solo_lib (launch solo_engine ds) lv \<and> finished lv \<and>
     final_status lv = StatusCompleted \<and> \<not> lv_cancelled lv \<and> \<not> lv_overran lv \<and> length (lv_driven lv) = 1"
proof -
  obtain br where b: "build solo_lib solo_engine = Inr [br]" using solo_built by blast
  obtain trail br' where p: "preflight solo_peers solo_lib solo_engine [br] = (trail, Inr [br'])" "bn_name br' = ''redis''"
    using solo_preflight[OF b] by blast
  obtain d s' where d: "build_executor solo_lib solo_engine br' = Inr d" "ex_workers (dv_exec d) = [Ready]"
    "ex_queue (dv_exec d) = []" "\<not> ex_closed (dv_exec d)" "Next (el_draw solo_lib) (ex_sched (dv_exec d)) = (None, s')" "sc_done s'"
    using solo_executor_built[OF p(2)] by blast
  define x1 where "x1 = close (dv_exec d\<lparr>ex_sched := s'\<rparr>)"
  define x2 where "x2 = set_worker 0 Exited x1"
  let ?ops = "el_sketches solo_lib" and ?lv0 = "launch solo_engine [d]"
  have x1: "ex_events x1 = ex_events (dv_exec d)" "ex_workers x1 = [Ready]" "ex_queue x1 = []" "ex_closed x1" "ex_sched x1 = s'"
    using d by (simp_all add: x1_def)
  have s1: "exec_step ?ops (el_draw solo_lib) does (dv_exec d) x1" for does unfolding x1_def by (rule exhausted[OF d(4,5)])
  have s2: "exec_step ?ops (el_draw solo_lib) does x1 x2" for does
    unfolding x2_def using x1 by (intro work leave) simp_all
  obtain lv1 where lv1: "live_step solo_lib ?lv0 lv1" "lv_driven lv1 = [d\<lparr>dv_exec := x1\<rparr>]" "lv_aborted lv1 = None" "\<not> lv_noted lv1"
    "\<not> lv_cancelled lv1" "\<not> lv_overran lv1"
    using quiet_drive[of ?lv0 d solo_lib x1, OF _ s1] x1 d(6) by (auto simp: launch_def stopped_early_def)
  have "\<exists>lv'. live_step solo_lib lv1 lv' \<and> lv_driven lv' = [d\<lparr>dv_exec := x1\<rparr>\<lparr>dv_exec := x2\<rparr>] \<and> lv_aborted lv' = lv_aborted lv1 \<and>
      lv_noted lv' = lv_noted lv1 \<and> lv_cancelled lv' = lv_cancelled lv1 \<and> lv_overran lv' = lv_overran lv1"
    by (rule quiet_drive[OF lv1(2)]) (use s2 x1 d(6) in \<open>simp_all add: x2_def stopped_early_def\<close>)
  then obtain lv2 where lv2: "live_step solo_lib lv1 lv2" "lv_driven lv2 = [d\<lparr>dv_exec := x2\<rparr>]" "lv_aborted lv2 = None"
    "\<not> lv_noted lv2" "\<not> lv_cancelled lv2" "\<not> lv_overran lv2"
    using lv1(3-6) by auto
  have "alive solo_lib ?lv0 lv2" using alive_step[OF alive_step[OF alive0 lv1(1)] lv2(1)] .
  moreover have "finished lv2" using x1(2) by (simp add: finished_def lv2(2) x2_def)
  moreover have "buildExecutors solo_lib solo_engine [br'] = Inr [d]" by (simp add: d(1))
  moreover have "final_status lv2 = StatusCompleted" by (simp add: final_status_def lv2)
  moreover have "length (lv_driven lv2) = 1" by (simp add: lv2(2))
  ultimately show ?thesis using b p(1) lv2(5,6) by blast
qed

section \<open>Bringing a run to its end\<close>

lemma Observe_some: "0 \<le> off \<Longrightarrow> \<exists>g'. Observe k off g = Some g'"
proof -
  assume off: "0 \<le> off"
  have q: "0 \<le> go_div off guardResolution" using off by (simp add: pos_imp_zdiv_nonneg_iff)
  have "0 \<le> go_mod (go_div off guardResolution) (int (length (gd_slots g)))"
  proof (cases "gd_slots g = []")
    case True
    then show ?thesis using q by (simp add: go_mod_def)
  next
    case False
    then have "go_mod (go_div off guardResolution) (int (length (gd_slots g))) = go_div off guardResolution mod int (length (gd_slots g))"
      by (intro go_mod_nonneg q) simp
    then show ?thesis using False by simp
  qed
  then show ?thesis by (simp add: Observe_def Let_def)
qed

lemma guarded_all_some: "\<forall>o' \<in> set os. 0 \<le> o_end o' \<Longrightarrow> \<exists>g'. guarded_all rec os g = Some g'"
proof (induction os arbitrary: g)
  case (Cons o' os)
  have "0 \<le> o_end o'" using Cons.prems by simp
  then obtain gd where "Observe (o_class o') (o_end o') (gr_guard g) = Some gd" using Observe_some by blast
  then obtain g1 where "guardedRecord rec o' g = Some g1" by (auto simp: guardedRecord_def Let_def)
  then show ?case using Cons by simp
qed simp

definition returns :: "('u, 's, 'p, 'k, 'r) engine_lib \<Rightarrow> ('s, 'p, 'k) any_runner \<Rightarrow> iteration \<Rightarrow> outcome list \<Rightarrow> bool" where
  "returns lib run it os \<longleftrightarrow> runner_does lib run it os \<and> (\<forall>o' \<in> set os. 0 \<le> o_end o')"

lemma worker_step_mono: "worker_step ops does e e' \<Longrightarrow> (\<And>it os. does it os \<Longrightarrow> does' it os) \<Longrightarrow> worker_step ops does' e e'"
  by (induction rule: worker_step.induct) (auto intro: worker_step.intros)

lemma worker_step_outcomes:
  assumes "worker_step ops (returns lib run) e e'"
  shows "\<forall>o' \<in> set (new_outcomes e e'). 0 \<le> o_end o'"
  using assms
  by cases (auto simp: new_outcomes_def set_worker_def begin_job_def finish_job_def notePeak_def on_collector_def Let_def
      fold_records_events recorded_def returns_def)

lemma live_drive:
  assumes "i < length (lv_driven lv)" "exec_step (el_sketches lib) (el_draw lib) (runner_does lib (bn_runner (dv_bound (lv_driven lv ! i))))
      (dv_exec (lv_driven lv ! i)) x"
    "stopped_early x \<Longrightarrow> stopped_early (dv_exec (lv_driven lv ! i)) \<or> lv_stopped lv"
    "\<forall>o' \<in> set (new_outcomes (dv_exec (lv_driven lv ! i)) x). 0 \<le> o_end o'"
  shows "\<exists>lv' d. live_step lib lv lv' \<and> lv_driven lv' = (lv_driven lv)[i := d] \<and> dv_exec d = x \<and>
    bn_runner (dv_bound d) = bn_runner (dv_bound (lv_driven lv ! i)) \<and> (lv_stopped lv \<longrightarrow> lv_stopped lv')"
proof -
  let ?d = "lv_driven lv ! i"
  obtain g where g: "guard_all (new_outcomes (dv_exec ?d) x) (lv_guard lv) (dv_once ?d) = Some g"
    using guarded_all_some[OF assms(4)] unfolding guard_all_def by blast
  let ?lv = "settle i x (bn_runner (dv_bound ?d)) g (observed (new_outcomes (dv_exec ?d) x)) lv"
  have "live_step lib lv ?lv" using assms(3) by (intro drive[OF assms(1) refl assms(2) _ counted_refl g]) blast
  moreover have "\<exists>d. lv_driven ?lv = (lv_driven lv)[i := d] \<and> dv_exec d = x \<and> bn_runner (dv_bound d) = bn_runner (dv_bound ?d)"
    by (rule exI[of _ "?d\<lparr>dv_exec := x, dv_bound := (dv_bound ?d)\<lparr>bn_runner := bn_runner (dv_bound ?d)\<rparr>, dv_once := gr_once g\<rparr>"])
      (simp add: settle_def onAbort_def Let_def)
  moreover have "lv_stopped lv \<longrightarrow> lv_stopped ?lv" by (simp add: settle_def onAbort_def Let_def)
  ultimately show ?thesis by blast
qed

text \<open>The workers of one executor, once its queue is closed, can all be brought to leave.\<close>

lemma live_drains:
  assumes "i < length (lv_driven lv)" "dv_exec (lv_driven lv ! i) = x" "bn_runner (dv_bound (lv_driven lv ! i)) = run"
    "bounds_ok x" "ex_closed x" "\<forall>it. \<exists>os. returns lib run it os" "lv_stopped lv"
  shows "\<exists>lv' d. (live_step lib)\<^sup>*\<^sup>* lv lv' \<and> lv_driven lv' = (lv_driven lv)[i := d] \<and> bn_runner (dv_bound d) = run \<and>
    (\<forall>w \<in> set (ex_workers (dv_exec d)). w = Exited) \<and> lv_stopped lv'"
  using assms
proof (induction "nat (pending x)" arbitrary: lv x rule: less_induct)
  case less
  show ?case
  proof (cases "\<forall>w \<in> set (ex_workers x). w = Exited")
    case True
    then show ?thesis using less.prems by (intro exI[of _ lv] exI[of _ "lv_driven lv ! i"]) auto
  next
    case False
    then obtain x' where w: "worker_step (el_sketches lib) (returns lib run) x x'"
      using drain_progress[OF less.prems(4,5,6) refl, of "el_sketches lib"] by blast
    have ws: "worker_step (el_sketches lib) (runner_does lib run) x x'" using worker_step_mono[OF w] by (simp add: returns_def)
    note frame = worker_step_frame[OF w]
    obtain lv1 d1 where lv1: "live_step lib lv lv1" "lv_driven lv1 = (lv_driven lv)[i := d1]" "dv_exec d1 = x'"
      "bn_runner (dv_bound d1) = run" "lv_stopped lv1"
      using live_drive[OF less.prems(1), of lib x'] work[OF ws] worker_step_outcomes[OF w] less.prems(2,3,7) by auto
    have "0 \<le> pending x'" using load_sum(1)[of "ex_workers x'"] by (simp add: pending_def)
    then have lt: "nat (pending x') < nat (pending x)" using worker_step_pending[OF w less.prems(5)] by simp
    have "\<exists>lv' d. (live_step lib)\<^sup>*\<^sup>* lv1 lv' \<and> lv_driven lv' = (lv_driven lv1)[i := d] \<and> bn_runner (dv_bound d) = run \<and>
        (\<forall>w \<in> set (ex_workers (dv_exec d)). w = Exited) \<and> lv_stopped lv'"
      by (rule less.hyps[OF lt]) (use lv1 less.prems frame worker_step_bounds[OF w] in simp_all)
    then show ?thesis using lv1(1,2) by (metis converse_rtranclp_into_rtranclp list_update_overwrite)
  qed
qed

lemma live_closes:
  assumes "i < length (lv_driven lv)" "lv_stopped lv"
  shows "\<exists>lv' d. (live_step lib)\<^sup>*\<^sup>* lv lv' \<and> lv_driven lv' = (lv_driven lv)[i := d] \<and> lv_stopped lv' \<and> ex_closed (dv_exec d) \<and>
    bn_runner (dv_bound d) = bn_runner (dv_bound (lv_driven lv ! i)) \<and> (bounds_ok (dv_exec (lv_driven lv ! i)) \<longrightarrow> bounds_ok (dv_exec d))"
proof (cases "ex_closed (dv_exec (lv_driven lv ! i))")
  case True
  then show ?thesis using assms by (intro exI[of _ lv] exI[of _ "lv_driven lv ! i"]) auto
next
  case False
  let ?x = "dv_exec (lv_driven lv ! i)"
  obtain at' s where n: "Next (el_draw lib) (ex_sched ?x) = (at', s)" by fastforce
  define x where "x = close (?x\<lparr>ex_sched := s\<rparr>)"
  have "exec_step (el_sketches lib) (el_draw lib) (runner_does lib (bn_runner (dv_bound (lv_driven lv ! i)))) ?x x"
    unfolding x_def using exhausted[OF False, of "el_draw lib" s] cancelled[OF False, of "el_draw lib"] n by (cases at') blast+
  moreover have "new_outcomes ?x x = []" by (simp add: new_outcomes_def x_def)
  ultimately obtain lv1 d1 where "live_step lib lv lv1" "lv_driven lv1 = (lv_driven lv)[i := d1]" "dv_exec d1 = x"
    "bn_runner (dv_bound d1) = bn_runner (dv_bound (lv_driven lv ! i))" "lv_stopped lv1"
    using live_drive[OF assms(1), of lib x] assms(2) by auto
  moreover have "ex_closed x" "bounds_ok ?x \<longrightarrow> bounds_ok x" by (auto simp: x_def bounds_ok_def close_def)
  ultimately show ?thesis by blast
qed

lemma live_ends_one:
  assumes "i < length (lv_driven lv)" "lv_stopped lv" "bounds_ok (dv_exec (lv_driven lv ! i))"
    "\<forall>it. \<exists>os. returns lib (bn_runner (dv_bound (lv_driven lv ! i))) it os"
  shows "\<exists>lv' d. (live_step lib)\<^sup>*\<^sup>* lv lv' \<and> lv_driven lv' = (lv_driven lv)[i := d] \<and> lv_stopped lv' \<and>
    (\<forall>w \<in> set (ex_workers (dv_exec d)). w = Exited)"
proof -
  obtain lv1 d1 where lv1: "(live_step lib)\<^sup>*\<^sup>* lv lv1" "lv_driven lv1 = (lv_driven lv)[i := d1]" "lv_stopped lv1" "ex_closed (dv_exec d1)"
    "bn_runner (dv_bound d1) = bn_runner (dv_bound (lv_driven lv ! i))" "bounds_ok (dv_exec d1)"
    using live_closes[OF assms(1,2), of lib] assms(3) by blast
  have d1: "lv_driven lv1 ! i = d1" "i < length (lv_driven lv1)" using lv1(2) assms(1) by simp_all
  obtain lv2 d2 where "(live_step lib)\<^sup>*\<^sup>* lv1 lv2" "lv_driven lv2 = (lv_driven lv1)[i := d2]"
    "\<forall>w \<in> set (ex_workers (dv_exec d2)). w = Exited" "lv_stopped lv2"
    using live_drains[of i lv1 "dv_exec d1" "bn_runner (dv_bound d1)" lib] d1 lv1(3-6) assms(4) by auto
  then show ?thesis using lv1(1,2) by (metis rtranclp_trans list_update_overwrite)
qed

lemma alive_steps: "(live_step lib)\<^sup>*\<^sup>* lv lv' \<Longrightarrow> alive lib lv0 lv \<Longrightarrow> alive lib lv0 lv'"
  by (induction rule: rtranclp_induct) (auto intro: alive_step)

definition left :: "('s, 'p, 'k, 'r) driven \<Rightarrow> bool" where
  "left d \<longleftrightarrow> (\<forall>w \<in> set (ex_workers (dv_exec d)). w = Exited)"

lemma live_ends_upto:
  assumes "buildExecutors lib e brs = Inr ds" "\<forall>br \<in> set brs. \<forall>it. \<exists>os. returns lib (bn_runner br) it os"
    "alive lib (launch e ds) lv" "lv_stopped lv"
  shows "n \<le> length brs \<Longrightarrow> \<exists>lv'. (live_step lib)\<^sup>*\<^sup>* lv lv' \<and> lv_stopped lv' \<and> (\<forall>k < n. left (lv_driven lv' ! k))"
proof (induction n)
  case (Suc n)
  then obtain lv1 where lv1: "(live_step lib)\<^sup>*\<^sup>* lv lv1" "lv_stopped lv1" "\<forall>k < n. left (lv_driven lv1 ! k)" by auto
  note a1 = alive_steps[OF lv1(1) assms(3)]
  note two = driven_facts(2)[OF assms(1) a1] and ok = driven_facts(1)[OF assms(1) a1]
  have len: "length (lv_driven lv1) = length brs" "length ds = length brs"
    using list_all2_lengthD[OF two] list_all2_lengthD[OF buildExecutors_each[OF assms(1)]] by simp_all
  have n: "n < length brs" using Suc.prems by simp
  let ?d = "lv_driven lv1 ! n"
  obtain d0 s where d0: "readied lib e (brs ! n) s d0"
    "reached (el_sketches lib) (el_draw lib) (runner_does lib (bn_runner (brs ! n))) (dv_exec d0) (dv_exec ?d)"
    using list_all2_nthD[OF two n] by blast
  obtain ex where x0: "NewArrivalRate (Some (el_sketches lib)) (exec_config_for (brs ! n) ex s) = Inr (dv_exec d0)"
    using d0(1) by (auto simp: readied_def)
  have bounds: "bounds_ok (dv_exec ?d)" using reached_jobs[OF d0(2) NewArrivalRate_sel(1,2)[OF x0]] by blast
  have "build_executor lib e (brs ! n) = Inr (ds ! n)" using list_all2_nthD[OF buildExecutors_each[OF assms(1)] n] .
  then have "dv_bound (ds ! n) = brs ! n" using build_executor_readied by (auto simp: readied_def)
  moreover have "same_driven (ds ! n) ?d"
    using list_all2_nthD[OF live_okD(1)[OF ok], of n] n len by (simp add: launch_def)
  ultimately have "counted (bn_runner (brs ! n)) (bn_runner (dv_bound ?d))" by (simp add: same_driven_def)
  from runner_does_counted[OF this, of lib]
  have "runner_does lib (bn_runner (dv_bound ?d)) = runner_does lib (bn_runner (brs ! n))" .
  then have "\<forall>it. \<exists>os. returns lib (bn_runner (dv_bound ?d)) it os" using assms(2) n by (simp add: returns_def)
  from live_ends_one[OF _ lv1(2) bounds this] obtain lv2 d where lv2: "(live_step lib)\<^sup>*\<^sup>* lv1 lv2"
    "lv_driven lv2 = (lv_driven lv1)[n := d]" "lv_stopped lv2" "left d" using n len by (auto simp: left_def)
  have "\<forall>k < Suc n. left (lv_driven lv2 ! k)" using lv1(3) lv2(2,4) n len by (auto simp: less_Suc_eq)
  then show ?case using rtranclp_trans[OF lv1(1) lv2(1)] lv2(3) by blast
qed (use assms(4) in blast)

section \<open>Properties\<close>

text \<open>C10. The status of a run that has come to its end says what happened to it. It is aborted exactly when the guard fired, and the
  guard was shown every outcome of every runner, each once; it is interrupted only when the caller cancelled; and a run
  that is completed has offered, on every runner, everything its schedule ever delivers, unless the caller's
  cancellation was not noted in time or the safety timer cut the work off.\<close>

theorem run_status:
  assumes "buildExecutors lib e brs = Inr ds" "alive lib (launch e ds) lv" "finished lv"
  shows "final_status lv = (if gd_tripped (lv_guard lv) then StatusAborted else if lv_noted lv then StatusInterrupted else StatusCompleted) \<and>
    (lv_noted lv \<longrightarrow> lv_cancelled lv) \<and>
    observe_all (lv_seen lv) (guard_of (en_config e)) = Some (lv_guard lv) \<and>
    mset (lv_seen lv) = (\<Sum>d \<leftarrow> lv_driven lv. mset (observed (recorded (ex_events (dv_exec d))))) \<and>
    (final_status lv = StatusCompleted \<longrightarrow> lv_cancelled lv \<or> lv_overran lv \<or>
       list_all2 (\<lambda>br d. \<exists>s. build_schedule (en_config e) (bn_name br) (el_source lib (en_seed e) (length (bn_name br))) = Inr s \<and>
         (\<forall>n \<ge> length (ex_offsets (dv_exec d)). fst (arrivals (el_draw lib) n s) = ex_offsets (dv_exec d))) brs (lv_driven lv))"
proof -
  note ok = driven_facts(1)[OF assms(1,2)] and two = driven_facts(2)[OF assms(1,2)]
  have status: "final_status lv = (if gd_tripped (lv_guard lv) then StatusAborted else if lv_noted lv then StatusInterrupted else StatusCompleted)"
    using live_okD(4)[OF ok] by (simp add: final_status_def del: not_None_eq)
  have seen: "observe_all (lv_seen lv) (guard_of (en_config e)) = Some (lv_guard lv)"
    "mset (lv_seen lv) = (\<Sum>d \<leftarrow> lv_driven lv. mset (observed (recorded (ex_events (dv_exec d)))))"
    using live_okD(9,10)[OF ok] by (simp_all add: launch_def seen_by_def)
  have "list_all2 (\<lambda>br d. \<exists>s. build_schedule (en_config e) (bn_name br) (el_source lib (en_seed e) (length (bn_name br))) = Inr s \<and>
      (\<forall>n \<ge> length (ex_offsets (dv_exec d)). fst (arrivals (el_draw lib) n s) = ex_offsets (dv_exec d))) brs (lv_driven lv)"
    if "final_status lv = StatusCompleted" "\<not> lv_cancelled lv" "\<not> lv_overran lv"
  proof (rule list_all2_all_nthI)
    show "length brs = length (lv_driven lv)" using two by (rule list_all2_lengthD)
    fix k assume k: "k < length brs"
    let ?d = "lv_driven lv ! k"
    have "lv_aborted lv = None" using that(1) by (simp add: final_status_def del: not_None_eq split: if_splits)
    then have open': "\<not> lv_stopped lv" "\<not> lv_cut lv" using live_okD(6,7)[OF ok] that(2,3) by blast+
    have mem: "?d \<in> set (lv_driven lv)" using k list_all2_lengthD[OF two] by simp
    then have "\<not> stopped_early (dv_exec ?d)" using live_okD(3)[OF ok mem] open' by blast
    moreover obtain d0 s where "readied lib e (brs ! k) s d0"
      "reached (el_sketches lib) (el_draw lib) (runner_does lib (bn_runner (brs ! k))) (dv_exec d0) (dv_exec ?d)"
      using list_all2_nthD[OF two k] by blast
    moreover have "\<forall>w \<in> set (ex_workers (dv_exec ?d)). w = Exited" using assms(3) mem by (simp add: finished_def)
    ultimately show "\<exists>s. build_schedule (en_config e) (bn_name (brs ! k)) (el_source lib (en_seed e) (length (bn_name (brs ! k)))) = Inr s \<and>
        (\<forall>n \<ge> length (ex_offsets (dv_exec ?d)). fst (arrivals (el_draw lib) n s) = ex_offsets (dv_exec ?d))"
      using exhausted_all by (fastforce simp: readied_def)
  qed
  then show ?thesis using status seen live_okD(8)[OF ok] by blast
qed

theorem run_status_witness:
  "\<exists>ds lv d s. alive solo_lib (launch solo_engine ds) lv \<and> final_status lv = StatusCompleted \<and> lv_driven lv = [d] \<and>
     build_schedule solo_config ''redis'' () = Inr s \<and>
     (\<forall>n \<ge> length (ex_offsets (dv_exec d)). fst (arrivals (el_draw solo_lib) n s) = ex_offsets (dv_exec d))"
proof -
  obtain brs trail brs' ds lv where r: "build solo_lib solo_engine = Inr brs" "preflight solo_peers solo_lib solo_engine brs = (trail, Inr brs')"
    "buildExecutors solo_lib solo_engine brs' = Inr ds" "alive solo_lib (launch solo_engine ds) lv" "finished lv"
    "final_status lv = StatusCompleted" "\<not> lv_cancelled lv" "\<not> lv_overran lv" "length (lv_driven lv) = 1" using solo_ran by blast
  obtain br' where br': "brs' = [br']" "bn_name br' = ''redis''" using solo_preflight[OF r(1)] r(2) by auto
  obtain d where d: "lv_driven lv = [d]" using r(9) by (auto simp: length_Suc_conv)
  show ?thesis using run_status[OF r(3,4,5)] r(4,6-8) br' d by (auto simp: solo_engine_def solo_lib_def)
qed

text \<open>C1. From the configuration to the document. When \<open>Run\<close> returns a document it has one entry for each configured runner, in
  order, and each entry accounts for its schedule: the arrivals offered are the first the schedule of that runner delivers, each was sent or dropped,
  the operations in the summary are exactly the jobs sent whose intended time lies after the warm-up, whichever runner performed them,
  and the peak of operations in progress is within the bound. The analysis is that of the configuration with its secrets, although the
  document only holds the redacted one.\<close>

theorem run_reported:
  assumes "engine_run lib w fmt ul pools e (Inr doc)"
  shows "map rr_name (rs_runners doc) = Runners (en_config e) \<and>
    (\<forall>rn \<in> set (rs_runners doc). \<exists>offs jobs. accounts_for lib e rn offs jobs) \<and>
    rs_analysis doc = Analyse fmt (rs_run doc) (rs_runners doc) (Some (en_config e))"
proof -
  obtain brs trail brs' ds lv elapsed where 1: "doc = buildResult lib fmt ul pools e lv elapsed" "build lib e = Inr brs"
    "preflight w lib e brs = (trail, Inr brs')" "buildExecutors lib e brs' = Inr ds" "alive lib (launch e ds) lv" "finished lv"
    using assms by (blast elim: engine_runE)
  note two = driven_facts(2)[OF 1(4,5)]
  have built: "map bn_name brs = Runners (en_config e)" "\<And>br. br \<in> set brs \<Longrightarrow> fresh lib e br" using build_fresh[OF 1(2)] by auto
  note kept = preflight_keeps[OF 1(3)]
  have len: "length brs' = length brs" "length (lv_driven lv) = length brs"
    using list_all2_lengthD[OF kept] list_all2_lengthD[OF two] by simp_all
  have docs: "rs_runners doc = map (\<lambda>d. buildRunner (runner_input_of lib pools d)) (lv_driven lv)"
    by (simp add: 1(1) buildResult_def Build_def Let_def)
  have each: "rr_name (rs_runners doc ! k) = bn_name (brs ! k) \<and> (\<exists>offs jobs. accounts_for lib e (rs_runners doc ! k) offs jobs)"
    if k: "k < length brs" for k
  proof -
    let ?d = "lv_driven lv ! k"
    have same: "bn_name (brs' ! k) = bn_name (brs ! k)" "bn_collector (brs' ! k) = bn_collector (brs ! k)"
      using list_all2_nthD[OF kept k] by blast+
    obtain d0 s where d0: "readied lib e (brs' ! k) s d0"
      "reached (el_sketches lib) (el_draw lib) (runner_does lib (bn_runner (brs' ! k))) (dv_exec d0) (dv_exec ?d)"
      using list_all2_nthD[OF two, of k] k len by auto
    have col: "NewCollector (el_sketches lib) (collector_config (en_config e) (bn_name (brs' ! k))) = Inr (bn_collector (brs' ! k))"
      using built(2)[of "brs ! k"] k unfolding same by (simp add: fresh_def)
    have "?d \<in> set (lv_driven lv)" using k len(2) by simp
    then have "\<forall>w \<in> set (ex_workers (dv_exec ?d)). w = Exited" using 1(6) unfolding finished_def by blast
    from driven_report[OF col d0 this, of pools] show ?thesis using same k len(2) by (auto simp: docs)
  qed
  have "map rr_name (rs_runners doc) = map bn_name brs"
    by (rule nth_equalityI) (use each len docs in auto)
  moreover have "\<exists>offs jobs. accounts_for lib e rn offs jobs" if rn: "rn \<in> set (rs_runners doc)" for rn
  proof -
    obtain k where "k < length (rs_runners doc)" "rs_runners doc ! k = rn" using rn by (auto simp: in_set_conv_nth)
    then show ?thesis using each[of k] len(2) docs by auto
  qed
  moreover have "rs_analysis doc = Analyse fmt (rs_run doc) (rs_runners doc) (Some (en_config e))"
    by (simp add: 1(1) buildResult_def Build_def Let_def redacted_analysis)
  ultimately show ?thesis using built(1) by simp
qed

theorem run_reported_witness:
  "\<exists>doc rn offs jobs. engine_run solo_lib solo_peers (\<lambda>_. []) no_urls (\<lambda>_. \<lparr>pr_max_open = 0, pr_in_use = 0, pr_wait_count = 0, pr_wait = 0,
       pr_redis = None\<rparr>) solo_engine (Inr doc) \<and> rs_runners doc = [rn] \<and> rr_name rn = ''redis'' \<and> accounts_for solo_lib solo_engine rn offs jobs"
proof -
  let ?pools = "\<lambda>_. \<lparr>pr_max_open = 0, pr_in_use = 0, pr_wait_count = 0, pr_wait = 0, pr_redis = None\<rparr>"
  obtain brs trail brs' ds lv where r: "build solo_lib solo_engine = Inr brs" "preflight solo_peers solo_lib solo_engine brs = (trail, Inr brs')"
    "buildExecutors solo_lib solo_engine brs' = Inr ds" "alive solo_lib (launch solo_engine ds) lv" "finished lv" using solo_ran by blast
  have run: "engine_run solo_lib solo_peers (\<lambda>_. []) no_urls ?pools solo_engine (Inr (buildResult solo_lib (\<lambda>_. []) no_urls ?pools solo_engine lv 0))"
    by (rule ran[OF r])
  have "Runners (en_config solo_engine) = [''redis'']" by (simp add: solo_engine_def solo_sections)
  with run_reported[OF run] run show ?thesis by (auto simp: map_eq_Cons_conv)
qed

text \<open>C33. A run can always be brought to its end: whatever has happened so far, once the caller cancels there is a way on in which
  every worker of every runner returns, provided each operation eventually returns with an outcome. No interleaving
  of the executors, no verdict of the guard and no state of the queues leaves the run stuck.\<close>

theorem run_can_end:
  assumes "buildExecutors lib e brs = Inr ds" "alive lib (launch e ds) lv"
    "\<forall>br \<in> set brs. \<forall>it. \<exists>os. runner_does lib (bn_runner br) it os \<and> (\<forall>o' \<in> set os. 0 \<le> o_end o')"
  shows "\<exists>lv'. (live_step lib)\<^sup>*\<^sup>* (lv\<lparr>lv_cancelled := True, lv_stopped := True\<rparr>) lv' \<and> alive lib (launch e ds) lv' \<and> finished lv'"
proof -
  let ?lv = "lv\<lparr>lv_cancelled := True, lv_stopped := True\<rparr>"
  have a: "alive lib (launch e ds) ?lv" using alive_step[OF assms(2) cancel] .
  have "\<exists>lv'. (live_step lib)\<^sup>*\<^sup>* ?lv lv' \<and> lv_stopped lv' \<and> (\<forall>k < length brs. left (lv_driven lv' ! k))"
    by (rule live_ends_upto[OF assms(1) _ a]) (use assms(3) in \<open>simp_all add: returns_def\<close>)
  then obtain lv' where lv': "(live_step lib)\<^sup>*\<^sup>* ?lv lv'" "\<forall>k < length brs. left (lv_driven lv' ! k)" by blast
  note a' = alive_steps[OF lv'(1) a]
  have "length (lv_driven lv') = length brs" using list_all2_lengthD[OF driven_facts(2)[OF assms(1) a']] by simp
  then have "\<forall>d \<in> set (lv_driven lv'). left d" using lv'(2) by (auto simp: in_set_conv_nth)
  then have "finished lv'" by (simp add: finished_def left_def)
  then show ?thesis using lv'(1) a' by blast
qed

theorem run_can_end_witness:
  "\<exists>(lib :: (unit, unit, unit, unit, unit) engine_lib) ds lv. length ds = 1 \<and> alive lib (launch solo_engine ds) lv \<and> finished lv"
proof -
  let ?lib = "solo_lib\<lparr>el_draw := \<lambda>r. (0, r)\<rparr>"
  obtain c where "NewCollector no_sketch small_cfg = Inr c" using small_collector by blast
  define br :: "(unit, unit, unit) bound_runner" where
    "br = \<lparr>bn_name = ''redis'', bn_runner = SQLRunner select_runner, bn_collector = c, bn_targets = []\<rparr>"
  obtain d where "build_executor solo_lib solo_engine br = Inr d" using solo_executor_built[of br] by (auto simp: br_def)
  moreover have "build_executor ?lib solo_engine br = build_executor solo_lib solo_engine br"
  proof -
    have same: "el_source ?lib = el_source solo_lib" "el_sketches ?lib = el_sketches solo_lib" by simp_all
    show ?thesis unfolding build_executor_def same ..
  qed
  ultimately have d: "buildExecutors ?lib solo_engine [br] = Inr [d]" by simp
  have "\<forall>br' \<in> set [br]. \<forall>it. \<exists>os. runner_does ?lib (bn_runner br') it os \<and> (\<forall>o' \<in> set os. 0 \<le> o_end o')"
  proof (intro ballI allI)
    fix br' it assume "br' \<in> set [br]"
    obtain o' where "sql_does small_env (\<lambda>r. (0, r)) select_runner it [o']" "o_end o' = 2" using select_does by blast
    then show "\<exists>os. runner_does ?lib (bn_runner br') it os \<and> (\<forall>o' \<in> set os. 0 \<le> o_end o')"
      using \<open>br' \<in> set [br]\<close> by (intro exI[of _ "[o']"]) (simp add: runner_does_def br_def solo_lib_def)
  qed
  from run_can_end[OF d alive0 this] show ?thesis by (metis One_nat_def length_Cons list.size(3))
qed

end
