(* ===== verification/Clock.thy ===== *)
theory Clock
  imports Prelude
begin

text \<open>
  \<open>internal/clock/clock.go\<close>: the contract of a clock, the real one and the fake one of the tests. Times are integers
  of nanoseconds. A waiter of the fake clock is shared by pointer between the clock and the timer that owns it, so the
  waiters live in a store and the clock holds a list of their names. A channel has one slot. What is delivered is
  kept as a history, in the order of the deliveries.
\<close>

section \<open>The fake clock\<close>

record waiter =
  wt_deadline :: int
  wt_chan :: "int option"
  wt_period :: int
  wt_stopped :: bool

record fake =
  fk_now :: int
  fk_waiters :: "nat list"
  fk_store :: "nat \<Rightarrow> waiter"
  fk_next :: nat
  fk_fired :: "(nat \<times> int) list"

definition NewFake :: "int \<Rightarrow> fake" where
  "NewFake t = \<lparr>fk_now = t, fk_waiters = [], fk_store = (\<lambda>_. \<lparr>wt_deadline = 0, wt_chan = None, wt_period = 0, wt_stopped = True\<rparr>),
     fk_next = 0, fk_fired = []\<rparr>"

definition due :: "int \<Rightarrow> waiter \<Rightarrow> bool" where
  "due now w \<longleftrightarrow> \<not> wt_stopped w \<and> wt_deadline w \<le> now"

text \<open>A delivery that does not block: a full slot keeps what it holds.\<close>

definition deliver :: "waiter \<Rightarrow> waiter" where
  "deliver w = w\<lparr>wt_chan := (case wt_chan w of None \<Rightarrow> Some (wt_deadline w) | Some v \<Rightarrow> Some v),
     wt_deadline := (if 0 < wt_period w then wt_deadline w + wt_period w else wt_deadline w)\<rparr>"

text \<open>One pass of \<open>fireLocked\<close> over the sorted waiters: those kept, the store, and what was delivered.\<close>

fun fire_pass :: "int \<Rightarrow> nat list \<Rightarrow> (nat \<Rightarrow> waiter) \<Rightarrow> nat list \<times> (nat \<Rightarrow> waiter) \<times> (nat \<times> int) list" where
  "fire_pass now [] st = ([], st, [])"
| "fire_pass now (i # is) st =
     (let w = st i
      in if wt_stopped w then fire_pass now is st
         else if wt_deadline w \<le> now
         then (case fire_pass now is (st(i := deliver w)) of (kept, st', out) \<Rightarrow>
                 (if 0 < wt_period w then i # kept else kept, st', (i, wt_deadline w) # out))
         else (case fire_pass now is st of (kept, st', out) \<Rightarrow> (i # kept, st', out)))"

definition lag :: "int \<Rightarrow> waiter \<Rightarrow> nat" where
  "lag now w = nat (now - wt_deadline w + 1)"

lemma fire_pass_lag:
  "fire_pass now is st = (kept, st', out) \<Longrightarrow>
   (\<forall>i. wt_deadline (st i) \<le> wt_deadline (st' i)) \<and> (\<Sum>i \<leftarrow> kept. lag now (st' i)) + length out \<le> (\<Sum>i \<leftarrow> is. lag now (st i))"
proof (induction now "is" st arbitrary: kept st' out rule: fire_pass.induct)
  case (2 now i "is" st)
  let ?w = "st i" and ?st = "st(i := deliver (st i))"
  consider "wt_stopped ?w" | "\<not> wt_stopped ?w" "wt_deadline ?w \<le> now" | "\<not> wt_stopped ?w" "now < wt_deadline ?w" by linarith
  then show ?case
  proof cases
    case 1
    then show ?thesis using 2(1)[OF refl 1] 2(4) by fastforce
  next
    case due: 2
    obtain k s o' where r: "fire_pass now is ?st = (k, s, o')" by (metis prod_cases3)
    note IH = 2(2)[OF refl due r]
    have later: "wt_deadline (st j) \<le> wt_deadline (?st j)" for j by (simp add: deliver_def)
    then have less: "(\<Sum>j \<leftarrow> is. lag now (?st j)) \<le> (\<Sum>j \<leftarrow> is. lag now (st j))"
      by (intro sum_list_mono) (simp add: lag_def nat_mono)
    have up: "wt_deadline (st j) \<le> wt_deadline (s j)" for j using IH later[of j] by (meson order_trans)
    have "wt_deadline ?w + wt_period ?w \<le> wt_deadline (s i)" if "0 < wt_period ?w"
      using IH that by (auto simp: deliver_def dest: spec[of _ i])
    then have "lag now (s i) + 1 \<le> lag now ?w" if "0 < wt_period ?w" using that due(2) by (simp add: lag_def)
    moreover have "1 \<le> lag now ?w" using due(2) by (simp add: lag_def)
    ultimately show ?thesis using 2(4) due r IH less up by (auto simp: Let_def split: if_splits)
  next
    case 3
    obtain k s o' where r: "fire_pass now is st = (k, s, o')" by (metis prod_cases3)
    have IH: "\<forall>i. wt_deadline (st i) \<le> wt_deadline (s i)" "(\<Sum>i \<leftarrow> k. lag now (s i)) + length o' \<le> (\<Sum>i \<leftarrow> is. lag now (st i))"
      using 2(3)[OF refl] 3 r by auto
    have "lag now (s i) \<le> lag now ?w" using IH(1) by (simp add: lag_def nat_mono)
    then show ?thesis using 2(4) 3 r IH by (auto simp: Let_def)
  qed
qed simp

definition sorted_waiters :: "fake \<Rightarrow> nat list" where
  "sorted_waiters f = sort_key (\<lambda>i. wt_deadline (fk_store f i)) (fk_waiters f)"

definition one_pass :: "fake \<Rightarrow> fake \<times> bool" where
  "one_pass f = (case fire_pass (fk_now f) (sorted_waiters f) (fk_store f) of (kept, st, out) \<Rightarrow>
     (f\<lparr>fk_waiters := kept, fk_store := st, fk_fired := fk_fired f @ out\<rparr>, out \<noteq> []))"

definition total_lag :: "fake \<Rightarrow> nat" where
  "total_lag f = (\<Sum>i \<leftarrow> fk_waiters f. lag (fk_now f) (fk_store f i))"

lemma one_pass_behind: "one_pass f = (g, True) \<Longrightarrow> total_lag g < total_lag f"
proof -
  assume g: "one_pass f = (g, True)"
  obtain k s o' where r: "fire_pass (fk_now f) (sorted_waiters f) (fk_store f) = (k, s, o')" by (metis prod_cases3)
  have "(\<Sum>i \<leftarrow> sorted_waiters f. lag (fk_now f) (fk_store f i)) = total_lag f"
    unfolding total_lag_def sorted_waiters_def by (simp flip: sum_mset_sum_list)
  moreover have "g = f\<lparr>fk_waiters := k, fk_store := s, fk_fired := fk_fired f @ o'\<rparr>" "o' \<noteq> []"
    using g r by (auto simp: one_pass_def)
  ultimately show ?thesis using fire_pass_lag[OF r] by (cases o') (auto simp: total_lag_def)
qed

function fireLocked :: "fake \<Rightarrow> fake" where
  "fireLocked f = (case one_pass f of (g, fired) \<Rightarrow> if fired then fireLocked g else g)"
  by pat_completeness auto
termination
proof (relation "measure total_lag")
  fix f g fired assume "(g, fired) = one_pass f" fired
  then have "one_pass f = (g, True)" by simp
  then show "(g, f) \<in> measure total_lag" by (simp add: one_pass_behind)
qed simp

declare fireLocked.simps [simp del]

definition Set_clock :: "int \<Rightarrow> fake \<Rightarrow> fake" where
  "Set_clock t f = (if t < fk_now f then f else fireLocked (f\<lparr>fk_now := t\<rparr>))"

definition Advance :: "int \<Rightarrow> fake \<Rightarrow> fake" where
  "Advance d f = Set_clock (fk_now f + d) f"

definition Waiters :: "fake \<Rightarrow> nat" where
  "Waiters f = length (fk_waiters f)"

definition add :: "nat \<Rightarrow> fake \<Rightarrow> fake" where
  "add i f = f\<lparr>fk_waiters := fk_waiters f @ [i]\<rparr>"

definition remove :: "nat \<Rightarrow> fake \<Rightarrow> bool \<times> fake" where
  "remove i f =
     (if i \<in> set (fk_waiters f) then (True, f\<lparr>fk_waiters := remove1 i (fk_waiters f)\<rparr>)
      else (False, f\<lparr>fk_store := (fk_store f)(i := (fk_store f i)\<lparr>wt_stopped := True\<rparr>)\<rparr>))"

text \<open>A new waiter, in the next free place of the store.\<close>

definition new_waiter :: "int \<Rightarrow> int \<Rightarrow> fake \<Rightarrow> nat \<times> fake" where
  "new_waiter deadline period f =
     (let i = fk_next f
      in (i, add i (f\<lparr>fk_store := (fk_store f)(i := \<lparr>wt_deadline = deadline, wt_chan = None, wt_period = period, wt_stopped = False\<rparr>),
                      fk_next := Suc i\<rparr>)))"

definition NewTimer :: "int \<Rightarrow> fake \<Rightarrow> nat \<times> fake" where
  "NewTimer d f = new_waiter (fk_now f + d) 0 f"

text \<open>A period that is not positive is a panic.\<close>

definition NewTicker :: "int \<Rightarrow> fake \<Rightarrow> (nat \<times> fake) option" where
  "NewTicker d f = (if d \<le> 0 then None else Some (new_waiter (fk_now f + d) d f))"

definition Reset :: "nat \<Rightarrow> int \<Rightarrow> fake \<Rightarrow> bool \<times> fake" where
  "Reset i d f = (case remove i f of (active, g) \<Rightarrow>
     (active, add i (g\<lparr>fk_store := (fk_store g)(i := (fk_store g i)\<lparr>wt_stopped := False, wt_deadline := fk_now g + d\<rparr>)\<rparr>)))"

definition Stop_timer :: "nat \<Rightarrow> fake \<Rightarrow> bool \<times> fake" where
  "Stop_timer i f = remove i f"

definition Stop_ticker :: "nat \<Rightarrow> fake \<Rightarrow> fake" where
  "Stop_ticker i f = snd (remove i f)"

definition Now_fake :: "fake \<Rightarrow> int" where
  "Now_fake f = fk_now f"

text \<open>Whether \<open>BlockUntil\<close> returns in a state; otherwise it waits for the next change of the waiters.\<close>

definition block_until :: "nat \<Rightarrow> fake \<Rightarrow> bool" where
  "block_until n f \<longleftrightarrow> Waiters f = n"

definition receive_tick :: "nat \<Rightarrow> fake \<Rightarrow> int option \<times> fake" where
  "receive_tick i f = (wt_chan (fk_store f i), f\<lparr>fk_store := (fk_store f)(i := (fk_store f i)\<lparr>wt_chan := None\<rparr>)\<rparr>)"

section \<open>What a waiter is owed\<close>

text \<open>The deliveries a waiter gets when the clock stands at \<open>now\<close>, and the waiter afterwards.\<close>

definition ticks :: "int \<Rightarrow> waiter \<Rightarrow> int list" where
  "ticks now w =
     (if \<not> due now w then []
      else if wt_period w \<le> 0 then [wt_deadline w]
      else map (\<lambda>k. wt_deadline w + int k * wt_period w) [0..<Suc (nat ((now - wt_deadline w) div wt_period w))])"

definition settled :: "int \<Rightarrow> waiter \<Rightarrow> waiter" where
  "settled now w = w\<lparr>wt_chan := (case wt_chan w of Some v \<Rightarrow> Some v | None \<Rightarrow> (case ticks now w of [] \<Rightarrow> None | t # _ \<Rightarrow> Some t)),
     wt_deadline := (if 0 < wt_period w then wt_deadline w + int (length (ticks now w)) * wt_period w else wt_deadline w)\<rparr>"

definition tick :: "int \<Rightarrow> waiter \<Rightarrow> waiter" where
  "tick now w = (if due now w then deliver w else w)"

definition stays :: "int \<Rightarrow> waiter \<Rightarrow> bool" where
  "stays now w \<longleftrightarrow> \<not> wt_stopped w \<and> (due now w \<longrightarrow> 0 < wt_period w)"

lemma deliver_sel [simp]:
  "wt_stopped (deliver w) = wt_stopped w" "wt_period (deliver w) = wt_period w"
  "wt_deadline (deliver w) = (if 0 < wt_period w then wt_deadline w + wt_period w else wt_deadline w)"
  "wt_chan (deliver w) = (case wt_chan w of None \<Rightarrow> Some (wt_deadline w) | Some v \<Rightarrow> Some v)"
  by (simp_all add: deliver_def)

lemma settled_sel [simp]:
  "wt_stopped (settled now w) = wt_stopped w" "wt_period (settled now w) = wt_period w"
  "wt_deadline (settled now w) = (if 0 < wt_period w then wt_deadline w + int (length (ticks now w)) * wt_period w else wt_deadline w)"
  "wt_chan (settled now w) = (case wt_chan w of Some v \<Rightarrow> Some v | None \<Rightarrow> (case ticks now w of [] \<Rightarrow> None | t # _ \<Rightarrow> Some t))"
  by (simp_all add: settled_def)

lemma ticks_idle: "\<not> due now w \<Longrightarrow> ticks now w = []"
  by (simp add: ticks_def)

lemma settled_idle: "\<not> due now w \<Longrightarrow> settled now w = w"
  by (rule waiter.equality) (simp_all add: ticks_idle split: option.split)

lemma ticks_once: "due now w \<Longrightarrow> wt_period w \<le> 0 \<Longrightarrow> ticks now w = [wt_deadline w]"
  by (simp add: ticks_def)

lemma settled_once: "due now w \<Longrightarrow> wt_period w \<le> 0 \<Longrightarrow> settled now w = deliver w"
  by (rule waiter.equality) (simp_all add: ticks_once split: option.split)

lemma ticks_again:
  assumes "due now w" "0 < wt_period w"
  shows "ticks now w = wt_deadline w # ticks now (deliver w)"
proof -
  let ?d = "wt_deadline w" and ?p = "wt_period w"
  define q where "q = (now - ?d) div ?p"
  have d: "?d \<le> now" using assms(1) by (simp add: due_def)
  have shift: "(now - (?d + ?p)) div ?p = q - 1"
    using assms(2) div_add_self2[of ?p "now - (?d + ?p)"] by (simp add: q_def)
  have q0: "0 \<le> q" using d assms(2) by (simp add: q_def pos_imp_zdiv_nonneg_iff)
  have again: "due now (deliver w) \<longleftrightarrow> 0 < q"
    using assms d pos_imp_zdiv_pos_iff[of ?p "now - ?d"] by (auto simp: due_def q_def)
  have list: "ticks now w = map (\<lambda>k. ?d + int k * ?p) [0..<Suc (nat q)]" using assms by (simp add: ticks_def q_def del: upt_Suc)
  show ?thesis
  proof (cases "0 < q")
    case True
    then have n: "nat q = Suc (nat (q - 1))" by simp
    have "[0..<Suc (nat q)] = 0 # map Suc [0..<nat q]" by (simp only: upt_conv_Cons map_Suc_upt zero_less_Suc One_nat_def)
    then have "ticks now w = ?d # map (\<lambda>k. ?d + ?p + int k * ?p) [0..<nat q]"
      by (simp add: list algebra_simps comp_def del: upt_Suc)
    moreover have "ticks now (deliver w) = map (\<lambda>k. ?d + ?p + int k * ?p) [0..<Suc (nat (q - 1))]"
      using again True assms(2) shift by (simp add: ticks_def del: upt_Suc)
    ultimately show ?thesis using n by simp
  next
    case False
    then have "q = 0" using q0 by simp
    then show ?thesis using again list by (simp add: ticks_idle)
  qed
qed

lemma settled_again: "due now w \<Longrightarrow> 0 < wt_period w \<Longrightarrow> settled now (deliver w) = settled now w"
  using ticks_again[of now w] by (intro waiter.equality) (auto simp: algebra_simps split: option.split)

lemma settled_step: "stays now w \<Longrightarrow> settled now (tick now w) = settled now w"
  using settled_again by (auto simp: stays_def tick_def)

section \<open>Firing\<close>

lemma fire_pass_each:
  "distinct is \<Longrightarrow> fire_pass now is st = (kept, st', out) \<Longrightarrow>
   st' = (\<lambda>i. if i \<in> set is then tick now (st i) else st i) \<and> kept = filter (\<lambda>i. stays now (st i)) is \<and>
   out = map (\<lambda>i. (i, wt_deadline (st i))) (filter (\<lambda>i. due now (st i)) is)"
proof (induction now "is" st arbitrary: kept st' out rule: fire_pass.induct)
  case (2 now i "is" st)
  have fresh: "i \<notin> set is" "distinct is" using 2(4) by simp_all
  let ?w = "st i" and ?st = "st(i := deliver (st i))"
  consider "wt_stopped ?w" | "\<not> wt_stopped ?w" "wt_deadline ?w \<le> now" | "\<not> wt_stopped ?w" "now < wt_deadline ?w" by linarith
  then show ?case
  proof cases
    case 1
    have idle: "\<not> due now ?w" "\<not> stays now ?w" "tick now ?w = ?w" using 1 by (simp_all add: due_def stays_def tick_def)
    have "fire_pass now is st = (kept, st', out)" using 2(5) 1 by simp
    from 2(1)[OF refl 1 fresh(2) this] show ?thesis using idle by auto
  next
    case now: 2
    have up: "due now ?w" "stays now ?w \<longleftrightarrow> 0 < wt_period ?w" "tick now ?w = deliver ?w"
      using now by (simp_all add: due_def stays_def tick_def)
    obtain k s o' where r: "fire_pass now is ?st = (k, s, o')" by (metis prod_cases3)
    have eqs: "kept = (if 0 < wt_period ?w then i # k else k)" "st' = s" "out = (i, wt_deadline ?w) # o'"
      using 2(5) now r by (auto simp: Let_def)
    have "filter (\<lambda>j. stays now (?st j)) is = filter (\<lambda>j. stays now (st j)) is"
      "filter (\<lambda>j. due now (?st j)) is = filter (\<lambda>j. due now (st j)) is"
      using fresh(1) by (auto intro: filter_cong)
    moreover have "map (\<lambda>j. (j, wt_deadline (?st j))) (filter (\<lambda>j. due now (st j)) is) =
        map (\<lambda>j. (j, wt_deadline (st j))) (filter (\<lambda>j. due now (st j)) is)"
      using fresh(1) by (intro map_cong refl) auto
    moreover have "s = (\<lambda>j. if j \<in> set (i # is) then tick now (st j) else st j)"
      using 2(2)[OF refl now fresh(2) r] up(3) fresh(1) by (auto simp: fun_eq_iff)
    ultimately show ?thesis using 2(2)[OF refl now fresh(2) r] up(1,2) by (simp add: eqs)
  next
    case 3
    have idle: "\<not> due now ?w" "stays now ?w" "tick now ?w = ?w" using 3 by (simp_all add: due_def stays_def tick_def)
    obtain k s o' where r: "fire_pass now is st = (k, s, o')" by (metis prod_cases3)
    have "kept = i # k" "st' = s" "out = o'" using 2(5) 3 r by (auto simp: Let_def)
    moreover have "\<not> wt_deadline ?w \<le> now" using 3(2) by simp
    note 2(3)[OF refl 3(1) this fresh(2) r]
    ultimately show ?thesis using idle by (auto simp: fun_eq_iff)
  qed
qed simp

definition ticks_of :: "nat \<Rightarrow> (nat \<times> int) list \<Rightarrow> int list" where
  "ticks_of i out = map snd (filter (\<lambda>x. fst x = i) out)"

lemma ticks_of_pass:
  "distinct is \<Longrightarrow> ticks_of i (map (\<lambda>i. (i, h i)) (filter P is)) = (if i \<in> set is \<and> P i then [h i] else [])"
  by (induction "is") (auto simp: ticks_of_def)

text \<open>What firing leaves behind, for every waiter.\<close>

definition fires :: "fake \<Rightarrow> fake \<Rightarrow> bool" where
  "fires f g \<longleftrightarrow> fk_now g = fk_now f \<and> fk_next g = fk_next f \<and> distinct (fk_waiters g) \<and>
     set (fk_waiters g) = {i \<in> set (fk_waiters f). stays (fk_now f) (fk_store f i)} \<and>
     (\<forall>i. fk_store g i = (if i \<in> set (fk_waiters f) then settled (fk_now f) (fk_store f i) else fk_store f i)) \<and>
     (\<exists>out. fk_fired g = fk_fired f @ out \<and>
       (\<forall>i. ticks_of i out = (if i \<in> set (fk_waiters f) then ticks (fk_now f) (fk_store f i) else [])))"

lemma settled_tick: "settled now (tick now w) = settled now w" if "stays now w \<or> \<not> due now w"
  using that settled_step[of now w] by (auto simp: tick_def)

lemma one_pass_each:
  assumes "distinct (fk_waiters f)" "one_pass f = (g, fired)"
  shows "fk_now g = fk_now f" "fk_next g = fk_next f"
    "fk_store g = (\<lambda>i. if i \<in> set (fk_waiters f) then tick (fk_now f) (fk_store f i) else fk_store f i)"
    "distinct (fk_waiters g)" "set (fk_waiters g) = {i \<in> set (fk_waiters f). stays (fk_now f) (fk_store f i)}"
    "fk_fired g = fk_fired f @ map (\<lambda>i. (i, wt_deadline (fk_store f i))) (filter (\<lambda>i. due (fk_now f) (fk_store f i)) (sorted_waiters f))"
    "fired \<longleftrightarrow> (\<exists>i \<in> set (fk_waiters f). due (fk_now f) (fk_store f i))"
proof -
  obtain k s o' where r: "fire_pass (fk_now f) (sorted_waiters f) (fk_store f) = (k, s, o')" by (metis prod_cases3)
  have d: "distinct (sorted_waiters f)" "set (sorted_waiters f) = set (fk_waiters f)" using assms(1) by (simp_all add: sorted_waiters_def)
  have g: "g = f\<lparr>fk_waiters := k, fk_store := s, fk_fired := fk_fired f @ o'\<rparr>" "fired \<longleftrightarrow> o' \<noteq> []"
    using assms(2) r by (auto simp: one_pass_def)
  show "fk_now g = fk_now f" "fk_next g = fk_next f" by (simp_all add: g)
  show "distinct (fk_waiters g)" "set (fk_waiters g) = {i \<in> set (fk_waiters f). stays (fk_now f) (fk_store f i)}"
    using fire_pass_each[OF d(1) r] d by (auto simp: g(1))
  show "fk_store g = (\<lambda>i. if i \<in> set (fk_waiters f) then tick (fk_now f) (fk_store f i) else fk_store f i)"
    "fk_fired g = fk_fired f @ map (\<lambda>i. (i, wt_deadline (fk_store f i))) (filter (\<lambda>i. due (fk_now f) (fk_store f i)) (sorted_waiters f))"
    using fire_pass_each[OF d(1) r] d(2) by (simp_all add: g(1))
  show "fired \<longleftrightarrow> (\<exists>i \<in> set (fk_waiters f). due (fk_now f) (fk_store f i))"
    using fire_pass_each[OF d(1) r] d(2) by (auto simp: g(2) filter_empty_conv)
qed

lemma ticks_of_append [simp]: "ticks_of i (xs @ ys) = ticks_of i xs @ ticks_of i ys"
  by (simp add: ticks_of_def)

lemma stays_tick: "stays now w \<Longrightarrow> stays now (tick now w)"
  by (auto simp: stays_def tick_def)

lemma ticks_tick: "ticks now w = (if due now w then [wt_deadline w] else []) @ (if stays now w then ticks now (tick now w) else [])"
  using ticks_again[of now w] ticks_once[of now w] ticks_idle[of now w]
  by (auto simp: stays_def tick_def due_def not_less)

lemma settled_gone: "\<not> stays now w \<Longrightarrow> settled now w = tick now w"
  using settled_once[of now w] settled_idle[of now w] by (auto simp: stays_def tick_def due_def not_less)

lemma fire_fires: "distinct (fk_waiters f) \<Longrightarrow> fires f (fireLocked f)"
proof (induction f rule: fireLocked.induct)
  case (1 f)
  obtain g fired where g: "one_pass f = (g, fired)" by (metis prod.exhaust)
  note pass = one_pass_each[OF 1(2) g]
  have first: "ticks_of i (map (\<lambda>i. (i, wt_deadline (fk_store f i))) (filter (\<lambda>i. due (fk_now f) (fk_store f i)) (sorted_waiters f))) =
      (if i \<in> set (fk_waiters f) \<and> due (fk_now f) (fk_store f i) then [wt_deadline (fk_store f i)] else [])" for i
    using ticks_of_pass[of "sorted_waiters f" i "\<lambda>i. wt_deadline (fk_store f i)"] 1(2) by (simp add: sorted_waiters_def)
  show ?case
  proof (cases fired)
    case False
    then have none: "\<forall>i \<in> set (fk_waiters f). \<not> due (fk_now f) (fk_store f i)" using pass(7) by simp
    have "fireLocked f = g" using g False by (simp add: fireLocked.simps[of f])
    then show ?thesis using pass none first
      by (simp add: fires_def tick_def settled_idle ticks_idle)
  next
    case True
    then have run: "fireLocked f = fireLocked g" using g by (simp add: fireLocked.simps[of f])
    have "fires g (fireLocked g)" using 1(1)[OF g[symmetric] True pass(4)] .
    then obtain out where h: "fk_now (fireLocked g) = fk_now f" "fk_next (fireLocked g) = fk_next f" "distinct (fk_waiters (fireLocked g))"
        "set (fk_waiters (fireLocked g)) = {i \<in> set (fk_waiters g). stays (fk_now f) (fk_store g i)}"
        "\<forall>i. fk_store (fireLocked g) i = (if i \<in> set (fk_waiters g) then settled (fk_now f) (fk_store g i) else fk_store g i)"
        "fk_fired (fireLocked g) = fk_fired g @ out"
        "\<forall>i. ticks_of i out = (if i \<in> set (fk_waiters g) then ticks (fk_now f) (fk_store g i) else [])"
      by (auto simp: fires_def pass(1,2))
    have waits: "set (fk_waiters (fireLocked g)) = {i \<in> set (fk_waiters f). stays (fk_now f) (fk_store f i)}"
      using h(4) by (auto simp: pass(3,5) stays_tick)
    have store: "fk_store (fireLocked g) i = (if i \<in> set (fk_waiters f) then settled (fk_now f) (fk_store f i) else fk_store f i)" for i
      using h(5)[rule_format, of i] by (auto simp: pass(3,5) settled_step settled_gone)
    have all: "(if i \<in> set (fk_waiters f) \<and> due (fk_now f) (fk_store f i) then [wt_deadline (fk_store f i)] else []) @ ticks_of i out =
        (if i \<in> set (fk_waiters f) then ticks (fk_now f) (fk_store f i) else [])" for i
      using h(7) ticks_tick[of "fk_now f" "fk_store f i"] by (auto simp: pass(3,5))
    show ?thesis unfolding run fires_def using h(1-3,6) waits store all first
      by (auto simp: pass(6))
  qed
qed

section \<open>The invariant of the clock\<close>

definition fk_ok :: "fake \<Rightarrow> bool" where
  "fk_ok f \<longleftrightarrow> distinct (fk_waiters f) \<and> (\<forall>i \<in> set (fk_waiters f). i < fk_next f)"

lemma ok_new_fake: "fk_ok (NewFake t)"
  by (simp add: fk_ok_def NewFake_def)

lemma ok_set: "fk_ok f \<Longrightarrow> fk_ok (Set_clock t f)"
  using fire_fires[of "f\<lparr>fk_now := t\<rparr>"] by (auto simp: fk_ok_def Set_clock_def fires_def)

lemma ok_advance: "fk_ok f \<Longrightarrow> fk_ok (Advance d f)"
  by (simp add: Advance_def ok_set)

lemma ok_new_waiter: "fk_ok f \<Longrightarrow> fk_ok (snd (new_waiter d p f))"
  by (auto simp: fk_ok_def new_waiter_def add_def Let_def)

lemma ok_remove: "fk_ok f \<Longrightarrow> fk_ok (snd (remove i f))"
  by (auto simp: fk_ok_def remove_def dest: notin_set_remove1)

lemma ok_reset: "fk_ok f \<Longrightarrow> i < fk_next f \<Longrightarrow> fk_ok (snd (Reset i d f))"
  by (auto simp: fk_ok_def Reset_def remove_def add_def)

lemma ok_receive: "fk_ok f \<Longrightarrow> fk_ok (snd (receive_tick i f))"
  by (simp add: fk_ok_def receive_tick_def)

section \<open>Setting the clock\<close>

lemma settled_later: "stays now w \<Longrightarrow> \<not> due now (settled now w)"
proof (cases "due now w")
  case True
  assume "stays now w"
  then have p: "0 < wt_period w" using True by (simp add: stays_def)
  let ?q = "(now - wt_deadline w) div wt_period w"
  have "0 \<le> ?q" using True p by (simp add: due_def pos_imp_zdiv_nonneg_iff)
  then have "int (length (ticks now w)) = ?q + 1" using True p by (simp add: ticks_def del: upt_Suc)
  moreover have "now - wt_deadline w < (?q + 1) * wt_period w"
    using p by (metis add.commute distrib_left mult.commute mult.right_neutral pos_mod_bound mult_div_mod_eq add_less_cancel_left)
  ultimately show ?thesis using p by (simp add: due_def)
qed (simp add: settled_idle)

text \<open>Setting the fake clock forward to \<open>t\<close> keeps every waiter's account exactly: a one-shot timer that is due fires once and
  leaves, a ticker fires once for every period that has elapsed and is rearmed after \<open>t\<close>, a waiter that is not due keeps its
  deadline, nothing due is left, the one-slot channel keeps the first tick, and setting it backwards does nothing.\<close>

theorem set_delivers:
  assumes "fk_ok f"
  shows "if t < fk_now f then Set_clock t f = f
    else fk_now (Set_clock t f) = t \<and> fk_ok (Set_clock t f) \<and>
      (\<forall>i. i \<in> set (fk_waiters (Set_clock t f)) \<longleftrightarrow> i \<in> set (fk_waiters f) \<and> stays t (fk_store f i)) \<and>
      (\<forall>i. i \<in> set (fk_waiters (Set_clock t f)) \<longrightarrow> \<not> due t (fk_store (Set_clock t f) i)) \<and>
      (\<forall>i. fk_store (Set_clock t f) i = (if i \<in> set (fk_waiters f) then settled t (fk_store f i) else fk_store f i)) \<and>
      (\<exists>out. fk_fired (Set_clock t f) = fk_fired f @ out \<and>
        (\<forall>i. ticks_of i out = (if i \<in> set (fk_waiters f) then ticks t (fk_store f i) else [])))"
proof (cases "t < fk_now f")
  case True
  then show ?thesis by (simp add: Set_clock_def)
next
  case False
  then have run: "Set_clock t f = fireLocked (f\<lparr>fk_now := t\<rparr>)" by (simp add: Set_clock_def)
  have "fires (f\<lparr>fk_now := t\<rparr>) (Set_clock t f)" unfolding run by (rule fire_fires) (use assms in \<open>simp add: fk_ok_def\<close>)
  then show ?thesis using False ok_set[OF assms, of t] by (auto simp: fires_def settled_later)
qed

text \<open>Two tickers, of periods 1 and 3, from 0 to 3. The tick of the faster one that is behind comes after a later deadline.\<close>

definition two_tickers :: fake where
  "two_tickers = snd (new_waiter 3 3 (snd (new_waiter 1 1 (NewFake 0))))"

lemma two_tickers_ok: "fk_ok two_tickers"
  by (simp add: two_tickers_def ok_new_waiter ok_new_fake)

lemma two_tickers_at_three:
  "fk_fired (Advance 3 two_tickers) = [(0, 1), (1, 3), (0, 2), (0, 3)]"
  by code_simp

theorem set_delivers_witness:
  "ticks 3 (fk_store two_tickers 0) = [1, 2, 3] \<and> fk_now (Set_clock 3 two_tickers) = 3 \<and> Set_clock (-1) two_tickers = two_tickers \<and>
   fk_store (Set_clock 3 two_tickers) 0 = settled 3 (fk_store two_tickers 0)"
proof -
  have now: "fk_now two_tickers = 0" "0 \<in> set (fk_waiters two_tickers)" by code_simp+
  have "ticks 3 (fk_store two_tickers 0) = [1, 2, 3]" by code_simp
  then show ?thesis using set_delivers[OF two_tickers_ok, of "-1"] set_delivers[OF two_tickers_ok, of 3] now by simp
qed

section \<open>Sleeping\<close>

text \<open>\<open>SleepUntil\<close> on the fake clock: it either returns at once, or registers a waiter and is woken by its channel or by the
  end of its context.\<close>

datatype slept = Woke | Cancelled

definition sleep_begin :: "int \<Rightarrow> bool \<Rightarrow> fake \<Rightarrow> (slept + nat) \<times> fake" where
  "sleep_begin deadline cancelled f =
     (if deadline \<le> fk_now f then (Inl (if cancelled then Cancelled else Woke), f)
      else (case new_waiter deadline 0 f of (i, g) \<Rightarrow> (Inr i, g)))"

text \<open>The outcomes the \<open>select\<close> may take in a state.\<close>

definition sleep_ends :: "nat \<Rightarrow> bool \<Rightarrow> fake \<Rightarrow> (slept \<times> fake) list" where
  "sleep_ends i cancelled f =
     (if wt_chan (fk_store f i) \<noteq> None then [(Woke, snd (receive_tick i f))] else []) @
     (if cancelled then [(Cancelled, snd (remove i f))] else [])"

text \<open>What the other goroutines may do to the clock while one waiter \<open>i\<close> sleeps.\<close>

inductive other :: "nat \<Rightarrow> fake \<Rightarrow> fake \<Rightarrow> bool" for i where
  other_set: "other i f (Set_clock t f)"
| other_new: "other i f (snd (new_waiter d p f))"
| other_remove: "j \<noteq> i \<Longrightarrow> other i f (snd (remove j f))"
| other_reset: "j \<noteq> i \<Longrightarrow> j < fk_next f \<Longrightarrow> other i f (snd (Reset j d f))"
| other_receive: "j \<noteq> i \<Longrightarrow> other i f (snd (receive_tick j f))"

definition asleep :: "nat \<Rightarrow> int \<Rightarrow> fake \<Rightarrow> bool" where
  "asleep i d f \<longleftrightarrow> fk_ok f \<and> i < fk_next f \<and> \<not> wt_stopped (fk_store f i) \<and> wt_period (fk_store f i) = 0 \<and>
     wt_deadline (fk_store f i) = d \<and>
     (if d \<le> fk_now f then i \<notin> set (fk_waiters f) \<and> wt_chan (fk_store f i) = Some d
      else i \<in> set (fk_waiters f) \<and> wt_chan (fk_store f i) = None)"

lemma asleep_set: "asleep i d f \<Longrightarrow> asleep i d (Set_clock t f)"
proof (cases "t < fk_now f")
  case False
  assume a: "asleep i d f"
  have "fires (f\<lparr>fk_now := t\<rparr>) (Set_clock t f)"
    using fire_fires[of "f\<lparr>fk_now := t\<rparr>"] a False by (simp add: Set_clock_def asleep_def fk_ok_def)
  moreover have "fk_ok (Set_clock t f)" using a by (simp add: asleep_def ok_set)
  ultimately show ?thesis using a False
    by (auto simp: asleep_def fires_def stays_def due_def ticks_def settled_idle split: if_splits)
qed (simp add: Set_clock_def)

lemma other_asleep: "other i f g \<Longrightarrow> asleep i d f \<Longrightarrow> asleep i d g"
proof (induction rule: other.induct)
  case (other_set f t)
  then show ?case by (rule asleep_set)
next
  case (other_new f d' p)
  then have "i < fk_next f" "fk_ok (snd (new_waiter d' p f))" by (simp_all add: asleep_def ok_new_waiter)
  then show ?case using other_new by (auto simp: asleep_def new_waiter_def add_def Let_def)
next
  case (other_remove j f)
  then show ?case using ok_remove[of f j] by (auto simp: asleep_def remove_def)
next
  case (other_reset j f d')
  then show ?case using ok_reset[of f j d'] by (auto simp: asleep_def Reset_def remove_def add_def)
next
  case (other_receive j f)
  then show ?case using ok_receive[of f j] by (auto simp: asleep_def receive_tick_def)
qed

lemma others_asleep: "(other i)\<^sup>*\<^sup>* f g \<Longrightarrow> asleep i d f \<Longrightarrow> asleep i d g"
  by (induction rule: rtranclp_induct) (auto intro: other_asleep)

lemma asleep_begin: "fk_ok f \<Longrightarrow> sleep_begin d c f = (Inr i, g) \<Longrightarrow> asleep i d g \<and> fk_now g = fk_now f"
  using ok_new_waiter[of f d 0] by (auto simp: sleep_begin_def asleep_def new_waiter_def add_def Let_def split: if_splits)

text \<open>C35. A sleeper of the fake clock is woken exactly at its deadline: however the clock is moved and whatever other timers,
  tickers and sleepers do meanwhile, it can be woken when and only when the clock has reached the deadline, it is woken with the
  deadline in its channel, and it can report a cancellation only when its context has ended.\<close>

theorem sleep_exact:
  assumes "fk_ok f" "sleep_begin d c f = (r, g)"
  shows "case r of
      Inl s \<Rightarrow> d \<le> fk_now f \<and> g = f \<and> (s = Cancelled \<longleftrightarrow> c)
    | Inr i \<Rightarrow> fk_now f < d \<and> (\<forall>h. (other i)\<^sup>*\<^sup>* g h \<longrightarrow>
        (wt_chan (fk_store h i) = (if d \<le> fk_now h then Some d else None)) \<and>
        (\<forall>c'. (Woke \<in> fst ` set (sleep_ends i c' h) \<longleftrightarrow> d \<le> fk_now h) \<and> (Cancelled \<in> fst ` set (sleep_ends i c' h) \<longleftrightarrow> c')))"
proof (cases r)
  case (Inl s)
  then show ?thesis using assms(2) by (auto simp: sleep_begin_def split: if_splits prod.splits)
next
  case (Inr i)
  have "fk_now f < d" using assms(2) Inr by (auto simp: sleep_begin_def split: if_splits)
  moreover have "asleep i d g" using asleep_begin[OF assms(1)] assms(2) Inr by simp
  then have "asleep i d h" if "(other i)\<^sup>*\<^sup>* g h" for h using others_asleep[OF that] by simp
  ultimately show ?thesis using Inr by (auto simp: asleep_def sleep_ends_def split: if_splits)
qed

theorem sleep_exact_witness:
  "\<exists>g. sleep_begin 5 False (NewFake 0) = (Inr 0, g) \<and>
    wt_chan (fk_store (Set_clock 4 g) 0) = None \<and> wt_chan (fk_store (Set_clock 7 g) 0) = Some 5"
proof -
  obtain g where g: "sleep_begin 5 False (NewFake 0) = (Inr 0, g)"
    by (simp add: sleep_begin_def NewFake_def new_waiter_def Let_def)
  have now: "fk_now g = 0" using asleep_begin[OF ok_new_fake g] by (simp add: NewFake_def)
  have "(other 0)\<^sup>*\<^sup>* g (Set_clock t g)" for t by (intro r_into_rtranclp other_set)
  moreover have "fk_now (Set_clock t g) = t" if "0 \<le> t" for t
    using that now asleep_begin[OF ok_new_fake g] fire_fires[of "g\<lparr>fk_now := t\<rparr>"]
    by (simp add: Set_clock_def fires_def asleep_def fk_ok_def)
  ultimately show ?thesis using g sleep_exact[OF ok_new_fake g] by auto
qed

section \<open>The contract of a clock\<close>

text \<open>What the callers of \<open>Clock.SleepUntil\<close> rely on, whichever clock it is: a sleep to \<open>deadline\<close> that starts at \<open>start\<close>, with a
  context that ends at \<open>until\<close> or never, has a result and a time at which it returns.\<close>

locale sleeper =
  fixes sleeps :: "int \<Rightarrow> int \<Rightarrow> int option \<Rightarrow> slept \<Rightarrow> int \<Rightarrow> bool"
  assumes never_early: "sleeps deadline start until Woke e \<Longrightarrow> deadline \<le> e"
    and forward: "sleeps deadline start until r e \<Longrightarrow> start \<le> e"
    and cut_short: "sleeps deadline start until Cancelled e \<Longrightarrow> \<exists>k. until = Some k \<and> k \<le> e"
begin

text \<open>A loop that sleeps to each of its deadlines in turn, and when it comes back from each.\<close>

fun paced :: "int option \<Rightarrow> int \<Rightarrow> int list \<Rightarrow> int list \<Rightarrow> bool" where
  "paced until start [] [] = True"
| "paced until start (d # ds) (e # es) = (sleeps d start until Woke e \<and> paced until e ds es)"
| "paced until start _ _ = False"

lemma paced_from: "paced until start ds es \<Longrightarrow> sorted (start # es)"
proof (induction until start ds es rule: paced.induct)
  case (2 until start d ds e es)
  then show ?case using forward[of d start until Woke e] by auto
qed simp_all

lemma paced_never_early: "paced until start ds es \<Longrightarrow> list_all2 (\<le>) ds es"
  by (induction until start ds es rule: paced.induct) (auto intro: never_early)

end

text \<open>\<open>Real\<close>: a deadline that has passed returns at once, otherwise the runtime's timer, which never fires early, is raced
  against the context.\<close>

definition real_sleep :: "int \<Rightarrow> int \<Rightarrow> int option \<Rightarrow> slept \<Rightarrow> int \<Rightarrow> bool" where
  "real_sleep deadline start until r e \<longleftrightarrow>
     (if deadline \<le> start
      then e = start \<and> r = (case until of Some k \<Rightarrow> if k \<le> start then Cancelled else Woke | None \<Rightarrow> Woke)
      else (case r of
          Woke \<Rightarrow> deadline \<le> e
        | Cancelled \<Rightarrow> start \<le> e \<and> (case until of Some k \<Rightarrow> k \<le> e | None \<Rightarrow> False)))"

interpretation real_clock: sleeper real_sleep
  by unfold_locales (auto simp: real_sleep_def split: if_splits option.splits slept.splits)

text \<open>\<open>Fake\<close>: the states between the call and the return are reached by the other users of the clock.\<close>

definition cancelled_at :: "int option \<Rightarrow> int \<Rightarrow> bool" where
  "cancelled_at until now = (case until of Some k \<Rightarrow> k \<le> now | None \<Rightarrow> False)"

definition fake_sleep :: "int \<Rightarrow> int \<Rightarrow> int option \<Rightarrow> slept \<Rightarrow> int \<Rightarrow> bool" where
  "fake_sleep deadline start until r e \<longleftrightarrow> (\<exists>f. fk_ok f \<and> fk_now f = start \<and>
     (case sleep_begin deadline (cancelled_at until start) f of
        (Inl s, _) \<Rightarrow> r = s \<and> e = start
      | (Inr i, g) \<Rightarrow> \<exists>h. (other i)\<^sup>*\<^sup>* g h \<and> fk_now h = e \<and> r \<in> fst ` set (sleep_ends i (cancelled_at until e) h)))"

lemma asleep_forward: "(other i)\<^sup>*\<^sup>* g h \<Longrightarrow> asleep i d g \<Longrightarrow> fk_now g \<le> fk_now h"
proof (induction rule: rtranclp_induct)
  case (step h k)
  have "asleep i d h" using others_asleep step by blast
  then have "fires (h\<lparr>fk_now := t\<rparr>) (fireLocked (h\<lparr>fk_now := t\<rparr>))" for t by (intro fire_fires) (simp add: asleep_def fk_ok_def)
  then have "fk_now (fireLocked (h\<lparr>fk_now := t\<rparr>)) = t" for t by (simp add: fires_def)
  then have "fk_now h \<le> fk_now k" using step(2)
    by (auto elim!: other.cases simp: Set_clock_def new_waiter_def add_def remove_def Reset_def receive_tick_def Let_def)
  then show ?case using step by simp
qed simp

lemma fake_sleep_ends:
  assumes "fake_sleep d s until r e"
  shows "s \<le> e \<and> (r = Woke \<longrightarrow> d \<le> e) \<and> (r = Cancelled \<longrightarrow> cancelled_at until e)"
proof -
  obtain f where f: "fk_ok f" "fk_now f = s"
    "case sleep_begin d (cancelled_at until s) f of (Inl s', _) \<Rightarrow> r = s' \<and> e = s
      | (Inr i, g) \<Rightarrow> \<exists>h. (other i)\<^sup>*\<^sup>* g h \<and> fk_now h = e \<and> r \<in> fst ` set (sleep_ends i (cancelled_at until e) h)"
    using assms by (auto simp: fake_sleep_def)
  show ?thesis
  proof (cases "d \<le> s")
    case True
    then show ?thesis using f by (auto simp: sleep_begin_def split: if_splits)
  next
    case False
    obtain i g where b: "sleep_begin d (cancelled_at until s) f = (Inr i, g)"
      using False f(2) by (cases "new_waiter d 0 f") (simp add: sleep_begin_def)
    then obtain h where h: "(other i)\<^sup>*\<^sup>* g h" "fk_now h = e" "r \<in> fst ` set (sleep_ends i (cancelled_at until e) h)"
      using f(3) by auto
    have "asleep i d g" "fk_now g = s" using asleep_begin[OF f(1) b] f(2) by simp_all
    then have "asleep i d h" "s \<le> e" using others_asleep[OF h(1)] asleep_forward[OF h(1)] h(2) by auto
    then show ?thesis using h by (auto simp: asleep_def sleep_ends_def split: if_splits)
  qed
qed

interpretation fake_clock: sleeper fake_sleep
  by unfold_locales (auto dest: fake_sleep_ends simp: cancelled_at_def split: option.splits)

end
