(* ===== verification/Render.thy ===== *)
theory Render
  imports Report
begin

text \<open>
  \<open>internal/render/cli/cli.go\<close>: the summary a terminal shows, a function of the result. Strings are bytes, so \<open>len\<close> and \<open>pad\<close> count
  bytes as they do in Go. The paths of the artifacts are an argument, since the result built here has none.
\<close>

section \<open>Painting\<close>

definition ESC :: char where "ESC = CHR 0x1B"

definition reset :: string where "reset = ESC # ''[0m''"
definition bold :: string where "bold = ESC # ''[1m''"
definition dim :: string where "dim = ESC # ''[2m''"
definition red :: string where "red = ESC # ''[31m''"
definition green :: string where "green = ESC # ''[32m''"
definition yellow :: string where "yellow = ESC # ''[33m''"
definition cyan :: string where "cyan = ESC # ''[36m''"

lemmas paints = reset_def bold_def dim_def red_def green_def yellow_def cyan_def

definition paint :: "bool \<Rightarrow> string \<Rightarrow> string \<Rightarrow> string" where
  "paint on code s = (if \<not> on \<or> s = [] then s else code @ s @ reset)"

definition labelWidth :: nat where "labelWidth = 9"

definition pad :: "string \<Rightarrow> nat \<Rightarrow> string" where
  "pad s w = (if w \<le> length s then s else s @ replicate (w - length s) CHR '' '')"

definition nl :: string where "nl = [CHR 0x0A]"

definition dot :: string where "dot = [CHR 0xC2, CHR 0xB7]"

definition arrow :: string where "arrow = [CHR 0xE2, CHR 0x86, CHR 0x92]"

section \<open>Numbers\<close>

definition humanMS :: "real \<Rightarrow> string" where
  "humanMS v =
     (if v = 0 then ''0''
      else if v < 1 then fixed 2 v @ ''ms''
      else if v < 10 then fixed 1 v @ ''ms''
      else if v < 1000 then fixed 0 v @ ''ms''
      else if v < 60000 then fixed 1 (v / 1000) @ ''s''
      else fixed 1 (v / 60000) @ ''m'')"

fun budget_value :: "float64 \<Rightarrow> (real \<Rightarrow> string) \<Rightarrow> string" where
  "budget_value (Fin r) f = f r"
| "budget_value PosInf f = ''+Inf''"
| "budget_value NegInf f = ''-Inf''"
| "budget_value NaN f = ''NaN''"

definition formatBudget :: "string \<Rightarrow> real \<Rightarrow> string" where
  "formatBudget metric v = (if metric = ''error_rate'' then fixed 2 (v * 100) @ ''%'' else humanMS v)"

section \<open>Prose\<close>

text \<open>The loop of \<open>wrap\<close>: the line that is being filled and the words that are left.\<close>

fun wrap_lines :: "int \<Rightarrow> string \<Rightarrow> string list \<Rightarrow> string list" where
  "wrap_lines width line [] = [line]"
| "wrap_lines width line (w # ws) =
     (if width < int (length line) + 1 + int (length w) then line # wrap_lines width w ws
      else wrap_lines width (line @ '' '' @ w) ws)"

definition wrap :: "string \<Rightarrow> int \<Rightarrow> string \<Rightarrow> string" where
  "wrap s width indent =
     (case GoStrings.fields s of [] \<Rightarrow> []
      | w # ws \<Rightarrow> join (wrap_lines (if width < 20 then 20 else width) w ws) (nl @ indent))"

section \<open>Tables\<close>

text \<open>The width of each column of the header: its widest cell in any row.\<close>

definition widths :: "string list list \<Rightarrow> nat list" where
  "widths rows = (case rows of [] \<Rightarrow> [] | r0 # _ \<Rightarrow>
     map (\<lambda>i. foldl (\<lambda>m row. if i < length row \<and> m < length (row ! i) then length (row ! i) else m) 0 rows) [0..<length r0])"

fun cells :: "nat list \<Rightarrow> string list \<Rightarrow> string list" where
  "cells ws [] = []"
| "cells ws [c] = [c]"
| "cells ws (c # d # cs) = pad c (hd ws) # cells (tl ws) (d # cs)"

definition trim_right :: "string \<Rightarrow> string" where
  "trim_right s = rev (dropWhile (\<lambda>c. c = CHR '' '') (rev s))"

definition trim_left :: "string \<Rightarrow> string" where
  "trim_left s = dropWhile (\<lambda>c. c = CHR '' '') s"

definition table_row :: "nat list \<Rightarrow> string \<Rightarrow> string list \<Rightarrow> string" where
  "table_row ws indent row = trim_right (indent @ join (cells ws row) ''  '')"

definition writeTable :: "bool \<Rightarrow> string list list \<Rightarrow> string \<Rightarrow> string" where
  "writeTable on rows indent =
     (case rows of [] \<Rightarrow> []
      | r0 # rs \<Rightarrow> indent @ paint on dim (trim_left (table_row (widths rows) indent r0)) @ nl @
          concat (map (\<lambda>row. table_row (widths rows) indent row @ nl) rs))"

section \<open>The sections of the summary\<close>

record render_options =
  op_colour :: bool
  op_verbose :: bool
  op_width :: int

record artifacts =
  af_result :: string
  af_report :: string
  af_events :: string
  af_digest :: string

fun status_text :: "status \<Rightarrow> string" where
  "status_text StatusCompleted = ''completed''"
| "status_text StatusInterrupted = ''interrupted''"
| "status_text StatusAborted = ''aborted''"
| "status_text StatusFailed = ''failed''"

fun bottleneck_text :: "bottleneck \<Rightarrow> string" where
  "bottleneck_text BottleneckClient = ''client''"
| "bottleneck_text BottleneckNone = ''none''"
| "bottleneck_text BottleneckInconclusive = ''inconclusive''"

fun confidence_text :: "confidence \<Rightarrow> string" where
  "confidence_text ConfidenceHigh = ''high''"
| "confidence_text ConfidenceMedium = ''medium''"
| "confidence_text ConfidenceLow = ''low''"

definition writeHeader :: "bool \<Rightarrow> result_doc \<Rightarrow> string" where
  "writeHeader on r =
     (let run = rs_run r;
          name = (if ru_name run = [] then ru_id run else ru_name run);
          elapsed = (if ru_elapsed_ms run = 0 then ru_duration_ms run else ru_elapsed_ms run);
          detail = status_text (ru_status run) @ '' over '' @ humanMS elapsed @ '' '' @ dot @ '' '' @ itoa (ru_bucket_count run) @
            '' bucket(s) of '' @ humanMS (ru_bucket_ms run) @ '' '' @ dot @ '' seed '' @ itoa (ru_seed run) @
            (if ru_interrupted run \<noteq> [] then '' '' @ dot @ '' '' @ ru_interrupted run else [])
      in nl @ paint on bold ''TracePoint'' @ ''  '' @ paint on dim name @ nl @ ''  '' @ paint on dim detail @ nl @ nl)"

definition finding_lines :: "bool \<Rightarrow> int \<Rightarrow> finding \<Rightarrow> string" where
  "finding_lines on width f =
     ''    '' @ (if fi_severity f = SeverityError then paint on red ''x'' else paint on yellow ''!'') @ '' '' @
     wrap (fi_message f) (width - 6) ''      '' @ nl @
     (if fi_fix f \<noteq> [] then ''      '' @ paint on dim (wrap (''fix: '' @ fi_fix f) (width - 6) ''      '') @ nl else [])"

definition writeValidity :: "bool \<Rightarrow> int \<Rightarrow> result_doc \<Rightarrow> string" where
  "writeValidity on width r =
     (let v = an_validity (rs_analysis r)
      in ''  '' @ paint on bold (pad ''RUN'' labelWidth) @ '' '' @
         (case va_state v of ValidityValid \<Rightarrow> paint on green ''VALID'' | ValidityDegraded \<Rightarrow> paint on yellow ''DEGRADED''
          | ValidityInvalid \<Rightarrow> paint on red ''INVALID'') @ nl @
         concat (map (finding_lines on width) (va_findings v)) @ (if va_findings v \<noteq> [] then nl else []))"

definition check_line :: "bool \<Rightarrow> slo_check \<Rightarrow> string" where
  "check_line on c =
     ''    '' @ (if sc_pass c then paint on green (pad ''ok'' 4) else paint on red (pad ''over'' 4)) @ '' '' @
     pad (sc_runner c) 6 @ '' '' @ pad (sc_metric c) 10 @ ''  '' @ pad (formatBudget (sc_metric c) (sc_actual c)) 10 @ '' '' @
     paint on dim (''budget '' @ budget_value (sc_budget c) (formatBudget (sc_metric c))) @ nl"

definition writeSLO :: "bool \<Rightarrow> result_doc \<Rightarrow> string" where
  "writeSLO on r =
     (let s = an_slo (rs_analysis r); label = ''  '' @ paint on bold (pad ''SLO'' labelWidth) @ '' ''
      in if sl_checks s = [] then label @ paint on dim ''no budgets configured'' @ nl @ nl
         else label @ (if sl_pass s then paint on green ''PASS'' else paint on red ''FAIL'') @ nl @
           concat (map (check_line on) (sl_checks s)) @ nl)"

text \<open>The classes of \<open>formatErrors\<close>, worst first and then by name. The counts are a map, so no class occurs twice.\<close>

definition error_order :: "(string \<times> int) list \<Rightarrow> (string \<times> int) list" where
  "error_order m = sort_key (\<lambda>kv. - snd kv) (sort_key fst m)"

definition formatErrors :: "(string \<times> int) list \<Rightarrow> string" where
  "formatErrors m = join (map (\<lambda>(k, n). k @ '' '' @ itoa n) (error_order m)) '', ''"

definition summary_cells :: "op_summary \<Rightarrow> string list" where
  "summary_cells s = [itoa (os_n s), fixed 1 (os_rps s), fixed 2 (os_error_ratio s * 100) @ ''%'',
     humanMS (q_p50 (os_response s)), humanMS (q_p95 (os_response s)), humanMS (q_p99 (os_response s))]"

definition runner_rows :: "runner_doc list \<Rightarrow> string list list" where
  "runner_rows rns = [''RUNNER'', ''KIND'', ''N'', ''RPS'', ''ERR'', ''p50'', ''p95'', ''p99'', ''max''] #
     map (\<lambda>rn. rr_name rn # rr_kind rn # summary_cells (rr_summary rn) @ [humanMS (q_max (os_response (rr_summary rn)))]) rns"

definition wait_line :: "bool \<Rightarrow> runner_doc \<Rightarrow> string" where
  "wait_line on rn =
     (let s = rr_summary rn; p99 = q_p99 (os_response s); part = q_p99 (os_wait s) / p99
      in if p99 \<le> 0 then []
         else if 1 / 5 < part
         then ''  '' @ paint on yellow (fixed 0 (part * 100) @ ''% of '' @ rr_name rn @ '' p99 ('' @ humanMS p99 @
           '') was waiting inside the generator; '' @ rr_name rn @ '' itself took '' @ humanMS (q_p99 (os_service s))) @ nl
         else [])"

definition dropped_line :: "bool \<Rightarrow> runner_doc \<Rightarrow> string" where
  "dropped_line on rn =
     (case rr_executor rn of None \<Rightarrow> []
      | Some es \<Rightarrow> if es_dropped es = 0 then []
          else ''  '' @ paint on yellow (rr_name rn @ '' dropped '' @ itoa (es_dropped es) @ '' of '' @ itoa (es_offered es) @
            '' arrivals ('' @ fixed 1 (es_dropped_ratio es * 100) @ ''%) because every worker was busy'') @ nl)"

definition error_rows :: "runner_doc list \<Rightarrow> string list list" where
  "error_rows rns = [''RUNNER'', ''ERRORS''] #
     [[rr_name rn, formatErrors (os_errors (rr_summary rn))]. rn \<leftarrow> rns, os_errors (rr_summary rn) \<noteq> []]"

definition writeRunners :: "bool \<Rightarrow> result_doc \<Rightarrow> string" where
  "writeRunners on r =
     (let rns = rs_runners r
      in writeTable on (runner_rows rns) ''  '' @ concat (map (wait_line on) rns) @ concat (map (dropped_line on) rns) @
         (if \<exists>rn \<in> set rns. os_errors (rr_summary rn) \<noteq> [] then nl @ writeTable on (error_rows rns) ''  '' else []) @ nl)"

definition label_rows :: "runner_doc \<Rightarrow> string list list" where
  "label_rows rn = [''LABEL'', ''N'', ''RPS'', ''ERR'', ''p50'', ''p95'', ''p99''] #
     map (\<lambda>name. name # summary_cells (the (map_of (rr_label_summaries rn) name))) (SortedLabels rn)"

definition writeLabels :: "bool \<Rightarrow> result_doc \<Rightarrow> string" where
  "writeLabels on r = concat (map (\<lambda>rn. if SortedLabels rn = [] then []
     else ''  '' @ paint on bold (rr_name rn @ '' by label'') @ nl @ writeTable on (label_rows rn) ''  '' @ nl) (rs_runners r))"

definition writeVerdict :: "bool \<Rightarrow> int \<Rightarrow> result_doc \<Rightarrow> string" where
  "writeVerdict on width r =
     (let v = an_verdict (rs_analysis r);
          colour = (case vd_bottleneck v of BottleneckNone \<Rightarrow> green | BottleneckClient \<Rightarrow> red | _ \<Rightarrow> cyan)
      in ''  '' @ paint on bold (pad ''VERDICT'' labelWidth) @ '' '' @ paint on colour (to_upper (bottleneck_text (vd_bottleneck v))) @ ''  '' @
         paint on dim (''confidence: '' @ confidence_text (vd_confidence v)) @ nl @
         (if vd_summary v \<noteq> [] then ''    '' @ wrap (vd_summary v) (width - 4) ''    '' @ nl else []) @
         concat (map (\<lambda>e. ''    '' @ paint on dim dot @ '' '' @ wrap (ev_text e) (width - 6) ''      '' @ nl) (vd_evidence v)) @
         (if vd_caveat v \<noteq> [] then ''    '' @ paint on dim (vd_caveat v) @ nl else []) @
         concat (map (\<lambda>s. ''    '' @ paint on cyan arrow @ '' '' @ wrap s (width - 6) ''      '' @ nl) (vd_next_steps v)) @ nl)"

definition artifact_line :: "bool \<Rightarrow> string \<times> string \<Rightarrow> string" where
  "artifact_line on row = (case row of (name, path) \<Rightarrow>
     if path \<noteq> [] then ''  '' @ paint on dim (pad name 8) @ '' '' @ path @ nl else [])"

definition writeArtifacts :: "bool \<Rightarrow> artifacts option \<Rightarrow> string" where
  "writeArtifacts on a = (case a of None \<Rightarrow> []
     | Some a \<Rightarrow> concat (map (artifact_line on)
         [(''result'', af_result a), (''report'', af_report a), (''events'', af_events a), (''digest'', af_digest a)]) @ nl)"

definition Render_text :: "render_options \<Rightarrow> artifacts option \<Rightarrow> result_doc \<Rightarrow> string" where
  "Render_text opts a r =
     (let width = (if op_width opts \<le> 0 then 80 else op_width opts); on = op_colour opts
      in writeHeader on r @ writeValidity on width r @ writeSLO on r @ writeRunners on r @
         (if op_verbose opts then writeLabels on r else []) @ writeVerdict on width r @ writeArtifacts on a)"

section \<open>Colour\<close>

text \<open>Removing the colour codes: \<open>ESC [\<close>, digits, \<open>m\<close>.\<close>

fun skip_code :: "string \<Rightarrow> string" where
  "skip_code [] = []"
| "skip_code (c # s) = (if c = CHR ''m'' then s else skip_code s)"

lemma skip_code_shorter: "length (skip_code s) \<le> length s"
  by (induction s) auto

function strip :: "string \<Rightarrow> string" where
  "strip [] = []"
| "strip (c # s) = (if c = ESC then strip (skip_code s) else c # strip s)"
  by pat_completeness auto
termination
  by (relation "measure length") (auto simp: le_imp_less_Suc skip_code_shorter)

definition plain :: "string \<Rightarrow> bool" where
  "plain s \<longleftrightarrow> ESC \<notin> set s"

lemma plain_simps [simp]: "plain []" "plain (c # s) \<longleftrightarrow> c \<noteq> ESC \<and> plain s" "plain (s @ t) \<longleftrightarrow> plain s \<and> plain t"
  by (auto simp: plain_def)

lemma plain_within: "set s \<subseteq> set t \<Longrightarrow> plain t \<Longrightarrow> plain s"
  by (auto simp: plain_def)

lemma plain_concat: "(\<And>x. x \<in> set xs \<Longrightarrow> plain (f x)) \<Longrightarrow> plain (concat (map f xs))"
  by (induction xs) auto

text \<open>Text that shows as some plain text once the codes are gone, whatever follows it.\<close>

definition shows_as :: "string \<Rightarrow> string \<Rightarrow> bool" where
  "shows_as s t \<longleftrightarrow> plain t \<and> (\<forall>rest. strip (s @ rest) = t @ strip rest)"

lemma shows_strip: "shows_as s t \<Longrightarrow> strip s = t \<and> plain t"
  unfolding shows_as_def by (metis append_Nil2 strip.simps(1))

lemma shows_append: "shows_as s t \<Longrightarrow> shows_as s' t' \<Longrightarrow> shows_as (s @ s') (t @ t')"
  by (simp add: shows_as_def)

lemma shows_plain: "plain s \<Longrightarrow> shows_as s s"
  by (induction s) (auto simp: shows_as_def)

lemma shows_if: "(b \<Longrightarrow> shows_as s t) \<Longrightarrow> (\<not> b \<Longrightarrow> shows_as s' t') \<Longrightarrow> shows_as (if b then s else s') (if b then t else t')"
  by simp

lemma shows_concat: "(\<And>x. x \<in> set xs \<Longrightarrow> shows_as (f x) (g x)) \<Longrightarrow> shows_as (concat (map f xs)) (concat (map g xs))"
  by (induction xs) (auto intro: shows_append shows_plain)

text \<open>A code and what it colours.\<close>

definition colour_code :: "string \<Rightarrow> bool" where
  "colour_code c \<longleftrightarrow> (\<exists>ds. c = ESC # ''['' @ ds @ ''m'' \<and> (\<forall>d \<in> set ds. is_digit d))"

lemma skip_digits: "\<forall>d \<in> set ds. is_digit d \<Longrightarrow> skip_code (ds @ CHR ''m'' # rest) = rest"
  by (induction ds) (auto simp: is_digit_def)

lemma strip_code: "colour_code c \<Longrightarrow> strip (c @ rest) = strip rest"
  using skip_digits by (auto simp: colour_code_def)

lemma codes: "colour_code reset" "colour_code bold" "colour_code dim" "colour_code red" "colour_code green" "colour_code yellow" "colour_code cyan"
  unfolding colour_code_def paints
  by (rule exI[of _ "''0''"], simp add: is_digit_def, rule exI[of _ "''1''"], simp add: is_digit_def, rule exI[of _ "''2''"], simp add: is_digit_def,
      rule exI[of _ "''31''"], simp add: is_digit_def, rule exI[of _ "''32''"], simp add: is_digit_def, rule exI[of _ "''33''"], simp add: is_digit_def,
      rule exI[of _ "''36''"], simp add: is_digit_def)

lemma shows_paint: "colour_code c \<Longrightarrow> plain s \<Longrightarrow> shows_as (paint True c s) (paint False c s)"
  using shows_plain[of s] by (auto simp: paint_def shows_as_def strip_code codes)

lemmas show_rules = shows_append shows_if shows_concat shows_paint codes shows_plain

section \<open>The texts are plain\<close>

lemma plain_digits [simp]: "plain (nat_digits n)"
  using nat_digits_are_digits[of n] by (auto simp: plain_def ESC_def is_digit_def)

lemma plain_itoa [simp]: "plain (itoa n)"
  by (simp add: itoa_def ESC_def)

lemma plain_replicate [simp]: "c \<noteq> ESC \<Longrightarrow> plain (replicate n c)"
  by (simp add: plain_def)

lemma plain_fixed [simp]: "plain (fixed n x)"
  by (simp add: fixed_def Let_def ESC_def)

lemma plain_marks [simp]: "plain nl" "plain dot" "plain arrow"
  by (simp_all add: nl_def dot_def arrow_def ESC_def)

lemma plain_pad [simp]: "plain (pad s w) \<longleftrightarrow> plain s"
  by (simp add: pad_def ESC_def)

lemma plain_humanMS [simp]: "plain (humanMS v)"
  by (simp add: humanMS_def ESC_def)

lemma plain_budget [simp]: "plain (formatBudget m v)"
  by (simp add: formatBudget_def ESC_def)

lemma plain_budget_value [simp]: "plain (budget_value b (formatBudget m))"
  by (cases b) (simp_all add: ESC_def)

lemma plain_names [simp]: "plain (status_text st)" "plain (confidence_text c)" "plain (to_upper (bottleneck_text b))"
proof -
  show "plain (status_text st)" by (cases st) (simp_all add: ESC_def)
  show "plain (confidence_text c)" by (cases c) (simp_all add: ESC_def)
  show "plain (to_upper (bottleneck_text b))" by (cases b; simp; code_simp)
qed

lemma plain_join: "\<forall>s \<in> set ss. plain s \<Longrightarrow> plain sep \<Longrightarrow> plain (join ss sep)"
  by (induction ss sep rule: join.induct) auto

lemma plain_fields: "plain s \<Longrightarrow> w \<in> set (GoStrings.fields s) \<Longrightarrow> plain w"
proof -
  have "w \<in> set (fields_func f s) \<Longrightarrow> set w \<subseteq> set s" for f
    by (induction f s rule: fields_func.induct) (auto split: if_splits dest: set_takeWhileD set_dropWhileD)
  then show "plain s \<Longrightarrow> w \<in> set (GoStrings.fields s) \<Longrightarrow> plain w" by (auto simp: GoStrings.fields_def intro: plain_within)
qed

lemma plain_wrap_lines: "plain line \<Longrightarrow> \<forall>w \<in> set ws. plain w \<Longrightarrow> l \<in> set (wrap_lines width line ws) \<Longrightarrow> plain l"
  by (induction width line ws rule: wrap_lines.induct) (auto simp: ESC_def split: if_splits)

lemma plain_wrap [simp]: "plain s \<Longrightarrow> plain indent \<Longrightarrow> plain (wrap s width indent)"
proof -
  assume p: "plain s" "plain indent"
  have "plain l" if "GoStrings.fields s = w # ws" "l \<in> set (wrap_lines v w ws)" for w ws v l
    using that plain_fields[OF p(1)] by (intro plain_wrap_lines[of w ws l v]) auto
  then show ?thesis using p(2) by (auto simp: wrap_def intro!: plain_join split: list.split)
qed

lemma plain_trim: "plain s \<Longrightarrow> plain (trim_right s)" "plain s \<Longrightarrow> plain (trim_left s)"
  by (auto simp: trim_right_def trim_left_def plain_def dest: set_dropWhileD)

lemma plain_cells: "\<forall>c \<in> set row. plain c \<Longrightarrow> c \<in> set (cells ws row) \<Longrightarrow> plain c"
  by (induction ws row rule: cells.induct) auto

lemma plain_row: "\<forall>c \<in> set row. plain c \<Longrightarrow> plain indent \<Longrightarrow> plain (table_row ws indent row)"
  using plain_cells[of row _ ws] by (auto simp: table_row_def ESC_def intro!: plain_trim plain_join)

definition plain_rows :: "string list list \<Rightarrow> bool" where
  "plain_rows rows \<longleftrightarrow> (\<forall>row \<in> set rows. \<forall>c \<in> set row. plain c)"

lemma shows_table: "plain_rows rows \<Longrightarrow> plain indent \<Longrightarrow> shows_as (writeTable True rows indent) (writeTable False rows indent)"
  by (cases rows) (auto simp: writeTable_def plain_rows_def intro!: shows_append shows_paint codes shows_plain plain_concat plain_trim plain_row)

section \<open>Every section\<close>

text \<open>The texts of a result that come from outside the renderer.\<close>

definition runner_texts :: "runner_doc \<Rightarrow> string list" where
  "runner_texts rn = rr_name rn # rr_kind rn # map fst (os_errors (rr_summary rn)) @ map fst (rr_label_summaries rn)"

definition texts_of :: "artifacts option \<Rightarrow> result_doc \<Rightarrow> string list" where
  "texts_of a r =
     (let run = rs_run r; an = rs_analysis r; v = an_verdict an
      in [ru_name run, ru_id run, ru_interrupted run, vd_summary v, vd_caveat v] @ vd_next_steps v @ map ev_text (vd_evidence v) @
         concat (map (\<lambda>f. [fi_message f, fi_fix f]) (va_findings (an_validity an))) @
         concat (map (\<lambda>c. [sc_runner c, sc_metric c]) (sl_checks (an_slo an))) @
         concat (map runner_texts (rs_runners r)) @
         (case a of None \<Rightarrow> [] | Some a \<Rightarrow> [af_result a, af_report a, af_events a, af_digest a]))"

definition plain_result :: "artifacts option \<Rightarrow> result_doc \<Rightarrow> bool" where
  "plain_result a r \<longleftrightarrow> (\<forall>s \<in> set (texts_of a r). plain s)"

lemma plain_result_dest:
  assumes "plain_result a r"
  shows "plain (ru_name (rs_run r))" "plain (ru_id (rs_run r))" "plain (ru_interrupted (rs_run r))"
    "plain (vd_summary (an_verdict (rs_analysis r)))" "plain (vd_caveat (an_verdict (rs_analysis r)))"
    "s \<in> set (vd_next_steps (an_verdict (rs_analysis r))) \<Longrightarrow> plain s"
    "e \<in> set (vd_evidence (an_verdict (rs_analysis r))) \<Longrightarrow> plain (ev_text e)"
    "f \<in> set (va_findings (an_validity (rs_analysis r))) \<Longrightarrow> plain (fi_message f) \<and> plain (fi_fix f)"
    "c \<in> set (sl_checks (an_slo (rs_analysis r))) \<Longrightarrow> plain (sc_runner c) \<and> plain (sc_metric c)"
    "rn \<in> set (rs_runners r) \<Longrightarrow> t \<in> set (runner_texts rn) \<Longrightarrow> plain t"
    "a = Some b \<Longrightarrow> plain (af_result b) \<and> plain (af_report b) \<and> plain (af_events b) \<and> plain (af_digest b)"
  using assms by (auto simp: plain_result_def texts_of_def Let_def)

lemma header_shows: "plain_result a r \<Longrightarrow> shows_as (writeHeader True r) (writeHeader False r)"
  unfolding writeHeader_def Let_def
  by (intro shows_append shows_paint codes shows_plain) (auto simp: ESC_def dest: plain_result_dest(1-3))

lemma finding_shows: "plain (fi_message f) \<Longrightarrow> plain (fi_fix f) \<Longrightarrow> shows_as (finding_lines True w f) (finding_lines False w f)"
  unfolding finding_lines_def by (intro shows_append shows_if shows_paint codes shows_plain) (simp_all add: ESC_def)

lemma validity_shows: "plain_result a r \<Longrightarrow> shows_as (writeValidity True w r) (writeValidity False w r)"
  unfolding writeValidity_def Let_def
  by (cases "va_state (an_validity (rs_analysis r))"; simp only: state.case;
      intro shows_append shows_concat finding_shows shows_paint codes shows_plain)
    (auto simp: ESC_def dest: plain_result_dest(8))

lemma check_shows: "plain (sc_runner c) \<Longrightarrow> plain (sc_metric c) \<Longrightarrow> shows_as (check_line True c) (check_line False c)"
  unfolding check_line_def by (intro shows_append shows_if shows_paint codes shows_plain) (simp_all add: ESC_def)

lemma slo_shows: "plain_result a r \<Longrightarrow> shows_as (writeSLO True r) (writeSLO False r)"
  unfolding writeSLO_def Let_def
  by (intro shows_if shows_append shows_concat check_shows shows_paint codes shows_plain) (auto simp: ESC_def dest: plain_result_dest(9))

lemma plain_errors [simp]: "\<forall>k \<in> set (map fst m). plain k \<Longrightarrow> plain (formatErrors m)"
  unfolding formatErrors_def by (rule plain_join) (fastforce simp: error_order_def ESC_def, simp add: ESC_def)

lemma rows_plain:
  assumes "\<And>rn t. rn \<in> set rns \<Longrightarrow> t \<in> set (runner_texts rn) \<Longrightarrow> plain t"
  shows "plain_rows (runner_rows rns)" "plain_rows (error_rows rns)" "rn \<in> set rns \<Longrightarrow> plain_rows (label_rows rn)"
    "rn \<in> set rns \<Longrightarrow> plain (rr_name rn)"
proof -
  show name: "plain (rr_name rn)" if "rn \<in> set rns" for rn using that assms by (auto simp: runner_texts_def)
  have kind: "plain (rr_kind rn)" "\<forall>k \<in> set (map fst (os_errors (rr_summary rn))). plain k" if "rn \<in> set rns" for rn
    using that assms by (auto simp: runner_texts_def)
  have cells: "c \<in> set (summary_cells s) \<Longrightarrow> plain c" for c s by (auto simp: summary_cells_def ESC_def)
  show "plain_rows (runner_rows rns)" using name kind cells by (auto simp: plain_rows_def runner_rows_def ESC_def)
  show "plain_rows (error_rows rns)" using name kind by (auto simp: plain_rows_def error_rows_def ESC_def)
  show "plain_rows (label_rows rn)" if "rn \<in> set rns"
    using that assms cells by (auto simp: plain_rows_def label_rows_def SortedLabels_def runner_texts_def ESC_def)
qed

lemma runners_shows: "plain_result a r \<Longrightarrow> shows_as (writeRunners True r) (writeRunners False r)"
proof -
  assume p: "plain_result a r"
  note rows = rows_plain[of "rs_runners r", OF plain_result_dest(10)[OF p]]
  have wait: "shows_as (wait_line True rn) (wait_line False rn)" if "plain (rr_name rn)" for rn
    unfolding wait_line_def Let_def using that by (intro shows_if shows_append shows_paint codes shows_plain) (simp_all add: ESC_def)
  have dropped: "shows_as (dropped_line True rn) (dropped_line False rn)" if "plain (rr_name rn)" for rn
    unfolding dropped_line_def using that
    by (cases "rr_executor rn"; simp only: option.case; intro shows_if shows_append shows_paint codes shows_plain) (simp_all add: ESC_def)
  show ?thesis unfolding writeRunners_def Let_def
    by (intro shows_append shows_concat shows_if shows_table wait dropped shows_plain rows) (simp_all add: ESC_def)
qed

lemma labels_shows: "plain_result a r \<Longrightarrow> shows_as (writeLabels True r) (writeLabels False r)"
proof -
  assume p: "plain_result a r"
  note rows = rows_plain[of "rs_runners r", OF plain_result_dest(10)[OF p]]
  show ?thesis unfolding writeLabels_def
    by (intro shows_concat shows_if shows_append shows_table shows_paint codes shows_plain rows) (auto simp: ESC_def intro: rows(4))
qed

lemma verdict_shows: "plain_result a r \<Longrightarrow> shows_as (writeVerdict True w r) (writeVerdict False w r)"
proof -
  assume p: "plain_result a r"
  note texts = plain_result_dest(4,5)[OF p] plain_result_dest(6,7)[OF p]
  have colour: "colour_code (case b of BottleneckNone \<Rightarrow> green | BottleneckClient \<Rightarrow> red | _ \<Rightarrow> cyan)" for b
    by (simp add: codes split: bottleneck.split)
  show ?thesis unfolding writeVerdict_def Let_def
    by (intro shows_append shows_if shows_concat shows_paint colour codes shows_plain) (simp_all add: ESC_def texts)
qed

lemma artifact_shows: "plain name \<Longrightarrow> plain path \<Longrightarrow> shows_as (artifact_line True (name, path)) (artifact_line False (name, path))"
  unfolding artifact_line_def prod.case
  by (intro shows_append shows_if shows_paint codes shows_plain) (simp_all add: ESC_def)

lemma artifacts_shows: "plain_result a r \<Longrightarrow> shows_as (writeArtifacts True a) (writeArtifacts False a)"
proof (cases a)
  case (Some b)
  assume p: "plain_result a r"
  then show ?thesis unfolding writeArtifacts_def Some option.case using plain_result_dest(11)[OF p Some]
    by (intro shows_append shows_concat shows_plain) (auto simp: ESC_def intro!: artifact_shows)
qed (simp add: writeArtifacts_def shows_plain)

text \<open>C40. Colour does not change what is shown. When the texts of a result carry no escape character, the summary without colour has none
  either, and the coloured summary with its codes removed is exactly that one, so no column moves and no line breaks elsewhere.\<close>

theorem render_colour:
  assumes "plain_result a r"
  shows "strip (Render_text (opts\<lparr>op_colour := True\<rparr>) a r) = Render_text (opts\<lparr>op_colour := False\<rparr>) a r \<and>
    plain (Render_text (opts\<lparr>op_colour := False\<rparr>) a r)"
proof -
  have "shows_as (Render_text (opts\<lparr>op_colour := True\<rparr>) a r) (Render_text (opts\<lparr>op_colour := False\<rparr>) a r)"
    unfolding Render_text_def Let_def render_options.simps render_options.ext_inject
    by (simp, intro conjI impI shows_append header_shows[OF assms] validity_shows[OF assms] slo_shows[OF assms] runners_shows[OF assms]
        labels_shows[OF assms] verdict_shows[OF assms] artifacts_shows[OF assms])
  then show ?thesis by (rule shows_strip)
qed

text \<open>A result with one runner, one label, an error, a finding and a verdict.\<close>

definition small_quantiles :: quantiles where
  "small_quantiles = \<lparr>q_p50 = 1, q_p90 = 2, q_p95 = 2, q_p99 = 3, q_p999 = 3, q_max = 4, q_mean = 1\<rparr>"

definition small_summary :: op_summary where
  "small_summary = \<lparr>os_n = 10, os_ok = 9, os_errors_total = 1, os_error_ratio = 1 / 10, os_errors = [(''timeout'', 1)],
     os_response = small_quantiles, os_service = small_quantiles, os_wait = small_quantiles, os_rps = 5, os_bytes_in = 0, os_bytes_out = 0\<rparr>"

definition small_runner :: runner_doc where
  "small_runner = \<lparr>rr_name = ''http'', rr_kind = ''app'', rr_driver = [], rr_targets = [], rr_labels = [''get''], rr_executor = None,
     rr_summary = small_summary, rr_label_summaries = [(''get'', small_summary)], rr_sketches = [], rr_buckets = [], rr_label_buckets = [],
     rr_http = None, rr_sql = None, rr_redis = None\<rparr>"

definition small_result :: result_doc where
  "small_result = \<lparr>rs_schema = SchemaVersion,
     rs_run = \<lparr>ru_id = ''r1'', ru_name = ''demo'', ru_status = StatusCompleted, ru_duration_ms = 2000, ru_elapsed_ms = 2001, ru_bucket_ms = 1000,
       ru_bucket_count = 2, ru_warmup_ms = 0, ru_min_samples = 5, ru_seed = 7, ru_arrival = ''uniform'', ru_interrupted = [], ru_tags = Map.empty\<rparr>,
     rs_runners = [small_runner],
     rs_analysis = \<lparr>an_validity = \<lparr>va_state = ValidityDegraded,
         va_findings = [\<lparr>fi_code = ''C'', fi_severity = SeverityWarn, fi_message = ''few samples'', fi_detail = [], fi_fix = ''run longer''\<rparr>]\<rparr>,
       an_slo = \<lparr>sl_pass = True, sl_checks = [\<lparr>sc_runner = ''http'', sc_metric = ''p95'', sc_budget = Fin 5, sc_actual = 2, sc_pass = True\<rparr>]\<rparr>,
       an_verdict = \<lparr>vd_bottleneck = BottleneckNone, vd_confidence = ConfidenceLow, vd_summary = ''all well'', vd_evidence = [],
         vd_caveat = StandingCaveat, vd_next_steps = []\<rparr>\<rparr>,
     rs_warnings = []\<rparr>"

theorem render_colour_witness:
  "strip (Render_text \<lparr>op_colour = True, op_verbose = True, op_width = 0\<rparr> None small_result) =
   Render_text \<lparr>op_colour = False, op_verbose = True, op_width = 0\<rparr> None small_result"
proof -
  have "plain_result None small_result"
    by (simp add: plain_result_def texts_of_def small_result_def small_runner_def small_summary_def runner_texts_def StandingCaveat_def
        ESC_def Let_def)
  from render_colour[OF this, of "\<lparr>op_colour = True, op_verbose = True, op_width = 0\<rparr>"] show ?thesis by simp
qed

section \<open>Wrapping\<close>

lemma wrap_groups:
  assumes "line = join g '' ''" "g \<noteq> []" "int (length line) \<le> width \<or> length g = 1"
  shows "\<exists>gs. wrap_lines width line ws = map (\<lambda>h. join h '' '') gs \<and> concat gs = g @ ws \<and> gs \<noteq> [] \<and> hd (hd gs) = hd g \<and>
    (\<forall>h \<in> set gs. h \<noteq> [] \<and> (int (length (join h '' '')) \<le> width \<or> length h = 1)) \<and>
    (\<forall>i. Suc i < length gs \<longrightarrow> width < int (length (join (gs ! i) '' '')) + 1 + int (length (hd (gs ! Suc i))))"
  using assms
proof (induction ws arbitrary: line g)
  case Nil
  then show ?case by (intro exI[of _ "[g]"]) auto
next
  case (Cons w ws)
  show ?case
  proof (cases "width < int (length line) + 1 + int (length w)")
    case True
    obtain gs where gs: "wrap_lines width w ws = map (\<lambda>h. join h '' '') gs" "concat gs = [w] @ ws" "gs \<noteq> []" "hd (hd gs) = w"
      "\<forall>h \<in> set gs. h \<noteq> [] \<and> (int (length (join h '' '')) \<le> width \<or> length h = 1)"
      "\<forall>i. Suc i < length gs \<longrightarrow> width < int (length (join (gs ! i) '' '')) + 1 + int (length (hd (gs ! Suc i)))"
      using Cons.IH[of w "[w]"] by auto
    have "\<forall>i. Suc i < length (g # gs) \<longrightarrow> width < int (length (join ((g # gs) ! i) '' '')) + 1 + int (length (hd ((g # gs) ! Suc i)))"
    proof (intro allI impI)
      fix i assume "Suc i < length (g # gs)"
      then show "width < int (length (join ((g # gs) ! i) '' '')) + 1 + int (length (hd ((g # gs) ! Suc i)))"
        using gs True Cons.prems(1) by (cases i) (auto simp: hd_conv_nth)
    qed
    then show ?thesis using gs True Cons.prems by (intro exI[of _ "g # gs"]) simp
  next
    case False
    have more: "join (g @ [w]) '' '' = line @ '' '' @ w"
    proof -
      have "g \<noteq> [] \<Longrightarrow> join (g @ [w]) sep = join g sep @ sep @ w" for sep by (induction g sep rule: join.induct) auto
      then show ?thesis using Cons.prems by simp
    qed
    have "int (length (line @ '' '' @ w)) \<le> width" using False by simp
    from Cons.IH[of "line @ '' '' @ w" "g @ [w]", OF more[symmetric] _ disjI1[OF this]]
    show ?thesis using False Cons.prems(2) by simp
  qed
qed

text \<open>Prose is wrapped greedily and loses nothing: its words, in order, are grouped into lines, each line is at most the width (and never
  asked to be under twenty) unless it is a single longer word, and no line could have taken the first word of the next.\<close>

theorem wrap_greedy:
  "\<exists>gs. concat gs = GoStrings.fields s \<and> wrap s width indent = join (map (\<lambda>g. join g '' '') gs) (nl @ indent) \<and>
    (\<forall>g \<in> set gs. g \<noteq> [] \<and> (int (length (join g '' '')) \<le> max 20 width \<or> length g = 1)) \<and>
    (\<forall>i. Suc i < length gs \<longrightarrow> max 20 width < int (length (join (gs ! i) '' '')) + 1 + int (length (hd (gs ! Suc i))))"
proof (cases "GoStrings.fields s")
  case Nil
  then show ?thesis by (intro exI[of _ "[]"]) (simp add: wrap_def)
next
  case (Cons w ws)
  have w: "(if width < 20 then 20 else width) = max 20 width" by simp
  obtain gs where "wrap_lines (max 20 width) w ws = map (\<lambda>h. join h '' '') gs" "concat gs = w # ws"
    "\<forall>h \<in> set gs. h \<noteq> [] \<and> (int (length (join h '' '')) \<le> max 20 width \<or> length h = 1)"
    "\<forall>i. Suc i < length gs \<longrightarrow> max 20 width < int (length (join (gs ! i) '' '')) + 1 + int (length (hd (gs ! Suc i)))"
    using wrap_groups[of w "[w]" "max 20 width" ws] by auto
  then show ?thesis unfolding wrap_def Cons list.case w by (intro exI[of _ gs]) simp
qed

section \<open>Alignment\<close>

lemma widest: "\<lbrakk>row \<in> set (rows :: string list list); i < length row\<rbrakk> \<Longrightarrow>
  length (row ! i) \<le> foldl (\<lambda>m row. if i < length row \<and> m < length (row ! i) then length (row ! i) else m) (m :: nat) rows"
proof -
  have up: "k \<le> foldl (\<lambda>m row. if i < length row \<and> m < length (row ! i) then length (row ! i) else m) k rs" for k and rs :: "string list list"
  proof (induction rs arbitrary: k)
    case (Cons r rs)
    show ?case using order_trans[OF _ Cons[of "if i < length r \<and> k < length (r ! i) then length (r ! i) else k"]] by auto
  qed simp
  show "row \<in> set rows \<Longrightarrow> i < length row \<Longrightarrow> ?thesis"
  proof (induction rows arbitrary: m)
    case (Cons r rows)
    show ?case
    proof (cases "row = r")
      case True
      then show ?thesis using Cons.prems(2) order_trans[OF _ up[of "if i < length r \<and> m < length (r ! i) then length (r ! i) else m" rows]] by auto
    next
      case False
      then show ?thesis using Cons by simp
    qed
  qed simp
qed

lemma trim_right_trims: "\<exists>k. s = trim_right s @ replicate k CHR '' ''"
proof -
  have "s = rev (dropWhile (\<lambda>c. c = CHR '' '') (rev s)) @ rev (takeWhile (\<lambda>c. c = CHR '' '') (rev s))"
    by (metis rev_append rev_rev_ident takeWhile_dropWhile_id)
  moreover have "takeWhile (\<lambda>c. c = CHR '' '') (rev s) = replicate (length (takeWhile (\<lambda>c. c = CHR '' '') (rev s))) CHR '' ''"
    by (rule replicate_eqI[symmetric, THEN sym]) (auto dest: set_takeWhileD)
  ultimately show ?thesis unfolding trim_right_def by (metis rev_replicate)
qed

text \<open>Where column \<open>i\<close> starts.\<close>

definition column :: "nat list \<Rightarrow> nat \<Rightarrow> nat" where
  "column ws i = sum_list (map (\<lambda>w. w + 2) (take i ws))"

lemma cells_start:
  "length row \<le> length ws \<Longrightarrow> i < length row \<Longrightarrow> \<forall>k < length row. length (row ! k) \<le> ws ! k \<Longrightarrow>
   column ws i \<le> length (join (cells ws row) ''  '') \<and> prefix (row ! i) (drop (column ws i) (join (cells ws row) ''  ''))"
proof (induction ws row arbitrary: i rule: cells.induct)
  case (3 ws c d cs)
  obtain w ws' where ws: "ws = w # ws'" using 3(2) by (cases ws) auto
  have long: "length c \<le> w" using 3(4) by (auto simp: ws dest: spec[of _ 0])
  have "cells ws' (d # cs) \<noteq> []" by (cases cs) auto
  then have j: "join (cells ws (c # d # cs)) ''  '' = pad c w @ ''  '' @ join (cells ws' (d # cs)) ''  ''"
    by (cases "cells ws' (d # cs)") (simp_all add: ws)
  show ?case
  proof (cases i)
    case 0
    then show ?thesis unfolding j by (simp add: column_def pad_def)
  next
    case (Suc k)
    have "column ws' k \<le> length (join (cells ws' (d # cs)) ''  '') \<and>
        prefix ((d # cs) ! k) (drop (column ws' k) (join (cells ws' (d # cs)) ''  ''))"
    proof -
      have "\<forall>k < length (d # cs). length ((d # cs) ! k) \<le> ws' ! k"
      proof (intro allI impI)
        fix k assume "k < length (d # cs)"
        then show "length ((d # cs) ! k) \<le> ws' ! k" using 3(4)[rule_format, of "Suc k"] by (simp add: ws)
      qed
      then show ?thesis using 3(1)[of k] 3(2,3) Suc by (simp add: ws)
    qed
    moreover have "length (pad c w) = w" using long by (simp add: pad_def)
    ultimately show ?thesis unfolding j Suc by (simp add: column_def ws)
  qed
qed (auto simp: column_def)

text \<open>Every column of a table starts at the same place in every row, and is as wide as its widest cell.\<close>

theorem table_aligned:
  assumes "row \<in> set rows" "\<forall>r \<in> set rows. length r = n" "i < n"
  shows "\<exists>k. prefix (row ! i) (drop (length indent + column (widths rows) i) (table_row (widths rows) indent row @ replicate k CHR '' ''))"
proof -
  obtain r0 rs where rows: "rows = r0 # rs" using assms(1) by (cases rows) auto
  have len: "length (widths rows) = n" "length row = n" using assms by (simp add: widths_def rows) (use assms(1,2) in blast)
  have "length (row ! k) \<le> widths rows ! k" if "k < n" for k
    using widest[of row rows k 0] that assms(1,2) len(2) by (simp add: widths_def rows del: foldl_Cons cong: if_cong)
  then have "prefix (row ! i) (drop (column (widths rows) i) (join (cells (widths rows) row) ''  ''))"
    using cells_start[of row "widths rows" i] len assms(3) by simp
  moreover obtain k where "indent @ join (cells (widths rows) row) ''  '' = table_row (widths rows) indent row @ replicate k CHR '' ''"
    using trim_right_trims unfolding table_row_def by blast
  ultimately have "prefix (row ! i) (drop (length indent + column (widths rows) i) (table_row (widths rows) indent row @ replicate k CHR '' ''))"
    by (metis add.commute append_Nil diff_add_inverse drop_append drop_all le_add1 drop_drop)
  then show ?thesis ..
qed

text \<open>The classes of errors come worst first, and those of one count by name.\<close>

theorem errors_ordered:
  "mset (error_order m) = mset m \<and>
   sorted_wrt (\<lambda>a b. snd b < snd a \<or> snd a = snd b \<and> fst a \<le> fst b) (error_order m)"
proof -
  have s: "sorted (map (\<lambda>kv. - snd kv) (error_order m))" by (simp add: error_order_def)
  have "fst (error_order m ! i) \<le> fst (error_order m ! j)"
    if "i < j" "j < length (error_order m)" "snd (error_order m ! i) = snd (error_order m ! j)" for i j
  proof -
    have "filter (\<lambda>kv. - snd kv = k) (error_order m) = filter (\<lambda>kv. - snd kv = k) (sort_key fst m)" for k
      unfolding error_order_def by (rule sort_key_stable)
    then have one: "sorted (map fst (filter (\<lambda>kv. - snd kv = k) (error_order m)))" for k by (simp add: sorted_filter)
    let ?l = "error_order m" and ?k = "- snd (error_order m ! i)"
    define A where "A = filter (\<lambda>kv. - snd kv = ?k) (take j ?l)"
    define B where "B = filter (\<lambda>kv. - snd kv = ?k) (drop j ?l)"
    have "sorted (map fst (A @ B))" using one[of ?k] unfolding A_def B_def by (metis append_take_drop_id filter_append)
    then have "\<forall>x \<in> set A. \<forall>y \<in> set B. fst x \<le> fst y" by (simp add: sorted_append)
    moreover have "?l ! i \<in> set (take j ?l)" using that by (auto simp: in_set_conv_nth intro!: exI[of _ i])
    then have "?l ! i \<in> set A" by (simp add: A_def)
    moreover have "?l ! j \<in> set (drop j ?l)" using that by (auto simp: in_set_conv_nth intro!: exI[of _ 0])
    then have "?l ! j \<in> set B" using that by (simp add: B_def)
    ultimately show ?thesis by blast
  qed
  then have "sorted_wrt (\<lambda>a b. snd b < snd a \<or> snd a = snd b \<and> fst a \<le> fst b) (error_order m)"
    using s by (fastforce simp: sorted_wrt_iff_nth_less sorted_iff_nth_mono_less)
  then show ?thesis by (simp add: error_order_def)
qed

end
