(* ===== verification/Doctor.thy ===== *)
theory Doctor
  imports Engine Plan Render
begin

text \<open>
  \<open>internal/cli/doctor.go\<close>: what the \<open>doctor\<close> command finds, how it ranks it, what it prints and how it exits. The machine
  (\<open>runtime\<close>, \<open>Getrlimit\<close>), the resolver with its error texts and the quoting of \<open>fmt\<close> are arguments. Strings are bytes; a field
  of \<open>fmt\<close> is padded by characters, so bytes that continue a character are not counted.
\<close>

section \<open>The diagnosis\<close>

record doctor_finding =
  df_code :: string
  df_severity :: string
  df_message :: string
  df_fix :: string

record host_report =
  ho_cpus :: int
  ho_gomaxprocs :: int
  ho_open_files :: int
  ho_planned :: int

record target_report =
  tr_host :: string
  tr_addrs :: "string list"
  tr_scope :: string
  tr_allowed :: bool
  tr_reason :: string

record diagnosis =
  di_path :: string
  di_ok :: bool
  di_findings :: "doctor_finding list"
  di_host :: host_report
  di_targets :: "target_report list"

text \<open>What the machine and the libraries answer.\<close>

record machine =
  mc_cpus :: int
  mc_gomaxprocs :: int
  mc_rlimit :: "int option"
  mc_lookup :: "string \<Rightarrow> string list option"
  mc_lookup_error :: "string \<Rightarrow> string"
  mc_quote :: "string \<Rightarrow> string"

definition openFileLimit :: "machine \<Rightarrow> int option" where
  "openFileLimit mc = (case mc_rlimit mc of None \<Rightarrow> None | Some n \<Rightarrow> if 2147483647 < n then None else Some n)"

fun severityRank :: "string \<Rightarrow> nat" where
  "severityRank s = (if s = ''error'' then 2 else if s = ''warn'' then 1 else 0)"

definition add_finding :: "doctor_finding \<Rightarrow> diagnosis \<Rightarrow> diagnosis" where
  "add_finding f d = d\<lparr>di_ok := di_ok d \<and> df_severity f \<noteq> ''error'', di_findings := di_findings d @ [f]\<rparr>"

definition add_target :: "target_report \<Rightarrow> diagnosis \<Rightarrow> diagnosis" where
  "add_target t d = d\<lparr>di_targets := di_targets d @ [t]\<rparr>"

section \<open>The host\<close>

definition planned_conns :: "configuration \<Rightarrow> int" where
  "planned_conns c = foldl (\<lambda>n name. case executor_of c name of
       Some ex \<Rightarrow> if 0 < xs_max_in_flight ex then wrap64 (n + xs_max_in_flight ex) else n
     | None \<Rightarrow> n) 0 (Runners c)"

definition hostReport :: "machine \<Rightarrow> configuration \<Rightarrow> host_report" where
  "hostReport mc c = \<lparr>ho_cpus = mc_cpus mc, ho_gomaxprocs = mc_gomaxprocs mc,
     ho_open_files = (case openFileLimit mc of Some n \<Rightarrow> n | None \<Rightarrow> 0), ho_planned = planned_conns c\<rparr>"

definition headroom :: int where "headroom = 128"

definition short_of_files :: "host_report \<Rightarrow> bool" where
  "short_of_files h \<longleftrightarrow> 0 < ho_open_files h \<and> 0 < ho_planned h \<and> ho_open_files h < wrap64 (ho_planned h + headroom)"

definition open_file_finding :: "host_report \<Rightarrow> doctor_finding" where
  "open_file_finding h = \<lparr>df_code = ''OPEN_FILE_LIMIT'', df_severity = ''error'',
     df_message = ''the configuration may hold '' @ itoa (ho_planned h) @ '' connections but this machine allows '' @
       itoa (ho_open_files h) @ '' open files'',
     df_fix = ''raise the limit with `ulimit -n '' @ itoa (wrap64 (ho_planned h + headroom)) @ ''`, or lower max_in_flight''\<rparr>"

definition concurrency_finding :: "host_report \<Rightarrow> doctor_finding" where
  "concurrency_finding h = \<lparr>df_code = ''CONCURRENCY_ABOVE_HOST'', df_severity = ''warn'',
     df_message = itoa (ho_planned h) @ '' operations in flight on '' @ itoa (ho_cpus h) @ '' CPUs is a lot of goroutine scheduling'',
     df_fix = ''if dispatch lag makes the run invalid, lower max_in_flight or generate load from a bigger machine''\<rparr>"

definition checkHost :: "diagnosis \<Rightarrow> diagnosis" where
  "checkHost d =
     (let h = di_host d; d' = (if short_of_files h then add_finding (open_file_finding h) d else d)
      in if 0 < ho_planned h \<and> 0 < ho_cpus h \<and> wrap64 (ho_cpus h * 512) < ho_planned h
         then add_finding (concurrency_finding h) d' else d')"

section \<open>The targets\<close>

fun scope_text :: "scope \<Rightarrow> string" where
  "scope_text ScopeLoopback = ''loopback''"
| "scope_text ScopeLinkLocal = ''link-local''"
| "scope_text ScopePrivate = ''private''"
| "scope_text ScopePublic = ''public''"

text \<open>The text and the hint of the refusals of \<open>CheckTarget\<close>, and of the failure of \<open>Resolve\<close>.\<close>

definition denied :: "policy \<Rightarrow> target \<Rightarrow> bool" where
  "denied p t \<longleftrightarrow> (\<exists>entry \<in> set (p_deny_targets p). matches entry t)"

definition refusal_text :: "policy \<Rightarrow> target \<Rightarrow> string" where
  "refusal_text p t = code_str CodePolicyTargetNotAllowed @ '': '' @ tg_host t @
     (if denied p t then '' is on the policy'' @ [CHR 0x27] @ ''s deny list''
      else '' resolves to a public address ('' @ join (tg_addrs t) '', '' @ '') and is not allowlisted'')"

definition refusal_hint :: "(string \<Rightarrow> string) \<Rightarrow> policy \<Rightarrow> target \<Rightarrow> string" where
  "refusal_hint quote p t =
     (if denied p t then ''deny_targets is checked first and overrides every allowance''
      else ''a human must add '' @ quote (tg_host t) @
        '' to allow_targets in the policy file; TracePoint will not point load at an arbitrary public host'')"

definition unresolved_text :: "(string \<Rightarrow> string) \<Rightarrow> string \<Rightarrow> string" where
  "unresolved_text lookup_error h = code_str CodePreflightDNS @ '': '' @ h @ '' does not resolve: '' @ lookup_error h"

definition checkTarget :: "machine \<Rightarrow> policy \<Rightarrow> diagnosis \<Rightarrow> string \<Rightarrow> diagnosis" where
  "checkTarget mc p d h =
     (case Resolve (mc_lookup mc) h of
        Inl _ \<Rightarrow>
          add_finding \<lparr>df_code = ''PREFLIGHT_DNS'', df_severity = ''error'', df_message = h @ '' does not resolve'',
            df_fix = ''check the hostname and this machine'' @ [CHR 0x27] @ ''s name resolution''\<rparr>
          (add_target \<lparr>tr_host = h, tr_addrs = [], tr_scope = [], tr_allowed = False,
            tr_reason = unresolved_text (mc_lookup_error mc) h\<rparr> d)
      | Inr t \<Rightarrow>
          (case CheckTarget p t of
             Inl e \<Rightarrow>
               add_finding \<lparr>df_code = code_str (err_code e), df_severity = ''error'',
                 df_message = h @ '' is not allowed by the policy'', df_fix = refusal_hint (mc_quote mc) p t\<rparr>
               (add_target \<lparr>tr_host = h, tr_addrs = tg_addrs t, tr_scope = scope_text (tg_scope t), tr_allowed = False,
                 tr_reason = refusal_text p t\<rparr> d)
           | Inr _ \<Rightarrow>
               (let d' = add_target \<lparr>tr_host = h, tr_addrs = tg_addrs t, tr_scope = scope_text (tg_scope t), tr_allowed = True,
                  tr_reason = []\<rparr> d
                in if tg_scope t = ScopeLoopback
                   then add_finding \<lparr>df_code = ''SAME_HOST_TARGET'', df_severity = ''warn'',
                     df_message = h @ '' is on this machine, so the generator and the target will share its CPU'',
                     df_fix = ''results will be indicative rather than a capacity number; run the generator elsewhere to measure capacity''\<rparr> d'
                   else d')))"

definition checkTargets :: "machine \<Rightarrow> 'u url_lib \<Rightarrow> configuration \<Rightarrow> policy \<Rightarrow> diagnosis \<Rightarrow> diagnosis" where
  "checkTargets mc urls c p d = foldl (checkTarget mc p) d (Targets urls c)"

section \<open>The configuration\<close>

text \<open>\<open>%.0f\<close> of a float, and a tenth of it.\<close>

fun float_text :: "float64 \<Rightarrow> string" where
  "float_text (Fin r) = fixed 0 r"
| "float_text PosInf = ''+Inf''"
| "float_text NegInf = ''-Inf''"
| "float_text NaN = ''NaN''"

fun tenth :: "float64 \<Rightarrow> float64" where
  "tenth (Fin r) = Fin (r / 10)"
| "tenth x = x"

text \<open>The service time a ceiling allows at a rate that is positive, in milliseconds.\<close>

fun allowed_ms :: "int \<Rightarrow> float64 \<Rightarrow> float64" where
  "allowed_ms n (Fin r) = Fin (of_int n / r * 1000)"
| "allowed_ms n PosInf = Fin 0"
| "allowed_ms n x = x"

definition littles_law :: "string \<Rightarrow> executor_section \<Rightarrow> doctor_finding list" where
  "littles_law name ex =
     (let peak = peakRate ex; n = xs_max_in_flight ex
      in if 0 < n \<and> f_less (Fin 0) peak \<and> f_less (Fin (of_int n)) (tenth peak)
         then [\<lparr>df_code = ''LITTLES_LAW_INCONSISTENT'', df_severity = ''warn'',
           df_message = name @ '' offers '' @ float_text peak @ '' operations per second with only '' @ itoa n @
             '' in flight, which cannot be sustained unless each finishes within '' @ float_text (allowed_ms n peak) @ ''ms'',
           df_fix = ''raise '' @ name @ ''.executor.max_in_flight, or expect the run to be marked invalid as client-capped''\<rparr>]
         else [])"

definition rate_findings :: "configuration \<Rightarrow> doctor_finding list" where
  "rate_findings c = concat (map (\<lambda>name. case executor_of c name of
       None \<Rightarrow> [] | Some ex \<Rightarrow> if xs_type ex = ''vus'' then [] else littles_law name ex) (Runners c))"

definition db_pool_findings :: "configuration \<Rightarrow> doctor_finding list" where
  "db_pool_findings c = (case cf_db c of None \<Rightarrow> [] | Some d \<Rightarrow> (case db_pool d of None \<Rightarrow> [] | Some pool \<Rightarrow>
     (let workers = xs_max_in_flight (db_executor d)
      in if 0 < workers \<and> 0 < po_max_open pool \<and> po_max_open pool < workers
         then [\<lparr>df_code = ''POOL_UNDERSIZED'', df_severity = ''warn'',
           df_message = ''the db pool allows '' @ itoa (po_max_open pool) @ '' connections for '' @ itoa workers @
             '' workers, so operations will queue inside the client'',
           df_fix = ''raise db.pool.max_open to at least the worker count, or the wait will look like database latency''\<rparr>]
         else [])))"

definition redis_pool_findings :: "configuration \<Rightarrow> doctor_finding list" where
  "redis_pool_findings c = (case cf_redis c of None \<Rightarrow> [] | Some r \<Rightarrow> (case rd_pool r of None \<Rightarrow> [] | Some pool \<Rightarrow>
     (let workers = xs_max_in_flight (rd_executor r)
      in if 0 < workers \<and> 0 < rp_size pool \<and> rp_size pool < workers
         then [\<lparr>df_code = ''POOL_UNDERSIZED'', df_severity = ''warn'',
           df_message = ''the redis pool allows '' @ itoa (rp_size pool) @ '' connections for '' @ itoa workers @ '' workers'',
           df_fix = ''raise redis.pool.size to at least the worker count''\<rparr>]
         else [])))"

definition shape_findings :: "configuration \<Rightarrow> doctor_finding list" where
  "shape_findings c =
     (if slo_zero (cf_slo c)
      then [\<lparr>df_code = ''NO_SLO'', df_severity = ''info'', df_message = ''no budgets are configured, so the run cannot pass or fail'',
        df_fix = ''add an slo section to make the run a gate rather than a measurement''\<rparr>] else []) @
     (if rn_warmup (cf_run c) = 0
      then [\<lparr>df_code = ''NO_WARMUP'', df_severity = ''info'',
        df_message = ''no warm-up is configured, so pool filling and cold caches count towards the result'',
        df_fix = ''set run.warmup to a few seconds''\<rparr>] else []) @
     (if cf_http c \<noteq> None \<and> cf_db c = None \<and> cf_redis c = None
      then [\<lparr>df_code = ''NO_STORAGE_PROBE'', df_severity = ''info'',
        df_message = ''only the application tier is driven, so a slowdown cannot be attributed to a tier'',
        df_fix = ''add a db or redis section; those runners probe the tier while they load it, which is what makes attribution possible''\<rparr>]
      else [])"

definition checkConfiguration :: "configuration \<Rightarrow> diagnosis \<Rightarrow> diagnosis" where
  "checkConfiguration c d =
     fold add_finding (rate_findings c @ db_pool_findings c @ redis_pool_findings c @ shape_findings c) d"

section \<open>Putting it together\<close>

definition warning_finding :: "warning \<Rightarrow> doctor_finding" where
  "warning_finding w = \<lparr>df_code = w_code w, df_severity = ''warn'', df_message = w_message w, df_fix = w_fix w\<rparr>"

definition rank_findings :: "doctor_finding list \<Rightarrow> doctor_finding list" where
  "rank_findings fs = sort_key (\<lambda>f. 2 - severityRank (df_severity f)) fs"

definition diagnose :: "machine \<Rightarrow> 'u url_lib \<Rightarrow> configuration \<Rightarrow> policy \<Rightarrow> warning list \<Rightarrow> string \<Rightarrow> diagnosis" where
  "diagnose mc urls c p ws path =
     (let d0 = \<lparr>di_path = path, di_ok = True, di_findings = [],
          di_host = \<lparr>ho_cpus = 0, ho_gomaxprocs = 0, ho_open_files = 0, ho_planned = 0\<rparr>, di_targets = []\<rparr>;
          d1 = (fold add_finding (map warning_finding ws) d0)\<lparr>di_host := hostReport mc c\<rparr>;
          d2 = checkConfiguration c (checkTargets mc urls c p (checkHost d1))
      in d2\<lparr>di_findings := rank_findings (di_findings d2)\<rparr>)"

section \<open>The page\<close>

definition starts_char :: "char \<Rightarrow> bool" where
  "starts_char ch \<longleftrightarrow> \<not> (128 \<le> (of_char ch :: nat) \<and> (of_char ch :: nat) < 192)"

text \<open>\<open>%-ws\<close>\<close>

definition field :: "nat \<Rightarrow> string \<Rightarrow> string" where
  "field w s = s @ replicate (w - length (filter starts_char s)) CHR '' ''"

definition target_line :: "target_report \<Rightarrow> string" where
  "target_line t = ''  target  '' @ field 28 (tr_host t) @ '' '' @ field 12 (tr_scope t) @ '' '' @
     (if tr_allowed t then ''ok'' else ''refused'') @ nl"

definition finding_text :: "doctor_finding \<Rightarrow> string" where
  "finding_text f = ''  '' @ (if df_severity f = ''error'' then ''x'' else if df_severity f = ''warn'' then ''!'' else ''i'') @ '' '' @
     df_message f @ nl @ (if df_fix f \<noteq> [] then ''    '' @ df_fix f @ nl else []) @ ''    '' @ df_code f @ nl @ nl"

definition renderDiagnosis :: "diagnosis \<Rightarrow> string" where
  "renderDiagnosis d =
     (let h = di_host d
      in nl @ ''Doctor: '' @ di_path d @ nl @ nl @
         ''  host    '' @ itoa (ho_cpus h) @ '' CPUs, GOMAXPROCS '' @ itoa (ho_gomaxprocs h) @
         (if 0 < ho_open_files h then '', '' @ itoa (ho_open_files h) @ '' open files allowed'' else []) @
         (if 0 < ho_planned h then '', up to '' @ itoa (ho_planned h) @ '' connections planned'' else []) @ nl @
         concat (map target_line (di_targets d)) @ nl @
         (if di_findings d = [] then ''  nothing to report.'' @ nl @ nl
          else concat (map finding_text (di_findings d)) @
            (if di_ok d then ''  nothing would stop this run.'' else ''  this configuration would not run as written.'') @ nl @ nl))"

section \<open>The command\<close>

datatype doctor_doc = DiagnosisDoc diagnosis | DiagnosisPage string | DoctorEnvelope out_doc

definition doctor_run ::
  "machine \<Rightarrow> 'u url_lib \<Rightarrow> (configuration \<times> policy \<times> warning list) result \<Rightarrow> string \<Rightarrow> bool \<Rightarrow> bool \<Rightarrow>
   doctor_doc list \<times> cli_error option" where
  "doctor_run mc urls prepared path json writable =
     (case prepared of
        Inl e \<Rightarrow> ([], Some (OtherError (Coded e)))
      | Inr (c, effective, ws) \<Rightarrow>
          (let d = diagnose mc urls c effective ws path
           in if \<not> writable then ([], write_failed)
              else ([if json then DiagnosisDoc d else DiagnosisPage (renderDiagnosis d)],
                    if di_ok d then None
                    else Some (ExitError \<lparr>xe_code = ExitRuntime, xe_err = Some (Coded (new_error CodePreflightConnect)), xe_documented = True\<rparr>))))"

definition Execute_doctor ::
  "machine \<Rightarrow> 'u url_lib \<Rightarrow> (configuration \<times> policy \<times> warning list) result \<Rightarrow> string \<Rightarrow> bool \<Rightarrow> bool \<Rightarrow> int \<times> doctor_doc list" where
  "Execute_doctor mc urls prepared path json writable =
     (case doctor_run mc urls prepared path json writable of
        (docs, None) \<Rightarrow> (ExitOK, docs)
      | (docs, Some e) \<Rightarrow> (case report json writable e of (code, docs') \<Rightarrow> (code, docs @ map DoctorEnvelope docs')))"

section \<open>What the doctor says\<close>

lemma add_finding_sel [simp]:
  "di_ok (add_finding f d) \<longleftrightarrow> di_ok d \<and> df_severity f \<noteq> ''error''" "di_findings (add_finding f d) = di_findings d @ [f]"
  "di_host (add_finding f d) = di_host d" "di_targets (add_finding f d) = di_targets d" "di_path (add_finding f d) = di_path d"
  by (simp_all add: add_finding_def)

lemma add_target_sel [simp]:
  "di_ok (add_target t d) = di_ok d" "di_findings (add_target t d) = di_findings d"
  "di_host (add_target t d) = di_host d" "di_targets (add_target t d) = di_targets d @ [t]" "di_path (add_target t d) = di_path d"
  by (simp_all add: add_target_def)

lemma add_findings [simp]:
  "di_ok (fold add_finding fs d) \<longleftrightarrow> di_ok d \<and> (\<forall>f \<in> set fs. df_severity f \<noteq> ''error'')"
  "di_findings (fold add_finding fs d) = di_findings d @ fs" "di_host (fold add_finding fs d) = di_host d"
  "di_targets (fold add_finding fs d) = di_targets d"
  by (induction fs arbitrary: d) auto

lemma configuration_advises: "\<forall>f \<in> set (rate_findings c @ db_pool_findings c @ redis_pool_findings c @ shape_findings c). df_severity f \<noteq> ''error''"
  by (auto simp: rate_findings_def littles_law_def db_pool_findings_def redis_pool_findings_def shape_findings_def Let_def
      split: option.splits if_splits)

lemma checkConfiguration_sel [simp]:
  "di_ok (checkConfiguration c d) = di_ok d" "di_targets (checkConfiguration c d) = di_targets d"
  "di_host (checkConfiguration c d) = di_host d"
proof -
  show "di_ok (checkConfiguration c d) = di_ok d"
    unfolding checkConfiguration_def add_findings using configuration_advises[of c] by blast
  show "di_targets (checkConfiguration c d) = di_targets d" "di_host (checkConfiguration c d) = di_host d"
    by (simp_all only: checkConfiguration_def add_findings)
qed

text \<open>An error among the findings is what makes the diagnosis bad, at every step.\<close>

definition honest :: "diagnosis \<Rightarrow> bool" where
  "honest d \<longleftrightarrow> (di_ok d \<longleftrightarrow> (\<forall>f \<in> set (di_findings d). df_severity f \<noteq> ''error''))"

lemma honest_add: "honest d \<Longrightarrow> honest (add_finding f d)" "honest d \<Longrightarrow> honest (add_target t d)" "honest d \<Longrightarrow> honest (fold add_finding fs d)"
  by (auto simp: honest_def)

lemma checkHost_sel [simp]:
  "di_ok (checkHost d) \<longleftrightarrow> di_ok d \<and> \<not> short_of_files (di_host d)" "di_host (checkHost d) = di_host d" "di_targets (checkHost d) = di_targets d"
  by (auto simp: checkHost_def Let_def open_file_finding_def concurrency_finding_def)

lemma honest_host: "honest d \<Longrightarrow> honest (checkHost d)"
  by (auto simp: checkHost_def Let_def intro!: honest_add)

text \<open>The row of a target, and when it lets the run go on.\<close>

definition row_of :: "machine \<Rightarrow> policy \<Rightarrow> string \<Rightarrow> target_report \<Rightarrow> bool" where
  "row_of mc p h t \<longleftrightarrow> tr_host t = h \<and> (tr_allowed t \<longleftrightarrow> (\<exists>u. admitted (mc_lookup mc) p h u)) \<and> (tr_reason t = [] \<longleftrightarrow> tr_allowed t)"

lemma checkTarget_sel:
  "di_ok (checkTarget mc p d h) \<longleftrightarrow> di_ok d \<and> (\<exists>u. admitted (mc_lookup mc) p h u)"
  "di_host (checkTarget mc p d h) = di_host d"
  "\<exists>t. di_targets (checkTarget mc p d h) = di_targets d @ [t] \<and> row_of mc p h t"
  "honest d \<Longrightarrow> honest (checkTarget mc p d h)"
  by (auto simp: checkTarget_def admitted_def row_of_def refusal_text_def unresolved_text_def Let_def
      intro!: honest_add split: sum.splits)

lemma targets_checked:
  "di_ok (foldl (checkTarget mc p) d hs) \<longleftrightarrow> di_ok d \<and> (\<forall>h \<in> set hs. \<exists>u. admitted (mc_lookup mc) p h u)"
  "di_host (foldl (checkTarget mc p) d hs) = di_host d"
  "\<exists>ts. di_targets (foldl (checkTarget mc p) d hs) = di_targets d @ ts \<and> list_all2 (row_of mc p) hs ts"
  "honest d \<Longrightarrow> honest (foldl (checkTarget mc p) d hs)"
proof (induction hs arbitrary: d)
  case (Cons h hs)
  { case 1 show ?case using Cons(1)[of "checkTarget mc p d h"] by (auto simp: checkTarget_sel(1)) }
  { case 2 show ?case using Cons(2)[of "checkTarget mc p d h"] by (simp add: checkTarget_sel(2)) }
  { case 3 show ?case using Cons(3)[of "checkTarget mc p d h"] checkTarget_sel(3)[of mc p d h] by force }
  { case 4 then show ?case using Cons(4)[of "checkTarget mc p d h"] checkTarget_sel(4) by simp }
qed auto

lemma check_hosts_admits:
  "(\<exists>m'. snd (check_hosts lookup p hs m) = Inr m') \<longleftrightarrow> (\<forall>h \<in> set hs. \<exists>u. admitted lookup p h u)"
proof (induction hs arbitrary: m)
  case (Cons h hs)
  show ?case
  proof (cases "rbind (Resolve lookup h) (\<lambda>t. rbind (CheckTarget p t) (\<lambda>_. Inr t))")
    case (Inl e)
    then have "\<not> admitted lookup p h u" for u by (auto simp: admitted_def)
    then show ?thesis using Inl by simp
  next
    case (Inr t)
    then have "admitted lookup p h t" by (auto simp: admitted_def rbind_Inr)
    then show ?thesis by (auto simp only: check_hosts.simps Inr sum.case prod.case_eq_if snd_conv Cons list.set)
  qed
qed simp

text \<open>The sum of the ceilings, as long as it fits a machine integer.\<close>

definition ceilings :: "configuration \<Rightarrow> int" where
  "ceilings c = sum_list (map (\<lambda>name. case executor_of c name of Some ex \<Rightarrow> max 0 (xs_max_in_flight ex) | None \<Rightarrow> 0) (Runners c))"

lemma planned_wraps: "planned_conns c = wrap64 (ceilings c)"
proof -
  let ?g = "\<lambda>name. case executor_of c name of Some ex \<Rightarrow> max 0 (xs_max_in_flight ex) | None \<Rightarrow> 0"
  have "foldl (\<lambda>n name. case executor_of c name of
       Some ex \<Rightarrow> if 0 < xs_max_in_flight ex then wrap64 (n + xs_max_in_flight ex) else n
     | None \<Rightarrow> n) (wrap64 s) ns = wrap64 (s + sum_list (map ?g ns))" for s ns
  proof (induction ns arbitrary: s)
    case (Cons name ns)
    have "(case executor_of c name of
       Some ex \<Rightarrow> if 0 < xs_max_in_flight ex then wrap64 (wrap64 s + xs_max_in_flight ex) else wrap64 s
     | None \<Rightarrow> wrap64 s) = wrap64 (s + ?g name)" by (auto split: option.splits)
    then show ?case using Cons[of "s + ?g name"] by (simp add: add.assoc)
  qed simp
  from this[of 0] show ?thesis by (simp add: planned_conns_def ceilings_def wrap64_def)
qed

lemma ceilings_nonneg: "0 \<le> ceilings c"
  unfolding ceilings_def by (intro sum_list_nonneg) (auto split: option.splits)

definition enough_files :: "machine \<Rightarrow> configuration \<Rightarrow> bool" where
  "enough_files mc c \<longleftrightarrow> (case openFileLimit mc of None \<Rightarrow> True
     | Some n \<Rightarrow> 0 < n \<and> 0 < ceilings c \<longrightarrow> ceilings c + headroom \<le> n)"

lemma short_iff: "ceilings c + headroom < 2 ^ 63 \<Longrightarrow> short_of_files (hostReport mc c) \<longleftrightarrow> \<not> enough_files mc c"
  using ceilings_nonneg[of c]
  by (auto simp: short_of_files_def hostReport_def planned_wraps enough_files_def wrap64_id headroom_def split: option.splits)

lemma ranked: "sorted (map (\<lambda>f. 2 - severityRank (df_severity f)) (rank_findings fs))" "set (rank_findings fs) = set fs"
  "filter (\<lambda>f. severityRank (df_severity f) = k) (rank_findings fs) = filter (\<lambda>f. severityRank (df_severity f) = k) fs"
proof -
  show "sorted (map (\<lambda>f. 2 - severityRank (df_severity f)) (rank_findings fs))" by (simp add: rank_findings_def)
  show "set (rank_findings fs) = set fs" by (simp add: rank_findings_def)
  have low: "severityRank s \<le> 2" for s by simp
  show "filter (\<lambda>f. severityRank (df_severity f) = k) (rank_findings fs) = filter (\<lambda>f. severityRank (df_severity f) = k) fs"
  proof (cases "k \<le> 2")
    case True
    then have same: "severityRank s = k \<longleftrightarrow> 2 - severityRank s = 2 - k" for s using low[of s] by linarith
    show ?thesis unfolding rank_findings_def same by (rule sort_key_stable)
  next
    case False
    then have "severityRank s \<noteq> k" for s using low[of s] by linarith
    then show ?thesis by (simp del: severityRank.simps)
  qed
qed

text \<open>C34. The doctor and the engine agree. A diagnosis is good exactly when the open files of the machine cover the connections the
  configuration may hold and every target passes the check the engine makes before it contacts anything; there is a row for every target,
  that says so of each; an error is reported exactly when the diagnosis is bad; and the findings come worst first, in the order they were
  made within a severity.\<close>

theorem doctor_verdict:
  assumes "ceilings c + headroom < 2 ^ 63" "d = diagnose mc urls c p ws path"
  shows "(di_ok d \<longleftrightarrow> enough_files mc c \<and> (\<exists>m. snd (check_hosts (mc_lookup mc) p (Targets urls c) Map.empty) = Inr m)) \<and>
    list_all2 (row_of mc p) (Targets urls c) (di_targets d) \<and>
    (di_ok d \<longleftrightarrow> (\<forall>f \<in> set (di_findings d). df_severity f \<noteq> ''error'')) \<and>
    (\<exists>fs. di_findings d = rank_findings fs \<and> sorted (map (\<lambda>f. 2 - severityRank (df_severity f)) (di_findings d)) \<and>
      (\<forall>k. filter (\<lambda>f. severityRank (df_severity f) = k) (di_findings d) = filter (\<lambda>f. severityRank (df_severity f) = k) fs))"
proof -
  define d0 where "d0 = \<lparr>di_path = path, di_ok = True, di_findings = [],
    di_host = \<lparr>ho_cpus = 0, ho_gomaxprocs = 0, ho_open_files = 0, ho_planned = 0\<rparr>, di_targets = []\<rparr>"
  define d1 where "d1 = (fold add_finding (map warning_finding ws) d0)\<lparr>di_host := hostReport mc c\<rparr>"
  define d2 where "d2 = checkConfiguration c (checkTargets mc urls c p (checkHost d1))"
  have d: "d = d2\<lparr>di_findings := rank_findings (di_findings d2)\<rparr>"
    unfolding assms(2) diagnose_def Let_def d2_def d1_def d0_def ..
  have d1: "di_ok d1" "di_host d1 = hostReport mc c" "di_targets d1 = []" "honest d1"
    by (auto simp: d1_def d0_def warning_finding_def honest_def)
  note hosts = targets_checked[where mc = mc and p = p and d = "checkHost d1" and hs = "Targets urls c"]
  have "di_ok d2 \<longleftrightarrow> enough_files mc c \<and> (\<exists>m. snd (check_hosts (mc_lookup mc) p (Targets urls c) Map.empty) = Inr m)"
    unfolding check_hosts_admits using hosts(1) d1 short_iff[OF assms(1)] by (auto simp: d2_def checkTargets_def)
  moreover have "list_all2 (row_of mc p) (Targets urls c) (di_targets d2)"
    using hosts(3) d1(3) by (auto simp: d2_def checkTargets_def)
  moreover have "honest d2"
    using hosts(4) honest_host[OF d1(4)] honest_add(3) by (auto simp: d2_def checkTargets_def checkConfiguration_def)
  ultimately show ?thesis unfolding d honest_def using ranked by auto
qed

text \<open>A configuration of one Redis runner with its host on this machine.\<close>

definition small_machine :: machine where
  "small_machine = \<lparr>mc_cpus = 4, mc_gomaxprocs = 4, mc_rlimit = Some 1024, mc_lookup = pe_lookup solo_peers,
     mc_lookup_error = (\<lambda>_. ''no such host''), mc_quote = (\<lambda>s. s)\<rparr>"

theorem doctor_verdict_witness:
  "di_ok (diagnose small_machine (urls_of (el_world solo_lib)) solo_config ServerDefault [] ''f'')"
proof -
  have few: "ceilings solo_config = xs_max_in_flight solo_executor"
    by (simp add: ceilings_def solo_sections executor_of_def solo_executor_def)
  have "\<forall>h \<in> set (Targets (urls_of (el_world solo_lib)) solo_config). \<exists>u. admitted (mc_lookup small_machine) ServerDefault h u"
    using solo_admitted by (auto simp: solo_sections small_machine_def)
  then have "\<exists>m. snd (check_hosts (mc_lookup small_machine) ServerDefault (Targets (urls_of (el_world solo_lib)) solo_config) Map.empty) = Inr m"
    by (simp only: check_hosts_admits)
  then show ?thesis
    using doctor_verdict[of solo_config _ small_machine "urls_of (el_world solo_lib)" ServerDefault "[]" "''f''"] few
    by (simp add: solo_executor_def headroom_def enough_files_def openFileLimit_def small_machine_def)
qed

text \<open>The command writes one document and exits with the code that the diagnosis, or the failure before it, gives.\<close>

lemma doctor_command:
  "Execute_doctor mc urls (Inr (c, p, ws)) path json True =
     (if di_ok (diagnose mc urls c p ws path) then ExitOK else ExitRuntime,
      [if json then DiagnosisDoc (diagnose mc urls c p ws path) else DiagnosisPage (renderDiagnosis (diagnose mc urls c p ws path))])"
  "Execute_doctor mc urls (Inl e) path json True =
     (exit_code_of (Some (Coded e)), if json then [DoctorEnvelope (EnvelopeDoc (envelope_of (Coded e)))] else [])"
  by (simp_all add: Execute_doctor_def doctor_run_def Let_def report_def ExitRuntime_def)

end
