(* ===== verification/Commands.thy ===== *)
theory Commands
  imports Doctor
begin

text \<open>
  The rest of \<open>internal/cli\<close>: the flags every command shares, the commands \<open>validate\<close>, \<open>schema\<close> and \<open>version\<close> beside \<open>run\<close> and
  \<open>doctor\<close>, what is written for a person when a command fails, the text of a plan, and how the second interrupt ends the process;
  with \<open>internal/schemas\<close> and \<open>internal/buildinfo\<close>. The parsing of flags is a library's: its outcome, a command or an error, is an
  argument. So are the embedded files, the values of the linker and the texts of errors.
\<close>

section \<open>The shared flags\<close>

record globals =
  gl_output :: string
  gl_log_format :: string
  gl_log_level :: string
  gl_no_colour :: bool

definition default_globals :: globals where
  "default_globals = \<lparr>gl_output = ''human'', gl_log_format = ''text'', gl_log_level = ''info'', gl_no_colour = False\<rparr>"

definition json :: "globals \<Rightarrow> bool" where
  "json g \<longleftrightarrow> gl_output g = ''json''"

record terminal =
  tm_is_tty :: bool
  tm_no_colour :: bool

definition colour :: "globals \<Rightarrow> terminal \<Rightarrow> bool" where
  "colour g e \<longleftrightarrow> tm_is_tty e \<and> \<not> tm_no_colour e \<and> \<not> gl_no_colour g \<and> \<not> json g"

datatype log_level = LevelDebug | LevelInfo | LevelWarn | LevelError

text \<open>The level and whether the lines are JSON.\<close>

definition logger :: "globals \<Rightarrow> log_level \<times> bool" where
  "logger g =
     (if gl_log_level g = ''debug'' then LevelDebug
      else if gl_log_level g = ''warn'' then LevelWarn
      else if gl_log_level g = ''error'' then LevelError else LevelInfo,
      gl_log_format g = ''json'')"

definition pre_run :: "globals \<Rightarrow> cli_error option" where
  "pre_run g = (if gl_output g = ''human'' \<or> gl_output g = ''json'' then None
     else Some (OtherError (Coded (new_error CodeOpsInvalidInput))))"

section \<open>What a person reads of a failure\<close>

record error_texts =
  et_message :: "coded_error \<Rightarrow> string"
  et_hint :: "coded_error \<Rightarrow> string"
  et_error :: "go_error \<Rightarrow> string"

definition printDetail :: "error_texts \<Rightarrow> coded_error \<Rightarrow> string \<Rightarrow> string" where
  "printDetail tx e indent =
     (if err_path e \<noteq> []
      then indent @ ''at '' @
        (if 0 < err_line e
         then err_path e @ '' (line '' @ itoa (err_line e) @ (if 0 < err_column e then '', column '' @ itoa (err_column e) else []) @ '')''
         else err_path e) @ nl
      else if 0 < err_line e then indent @ ''at line '' @ itoa (err_line e) @ nl else []) @
     (if et_hint tx e \<noteq> [] then indent @ et_hint tx e @ nl else [])"

definition dimCode :: "code \<Rightarrow> string" where
  "dimCode c = ''error code: '' @ code_str c"

definition writeHumanError :: "error_texts \<Rightarrow> go_error \<Rightarrow> string" where
  "writeHumanError tx err =
     (case as_coded err of
        None \<Rightarrow> ''tracepoint: '' @ et_error tx err @ nl
      | Some e \<Rightarrow> ''tracepoint: '' @ et_message tx e @ nl @ printDetail tx e ''  '' @
          concat (map (\<lambda>c. nl @ ''  '' @ et_message tx c @ nl @ printDetail tx c ''    '') (err_causes e)) @
          nl @ ''  '' @ dimCode (err_code e) @ nl)"

definition cli_summarise :: "error_texts \<Rightarrow> go_error \<Rightarrow> string" where
  "cli_summarise tx err = (case as_coded err of None \<Rightarrow> et_error tx err | Some e \<Rightarrow> code_str (err_code e) @ '': '' @ et_message tx e)"

text \<open>What \<open>report\<close> writes on standard error.\<close>

definition report_stderr :: "error_texts \<Rightarrow> bool \<Rightarrow> cli_error \<Rightarrow> string" where
  "report_stderr tx js e =
     (if js then []
      else case e of
        ExitError x \<Rightarrow> (case xe_err x of None \<Rightarrow> []
          | Some err \<Rightarrow> if xe_documented x then nl @ cli_summarise tx err @ nl else writeHumanError tx err)
      | OtherError err \<Rightarrow> writeHumanError tx err)"

section \<open>Schemas and the build\<close>

definition descriptions :: "(string \<times> string) list" where
  "descriptions =
    [(''config'', ''a TracePoint run configuration''),
     (''policy'', ''the safety envelope a human grants''),
     (''result'', ''result.json, the system of record for one run''),
     (''digest'', ''the prioritised, context-sized summary an agent reads''),
     (''events'', ''one line of the append-only event stream''),
     (''error'', ''the error envelope every failure is reported in'')]"

definition Names :: "string list" where
  "Names = sort (map fst descriptions)"

definition Describe :: "string \<Rightarrow> string" where
  "Describe n = (case map_of descriptions n of Some d \<Rightarrow> d | None \<Rightarrow> [])"

definition Get_schema :: "(string \<Rightarrow> string option) \<Rightarrow> string \<Rightarrow> string result" where
  "Get_schema files n = (case files (n @ ''.schema.json'') of Some b \<Rightarrow> Inr b | None \<Rightarrow> Inl (new_error CodeOpsInvalidInput))"

record info =
  io_name :: string
  io_version :: string
  io_commit :: string
  io_date :: string
  io_go :: string
  io_os :: string
  io_arch :: string

text \<open>What the linker and the runtime know, and the build information of the module when there is any.\<close>

record stamp =
  bd_version :: string
  bd_commit :: string
  bd_date :: string
  bd_runtime :: "string \<times> string \<times> string"
  bd_build :: "(string \<times> (string \<times> string) list) option"

definition apply_setting :: "info \<Rightarrow> string \<times> string \<Rightarrow> info" where
  "apply_setting i s =
     (if fst s = ''vcs.revision'' then (if io_commit i = ''none'' then i\<lparr>io_commit := snd s\<rparr> else i)
      else if fst s = ''vcs.time'' then (if io_date i = ''unknown'' then i\<lparr>io_date := snd s\<rparr> else i)
      else i)"

definition Get_info :: "stamp \<Rightarrow> info" where
  "Get_info st =
     (let i = (case bd_runtime st of (go, os, arch) \<Rightarrow>
        \<lparr>io_name = ''tracepoint'', io_version = bd_version st, io_commit = bd_commit st, io_date = bd_date st, io_go = go, io_os = os, io_arch = arch\<rparr>)
      in case bd_build st of None \<Rightarrow> i
         | Some (v, settings) \<Rightarrow>
             foldl apply_setting
               (if io_version i = ''dev'' \<and> v \<noteq> [] \<and> v \<noteq> ''(devel)'' then i\<lparr>io_version := v\<rparr> else i) settings)"

definition version_page :: "info \<Rightarrow> string" where
  "version_page i = ''tracepoint '' @ io_version i @ '' ('' @ io_commit i @ '', built '' @ io_date i @ '', '' @ io_go i @ '' '' @
     io_os i @ ''/'' @ io_arch i @ '')'' @ nl"

section \<open>The text of a plan\<close>

definition dur :: "real \<Rightarrow> string" where
  "dur s = duration_string (go_trunc (s * 1000000000))"

definition bool_text :: "bool \<Rightarrow> string" where
  "bool_text b = (if b then ''true'' else ''false'')"

definition plan_runner_lines :: "plan_runner \<Rightarrow> string" where
  "plan_runner_lines r =
     ''  '' @ field 6 (pr_name r) @ '' '' @ field 8 (pr_kind r) @ '' '' @ pr_profile r @ nl @
     ''         peak '' @ float_text (pr_peak r) @ ''/s, about '' @ fixed 0 (pr_offered r) @ '' operations, '' @
     itoa (int (length (pr_labels r))) @ '' label(s)'' @ nl @
     (if pr_writes r \<noteq> [] then ''         writes: '' @ join (pr_writes r) '', '' @ nl else [])"

definition RenderPlan :: "plan_fmt \<Rightarrow> plan \<Rightarrow> string" where
  "RenderPlan fm p =
     nl @ ''Plan for '' @ pn_path p @ nl @
     ''  '' @ pn_arrival p @ '' over '' @ dur (pn_duration p) @ '', '' @ dur (pn_bucket p) @ '' buckets'' @
     (if 0 < pn_warmup p then '', '' @ dur (pn_warmup p) @ '' warm-up'' else []) @ nl @ nl @
     concat (map plan_runner_lines (pn_runners p)) @
     (if pn_targets p \<noteq> [] then nl @ ''  targets: '' @ join (pn_targets p) '', '' @ nl else []) @
     concat (map (\<lambda>s. ''  slo: '' @ ps_runner s @ '' '' @ ps_metric s @ '' <= '' @ ps_budget s @ nl) (pn_slo p)) @
     nl @ ''  safety: writes='' @ bool_text (py_allow_writes (pn_safety p)) @ '' dangerous='' @ bool_text (py_allow_dangerous (pn_safety p)) @
     '' insecure_tls='' @ bool_text (py_allow_insecure_tls (pn_safety p)) @ nl @
     (case py_max_rate (pn_safety p) of None \<Rightarrow> []
      | Some m \<Rightarrow> ''          max '' @ fm_g fm m @ '' operations per second per runner'' @ nl) @
     concat (map (\<lambda>w. nl @ ''  ! '' @ w_message w @ nl @ (if w_fix w \<noteq> [] then ''    '' @ w_fix w @ nl else [])) (pn_warnings p)) @
     nl @ ''  nothing was contacted and no load was generated.'' @ nl @ nl"

section \<open>The commands\<close>

record validate_doc =
  vl_path :: string
  vl_runners :: "string list"
  vl_duration :: string
  vl_targets :: "string list"
  vl_warnings :: "warning list"

definition validate_page :: "string \<Rightarrow> configuration \<Rightarrow> warning list \<Rightarrow> string" where
  "validate_page path c ws = path @ '' is valid: '' @ join (Runners c) '', '' @ '' over '' @ duration_string (rn_duration (cf_run c)) @ nl @
     concat (map (\<lambda>w. ''  ! '' @ w_message w @ nl @ (if w_fix w \<noteq> [] then ''    '' @ w_fix w @ nl else [])) ws)"

datatype tool_doc = RunOut out_doc | DoctorOut doctor_doc | ValidateOut validate_doc configuration | SchemaOut string | VersionOut info
  | Page string

fun is_json :: "tool_doc \<Rightarrow> bool" where
  "is_json (RunOut d) = (d \<noteq> HumanPage)"
| "is_json (DoctorOut d) = (case d of DiagnosisPage _ \<Rightarrow> False | _ \<Rightarrow> True)"
| "is_json (ValidateOut d c) = True"
| "is_json (SchemaOut s) = True"
| "is_json (VersionOut i) = True"
| "is_json (Page s) = False"

definition emit :: "bool \<Rightarrow> tool_doc \<Rightarrow> tool_doc list \<times> cli_error option" where
  "emit writable d = (if writable then ([d], None) else ([], write_failed))"

definition run_validate ::
  "'u url_lib \<Rightarrow> 'v userinfo_lib \<Rightarrow> (configuration \<times> policy \<times> warning list) result \<Rightarrow> string \<Rightarrow> bool \<Rightarrow> bool \<Rightarrow>
   tool_doc list \<times> cli_error option" where
  "run_validate urls ui prepared path writable js =
     (case prepared of
        Inl e \<Rightarrow> ([], Some (OtherError (Coded e)))
      | Inr (c, _, ws) \<Rightarrow>
          if js then emit writable (ValidateOut \<lparr>vl_path = path, vl_runners = Runners c,
              vl_duration = duration_string (rn_duration (cf_run c)), vl_targets = Targets urls c, vl_warnings = ws\<rparr> (redact_config ui c))
          else (if writable then [Page (validate_page path c ws)] else [], None))"

definition run_schema :: "(string \<Rightarrow> string option) \<Rightarrow> string \<Rightarrow> bool \<Rightarrow> bool \<Rightarrow> tool_doc list \<times> cli_error option" where
  "run_schema files n writable js = (case Get_schema files n of
      Inl e \<Rightarrow> ([], Some (OtherError (Coded e))) | Inr doc \<Rightarrow> emit writable (SchemaOut doc))"

definition run_version :: "stamp \<Rightarrow> bool \<Rightarrow> bool \<Rightarrow> tool_doc list \<times> cli_error option" where
  "run_version st writable js = (let i = Get_info st in if js then emit writable (VersionOut i) else (if writable then [Page (version_page i)] else [], None))"

definition run_doctor ::
  "machine \<Rightarrow> 'u url_lib \<Rightarrow> (configuration \<times> policy \<times> warning list) result \<Rightarrow> string \<Rightarrow> bool \<Rightarrow> bool \<Rightarrow>
   tool_doc list \<times> cli_error option" where
  "run_doctor mc urls prepared path writable js =
     (case doctor_run mc urls prepared path js writable of (ds, e) \<Rightarrow> (map DoctorOut ds, e))"

definition run_run :: "run_world \<Rightarrow> run_options \<Rightarrow> bool \<Rightarrow> tool_doc list \<times> cli_error option" where
  "run_run w opts js = (case runRun w (opts\<lparr>ro_json := js\<rparr>) of (ds, e) \<Rightarrow> (map RunOut ds, e))"

datatype tool_command = Help | Run run_options | Validate | Doctor | Schema string | Version

record ('u, 'v) tool_world =
  tw_run :: run_world
  tw_urls :: "'u url_lib"
  tw_userinfo :: "'v userinfo_lib"
  tw_machine :: machine
  tw_path :: string
  tw_files :: "string \<Rightarrow> string option"
  tw_stamp :: stamp

text \<open>\<open>run\<close>, \<open>validate\<close> and \<open>doctor\<close> prepare in the same way. Help is written on standard error by the library.\<close>

fun act :: "('u, 'v) tool_world \<Rightarrow> tool_command \<Rightarrow> bool \<Rightarrow> tool_doc list \<times> cli_error option" where
  "act w Help js = ([], None)"
| "act w (Run opts) js = run_run (tw_run w) opts js"
| "act w Validate js = run_validate (tw_urls w) (tw_userinfo w) (rw_prepared (tw_run w)) (tw_path w) (rw_writable (tw_run w)) js"
| "act w Doctor js = run_doctor (tw_machine w) (tw_urls w) (rw_prepared (tw_run w)) (tw_path w) (rw_writable (tw_run w)) js"
| "act w (Schema n) js = run_schema (tw_files w) n (rw_writable (tw_run w)) js"
| "act w Version js = run_version (tw_stamp w) (rw_writable (tw_run w)) js"

text \<open>The end of \<open>Execute\<close>: the code, and the envelope where one is due.\<close>

definition conclude :: "bool \<Rightarrow> bool \<Rightarrow> tool_doc list \<times> cli_error option \<Rightarrow> int \<times> tool_doc list" where
  "conclude js writable r = (case r of
      (docs, None) \<Rightarrow> (ExitOK, docs)
    | (docs, Some e) \<Rightarrow> (case report js writable e of (code, docs') \<Rightarrow> (code, docs @ map RunOut docs')))"

definition Execute_tool :: "('u, 'v) tool_world \<Rightarrow> globals \<Rightarrow> go_error + tool_command \<Rightarrow> int \<times> tool_doc list" where
  "Execute_tool w g parsed = conclude (json g) (rw_writable (tw_run w))
     (case parsed of
        Inl e \<Rightarrow> ([], Some (OtherError e))
      | Inr cmd \<Rightarrow>
          if cmd = Help then ([], None)
          else (case pre_run g of Some e \<Rightarrow> ([], Some e) | None \<Rightarrow> act w cmd (json g)))"

section \<open>The contract of a command\<close>

text \<open>In JSON mode a command either writes one document, and then its error is an outcome that the document tells already, or it writes
  nothing and returns an error. \<open>code_of\<close> is the code a document stands for.\<close>

locale reporting_command =
  fixes acts :: "bool \<Rightarrow> tool_doc list \<times> cli_error option" and code_of :: "tool_doc \<Rightarrow> int"
  assumes one_or_error: "acts True = (docs, err) \<Longrightarrow>
    (\<exists>d. docs = [d] \<and> is_json d \<and>
       (err = None \<and> code_of d = ExitOK \<or>
        (\<exists>x er. err = Some (ExitError x) \<and> xe_documented x \<and> xe_err x = Some er \<and> xe_code x = code_of d \<and> code_of d \<noteq> 0))) \<or>
    (docs = [] \<and> (\<exists>er. err = Some (OtherError er)))"
begin

lemma concluded:
  assumes "conclude True True (acts True) = (code, docs)"
  shows "\<exists>d. docs = [d] \<and> is_json d \<and>
    (fst (acts True) = [d] \<and> code = code_of d \<or>
     (\<exists>er. snd (acts True) = Some (OtherError er) \<and> d = RunOut (EnvelopeDoc (envelope_of er)) \<and> code = exit_code_of (Some er)))"
proof -
  obtain ds err where a: "acts True = (ds, err)" by (metis prod.exhaust)
  from one_or_error[OF a] show ?thesis
  proof
    assume "\<exists>d. ds = [d] \<and> is_json d \<and>
       (err = None \<and> code_of d = ExitOK \<or>
        (\<exists>x er. err = Some (ExitError x) \<and> xe_documented x \<and> xe_err x = Some er \<and> xe_code x = code_of d \<and> code_of d \<noteq> 0))"
    then show ?thesis using assms a by (auto simp: conclude_def report_def)
  next
    assume "ds = [] \<and> (\<exists>er. err = Some (OtherError er))"
    then show ?thesis using assms a by (auto simp: conclude_def report_def)
  qed
qed

end

lemma exits_nonzero: "ExitRuntime \<noteq> 0" "ExitInvalid \<noteq> 0" "ExitBreach \<noteq> 0"
  by (simp_all add: ExitRuntime_def ExitInvalid_def ExitBreach_def)

text \<open>The code a document stands for.\<close>

fun run_code :: "run_options \<Rightarrow> tool_doc \<Rightarrow> int" where
  "run_code opts (RunOut (ResultDoc r)) = outcomeExit r (ro_allow_invalid opts)"
| "run_code opts d = ExitOK"

fun doctor_code :: "tool_doc \<Rightarrow> int" where
  "doctor_code (DoctorOut (DiagnosisDoc d)) = (if di_ok d then ExitOK else ExitRuntime)"
| "doctor_code d = ExitOK"

lemma run_outcome:
  "case outcome_error r allow of None \<Rightarrow> outcomeExit r allow = ExitOK
   | Some x \<Rightarrow> xe_documented x \<and> (\<exists>er. xe_err x = Some er) \<and> xe_code x = outcomeExit r allow \<and> outcomeExit r allow \<noteq> 0"
  by (auto simp: outcome_error_def outcomeExit_def exits_nonzero)

lemma run_reports: "reporting_command (run_run (w\<lparr>rw_writable := True\<rparr>) opts) (run_code opts)"
proof
  fix docs err assume r: "run_run (w\<lparr>rw_writable := True\<rparr>) opts True = (docs, err)"
  show "(\<exists>d. docs = [d] \<and> is_json d \<and>
       (err = None \<and> run_code opts d = ExitOK \<or>
        (\<exists>x er. err = Some (ExitError x) \<and> xe_documented x \<and> xe_err x = Some er \<and> xe_code x = run_code opts d \<and> run_code opts d \<noteq> 0))) \<or>
    (docs = [] \<and> (\<exists>er. err = Some (OtherError er)))"
  proof (cases "\<exists>res. docs = [RunOut (ResultDoc res)] \<and> err = map_option ExitError (outcome_error res (ro_allow_invalid opts))")
    case True
    then obtain res where "docs = [RunOut (ResultDoc res)]" "err = map_option ExitError (outcome_error res (ro_allow_invalid opts))" by blast
    then show ?thesis using run_outcome[of res "ro_allow_invalid opts"]
      by (cases "outcome_error res (ro_allow_invalid opts)") auto
  next
    case False
    then show ?thesis using r
      by (auto simp: run_run_def runRun_def write_failed_def split: sum.splits option.splits if_splits)
  qed
qed

interpretation run_cmd: reporting_command "run_run (w\<lparr>rw_writable := True\<rparr>) opts" "run_code opts" for w opts
  by (rule run_reports)

interpretation validate_cmd: reporting_command "run_validate urls ui prepared path True" "\<lambda>_. ExitOK" for urls ui prepared path
  by unfold_locales (auto simp: run_validate_def emit_def split: sum.splits)

interpretation doctor_cmd: reporting_command "run_doctor mc urls prepared path True" doctor_code for mc urls prepared path
  by unfold_locales (auto simp: run_doctor_def doctor_run_def Let_def exits_nonzero split: sum.splits if_splits)

interpretation schema_cmd: reporting_command "run_schema files n True" "\<lambda>_. ExitOK" for files n
  by unfold_locales (auto simp: run_schema_def emit_def split: sum.splits)

interpretation version_cmd: reporting_command "run_version st True" "\<lambda>_. ExitOK" for st
  by unfold_locales (auto simp: run_version_def emit_def Let_def)

section \<open>The whole tool\<close>

fun stands_for :: "tool_command \<Rightarrow> tool_doc \<Rightarrow> int" where
  "stands_for (Run opts) d = run_code opts d"
| "stands_for Doctor d = doctor_code d"
| "stands_for _ d = ExitOK"

definition is_envelope :: "go_error \<Rightarrow> int \<Rightarrow> tool_doc \<Rightarrow> bool" where
  "is_envelope er code d \<longleftrightarrow> d = RunOut (EnvelopeDoc (envelope_of er)) \<and> code = d_exit_code (envelope_of er) \<and> code \<noteq> ExitOK"

lemma envelope_code: "is_envelope er (exit_code_of (Some er)) (RunOut (EnvelopeDoc (envelope_of er)))"
  using failure_codes[of er] by (simp add: is_envelope_def)

lemma concluded_each:
  assumes "rw_writable (tw_run w)" "cmd \<noteq> Help" "conclude True True (act w cmd True) = (code, docs)"
  shows "\<exists>d. docs = [d] \<and> is_json d \<and>
    (fst (act w cmd True) = [d] \<and> code = stands_for cmd d \<or>
     (\<exists>er. snd (act w cmd True) = Some (OtherError er) \<and> is_envelope er code d))"
proof (cases cmd)
  case (Run opts)
  have "(tw_run w)\<lparr>rw_writable := True\<rparr> = tw_run w" using assms(1) by simp
  then show ?thesis using run_cmd.concluded[of "tw_run w" opts code docs] assms(3) envelope_code Run by fastforce
next
  case Validate
  then show ?thesis
    using validate_cmd.concluded[of "tw_urls w" "tw_userinfo w" "rw_prepared (tw_run w)" "tw_path w" code docs] assms envelope_code by fastforce
next
  case Doctor
  then show ?thesis
    using doctor_cmd.concluded[of "tw_machine w" "tw_urls w" "rw_prepared (tw_run w)" "tw_path w" code docs] assms envelope_code by fastforce
next
  case (Schema n)
  then show ?thesis using schema_cmd.concluded[of "tw_files w" n code docs] assms envelope_code by fastforce
next
  case Version
  then show ?thesis using version_cmd.concluded[of "tw_stamp w" code docs] assms envelope_code by fastforce
qed (use assms in simp)

lemma refused_alike:
  assumes "rw_prepared (tw_run w) = Inl e" "cmd = Validate \<or> cmd = Doctor \<or> (\<exists>opts. cmd = Run opts)"
  shows "act w cmd js = ([], Some (OtherError (Coded e)))"
  using assms by (auto simp: run_validate_def run_doctor_def doctor_run_def run_run_def runRun_def)

text \<open>C23. With \<open>--output json\<close> and a stream that can be written, every command puts exactly one JSON document on standard output. Either it is
  the command's own document and the process exits with the code that document stands for - the validity and the budgets of a result, the
  verdict of a diagnosis, otherwise 0 - or it is the envelope of an error, which names the code the process exits with, never 0. An error
  of the flags is one of these, and a configuration that cannot be prepared is refused by \<open>run\<close>, \<open>validate\<close> and \<open>doctor\<close> with the same
  envelope and code.\<close>

theorem tool_contract:
  assumes "json g" "rw_writable (tw_run w)" "parsed \<noteq> Inr Help" "Execute_tool w g parsed = (code, docs)"
  shows "\<exists>d. docs = [d] \<and> is_json d \<and>
    (case parsed of
       Inl er \<Rightarrow> is_envelope er code d
     | Inr cmd \<Rightarrow>
         (fst (act w cmd True) = [d] \<and> code = stands_for cmd d \<or> (\<exists>er. snd (act w cmd True) = Some (OtherError er) \<and> is_envelope er code d)) \<and>
         (\<forall>e. rw_prepared (tw_run w) = Inl e \<and> (cmd = Validate \<or> cmd = Doctor \<or> (\<exists>opts. cmd = Run opts)) \<longrightarrow> is_envelope (Coded e) code d))"
proof (cases parsed)
  case (Inl er)
  then show ?thesis using assms envelope_code[of er] by (auto simp: Execute_tool_def conclude_def report_def)
next
  case (Inr cmd)
  have run: "conclude True True (act w cmd True) = (code, docs)" and cmd: "cmd \<noteq> Help"
    using assms Inr by (auto simp: Execute_tool_def pre_run_def json_def)
  obtain d where d: "docs = [d]" "is_json d" "fst (act w cmd True) = [d] \<and> code = stands_for cmd d \<or>
      (\<exists>er. snd (act w cmd True) = Some (OtherError er) \<and> is_envelope er code d)"
    using concluded_each[OF assms(2) cmd run] by blast
  have "is_envelope (Coded e) code d" if "rw_prepared (tw_run w) = Inl e" "cmd = Validate \<or> cmd = Doctor \<or> (\<exists>opts. cmd = Run opts)" for e
    using d(3) refused_alike[OF that, of True] by simp
  then show ?thesis using d Inr by auto
qed

definition refusing_tool :: "(unit, unit) tool_world" where
  "refusing_tool = \<lparr>tw_run = refusing_world, tw_urls = no_url_lib, tw_userinfo = no_urls, tw_machine = small_machine, tw_path = ''f'',
     tw_files = (\<lambda>_. None), tw_stamp = \<lparr>bd_version = ''dev'', bd_commit = ''none'', bd_date = ''unknown'', bd_runtime = (''go'', ''linux'', ''amd64''),
       bd_build = None\<rparr>\<rparr>"

theorem tool_contract_witness:
  "\<exists>d. snd (Execute_tool refusing_tool (default_globals\<lparr>gl_output := ''json''\<rparr>) (Inr Validate)) = [d] \<and> is_json d \<and>
    is_envelope (Coded (new_error CodeConfigNoRunner)) (fst (Execute_tool refusing_tool (default_globals\<lparr>gl_output := ''json''\<rparr>) (Inr Validate))) d"
proof -
  have w: "json (default_globals\<lparr>gl_output := ''json''\<rparr>)" "rw_writable (tw_run refusing_tool)" "rw_prepared (tw_run refusing_tool) = Inl (new_error CodeConfigNoRunner)"
    by (simp_all add: json_def refusing_tool_def refusing_world_def)
  from tool_contract[OF w(1,2) _ prod.collapse[symmetric], of "Inr Validate"] w(3) show ?thesis by auto
qed

section \<open>Small parts\<close>

lemma schemas_listed: "sorted Names \<and> distinct Names \<and> (\<forall>n \<in> set Names. Describe n \<noteq> [])"
  by code_simp

lemma colour_needs_terminal: "colour g e \<Longrightarrow> tm_is_tty e \<and> \<not> json g"
  by (simp add: colour_def)

text \<open>Values of the linker are never overwritten by the build information.\<close>

lemma stamped_kept:
  "bd_commit st \<noteq> ''none'' \<Longrightarrow> io_commit (Get_info st) = bd_commit st"
  "bd_date st \<noteq> ''unknown'' \<Longrightarrow> io_date (Get_info st) = bd_date st"
  "bd_version st \<noteq> ''dev'' \<Longrightarrow> io_version (Get_info st) = bd_version st"
proof -
  have commit: "io_commit i \<noteq> ''none'' \<Longrightarrow> io_commit (foldl apply_setting i ss) = io_commit i" for i ss
    by (induction ss arbitrary: i) (auto simp: apply_setting_def)
  have date: "io_date i \<noteq> ''unknown'' \<Longrightarrow> io_date (foldl apply_setting i ss) = io_date i" for i ss
    by (induction ss arbitrary: i) (auto simp: apply_setting_def)
  have ver: "io_version (foldl apply_setting i ss) = io_version i" for i ss
    by (induction ss arbitrary: i) (auto simp: apply_setting_def)
  show "bd_commit st \<noteq> ''none'' \<Longrightarrow> io_commit (Get_info st) = bd_commit st"
    "bd_date st \<noteq> ''unknown'' \<Longrightarrow> io_date (Get_info st) = bd_date st"
    "bd_version st \<noteq> ''dev'' \<Longrightarrow> io_version (Get_info st) = bd_version st"
    by (auto simp: Get_info_def Let_def commit date ver split: prod.splits option.splits)
qed

section \<open>The second interrupt\<close>

text \<open>\<open>watchForSecondSignal\<close> over what happens, in order: the context ends, the command finishes, a signal arrives.\<close>

datatype watched = ContextDone | CommandFinished | SignalArrived

fun await_second :: "watched list \<Rightarrow> int option" where
  "await_second [] = None"
| "await_second (CommandFinished # es) = None"
| "await_second (SignalArrived # es) = Some ExitRuntime"
| "await_second (ContextDone # es) = await_second es"

fun watchForSecondSignal :: "watched list \<Rightarrow> int option" where
  "watchForSecondSignal [] = None"
| "watchForSecondSignal (CommandFinished # es) = None"
| "watchForSecondSignal (ContextDone # es) = await_second es"
| "watchForSecondSignal (SignalArrived # es) = watchForSecondSignal es"

lemma await_second_iff:
  "await_second es = (if SignalArrived \<in> set (takeWhile (\<lambda>e. e \<noteq> CommandFinished) es) then Some ExitRuntime else None)"
  by (induction es rule: await_second.induct) auto

text \<open>The process is ended exactly when a signal arrives after the context has ended and before the command has finished.\<close>

lemma second_signal_exits:
  "watchForSecondSignal es =
     (if SignalArrived \<in> set (dropWhile (\<lambda>e. e \<noteq> ContextDone) (takeWhile (\<lambda>e. e \<noteq> CommandFinished) es)) then Some ExitRuntime else None)"
  by (induction es rule: watchForSecondSignal.induct) (auto simp: await_second_iff)

end
