(* ===== verification/Document.thy ===== *)
theory Document
  imports EngineRun Commands
begin

text \<open>
  What is around a run: the registry of runners (\<open>internal/runner/runner.go\<close>), the whole result document with the identity of the tool,
  the machine and the configuration (\<open>internal/result/build.go\<close>, \<open>result.go\<close>), its text and its file (\<open>Encode\<close>, \<open>Decode\<close>, and
  \<open>writeResultFile\<close> of \<open>internal/cli/commands.go\<close>). \<open>encoding/json\<close>, the hash, the format of a time and the file system are arguments.
\<close>

section \<open>The registry\<close>

text \<open>A factory takes the section of its runner as an opaque value.\<close>

datatype section_value = HTTPConfig "http_section option" duration duration | OtherValue

type_synonym 'f factories = "(string \<times> 'f) list"

definition Register :: "string \<Rightarrow> 'f \<Rightarrow> 'f factories \<Rightarrow> 'f factories" where
  "Register name f r = AList.update name f r"

definition Registered :: "'f factories \<Rightarrow> string list" where
  "Registered r = sort (map fst r)"

definition New_registered ::
  "('a \<Rightarrow> 'd \<Rightarrow> 'r result) factories \<Rightarrow> string \<Rightarrow> 'a \<Rightarrow> 'd \<Rightarrow> 'r result" where
  "New_registered r name cfg deps = (case map_of r name of
      None \<Rightarrow> Inl (new_error CodeConfigInvalidValue)
    | Some f \<Rightarrow> f cfg deps)"

text \<open>The one registration there is, in \<open>init\<close> of \<open>httprun.go\<close>; the dependencies are the collector.\<close>

definition http_factory ::
  "('u, 's, 'p, 'k, 'r) engine_lib \<Rightarrow> section_value \<Rightarrow> 's collector \<Rightarrow> (('s, 'p, 'k) http_runner \<times> 's collector) result" where
  "http_factory lib v col = (case v of
      HTTPConfig h runDuration timeout \<Rightarrow> New_http (el_world lib) (el_certs lib) (Some (el_sketches lib)) h timeout col
    | OtherValue \<Rightarrow> Inl (new_error CodeInternal))"

definition linked ::
  "('u, 's, 'p, 'k, 'r) engine_lib \<Rightarrow> (section_value \<Rightarrow> 's collector \<Rightarrow> (('s, 'p, 'k) http_runner \<times> 's collector) result) factories" where
  "linked lib = Register ''http'' (http_factory lib) []"

text \<open>Registering again replaces, so names are listed once, in order, whatever the order of registrations.\<close>

theorem registered_once:
  fixes r :: "'f factories"
  assumes "distinct (map fst r)"
  shows "Registered (Register name f r) = sorted_list_of_set (insert name (set (Registered r)))"
proof -
  have "distinct (map fst (AList.update name f r))" using assms by (rule distinct_update)
  then have "sort (map fst (AList.update name f r)) = sorted_list_of_set (set (map fst (AList.update name f r)))"
    by (simp only: sorted_list_of_set_sort_remdups distinct_remdups_id)
  also have "set (map fst (AList.update name f r)) = insert name (set (map fst r))"
    using dom_update[of name f r] by simp
  finally show ?thesis unfolding Registered_def Register_def by simp
qed

theorem registered_once_witness:
  "Registered (Register ''db'' (1 :: nat) (Register ''http'' 2 [])) = [''db'', ''http'']"
proof -
  have "distinct (map fst (Register ''http'' (2 :: nat) []))" by (simp add: Register_def)
  from registered_once[OF this, of "''db''" 1] show ?thesis by (simp add: Registered_def Register_def)
qed

text \<open>The engine does not ask the registry: it builds runners that are not registered.\<close>

lemma unregistered_runners:
  "New_registered (linked lib) ''db'' v col = Inl (new_error CodeConfigInvalidValue)" "Registered (linked lib) = [''http'']"
  by (simp_all add: New_registered_def linked_def Register_def Registered_def)

section \<open>The document\<close>

record host =
  hn_hostname :: string
  hn_cpus :: int
  hn_gomaxprocs :: int
  hn_open_files :: int

definition result_openFileLimit :: "machine \<Rightarrow> int option" where
  "result_openFileLimit mc = (case mc_rlimit mc of None \<Rightarrow> None | Some cur \<Rightarrow> if 2147483647 < cur then None else Some cur)"

definition hostInfo :: "machine \<Rightarrow> string option \<Rightarrow> host" where
  "hostInfo mc hostname = \<lparr>hn_hostname = (case hostname of Some n \<Rightarrow> n | None \<Rightarrow> []), hn_cpus = mc_cpus mc, hn_gomaxprocs = mc_gomaxprocs mc,
     hn_open_files = (case result_openFileLimit mc of Some n \<Rightarrow> n | None \<Rightarrow> 0)\<rparr>"

text \<open>The fields no code sets (the policy, telemetry, capacity) are left out.\<close>

record 'j config_doc =
  cd_hash :: string
  cd_effective :: 'j
  cd_source :: string
  cd_overrides :: "string list"

record 'j document = result_doc +
  dc_tool :: info
  dc_started :: string
  dc_finished :: string
  dc_host :: host
  dc_config :: "'j config_doc option"
  dc_artifacts :: "artifacts option"

text \<open>\<open>encoding/json\<close> and \<open>crypto/sha256\<close>; \<open>None\<close> is an error.\<close>

record 'j json_lib =
  js_config :: "configuration \<Rightarrow> string option"
  js_plain :: "string \<Rightarrow> 'j option"
  js_sum :: "string \<Rightarrow> string"
  js_text :: "'j document \<Rightarrow> string option"
  js_version :: "string \<Rightarrow> string option"
  js_document :: "string \<Rightarrow> 'j document option"

record input = build_input +
  in_effective :: "configuration option"
  in_source :: string
  in_overrides :: "string list"
  in_started :: int
  in_finished :: "int option"
  in_artifacts :: "artifacts option"

definition buildConfig :: "'j json_lib \<Rightarrow> input \<Rightarrow> 'j config_doc option result" where
  "buildConfig J i = (case bi_config i of
      None \<Rightarrow> Inr None
    | Some c \<Rightarrow> (case js_config J (case in_effective i of None \<Rightarrow> c | Some e \<Rightarrow> e) of
        None \<Rightarrow> Inl (new_error CodeInternal)
      | Some canonical \<Rightarrow> (case js_plain J canonical of
          None \<Rightarrow> Inl (new_error CodeInternal)
        | Some value \<Rightarrow> Inr (Some \<lparr>cd_hash = ''sha256:'' @ js_sum J canonical, cd_effective = value,
            cd_source = in_source i, cd_overrides = in_overrides i\<rparr>))))"

definition Build_document ::
  "'j json_lib \<Rightarrow> (float64 \<Rightarrow> string) \<Rightarrow> stamp \<Rightarrow> machine \<Rightarrow> string option \<Rightarrow> (int \<Rightarrow> string) \<Rightarrow> input \<Rightarrow> 'j document result" where
  "Build_document J fmt st mc hostname utc i =
     rbind (buildConfig J i) (\<lambda>c.
       Inr (result_doc.extend (Build fmt (build_input.truncate i))
         \<lparr>dc_tool = Get_info st, dc_started = utc (in_started i),
          dc_finished = (case in_finished i of None \<Rightarrow> [] | Some t \<Rightarrow> utc t),
          dc_host = hostInfo mc hostname, dc_config = c, dc_artifacts = in_artifacts i\<rparr>))"

text \<open>Indented JSON and a newline; and back, for documents of the same major version.\<close>

definition Encode_document :: "'j json_lib \<Rightarrow> 'j document \<Rightarrow> string result" where
  "Encode_document J d = (case js_text J d of None \<Rightarrow> Inl (new_error CodeInternal) | Some t \<Rightarrow> Inr (t @ nl))"

definition Decode_document :: "'j json_lib \<Rightarrow> string \<Rightarrow> 'j document result" where
  "Decode_document J data = (case js_version J data of
      None \<Rightarrow> Inl (new_error CodeResultParse)
    | Some v \<Rightarrow> (case check_schema v of
        Some e \<Rightarrow> Inl e
      | None \<Rightarrow> (case js_document J data of None \<Rightarrow> Inl (new_error CodeResultParse) | Some d \<Rightarrow> Inr d)))"


section \<open>The file\<close>

text \<open>The directories and files a process can see; what may go wrong is an argument.\<close>

record disk =
  dk_dirs :: "string set"
  dk_files :: "string \<rightharpoonup> string"

record disk_lib =
  dl_dir :: "string \<Rightarrow> string"
  dl_mkdir :: "disk \<Rightarrow> string \<Rightarrow> bool"
  dl_put :: "disk \<Rightarrow> string \<Rightarrow> bool"

definition writeResultFile :: "'j json_lib \<Rightarrow> disk_lib \<Rightarrow> string \<Rightarrow> 'j document \<Rightarrow> disk \<Rightarrow> coded_error option \<times> disk" where
  "writeResultFile J fs path d k = (case Encode_document J d of
      Inl e \<Rightarrow> (Some e, k)
    | Inr data \<Rightarrow>
        (let dir = dl_dir fs path; needed = dir \<noteq> ''.'' \<and> dir \<noteq> []
         in if needed \<and> \<not> dl_mkdir fs k dir then (Some (new_error CodeIOWriteFailed), k)
            else (let k' = (if needed then k\<lparr>dk_dirs := insert dir (dk_dirs k)\<rparr> else k)
                  in if \<not> dl_put fs k' path then (Some (new_error CodeIOWriteFailed), k')
                     else (None, k'\<lparr>dk_files := (dk_files k')(path \<mapsto> data)\<rparr>))))"

text \<open>The warnings of preparing, as findings of the document.\<close>

definition planWarnings :: "warning list \<Rightarrow> finding list" where
  "planWarnings ws = map (\<lambda>w. mk_finding (w_code w) SeverityWarn (w_message w) [] (w_fix w)) ws"

text \<open>The end of \<open>runRun\<close>: the file first, then the artifacts, then standard output.\<close>

definition finish_run :: "'j json_lib \<Rightarrow> disk_lib \<Rightarrow> string \<Rightarrow> 'j document \<Rightarrow> disk \<Rightarrow> (coded_error + 'j document) \<times> disk" where
  "finish_run J fs path res k =
     (if path = [] then (Inr res, k)
      else (case writeResultFile J fs path res k of
          (Some e, k') \<Rightarrow> (Inl e, k')
        | (None, k') \<Rightarrow> (Inr (res\<lparr>dc_artifacts := Some \<lparr>af_result = path, af_report = [], af_events = [], af_digest = []\<rparr>\<rparr>), k')))"

section \<open>What the document keeps\<close>

text \<open>The identity of the configuration does not depend on its secrets: the hash and the embedded copy are those of the redaction.\<close>

lemma Build_document_sel:
  assumes "Build_document J fmt st mc hostname utc i = Inr d"
  shows "result_doc.truncate d = Build fmt (build_input.truncate i)" "dc_artifacts d = in_artifacts i" "rs_schema d = SchemaVersion"
    "buildConfig J i = Inr (dc_config d)"
  using assms by (auto simp: Build_document_def rbind_Inr result_doc.defs Build_def Let_def)

theorem identity_without_secrets:
  assumes "p \<noteq> []"
  shows "buildConfig J (i\<lparr>bi_config := Some (redact_config lib (tamper f g p c))\<rparr>) = buildConfig J (i\<lparr>bi_config := Some (redact_config lib c)\<rparr>)"
  unfolding redact_ignores_secrets[OF assms] ..

text \<open>What a build writes it can read, and so can every build of the same major version; the file of a finished run is the text of the
  engine's document, and what is printed is that document with the path of the file added.\<close>

lemma decode_same_major:
  assumes "js_version J data = Some v" "v \<noteq> []" "js_document J data = Some d"
  shows "Decode_document J data = (if major v = major SchemaVersion then Inr d else Inl (new_error CodeResultSchemaUnsupported))"
  using assms by (simp add: Decode_document_def check_schema_def)

definition faithful_json :: "'j json_lib \<Rightarrow> 'j document \<Rightarrow> bool" where
  "faithful_json J d \<longleftrightarrow> (case js_text J d of None \<Rightarrow> True | Some t \<Rightarrow> js_version J (t @ nl) = Some (rs_schema d) \<and> js_document J (t @ nl) = Some d)"

theorem file_and_output:
  assumes "Build_document J fmt st mc hostname utc i = Inr res" "faithful_json J res" "path \<noteq> []"
    "finish_run J fs path res k = (Inr shown, k')"
  shows "\<exists>data. dk_files k' path = Some data \<and> Decode_document J data = Inr res \<and>
    shown = res\<lparr>dc_artifacts := dc_artifacts shown\<rparr> \<and> map_option af_result (dc_artifacts shown) = Some path \<and>
    (\<forall>other. other \<noteq> path \<longrightarrow> dk_files k' other = dk_files k other)"
proof -
  obtain k1 where w: "writeResultFile J fs path res k = (None, k')"
    and s: "shown = res\<lparr>dc_artifacts := Some \<lparr>af_result = path, af_report = [], af_events = [], af_digest = []\<rparr>\<rparr>"
    using assms(3,4) by (auto simp: finish_run_def split: prod.splits option.splits)
  obtain t where t: "js_text J res = Some t" and k': "dk_files k' = (dk_files k)(path \<mapsto> t @ nl)"
    using w by (auto simp: writeResultFile_def Encode_document_def Let_def split: option.splits sum.splits if_splits)
  have "Decode_document J (t @ nl) = Inr res"
    using assms(2) t Build_document_sel(3)[OF assms(1)] by (simp add: faithful_json_def Decode_document_def check_schema_def SchemaVersion_def)
  with k' s show ?thesis by simp
qed

end
