(* ===== verification/Spec2Isabelle.thy ===== *)
theory Spec2Isabelle
  imports Policy Classify Schedule Weighted Template Guard Executor Redact RedactCopy ReportFacts Runners Plan EngineRun Clock Commands Document
begin

text \<open>
  \<^bold>\<open>TracePoint.\<close> The program generates load against an application, its database and its cache at
  once, measures every operation, and judges the run. This development models its core: what a
  run is allowed to do, when each operation is due, how it is carried out and how it is counted.

  \<^bold>\<open>The parts and how they interact.\<close>

  A configuration document (\<open>internal/config\<close>) is read, its references to the environment are replaced, its keys are checked
  against the types it is decoded into (\<open>load.go\<close>, \<open>knownfields.go\<close>), overrides from the command line are set by path
  (\<open>set.go\<close>), and the result is given its defaults and validated
  (\<open>Finalise\<close>), then held against the policy a human granted (\<open>ApplyPolicy\<close>, which calls
  \<open>internal/policy\<close>). The engine (\<open>internal/engine/engine.go\<close>) builds a collector and a runner for each section, judges every
  target before it contacts any, compiles the stages of every runner to a load profile and a
  schedule of arrival times (\<open>internal/schedule\<close>) and hands it to an executor
  (\<open>internal/executor\<close>): one generator offers an arrival at each time, a bounded queue and a
  bounded set of workers perform them. What an operation does is chosen by weight
  (\<open>internal/runner/weighted.go\<close>) and filled in by templates (\<open>internal/template\<close>). Its outcome
  passes the abort guard (\<open>internal/engine/guard.go\<close>) and is booked by the collector
  (\<open>internal/metrics\<close>), which seals the timeline bucket by bucket and summarises it at the end.
  Every failure is a coded error (\<open>internal/errs\<close>), and reports only ever see a redacted
  configuration (\<open>internal/config/redact.go\<close>). The snapshots of the collectors and the counts of
  the executors become the result document (\<open>internal/result\<close>), from which validity, budgets,
  verdict and exit code follow.

  \<^bold>\<open>Which theory models what.\<close>

  \<^item> \<open>Prelude\<close>: \<open>float64\<close>, truncating division, 64-bit wrap-around, results as sums, the binary
    searches with their two contracts (locales \<open>prefix_test\<close> and \<open>suffix_test\<close>).
  \<^item> \<open>GoStrings\<close>, \<open>GoTime\<close>, \<open>Netip\<close>: what the program uses of \<open>strings\<close>, \<open>strconv\<close>,
    \<open>time.Duration\<close> and \<open>net/netip\<close>, with the facts that text read back is what was written.
  \<^item> \<open>Errs\<close>: \<open>internal/errs/errs.go\<close>. The code constants are a datatype ordered by their text; the
    registry is an association list; exit codes, envelopes and \<open>Worst\<close> follow the code.
  \<^item> \<open>Classify\<close>: \<open>internal/policy/classify.go\<close>. Comment stripping, statement splitting and the verb
    tables; a verdict only gets worse as statements are added.
  \<^item> \<open>Policy\<close>: \<open>internal/policy/policy.go\<close>. The envelope is a record; \<open>Tighten\<close> is one step per
    limit, and the locale \<open>narrowing\<close> carries the promise that no sequence of steps widens it.
  \<^item> \<open>Schedule\<close>: \<open>internal/schedule/schedule.go\<close>. Segments with the quadratic of their cumulative
    count; \<open>Lambda\<close>, \<open>Invert\<close> and \<open>Next\<close>. The specification is the area under the rate curve.
  \<^item> \<open>Weighted\<close>: \<open>internal/runner/weighted.go\<close>, prefix sums searched by \<open>first_true\<close>.
  \<^item> \<open>Template\<close>: \<open>internal/template\<close>. Compilation to parts, rendering against a context, the
    generators; a panic is a value of its own.
  \<^item> \<open>Outcome\<close>, \<open>Collector\<close>: \<open>internal/metrics\<close>. The collector state is a record with the ring of
    open buckets, the sealed timeline and the run totals; each operation is one function and
    \<open>co_step\<close> applies an event. \<open>CollectorFacts\<close> holds the bookkeeping invariant, with the locale
    \<open>tally\<close> for anything that adds up over outcomes, and \<open>CollectorRuns\<close> what a finished run shows.
  \<^item> \<open>Guard\<close>: \<open>internal/engine/guard.go\<close>. A ring of periods that refines a sliding window over the
    list of all observations.
  \<^item> \<open>Executor\<close>: \<open>internal/executor\<close>. The generator and the workers as an inductive step relation
    over a record of queue, workers and counters; \<open>reached\<close> is the set of reachable states.
  \<^item> \<open>Config\<close>: \<open>internal/config/types.go\<close>, one record per section of the document.
  \<^item> \<open>Validate\<close>: \<open>defaults.go\<close> and \<open>validate.go\<close>; each validator returns the problems it adds, and
    the locale \<open>name_judge\<close> is the loop that rejects repeated names.
  \<^item> \<open>Validated\<close>: what a finished configuration guarantees to the schedule and the collector, with
    the schedule \<open>engine.buildExecutors\<close> makes.
  \<^item> \<open>Apply\<close>: \<open>apply_policy.go\<close>, the composition of defaults, policy, classification and schedule.
  \<^item> \<open>Redact\<close>: \<open>redact.go\<close>, with its two regular expressions as matchers.
  \<^item> \<open>RedactCopy\<close>: the copy \<open>redact.go\<close> overwrites, with pointers, maps and arrays in a store.
  \<^item> \<open>Report\<close>, \<open>ReportFacts\<close>: \<open>internal/result\<close> and \<open>outcomeExit\<close> of \<open>internal/cli\<close>. The result
    document, its rounding, the validity of a run, its budgets, the verdict and the exit code.

  \<^item> \<open>Faults\<close>: errors as the runners see them, chains with the sentinels \<open>errors.Is\<close> finds and the text
    \<open>Error\<close> prints; the context of an operation; and the locale \<open>one_outcome\<close>, the contract of
    \<open>runner.Runner\<close>: one stamped outcome per operation.
  \<^item> \<open>HttpRun\<close>, \<open>SqlRun\<close>, \<open>RedisRun\<close>: \<open>internal/runner/httprun\<close>, \<open>sqlrun\<close> and \<open>redisrun\<close>. Each is
    compilation (\<open>New\<close>), the settings of its client or pool, one operation (\<open>Do\<close>) against a peer that
    answers as it likes, and the classification of failures; each interprets \<open>one_outcome\<close>.
  \<^item> \<open>Runners\<close>: what the three share.

  \<^item> \<open>Reflect\<close>, \<open>DocTypes\<close>: Go values and types as \<open>reflect\<close> shows them, with addresses into a value and the
    locale \<open>addressed\<close> of the laws of reading and writing there; the struct types of \<open>types.go\<close> with their tags, and the
    records of \<open>Config\<close> as views of such values.
  \<^item> \<open>KnownFields\<close>: \<open>knownfields.go\<close>, the walk of a YAML node along a type, suggestions and the edit distance.
  \<^item> \<open>SetPath\<close>: \<open>set.go\<close>, paths with selectors, conversion of text to the kind of the place, and the list of paths.
  \<^item> \<open>Load\<close>: \<open>load.go\<close>, interpolation, the order of the checks and the coding of errors.
  \<^item> \<open>Plan\<close>: \<open>prepare\<close> and the run command of \<open>internal/cli/commands.go\<close>, \<open>Load\<close> of \<open>policy.go\<close>, and the plan
    document of \<open>plan.go\<close>.
  \<^item> \<open>Engine\<close>, \<open>EngineRun\<close>: \<open>internal/engine/engine.go\<close>. \<open>Engine\<close> is what a run is built from and the preflight, with a
    trail of who was contacted; \<open>EngineRun\<close> is the run, an inductive step relation over all executors with one guard and the two
    contexts, and \<open>engine_run\<close>, the relation between a configuration and what \<open>Run\<close> returns.
  \<^item> \<open>Clock\<close>: \<open>internal/clock/clock.go\<close>. The waiters of the fake clock live in a store, since a timer shares its waiter with the
    clock; what moving the clock delivers is compared with what each waiter is owed, and the locale \<open>sleeper\<close> is the contract of
    \<open>SleepUntil\<close> that both clocks keep.
  \<^item> \<open>Render\<close>: \<open>internal/render/cli/cli.go\<close>, the summary a terminal shows, section by section as the code has it.
  \<^item> \<open>Doctor\<close>: \<open>internal/cli/doctor.go\<close>, the checks, the findings and the page of the \<open>doctor\<close> command.
  \<^item> \<open>Commands\<close>: the rest of \<open>internal/cli\<close> with \<open>internal/schemas\<close> and \<open>internal/buildinfo\<close>. The locale \<open>reporting_command\<close> is
    what a command promises to \<open>Execute\<close>; every command interprets it.
  \<^item> \<open>Document\<close>: the rest of \<open>internal/result\<close>, the file of a run, and the registry of \<open>internal/runner/runner.go\<close>.

  \<^bold>\<open>What the lemmas show.\<close> For the envelope: tightening never widens, and what an accepted
  configuration does at every instant stays inside what was granted. For the load: arrival times
  invert the cumulative count exactly, every validated executor has a profile that lasts the run,
  and the executor offers what the schedule delivers. For the measurement: whatever the order of
  operations, seals and late outcomes, the totals are those of the outcomes recorded after the
  warm-up, labels add up to the runner, the timeline misses nothing, and a sealed bucket never
  changes. For the executor: no job is lost or doubled in any interleaving, the bounds hold, and
  draining ends. For the report: when a run is invalid, which exit code follows, and that rounding
  moves nothing by more than half a microsecond. For the
  runners: one outcome per operation whatever the peer does, transactions that are all or nothing, no
  write without leave, and failures sorted the same way on every tier. For text: what is written is read back, and
  redaction does not depend on the secrets, and making it changes nothing
  the run can see, however its objects are shared. For what is loaded: exactly the keys that do not exist are reported, and an
  override changes one place and nothing else. For the whole: whatever is accepted, with any
  overrides, stays inside the envelope; a dry run foretells the schedule; nothing is contacted before it is judged; a document accounts for
  the schedule of every runner; its status says how the run ended; and a run can always be brought to its end. For the edges: the
  fake clock wakes a sleeper exactly at its deadline; the doctor and the engine agree on what would be admitted; colour moves nothing
  on the terminal; and in JSON mode every command writes one document whose meaning is the exit code.

  \<^bold>\<open>Abstractions, bounds and parameters.\<close> A finite \<open>float64\<close> is an exact real; NaN and the
  infinities are kept where the code tests for them. Durations are integers of nanoseconds, with
  the wrap at 64 bits written out where sums can reach it. Text is ASCII for case mapping, white
  space and the regular expressions. The sketch library, the random sources, \<open>net/url\<close>, name
  resolution, the YAML parser and decoder, \<open>strconv.ParseFloat\<close>, files, the environment, the printers of \<open>fmt\<close> and the peers of an operation
  are parameters. One collector or guard operation and one move of the generator or of a worker
  is atomic. No definition needs fuel: every loop is structural or has a termination proof, and
  draining an executor takes at most three steps per queue place and worker. The messages and hints of errors and the
  log lines are left out, except where the code sorts or prints by them; there they are translated, or are an argument.

  \<^bold>\<open>Not modelled.\<close> The
  transports under the runners (\<open>net/http\<close>, \<open>database/sql\<close>, the Redis client), the YAML library, the flag library and the tree of
  commands it is given, the log lines, the JSON encoding, the hash, the file system, the machine, and the types of \<open>internal/result/result.go\<close> that are reserved for later
  phases and that no code reads or writes: input and output around the modelled core. The
  interleavings inside one collector operation, and rounding of floating point, are not covered.
\<close>

end
